(* ===== verification/JsPrelude.thy ===== *)
theory JsPrelude
  imports Main "HOL-Library.List_Lexorder"
begin

text \<open>
  The prelude of the development: the parts of the JavaScript language and of its
  standard library that the modelled TypeScript uses, and the generic lemmas that the
  component theories share.

  \<^item> A JavaScript string is a list of UTF-16 code units (\<open>jstring\<close>); \<open>js\<close> turns an
    ASCII literal into one.
  \<^item> A plain object is an association list in property enumeration order (\<open>obj\<close>), a
    \<open>Map\<close> an association list and a \<open>Set\<close> a distinct list, both in insertion order.
  \<^item> \<open>collapse_ws\<close>, \<open>trim\<close>, \<open>lower\<close>, \<open>split_nl\<close>, \<open>join\<close>, \<open>pad_start\<close>, \<open>slice\<close> and
    \<open>sort_by\<close> are the methods of \<open>String.prototype\<close> and \<open>Array.prototype\<close> that occur.
    \<open>lower\<close> maps the letters of ASCII only: case mapping outside ASCII is not modelled.
\<close>

named_theorems js_simps \<open>rewriting of JavaScript objects, maps and sets\<close>
named_theorems js_intros \<open>introduction rules for well-formedness of objects, maps and sets\<close>

section \<open>Strings\<close>

type_synonym jstring = "nat list"

definition js :: "string \<Rightarrow> jstring" where
  "js s = map of_char s"

lemma js_inject [simp]: "js a = js b \<longleftrightarrow> a = b"
proof -
  have "inj (of_char :: char \<Rightarrow> nat)" by (simp add: inj_def of_char_eq_iff)
  then show ?thesis by (simp add: js_def inj_map_eq_map)
qed

lemma js_Nil [simp]: "js [] = []" "js s = [] \<longleftrightarrow> s = []" "[] = js s \<longleftrightarrow> s = []"
  by (auto simp: js_def)

lemma length_js [simp]: "length (js s) = length s"
  by (simp add: js_def)

lemma js_append: "js (a @ b) = js a @ js b"
  by (simp add: js_def)

lemma js_eq_append_iff [simp]: "js a = js a' @ x \<longleftrightarrow> take (length a') a = a' \<and> x = js (drop (length a') a)"
proof
  assume h: "js a = js a' @ x"
  then have "take (length a') (js a) = js a'" by simp
  then have "js (take (length a') a) = js a'" by (simp add: js_def take_map)
  then have "take (length a') a = a'" by simp
  moreover from h have "drop (length a') (js a) = x" by simp
  ultimately show "take (length a') a = a' \<and> x = js (drop (length a') a)"
    by (simp add: js_def drop_map)
next
  assume "take (length a') a = a' \<and> x = js (drop (length a') a)"
  then show "js a = js a' @ x" by (metis append_take_drop_id js_append)
qed

definition nl :: jstring where "nl = [10]"

text \<open>Decimal digits of a natural number, as \<open>String(n)\<close> prints it.\<close>

fun nat_digits :: "nat \<Rightarrow> jstring" where
  "nat_digits n = (if n < 10 then [48 + n] else nat_digits (n div 10) @ [48 + n mod 10])"

declare nat_digits.simps [simp del]

definition show_int :: "int \<Rightarrow> jstring" where
  "show_int i = (if i < 0 then 45 # nat_digits (nat (- i)) else nat_digits (nat i))"

abbreviation show_nat :: "nat \<Rightarrow> jstring" where
  "show_nat n \<equiv> nat_digits n"

text \<open>\<open>s.padStart(n, c)\<close>.\<close>

definition pad_start :: "nat \<Rightarrow> nat \<Rightarrow> jstring \<Rightarrow> jstring" where
  "pad_start n c s = replicate (n - length s) c @ s"

text \<open>White space and line terminators as \<open>trim\<close> and \<open>\s\<close> see them (ECMA-262 WhiteSpace
  and LineTerminator).\<close>

definition is_ws :: "nat \<Rightarrow> bool" where
  "is_ws c \<longleftrightarrow> (9 \<le> c \<and> c \<le> 13) \<or> c = 32 \<or> c = 160 \<or> c = 5760 \<or> (8192 \<le> c \<and> c \<le> 8202) \<or>
     c = 8232 \<or> c = 8233 \<or> c = 8239 \<or> c = 8287 \<or> c = 12288 \<or> c = 65279"

definition trim :: "jstring \<Rightarrow> jstring" where
  "trim s = rev (dropWhile is_ws (rev (dropWhile is_ws s)))"

definition lower_unit :: "nat \<Rightarrow> nat" where
  "lower_unit c = (if 65 \<le> c \<and> c \<le> 90 then c + 32 else c)"

definition upper_unit :: "nat \<Rightarrow> nat" where
  "upper_unit c = (if 97 \<le> c \<and> c \<le> 122 then c - 32 else c)"

abbreviation lower :: "jstring \<Rightarrow> jstring" where
  "lower s \<equiv> map lower_unit s"

abbreviation upper :: "jstring \<Rightarrow> jstring" where
  "upper s \<equiv> map upper_unit s"

text \<open>\<open>s.replace(/\s+/g, " ")\<close>.\<close>

fun collapse_ws :: "jstring \<Rightarrow> jstring" where
  "collapse_ws [] = []"
| "collapse_ws [c] = [if is_ws c then 32 else c]"
| "collapse_ws (c # d # ds) =
     (if is_ws c \<and> is_ws d then collapse_ws (d # ds)
      else (if is_ws c then 32 else c) # collapse_ws (d # ds))"

text \<open>\<open>s.replace(/[\x00-\x1f]/g, "")\<close>.\<close>

definition strip_ctrl :: "jstring \<Rightarrow> jstring" where
  "strip_ctrl s = filter (\<lambda>c. 31 < c) s"

text \<open>\<open>s.split("\n")\<close>: at least one part.\<close>

fun split_nl :: "jstring \<Rightarrow> jstring list" where
  "split_nl [] = [[]]"
| "split_nl (c # cs) =
     (if c = 10 then [] # split_nl cs
      else (case split_nl cs of [] \<Rightarrow> [[c]] | l # ls \<Rightarrow> (c # l) # ls))"

text \<open>\<open>xs.join(sep)\<close>.\<close>

fun join :: "jstring \<Rightarrow> jstring list \<Rightarrow> jstring" where
  "join sep [] = []"
| "join sep [s] = s"
| "join sep (s # t # ss) = s @ sep @ join sep (t # ss)"

text \<open>\<open>s.includes(t)\<close> and \<open>s.startsWith(t)\<close>.\<close>

fun starts_with :: "jstring \<Rightarrow> jstring \<Rightarrow> bool" where
  "starts_with s [] = True"
| "starts_with [] (c # cs) = False"
| "starts_with (d # ds) (c # cs) = (d = c \<and> starts_with ds cs)"

fun str_includes :: "jstring \<Rightarrow> jstring \<Rightarrow> bool" where
  "str_includes [] t = (t = [])"
| "str_includes (c # cs) t = (starts_with (c # cs) t \<or> str_includes cs t)"

text \<open>Number of bytes of the UTF-8 encoding (\<open>Buffer.byteLength(s, "utf8")\<close>); a surrogate
  pair takes four bytes, a lone surrogate the three bytes of U+FFFD.\<close>

fun utf8_length :: "jstring \<Rightarrow> nat" where
  "utf8_length [] = 0"
| "utf8_length (c # cs) =
     (if c < 128 then 1 + utf8_length cs
      else if c < 2048 then 2 + utf8_length cs
      else if 55296 \<le> c \<and> c < 56320 then
        (case cs of d # ds \<Rightarrow> if 56320 \<le> d \<and> d < 57344 then 4 + utf8_length ds
                             else 3 + utf8_length cs
         | [] \<Rightarrow> 3)
      else 3 + utf8_length cs)"

text \<open>The text that reading back the UTF-8 bytes of a string gives: lone surrogates have
  become U+FFFD.\<close>

fun well_formed :: "jstring \<Rightarrow> jstring" where
  "well_formed [] = []"
| "well_formed (c # cs) =
     (if 55296 \<le> c \<and> c < 56320 then
        (case cs of d # ds \<Rightarrow> if 56320 \<le> d \<and> d < 57344 then c # d # well_formed ds
                             else 65533 # well_formed cs
         | [] \<Rightarrow> [65533])
      else if 56320 \<le> c \<and> c < 57344 then 65533 # well_formed cs
      else c # well_formed cs)"

text \<open>Strings compare by code units (\<open><\<close> on strings, default \<open>sort()\<close>): this is the
  lexicographic order that \<open>List_Lexorder\<close> puts on lists.\<close>

section \<open>Arrays\<close>

text \<open>\<open>xs.slice(from, to)\<close> with the negative-index rule: an index below zero counts from
  the end, and both ends are clamped to the array.\<close>

definition slice_ix :: "nat \<Rightarrow> int \<Rightarrow> nat" where
  "slice_ix len i = (if i < 0 then nat (int len + i) else min len (nat i))"

definition slice :: "'a list \<Rightarrow> int \<Rightarrow> int \<Rightarrow> 'a list" where
  "slice xs a b = take (slice_ix (length xs) b - slice_ix (length xs) a) (drop (slice_ix (length xs) a) xs)"

definition slice_from :: "'a list \<Rightarrow> int \<Rightarrow> 'a list" where
  "slice_from xs a = drop (slice_ix (length xs) a) xs"

text \<open>\<open>xs.sort(cmp)\<close>: a stable sort by a comparator that returns a number.\<close>

fun ins_by :: "('a \<Rightarrow> 'a \<Rightarrow> int) \<Rightarrow> 'a \<Rightarrow> 'a list \<Rightarrow> 'a list" where
  "ins_by cmp x [] = [x]"
| "ins_by cmp x (y # ys) = (if cmp x y \<le> 0 then x # y # ys else y # ins_by cmp x ys)"

fun sort_by :: "('a \<Rightarrow> 'a \<Rightarrow> int) \<Rightarrow> 'a list \<Rightarrow> 'a list" where
  "sort_by cmp [] = []"
| "sort_by cmp (x # xs) = ins_by cmp x (sort_by cmp xs)"

text \<open>\<open>Array.from(new Set(xs))\<close>: the first occurrence of each element.\<close>

fun dedup_from :: "'a list \<Rightarrow> 'a list \<Rightarrow> 'a list" where
  "dedup_from seen [] = seen"
| "dedup_from seen (x # xs) = (if x \<in> set seen then dedup_from seen xs else dedup_from (seen @ [x]) xs)"

abbreviation dedup :: "'a list \<Rightarrow> 'a list" where
  "dedup xs \<equiv> dedup_from [] xs"

text \<open>Elements with their positions.\<close>

definition indexed :: "'a list \<Rightarrow> (nat \<times> 'a) list" where
  "indexed xs = zip [0..<length xs] xs"

section \<open>Objects, maps and sets\<close>

type_synonym 'a obj = "(jstring \<times> 'a) list"

abbreviation obj_get :: "'a obj \<Rightarrow> jstring \<Rightarrow> 'a option" where
  "obj_get \<equiv> map_of"

abbreviation obj_keys :: "'a obj \<Rightarrow> jstring list" where
  "obj_keys o1 \<equiv> map fst o1"

abbreviation obj_values :: "'a obj \<Rightarrow> 'a list" where
  "obj_values o1 \<equiv> map snd o1"

text \<open>Array-index keys (canonical numerals below \<open>2\<^sup>3\<^sup>2 - 1\<close>) are enumerated first, in
  ascending order, whatever the insertion order; \<open>__proto__\<close> is not an own property.\<close>

definition index_value :: "jstring \<Rightarrow> nat" where
  "index_value k = foldl (\<lambda>n c. 10 * n + (c - 48)) 0 k"

definition is_index :: "jstring \<Rightarrow> bool" where
  "is_index k \<longleftrightarrow> k \<noteq> [] \<and> list_all (\<lambda>c. 48 \<le> c \<and> c \<le> 57) k \<and> (hd k \<noteq> 48 \<or> length k = 1) \<and>
     length k \<le> 10 \<and> index_value k < 4294967295"

definition key_before :: "jstring \<Rightarrow> jstring \<Rightarrow> bool" where
  "key_before k l \<longleftrightarrow> is_index k \<and> (\<not> is_index l \<or> index_value k < index_value l)"

fun obj_insert :: "jstring \<Rightarrow> 'a \<Rightarrow> 'a obj \<Rightarrow> 'a obj" where
  "obj_insert k v [] = [(k, v)]"
| "obj_insert k v ((l, w) # os) =
     (if key_before k l then (k, v) # (l, w) # os else (l, w) # obj_insert k v os)"

fun alist_replace :: "'k \<Rightarrow> 'v \<Rightarrow> ('k \<times> 'v) list \<Rightarrow> ('k \<times> 'v) list" where
  "alist_replace k v [] = []"
| "alist_replace k v ((l, w) # os) = (if l = k then (k, v) # os else (l, w) # alist_replace k v os)"

definition proto_key :: jstring where
  "proto_key = js ''__proto__''"

definition obj_set :: "jstring \<Rightarrow> 'a \<Rightarrow> 'a obj \<Rightarrow> 'a obj" where
  "obj_set k v os =
     (if k = proto_key then os
      else if k \<in> fst ` set os then alist_replace k v os
      else obj_insert k v os)"

text \<open>\<open>Map\<close>: insertion order; \<open>set\<close> keeps the place of a key that is present.\<close>

type_synonym ('k, 'v) jmap = "('k \<times> 'v) list"

definition map_put :: "'k \<Rightarrow> 'v \<Rightarrow> ('k, 'v) jmap \<Rightarrow> ('k, 'v) jmap" where
  "map_put k v m = (if k \<in> fst ` set m then alist_replace k v m else m @ [(k, v)])"

definition map_del :: "'k \<Rightarrow> ('k, 'v) jmap \<Rightarrow> ('k, 'v) jmap" where
  "map_del k m = filter (\<lambda>(l, w). l \<noteq> k) m"

type_synonym 'a jset = "'a list"

definition set_add :: "'a \<Rightarrow> 'a jset \<Rightarrow> 'a jset" where
  "set_add x s = (if x \<in> set s then s else s @ [x])"

definition set_del :: "'a \<Rightarrow> 'a jset \<Rightarrow> 'a jset" where
  "set_del x s = filter (\<lambda>y. y \<noteq> x) s"

definition keys_ok :: "('k \<times> 'v) list \<Rightarrow> bool" where
  "keys_ok m \<longleftrightarrow> distinct (map fst m)"

subsection \<open>Lemmas on association lists\<close>

lemma map_of_alist_replace [js_simps]:
  "k \<in> fst ` set m \<Longrightarrow> map_of (alist_replace k v m) = (map_of m)(k \<mapsto> v)"
proof (induction m)
  case (Cons p m)
  then show ?case by (cases p) (force simp: fun_eq_iff)
qed simp

lemma alist_replace_absent [js_simps]: "k \<notin> fst ` set m \<Longrightarrow> alist_replace k v m = m"
  by (induction m) auto

lemma keys_alist_replace [js_simps]: "map fst (alist_replace k v m) = map fst m"
  by (induction m) auto

lemma length_alist_replace [js_simps]: "length (alist_replace k v m) = length m"
  by (induction m) auto

lemma set_obj_insert [js_simps]: "set (obj_insert k v os) = insert (k, v) (set os)"
proof (induction os)
  case (Cons p os)
  then show ?case by (cases p) (simp add: insert_commute)
qed simp

lemma map_of_obj_insert [js_simps]:
  "k \<notin> fst ` set os \<Longrightarrow> map_of (obj_insert k v os) = (map_of os)(k \<mapsto> v)"
proof (induction os)
  case (Cons p os)
  then show ?case by (cases p) (auto simp: fun_eq_iff)
qed simp

lemma distinct_obj_insert [js_simps]:
  "distinct (map fst (obj_insert k v os)) \<longleftrightarrow> k \<notin> fst ` set os \<and> distinct (map fst os)"
proof (induction os)
  case (Cons p os)
  then show ?case by (cases p) (auto simp: set_obj_insert image_iff)
qed simp

lemma obj_insert_snoc: "\<not> is_index k \<Longrightarrow> obj_insert k v os = os @ [(k, v)]"
  by (induction os) (auto simp: key_before_def)

lemma map_of_obj_set [js_simps]:
  "k \<noteq> proto_key \<Longrightarrow> map_of (obj_set k v os) = (map_of os)(k \<mapsto> v)"
  by (simp add: obj_set_def js_simps)

lemma keys_obj_set [js_simps]:
  "k \<noteq> proto_key \<Longrightarrow> fst ` set (obj_set k v os) = insert k (fst ` set os)"
  by (metis map_of_obj_set dom_fun_upd dom_map_of_conv_image_fst option.distinct(1))

lemma keys_ok_obj_set [js_intros]: "keys_ok os \<Longrightarrow> keys_ok (obj_set k v os)"
  by (simp add: keys_ok_def obj_set_def js_simps)

lemma keys_ok_Nil [simp, js_intros]: "keys_ok []"
  by (simp add: keys_ok_def)

lemma map_of_map_put [js_simps]: "map_of (map_put k v m) = (map_of m)(k \<mapsto> v)"
proof (cases "k \<in> fst ` set m")
  case True
  then show ?thesis by (simp add: map_put_def js_simps)
next
  case False
  then have "map_of m k = None" by (simp add: map_of_eq_None_iff)
  with False show ?thesis
    by (auto simp: map_put_def map_add_def fun_eq_iff split: option.splits)
qed

lemma keys_ok_map_put [js_intros]: "keys_ok m \<Longrightarrow> keys_ok (map_put k v m)"
  by (auto simp: keys_ok_def map_put_def js_simps)

lemma keys_map_put [js_simps]: "fst ` set (map_put k v m) = insert k (fst ` set m)"
  by (metis map_of_map_put dom_fun_upd dom_map_of_conv_image_fst option.distinct(1))

lemma map_of_map_del [js_simps]: "map_of (map_del k m) = (map_of m)(k := None)"
  by (induction m) (auto simp: map_del_def fun_eq_iff)

lemma keys_ok_map_del [js_intros]: "keys_ok m \<Longrightarrow> keys_ok (map_del k m)"
  by (induction m) (auto simp: keys_ok_def map_del_def)

lemma length_map_put [js_simps]:
  "length (map_put k v m) = (if k \<in> fst ` set m then length m else Suc (length m))"
  by (simp add: map_put_def js_simps)

lemma keys_ok_map_of_mem: "keys_ok m \<Longrightarrow> map_of m k = Some v \<longleftrightarrow> (k, v) \<in> set m"
  by (simp add: keys_ok_def)

lemma keys_ok_values:
  "keys_ok m \<Longrightarrow> set (map snd m) = ran (map_of m)"
  by (auto simp: keys_ok_def ran_distinct)

lemma set_set_add [js_simps]: "set (set_add x s) = insert x (set s)"
  by (auto simp: set_add_def)

lemma set_set_del [js_simps]: "set (set_del x s) = set s - {x}"
  by (auto simp: set_del_def)

lemma distinct_set_add [js_intros]: "distinct s \<Longrightarrow> distinct (set_add x s)"
  by (simp add: set_add_def)

lemma distinct_set_del [js_intros]: "distinct s \<Longrightarrow> distinct (set_del x s)"
  by (simp add: set_del_def)

subsection \<open>Lemmas on arrays and strings\<close>

lemma mset_ins_by [simp]: "set (ins_by cmp x ys) = insert x (set ys)"
  by (induction ys) auto

lemma set_sort_by [simp]: "set (sort_by cmp xs) = set xs"
  by (induction xs) auto

lemma length_ins_by [simp]: "length (ins_by cmp x ys) = Suc (length ys)"
  by (induction ys) auto

lemma length_sort_by [simp]: "length (sort_by cmp xs) = length xs"
  by (induction xs) auto

lemma distinct_ins_by [simp]: "distinct (ins_by cmp x ys) \<longleftrightarrow> x \<notin> set ys \<and> distinct ys"
  by (induction ys) auto

lemma distinct_sort_by [simp]: "distinct (sort_by cmp xs) \<longleftrightarrow> distinct xs"
  by (induction xs) auto

text \<open>A comparator that is total and transitive on sign sorts.\<close>

definition cmp_order :: "('a \<Rightarrow> 'a \<Rightarrow> int) \<Rightarrow> bool" where
  "cmp_order cmp \<longleftrightarrow>
     (\<forall>x y. cmp x y \<le> 0 \<or> cmp y x \<le> 0) \<and>
     (\<forall>x y z. cmp x y \<le> 0 \<longrightarrow> cmp y z \<le> 0 \<longrightarrow> cmp x z \<le> 0)"

lemma sorted_ins_by:
  assumes "cmp_order cmp" and "sorted_wrt (\<lambda>a b. cmp a b \<le> 0) ys"
  shows "sorted_wrt (\<lambda>a b. cmp a b \<le> 0) (ins_by cmp x ys)"
  using assms(2)
proof (induction ys)
  case Nil
  then show ?case by simp
next
  case (Cons y ys)
  show ?case
  proof (cases "cmp x y \<le> 0")
    case True
    with Cons.prems assms(1) show ?thesis by (auto simp: cmp_order_def)
  next
    case False
    with assms(1) have "cmp y x \<le> 0" by (auto simp: cmp_order_def)
    with False Cons show ?thesis by auto
  qed
qed

lemma sorted_sort_by:
  "cmp_order cmp \<Longrightarrow> sorted_wrt (\<lambda>a b. cmp a b \<le> 0) (sort_by cmp xs)"
  by (induction xs) (auto intro: sorted_ins_by)

lemma set_dedup_from [simp]: "set (dedup_from s xs) = set s \<union> set xs"
  by (induction xs arbitrary: s) auto

lemma distinct_dedup_from [simp]: "distinct (dedup_from s xs) \<longleftrightarrow> distinct s"
proof (induction xs arbitrary: s)
  case (Cons x xs)
  then show ?case by auto
qed simp

lemma dedup_from_prefix: "\<exists>t. dedup_from s xs = s @ t"
proof (induction xs arbitrary: s)
  case (Cons x xs)
  then show ?case by (cases "x \<in> set s") (auto, metis append.assoc)
qed simp

lemma length_slice: "length (slice xs a b) = slice_ix (length xs) b - slice_ix (length xs) a"
  unfolding slice_def by (simp add: slice_ix_def)

lemma slice_0 [simp]: "0 \<le> b \<Longrightarrow> slice xs 0 b = take (nat b) xs"
  by (auto simp: slice_def slice_ix_def min_def)

lemma length_pad_start [simp]: "length (pad_start n c s) = max n (length s)"
  by (simp add: pad_start_def)

lemma split_nl_nonempty [simp]: "split_nl s \<noteq> []"
  by (cases s) (auto split: list.splits)

lemma join_split_nl: "join nl (split_nl s) = s"
proof (induction s)
  case (Cons c cs)
  show ?case
  proof (cases "split_nl cs")
    case (Cons l ls)
    with Cons.IH show ?thesis by (cases ls) (auto simp: nl_def)
  qed simp
qed simp

lemma length_indexed [simp]: "length (indexed xs) = length xs"
  by (simp add: indexed_def)

lemma nth_indexed [simp]: "i < length xs \<Longrightarrow> indexed xs ! i = (i, xs ! i)"
  by (simp add: indexed_def)

lemma map_snd_indexed [simp]: "map snd (indexed xs) = xs"
  by (simp add: indexed_def)

lemma utf8_length_ge: "length s \<le> utf8_length s"
proof (induction s rule: length_induct)
  case (1 s)
  show ?case
  proof (cases s)
    case (Cons c cs)
    with 1 have a: "length cs \<le> utf8_length cs" by simp
    show ?thesis
    proof (cases cs)
      case Nil
      with Cons show ?thesis by simp
    next
      case cs: (Cons d ds)
      with 1 Cons have b: "length ds \<le> utf8_length ds" by simp
      have "Suc (length cs) \<le> utf8_length (c # cs)"
        using a b unfolding cs utf8_length.simps(2) [of c "d # ds"] by simp
      with Cons show ?thesis by simp
    qed
  qed simp
qed

lemma list_find_mem: "List.find P xs = Some x \<Longrightarrow> x \<in> set xs \<and> P x"
  by (induction xs) (auto split: if_splits)

lemma indexed_mem: "(i, x) \<in> set (indexed xs) \<longleftrightarrow> i < length xs \<and> x = xs ! i"
  by (auto simp: indexed_def in_set_zip intro: exI [of _ i])

lemma nat_digits_not_nil [simp]: "nat_digits n \<noteq> []"
  by (simp add: nat_digits.simps [of n])

lemma nat_digits_inj: "nat_digits m = nat_digits n \<Longrightarrow> m = n"
proof (induction m arbitrary: n rule: nat_digits.induct)
  case (1 m)
  show ?case
  proof (cases "m < 10")
    case True
    have "nat_digits (n div 10) \<noteq> []" by simp
    with "1.prems" True have "n < 10"
      by (cases "n < 10") (auto simp: nat_digits.simps [of m] nat_digits.simps [of n])
    with True "1.prems" show ?thesis
      by (simp add: nat_digits.simps [of m] nat_digits.simps [of n])
  next
    case False
    with "1.prems" have n: "\<not> n < 10"
      by (auto simp: nat_digits.simps [of m] nat_digits.simps [of n] split: if_splits)
    with False "1.prems" have "nat_digits (m div 10) = nat_digits (n div 10)" "m mod 10 = n mod 10"
      by (auto simp: nat_digits.simps [of m] nat_digits.simps [of n])
    with "1.IH" False have "m div 10 = n div 10" by blast
    with \<open>m mod 10 = n mod 10\<close> show ?thesis by (metis div_mult_mod_eq)
  qed
qed

lemma set_trim: "set (trim s) \<subseteq> set s"
  by (auto simp: trim_def dest!: set_dropWhileD)

lemma hd_trim: "trim s \<noteq> [] \<Longrightarrow> \<not> is_ws (hd (trim s)) \<and> \<not> is_ws (last (trim s))"
proof -
  assume ne: "trim s \<noteq> []"
  define d where "d = dropWhile is_ws s"
  define r where "r = dropWhile is_ws (rev d)"
  have t: "trim s = rev r" by (simp add: trim_def d_def r_def)
  with ne have "r \<noteq> []" by simp
  then have "\<not> is_ws (hd r)" unfolding r_def by (rule hd_dropWhile)
  moreover have "\<not> is_ws (hd (rev r))"
  proof -
    obtain p where "rev d = p @ r" unfolding r_def by (metis takeWhile_dropWhile_id)
    then have "d = rev r @ rev p" by (metis rev_append rev_rev_ident)
    with \<open>r \<noteq> []\<close> have "hd d = hd (rev r)" and "d \<noteq> []" by simp_all
    with hd_dropWhile [of is_ws s] show ?thesis by (simp add: d_def)
  qed
  ultimately show ?thesis using t \<open>r \<noteq> []\<close> by (simp add: last_rev)
qed

lemma trim_id: "s = [] \<or> \<not> is_ws (hd s) \<and> \<not> is_ws (last s) \<Longrightarrow> trim s = s"
proof (cases s)
  case (Cons c cs)
  assume h: "s = [] \<or> \<not> is_ws (hd s) \<and> \<not> is_ws (last s)"
  with Cons have "dropWhile is_ws s = s" by simp
  moreover have "dropWhile is_ws (rev s) = rev s"
  proof (cases "rev s")
    case (Cons d ds)
    then have "last s = d" by (metis hd_rev list.sel(1) rev_is_Nil_conv list.distinct(1))
    with h \<open>s = c # cs\<close> Cons show ?thesis by simp
  qed simp
  ultimately show ?thesis by (simp add: trim_def)
qed (simp add: trim_def)

lemma trim_trim [simp]: "trim (trim s) = trim s"
  using hd_trim [of s] by (intro trim_id) blast

lemma lower_unit_lower_unit [simp]: "lower_unit (lower_unit c) = lower_unit c"
  by (simp add: lower_unit_def)

lemma lower_lower [simp]: "lower_unit \<circ> lower_unit = lower_unit"
  by (simp add: fun_eq_iff)

end
