(* ===== verification/JsNumber.thy ===== *)
theory JsNumber
  imports JsPrelude
begin

text \<open>
  JavaScript numbers. A finite double is an integer multiple of \<open>2\<^sup>-\<^sup>1\<^sup>0\<^sup>7\<^sup>4\<close>, the least
  positive double; \<open>dbl\<close> is that multiple. \<open>rnd_quot p q\<close> is the double nearest to
  \<open>p / q\<close> (ties to even, 53 significant bits), so \<open>fadd\<close>, \<open>fsub\<close>, \<open>fmul\<close>, \<open>fdiv\<close> and
  the decimal literals \<open>dec n k\<close> (\<open>n / 10\<^sup>k\<close>) are IEEE-754 binary64 arithmetic in
  round-to-nearest. NaN, the infinities and negative zero are outside the model: the
  numbers of a manifest are finite. \<open>to_fixed\<close> and \<open>num_to_string\<close> are
  \<open>Number.prototype.toFixed\<close> and \<open>Number::toString\<close>.
\<close>

type_synonym dbl = int

definition ulp0 :: int where
  "ulp0 = 2 ^ 1074"

section \<open>Rounding\<close>

fun blen :: "nat \<Rightarrow> nat" where
  "blen n = (if n = 0 then 0
             else if n < 2 ^ 64 then Suc (blen (n div 2))
             else 64 + blen (n div 2 ^ 64))"

declare blen.simps [simp del]

definition rhe :: "int \<Rightarrow> int \<Rightarrow> int" where
  "rhe p q = (let d = p div q; r = p mod q in
     if 2 * r < q then d else if q < 2 * r then d + 1 else if even d then d else d + 1)"

definition rnd_quot :: "int \<Rightarrow> int \<Rightarrow> dbl" where
  "rnd_quot p q = (let a = \<bar>p\<bar>; s = blen (nat (a div q)) - 53 in
     sgn p * (2 ^ s * rhe a (q * 2 ^ s)))"

definition rnd :: "int \<Rightarrow> dbl" where
  "rnd x = rnd_quot x 1"

definition dbl_of_int :: "int \<Rightarrow> dbl" where
  "dbl_of_int n = rnd (n * ulp0)"

definition dec :: "int \<Rightarrow> nat \<Rightarrow> dbl" where
  "dec n k = rnd_quot (n * ulp0) (10 ^ k)"

definition fadd :: "dbl \<Rightarrow> dbl \<Rightarrow> dbl" where "fadd x y = rnd (x + y)"
definition fsub :: "dbl \<Rightarrow> dbl \<Rightarrow> dbl" where "fsub x y = rnd (x - y)"
definition fmul :: "dbl \<Rightarrow> dbl \<Rightarrow> dbl" where "fmul x y = rnd_quot (x * y) ulp0"
definition fdiv :: "dbl \<Rightarrow> dbl \<Rightarrow> dbl" where "fdiv x y = rnd_quot (x * ulp0 * sgn y) \<bar>y\<bar>"

definition is_dbl :: "int \<Rightarrow> bool" where
  "is_dbl x \<longleftrightarrow> rnd x = x"

section \<open>Printing\<close>

text \<open>\<open>x.toFixed(f)\<close> for \<open>|x| < 10\<^sup>2\<^sup>1\<close>.\<close>

definition to_fixed :: "nat \<Rightarrow> dbl \<Rightarrow> jstring" where
  "to_fixed f x =
     (let n = nat ((2 * \<bar>x\<bar> * 10 ^ f + ulp0) div (2 * ulp0));
          m = pad_start (f + 1) 48 (nat_digits n)
      in (if x < 0 then [45] else []) @
         (if f = 0 then nat_digits n else take (length m - f) m @ [46] @ drop (length m - f) m))"

fun neg_exp :: "nat \<Rightarrow> int \<Rightarrow> nat" where
  "neg_exp 0 x = 0"
| "neg_exp (Suc fuel) x = (if x * 10 < ulp0 then Suc (neg_exp fuel (x * 10)) else 0)"

text \<open>The \<open>n\<close> with \<open>10\<^sup>n\<^sup>-\<^sup>1 \<le> x < 10\<^sup>n\<close>; 330 steps reach the least double.\<close>

definition dec_exp :: "dbl \<Rightarrow> int" where
  "dec_exp x = (if ulp0 \<le> x then int (length (nat_digits (nat (x div ulp0)))) else - int (neg_exp 330 x))"

definition of_digits :: "int \<Rightarrow> int \<Rightarrow> dbl" where
  "of_digits s e = (if 0 \<le> e then rnd_quot (s * ulp0 * 10 ^ nat e) 1 else rnd_quot (s * ulp0) (10 ^ nat (- e)))"

definition digit_candidates :: "dbl \<Rightarrow> int \<Rightarrow> int list" where
  "digit_candidates x e =
     (let p = (if 0 \<le> e then x else x * 10 ^ nat (- e));
          q = (if 0 \<le> e then ulp0 * 10 ^ nat e else ulp0);
          d = p div q; r = p mod q
      in if 2 * r < q then [d, d + 1] else [d + 1, d])"

fun shortest_from :: "nat \<Rightarrow> nat \<Rightarrow> int \<Rightarrow> dbl \<Rightarrow> int \<times> nat" where
  "shortest_from 0 k n x = (hd (digit_candidates x (n - int k)), k)"
| "shortest_from (Suc fuel) k n x =
     (case filter (\<lambda>s. of_digits s (n - int k) = x) (digit_candidates x (n - int k)) of
        s # _ \<Rightarrow> (s, k)
      | [] \<Rightarrow> shortest_from fuel (Suc k) n x)"

definition num_to_string :: "dbl \<Rightarrow> jstring" where
  "num_to_string x =
     (if x = 0 then [48] else
      let a = \<bar>x\<bar>; n0 = dec_exp a; (s0, k) = shortest_from 16 1 n0 a;
          up = (s0 = 10 ^ k); s = (if up then s0 div 10 else s0); n = (if up then n0 + 1 else n0);
          ds = nat_digits (nat s);
          body =
            (if int k \<le> n \<and> n \<le> 21 then ds @ replicate (nat n - k) 48
             else if 0 < n \<and> n \<le> 21 then take (nat n) ds @ [46] @ drop (nat n) ds
             else if - 6 < n \<and> n \<le> 0 then [48, 46] @ replicate (nat (- n)) 48 @ ds
             else let e = n - 1; es = (if e < 0 then [45] else [43]) @ nat_digits (nat \<bar>e\<bar>) in
               (if k = 1 then ds else take 1 ds @ [46] @ drop 1 ds) @ [101] @ es)
      in (if x < 0 then 45 # body else body))"

section \<open>Lemmas on rounding\<close>

text \<open>Evaluation of literals and operations on them.\<close>


lemma blen_less: "n < 2 ^ blen n"
proof (induction n rule: blen.induct)
  case (1 n)
  show ?case
  proof (cases "n = 0")
    case False
    show ?thesis
    proof (cases "n < 2 ^ 64")
      case True
      with 1 False have "n div 2 < 2 ^ blen (n div 2)" by blast
      with True False show ?thesis by (simp add: blen.simps [of n])
    next
      case big: False
      with 1 False have "n div 2 ^ 64 < 2 ^ blen (n div 2 ^ 64)" by blast
      then have "n < 2 ^ blen (n div 2 ^ 64) * 2 ^ 64"
        by (simp add: less_mult_imp_div_less div_less_iff_less_mult)
      with big show ?thesis by (simp add: blen.simps [of n] power_add mult.commute)
    qed
  qed (simp add: blen.simps)
qed

lemma blen_pos: "0 < n \<Longrightarrow> 0 < blen n"
  using blen_less [of n] by (cases "blen n") auto

lemma int_le_div_iff:
  assumes "0 < (q::int)" shows "c \<le> a div q \<longleftrightarrow> c * q \<le> a"
proof
  assume "c \<le> a div q"
  then have "c * q \<le> a div q * q" using assms by (simp add: mult_right_mono)
  also have "\<dots> = a - a mod q" by (simp add: minus_mod_eq_div_mult)
  also have "\<dots> \<le> a" using assms by simp
  finally show "c * q \<le> a" .
next
  assume "c * q \<le> a"
  then have "c * q div q \<le> a div q" using assms by (simp only: zdiv_mono1)
  with assms show "c \<le> a div q" by simp
qed

lemma blen_ge: "0 < n \<Longrightarrow> 2 ^ (blen n - 1) \<le> n"
proof (induction n rule: blen.induct)
  case (1 n)
  show ?case
  proof (cases "n < 2 ^ 64")
    case small: True
    show ?thesis
    proof (cases "n div 2 = 0")
      case True
      with 1 small show ?thesis by (simp add: blen.simps [of n] blen.simps [of 0])
    next
      case False
      with 1 small have "2 ^ (blen (n div 2) - 1) \<le> n div 2" by (auto simp: not_less)
      moreover have "0 < blen (n div 2)" using False by (simp add: blen_pos)
      ultimately have "2 ^ blen (n div 2) \<le> n"
        by (cases "blen (n div 2)") (auto simp: mult.commute)
      with small 1 show ?thesis by (simp add: blen.simps [of n])
    qed
  next
    case big: False
    then have pos: "0 < n div 2 ^ 64" by (simp add: div_greater_zero_iff)
    with 1 big have "2 ^ (blen (n div 2 ^ 64) - 1) \<le> n div 2 ^ 64" by auto
    then have "2 ^ (blen (n div 2 ^ 64) - 1) * 2 ^ 64 \<le> n"
      by (metis div_times_less_eq_dividend mult_le_mono1 le_trans)
    moreover have "0 < blen (n div 2 ^ 64)" using pos by (rule blen_pos)
    ultimately have "2 ^ (64 + blen (n div 2 ^ 64) - 1) \<le> n"
      by (cases "blen (n div 2 ^ 64)") (auto simp: power_add mult.commute mult.left_commute)
    with big show ?thesis by (simp add: blen.simps [of n])
  qed
qed

lemma blen_mono: "m \<le> n \<Longrightarrow> blen m \<le> blen n"
proof (rule ccontr)
  assume le: "m \<le> n" and "\<not> blen m \<le> blen n"
  then have lt: "blen n \<le> blen m - 1" and "0 < m"
    by (auto simp: blen.simps [of 0] intro: Nat.gr0I)
  have "n < 2 ^ blen n" by (rule blen_less)
  also have "\<dots> \<le> 2 ^ (blen m - 1)" using lt by (simp add: power_increasing)
  also have "\<dots> \<le> m" using \<open>0 < m\<close> by (rule blen_ge)
  finally show False using le by simp
qed

lemma rhe_1 [simp]: "rhe p 1 = p"
  by (simp add: rhe_def)

lemma rhe_bounds: "0 < q \<Longrightarrow> p div q \<le> rhe p q \<and> rhe p q \<le> p div q + 1"
  by (simp add: rhe_def Let_def)

lemma rhe_exact: "0 < q \<Longrightarrow> rhe (d * q) q = d"
  by (simp add: rhe_def)

lemma rhe_mono: "0 < q \<Longrightarrow> p \<le> p' \<Longrightarrow> rhe p q \<le> rhe p' q"
proof (cases "p div q = p' div q")
  case True
  assume q: "0 < q" and le: "p \<le> p'"
  have "p mod q = p - q * (p div q)" "p' mod q = p' - q * (p' div q)"
    by (simp_all add: minus_mult_div_eq_mod)
  with True le have "p mod q \<le> p' mod q" by simp
  with True show ?thesis by (auto simp: rhe_def Let_def)
next
  case False
  assume q: "0 < q" and le: "p \<le> p'"
  then have "p div q \<le> p' div q" by (simp add: zdiv_mono1)
  with False have "p div q + 1 \<le> p' div q" by simp
  with rhe_bounds [OF q] show ?thesis by (meson order.trans)
qed

text \<open>\<open>rnd\<close> on non-negative integers: below \<open>2\<^sup>5\<^sup>3\<close> it is the identity, above it keeps the
  53 leading bits.\<close>

definition rnd_pos :: "int \<Rightarrow> int" where
  "rnd_pos a = (let s = blen (nat a) - 53 in 2 ^ s * rhe a (2 ^ s))"

lemma rnd_rnd_pos: "rnd x = sgn x * rnd_pos \<bar>x\<bar>"
  by (simp add: rnd_def rnd_quot_def rnd_pos_def Let_def)

lemma int_pow_nat_le: "0 \<le> a \<Longrightarrow> (2::nat) ^ k \<le> nat a \<longleftrightarrow> 2 ^ k \<le> a"
  by (metis nat_le_eq_zle nat_power_eq nat_numeral zero_le_numeral zero_le_power)

lemma int_nat_less_pow: "0 \<le> a \<Longrightarrow> nat a < (2::nat) ^ k \<longleftrightarrow> a < 2 ^ k"
  by (metis int_pow_nat_le not_le)

lemma rnd_pos_le: assumes "0 \<le> a" shows "rnd_pos a \<le> 2 ^ blen (nat a)"
proof -
  define s where "s = blen (nat a) - 53"
  have a: "a < 2 ^ blen (nat a)" using blen_less [of "nat a"] int_nat_less_pow assms by blast
  show ?thesis
  proof (cases "s = 0")
    case True
    with a show ?thesis by (simp add: rnd_pos_def s_def)
  next
    case False
    then have sp: "blen (nat a) = 53 + s" by (simp add: s_def)
    with a have "a < 2 ^ 53 * 2 ^ s" by (simp add: power_add)
    then have "a div 2 ^ s < 2 ^ 53" using int_le_div_iff [of "2 ^ s" "2 ^ 53" a] by simp
    moreover have "rhe a (2 ^ s) \<le> a div 2 ^ s + 1" using rhe_bounds [of "2 ^ s" a] by simp
    ultimately have "rhe a (2 ^ s) \<le> 2 ^ 53" by linarith
    then have "2 ^ s * rhe a (2 ^ s) \<le> 2 ^ s * 2 ^ 53" by (simp add: mult_left_mono)
    with sp show ?thesis by (simp add: rnd_pos_def power_add mult.commute)
  qed
qed

lemma rnd_pos_ge: assumes "0 < a" shows "2 ^ (blen (nat a) - 1) \<le> rnd_pos a"
proof -
  define s where "s = blen (nat a) - 53"
  have a: "2 ^ (blen (nat a) - 1) \<le> a" using blen_ge [of "nat a"] int_pow_nat_le assms by auto
  show ?thesis
  proof (cases "s = 0")
    case True
    with a show ?thesis by (simp add: rnd_pos_def s_def)
  next
    case False
    then have sp: "blen (nat a) - 1 = 52 + s" by (simp add: s_def)
    with a have "2 ^ 52 * 2 ^ s \<le> a" by (simp add: power_add)
    then have "2 ^ 52 \<le> a div 2 ^ s" using int_le_div_iff [of "2 ^ s" "2 ^ 52" a] by simp
    moreover have "a div 2 ^ s \<le> rhe a (2 ^ s)" using rhe_bounds [of "2 ^ s" a] by simp
    ultimately have "2 ^ s * 2 ^ 52 \<le> 2 ^ s * rhe a (2 ^ s)" by (simp add: mult_left_mono)
    with sp show ?thesis by (simp add: rnd_pos_def s_def [symmetric] power_add mult.commute)
  qed
qed

lemma rnd_pos_0 [simp]: "rnd_pos 0 = 0"
  by (simp add: rnd_pos_def blen.simps)

lemma rnd_pos_mono:
  assumes "0 \<le> a" "a \<le> b" shows "rnd_pos a \<le> rnd_pos b"
proof (cases "blen (nat a) = blen (nat b)")
  case True
  with assms show ?thesis by (simp add: rnd_pos_def Let_def mult_left_mono rhe_mono)
next
  case False
  with assms have lt: "blen (nat a) < blen (nat b)" by (simp add: blen_mono nat_mono le_neq_trans)
  then have "0 < b" by (cases "b = 0") (use assms in \<open>auto simp: blen.simps [of 0]\<close>)
  have "rnd_pos a \<le> 2 ^ blen (nat a)" using assms by (simp add: rnd_pos_le)
  also have "\<dots> \<le> 2 ^ (blen (nat b) - 1)" using lt by (simp add: power_increasing)
  also have "\<dots> \<le> rnd_pos b" using \<open>0 < b\<close> by (rule rnd_pos_ge)
  finally show ?thesis .
qed

lemma rnd_pos_nonneg: "0 \<le> a \<Longrightarrow> 0 \<le> rnd_pos a"
  using rnd_pos_mono [of 0 a] by simp

lemma rnd_quot_pos:
  assumes "0 < q" "q \<le> p" shows "0 < rnd_quot p q"
proof -
  define n where "n = p div q"
  define s where "s = blen (nat n) - 53"
  have n: "0 < n" using int_le_div_iff [of q 1 p] assms by (simp add: n_def)
  have "2 ^ s \<le> (2::int) ^ (blen (nat n) - 1)" by (simp add: s_def power_increasing)
  also have "\<dots> \<le> n" using blen_ge [of "nat n"] int_pow_nat_le n by auto
  finally have "1 \<le> n div 2 ^ s" using int_le_div_iff [of "2 ^ s" 1 n] by simp
  also have "n div 2 ^ s = p div (q * 2 ^ s)" by (simp add: n_def zdiv_zmult2_eq)
  also have "\<dots> \<le> rhe p (q * 2 ^ s)" using rhe_bounds [of "q * 2 ^ s" p] assms by simp
  finally have "0 < rhe p (q * 2 ^ s)" by simp
  with assms show ?thesis by (simp add: rnd_quot_def Let_def n_def s_def)
qed

lemma dec_pos: "10 ^ k \<le> n * ulp0 \<Longrightarrow> 0 < dec n k"
  by (simp add: dec_def rnd_quot_pos)

lemma rnd_0 [simp]: "rnd 0 = 0"
  by (simp add: rnd_rnd_pos)

lemma rnd_minus: "rnd (- x) = - rnd x"
  by (simp add: rnd_rnd_pos sgn_minus)

lemma rnd_nonneg: "0 \<le> x \<Longrightarrow> rnd x = rnd_pos x"
  by (cases "x = 0") (simp_all add: rnd_rnd_pos)

lemma rnd_mono: assumes "x \<le> y" shows "rnd x \<le> rnd y"
proof -
  consider "0 \<le> x" | "y \<le> 0" | "x < 0" "0 < y" by linarith
  then show ?thesis
  proof cases
    case 1
    with assms show ?thesis by (simp add: rnd_nonneg rnd_pos_mono)
  next
    case 2
    with assms have "rnd (- y) \<le> rnd (- x)" by (simp add: rnd_nonneg rnd_pos_mono)
    then show ?thesis by (simp add: rnd_minus)
  next
    case 3
    have "0 \<le> rnd (- x)" "0 \<le> rnd y" using 3 by (simp_all add: rnd_nonneg rnd_pos_nonneg)
    then show ?thesis by (simp add: rnd_minus)
  qed
qed

lemma rnd_pos_strict: "0 < a \<Longrightarrow> 0 < rnd_pos a"
  using rnd_pos_ge [of a] by (metis zero_less_numeral zero_less_power less_le_trans)

lemma rnd_less_0 [simp]: "rnd x < 0 \<longleftrightarrow> x < 0"
  using rnd_mono [of 0 x] rnd_pos_strict [of "- x"] rnd_minus [of x] rnd_nonneg [of "- x"] by force

lemma rnd_gr_0 [simp]: "0 < rnd x \<longleftrightarrow> 0 < x"
  using rnd_less_0 [of "- x"] by (simp add: rnd_minus)

lemma rnd_eq_0 [simp]: "rnd x = 0 \<longleftrightarrow> x = 0"
  using rnd_less_0 [of x] rnd_gr_0 [of x] by linarith

lemma fsub_signs:
  "0 < fsub x y \<longleftrightarrow> y < x" "fsub x y < 0 \<longleftrightarrow> x < y" "fsub x y = 0 \<longleftrightarrow> x = y"
  "0 \<le> fsub x y \<longleftrightarrow> y \<le> x" "fsub x y \<le> 0 \<longleftrightarrow> x \<le> y"
  by (auto simp: fsub_def not_less [symmetric])

lemma fadd_ge: "is_dbl x \<Longrightarrow> 0 \<le> y \<Longrightarrow> x \<le> fadd x y"
  using rnd_mono [of x "x + y"] by (simp add: is_dbl_def fadd_def)

subsection \<open>Values of literals\<close>

lemma blen_eqI: assumes "2 ^ b \<le> n" "n < 2 ^ Suc b" shows "blen n = Suc b"
proof (rule antisym)
  have n: "0 < n" using assms(1) by (metis zero_less_power zero_less_numeral less_le_trans)
  show "blen n \<le> Suc b"
  proof (rule ccontr)
    assume "\<not> blen n \<le> Suc b"
    then have "(2::nat) ^ Suc b \<le> 2 ^ (blen n - 1)" by (intro power_increasing) auto
    with blen_ge [OF n] assms(2) show False by linarith
  qed
  show "Suc b \<le> blen n"
  proof (rule ccontr)
    assume "\<not> Suc b \<le> blen n"
    then have "(2::nat) ^ blen n \<le> 2 ^ b" by (intro power_increasing) auto
    with blen_less [of n] assms(1) show False by linarith
  qed
qed

lemma rhe_scale: assumes "0 < c" shows "rhe (p * c) (q * c) = rhe p q"
proof -
  have "p * c mod (q * c) = p mod q * c" "p * c div (q * c) = p div q"
    using assms by (simp_all add: mod_mult_mult2)
  note e = this
  have l: "2 * (p mod q * c) < q * c \<longleftrightarrow> 2 * (p mod q) < q" "q * c < 2 * (p mod q * c) \<longleftrightarrow> q < 2 * (p mod q)"
    using mult_less_cancel_right_pos [OF assms, of "2 * (p mod q)" q] mult_less_cancel_right_pos [OF assms, of q "2 * (p mod q)"]
    by (simp_all add: mult.assoc)
  show ?thesis unfolding rhe_def Let_def e l ..
qed

text \<open>A decimal literal in the binade whose unit is \<open>2\<^sup>s\<close>.\<close>

lemma dec_value:
  assumes "s + e = 1074" "10 ^ k * 2 ^ 52 \<le> n * 2 ^ e" "n * 2 ^ e < 10 ^ k * 2 ^ 53"
  shows "dec n k = rhe (n * 2 ^ e) (10 ^ k) * 2 ^ s"
proof -
  have a: "n * ulp0 = n * 2 ^ e * 2 ^ s"
    using power_add [of "2::int" e s] assms(1) by (simp add: ulp0_def add.commute)
  have n: "0 < n"
  proof (rule ccontr)
    assume "\<not> 0 < n"
    then have "n * 2 ^ e \<le> 0" by (simp add: mult_le_0_iff)
    moreover have "(0::int) < 10 ^ k * 2 ^ 52" by simp
    ultimately show False using assms(2) by linarith
  qed
  define d where "d = n * ulp0 div 10 ^ k"
  have lo: "2 ^ (52 + s) \<le> d"
    unfolding d_def a by (subst int_le_div_iff) (use mult_right_mono [OF assms(2), of "2 ^ s"] in \<open>simp_all add: power_add mult_ac\<close>)
  have hi: "d < 2 ^ (53 + s)"
  proof -
    have "\<not> 2 ^ (53 + s) \<le> d"
      unfolding d_def a
      by (subst int_le_div_iff) (use mult_strict_right_mono [OF assms(3), of "2 ^ s"] in \<open>simp_all add: power_add mult_ac\<close>)
    then show ?thesis by simp
  qed
  have d0: "0 \<le> d" using lo by (rule order_trans [rotated]) simp
  have "blen (nat d) = Suc (52 + s)"
    using lo hi d0 int_pow_nat_le [of d "52 + s"] int_nat_less_pow [of d "Suc (52 + s)"] by (intro blen_eqI) auto
  moreover have pos: "0 < n * ulp0" using n by (simp add: ulp0_def)
  ultimately have "dec n k = 2 ^ s * rhe (n * ulp0) (10 ^ k * 2 ^ s)"
    by (simp add: dec_def rnd_quot_def d_def Let_def)
  then show ?thesis unfolding a by (simp add: rhe_scale)
qed

text \<open>A multiple of a power of two with at most 53 significant bits is a double.\<close>

lemma rnd_exact: assumes "\<bar>m\<bar> < 2 ^ 53" shows "rnd (m * 2 ^ t) = m * 2 ^ t"
proof -
  define b where "b = blen (nat (\<bar>m\<bar> * 2 ^ t))"
  have "b - 53 \<le> t"
  proof (rule ccontr)
    assume "\<not> b - 53 \<le> t"
    then have b: "53 + t \<le> b - 1" "0 < b" by simp_all
    have pos: "0 < nat (\<bar>m\<bar> * 2 ^ t)"
    proof (rule ccontr)
      assume "\<not> 0 < nat (\<bar>m\<bar> * 2 ^ t)"
      with b(2) show False by (simp add: b_def blen.simps)
    qed
    have "(2::nat) ^ (53 + t) \<le> 2 ^ (b - 1)" using b by (intro power_increasing) auto
    also have "\<dots> \<le> nat (\<bar>m\<bar> * 2 ^ t)" using blen_ge [OF pos] by (simp add: b_def)
    finally have "2 ^ (53 + t) \<le> \<bar>m\<bar> * 2 ^ t" using int_pow_nat_le [of "\<bar>m\<bar> * 2 ^ t" "53 + t"] by simp
    moreover have "\<bar>m\<bar> * 2 ^ t < 2 ^ 53 * 2 ^ t" using assms by (intro mult_strict_right_mono) simp_all
    ultimately show False by (simp add: power_add)
  qed
  then have "\<bar>m * 2 ^ t\<bar> = \<bar>m\<bar> * 2 ^ (t - (b - 53)) * 2 ^ (b - 53)"
    by (simp add: abs_mult power_add [symmetric] mult.assoc)
  then have "rhe \<bar>m * 2 ^ t\<bar> (2 ^ (b - 53)) = \<bar>m\<bar> * 2 ^ (t - (b - 53))" by (simp add: rhe_exact)
  moreover have "2 ^ (b - 53) * (\<bar>m\<bar> * 2 ^ (t - (b - 53))) = \<bar>m\<bar> * (2::int) ^ t"
    using \<open>b - 53 \<le> t\<close> by (simp add: power_add [symmetric] mult.left_commute)
  ultimately have "rnd (m * 2 ^ t) = sgn (m * 2 ^ t) * (\<bar>m\<bar> * 2 ^ t)"
    by (simp add: rnd_def rnd_quot_def Let_def b_def abs_mult)
  then show ?thesis by (simp add: sgn_mult mult.assoc [symmetric] mult_sgn_abs)
qed

end
