(* ===== verification/JsValue.thy ===== *)
theory JsValue
  imports JsNumber
begin

text \<open>
  JavaScript data values: what \<open>JSON.parse\<close> can return, and \<open>undefined\<close>. With them the
  parts of the language that look at a value of type \<open>unknown\<close>: \<open>String(v)\<close>,
  \<open>JSON.stringify(v)\<close>, truthiness, and \<open>json_norm\<close>, the value that
  \<open>JSON.parse(JSON.stringify(v))\<close> returns.
\<close>

datatype jsval =
    Undef
  | Null
  | Bool bool
  | Num dbl
  | Str jstring
  | Arr "jsval list"
  | Obj "(jstring \<times> jsval) list"

type_synonym jsobj = "(jstring \<times> jsval) list"

text \<open>\<open>o[k]\<close> on own properties.\<close>

definition jget :: "jsobj \<Rightarrow> jstring \<Rightarrow> jsval" where
  "jget v k = (case map_of v k of None \<Rightarrow> Undef | Some w \<Rightarrow> w)"

text \<open>\<open>a ?? b\<close>.\<close>

definition nullish :: "jsval \<Rightarrow> bool" where
  "nullish v \<longleftrightarrow> v = Undef \<or> v = Null"

definition coalesce :: "jsval \<Rightarrow> jsval \<Rightarrow> jsval" where
  "coalesce a b = (if nullish a then b else a)"

definition bool_string :: "bool \<Rightarrow> jstring" where
  "bool_string b = (if b then js ''true'' else js ''false'')"

text \<open>\<open>String(v)\<close>; an array joins its elements with commas, \<open>null\<close> and \<open>undefined\<close> as the
  empty string.\<close>

fun to_string :: "jsval \<Rightarrow> jstring" where
  "to_string Undef = js ''undefined''"
| "to_string Null = js ''null''"
| "to_string (Bool b) = bool_string b"
| "to_string (Num x) = num_to_string x"
| "to_string (Str s) = s"
| "to_string (Arr vs) = join (js '','') (map (\<lambda>v. if nullish v then [] else to_string v) vs)"
| "to_string (Obj kvs) = js ''[object Object]''"

section \<open>JSON.stringify\<close>

definition hex_digit :: "nat \<Rightarrow> nat" where
  "hex_digit d = (if d < 10 then 48 + d else 87 + d)"

definition hex4 :: "nat \<Rightarrow> jstring" where
  "hex4 c = [hex_digit (c div 4096 mod 16), hex_digit (c div 256 mod 16), hex_digit (c div 16 mod 16), hex_digit (c mod 16)]"

definition quote_unit :: "nat \<Rightarrow> jstring" where
  "quote_unit c =
     (if c = 8 then [92, 98] else if c = 9 then [92, 116] else if c = 10 then [92, 110]
      else if c = 12 then [92, 102] else if c = 13 then [92, 114]
      else if c = 34 then [92, 34] else if c = 92 then [92, 92]
      else if c < 32 then [92, 117] @ hex4 c else [c])"

text \<open>Lone surrogates are escaped (well-formed \<open>JSON.stringify\<close>).\<close>

fun quote_units :: "jstring \<Rightarrow> jstring" where
  "quote_units [] = []"
| "quote_units (c # cs) =
     (if 55296 \<le> c \<and> c < 56320 then
        (case cs of d # ds \<Rightarrow> if 56320 \<le> d \<and> d < 57344 then c # d # quote_units ds
                             else [92, 117] @ hex4 c @ quote_units cs
         | [] \<Rightarrow> [92, 117] @ hex4 c)
      else if 56320 \<le> c \<and> c < 57344 then [92, 117] @ hex4 c @ quote_units cs
      else quote_unit c @ quote_units cs)"

definition quote :: "jstring \<Rightarrow> jstring" where
  "quote s = [34] @ quote_units s @ [34]"

text \<open>\<open>JSON.stringify(v)\<close> without white space; \<open>None\<close> is \<open>undefined\<close>, which an array
  prints as \<open>null\<close> and an object leaves out.\<close>

fun stringify :: "jsval \<Rightarrow> jstring option" where
  "stringify Undef = None"
| "stringify Null = Some (js ''null'')"
| "stringify (Bool b) = Some (bool_string b)"
| "stringify (Num x) = Some (num_to_string x)"
| "stringify (Str s) = Some (quote s)"
| "stringify (Arr vs) =
     Some (js ''['' @ join (js '','') (map (\<lambda>v. case stringify v of None \<Rightarrow> js ''null'' | Some t \<Rightarrow> t) vs) @ js '']'')"
| "stringify (Obj kvs) =
     Some ([123] @ join (js '','')
       (concat (map (\<lambda>(k, v). case stringify v of None \<Rightarrow> [] | Some t \<Rightarrow> [quote k @ js '':'' @ t]) kvs)) @ [125])"

definition stringify_str :: "jsval \<Rightarrow> jstring" where
  "stringify_str v = (case stringify v of None \<Rightarrow> js ''undefined'' | Some t \<Rightarrow> t)"

section \<open>What a JSON round trip keeps\<close>

fun json_norm :: "jsval \<Rightarrow> jsval" where
  "json_norm Undef = Null"
| "json_norm Null = Null"
| "json_norm (Bool b) = Bool b"
| "json_norm (Num x) = Num x"
| "json_norm (Str s) = Str s"
| "json_norm (Arr vs) = Arr (map json_norm vs)"
| "json_norm (Obj kvs) = Obj (map (\<lambda>(k, v). (k, json_norm v)) (filter (\<lambda>(k, v). v \<noteq> Undef) kvs))"

fun json_clean :: "jsval \<Rightarrow> bool" where
  "json_clean Undef = False"
| "json_clean (Arr vs) = list_all json_clean vs"
| "json_clean (Obj kvs) = list_all (\<lambda>(k, v). json_clean v) kvs"
| "json_clean v = True"

definition obj_clean :: "jsobj \<Rightarrow> bool" where
  "obj_clean kvs \<longleftrightarrow> list_all (\<lambda>(k, v). json_clean v) kvs"

lemma json_clean_norm: "json_clean v \<Longrightarrow> json_norm v = v"
proof (induction v)
  case (Arr vs)
  then show ?case by (auto simp: list_all_iff intro: map_idI)
next
  case (Obj kvs)
  have "filter (\<lambda>(k, v). v \<noteq> Undef) kvs = kvs"
    using Obj.prems by (auto simp: list_all_iff filter_id_conv)
  moreover have "map (\<lambda>(k, v). (k, json_norm v)) kvs = kvs"
    using Obj by (intro map_idI) (force simp: list_all_iff)
  ultimately show ?case by simp
qed auto

lemma obj_clean_norm: "obj_clean kvs \<Longrightarrow> json_norm (Obj kvs) = Obj kvs"
  using json_clean_norm [of "Obj kvs"] by (simp add: obj_clean_def)

definition json_fields :: "jsobj \<Rightarrow> jsobj" where
  "json_fields kvs = map (\<lambda>(k, v). (k, json_norm v)) (filter (\<lambda>(k, v). v \<noteq> Undef) kvs)"

lemma json_norm_Obj [simp]: "json_norm (Obj kvs) = Obj (json_fields kvs)"
  by (simp add: json_fields_def)

declare json_norm.simps(7) [simp del]

lemma json_fields_simps [simp]:
  "json_fields [] = []"
  "json_fields ((k, v) # kvs) = (if v = Undef then json_fields kvs else (k, json_norm v) # json_fields kvs)"
  "json_fields (kvs @ lvs) = json_fields kvs @ json_fields lvs"
  by (auto simp: json_fields_def)

lemma obj_clean_fields [simp]: "obj_clean kvs \<Longrightarrow> json_fields kvs = kvs"
  using obj_clean_norm [of kvs] by simp

lemma jget_Cons [simp]: "jget ((k, v) # kvs) l = (if l = k then v else jget kvs l)"
  by (simp add: jget_def)

lemma jget_Nil [simp]: "jget [] k = Undef"
  by (simp add: jget_def)

lemma json_norm_not_Undef [simp]: "json_norm v \<noteq> Undef"
  by (cases v) auto

end
