(* ===== verification/Serialization.thy ===== *)
theory Serialization
  imports JsValue "HOL-Library.Multiset"
begin

text \<open>
  Canonical JSON (\<open>src/manifest/serialization.ts\<close>), the text that the integrity hash and
  the fact hash are computed from. \<open>sorted_replacer\<close> rebuilds every object by assigning
  its members in key order; \<open>same_data\<close> relates documents that differ only in member
  order and in members that are \<open>undefined\<close>.
\<close>

definition assign_members :: "jsobj \<Rightarrow> jsobj" where
  "assign_members kvs = foldl (\<lambda>acc (k, v). obj_set k v acc) [] kvs"

fun sorted_replacer :: "jsval \<Rightarrow> jsval" where
  "sorted_replacer (Arr vs) = Arr (map sorted_replacer vs)"
| "sorted_replacer (Obj kvs) =
     Obj (assign_members (filter (\<lambda>(k, v). v \<noteq> Undef)
       (sort_key fst (map (\<lambda>(k, v). (k, sorted_replacer v)) kvs))))"
| "sorted_replacer v = v"

definition canonical_json :: "jsval \<Rightarrow> jstring" where
  "canonical_json v = stringify_str (sorted_replacer v)"

section \<open>Determinism\<close>

inductive same_data :: "jsval \<Rightarrow> jsval \<Rightarrow> bool" where
  same_refl: "same_data v v"
| same_arr: "list_all2 same_data vs ws \<Longrightarrow> same_data (Arr vs) (Arr ws)"
| same_obj: "list_all2 (rel_prod (=) same_data) kvs lvs \<Longrightarrow> same_data (Obj kvs) (Obj lvs)"
| same_perm: "mset kvs = mset lvs \<Longrightarrow> keys_ok kvs \<Longrightarrow> same_data (Obj kvs) (Obj lvs)"
| same_undef: "same_data (Obj kvs) (Obj (filter (\<lambda>(k, v). v \<noteq> Undef) kvs))"
| same_trans: "same_data u v \<Longrightarrow> same_data v w \<Longrightarrow> same_data u w"

lemma sort_key_perm:
  assumes "mset kvs = mset (lvs :: (jstring \<times> 'a) list)" and "keys_ok kvs"
  shows "sort_key fst kvs = sort_key fst lvs"
proof (rule map_sorted_distinct_set_unique [where f = fst])
  have s: "set kvs = set lvs" using assms(1) by (rule mset_eq_setD)
  show "inj_on fst (set (sort_key fst kvs) \<union> set (sort_key fst lvs))"
    using assms(2) s by (simp add: keys_ok_def distinct_map)
  show "set (sort_key fst kvs) = set (sort_key fst lvs)" using s by simp
  have "mset (map fst kvs) = mset (map fst lvs)" using assms(1) by (metis mset_map)
  with assms(2) have "distinct (map fst lvs)" by (metis keys_ok_def mset_eq_imp_distinct_iff)
  then show "distinct (map fst (sort_key fst lvs))"
    by (metis mset_map mset_sort mset_eq_imp_distinct_iff)
  from assms(2) show "distinct (map fst (sort_key fst kvs))"
    by (metis keys_ok_def mset_map mset_sort mset_eq_imp_distinct_iff)
qed simp_all

lemma sorted_replacer_Undef [simp]: "sorted_replacer v = Undef \<longleftrightarrow> v = Undef"
  by (cases v) auto

lemma filter_map_replacer:
  "filter (\<lambda>(k, v). v \<noteq> Undef) (map (\<lambda>(k, v). (k, sorted_replacer v)) kvs) =
   map (\<lambda>(k, v). (k, sorted_replacer v)) (filter (\<lambda>(k, v). v \<noteq> Undef) kvs)"
  by (induction kvs) auto

lemma map_replacer_cong:
  "list_all2 (rel_prod (=) (\<lambda>v w. sorted_replacer v = sorted_replacer w)) kvs lvs \<Longrightarrow>
   map (\<lambda>(k, v). (k, sorted_replacer v)) kvs = map (\<lambda>(k, v). (k, sorted_replacer v)) lvs"
  by (induction rule: list_all2_induct) auto

lemma same_data_replacer: "same_data v w \<Longrightarrow> sorted_replacer v = sorted_replacer w"
proof (induction rule: same_data.induct)
  case (same_arr vs ws)
  then have "map sorted_replacer vs = map sorted_replacer ws"
    by (induction rule: list_all2_induct) auto
  then show ?case by simp
next
  case (same_obj kvs lvs)
  then have "list_all2 (rel_prod (=) (\<lambda>v w. sorted_replacer v = sorted_replacer w)) kvs lvs"
    by (auto elim!: list_all2_mono)
  then have "map (\<lambda>(k, v). (k, sorted_replacer v)) kvs = map (\<lambda>(k, v). (k, sorted_replacer v)) lvs"
    by (rule map_replacer_cong)
  then show ?case by simp
next
  case (same_perm kvs lvs)
  have "mset (map (\<lambda>(k, v). (k, sorted_replacer v)) kvs) = mset (map (\<lambda>(k, v). (k, sorted_replacer v)) lvs)"
    using same_perm(1) by (metis mset_map)
  moreover have "keys_ok (map (\<lambda>(k, v). (k, sorted_replacer v)) kvs)"
    using same_perm(2) by (simp add: keys_ok_def comp_def split_beta)
  ultimately have "sort_key fst (map (\<lambda>(k, v). (k, sorted_replacer v)) kvs) =
      sort_key fst (map (\<lambda>(k, v). (k, sorted_replacer v)) lvs)"
    by (rule sort_key_perm)
  then show ?case by simp
next
  case (same_undef kvs)
  then show ?case by (simp add: filter_sort filter_map_replacer)
qed auto

lemma assign_members_proto:
  "assign_members (filter (\<lambda>(k, v). k \<noteq> proto_key) kvs) = assign_members kvs"
proof -
  have "foldl (\<lambda>acc (k, v). obj_set k v acc) acc (filter (\<lambda>(k, v). k \<noteq> proto_key) kvs) =
        foldl (\<lambda>acc (k, v). obj_set k v acc) acc kvs" for acc
    by (induction kvs arbitrary: acc) (auto simp: obj_set_def)
  then show ?thesis by (simp add: assign_members_def)
qed

lemma sorted_replacer_proto:
  "sorted_replacer (Obj (filter (\<lambda>(k, v). k \<noteq> proto_key) kvs)) = sorted_replacer (Obj kvs)"
proof -
  let ?r = "map (\<lambda>(k, v). (k, sorted_replacer v)) kvs"
  have f: "map (\<lambda>(k, v). (k, sorted_replacer v)) (filter (\<lambda>(k, v). k \<noteq> proto_key) kvs) = filter (\<lambda>(k, v). k \<noteq> proto_key) ?r"
    by (induction kvs) auto
  let ?s = "filter (\<lambda>(k, v). v \<noteq> Undef) (sort_key fst ?r)"
  have "filter (\<lambda>(k, v). v \<noteq> Undef) (sort_key fst (filter (\<lambda>(k, v). k \<noteq> proto_key) ?r)) =
        filter (\<lambda>(k, v). k \<noteq> proto_key) ?s"
    by (simp add: filter_sort [symmetric] conj_commute split_beta)
  then have "assign_members (filter (\<lambda>(k, v). v \<noteq> Undef) (sort_key fst (filter (\<lambda>(k, v). k \<noteq> proto_key) ?r))) =
        assign_members ?s"
    by (simp only: assign_members_proto)
  then show ?thesis by (simp only: sorted_replacer.simps f)
qed

end
