(* ===== verification/Identity.thy ===== *)
theory Identity
  imports Serialization
begin

text \<open>
  Identity keys and fact hashes (\<open>src/manifest/identity.ts\<close>). A strategy reads the value of
  a fact and returns its key, or \<open>None\<close> where it throws; the registry is the module's
  \<open>Map\<close> from types to strategies, \<open>builtin_registry\<close> its contents after loading the
  module. SHA-256 (\<open>node:crypto\<close>) is the parameter \<open>sha\<close>, the hex digest of a text.
\<close>

type_synonym identity_strategy = "jsobj \<Rightarrow> jstring option"
type_synonym strategy_registry = "(jstring, identity_strategy) jmap"

definition register_strategy :: "jstring \<Rightarrow> identity_strategy \<Rightarrow> strategy_registry \<Rightarrow> strategy_registry" where
  "register_strategy t st reg = map_put t st reg"

section \<open>Normalization helpers\<close>

definition norm_text :: "jstring \<Rightarrow> jstring" where
  "norm_text s = strip_ctrl (collapse_ws (trim (lower s)))"

definition norm :: "jsval \<Rightarrow> jstring" where
  "norm v = (if nullish v then [] else norm_text (to_string v))"

fun first_of :: "jsval list \<Rightarrow> jstring" where
  "first_of [] = js ''unknown''"
| "first_of (c # cs) = (let n = norm c in if n \<noteq> [] then n else first_of cs)"

definition field :: "jsobj \<Rightarrow> string \<Rightarrow> jsval" where
  "field v k = jget v (js k)"

definition short_hash :: "(jstring \<Rightarrow> jstring) \<Rightarrow> jstring \<Rightarrow> jstring" where
  "short_hash sha s = take 8 (sha s)"

section \<open>Built-in strategies\<close>

definition preference_key :: "jsobj \<Rightarrow> jstring" where
  "preference_key v = js ''preference:'' @
     first_of [field v ''key'', field v ''topic'', field v ''name'', field v ''category'']"

definition contact_key :: "jsobj \<Rightarrow> jstring" where
  "contact_key v = js ''contact:'' @
     first_of [field v ''email'', field v ''id'', field v ''username'', field v ''handle'', field v ''name'']"

definition task_key :: "jsobj \<Rightarrow> jstring" where
  "task_key v = js ''task:'' @ first_of [field v ''id'', field v ''task_id'', field v ''title'']"

definition context_key :: "jsobj \<Rightarrow> jstring" where
  "context_key v = js ''context:'' @ first_of [field v ''scope'', field v ''domain''] @ js '':'' @
     first_of [field v ''key'', field v ''name'']"

definition credential_key :: "jsobj \<Rightarrow> jstring" where
  "credential_key v =
     (let username = first_of [field v ''username'', field v ''account'', field v ''principal''];
          service = first_of [field v ''service'', field v ''host'', field v ''realm'', field v ''provider'']
      in js ''credential:'' @ username @ js ''@'' @ service)"

definition service_key :: "jsobj \<Rightarrow> jstring" where
  "service_key v =
     (let name = first_of [field v ''name'', field v ''service_name'', field v ''id''];
          endpoint = first_of [field v ''endpoint'', field v ''host'', field v ''url'', field v ''provider_id'', Str []]
      in if endpoint \<noteq> [] then js ''service:'' @ name @ js '':'' @ endpoint else js ''service:'' @ name)"

definition knowledge_key :: "jsobj \<Rightarrow> jstring" where
  "knowledge_key v =
     (let domain = first_of [field v ''domain'', field v ''category'', Str (js ''general'')];
          key = first_of [field v ''key'', field v ''topic'', field v ''subject'']
      in js ''knowledge:'' @ domain @ js '':'' @ key)"

definition constraint_key :: "jsobj \<Rightarrow> jstring" where
  "constraint_key v =
     (let scope = first_of [field v ''scope'', field v ''agent'', Str (js ''global'')];
          key = first_of [field v ''key'', field v ''constraint_id'', field v ''name'']
      in js ''constraint:'' @ scope @ js '':'' @ key)"

definition event_key :: "(jstring \<Rightarrow> jstring) \<Rightarrow> jsobj \<Rightarrow> jstring" where
  "event_key sha v =
     (let i = norm (coalesce (field v ''id'') (coalesce (field v ''event_id'') (Str [])))
      in if i \<noteq> [] then js ''event:'' @ first_of [field v ''type'', Str (js ''unknown'')] @ js '':'' @ i
         else js ''event:'' @ first_of [field v ''type'', Str (js ''unknown'')] @ js '':'' @
              short_hash sha (canonical_json (Obj v)))"

definition builtin_registry :: "(jstring \<Rightarrow> jstring) \<Rightarrow> strategy_registry" where
  "builtin_registry sha =
     foldl (\<lambda>reg (t, st). map_put (js t) (\<lambda>v. Some (st v)) reg) []
       [(''preference'', preference_key), (''contact'', contact_key), (''task'', task_key),
        (''context'', context_key), (''credential'', credential_key), (''service'', service_key),
        (''knowledge'', knowledge_key), (''constraint'', constraint_key), (''event'', event_key sha)]"

section \<open>Public API\<close>

definition fallback_key :: "(jstring \<Rightarrow> jstring) \<Rightarrow> jstring \<Rightarrow> jsobj \<Rightarrow> jstring" where
  "fallback_key sha t v = t @ js '':'' @ short_hash sha (canonical_json (Obj v))"

definition derive_identity_key :: "(jstring \<Rightarrow> jstring) \<Rightarrow> strategy_registry \<Rightarrow> jstring \<Rightarrow> jsobj \<Rightarrow> jstring" where
  "derive_identity_key sha reg t v =
     (case map_of reg t of
        Some st \<Rightarrow> (case st v of Some k \<Rightarrow> k | None \<Rightarrow> fallback_key sha t v)
      | None \<Rightarrow> fallback_key sha t v)"

definition derive_fact_hash :: "(jstring \<Rightarrow> jstring) \<Rightarrow> jstring \<Rightarrow> jsobj \<Rightarrow> jstring" where
  "derive_fact_hash sha t v = sha (t @ js '':'' @ canonical_json (Obj v))"

section \<open>Lemmas\<close>

lemma first_of_not_nil [simp]: "first_of cs \<noteq> []"
  by (induction cs) (auto simp: Let_def)

lemma builtin_registry_simps:
  "map_of (builtin_registry sha) t =
     (if t = js ''preference'' then Some (\<lambda>v. Some (preference_key v))
      else if t = js ''contact'' then Some (\<lambda>v. Some (contact_key v))
      else if t = js ''task'' then Some (\<lambda>v. Some (task_key v))
      else if t = js ''context'' then Some (\<lambda>v. Some (context_key v))
      else if t = js ''credential'' then Some (\<lambda>v. Some (credential_key v))
      else if t = js ''service'' then Some (\<lambda>v. Some (service_key v))
      else if t = js ''knowledge'' then Some (\<lambda>v. Some (knowledge_key v))
      else if t = js ''constraint'' then Some (\<lambda>v. Some (constraint_key v))
      else if t = js ''event'' then Some (\<lambda>v. Some (event_key sha v))
      else None)"
  by (simp add: builtin_registry_def map_put_def)

lemmas builtin_key_defs = preference_key_def contact_key_def task_key_def context_key_def
  credential_key_def service_key_def knowledge_key_def constraint_key_def event_key_def

text \<open>Every built-in key is the type, a colon and a rest.\<close>

lemma key_rest: "s = u @ '':'' \<Longrightarrow> \<exists>rest. js s @ x = js u @ js '':'' @ rest"
  by (auto simp: js_append)

lemma builtin_key_rest:
  "\<exists>rest. preference_key v = js ''preference'' @ js '':'' @ rest"
  "\<exists>rest. contact_key v = js ''contact'' @ js '':'' @ rest"
  "\<exists>rest. task_key v = js ''task'' @ js '':'' @ rest"
  "\<exists>rest. context_key v = js ''context'' @ js '':'' @ rest"
  "\<exists>rest. credential_key v = js ''credential'' @ js '':'' @ rest"
  "\<exists>rest. service_key v = js ''service'' @ js '':'' @ rest"
  "\<exists>rest. knowledge_key v = js ''knowledge'' @ js '':'' @ rest"
  "\<exists>rest. constraint_key v = js ''constraint'' @ js '':'' @ rest"
  "\<exists>rest. event_key sha v = js ''event'' @ js '':'' @ rest"
  unfolding builtin_key_defs Let_def if_distrib [symmetric]
  by (rule key_rest, simp)+

lemma builtin_key_prefix:
  "\<exists>rest. derive_identity_key sha (builtin_registry sha) t v = t @ js '':'' @ rest"
  unfolding derive_identity_key_def builtin_registry_simps
  by (simp add: builtin_key_rest fallback_key_def)

lemma colon_split:
  "58 \<notin> set (s :: jstring) \<Longrightarrow> 58 \<notin> set t \<Longrightarrow> s @ 58 # x = t @ 58 # y \<Longrightarrow> s = t"
  by (induction s arbitrary: t) (case_tac t; auto)+

subsection \<open>Normal form of a key part\<close>

definition ctrl_free :: "jstring \<Rightarrow> bool" where
  "ctrl_free s \<longleftrightarrow> (\<forall>c \<in> set s. 31 < c \<or> is_ws c)"

text \<open>No white space but single spaces inside: what trimming and collapsing leave.\<close>

fun single_spaced :: "jstring \<Rightarrow> bool" where
  "single_spaced [] = True"
| "single_spaced (c # cs) =
     ((is_ws c \<longrightarrow> c = 32 \<and> cs \<noteq> [] \<and> \<not> is_ws (hd cs)) \<and> single_spaced cs)"

definition normal_key :: "jstring \<Rightarrow> bool" where
  "normal_key s \<longleftrightarrow> lower s = s \<and> (s \<noteq> [] \<longrightarrow> \<not> is_ws (hd s)) \<and> single_spaced s \<and> (\<forall>c \<in> set s. 31 < c)"

lemma lower_unit_idem [simp]: "lower_unit (lower_unit c) = lower_unit c"
  by (simp add: lower_unit_def)

lemma is_ws_lower [simp]: "is_ws (lower_unit c) = is_ws c"
  by (auto simp: lower_unit_def is_ws_def)

lemma lower_unit_32 [simp]: "lower_unit 32 = 32"
  by (simp add: lower_unit_def)

lemma set_collapse: "c \<in> set (collapse_ws s) \<Longrightarrow> c = 32 \<or> (c \<in> set s \<and> \<not> is_ws c)"
  by (induction s rule: collapse_ws.induct) (auto split: if_splits)

lemma collapse_hd:
  "s \<noteq> [] \<Longrightarrow> \<not> is_ws (hd s) \<Longrightarrow> collapse_ws s \<noteq> [] \<and> hd (collapse_ws s) = hd s"
  by (cases s rule: collapse_ws.cases) auto

lemma collapse_nonempty [simp]: "collapse_ws s = [] \<longleftrightarrow> s = []"
  by (induction s rule: collapse_ws.induct) auto

lemma single_spaced_collapse:
  "s \<noteq> [] \<Longrightarrow> \<not> is_ws (last s) \<Longrightarrow> single_spaced (collapse_ws s)"
proof (induction s rule: collapse_ws.induct)
  case (3 c d ds)
  then have ih: "single_spaced (collapse_ws (d # ds))" by (cases "is_ws c \<and> is_ws d") auto
  show ?case
  proof (cases "is_ws c \<and> \<not> is_ws d")
    case True
    with collapse_hd [of "d # ds"] have "hd (collapse_ws (d # ds)) = d" by simp
    with True ih show ?thesis by simp
  next
    case False
    with ih show ?thesis by auto
  qed
qed auto

lemma strip_ctrl_id: "\<forall>c \<in> set s. 31 < c \<Longrightarrow> strip_ctrl s = s"
  by (simp add: strip_ctrl_def filter_id_conv)

lemma lower_id_subset: "\<forall>c \<in> set s. lower_unit c = c \<Longrightarrow> lower s = s"
  by (simp add: map_idI)

lemma norm_text_normal:
  assumes "ctrl_free s" shows "normal_key (norm_text s)"
proof -
  define t where "t = trim (lower s)"
  define u where "u = collapse_ws t"
  have setu: "31 < c \<and> lower_unit c = c" if "c \<in> set u" for c
  proof -
    from that have "c = 32 \<or> (c \<in> set t \<and> \<not> is_ws c)" unfolding u_def by (rule set_collapse)
    then show ?thesis
    proof
      assume "c \<in> set t \<and> \<not> is_ws c"
      then have "c \<in> set (lower s)" and w: "\<not> is_ws c" using set_trim [of "lower s"] by (auto simp: t_def)
      then obtain d where d: "d \<in> set s" "c = lower_unit d" by auto
      with w assms have "31 < d" by (auto simp: ctrl_free_def)
      with d show ?thesis by (simp add: lower_unit_def)
    qed simp
  qed
  then have n: "norm_text s = u"
    by (simp add: norm_text_def t_def [symmetric] u_def [symmetric] strip_ctrl_id)
  show ?thesis
  proof (cases "t = []")
    case True
    with n show ?thesis by (simp add: u_def normal_key_def)
  next
    case False
    then have "\<not> is_ws (hd t)" "\<not> is_ws (last t)" using hd_trim [of "lower s"] by (simp_all add: t_def)
    with False have "single_spaced u" "\<not> is_ws (hd u)"
      using single_spaced_collapse [of t] collapse_hd [of t] by (simp_all add: u_def)
    with n setu show ?thesis by (simp add: normal_key_def lower_id_subset)
  qed
qed

lemma collapse_single_spaced: "single_spaced s \<Longrightarrow> collapse_ws s = s"
  by (induction s rule: collapse_ws.induct) auto

lemma single_spaced_last: "single_spaced s \<Longrightarrow> s \<noteq> [] \<Longrightarrow> \<not> is_ws (last s)"
  by (induction s) auto

lemma norm_text_normal_key: "normal_key s \<Longrightarrow> norm_text s = s"
  by (cases "s = []")
    (auto simp: normal_key_def norm_text_def trim_id single_spaced_last collapse_single_spaced strip_ctrl_id)

end
