(* ===== verification/Environment.thy ===== *)
theory Environment
  imports Identity
begin

text \<open>
  What the manifest engine takes from its environment. \<open>world\<close> holds the clock (the n-th
  reading of \<open>Date.now()\<close>), the identifiers of \<open>randomUUID()\<close>, SHA-256, the files, the
  outcome of the n-th file-system call (\<open>None\<close> or the error it throws), the registry of
  identity strategies and the two module-level operation counters. All of it is a
  parameter: theorems hold for every clock, every sequence of identifiers and every
  pattern of file-system errors, unless they say otherwise.
\<close>

text \<open>A file is the text of a JSON document, or any other text.\<close>

datatype fs_file = Json_text jsval | Plain_text jstring

fun file_text :: "fs_file \<Rightarrow> jstring" where
  "file_text (Json_text v) = stringify_str v"
| "file_text (Plain_text s) = s"

record world =
  w_sha :: "jstring \<Rightarrow> jstring"
  w_clock :: "nat \<Rightarrow> int"
  w_tick :: nat
  w_uuid :: "nat \<Rightarrow> jstring"
  w_draw :: nat
  w_files :: "jstring \<Rightarrow> fs_file option"
  w_io_error :: "nat \<Rightarrow> jstring option"
  w_io :: nat
  w_op_seq :: nat
  w_op_counter :: nat
  w_registry :: strategy_registry

section \<open>Clock\<close>

definition civil :: "int \<Rightarrow> int \<times> int \<times> int" where
  "civil z =
     (let z = z + 719468; era = z div 146097; doe = z mod 146097;
          yoe = (doe - doe div 1460 + doe div 36524 - doe div 146096) div 365;
          doy = doe - (365 * yoe + yoe div 4 - yoe div 100);
          mp = (5 * doy + 2) div 153;
          d = doy - (153 * mp + 2) div 5 + 1;
          m = (if mp < 10 then mp + 3 else mp - 9);
          y = yoe + era * 400
      in (if m \<le> 2 then y + 1 else y, m, d))"

definition digits_padded :: "nat \<Rightarrow> int \<Rightarrow> jstring" where
  "digits_padded k n = pad_start k 48 (show_int n)"

text \<open>\<open>new Date(ms).toISOString()\<close>.\<close>

definition iso_of_ms :: "int \<Rightarrow> jstring" where
  "iso_of_ms ms =
     (let (y, m, d) = civil (ms div 86400000); t = ms mod 86400000;
          ys = (if 0 \<le> y \<and> y \<le> 9999 then digits_padded 4 y
                else (if y < 0 then js ''-'' else js ''+'') @ digits_padded 6 \<bar>y\<bar>)
      in ys @ js ''-'' @ digits_padded 2 m @ js ''-'' @ digits_padded 2 d @ js ''T'' @
         digits_padded 2 (t div 3600000) @ js '':'' @ digits_padded 2 (t div 60000 mod 60) @ js '':'' @
         digits_padded 2 (t div 1000 mod 60) @ js ''.'' @ digits_padded 3 (t mod 1000) @ js ''Z'')"

definition read_ms :: "world \<Rightarrow> int \<times> world" where
  "read_ms w = (w_clock w (w_tick w), w\<lparr>w_tick := Suc (w_tick w)\<rparr>)"

definition read_iso :: "world \<Rightarrow> jstring \<times> world" where
  "read_iso w = (iso_of_ms (w_clock w (w_tick w)), w\<lparr>w_tick := Suc (w_tick w)\<rparr>)"

section \<open>Identifiers\<close>

definition short_id_of :: "jstring \<Rightarrow> jstring" where
  "short_id_of u = upper (take 12 (filter (\<lambda>c. c \<noteq> 45) u))"

definition short_id :: "world \<Rightarrow> jstring \<times> world" where
  "short_id w = (short_id_of (w_uuid w (w_draw w)), w\<lparr>w_draw := Suc (w_draw w)\<rparr>)"

definition next_id :: "string \<Rightarrow> world \<Rightarrow> jstring" where
  "next_id prefix w = js prefix @ short_id_of (w_uuid w (w_draw w))"

definition op_id_of :: "int \<Rightarrow> nat \<Rightarrow> jstring" where
  "op_id_of ms n = js ''OP_'' @ show_int ms @ js ''_'' @ pad_start 4 48 (nat_digits n)"

section \<open>File system\<close>

text \<open>One file-system call: it throws, or it takes effect.\<close>

definition try_io :: "(world \<Rightarrow> world) \<Rightarrow> world \<Rightarrow> jstring option \<times> world" where
  "try_io effect w =
     (case w_io_error w (w_io w) of
        Some e \<Rightarrow> (Some e, w\<lparr>w_io := Suc (w_io w)\<rparr>)
      | None \<Rightarrow> (None, effect (w\<lparr>w_io := Suc (w_io w)\<rparr>)))"

definition put_file :: "jstring \<Rightarrow> fs_file \<Rightarrow> world \<Rightarrow> world" where
  "put_file p c w = w\<lparr>w_files := (w_files w)(p \<mapsto> c)\<rparr>"

definition rename_file :: "jstring \<Rightarrow> jstring \<Rightarrow> world \<Rightarrow> world" where
  "rename_file p q w = w\<lparr>w_files := (w_files w)(q := w_files w p, p := None)\<rparr>"

datatype read_error = Enoent | Io_error jstring

definition read_file :: "jstring \<Rightarrow> world \<Rightarrow> (read_error + fs_file) \<times> world" where
  "read_file p w =
     (case try_io id w of
        (Some e, w') \<Rightarrow> (Inl (Io_error e), w')
      | (None, w') \<Rightarrow> (case w_files w' p of None \<Rightarrow> (Inl Enoent, w') | Some c \<Rightarrow> (Inr c, w')))"

definition path_join :: "jstring \<Rightarrow> jstring \<Rightarrow> jstring" where
  "path_join a b = a @ js ''/'' @ b"

definition dirname :: "jstring \<Rightarrow> jstring" where
  "dirname p = (let r = dropWhile (\<lambda>c. c \<noteq> 47) (rev p) in if r = [] then js ''.'' else rev (tl r))"

section \<open>Lemmas\<close>

text \<open>Time, identifiers and file-system calls change nothing else; \<open>io_free\<close> says that no
  file-system call fails from now on.\<close>

definition io_free :: "world \<Rightarrow> bool" where
  "io_free w \<longleftrightarrow> (\<forall>n. w_io w \<le> n \<longrightarrow> w_io_error w n = None)"

lemma io_free_step [simp]: "io_free w \<Longrightarrow> w_io w \<le> n \<Longrightarrow> io_free (w\<lparr>w_io := n\<rparr>)"
  by (simp add: io_free_def)

lemma io_free_frame [simp]:
  "io_free (w\<lparr>w_tick := t\<rparr>) = io_free w" "io_free (w\<lparr>w_draw := d\<rparr>) = io_free w"
  "io_free (w\<lparr>w_op_seq := n\<rparr>) = io_free w" "io_free (w\<lparr>w_op_counter := n\<rparr>) = io_free w"
  "io_free (w\<lparr>w_files := fs\<rparr>) = io_free w"
  by (simp_all add: io_free_def)

lemma try_io_free: "io_free w \<Longrightarrow> try_io effect w = (None, effect (w\<lparr>w_io := Suc (w_io w)\<rparr>))"
  by (simp add: try_io_def io_free_def)

lemma try_io_cases:
  "try_io effect w = (Some e, w\<lparr>w_io := Suc (w_io w)\<rparr>) \<and> w_io_error w (w_io w) = Some e \<or>
   try_io effect w = (None, effect (w\<lparr>w_io := Suc (w_io w)\<rparr>)) \<and> w_io_error w (w_io w) = None"
  if "w_io_error w (w_io w) = Some e \<or> w_io_error w (w_io w) = None" for e
  using that by (auto simp: try_io_def)

lemma put_file_simps [simp]:
  "w_files (put_file p c w) q = (if q = p then Some c else w_files w q)"
  "w_sha (put_file p c w) = w_sha w" "w_io (put_file p c w) = w_io w"
  "w_io_error (put_file p c w) = w_io_error w" "io_free (put_file p c w) = io_free w"
  "w_tick (put_file p c w) = w_tick w" "w_clock (put_file p c w) = w_clock w"
  "w_draw (put_file p c w) = w_draw w" "w_uuid (put_file p c w) = w_uuid w"
  "w_op_seq (put_file p c w) = w_op_seq w" "w_op_counter (put_file p c w) = w_op_counter w"
  "w_registry (put_file p c w) = w_registry w"
  by (simp_all add: put_file_def)

lemma rename_file_simps [simp]:
  "w_files (rename_file p q w) r = (if r = p then None else if r = q then w_files w p else w_files w r)"
  "w_sha (rename_file p q w) = w_sha w" "w_io (rename_file p q w) = w_io w"
  "w_io_error (rename_file p q w) = w_io_error w" "io_free (rename_file p q w) = io_free w"
  "w_tick (rename_file p q w) = w_tick w" "w_clock (rename_file p q w) = w_clock w"
  "w_draw (rename_file p q w) = w_draw w" "w_uuid (rename_file p q w) = w_uuid w"
  "w_op_seq (rename_file p q w) = w_op_seq w" "w_op_counter (rename_file p q w) = w_op_counter w"
  "w_registry (rename_file p q w) = w_registry w"
  by (simp_all add: rename_file_def)

lemma next_id_not_proto:
  "next_id ''FACT_'' w \<noteq> proto_key" "next_id ''REF_'' w \<noteq> proto_key" "next_id ''SUM_'' w \<noteq> proto_key"
  by (auto simp: next_id_def proto_key_def js_def)

lemma prefix_not_index:
  "\<not> is_index (js (c # s) @ x)" if "of_char c < (48::nat) \<or> 57 < (of_char c :: nat)"
  using that by (auto simp: is_index_def js_def)

lemma next_id_not_index [simp]:
  "\<not> is_index (next_id ''FACT_'' w)" "\<not> is_index (next_id ''REF_'' w)" "\<not> is_index (next_id ''SUM_'' w)"
  unfolding next_id_def by (rule prefix_not_index, simp)+

end
