(* ===== verification/ManifestTypes.thy ===== *)
theory ManifestTypes
  imports JsValue "HOL-Library.Monad_Syntax"
begin

text \<open>
  The data model of the manifest engine (\<open>openclaw_2_claw_harder/src/types/manifest.ts\<close>):
  facts, references, summaries, operations, the manifest document, the in-memory indexes
  and the inputs and results of the API. String unions of the source are datatypes; open
  unions (\<open>FactType\<close>, \<open>SummaryType\<close>) are strings. The \<open>*_json\<close> functions give the
  JSON document of a value, the \<open>*_of_json\<close> functions read it back, which is the cast
  \<open>parsed as Manifest\<close> made explicit.
\<close>

type_synonym fact_id = jstring
type_synonym ref_id = jstring
type_synonym summary_id = jstring
type_synonym operation_id = jstring

section \<open>Facts\<close>

datatype fact_state = Active | Archived | Superseded | Invalidated | Conflicted

record fact_observations =
  first_seen :: jstring
  last_seen :: jstring
  observation_count :: int

record fact =
  f_id :: fact_id
  f_hash :: jstring
  f_type :: jstring
  f_value :: jsobj
  f_identity_key :: jstring
  f_confidence :: dbl
  f_source :: jstring
  f_derived_from :: "fact_id list"
  f_supersedes :: "fact_id option"
  f_merged_from :: "fact_id list option"
  f_state :: fact_state
  f_created_at :: jstring
  f_observations :: fact_observations
  f_supporting_sources :: "jstring list"
  f_discovery_index :: int

section \<open>References, summaries, operations\<close>

record reference =
  r_id :: ref_id
  r_source :: jstring
  r_label :: jstring
  r_path :: jstring
  r_content_hash :: jstring
  r_line_count :: int
  r_byte_size :: int
  r_created_at :: jstring
  r_related_fact_ids :: "fact_id list"

datatype summary_state = SActive | SSuperseded | SArchived

record summary =
  s_id :: summary_id
  s_type :: jstring
  s_scope :: jstring
  s_state :: summary_state
  s_stale :: bool
  s_confidence :: dbl
  s_generated_at :: jstring
  s_source_fact_ids :: "fact_id list"
  s_source_ref_ids :: "ref_id list"
  s_key_points :: "jstring list"
  s_conflicts :: "jstring list"
  s_recommended_next_actions :: "jstring list"

datatype operation_type =
    Fact_added | Fact_superseded | Fact_invalidated | Fact_conflicted
  | Fact_observation_updated | Fact_consolidated | Ref_added | Summary_added
  | Summary_staled | Summary_superseded | Manifest_loaded | Manifest_committed
  | Revision_conflict | Recall_event

record operation =
  op_id :: operation_id
  op_type :: operation_type
  op_actor :: jstring
  op_timestamp :: jstring
  op_revision_before :: int
  op_revision_after :: int
  op_metadata :: jsobj

section \<open>The manifest and its indexes\<close>

record manifest =
  m_schema_version :: jstring
  m_revision :: int
  m_integrity_hash :: jstring
  m_created_at :: jstring
  m_updated_at :: jstring
  m_facts :: "fact obj"
  m_references :: "reference obj"
  m_summaries :: "summary obj"
  m_operations :: "operation list"
  m_last_fact_index :: int

record manifest_indexes =
  facts_by_type :: "(jstring, fact_id jset) jmap"
  facts_by_identity_key :: "(jstring, fact_id jset) jmap"
  facts_by_source :: "(jstring, fact_id jset) jmap"
  refs_by_source :: "(jstring, ref_id jset) jmap"
  summary_deps :: "(fact_id, summary_id jset) jmap"
  active_facts :: "fact_id jset"
  conflicted_facts :: "fact_id jset"

section \<open>Inputs and results of the API\<close>

record add_fact_input =
  i_type :: jstring
  i_value :: jsobj
  i_confidence :: dbl
  i_source :: jstring
  i_derived_from :: "fact_id list option"
  i_supporting_sources :: "jstring list option"

text \<open>A \<open>Buffer\<close> is given by the text its bytes decode to and by its byte length.\<close>

datatype artifact_content = Text_content jstring | Buffer_content jstring nat

record add_reference_input =
  ri_source :: jstring
  ri_label :: jstring
  ri_content :: artifact_content
  ri_related_fact_ids :: "fact_id list option"

record add_summary_input =
  si_type :: jstring
  si_scope :: jstring
  si_key_points :: "jstring list"
  si_conflicts :: "jstring list option"
  si_recommended_next_actions :: "jstring list option"
  si_source_fact_ids :: "fact_id list"
  si_source_ref_ids :: "ref_id list option"
  si_confidence :: dbl

datatype outcome = New | Converge | Supersede | Conflict | Reject

datatype decision =
    Dec_new (dec_reason: jstring)
  | Dec_converge (dec_existing: fact_id) (dec_reason: jstring)
  | Dec_supersede (dec_existing: fact_id) (dec_reason: jstring)
  | Dec_conflict (dec_existing: fact_id) (dec_reason: jstring)
  | Dec_reject (dec_existing: fact_id) (dec_reason: jstring)

fun dec_outcome :: "decision \<Rightarrow> outcome" where
  "dec_outcome (Dec_new r) = New"
| "dec_outcome (Dec_converge e r) = Converge"
| "dec_outcome (Dec_supersede e r) = Supersede"
| "dec_outcome (Dec_conflict e r) = Conflict"
| "dec_outcome (Dec_reject e r) = Reject"

record query_filter =
  q_type :: "jstring option"
  q_state :: "fact_state list option"
  q_identity_key :: "jstring option"
  q_source :: "jstring option"
  q_min_confidence :: "dbl option"
  q_limit :: "int option"

datatype recall_mode = M_summary | M_head | M_tail | M_range | M_full | M_search

record recall_request =
  rq_ref_id :: ref_id
  rq_mode :: recall_mode
  rq_start_line :: "int option"
  rq_end_line :: "int option"
  rq_query :: "jstring option"

record recall_line =
  ln_n :: int
  ln_text :: jstring

record recall_result =
  rr_ref_id :: ref_id
  rr_mode :: recall_mode
  rr_label :: jstring
  rr_total_lines :: int
  rr_byte_size :: int
  rr_source :: jstring
  rr_created_at :: jstring
  rr_lines :: "recall_line list"
  rr_match_count :: "int option"

section \<open>String forms of the unions\<close>

fun state_str :: "fact_state \<Rightarrow> jstring" where
  "state_str Active = js ''active''"
| "state_str Archived = js ''archived''"
| "state_str Superseded = js ''superseded''"
| "state_str Invalidated = js ''invalidated''"
| "state_str Conflicted = js ''conflicted''"

fun summary_state_str :: "summary_state \<Rightarrow> jstring" where
  "summary_state_str SActive = js ''active''"
| "summary_state_str SSuperseded = js ''superseded''"
| "summary_state_str SArchived = js ''archived''"

fun op_type_str :: "operation_type \<Rightarrow> jstring" where
  "op_type_str Fact_added = js ''fact_added''"
| "op_type_str Fact_superseded = js ''fact_superseded''"
| "op_type_str Fact_invalidated = js ''fact_invalidated''"
| "op_type_str Fact_conflicted = js ''fact_conflicted''"
| "op_type_str Fact_observation_updated = js ''fact_observation_updated''"
| "op_type_str Fact_consolidated = js ''fact_consolidated''"
| "op_type_str Ref_added = js ''ref_added''"
| "op_type_str Summary_added = js ''summary_added''"
| "op_type_str Summary_staled = js ''summary_staled''"
| "op_type_str Summary_superseded = js ''summary_superseded''"
| "op_type_str Manifest_loaded = js ''manifest_loaded''"
| "op_type_str Manifest_committed = js ''manifest_committed''"
| "op_type_str Revision_conflict = js ''revision_conflict''"
| "op_type_str Recall_event = js ''recall_event''"

fun outcome_str :: "outcome \<Rightarrow> jstring" where
  "outcome_str New = js ''new''"
| "outcome_str Converge = js ''converge''"
| "outcome_str Supersede = js ''supersede''"
| "outcome_str Conflict = js ''conflict''"
| "outcome_str Reject = js ''reject''"

fun mode_str :: "recall_mode \<Rightarrow> jstring" where
  "mode_str M_summary = js ''summary''"
| "mode_str M_head = js ''head''"
| "mode_str M_tail = js ''tail''"
| "mode_str M_range = js ''range''"
| "mode_str M_full = js ''full''"
| "mode_str M_search = js ''search''"

definition all_states :: "fact_state list" where
  "all_states = [Active, Archived, Superseded, Invalidated, Conflicted]"

definition all_summary_states :: "summary_state list" where
  "all_summary_states = [SActive, SSuperseded, SArchived]"

definition all_op_types :: "operation_type list" where
  "all_op_types = [Fact_added, Fact_superseded, Fact_invalidated, Fact_conflicted,
     Fact_observation_updated, Fact_consolidated, Ref_added, Summary_added,
     Summary_staled, Summary_superseded, Manifest_loaded, Manifest_committed,
     Revision_conflict, Recall_event]"

definition of_str :: "('a \<Rightarrow> jstring) \<Rightarrow> 'a list \<Rightarrow> jstring \<Rightarrow> 'a option" where
  "of_str f xs s = List.find (\<lambda>x. f x = s) xs"

lemma state_str_inverse [simp]: "of_str state_str all_states (state_str s) = Some s"
  by (cases s) (simp_all add: of_str_def all_states_def)

lemma summary_state_str_inverse [simp]:
  "of_str summary_state_str all_summary_states (summary_state_str s) = Some s"
  by (cases s) (simp_all add: of_str_def all_summary_states_def)

lemma op_type_str_inverse [simp]: "of_str op_type_str all_op_types (op_type_str t) = Some t"
  by (cases t) (simp_all add: of_str_def all_op_types_def)

section \<open>JSON documents\<close>

definition strs_json :: "jstring list \<Rightarrow> jsval" where
  "strs_json xs = Arr (map Str xs)"

definition int_json :: "int \<Rightarrow> jsval" where
  "int_json n = Num (n * ulp0)"

definition opt_field :: "jstring \<Rightarrow> jsval option \<Rightarrow> jsobj" where
  "opt_field k v = (case v of None \<Rightarrow> [] | Some w \<Rightarrow> [(k, w)])"

definition observations_json :: "fact_observations \<Rightarrow> jsval" where
  "observations_json b = Obj
     [(js ''first_seen'', Str (first_seen b)),
      (js ''last_seen'', Str (last_seen b)),
      (js ''observation_count'', int_json (observation_count b))]"

definition fact_json :: "fact \<Rightarrow> jsval" where
  "fact_json f = Obj
     ([(js ''fact_id'', Str (f_id f)),
       (js ''fact_hash'', Str (f_hash f)),
       (js ''type'', Str (f_type f)),
       (js ''value'', Obj (f_value f)),
       (js ''identity_key'', Str (f_identity_key f)),
       (js ''confidence'', Num (f_confidence f)),
       (js ''source'', Str (f_source f)),
       (js ''derived_from'', strs_json (f_derived_from f)),
       (js ''state'', Str (state_str (f_state f))),
       (js ''created_at'', Str (f_created_at f)),
       (js ''observations'', observations_json (f_observations f)),
       (js ''supporting_sources'', strs_json (f_supporting_sources f)),
       (js ''discovery_index'', int_json (f_discovery_index f))]
      @ opt_field (js ''supersedes'') (map_option Str (f_supersedes f))
      @ opt_field (js ''merged_from'') (map_option strs_json (f_merged_from f)))"

definition reference_json :: "reference \<Rightarrow> jsval" where
  "reference_json r = Obj
     [(js ''ref_id'', Str (r_id r)),
      (js ''source'', Str (r_source r)),
      (js ''label'', Str (r_label r)),
      (js ''path'', Str (r_path r)),
      (js ''content_hash'', Str (r_content_hash r)),
      (js ''line_count'', int_json (r_line_count r)),
      (js ''byte_size'', int_json (r_byte_size r)),
      (js ''created_at'', Str (r_created_at r)),
      (js ''related_fact_ids'', strs_json (r_related_fact_ids r))]"

definition summary_json :: "summary \<Rightarrow> jsval" where
  "summary_json s = Obj
     [(js ''summary_id'', Str (s_id s)),
      (js ''type'', Str (s_type s)),
      (js ''scope'', Str (s_scope s)),
      (js ''state'', Str (summary_state_str (s_state s))),
      (js ''stale'', Bool (s_stale s)),
      (js ''confidence'', Num (s_confidence s)),
      (js ''generated_at'', Str (s_generated_at s)),
      (js ''source_fact_ids'', strs_json (s_source_fact_ids s)),
      (js ''source_ref_ids'', strs_json (s_source_ref_ids s)),
      (js ''key_points'', strs_json (s_key_points s)),
      (js ''conflicts'', strs_json (s_conflicts s)),
      (js ''recommended_next_actions'', strs_json (s_recommended_next_actions s))]"

definition operation_json :: "operation \<Rightarrow> jsval" where
  "operation_json p = Obj
     [(js ''op_id'', Str (op_id p)),
      (js ''type'', Str (op_type_str (op_type p))),
      (js ''actor'', Str (op_actor p)),
      (js ''timestamp'', Str (op_timestamp p)),
      (js ''revision_before'', int_json (op_revision_before p)),
      (js ''revision_after'', int_json (op_revision_after p)),
      (js ''metadata'', Obj (op_metadata p))]"

definition record_json :: "('a \<Rightarrow> jsval) \<Rightarrow> 'a obj \<Rightarrow> jsval" where
  "record_json enc xs = Obj (map (\<lambda>(k, v). (k, enc v)) xs)"

text \<open>The manifest document; the members \<open>integrity_hash\<close> and \<open>operations\<close> come last here,
  the order of members is irrelevant to every use of the document.\<close>

definition state_json :: "manifest \<Rightarrow> jsobj" where
  "state_json m =
     [(js ''schema_version'', Str (m_schema_version m)),
      (js ''revision'', int_json (m_revision m)),
      (js ''created_at'', Str (m_created_at m)),
      (js ''updated_at'', Str (m_updated_at m)),
      (js ''facts'', record_json fact_json (m_facts m)),
      (js ''references'', record_json reference_json (m_references m)),
      (js ''summaries'', record_json summary_json (m_summaries m)),
      (js ''last_fact_index'', int_json (m_last_fact_index m))]"

definition manifest_json :: "manifest \<Rightarrow> jsobj" where
  "manifest_json m = state_json m
     @ [(js ''integrity_hash'', Str (m_integrity_hash m)),
        (js ''operations'', Arr (map operation_json (m_operations m)))]"

section \<open>Reading documents back\<close>

definition str_of :: "jsval \<Rightarrow> jstring option" where
  "str_of v = (case v of Str s \<Rightarrow> Some s | _ \<Rightarrow> None)"

definition bool_of :: "jsval \<Rightarrow> bool option" where
  "bool_of v = (case v of Bool b \<Rightarrow> Some b | _ \<Rightarrow> None)"

definition num_of :: "jsval \<Rightarrow> dbl option" where
  "num_of v = (case v of Num x \<Rightarrow> Some x | _ \<Rightarrow> None)"

definition int_of :: "jsval \<Rightarrow> int option" where
  "int_of v = (case v of Num x \<Rightarrow> if x mod ulp0 = 0 then Some (x div ulp0) else None | _ \<Rightarrow> None)"

definition obj_of :: "jsval \<Rightarrow> jsobj option" where
  "obj_of v = (case v of Obj kvs \<Rightarrow> Some kvs | _ \<Rightarrow> None)"

definition list_of :: "(jsval \<Rightarrow> 'a option) \<Rightarrow> jsval \<Rightarrow> 'a list option" where
  "list_of d v = (case v of Arr vs \<Rightarrow> those (map d vs) | _ \<Rightarrow> None)"

definition opt_of :: "(jsval \<Rightarrow> 'a option) \<Rightarrow> jsval \<Rightarrow> 'a option option" where
  "opt_of d v = (if v = Undef then Some None else map_option Some (d v))"

definition record_of :: "(jsval \<Rightarrow> 'a option) \<Rightarrow> jsval \<Rightarrow> 'a obj option" where
  "record_of d v = (case v of Obj kvs \<Rightarrow> those (map (\<lambda>(k, w). map_option (Pair k) (d w)) kvs) | _ \<Rightarrow> None)"

definition observations_of_json :: "jsval \<Rightarrow> fact_observations option" where
  "observations_of_json v = do {
     b \<leftarrow> obj_of v;
     fs \<leftarrow> str_of (jget b (js ''first_seen''));
     ls \<leftarrow> str_of (jget b (js ''last_seen''));
     n \<leftarrow> int_of (jget b (js ''observation_count''));
     Some \<lparr>first_seen = fs, last_seen = ls, observation_count = n\<rparr> }"

definition fact_of_json :: "jsval \<Rightarrow> fact option" where
  "fact_of_json v = do {
     b \<leftarrow> obj_of v;
     i \<leftarrow> str_of (jget b (js ''fact_id''));
     h \<leftarrow> str_of (jget b (js ''fact_hash''));
     t \<leftarrow> str_of (jget b (js ''type''));
     w \<leftarrow> obj_of (jget b (js ''value''));
     k \<leftarrow> str_of (jget b (js ''identity_key''));
     c \<leftarrow> num_of (jget b (js ''confidence''));
     s \<leftarrow> str_of (jget b (js ''source''));
     df \<leftarrow> list_of str_of (jget b (js ''derived_from''));
     st \<leftarrow> Option.bind (str_of (jget b (js ''state''))) (of_str state_str all_states);
     ca \<leftarrow> str_of (jget b (js ''created_at''));
     ob \<leftarrow> observations_of_json (jget b (js ''observations''));
     ss \<leftarrow> list_of str_of (jget b (js ''supporting_sources''));
     di \<leftarrow> int_of (jget b (js ''discovery_index''));
     su \<leftarrow> opt_of str_of (jget b (js ''supersedes''));
     mf \<leftarrow> opt_of (list_of str_of) (jget b (js ''merged_from''));
     Some \<lparr>f_id = i, f_hash = h, f_type = t, f_value = w, f_identity_key = k, f_confidence = c,
       f_source = s, f_derived_from = df, f_supersedes = su, f_merged_from = mf, f_state = st,
       f_created_at = ca, f_observations = ob, f_supporting_sources = ss, f_discovery_index = di\<rparr> }"

definition reference_of_json :: "jsval \<Rightarrow> reference option" where
  "reference_of_json v = do {
     b \<leftarrow> obj_of v;
     i \<leftarrow> str_of (jget b (js ''ref_id''));
     s \<leftarrow> str_of (jget b (js ''source''));
     l \<leftarrow> str_of (jget b (js ''label''));
     p \<leftarrow> str_of (jget b (js ''path''));
     h \<leftarrow> str_of (jget b (js ''content_hash''));
     lc \<leftarrow> int_of (jget b (js ''line_count''));
     bs \<leftarrow> int_of (jget b (js ''byte_size''));
     ca \<leftarrow> str_of (jget b (js ''created_at''));
     rf \<leftarrow> list_of str_of (jget b (js ''related_fact_ids''));
     Some \<lparr>r_id = i, r_source = s, r_label = l, r_path = p, r_content_hash = h, r_line_count = lc,
       r_byte_size = bs, r_created_at = ca, r_related_fact_ids = rf\<rparr> }"

definition summary_of_json :: "jsval \<Rightarrow> summary option" where
  "summary_of_json v = do {
     b \<leftarrow> obj_of v;
     i \<leftarrow> str_of (jget b (js ''summary_id''));
     t \<leftarrow> str_of (jget b (js ''type''));
     sc \<leftarrow> str_of (jget b (js ''scope''));
     st \<leftarrow> Option.bind (str_of (jget b (js ''state''))) (of_str summary_state_str all_summary_states);
     sl \<leftarrow> bool_of (jget b (js ''stale''));
     c \<leftarrow> num_of (jget b (js ''confidence''));
     g \<leftarrow> str_of (jget b (js ''generated_at''));
     sf \<leftarrow> list_of str_of (jget b (js ''source_fact_ids''));
     sr \<leftarrow> list_of str_of (jget b (js ''source_ref_ids''));
     kp \<leftarrow> list_of str_of (jget b (js ''key_points''));
     cf \<leftarrow> list_of str_of (jget b (js ''conflicts''));
     na \<leftarrow> list_of str_of (jget b (js ''recommended_next_actions''));
     Some \<lparr>s_id = i, s_type = t, s_scope = sc, s_state = st, s_stale = sl, s_confidence = c,
       s_generated_at = g, s_source_fact_ids = sf, s_source_ref_ids = sr, s_key_points = kp,
       s_conflicts = cf, s_recommended_next_actions = na\<rparr> }"

definition operation_of_json :: "jsval \<Rightarrow> operation option" where
  "operation_of_json v = do {
     b \<leftarrow> obj_of v;
     i \<leftarrow> str_of (jget b (js ''op_id''));
     t \<leftarrow> Option.bind (str_of (jget b (js ''type''))) (of_str op_type_str all_op_types);
     a \<leftarrow> str_of (jget b (js ''actor''));
     ts \<leftarrow> str_of (jget b (js ''timestamp''));
     rb \<leftarrow> int_of (jget b (js ''revision_before''));
     ra \<leftarrow> int_of (jget b (js ''revision_after''));
     md \<leftarrow> obj_of (jget b (js ''metadata''));
     Some \<lparr>op_id = i, op_type = t, op_actor = a, op_timestamp = ts, op_revision_before = rb,
       op_revision_after = ra, op_metadata = md\<rparr> }"

definition manifest_of_json :: "jsobj \<Rightarrow> manifest option" where
  "manifest_of_json b = do {
     sv \<leftarrow> str_of (jget b (js ''schema_version''));
     rv \<leftarrow> int_of (jget b (js ''revision''));
     ih \<leftarrow> str_of (jget b (js ''integrity_hash''));
     ca \<leftarrow> str_of (jget b (js ''created_at''));
     ua \<leftarrow> str_of (jget b (js ''updated_at''));
     fs \<leftarrow> record_of fact_of_json (jget b (js ''facts''));
     rs \<leftarrow> record_of reference_of_json (jget b (js ''references''));
     ss \<leftarrow> record_of summary_of_json (jget b (js ''summaries''));
     os \<leftarrow> list_of operation_of_json (jget b (js ''operations''));
     lf \<leftarrow> int_of (jget b (js ''last_fact_index''));
     Some \<lparr>m_schema_version = sv, m_revision = rv, m_integrity_hash = ih, m_created_at = ca,
       m_updated_at = ua, m_facts = fs, m_references = rs, m_summaries = ss,
       m_operations = os, m_last_fact_index = lf\<rparr> }"

section \<open>The JSON round trip\<close>

lemma those_map_Some [simp]: "those (map (\<lambda>x. Some (g x)) xs) = Some (map g xs)"
  by (induction xs) auto

lemma those_map_inverse: "(\<And>x. x \<in> set xs \<Longrightarrow> d (g x) = Some x) \<Longrightarrow> those (map (d \<circ> g) xs) = Some xs"
  by (induction xs) auto

lemma norm_strs [simp]: "json_norm (strs_json xs) = strs_json xs"
  by (simp add: strs_json_def)

lemma list_of_strs [simp]: "list_of str_of (strs_json xs) = Some xs"
  by (simp add: list_of_def strs_json_def str_of_def comp_def)

lemma int_json_inverse [simp]: "int_of (int_json n) = Some n"
  by (simp add: int_of_def int_json_def ulp0_def)

lemma norm_int [simp]: "json_norm (int_json n) = int_json n"
  by (simp add: int_json_def)

lemma json_not_Undef [simp]: "strs_json xs \<noteq> Undef" "int_json n \<noteq> Undef"
  "observations_json b \<noteq> Undef" "record_json e ys \<noteq> Undef"
  by (simp_all add: strs_json_def int_json_def observations_json_def record_json_def)

lemma of_json_simps [simp]: "str_of (Str s) = Some s" "bool_of (Bool b) = Some b"
  "num_of (Num x) = Some x" "obj_of (Obj kvs) = Some kvs"
  by (simp_all add: str_of_def bool_of_def num_of_def obj_of_def)

lemma observations_roundtrip [simp]: "observations_of_json (json_norm (observations_json b)) = Some b"
  by (simp add: observations_of_json_def observations_json_def)

lemma json_norm_record [simp]:
  "(\<And>x. enc x \<noteq> Undef) \<Longrightarrow> json_norm (record_json enc ys) = record_json (\<lambda>x. json_norm (enc x)) ys"
  by (induction ys) (auto simp: record_json_def)

lemma record_json_inverse:
  "(\<And>k x. (k, x) \<in> set ys \<Longrightarrow> d (enc x) = Some x) \<Longrightarrow> record_of d (record_json enc ys) = Some ys"
proof (induction ys)
  case (Cons p ys)
  obtain a b where p: "p = (a, b)" by force
  then have "d (enc b) = Some b" using Cons.prems [of a b] by simp
  moreover have "record_of d (record_json enc ys) = Some ys"
  proof (rule Cons.IH)
    fix k x
    assume "(k, x) \<in> set ys"
    then show "d (enc x) = Some x" using Cons.prems [of k x] by simp
  qed
  ultimately show ?case by (simp add: p record_json_def record_of_def)
qed (simp add: record_json_def record_of_def)

lemma fact_json_defined [simp]: "fact_json f \<noteq> Undef" "reference_json r \<noteq> Undef"
  "summary_json s \<noteq> Undef" "operation_json p \<noteq> Undef"
  by (simp_all add: fact_json_def reference_json_def summary_json_def operation_json_def)

lemma fact_roundtrip:
  "obj_clean (f_value f) \<Longrightarrow> fact_of_json (json_norm (fact_json f)) = Some f"
  by (cases "f_supersedes f"; cases "f_merged_from f")
    (simp_all add: fact_of_json_def fact_json_def opt_field_def opt_of_def)

lemma reference_roundtrip [simp]: "reference_of_json (json_norm (reference_json r)) = Some r"
  by (simp add: reference_of_json_def reference_json_def)

lemma summary_roundtrip [simp]: "summary_of_json (json_norm (summary_json s)) = Some s"
  by (simp add: summary_of_json_def summary_json_def)

lemma operation_roundtrip:
  "obj_clean (op_metadata p) \<Longrightarrow> operation_of_json (json_norm (operation_json p)) = Some p"
  by (simp add: operation_of_json_def operation_json_def)

text \<open>A manifest whose fact values and operation metadata hold JSON data only.\<close>

definition manifest_clean :: "manifest \<Rightarrow> bool" where
  "manifest_clean m \<longleftrightarrow> list_all (\<lambda>(k, f). obj_clean (f_value f)) (m_facts m) \<and>
     list_all (\<lambda>p. obj_clean (op_metadata p)) (m_operations m)"

lemma manifest_roundtrip:
  assumes "manifest_clean m"
  shows "manifest_of_json (json_fields (manifest_json m)) = Some m"
proof -
  have "record_of fact_of_json (record_json (\<lambda>x. json_norm (fact_json x)) (m_facts m)) = Some (m_facts m)"
    using assms by (intro record_json_inverse fact_roundtrip) (auto simp: manifest_clean_def list_all_iff)
  moreover have "record_of reference_of_json (record_json (\<lambda>x. json_norm (reference_json x)) (m_references m)) = Some (m_references m)"
    by (intro record_json_inverse) simp
  moreover have "record_of summary_of_json (record_json (\<lambda>x. json_norm (summary_json x)) (m_summaries m)) = Some (m_summaries m)"
    by (intro record_json_inverse) simp
  moreover have "list_of operation_of_json (Arr (map (\<lambda>x. json_norm (operation_json x)) (m_operations m))) = Some (m_operations m)"
    using assms those_map_inverse [of "m_operations m" operation_of_json "\<lambda>x. json_norm (operation_json x)"]
    by (simp add: list_of_def manifest_clean_def list_all_iff operation_roundtrip comp_def)
  ultimately show ?thesis
    by (simp add: manifest_of_json_def manifest_json_def state_json_def comp_def)
qed

text \<open>The members that the integrity hash covers do not depend on the two that it leaves out.\<close>

lemma state_json_frame [simp]:
  "state_json (m\<lparr>m_integrity_hash := h\<rparr>) = state_json m"
  "state_json (m\<lparr>m_operations := ops\<rparr>) = state_json m"
  by (simp_all add: state_json_def)

end
