(* ===== verification/Indexing.thy ===== *)
theory Indexing
  imports ManifestTypes
begin

text \<open>
  The in-memory indexes (\<open>src/manifest/indexing.ts\<close>): building them from a manifest,
  keeping them up to date, and the validators that run at load time. \<open>set_index\<close> is the
  contract of a map from keys to sets that the index builder relies on; the model's
  \<open>add_to_set_map\<close> provides it. \<open>idx_ok m ix\<close> says that \<open>ix\<close> is the index of \<open>m\<close>.
\<close>

section \<open>The map from keys to sets\<close>

definition add_to_set_map :: "('k, 'v jset) jmap \<Rightarrow> 'k \<Rightarrow> 'v \<Rightarrow> ('k, 'v jset) jmap" where
  "add_to_set_map m k v =
     (case map_of m k of
        None \<Rightarrow> map_put k (set_add v []) m
      | Some s \<Rightarrow> map_put k (set_add v s) m)"

definition bucket :: "('k, 'v jset) jmap \<Rightarrow> 'k \<Rightarrow> 'v set" where
  "bucket m k = (case map_of m k of None \<Rightarrow> {} | Some s \<Rightarrow> set s)"

locale set_index =
  fixes add :: "'m \<Rightarrow> 'k \<Rightarrow> 'v \<Rightarrow> 'm"
    and members :: "'m \<Rightarrow> 'k \<Rightarrow> 'v set"
    and nothing :: 'm
  assumes members_add: "members (add m k v) l = (if l = k then insert v (members m l) else members m l)"
    and members_nothing: "members nothing l = {}"
begin

definition add_all :: "('x \<Rightarrow> 'k) \<Rightarrow> ('x \<Rightarrow> 'v) \<Rightarrow> 'x list \<Rightarrow> 'm \<Rightarrow> 'm" where
  "add_all key val xs m = foldl (\<lambda>m x. add m (key x) (val x)) m xs"

lemma members_add_all: "members (add_all key val xs m) l = members m l \<union> {val x | x. x \<in> set xs \<and> key x = l}"
proof (induction xs arbitrary: m)
  case (Cons x xs)
  then show ?case by (auto simp: add_all_def members_add)
qed (simp add: add_all_def)

lemma members_built: "members (add_all key val xs nothing) l = {val x | x. x \<in> set xs \<and> key x = l}"
  by (simp add: members_add_all members_nothing)

end

interpretation sx: set_index add_to_set_map bucket "[]"
  by unfold_locales (auto simp: bucket_def add_to_set_map_def js_simps split: option.splits)

section \<open>Build\<close>

definition empty_indexes :: manifest_indexes where
  "empty_indexes = \<lparr>facts_by_type = [], facts_by_identity_key = [], facts_by_source = [],
     refs_by_source = [], summary_deps = [], active_facts = [], conflicted_facts = []\<rparr>"

definition index_fact :: "manifest_indexes \<Rightarrow> fact \<Rightarrow> manifest_indexes" where
  "index_fact ix f =
     (let i = f_id f;
          ix = ix\<lparr>facts_by_type := add_to_set_map (facts_by_type ix) (f_type f) i\<rparr>;
          ix = ix\<lparr>facts_by_identity_key := add_to_set_map (facts_by_identity_key ix) (f_identity_key f) i\<rparr>;
          ix = ix\<lparr>facts_by_source := add_to_set_map (facts_by_source ix) (f_source f) i\<rparr>;
          ix = (if f_state f = Active then ix\<lparr>active_facts := set_add i (active_facts ix)\<rparr> else ix)
      in if f_state f = Conflicted then ix\<lparr>conflicted_facts := set_add i (conflicted_facts ix)\<rparr> else ix)"

definition reindex_fact_state :: "manifest_indexes \<Rightarrow> fact_id \<Rightarrow> fact_state \<Rightarrow> fact_state \<Rightarrow> manifest_indexes" where
  "reindex_fact_state ix i previous new =
     (if previous = new then ix else
      let ix = (if previous = Active then ix\<lparr>active_facts := set_del i (active_facts ix)\<rparr> else ix);
          ix = (if previous = Conflicted then ix\<lparr>conflicted_facts := set_del i (conflicted_facts ix)\<rparr> else ix);
          ix = (if new = Active then ix\<lparr>active_facts := set_add i (active_facts ix)\<rparr> else ix)
      in if new = Conflicted then ix\<lparr>conflicted_facts := set_add i (conflicted_facts ix)\<rparr> else ix)"

definition index_ref :: "manifest_indexes \<Rightarrow> reference \<Rightarrow> manifest_indexes" where
  "index_ref ix r = ix\<lparr>refs_by_source := add_to_set_map (refs_by_source ix) (r_source r) (r_id r)\<rparr>"

definition index_summary_deps :: "manifest_indexes \<Rightarrow> summary_id \<Rightarrow> fact_id list \<Rightarrow> manifest_indexes" where
  "index_summary_deps ix sid fids =
     foldl (\<lambda>ix i. ix\<lparr>summary_deps := add_to_set_map (summary_deps ix) i sid\<rparr>) ix fids"

definition build_indexes :: "manifest \<Rightarrow> manifest_indexes" where
  "build_indexes m =
     (let ix = foldl index_fact empty_indexes (obj_values (m_facts m));
          ix = foldl index_ref ix (obj_values (m_references m))
      in foldl (\<lambda>ix s. index_summary_deps ix (s_id s) (s_source_fact_ids s)) ix (obj_values (m_summaries m)))"

section \<open>Index validation\<close>

record index_validation_result =
  iv_ok :: bool
  iv_errors :: "jstring list"
  iv_warnings :: "jstring list"

definition bracket :: "string \<Rightarrow> jstring \<Rightarrow> jstring" where
  "bracket a s = js a @ js ''['' @ s @ js '']''"

definition type_bucket_errors :: "manifest \<Rightarrow> manifest_indexes \<Rightarrow> jstring list" where
  "type_bucket_errors m ix =
     [bracket ''facts_by_type'' t @ js '' contains '' @ i @ js '' which is not in manifest.facts''.
        (t, ids) \<leftarrow> facts_by_type ix, i \<leftarrow> ids, obj_get (m_facts m) i = None]"

definition missing_type_errors :: "manifest \<Rightarrow> manifest_indexes \<Rightarrow> jstring list" where
  "missing_type_errors m ix =
     [bracket ''manifest.facts'' i @ js '' not found in '' @ bracket ''facts_by_type'' (f_type f).
        (i, f) \<leftarrow> m_facts m, i \<notin> bucket (facts_by_type ix) (f_type f)]"

definition state_set_errors :: "string \<Rightarrow> fact_state \<Rightarrow> fact_id jset \<Rightarrow> manifest \<Rightarrow> jstring list" where
  "state_set_errors name st ids m =
     concat (map (\<lambda>i. case obj_get (m_facts m) i of
         None \<Rightarrow> [js name @ js '' contains '' @ i @ js '' which is not in manifest.facts'']
       | Some f \<Rightarrow> if f_state f \<noteq> st
           then [js name @ js '' contains '' @ i @ js '' but manifest state is '' @ [34] @ state_str (f_state f) @ [34]]
           else []) ids)"

definition missing_state_errors :: "manifest \<Rightarrow> manifest_indexes \<Rightarrow> jstring list" where
  "missing_state_errors m ix =
     concat (map (\<lambda>(i, f).
        (if f_state f = Active \<and> i \<notin> set (active_facts ix)
         then [bracket ''manifest.facts'' i @ js '' is active but missing from active_facts index''] else []) @
        (if f_state f = Conflicted \<and> i \<notin> set (conflicted_facts ix)
         then [bracket ''manifest.facts'' i @ js '' is conflicted but missing from conflicted_facts index''] else []))
       (m_facts m))"

definition dep_warnings :: "manifest \<Rightarrow> manifest_indexes \<Rightarrow> jstring list" where
  "dep_warnings m ix =
     [bracket ''summary_deps'' i @ js '' references a fact not in manifest.facts (orphan dep, summaries: '' @
        js ''['' @ join (js '','') sids @ js ''])''.
        (i, sids) \<leftarrow> summary_deps ix, obj_get (m_facts m) i = None]"

definition ref_source_errors :: "manifest \<Rightarrow> manifest_indexes \<Rightarrow> jstring list" where
  "ref_source_errors m ix =
     [bracket ''refs_by_source'' s @ js '' contains '' @ r @ js '' which is not in manifest.references''.
        (s, rids) \<leftarrow> refs_by_source ix, r \<leftarrow> rids, obj_get (m_references m) r = None]"

definition validate_indexes :: "manifest \<Rightarrow> manifest_indexes \<Rightarrow> index_validation_result" where
  "validate_indexes m ix =
     (let errors = type_bucket_errors m ix @ missing_type_errors m ix @
            state_set_errors ''active_facts'' Active (active_facts ix) m @
            state_set_errors ''conflicted_facts'' Conflicted (conflicted_facts ix) m @
            missing_state_errors m ix @ ref_source_errors m ix
      in \<lparr>iv_ok = (errors = []), iv_errors = errors, iv_warnings = dep_warnings m ix\<rparr>)"

section \<open>Lineage validation\<close>

definition lineage_ref_errors :: "manifest \<Rightarrow> jstring \<times> fact \<Rightarrow> jstring list" where
  "lineage_ref_errors m p =
     (case p of (i, f) \<Rightarrow>
        [js ''Fact '' @ i @ js '': '' @ bracket ''derived_from'' q @ js '' does not exist in manifest''.
           q \<leftarrow> f_derived_from f, obj_get (m_facts m) q = None] @
        (case f_supersedes f of
           Some q \<Rightarrow> if q \<noteq> [] \<and> obj_get (m_facts m) q = None
             then [js ''Fact '' @ i @ js '': '' @ bracket ''supersedes'' q @ js '' does not exist in manifest''] else []
         | None \<Rightarrow> []) @
        [js ''Fact '' @ i @ js '': '' @ bracket ''merged_from'' q @ js '' does not exist in manifest''.
           q \<leftarrow> (case f_merged_from f of None \<Rightarrow> [] | Some qs \<Rightarrow> qs), obj_get (m_facts m) q = None])"

definition circular_errors :: "manifest \<Rightarrow> jstring \<times> fact \<Rightarrow> jstring list" where
  "circular_errors m p =
     (case p of (i, f) \<Rightarrow>
        (case f_supersedes f of
           Some q \<Rightarrow> if q \<noteq> [] \<and> (case obj_get (m_facts m) q of Some g \<Rightarrow> f_supersedes g = Some i | None \<Rightarrow> False)
             then [js ''Circular supersession: '' @ i @ [32, 8596, 32] @ q] else []
         | None \<Rightarrow> []))"

definition validate_lineage_full :: "manifest \<Rightarrow> bool \<times> jstring list" where
  "validate_lineage_full m =
     (let errors = concat (map (lineage_ref_errors m) (m_facts m)) @ concat (map (circular_errors m) (m_facts m))
      in (errors = [], errors))"

definition find_orphaned_refs :: "manifest \<Rightarrow> ref_id list" where
  "find_orphaned_refs m =
     (let fact_ref_ids = concat (map f_supporting_sources (obj_values (m_facts m)))
      in filter (\<lambda>r. r \<notin> set fact_ref_ids \<and>
             \<not> list_ex (\<lambda>s. r \<in> set (s_source_ref_ids s)) (obj_values (m_summaries m)))
           (obj_keys (m_references m)))"

section \<open>Well-formed manifests and their indexes\<close>

definition table_ok :: "('a \<Rightarrow> jstring) \<Rightarrow> 'a obj \<Rightarrow> bool" where
  "table_ok idf t \<longleftrightarrow> keys_ok t \<and> (\<forall>k x. map_of t k = Some x \<longrightarrow> idf x = k \<and> k \<noteq> proto_key)"

definition manifest_wf :: "manifest \<Rightarrow> bool" where
  "manifest_wf m \<longleftrightarrow> table_ok f_id (m_facts m) \<and> table_ok r_id (m_references m) \<and> table_ok s_id (m_summaries m)"

definition by_field :: "('a \<Rightarrow> 'b) \<Rightarrow> 'a obj \<Rightarrow> 'b \<Rightarrow> jstring set" where
  "by_field g t k = {i. \<exists>x. map_of t i = Some x \<and> g x = k}"

definition in_state :: "fact_state \<Rightarrow> fact obj \<Rightarrow> fact_id set" where
  "in_state st t = {i. \<exists>f. map_of t i = Some f \<and> f_state f = st}"

definition deps_ok :: "manifest \<Rightarrow> manifest_indexes \<Rightarrow> bool" where
  "deps_ok m ix \<longleftrightarrow>
     (\<forall>sid s i. map_of (m_summaries m) sid = Some s \<longrightarrow> s_state s = SActive \<longrightarrow> i \<in> set (s_source_fact_ids s) \<longrightarrow>
        sid \<in> bucket (summary_deps ix) i) \<and>
     (\<forall>sid i. sid \<in> bucket (summary_deps ix) i \<longrightarrow>
        (\<exists>s. map_of (m_summaries m) sid = Some s \<and> i \<in> set (s_source_fact_ids s)))"

definition fact_idx_ok :: "manifest \<Rightarrow> manifest_indexes \<Rightarrow> bool" where
  "fact_idx_ok m ix \<longleftrightarrow>
     bucket (facts_by_type ix) = by_field f_type (m_facts m) \<and>
     bucket (facts_by_identity_key ix) = by_field f_identity_key (m_facts m) \<and>
     bucket (facts_by_source ix) = by_field f_source (m_facts m) \<and>
     set (active_facts ix) = in_state Active (m_facts m) \<and>
     set (conflicted_facts ix) = in_state Conflicted (m_facts m)"

definition keys_idx_ok :: "manifest_indexes \<Rightarrow> bool" where
  "keys_idx_ok ix \<longleftrightarrow> keys_ok (facts_by_type ix) \<and> keys_ok (refs_by_source ix) \<and> keys_ok (summary_deps ix) \<and>
     distinct (active_facts ix) \<and> distinct (conflicted_facts ix)"

definition idx_ok :: "manifest \<Rightarrow> manifest_indexes \<Rightarrow> bool" where
  "idx_ok m ix \<longleftrightarrow> keys_idx_ok ix \<and> fact_idx_ok m ix \<and>
     bucket (refs_by_source ix) = by_field r_source (m_references m) \<and> deps_ok m ix"

lemma table_ok_values:
  assumes "table_ok idf t" shows "{g (idf x) x | x. x \<in> set (map snd t) \<and> P x} = {g i x | i x. map_of t i = Some x \<and> P x}"
proof -
  have "x \<in> set (map snd t) \<longleftrightarrow> (\<exists>i. map_of t i = Some x)" for x
    using assms keys_ok_values [of t] by (simp add: table_ok_def ran_def)
  with assms show ?thesis by (fastforce simp: table_ok_def)
qed

lemma in_values_iff: "table_ok idf t \<Longrightarrow> x \<in> snd ` set t \<longleftrightarrow> map_of t (idf x) = Some x"
  using keys_ok_values [of t] by (auto simp: table_ok_def ran_def)

lemma index_fact_simps [simp]:
  "facts_by_type (index_fact ix f) = add_to_set_map (facts_by_type ix) (f_type f) (f_id f)"
  "facts_by_identity_key (index_fact ix f) = add_to_set_map (facts_by_identity_key ix) (f_identity_key f) (f_id f)"
  "facts_by_source (index_fact ix f) = add_to_set_map (facts_by_source ix) (f_source f) (f_id f)"
  "active_facts (index_fact ix f) = (if f_state f = Active then set_add (f_id f) (active_facts ix) else active_facts ix)"
  "conflicted_facts (index_fact ix f) = (if f_state f = Conflicted then set_add (f_id f) (conflicted_facts ix) else conflicted_facts ix)"
  "refs_by_source (index_fact ix f) = refs_by_source ix"
  "summary_deps (index_fact ix f) = summary_deps ix"
  by (simp_all add: index_fact_def Let_def)

lemma index_summary_deps_simps:
  "summary_deps (index_summary_deps ix sid fids) = sx.add_all id (\<lambda>_. sid) fids (summary_deps ix)"
  "index_summary_deps ix sid fids = ix\<lparr>summary_deps := summary_deps (index_summary_deps ix sid fids)\<rparr>"
  by (induction fids arbitrary: ix) (simp_all add: index_summary_deps_def sx.add_all_def)

lemma keys_ok_add_to_set_map [js_intros]: "keys_ok m \<Longrightarrow> keys_ok (add_to_set_map m k v)"
  by (simp add: add_to_set_map_def js_intros split: option.split)

lemma keys_ok_add_all [js_intros]: "keys_ok m \<Longrightarrow> keys_ok (sx.add_all key val xs m)"
  by (induction xs arbitrary: m) (simp_all add: sx.add_all_def js_intros)

subsection \<open>The built index is the index of the manifest\<close>

lemma fold_facts:
  "facts_by_type (foldl index_fact ix fs) = sx.add_all f_type f_id fs (facts_by_type ix)"
  "facts_by_identity_key (foldl index_fact ix fs) = sx.add_all f_identity_key f_id fs (facts_by_identity_key ix)"
  "facts_by_source (foldl index_fact ix fs) = sx.add_all f_source f_id fs (facts_by_source ix)"
  "set (active_facts (foldl index_fact ix fs)) = set (active_facts ix) \<union> {f_id f | f. f \<in> set fs \<and> f_state f = Active}"
  "set (conflicted_facts (foldl index_fact ix fs)) = set (conflicted_facts ix) \<union> {f_id f | f. f \<in> set fs \<and> f_state f = Conflicted}"
  "refs_by_source (foldl index_fact ix fs) = refs_by_source ix"
  "summary_deps (foldl index_fact ix fs) = summary_deps ix"
  by (induction fs arbitrary: ix) (auto simp: sx.add_all_def js_simps)

lemma fold_facts_distinct:
  "distinct (active_facts ix) \<Longrightarrow> distinct (conflicted_facts ix) \<Longrightarrow>
   distinct (active_facts (foldl index_fact ix fs)) \<and> distinct (conflicted_facts (foldl index_fact ix fs))"
  by (induction fs arbitrary: ix) (simp_all add: distinct_set_add)

lemma fold_refs:
  "foldl index_ref ix rs = ix\<lparr>refs_by_source := sx.add_all r_source r_id rs (refs_by_source ix)\<rparr>"
  by (induction rs arbitrary: ix) (auto simp: sx.add_all_def index_ref_def)

lemma fold_deps:
  "foldl (\<lambda>ix s. index_summary_deps ix (s_id s) (s_source_fact_ids s)) ix ss =
     ix\<lparr>summary_deps := summary_deps (foldl (\<lambda>ix s. index_summary_deps ix (s_id s) (s_source_fact_ids s)) ix ss)\<rparr>"
proof (induction ss arbitrary: ix)
  case (Cons s ss)
  show ?case
    by (subst (1 2) foldl_Cons) (subst Cons, subst (3) index_summary_deps_simps(2), simp)
qed simp

lemma fold_deps_bucket:
  "bucket (summary_deps (foldl (\<lambda>ix s. index_summary_deps ix (s_id s) (s_source_fact_ids s)) ix ss)) i =
     bucket (summary_deps ix) i \<union> {s_id s | s. s \<in> set ss \<and> i \<in> set (s_source_fact_ids s)}"
  by (induction ss arbitrary: ix) (auto simp: index_summary_deps_simps(1) sx.members_add_all)

lemma fold_deps_keys:
  "keys_ok (summary_deps ix) \<Longrightarrow>
   keys_ok (summary_deps (foldl (\<lambda>ix s. index_summary_deps ix (s_id s) (s_source_fact_ids s)) ix ss))"
  by (induction ss arbitrary: ix) (simp_all add: index_summary_deps_simps(1) keys_ok_add_all)

lemma build_indexes_fields:
  "facts_by_type (build_indexes m) = sx.add_all f_type f_id (obj_values (m_facts m)) []"
  "facts_by_identity_key (build_indexes m) = sx.add_all f_identity_key f_id (obj_values (m_facts m)) []"
  "facts_by_source (build_indexes m) = sx.add_all f_source f_id (obj_values (m_facts m)) []"
  "set (active_facts (build_indexes m)) = {f_id f | f. f \<in> set (obj_values (m_facts m)) \<and> f_state f = Active}"
  "set (conflicted_facts (build_indexes m)) = {f_id f | f. f \<in> set (obj_values (m_facts m)) \<and> f_state f = Conflicted}"
  "refs_by_source (build_indexes m) = sx.add_all r_source r_id (obj_values (m_references m)) []"
  "bucket (summary_deps (build_indexes m)) i = {s_id s | s. s \<in> set (obj_values (m_summaries m)) \<and> i \<in> set (s_source_fact_ids s)}"
  "keys_idx_ok (build_indexes m)"
proof -
  have b: "build_indexes m = foldl (\<lambda>ix s. index_summary_deps ix (s_id s) (s_source_fact_ids s))
     (foldl index_ref (foldl index_fact empty_indexes (obj_values (m_facts m))) (obj_values (m_references m)))
     (obj_values (m_summaries m))"
    by (simp add: build_indexes_def Let_def)
  note c = b [unfolded fold_refs, THEN trans, OF fold_deps]
  show "facts_by_type (build_indexes m) = sx.add_all f_type f_id (obj_values (m_facts m)) []"
    "facts_by_identity_key (build_indexes m) = sx.add_all f_identity_key f_id (obj_values (m_facts m)) []"
    "facts_by_source (build_indexes m) = sx.add_all f_source f_id (obj_values (m_facts m)) []"
    "set (active_facts (build_indexes m)) = {f_id f | f. f \<in> set (obj_values (m_facts m)) \<and> f_state f = Active}"
    "set (conflicted_facts (build_indexes m)) = {f_id f | f. f \<in> set (obj_values (m_facts m)) \<and> f_state f = Conflicted}"
    "refs_by_source (build_indexes m) = sx.add_all r_source r_id (obj_values (m_references m)) []"
    by (subst c, simp add: fold_facts empty_indexes_def)+
  show "bucket (summary_deps (build_indexes m)) i = {s_id s | s. s \<in> set (obj_values (m_summaries m)) \<and> i \<in> set (s_source_fact_ids s)}"
    unfolding b by (simp only: fold_deps_bucket) (simp add: fold_refs fold_facts empty_indexes_def bucket_def)
  have "keys_ok (summary_deps (build_indexes m))"
    unfolding b by (rule fold_deps_keys) (simp add: fold_refs fold_facts empty_indexes_def)
  moreover have "keys_ok (facts_by_type (build_indexes m))" "keys_ok (refs_by_source (build_indexes m))"
    by (subst c, simp add: fold_facts empty_indexes_def keys_ok_add_all)+
  moreover have "distinct (active_facts (build_indexes m)) \<and> distinct (conflicted_facts (build_indexes m))"
    by (subst (1 2) c) (simp add: fold_facts_distinct empty_indexes_def)
  ultimately show "keys_idx_ok (build_indexes m)" by (simp add: keys_idx_ok_def)
qed

lemma table_ok_ids:
  "table_ok idf t \<Longrightarrow> {idf x | x. x \<in> snd ` set t \<and> g x = k} = by_field g t k"
  by (auto simp: by_field_def in_values_iff) (metis table_ok_def in_values_iff)+

lemma by_field_state: "by_field f_state t st = in_state st t"
  by (simp add: by_field_def in_state_def)

lemma build_indexes_ok:
  assumes "manifest_wf m" shows "idx_ok m (build_indexes m)"
proof -
  have f: "table_ok f_id (m_facts m)" and r: "table_ok r_id (m_references m)" and s: "table_ok s_id (m_summaries m)"
    using assms by (simp_all add: manifest_wf_def)
  have "fact_idx_ok m (build_indexes m)"
    using f by (simp add: fact_idx_ok_def build_indexes_fields fun_eq_iff sx.members_built table_ok_ids by_field_state)
  moreover have "bucket (refs_by_source (build_indexes m)) = by_field r_source (m_references m)"
    using r by (simp add: build_indexes_fields fun_eq_iff sx.members_built table_ok_ids)
  moreover have "deps_ok m (build_indexes m)"
  proof -
    have i: "s_id x = sid" if "map_of (m_summaries m) sid = Some x" for sid x
      using s that by (simp add: table_ok_def)
    show ?thesis
      by (auto simp: deps_ok_def build_indexes_fields(7) in_values_iff [OF s] dest: i)
  qed
  ultimately show ?thesis by (simp add: idx_ok_def build_indexes_fields(8))
qed

subsection \<open>The validator accepts exactly the consistent indexes\<close>

definition idx_consistent :: "manifest \<Rightarrow> manifest_indexes \<Rightarrow> bool" where
  "idx_consistent m ix \<longleftrightarrow>
     (\<forall>t i. i \<in> bucket (facts_by_type ix) t \<longrightarrow> i \<in> dom (map_of (m_facts m))) \<and>
     (\<forall>i f. map_of (m_facts m) i = Some f \<longrightarrow> i \<in> bucket (facts_by_type ix) (f_type f)) \<and>
     set (active_facts ix) = in_state Active (m_facts m) \<and>
     set (conflicted_facts ix) = in_state Conflicted (m_facts m) \<and>
     (\<forall>s r. r \<in> bucket (refs_by_source ix) s \<longrightarrow> r \<in> dom (map_of (m_references m)))"

lemma bucket_all:
  assumes "keys_ok m"
  shows "(\<forall>k s x. (k, s) \<in> set m \<longrightarrow> x \<in> set s \<longrightarrow> P x) \<longleftrightarrow> (\<forall>k x. x \<in> bucket m k \<longrightarrow> P x)"
  using keys_ok_map_of_mem [OF assms] by (fastforce simp: bucket_def split: option.splits)

lemma ball_pair_eq:
  "(\<forall>p \<in> A. (case p of (a, b) \<Rightarrow> g a b) = c) \<longleftrightarrow> (\<forall>a b. (a, b) \<in> A \<longrightarrow> g a b = c)"
  by auto

lemma singleton_if_nil: "(if P then [x] else []) = [] \<longleftrightarrow> \<not> P"
  by simp

lemma type_bucket_errors_nil:
  assumes "keys_ok (facts_by_type ix)"
  shows "type_bucket_errors m ix = [] \<longleftrightarrow>
    (\<forall>t i. i \<in> bucket (facts_by_type ix) t \<longrightarrow> i \<in> dom (map_of (m_facts m)))"
  unfolding bucket_all [OF assms, of "\<lambda>i. i \<in> dom (map_of (m_facts m))", symmetric]
  by (simp only: type_bucket_errors_def concat_eq_Nil_conv set_map ball_simps ball_pair_eq singleton_if_nil domIff)
    blast

lemma ref_source_errors_nil:
  assumes "keys_ok (refs_by_source ix)"
  shows "ref_source_errors m ix = [] \<longleftrightarrow>
    (\<forall>s r. r \<in> bucket (refs_by_source ix) s \<longrightarrow> r \<in> dom (map_of (m_references m)))"
  unfolding bucket_all [OF assms, of "\<lambda>i. i \<in> dom (map_of (m_references m))", symmetric]
  by (simp only: ref_source_errors_def concat_eq_Nil_conv set_map ball_simps ball_pair_eq singleton_if_nil domIff)
    blast

lemma missing_type_errors_nil:
  "keys_ok (m_facts m) \<Longrightarrow> missing_type_errors m ix = [] \<longleftrightarrow>
   (\<forall>i f. map_of (m_facts m) i = Some f \<longrightarrow> i \<in> bucket (facts_by_type ix) (f_type f))"
  by (auto simp: missing_type_errors_def keys_ok_map_of_mem ball_pair_eq split: if_splits)

lemma state_set_errors_nil:
  "state_set_errors n st ids m = [] \<longleftrightarrow> set ids \<subseteq> in_state st (m_facts m)"
  by (auto simp: state_set_errors_def in_state_def split: option.splits if_splits)

lemma missing_state_errors_nil:
  "keys_ok (m_facts m) \<Longrightarrow> missing_state_errors m ix = [] \<longleftrightarrow>
   in_state Active (m_facts m) \<subseteq> set (active_facts ix) \<and> in_state Conflicted (m_facts m) \<subseteq> set (conflicted_facts ix)"
  by (fastforce simp: missing_state_errors_def in_state_def keys_ok_map_of_mem ball_pair_eq split: if_splits)

lemma validate_indexes_iff:
  assumes "keys_ok (m_facts m)" "keys_idx_ok ix"
  shows "iv_ok (validate_indexes m ix) \<longleftrightarrow> idx_consistent m ix"
  using assms
  by (auto simp: validate_indexes_def Let_def idx_consistent_def keys_idx_ok_def type_bucket_errors_nil
      missing_type_errors_nil state_set_errors_nil missing_state_errors_nil ref_source_errors_nil)

lemma idx_ok_consistent: "idx_ok m ix \<Longrightarrow> idx_consistent m ix"
  by (auto simp: idx_ok_def idx_consistent_def fact_idx_ok_def by_field_def)

end
