(* ===== verification/Persistence.thy ===== *)
theory Persistence
  imports Environment Indexing
begin

text \<open>
  The persistence layer (\<open>src/manifest/persistence.ts\<close>): loading and validating a manifest,
  creating a fresh one, committing under optimistic locking, the atomic write, storing
  artifacts. A call that throws is a value (\<open>L_throw\<close>, \<open>Some e\<close>); \<open>commit\<close> is split at its
  \<open>await\<close> points into \<open>commit_check\<close> and \<open>commit_finish\<close>, so that two writers can be
  interleaved. \<open>disk_step\<close> is the step relation of two writers of one manifest file.
\<close>

record persistence =
  p_manifest_path :: jstring
  p_artifacts_dir :: jstring
  p_actor :: jstring

datatype load_failure_reason =
  Not_found | Parse_error | Schema_mismatch | Integrity_failure | Lineage_error | Orphan_ref | Load_io_error

datatype load_result =
    L_ok manifest manifest_indexes
  | L_fail load_failure_reason jstring
  | L_throw jstring

datatype commit_failure_reason = Commit_revision_conflict | Commit_validation_error | Commit_io_error

datatype commit_result =
    C_ok int jstring
  | C_fail commit_failure_reason jstring

section \<open>Utilities\<close>

definition timing_safe_equal_strings :: "jstring \<Rightarrow> jstring \<Rightarrow> bool option" where
  "timing_safe_equal_strings a b =
     (if length a \<noteq> length b then Some False
      else if utf8_length a \<noteq> utf8_length b then None
      else Some (well_formed a = well_formed b))"

definition make_operation ::
  "operation_type \<Rightarrow> jstring \<Rightarrow> int \<Rightarrow> int \<Rightarrow> jsobj \<Rightarrow> world \<Rightarrow> operation \<times> world" where
  "make_operation t actor before after metadata w =
     (let (ms, w) = read_ms w;
          w = w\<lparr>w_op_counter := Suc (w_op_counter w)\<rparr>;
          i = op_id_of ms (w_op_counter w);
          (ts, w) = read_iso w
      in (\<lparr>op_id = i, op_type = t, op_actor = actor, op_timestamp = ts, op_revision_before = before,
           op_revision_after = after, op_metadata = metadata\<rparr>, w))"

text \<open>The hash covers every member of the document but \<open>integrity_hash\<close> and \<open>operations\<close>.\<close>

definition hash_document :: "(jstring \<Rightarrow> jstring) \<Rightarrow> jsobj \<Rightarrow> jstring" where
  "hash_document sha doc =
     sha (canonical_json (Obj (filter (\<lambda>(k, v). k \<noteq> js ''integrity_hash'' \<and> k \<noteq> js ''operations'') doc)))"

definition compute_integrity_hash :: "(jstring \<Rightarrow> jstring) \<Rightarrow> manifest \<Rightarrow> jstring" where
  "compute_integrity_hash sha m = hash_document sha (manifest_json m)"

section \<open>Lineage validation\<close>

definition fact_lineage_errors :: "fact_id list \<Rightarrow> fact \<Rightarrow> jstring list" where
  "fact_lineage_errors fact_ids f =
     [js ''Fact '' @ f_id f @ js '': derived_from refs unknown '' @ q. q \<leftarrow> f_derived_from f, q \<notin> set fact_ids] @
     (case f_supersedes f of
        Some q \<Rightarrow> if q \<notin> set fact_ids then [js ''Fact '' @ f_id f @ js '': supersedes refs unknown '' @ q] else []
      | None \<Rightarrow> []) @
     [js ''Fact '' @ f_id f @ js '': merged_from refs unknown '' @ q.
        q \<leftarrow> (case f_merged_from f of None \<Rightarrow> [] | Some qs \<Rightarrow> qs), q \<notin> set fact_ids]"

definition summary_lineage_errors :: "fact_id list \<Rightarrow> ref_id list \<Rightarrow> summary \<Rightarrow> jstring list" where
  "summary_lineage_errors fact_ids ref_ids s =
     [js ''Summary '' @ s_id s @ js '': source_fact_ids refs unknown '' @ q. q \<leftarrow> s_source_fact_ids s, q \<notin> set fact_ids] @
     [js ''Summary '' @ s_id s @ js '': source_ref_ids refs unknown '' @ q. q \<leftarrow> s_source_ref_ids s, q \<notin> set ref_ids]"

definition validate_lineage :: "manifest \<Rightarrow> jstring list" where
  "validate_lineage m =
     concat (map (fact_lineage_errors (obj_keys (m_facts m))) (obj_values (m_facts m))) @
     concat (map (summary_lineage_errors (obj_keys (m_facts m)) (obj_keys (m_references m))) (obj_values (m_summaries m)))"

section \<open>References on disk\<close>

definition stat_file :: "jstring \<Rightarrow> world \<Rightarrow> bool \<times> world" where
  "stat_file p w = (case try_io id w of (Some e, w') \<Rightarrow> (False, w') | (None, w') \<Rightarrow> (w_files w' p \<noteq> None, w'))"

fun validate_refs_from :: "reference list \<Rightarrow> world \<Rightarrow> jstring list \<times> world" where
  "validate_refs_from [] w = ([], w)"
| "validate_refs_from (r # rs) w =
     (let (found, w) = stat_file (r_path r) w; (errors, w) = validate_refs_from rs w
      in ((if found then [] else [js ''Orphan ref '' @ r_id r @ js '': artifact not found at '' @ r_path r]) @ errors, w))"

definition validate_refs :: "manifest \<Rightarrow> world \<Rightarrow> jstring list \<times> world" where
  "validate_refs m w = validate_refs_from (obj_values (m_references m)) w"

section \<open>load\<close>

definition schema_of :: "jsval \<Rightarrow> jsval" where
  "schema_of v = (case v of Obj kvs \<Rightarrow> jget kvs (js ''schema_version'') | _ \<Rightarrow> Undef)"

text \<open>After the schema gate: integrity, lineage, references, indexes. A stored hash that is neither missing
  nor a string has another length than the computed one (an array of as many bytes as that has
  characters, which the source would compare as bytes, is refused like any other value).\<close>

definition load_document :: "jsobj \<Rightarrow> world \<Rightarrow> load_result \<times> world" where
  "load_document doc w =
     (case jget doc (js ''integrity_hash'') of
        Str stored \<Rightarrow>
          (let expected = hash_document (w_sha w) doc in
           case timing_safe_equal_strings expected stored of
             None \<Rightarrow> (L_throw (js ''Input buffers must have the same byte length''), w)
           | Some False \<Rightarrow> (L_fail Integrity_failure
               (js ''Integrity hash mismatch. Expected '' @ expected @ js '', stored '' @ stored), w)
           | Some True \<Rightarrow>
               (case manifest_of_json doc of
                  None \<Rightarrow> (L_throw (js ''TypeError''), w)
                | Some m \<Rightarrow>
                    if validate_lineage m \<noteq> [] then (L_fail Lineage_error (join (js ''; '') (validate_lineage m)), w)
                    else
                      (let (errors, w) = validate_refs m w in
                       if errors \<noteq> [] then (L_fail Orphan_ref (join (js ''; '') errors), w)
                       else
                         (let ix = build_indexes m; check = validate_indexes m ix in
                          if \<not> iv_ok check
                          then (L_fail Lineage_error
                             (js ''Index validation failed (bug in buildIndexes): '' @ join (js ''; '') (iv_errors check)), w)
                          else (L_ok m ix, w)))))
      | other \<Rightarrow>
          if nullish other then (L_throw (js ''TypeError''), w)
          else (L_fail Integrity_failure (js ''Integrity hash mismatch. Expected '' @ hash_document (w_sha w) doc @
                  js '', stored '' @ to_string other), w))"

definition load :: "persistence \<Rightarrow> world \<Rightarrow> load_result \<times> world" where
  "load p w =
     (case read_file (p_manifest_path p) w of
        (Inl Enoent, w) \<Rightarrow> (L_fail Not_found (p_manifest_path p), w)
      | (Inl (Io_error e), w) \<Rightarrow> (L_fail Load_io_error (js ''readFile failed: '' @ e), w)
      | (Inr (Plain_text s), w) \<Rightarrow> (L_fail Parse_error (js ''Invalid JSON: SyntaxError''), w)
      | (Inr (Json_text v), w) \<Rightarrow>
          (case v of
             Obj doc \<Rightarrow>
               if schema_of v = Str (js ''1.0'') then load_document doc w
               else (L_fail Schema_mismatch (js ''Expected schema_version '' @ [34] @ js ''1.0'' @ [34] @ js '', got: '' @ to_string (schema_of v)), w)
           | _ \<Rightarrow> (L_fail Schema_mismatch (js ''Expected schema_version '' @ [34] @ js ''1.0'' @ [34] @ js '', got: '' @ to_string (schema_of v)), w)))"

section \<open>The atomic write\<close>

definition tmp_path :: "jstring \<Rightarrow> jstring" where
  "tmp_path p = p @ js ''.tmp''"

text \<open>\<open>mkdir\<close>, \<open>open\<close> (which truncates), \<open>writeFile\<close>, \<open>sync\<close>, \<open>close\<close> in the \<open>finally\<close>
  block (its own error replaces the pending one), \<open>rename\<close>.\<close>

definition commit_raw :: "persistence \<Rightarrow> manifest \<Rightarrow> world \<Rightarrow> jstring option \<times> world" where
  "commit_raw p m w =
     (let path = p_manifest_path p; tmp = tmp_path path; doc = Json_text (json_norm (Obj (manifest_json m))) in
      case try_io id w of
        (Some e, w) \<Rightarrow> (Some e, w)
      | (None, w) \<Rightarrow>
          (case try_io (put_file tmp (Plain_text [])) w of
             (Some e, w) \<Rightarrow> (Some e, w)
           | (None, w) \<Rightarrow>
               (let (body_err, w) =
                      (case try_io (put_file tmp doc) w of
                         (Some e, w) \<Rightarrow> (Some e, w)
                       | (None, w) \<Rightarrow> try_io id w);
                    (close_err, w) = try_io id w
                in case close_err of
                     Some e \<Rightarrow> (Some e, w)
                   | None \<Rightarrow>
                       (case body_err of
                          Some e \<Rightarrow> (Some e, w)
                        | None \<Rightarrow> try_io (rename_file tmp path) w))))"

section \<open>loadOrCreate\<close>

definition fresh_manifest :: "jstring \<Rightarrow> operation \<Rightarrow> manifest" where
  "fresh_manifest now opn = \<lparr>m_schema_version = js ''1.0'', m_revision = 0, m_integrity_hash = [],
     m_created_at = now, m_updated_at = now, m_facts = [], m_references = [], m_summaries = [],
     m_operations = [opn], m_last_fact_index = 0\<rparr>"

definition load_or_create :: "persistence \<Rightarrow> jstring \<Rightarrow> world \<Rightarrow> load_result \<times> world" where
  "load_or_create p session_id w =
     (case load p w of
        (L_fail Not_found detail, w) \<Rightarrow>
          (let (now, w) = read_iso w;
               (opn, w) = make_operation Manifest_loaded (p_actor p) 0 0
                 [(js ''session_id'', Str session_id), (js ''event'', Str (js ''created''))] w;
               fresh = fresh_manifest now opn;
               m = fresh\<lparr>m_integrity_hash := compute_integrity_hash (w_sha w) fresh\<rparr>
           in case commit_raw p m w of
                (Some e, w) \<Rightarrow> (L_throw e, w)
              | (None, w) \<Rightarrow> (L_ok m (build_indexes m), w))
      | (r, w) \<Rightarrow> (r, w))"

section \<open>commit\<close>

definition read_revision :: "persistence \<Rightarrow> world \<Rightarrow> (jstring + int) \<times> world" where
  "read_revision p w =
     (case read_file (p_manifest_path p) w of
        (Inl Enoent, w) \<Rightarrow> (Inr (- 1), w)
      | (Inl (Io_error e), w) \<Rightarrow> (Inl e, w)
      | (Inr (Plain_text s), w) \<Rightarrow> (Inl (js ''SyntaxError''), w)
      | (Inr (Json_text v), w) \<Rightarrow>
          (case v of
             Obj doc \<Rightarrow> (case int_of (jget doc (js ''revision'')) of
                 Some n \<Rightarrow> (Inr n, w)
               | None \<Rightarrow> (Inl (js ''Manifest on disk has no numeric revision field''), w))
           | Null \<Rightarrow> (Inl (js ''TypeError''), w)
           | _ \<Rightarrow> (Inl (js ''Manifest on disk has no numeric revision field''), w)))"

definition commit_check :: "persistence \<Rightarrow> int \<Rightarrow> world \<Rightarrow> (commit_result + int) \<times> world" where
  "commit_check p expected w =
     (case read_revision p w of
        (Inl e, w) \<Rightarrow> (Inl (C_fail Commit_io_error (js ''Could not read current revision: '' @ e)), w)
      | (Inr disk, w) \<Rightarrow>
          if disk \<noteq> expected
          then (Inl (C_fail Commit_revision_conflict
             (js ''Expected revision '' @ show_int expected @ js '', disk has '' @ show_int disk @ js ''. Reload and replan.'')), w)
          else (Inr disk, w))"

definition next_manifest :: "manifest \<Rightarrow> int \<Rightarrow> jstring \<Rightarrow> operation \<Rightarrow> manifest" where
  "next_manifest m next_rev now commit_op =
     m\<lparr>m_revision := next_rev, m_updated_at := now, m_operations := m_operations m @ [commit_op],
       m_integrity_hash := []\<rparr>"

definition prepare_commit :: "persistence \<Rightarrow> manifest \<Rightarrow> int \<Rightarrow> world \<Rightarrow> manifest \<times> world" where
  "prepare_commit p m disk w =
     (let (now, w) = read_iso w;
          (opn, w) = make_operation Manifest_committed (p_actor p) disk (disk + 1) [(js ''ts'', Str now)] w;
          nxt = next_manifest m (disk + 1) now opn
      in (nxt\<lparr>m_integrity_hash := compute_integrity_hash (w_sha w) nxt\<rparr>, w))"

definition commit_finish :: "persistence \<Rightarrow> manifest \<Rightarrow> int \<Rightarrow> world \<Rightarrow> commit_result \<times> world" where
  "commit_finish p m disk w =
     (let (final, w) = prepare_commit p m disk w in
      case commit_raw p final w of
        (Some e, w) \<Rightarrow> (C_fail Commit_io_error (js ''Atomic write failed: '' @ e), w)
      | (None, w) \<Rightarrow> (C_ok (disk + 1) (m_integrity_hash final), w))"

definition commit :: "persistence \<Rightarrow> manifest \<Rightarrow> int \<Rightarrow> world \<Rightarrow> commit_result \<times> world" where
  "commit p m expected w =
     (case commit_check p expected w of
        (Inl r, w) \<Rightarrow> (r, w)
      | (Inr disk, w) \<Rightarrow> commit_finish p m disk w)"

section \<open>validate and storeArtifact\<close>

definition validate :: "manifest \<Rightarrow> world \<Rightarrow> jstring list option \<times> world" where
  "validate m w =
     (let schema_errors = (if m_schema_version m \<noteq> js ''1.0'' then [js ''Unknown schema_version: '' @ m_schema_version m] else []) in
      case timing_safe_equal_strings (compute_integrity_hash (w_sha w) m) (m_integrity_hash m) of
        None \<Rightarrow> (None, w)
      | Some same \<Rightarrow>
          (let (ref_errors, w) = validate_refs m w
           in (Some (schema_errors @ (if same then [] else [js ''Integrity hash mismatch'']) @ validate_lineage m @ ref_errors), w)))"

record stored_artifact =
  a_path :: jstring
  a_content_hash :: jstring
  a_line_count :: int
  a_byte_size :: int

definition content_text :: "artifact_content \<Rightarrow> jstring" where
  "content_text c = (case c of Text_content s \<Rightarrow> well_formed s | Buffer_content s n \<Rightarrow> s)"

definition content_bytes :: "artifact_content \<Rightarrow> nat" where
  "content_bytes c = (case c of Text_content s \<Rightarrow> utf8_length s | Buffer_content s n \<Rightarrow> n)"

definition line_count_of :: "jstring \<Rightarrow> int" where
  "line_count_of s = (let parts = split_nl s in
     if last parts = [] then int (length parts) - 1 else int (length parts))"

definition store_artifact :: "persistence \<Rightarrow> ref_id \<Rightarrow> artifact_content \<Rightarrow> world \<Rightarrow> (jstring + stored_artifact) \<times> world" where
  "store_artifact p ref c w =
     (case try_io id w of
        (Some e, w) \<Rightarrow> (Inl e, w)
      | (None, w) \<Rightarrow>
          (let text = content_text c; h = w_sha w text;
               path = path_join (p_artifacts_dir p) (ref @ js ''.artifact'')
           in case try_io (put_file path (Plain_text text)) w of
                (Some e, w) \<Rightarrow> (Inl e, w)
              | (None, w) \<Rightarrow>
                  (Inr \<lparr>a_path = path, a_content_hash = h, a_line_count = line_count_of text,
                        a_byte_size = int (content_bytes c)\<rparr>, w)))"

section \<open>The atomic write\<close>

lemma tmp_path_neq [simp]: "tmp_path p \<noteq> p" "p \<noteq> tmp_path p"
  by (simp_all add: tmp_path_def js_def)

definition manifest_doc :: "manifest \<Rightarrow> fs_file" where
  "manifest_doc m = Json_text (json_norm (Obj (manifest_json m)))"

lemma try_io_effect:
  assumes "try_io effect w = (r, w')"
  shows "r = None \<and> w' = effect (w\<lparr>w_io := Suc (w_io w)\<rparr>) \<or> r \<noteq> None \<and> w' = w\<lparr>w_io := Suc (w_io w)\<rparr>"
  using assms by (auto simp: try_io_def split: option.splits)

text \<open>Whatever calls fail, the manifest file holds the old text or, on success, the new one;
  only the temporary file may change besides.\<close>

lemma commit_raw_files:
  assumes "commit_raw p m w = (r, w')"
  shows "q \<noteq> tmp_path (p_manifest_path p) \<Longrightarrow>
    w_files w' q = (if r = None \<and> q = p_manifest_path p then Some (manifest_doc m) else w_files w q)"
  using assms
  by (auto simp: commit_raw_def Let_def manifest_doc_def split: prod.splits option.splits
      dest!: try_io_effect)

lemma commit_raw_frame:
  assumes "commit_raw p m w = (r, w')"
  shows "w_sha w' = w_sha w" "w_clock w' = w_clock w" "w_tick w' = w_tick w" "w_uuid w' = w_uuid w"
    "w_draw w' = w_draw w" "w_op_seq w' = w_op_seq w" "w_op_counter w' = w_op_counter w"
    "w_registry w' = w_registry w" "w_io_error w' = w_io_error w" "w_io w \<le> w_io w'"
  using assms
  by (auto simp: commit_raw_def Let_def split: prod.splits option.splits dest!: try_io_effect)

lemma commit_raw_free: "io_free w \<Longrightarrow> \<exists>w'. commit_raw p m w = (None, w') \<and> io_free w'"
  by (simp add: commit_raw_def Let_def try_io_free put_file_def rename_file_def)


section \<open>commit under optimistic locking\<close>

definition disk_revision :: "persistence \<Rightarrow> world \<Rightarrow> int option" where
  "disk_revision p w =
     (case w_files w (p_manifest_path p) of
        None \<Rightarrow> Some (- 1)
      | Some (Json_text (Obj doc)) \<Rightarrow> int_of (jget doc (js ''revision''))
      | _ \<Rightarrow> None)"

lemma try_io_files: "try_io id w = (r, w') \<Longrightarrow> w_files w' = w_files w"
  by (auto dest: try_io_effect)

lemma read_file_frame:
  assumes "read_file q w = (r, w')"
  shows "w' = w\<lparr>w_io := Suc (w_io w)\<rparr>"
  using assms by (auto simp: read_file_def split: prod.splits option.splits dest!: try_io_effect)

lemma read_revision_frame: "read_revision p w = (r, w') \<Longrightarrow> w' = w\<lparr>w_io := Suc (w_io w)\<rparr>"
  by (auto simp: read_revision_def split: prod.splits sum.splits read_error.splits fs_file.splits
      jsval.splits option.splits dest!: read_file_frame)

lemma read_revision_disk: "read_revision p w = (Inr n, w') \<Longrightarrow> disk_revision p w = Some n"
  by (auto simp: read_revision_def read_file_def try_io_def disk_revision_def
      split: prod.splits sum.splits read_error.splits fs_file.splits jsval.splits option.splits)

lemma read_revision_free:
  "io_free w \<Longrightarrow> disk_revision p w = Some n \<Longrightarrow> read_revision p w = (Inr n, w\<lparr>w_io := Suc (w_io w)\<rparr>)"
  by (auto simp: read_revision_def read_file_def try_io_free disk_revision_def int_of_def
      split: option.splits fs_file.splits jsval.splits if_splits)

lemma commit_check_free:
  "io_free w \<Longrightarrow> disk_revision p w = Some n \<Longrightarrow> commit_check p n w = (Inr n, w\<lparr>w_io := Suc (w_io w)\<rparr>)"
  by (simp add: commit_check_def read_revision_free)

lemma commit_conflict_free:
  "io_free w \<Longrightarrow> disk_revision p w = Some d \<Longrightarrow> d \<noteq> n \<Longrightarrow>
   \<exists>e. commit p m n w = (C_fail Commit_revision_conflict e, w\<lparr>w_io := Suc (w_io w)\<rparr>)"
  by (simp add: commit_def commit_check_def read_revision_free)

lemma commit_check_frame:
  "commit_check p n w = (r, w') \<Longrightarrow> w' = w\<lparr>w_io := Suc (w_io w)\<rparr>"
  by (auto simp: commit_check_def split: prod.splits sum.splits if_splits dest: read_revision_frame)

lemma commit_check_ok:
  "commit_check p n w = (Inr d, w') \<Longrightarrow> d = n \<and> disk_revision p w = Some n"
  by (auto simp: commit_check_def split: prod.splits sum.splits if_splits dest!: read_revision_disk)

lemma prepare_commit_fields:
  assumes "prepare_commit p m d w = (final, w')"
  shows "m_revision final = d + 1" "m_facts final = m_facts m" "m_references final = m_references m"
    "m_summaries final = m_summaries m" "m_last_fact_index final = m_last_fact_index m"
    "m_schema_version final = m_schema_version m" "m_created_at final = m_created_at m"
    "\<exists>op. m_operations final = m_operations m @ [op] \<and> op_type op = Manifest_committed \<and>
       op_revision_before op = d \<and> op_revision_after op = d + 1 \<and> obj_clean (op_metadata op)"
    "m_integrity_hash final = compute_integrity_hash (w_sha w) final"
    "w_files w' = w_files w" "w_sha w' = w_sha w" "io_free w' = io_free w"
  using assms
  by (auto simp: prepare_commit_def make_operation_def read_iso_def read_ms_def next_manifest_def Let_def
      compute_integrity_hash_def hash_document_def manifest_json_def state_json_def obj_clean_def)

lemma disk_revision_doc:
  "w_files w (p_manifest_path p) = Some (manifest_doc m) \<Longrightarrow> disk_revision p w = Some (m_revision m)"
  by (simp add: disk_revision_def manifest_doc_def manifest_json_def state_json_def)

lemma commit_finish_ok:
  assumes "commit_finish p m d w = (C_ok r h, w')"
  obtains final w1 where "prepare_commit p m d w = (final, w1)" "r = d + 1" "h = m_integrity_hash final"
    "w_files w' (p_manifest_path p) = Some (manifest_doc final)" "disk_revision p w' = Some r"
proof -
  obtain final w1 where pr: "prepare_commit p m d w = (final, w1)" by fastforce
  with assms have r: "r = d + 1" "h = m_integrity_hash final" "commit_raw p final w1 = (None, w')"
    by (auto simp: commit_finish_def split: prod.splits option.splits)
  then have "w_files w' (p_manifest_path p) = Some (manifest_doc final)"
    by (simp add: commit_raw_files)
  with pr r that disk_revision_doc [OF this] prepare_commit_fields(1) [OF pr] show ?thesis by simp
qed

lemma commit_finish_fail:
  assumes "commit_finish p m d w = (C_fail f e, w')" and "q \<noteq> tmp_path (p_manifest_path p)"
  shows "w_files w' q = w_files w q"
proof -
  obtain final w1 where pr: "prepare_commit p m d w = (final, w1)" by fastforce
  with assms(1) obtain e' where "commit_raw p final w1 = (Some e', w')"
    by (auto simp: commit_finish_def split: prod.splits option.splits)
  with assms(2) pr show ?thesis by (simp add: commit_raw_files prepare_commit_fields(10))
qed

lemma disk_revision_cong:
  "w_files w' (p_manifest_path p) = w_files w (p_manifest_path p) \<Longrightarrow> disk_revision p w' = disk_revision p w"
  by (simp add: disk_revision_def)

text \<open>The contract of a store with optimistic locking, and what it gives to serial writers.\<close>

locale revision_store =
  fixes rev :: "'s \<Rightarrow> int option"
    and content :: "'s \<Rightarrow> 'c"
    and save :: "'d \<Rightarrow> int \<Rightarrow> 's \<Rightarrow> int option \<times> 's"
  assumes rev_content: "content s' = content s \<Longrightarrow> rev s' = rev s"
    and save_ok: "save d n s = (Some r, s') \<Longrightarrow> rev s = Some n \<and> r = n + 1 \<and> rev s' = Some r"
    and save_fail: "save d n s = (None, s') \<Longrightarrow> content s' = content s"
begin

fun run :: "('d \<times> int) list \<Rightarrow> 's \<Rightarrow> int list \<times> 's" where
  "run [] s = ([], s)"
| "run ((d, n) # ds) s =
     (case save d n s of
        (None, s') \<Rightarrow> run ds s'
      | (Some r, s') \<Rightarrow> (case run ds s' of (rs, s'') \<Rightarrow> (r # rs, s'')))"

lemma run_rev:
  "run ds s = (rs, s') \<Longrightarrow> rev s = Some n \<Longrightarrow> rev s' = Some (n + int (length rs)) \<and>
   rs = map (\<lambda>i. n + 1 + int i) [0..<length rs]"
proof (induction ds arbitrary: s rs n)
  case (Cons dn ds)
  obtain d k where dn: "dn = (d, k)" by force
  obtain r s1 where sv: "save d k s = (r, s1)" by force
  show ?case
  proof (cases r)
    case None
    with sv have "rev s1 = rev s" using save_fail rev_content by metis
    with None Cons sv dn show ?thesis by simp
  next
    case (Some v)
    with sv save_ok Cons.prems(2) have v: "v = n + 1" "rev s1 = Some (n + 1)" by force+
    obtain rs1 where rs1: "run ds s1 = (rs1, s')" "rs = v # rs1"
      using Cons.prems(1) dn sv Some by (auto split: prod.splits)
    from Cons.IH [OF rs1(1) v(2)]
    have i: "rev s' = Some (n + 1 + int (length rs1))" "rs1 = map (\<lambda>i. n + 1 + 1 + int i) [0..<length rs1]" by auto
    have "map (\<lambda>i. n + 1 + int i) [0..<length rs] = (n + 1) # map (\<lambda>i. n + 1 + 1 + int i) [0..<length rs1]"
      unfolding rs1(2) length_Cons upt_conv_Cons [OF zero_less_Suc]
      by (simp add: map_Suc_upt [symmetric] del: upt_Suc)
    with i rs1(2) v(1) show ?thesis by simp
  qed
qed simp

text \<open>A writer that read revision \<open>n\<close> cannot commit once another commit has succeeded.\<close>

lemma stale_save_fails:
  assumes "run ds s = (rs, s')" "rev s = Some n" "rs \<noteq> []"
  shows "fst (save d n s') = None"
proof -
  from assms have "rev s' = Some (n + int (length rs))" by (simp add: run_rev)
  with assms(3) save_ok [of d n s'] show ?thesis by (cases "save d n s'") (auto split: option.splits intro: ccontr)
qed

end

definition save_manifest :: "persistence \<Rightarrow> manifest \<Rightarrow> int \<Rightarrow> world \<Rightarrow> int option \<times> world" where
  "save_manifest p m n w =
     (case commit p m n w of (C_ok r h, w') \<Rightarrow> (Some r, w') | (C_fail f e, w') \<Rightarrow> (None, w'))"

lemma commit_ok:
  assumes "commit p m n w = (C_ok r h, w')"
  shows "disk_revision p w = Some n" "\<exists>w1. commit_finish p m n w1 = (C_ok r h, w') \<and> w1 = w\<lparr>w_io := Suc (w_io w)\<rparr>"
  using assms
  by (auto simp: commit_def split: prod.splits sum.splits dest: commit_check_ok commit_check_frame)
    (auto simp: commit_check_def split: prod.splits sum.splits if_splits)

lemma commit_fail_files:
  assumes "commit p m n w = (C_fail f e, w')" "q \<noteq> tmp_path (p_manifest_path p)"
  shows "w_files w' q = w_files w q"
  using assms
  by (auto simp: commit_def split: prod.splits sum.splits dest!: commit_check_frame commit_finish_fail)

interpretation rs: revision_store "disk_revision p" "\<lambda>w. w_files w (p_manifest_path p)" "save_manifest p" for p
proof
  show "disk_revision p s = Some n \<and> r = n + 1 \<and> disk_revision p s' = Some r"
    if "save_manifest p d n s = (Some r, s')" for d n s r s'
  proof -
    from that obtain h where c: "commit p d n s = (C_ok r h, s')"
      by (auto simp: save_manifest_def split: prod.splits commit_result.splits)
    from commit_ok(2) [OF c] obtain w1 where "commit_finish p d n w1 = (C_ok r h, s')" by blast
    then have "r = n + 1" "disk_revision p s' = Some r" by (auto elim: commit_finish_ok)
    with commit_ok(1) [OF c] show ?thesis by simp
  qed
  show "w_files s' (p_manifest_path p) = w_files s (p_manifest_path p)"
    if "save_manifest p d n s = (None, s')" for d n s s'
    using that by (auto simp: save_manifest_def commit_fail_files split: prod.splits commit_result.splits)
qed (rule disk_revision_cong)


section \<open>What a commit writes, a load reads\<close>

lemma fact_json_norm: "obj_clean (f_value f) \<Longrightarrow> json_norm (fact_json f) = fact_json f"
  by (cases "f_supersedes f"; cases "f_merged_from f")
    (simp_all add: fact_json_def opt_field_def observations_json_def)

lemma other_json_norm:
  "json_norm (reference_json r) = reference_json r" "json_norm (summary_json s) = summary_json s"
  "obj_clean (op_metadata q) \<Longrightarrow> json_norm (operation_json q) = operation_json q"
  by (simp_all add: reference_json_def summary_json_def operation_json_def)

lemma record_json_cong:
  "(\<And>k x. (k, x) \<in> set ys \<Longrightarrow> g x = h x) \<Longrightarrow> record_json g ys = record_json h ys"
  by (auto simp: record_json_def)

lemma manifest_fields_clean:
  assumes "manifest_clean m"
  shows "json_fields (manifest_json m) = manifest_json m"
proof -
  have "record_json (\<lambda>x. json_norm (fact_json x)) (m_facts m) = record_json fact_json (m_facts m)"
    using assms by (intro record_json_cong fact_json_norm) (auto simp: manifest_clean_def list_all_iff)
  moreover have "map (json_norm \<circ> operation_json) (m_operations m) = map operation_json (m_operations m)"
    using assms by (auto simp: manifest_clean_def list_all_iff other_json_norm)
  ultimately show ?thesis
    by (simp add: manifest_json_def state_json_def other_json_norm)
qed

lemma manifest_doc_clean: "manifest_clean m \<Longrightarrow> manifest_doc m = Json_text (Obj (manifest_json m))"
  by (simp add: manifest_doc_def manifest_fields_clean)

lemma timing_safe_refl [simp]: "timing_safe_equal_strings s s = Some True"
  by (simp add: timing_safe_equal_strings_def)

lemma jget_manifest [simp]:
  "jget (manifest_json m) (js ''integrity_hash'') = Str (m_integrity_hash m)"
  "jget (manifest_json m) (js ''schema_version'') = Str (m_schema_version m)"
  "jget (manifest_json m) (js ''revision'') = int_json (m_revision m)"
  by (simp_all add: manifest_json_def state_json_def)

lemma validate_refs_ok:
  assumes "io_free w" "\<forall>r \<in> set rs. w_files w (r_path r) \<noteq> None"
  shows "\<exists>w'. validate_refs_from rs w = ([], w') \<and> io_free w' \<and> w_files w' = w_files w"
  using assms
proof (induction rs arbitrary: w)
  case (Cons r rs)
  have st: "stat_file (r_path r) w = (True, w\<lparr>w_io := Suc (w_io w)\<rparr>)"
    using Cons.prems by (auto simp: stat_file_def try_io_free)
  from Cons.IH [of "w\<lparr>w_io := Suc (w_io w)\<rparr>"] Cons.prems
  obtain w' where "validate_refs_from rs (w\<lparr>w_io := Suc (w_io w)\<rparr>) = ([], w')" "io_free w'" "w_files w' = w_files w"
    by auto
  with st show ?case by simp
qed simp

text \<open>A manifest that the load gates accept.\<close>

definition loadable :: "manifest \<Rightarrow> world \<Rightarrow> bool" where
  "loadable m w \<longleftrightarrow> manifest_clean m \<and> manifest_wf m \<and> m_schema_version m = js ''1.0'' \<and>
     validate_lineage m = [] \<and> (\<forall>r \<in> set (obj_values (m_references m)). w_files w (r_path r) \<noteq> None)"

lemma validate_lineage_cong:
  "m_facts m = m_facts n \<Longrightarrow> m_references m = m_references n \<Longrightarrow> m_summaries m = m_summaries n \<Longrightarrow>
   validate_lineage m = validate_lineage n"
  by (simp add: validate_lineage_def)

lemma load_stored:
  assumes "io_free w" "loadable m w" "m_integrity_hash m = compute_integrity_hash (w_sha w) m"
    and "w_files w (p_manifest_path p) = Some (manifest_doc m)"
  shows "\<exists>w'. load p w = (L_ok m (build_indexes m), w')"
proof -
  let ?w = "w\<lparr>w_io := Suc (w_io w)\<rparr>"
  have cl: "manifest_clean m" using assms(2) by (simp add: loadable_def)
  have rd: "read_file (p_manifest_path p) w = (Inr (Json_text (Obj (manifest_json m))), ?w)"
    using assms by (simp add: read_file_def try_io_free manifest_doc_clean cl)
  have mj: "manifest_of_json (manifest_json m) = Some m"
    using manifest_roundtrip [OF cl] by (simp add: manifest_fields_clean cl)
  obtain w' where vr: "validate_refs m ?w = ([], w')"
    using validate_refs_ok [of ?w "obj_values (m_references m)"] assms
    by (auto simp: loadable_def validate_refs_def)
  have "iv_ok (validate_indexes m (build_indexes m))"
    using assms(2) build_indexes_ok [of m]
    by (auto simp: loadable_def manifest_wf_def table_ok_def validate_indexes_iff idx_ok_consistent idx_ok_def)
  with assms rd vr mj show ?thesis
    by (simp add: load_def schema_of_def load_document_def compute_integrity_hash_def loadable_def)
qed

lemma commit_free:
  assumes "io_free w" "disk_revision p w = Some n"
  obtains final w1 w' where
    "prepare_commit p m n (w\<lparr>w_io := Suc (w_io w)\<rparr>) = (final, w1)"
    "commit p m n w = (C_ok (n + 1) (m_integrity_hash final), w')" "io_free w'" "w_sha w' = w_sha w"
    "w_files w' (p_manifest_path p) = Some (manifest_doc final)"
    "\<And>q. q \<noteq> tmp_path (p_manifest_path p) \<Longrightarrow> q \<noteq> p_manifest_path p \<Longrightarrow> w_files w' q = w_files w q"
proof -
  let ?w = "w\<lparr>w_io := Suc (w_io w)\<rparr>"
  have rr: "read_revision p w = (Inr n, ?w)"
    using assms
    by (auto simp: read_revision_def read_file_def try_io_free disk_revision_def int_of_def
        split: option.splits fs_file.splits jsval.splits if_splits)
  then have ck: "commit_check p n w = (Inr n, ?w)" by (simp add: commit_check_def)
  obtain final w1 where pr: "prepare_commit p m n ?w = (final, w1)" by fastforce
  from prepare_commit_fields [OF pr] assms have "io_free w1" by simp
  then obtain w' where raw: "commit_raw p final w1 = (None, w')" "io_free w'"
    using commit_raw_free by blast
  have "commit p m n w = (C_ok (n + 1) (m_integrity_hash final), w')"
    using ck pr raw by (simp add: commit_def commit_finish_def)
  moreover have "w_sha w' = w_sha w"
    using prepare_commit_fields [OF pr] commit_raw_frame [OF raw(1)] by simp
  ultimately show ?thesis
    using that [OF pr] raw commit_raw_files [OF raw(1)] prepare_commit_fields(10) [OF pr] by auto
qed

section \<open>Two writers of one file\<close>

text \<open>Writers are numbered; each is idle, or has passed the revision check of a commit and has
  not written yet. The log holds the commits that succeeded, newest first.\<close>

datatype phase = Idle | Checked manifest int

record disk_state =
  d_world :: world
  d_phase :: "nat \<Rightarrow> phase"
  d_log :: "(nat \<times> int \<times> manifest) list"

inductive disk_step :: "persistence \<Rightarrow> disk_state \<Rightarrow> disk_state \<Rightarrow> bool" for p where
  ds_check: "d_phase s i = Idle \<Longrightarrow> commit_check p n (d_world s) = (Inr d, w') \<Longrightarrow>
     disk_step p s (s\<lparr>d_world := w', d_phase := (d_phase s)(i := Checked m d)\<rparr>)"
| ds_refuse: "d_phase s i = Idle \<Longrightarrow> commit_check p n (d_world s) = (Inl r, w') \<Longrightarrow>
     disk_step p s (s\<lparr>d_world := w'\<rparr>)"
| ds_write: "d_phase s i = Checked m d \<Longrightarrow> commit_finish p m d (d_world s) = (C_ok r h, w') \<Longrightarrow>
     disk_step p s (s\<lparr>d_world := w', d_phase := (d_phase s)(i := Idle), d_log := (i, r, m) # d_log s\<rparr>)"
| ds_fail: "d_phase s i = Checked m d \<Longrightarrow> commit_finish p m d (d_world s) = (C_fail f e, w') \<Longrightarrow>
     disk_step p s (s\<lparr>d_world := w', d_phase := (d_phase s)(i := Idle)\<rparr>)"

inductive_cases disk_stepE: "disk_step p s s'"

text \<open>Steps in which no two writers are between check and write at once.\<close>

definition busy :: "disk_state \<Rightarrow> nat set" where
  "busy s = {i. d_phase s i \<noteq> Idle}"

inductive serial_reach :: "persistence \<Rightarrow> disk_state \<Rightarrow> disk_state \<Rightarrow> bool" for p s0 where
  sr_start: "serial_reach p s0 s0"
| sr_step: "serial_reach p s0 s \<Longrightarrow> disk_step p s s' \<Longrightarrow> (\<exists>i. busy s' \<subseteq> {i}) \<Longrightarrow> serial_reach p s0 s'"

definition serial_inv :: "persistence \<Rightarrow> disk_state \<Rightarrow> bool" where
  "serial_inv p s \<longleftrightarrow> (\<exists>i. busy s \<subseteq> {i}) \<and>
     (\<forall>i m d. d_phase s i = Checked m d \<longrightarrow> disk_revision p (d_world s) = Some d) \<and>
     (d_log s \<noteq> [] \<longrightarrow> disk_revision p (d_world s) = Some (fst (snd (hd (d_log s))))) \<and>
     sorted_wrt (\<lambda>a b. fst (snd b) < fst (snd a)) (d_log s) \<and>
     (\<forall>e \<in> set (d_log s). \<forall>r. disk_revision p (d_world s) = Some r \<longrightarrow> fst (snd e) \<le> r)"

lemma serial_inv_frame:
  assumes "serial_inv p s" "d_log s' = d_log s" "disk_revision p (d_world s') = disk_revision p (d_world s)"
    and "\<exists>i. busy s' \<subseteq> {i}"
    and "\<And>i m d. d_phase s' i = Checked m d \<Longrightarrow> d_phase s i = Checked m d \<or> disk_revision p (d_world s) = Some d"
  shows "serial_inv p s'"
  unfolding serial_inv_def
proof (intro conjI allI impI)
  fix i m d
  assume "d_phase s' i = Checked m d"
  with assms(5) consider "d_phase s i = Checked m d" | "disk_revision p (d_world s) = Some d" by blast
  then show "disk_revision p (d_world s') = Some d"
    using assms(1,3) by cases (simp_all add: serial_inv_def)
qed (use assms in \<open>simp_all add: serial_inv_def\<close>)

lemma serial_inv_step:
  assumes "disk_step p s s'" "serial_inv p s" "\<exists>i. busy s' \<subseteq> {i}"
  shows "serial_inv p s'"
  using assms
proof (induction rule: disk_step.induct)
  case (ds_check s i n d w' m)
  from ds_check(2) have d: "disk_revision p (d_world s) = Some d" by (auto dest: commit_check_ok)
  from commit_check_frame [OF ds_check(2)] have "disk_revision p w' = disk_revision p (d_world s)"
    by (simp add: disk_revision_def)
  with ds_check d show ?case by (auto intro!: serial_inv_frame [OF ds_check(3)] split: if_splits)
next
  case (ds_refuse s i n r w')
  from commit_check_frame [OF ds_refuse(2)] have "disk_revision p w' = disk_revision p (d_world s)"
    by (simp add: disk_revision_def)
  with ds_refuse show ?case by (auto intro!: serial_inv_frame [OF ds_refuse(3)])
next
  case (ds_write s i m d r h w')
  from ds_write(3) obtain k where k: "busy s \<subseteq> {k}" by (auto simp: serial_inv_def)
  have "d_phase s j = Idle" if "j \<noteq> i" for j
  proof (rule ccontr)
    assume "d_phase s j \<noteq> Idle"
    then have "i \<in> busy s" "j \<in> busy s" using ds_write(1) by (simp_all add: busy_def)
    with k that show False by auto
  qed
  moreover have "disk_revision p (d_world s) = Some d" using ds_write by (auto simp: serial_inv_def)
  moreover from ds_write(2) have "r = d + 1" "disk_revision p w' = Some r" by (auto elim: commit_finish_ok)
  ultimately show ?case using ds_write(3,4) by (fastforce simp: serial_inv_def)
next
  case (ds_fail s i m d f e w')
  have "disk_revision p w' = disk_revision p (d_world s)"
    using commit_finish_fail [OF ds_fail(2)] by (auto intro: disk_revision_cong)
  with ds_fail show ?case by (auto intro!: serial_inv_frame [OF ds_fail(3)] split: if_splits)
qed

lemma serial_reach_inv: "serial_reach p s0 s \<Longrightarrow> serial_inv p s0 \<Longrightarrow> serial_inv p s"
  by (induction rule: serial_reach.induct) (auto intro: serial_inv_step)

lemma sorted_log_distinct:
  "sorted_wrt (\<lambda>a b. fst (snd b) < fst (snd a)) (l :: (nat \<times> int \<times> 'a) list) \<Longrightarrow> distinct (map (fst \<circ> snd) l)"
  by (induction l) auto

end
