(* ===== verification/Arbitration.thy ===== *)
theory Arbitration
  imports ManifestTypes
begin

text \<open>
  The arbitration engine (\<open>src/manifest/arbitration.ts\<close>): the choice of the authoritative
  fact for an identity key, the decision on an incoming observation, convergence, and the
  summaries that a changed fact makes stale. Confidences are binary64 numbers and the
  confidence delta is rounded as the code's subtraction rounds it.
\<close>

definition CONFIDENCE_SUPERIORITY_THRESHOLD :: dbl where
  "CONFIDENCE_SUPERIORITY_THRESHOLD = dec 15 2"

definition CONVERGENCE_BONUS :: dbl where
  "CONVERGENCE_BONUS = dec 2 2"

definition CONFIDENCE_MAX :: dbl where
  "CONFIDENCE_MAX = dec 1 0"

record candidate =
  c_fact_hash :: jstring
  c_identity_key :: jstring
  c_confidence :: dbl
  c_source :: jstring

section \<open>The authoritative fact\<close>

definition better :: "fact \<Rightarrow> fact option \<Rightarrow> bool" where
  "better f best =
     (case best of None \<Rightarrow> True
      | Some b \<Rightarrow> (f_state f = Active \<and> f_state b \<noteq> Active) \<or>
                  (f_state f = f_state b \<and> f_confidence b < f_confidence f))"

fun find_from :: "fact obj \<Rightarrow> fact_id list \<Rightarrow> fact option \<Rightarrow> fact option" where
  "find_from fs [] best = best"
| "find_from fs (i # ids) best =
     (case obj_get fs i of
        None \<Rightarrow> find_from fs ids best
      | Some f \<Rightarrow>
          if f_state f = Archived \<or> f_state f = Invalidated then find_from fs ids best
          else if better f best then find_from fs ids (Some f)
          else find_from fs ids best)"

definition find_authoritative_fact :: "fact_id jset \<Rightarrow> manifest \<Rightarrow> fact option" where
  "find_authoritative_fact ids m = find_from (m_facts m) ids None"

section \<open>The decision\<close>

definition quoted :: "jstring \<Rightarrow> jstring" where
  "quoted s = [34] @ s @ [34]"

definition converge_reason :: jstring where
  "converge_reason = js ''Identical value already observed (hash match). Strengthening confidence via convergence.''"

definition supersede_reason :: "dbl \<Rightarrow> dbl \<Rightarrow> dbl \<Rightarrow> dbl \<Rightarrow> jstring" where
  "supersede_reason thr inc ex delta =
     js ''Incoming confidence '' @ to_fixed 2 inc @ js '' exceeds existing '' @ to_fixed 2 ex @
     js '' by '' @ to_fixed 2 delta @ js '' (threshold: '' @ num_to_string thr @ js ''). Superseding.''"

definition reject_reason :: "dbl \<Rightarrow> dbl \<Rightarrow> dbl \<Rightarrow> dbl \<Rightarrow> jstring" where
  "reject_reason thr inc ex delta =
     js ''Existing confidence '' @ to_fixed 2 ex @ js '' exceeds incoming '' @ to_fixed 2 inc @
     js '' by '' @ to_fixed 2 (- delta) @ js '' (threshold: '' @ num_to_string thr @
     js ''). Rejecting incoming. Recording as superseded for lineage.''"

definition conflict_reason :: "dbl \<Rightarrow> dbl \<Rightarrow> jstring \<Rightarrow> jstring \<Rightarrow> jstring" where
  "conflict_reason thr delta exsrc insrc =
     js ''Confidence delta '' @ to_fixed 2 \<bar>delta\<bar> @ js '' is below superiority threshold '' @
     num_to_string thr @ js ''. Sources '' @ quoted exsrc @ js '' and '' @ quoted insrc @
     js '' disagree. Marking both as conflicted.''"

definition arbitrate :: "dbl \<Rightarrow> candidate \<Rightarrow> manifest \<Rightarrow> manifest_indexes \<Rightarrow> decision" where
  "arbitrate thr incoming m ix =
     (case map_of (facts_by_identity_key ix) (c_identity_key incoming) of
        None \<Rightarrow> Dec_new (js ''No existing fact with this identity_key.'')
      | Some ids \<Rightarrow>
          if ids = [] then Dec_new (js ''No existing fact with this identity_key.'')
          else (case find_authoritative_fact ids m of
              None \<Rightarrow> Dec_new (js ''All prior facts for this identity_key are retired.'')
            | Some a \<Rightarrow>
                if c_fact_hash incoming = f_hash a then Dec_converge (f_id a) converge_reason
                else
                  (let delta = fsub (c_confidence incoming) (f_confidence a)
                   in if thr \<le> delta then
                        Dec_supersede (f_id a) (supersede_reason thr (c_confidence incoming) (f_confidence a) delta)
                      else if thr \<le> - delta then
                        Dec_reject (f_id a) (reject_reason thr (c_confidence incoming) (f_confidence a) delta)
                      else
                        Dec_conflict (f_id a) (conflict_reason thr delta (f_source a) (c_source incoming)))))"

section \<open>Convergence and states after a decision\<close>

record convergence =
  v_confidence :: dbl
  v_observations :: fact_observations
  v_supporting_sources :: "jstring list"

definition apply_convergence :: "fact \<Rightarrow> jstring \<Rightarrow> jstring \<Rightarrow> convergence" where
  "apply_convergence existing incoming_source now =
     (let new_count = observation_count (f_observations existing) + 1;
          new_confidence = min CONFIDENCE_MAX (fadd (f_confidence existing) CONVERGENCE_BONUS);
          sources = dedup (f_supporting_sources existing @ [incoming_source])
      in \<lparr>v_confidence = new_confidence,
          v_observations = (f_observations existing)\<lparr>last_seen := now, observation_count := new_count\<rparr>,
          v_supporting_sources = sources\<rparr>)"

definition with_updates :: "fact \<Rightarrow> convergence \<Rightarrow> fact" where
  "with_updates f u = f\<lparr>f_confidence := v_confidence u, f_observations := v_observations u,
     f_supporting_sources := v_supporting_sources u\<rparr>"

fun incoming_state_for_outcome :: "outcome \<Rightarrow> fact_state" where
  "incoming_state_for_outcome New = Active"
| "incoming_state_for_outcome Supersede = Active"
| "incoming_state_for_outcome Converge = Active"
| "incoming_state_for_outcome Conflict = Conflicted"
| "incoming_state_for_outcome Reject = Superseded"

fun existing_state_after_outcome :: "outcome \<Rightarrow> fact_state \<Rightarrow> fact_state" where
  "existing_state_after_outcome Supersede st = Superseded"
| "existing_state_after_outcome Conflict st = Conflicted"
| "existing_state_after_outcome New st = st"
| "existing_state_after_outcome Converge st = st"
| "existing_state_after_outcome Reject st = st"

definition collect_stale_summaries :: "fact_id \<Rightarrow> manifest_indexes \<Rightarrow> summary_id jset" where
  "collect_stale_summaries i ix = (case map_of (summary_deps ix) i of None \<Rightarrow> [] | Some s \<Rightarrow> dedup s)"

section \<open>Lemmas\<close>

lemma threshold_pos: "0 < CONFIDENCE_SUPERIORITY_THRESHOLD"
  unfolding CONFIDENCE_SUPERIORITY_THRESHOLD_def by (rule dec_pos) (simp add: ulp0_def)

lemma bonus_nonneg: "0 \<le> CONVERGENCE_BONUS"
  unfolding CONVERGENCE_BONUS_def by (rule less_imp_le, rule dec_pos) (simp add: ulp0_def)

definition live_fact :: "fact \<Rightarrow> bool" where
  "live_fact f \<longleftrightarrow> f_state f \<noteq> Archived \<and> f_state f \<noteq> Invalidated"

definition eligible :: "fact obj \<Rightarrow> fact_id list \<Rightarrow> fact set" where
  "eligible fs ids = {f. \<exists>i \<in> set ids. obj_get fs i = Some f \<and> live_fact f}"

lemma find_from_mem:
  "find_from fs ids best = Some f \<Longrightarrow> best = Some f \<or> f \<in> eligible fs ids"
  by (induction ids arbitrary: best)
    (fastforce simp: eligible_def live_fact_def split: option.splits if_splits)+

lemma find_from_some: "best \<noteq> None \<Longrightarrow> find_from fs ids best \<noteq> None"
  by (induction ids arbitrary: best) (auto split: option.splits)

lemma find_from_none: "find_from fs ids best = None \<longleftrightarrow> best = None \<and> eligible fs ids = {}"
proof (induction ids arbitrary: best)
  case (Cons i ids)
  have e: "eligible fs (i # ids) = eligible fs ids \<union> {f. obj_get fs i = Some f \<and> live_fact f}"
    by (auto simp: eligible_def)
  show ?case
    using Cons [of best] find_from_some [of "Some _" fs ids]
    by (auto simp: e live_fact_def better_def split: option.splits)
qed (simp add: eligible_def)

text \<open>An active fact beats every other state, and the more confident of two active facts wins.\<close>

lemma find_from_keeps_active:
  "find_from fs ids (Some b) = Some f \<Longrightarrow> f_state b = Active \<Longrightarrow> f_state f = Active \<and> f_confidence b \<le> f_confidence f"
  by (induction ids arbitrary: b) (fastforce simp: better_def split: option.splits if_splits)+

lemma find_from_active:
  assumes "find_from fs ids best = Some f" "g \<in> eligible fs ids" "f_state g = Active"
  shows "f_state f = Active \<and> f_confidence g \<le> f_confidence f"
  using assms
proof (induction ids arbitrary: best)
  case (Cons i ids)
  show ?case
  proof (cases "obj_get fs i = Some g")
    case True
    show ?thesis
    proof (cases "better g best")
      case b: True
      with True Cons.prems have "find_from fs ids (Some g) = Some f" by simp
      with Cons.prems show ?thesis by (blast dest: find_from_keeps_active)
    next
      case False
      then obtain b where b: "best = Some b" "f_state b = Active" "f_confidence g \<le> f_confidence b"
        using Cons.prems(3) by (fastforce simp: better_def split: option.splits)
      from False True Cons.prems have "find_from fs ids (Some b) = Some f" by (simp add: b)
      with b show ?thesis by (fastforce dest: find_from_keeps_active)
    qed
  next
    case False
    with Cons.prems(2) have "g \<in> eligible fs ids" by (auto simp: eligible_def)
    with Cons show ?thesis by (auto split: option.splits if_splits)
  qed
qed (simp add: eligible_def)

lemma dec_existing_authoritative:
  assumes "arbitrate thr c m ix = d" "dec_outcome d \<noteq> New"
  shows "\<exists>ids a. map_of (facts_by_identity_key ix) (c_identity_key c) = Some ids \<and>
     find_authoritative_fact ids m = Some a \<and> dec_existing d = f_id a"
  using assms by (auto simp: arbitrate_def Let_def split: option.splits if_splits)

lemma convergence_sources:
  "set (v_supporting_sources (apply_convergence f src now)) = insert src (set (f_supporting_sources f))"
  by (auto simp: apply_convergence_def Let_def)

lemma with_updates_frame [simp]:
  "f_id (with_updates f u) = f_id f" "f_hash (with_updates f u) = f_hash f"
  "f_type (with_updates f u) = f_type f" "f_value (with_updates f u) = f_value f"
  "f_identity_key (with_updates f u) = f_identity_key f" "f_source (with_updates f u) = f_source f"
  "f_derived_from (with_updates f u) = f_derived_from f" "f_state (with_updates f u) = f_state f"
  "f_created_at (with_updates f u) = f_created_at f" "f_discovery_index (with_updates f u) = f_discovery_index f"
  "f_supersedes (with_updates f u) = f_supersedes f" "f_merged_from (with_updates f u) = f_merged_from f"
  by (simp_all add: with_updates_def)

lemma set_collect_stale [simp]:
  "set (collect_stale_summaries i ix) = (case map_of (summary_deps ix) i of None \<Rightarrow> {} | Some s \<Rightarrow> set s)"
  by (simp add: collect_stale_summaries_def split: option.splits)

end
