(* ===== verification/ManifestManager.thy ===== *)
theory ManifestManager
  imports Persistence Arbitration
begin

text \<open>
  The manifest manager (\<open>src/manifest/manifest-manager.ts\<close>), the mutation boundary of the
  engine. \<open>mgr\<close> is the state of one manager object; every method is a function on it that
  returns its result and the new state. The second half shows what every method keeps: the
  indexes describe the manifest, the operation log only grows, and no fact is lost or
  rewritten in the fields that identify it. \<open>mgr_step\<close> is the step relation of a manager.
\<close>

record mgr =
  g_working :: manifest
  g_indexes :: manifest_indexes
  g_dirty :: bool
  g_expected :: int
  g_actor :: jstring
  g_persistence :: persistence
  g_env :: world

record add_fact_result =
  ar_outcome :: outcome
  ar_fact_id :: fact_id
  ar_decision :: decision

record propose_ok =
  pr_new_fact_id :: fact_id
  pr_superseded_fact_id :: fact_id
  pr_decision :: decision

section \<open>Construction\<close>

definition new_manager :: "persistence \<Rightarrow> manifest \<Rightarrow> manifest_indexes \<Rightarrow> jstring \<Rightarrow> world \<Rightarrow> mgr" where
  "new_manager p m ix actor w = \<lparr>g_working = m, g_indexes = ix, g_dirty = False,
     g_expected = m_revision m, g_actor = actor, g_persistence = p, g_env = w\<rparr>"

fun load_failure_str :: "load_failure_reason \<Rightarrow> jstring" where
  "load_failure_str Not_found = js ''not_found''"
| "load_failure_str Parse_error = js ''parse_error''"
| "load_failure_str Schema_mismatch = js ''schema_mismatch''"
| "load_failure_str Integrity_failure = js ''integrity_failure''"
| "load_failure_str Lineage_error = js ''lineage_error''"
| "load_failure_str Orphan_ref = js ''orphan_ref''"
| "load_failure_str Load_io_error = js ''io_error''"

definition manager_load :: "jstring \<Rightarrow> jstring \<Rightarrow> jstring \<Rightarrow> world \<Rightarrow> (jstring + mgr) \<times> world" where
  "manager_load manifest_path artifacts_dir actor w =
     (let p = \<lparr>p_manifest_path = manifest_path, p_artifacts_dir = artifacts_dir, p_actor = actor\<rparr> in
      case load_or_create p actor w of
        (L_throw e, w) \<Rightarrow> (Inl e, w)
      | (L_fail reason detail, w) \<Rightarrow>
          (Inl (js ''ManifestManager.load failed: ['' @ load_failure_str reason @ js ''] '' @ detail), w)
      | (L_ok m ix, w) \<Rightarrow> (Inr (new_manager p m ix actor w), w))"

section \<open>Private mutation helpers\<close>

definition record_op :: "operation_type \<Rightarrow> jsobj \<Rightarrow> mgr \<Rightarrow> operation_id \<times> mgr" where
  "record_op t metadata g =
     (let (ms, w) = read_ms (g_env g);
          w = w\<lparr>w_op_seq := Suc (w_op_seq w)\<rparr>;
          i = op_id_of ms (w_op_seq w);
          (ts, w) = read_iso w;
          rev = m_revision (g_working g);
          opn = \<lparr>op_id = i, op_type = t, op_actor = g_actor g, op_timestamp = ts, op_revision_before = rev,
                op_revision_after = rev, op_metadata = metadata\<rparr>
      in (i, g\<lparr>g_env := w, g_working := (g_working g)\<lparr>m_operations := m_operations (g_working g) @ [opn]\<rparr>\<rparr>))"

abbreviation log_op :: "operation_type \<Rightarrow> jsobj \<Rightarrow> mgr \<Rightarrow> mgr" where
  "log_op t metadata g \<equiv> snd (record_op t metadata g)"

definition now_iso :: "mgr \<Rightarrow> jstring \<times> mgr" where
  "now_iso g = (let (t, w) = read_iso (g_env g) in (t, g\<lparr>g_env := w\<rparr>))"

definition draw_id :: "string \<Rightarrow> mgr \<Rightarrow> jstring \<times> mgr" where
  "draw_id prefix g = (let (u, w) = short_id (g_env g) in (js prefix @ u, g\<lparr>g_env := w\<rparr>))"

definition put_fact :: "fact_id \<Rightarrow> fact \<Rightarrow> mgr \<Rightarrow> mgr" where
  "put_fact i f g = g\<lparr>g_working := (g_working g)\<lparr>m_facts := obj_set i f (m_facts (g_working g))\<rparr>\<rparr>"

definition get_fact :: "fact_id \<Rightarrow> mgr \<Rightarrow> fact option" where
  "get_fact i g = obj_get (m_facts (g_working g)) i"

definition next_discovery_index :: "mgr \<Rightarrow> int \<times> mgr" where
  "next_discovery_index g =
     (let n = m_last_fact_index (g_working g) + 1
      in (n, g\<lparr>g_working := (g_working g)\<lparr>m_last_fact_index := n\<rparr>\<rparr>))"

definition build_fact ::
  "add_fact_input \<Rightarrow> jstring \<Rightarrow> jstring \<Rightarrow> fact_state \<Rightarrow> fact_id option \<Rightarrow> jstring \<Rightarrow> mgr \<Rightarrow> fact \<times> mgr" where
  "build_fact input identity_key fact_hash state supersedes now g =
     (let (i, g) = draw_id ''FACT_'' g; (n, g) = next_discovery_index g
      in (\<lparr>f_id = i, f_hash = fact_hash, f_type = i_type input, f_value = i_value input,
           f_identity_key = identity_key, f_confidence = i_confidence input, f_source = i_source input,
           f_derived_from = (case i_derived_from input of None \<Rightarrow> [] | Some xs \<Rightarrow> xs),
           f_supersedes = supersedes, f_merged_from = None, f_state = state, f_created_at = now,
           f_observations = \<lparr>first_seen = now, last_seen = now, observation_count = 1\<rparr>,
           f_supporting_sources = i_source input # (case i_supporting_sources input of None \<Rightarrow> [] | Some xs \<Rightarrow> xs),
           f_discovery_index = n\<rparr>, g))"

definition update_indexes_for_fact :: "fact \<Rightarrow> manifest_indexes \<Rightarrow> manifest_indexes" where
  "update_indexes_for_fact f ix =
     (let i = f_id f;
          ix = ix\<lparr>facts_by_type := add_to_set_map (facts_by_type ix) (f_type f) i\<rparr>;
          ix = ix\<lparr>facts_by_identity_key := add_to_set_map (facts_by_identity_key ix) (f_identity_key f) i\<rparr>;
          ix = ix\<lparr>facts_by_source := add_to_set_map (facts_by_source ix) (f_source f) i\<rparr>;
          ix = (if f_state f = Active then ix\<lparr>active_facts := set_add i (active_facts ix)\<rparr> else ix)
      in if f_state f = Conflicted then ix\<lparr>conflicted_facts := set_add i (conflicted_facts ix)\<rparr> else ix)"

definition insert_fact :: "fact \<Rightarrow> mgr \<Rightarrow> mgr" where
  "insert_fact f g =
     (let g = put_fact (f_id f) f g
      in g\<lparr>g_indexes := update_indexes_for_fact f (g_indexes g), g_dirty := True\<rparr>)"

definition moved :: "fact_state \<Rightarrow> jstring \<Rightarrow> fact \<Rightarrow> fact" where
  "moved st now f = f\<lparr>f_state := st, f_observations := (f_observations f)\<lparr>last_seen := now\<rparr>\<rparr>"

definition transition_indexes :: "fact_id \<Rightarrow> fact_state \<Rightarrow> fact_state \<Rightarrow> manifest_indexes \<Rightarrow> manifest_indexes" where
  "transition_indexes i previous new ix =
     (let ix = (if previous = Active then ix\<lparr>active_facts := set_del i (active_facts ix)\<rparr> else ix);
          ix = (if previous = Conflicted then ix\<lparr>conflicted_facts := set_del i (conflicted_facts ix)\<rparr> else ix);
          ix = (if new = Active then ix\<lparr>active_facts := set_add i (active_facts ix)\<rparr> else ix)
      in if new = Conflicted then ix\<lparr>conflicted_facts := set_add i (conflicted_facts ix)\<rparr> else ix)"

definition transition_fact :: "fact_id \<Rightarrow> fact_state \<Rightarrow> jstring \<Rightarrow> mgr \<Rightarrow> mgr" where
  "transition_fact i st now g =
     (case get_fact i g of
        None \<Rightarrow> g
      | Some f \<Rightarrow> (put_fact i (moved st now f) g)
          \<lparr>g_indexes := transition_indexes i (f_state f) st (g_indexes g), g_dirty := True\<rparr>)"

definition put_summary :: "summary_id \<Rightarrow> summary \<Rightarrow> mgr \<Rightarrow> mgr" where
  "put_summary i s g = g\<lparr>g_working := (g_working g)\<lparr>m_summaries := obj_set i s (m_summaries (g_working g))\<rparr>\<rparr>"

definition stale_one :: "fact_id \<Rightarrow> mgr \<Rightarrow> summary_id \<Rightarrow> mgr" where
  "stale_one i g sid =
     (case obj_get (m_summaries (g_working g)) sid of
        None \<Rightarrow> g
      | Some s \<Rightarrow> if s_stale s then g
          else log_op Summary_staled [(js ''summary_id'', Str sid), (js ''triggered_by_fact'', Str i)]
                 (put_summary sid (s\<lparr>s_stale := True\<rparr>) g))"

definition propagate_staleness :: "fact_id \<Rightarrow> mgr \<Rightarrow> mgr" where
  "propagate_staleness i g = foldl (stale_one i) g (collect_stale_summaries i (g_indexes g))"

section \<open>addFact\<close>

definition decision_json :: "decision \<Rightarrow> jsval" where
  "decision_json d = Obj ([(js ''outcome'', Str (outcome_str (dec_outcome d)))] @
     (if dec_outcome d = New then [] else [(js ''existing_id'', Str (dec_existing d))]) @
     [(js ''reason'', Str (dec_reason d))])"

definition converge_into :: "fact_id \<Rightarrow> jstring \<Rightarrow> jstring \<Rightarrow> mgr \<Rightarrow> fact option \<times> mgr" where
  "converge_into existing_id source now g =
     (case get_fact existing_id g of
        None \<Rightarrow> (None, g)
      | Some existing \<Rightarrow>
          (let updated = with_updates existing (apply_convergence existing source now)
           in (Some updated, put_fact (f_id existing) updated g)))"

definition add_fact :: "add_fact_input \<Rightarrow> mgr \<Rightarrow> add_fact_result \<times> mgr" where
  "add_fact input g =
     (let sha = w_sha (g_env g);
          identity_key = derive_identity_key sha (w_registry (g_env g)) (i_type input) (i_value input);
          fact_hash = derive_fact_hash sha (i_type input) (i_value input);
          cand = \<lparr>c_fact_hash = fact_hash, c_identity_key = identity_key, c_confidence = i_confidence input,
                  c_source = i_source input\<rparr>;
          d = arbitrate CONFIDENCE_SUPERIORITY_THRESHOLD cand (g_working g) (g_indexes g);
          (now, g) = now_iso g;
          key = (js ''identity_key'', Str identity_key);
          dj = (js ''decision'', decision_json d)
      in case d of
           Dec_new reason \<Rightarrow>
             (let (f, g) = build_fact input identity_key fact_hash Active None now g;
                  g = insert_fact f g
              in (\<lparr>ar_outcome = New, ar_fact_id = f_id f, ar_decision = d\<rparr>,
                  log_op Fact_added [(js ''fact_id'', Str (f_id f)), key, dj] g))
         | Dec_converge existing reason \<Rightarrow>
             (case converge_into existing (i_source input) now g of
                (None, g) \<Rightarrow> (\<lparr>ar_outcome = Converge, ar_fact_id = existing, ar_decision = d\<rparr>, g)
              | (Some u, g) \<Rightarrow>
                  (\<lparr>ar_outcome = Converge, ar_fact_id = f_id u, ar_decision = d\<rparr>,
                   log_op Fact_observation_updated
                     [(js ''fact_id'', Str (f_id u)), key,
                      (js ''observation_count'', int_json (observation_count (f_observations u))),
                      (js ''new_confidence'', Num (f_confidence u)), dj] g))
         | Dec_supersede existing reason \<Rightarrow>
             (let (f, g) = build_fact input identity_key fact_hash Active None now g;
                  g = insert_fact f g;
                  g = transition_fact existing Superseded now g;
                  g = propagate_staleness existing g
              in (\<lparr>ar_outcome = Supersede, ar_fact_id = f_id f, ar_decision = d\<rparr>,
                  log_op Fact_superseded
                    [(js ''new_fact_id'', Str (f_id f)), (js ''superseded_id'', Str existing), key, dj] g))
         | Dec_reject existing reason \<Rightarrow>
             (let (f, g) = build_fact input identity_key fact_hash Superseded None now g;
                  g = insert_fact f g;
                  g = snd (converge_into existing (i_source input) now g)
              in (\<lparr>ar_outcome = Reject, ar_fact_id = f_id f, ar_decision = d\<rparr>,
                  log_op Fact_added
                    [(js ''fact_id'', Str (f_id f)), (js ''state'', Str (js ''superseded'')),
                     (js ''reason'', Str (js ''rejected_by_existing'')), key, dj] g))
         | Dec_conflict existing reason \<Rightarrow>
             (let (f, g) = build_fact input identity_key fact_hash Conflicted None now g;
                  g = insert_fact f g;
                  g = transition_fact existing Conflicted now g;
                  g = propagate_staleness existing g;
                  g = g\<lparr>g_indexes := (g_indexes g)\<lparr>conflicted_facts := set_add (f_id f) (conflicted_facts (g_indexes g))\<rparr>\<rparr>
              in (\<lparr>ar_outcome = Conflict, ar_fact_id = f_id f, ar_decision = d\<rparr>,
                  log_op Fact_conflicted
                    [(js ''new_fact_id'', Str (f_id f)), (js ''conflicted_id'', Str existing), key, dj] g)))"

section \<open>addReference and addSummary\<close>

definition add_reference :: "add_reference_input \<Rightarrow> mgr \<Rightarrow> (jstring + ref_id) \<times> mgr" where
  "add_reference input g =
     (let (i, g) = draw_id ''REF_'' g in
      case store_artifact (g_persistence g) i (ri_content input) (g_env g) of
        (Inl e, w) \<Rightarrow> (Inl (js ''Artifact storage failed: '' @ e), g\<lparr>g_env := w\<rparr>)
      | (Inr stored, w) \<Rightarrow>
          (let (now, g) = now_iso (g\<lparr>g_env := w\<rparr>);
               r = \<lparr>r_id = i, r_source = ri_source input, r_label = ri_label input, r_path = a_path stored,
                    r_content_hash = a_content_hash stored, r_line_count = a_line_count stored,
                    r_byte_size = a_byte_size stored, r_created_at = now,
                    r_related_fact_ids = (case ri_related_fact_ids input of None \<Rightarrow> [] | Some xs \<Rightarrow> xs)\<rparr>;
               g = g\<lparr>g_working := (g_working g)\<lparr>m_references := obj_set i r (m_references (g_working g))\<rparr>,
                     g_indexes := (g_indexes g)\<lparr>refs_by_source := add_to_set_map (refs_by_source (g_indexes g)) (ri_source input) i\<rparr>\<rparr>;
               g = log_op Ref_added [(js ''ref_id'', Str i), (js ''source'', Str (ri_source input)),
                     (js ''label'', Str (ri_label input))] g
           in (Inr i, g\<lparr>g_dirty := True\<rparr>)))"

definition summary_clash :: "add_summary_input \<Rightarrow> summary \<Rightarrow> bool" where
  "summary_clash input s \<longleftrightarrow> s_type s = si_type input \<and> s_scope s = si_scope input \<and> s_state s = SActive"

definition drop_dep :: "summary_id \<Rightarrow> manifest_indexes \<Rightarrow> fact_id \<Rightarrow> manifest_indexes" where
  "drop_dep sid ix i =
     (case map_of (summary_deps ix) i of
        None \<Rightarrow> ix
      | Some s \<Rightarrow> ix\<lparr>summary_deps := map_put i (set_del sid s) (summary_deps ix)\<rparr>)"

definition retire_summary :: "summary \<Rightarrow> summary_id \<Rightarrow> mgr \<Rightarrow> mgr" where
  "retire_summary s replacement g =
     (let g = put_summary (s_id s) (s\<lparr>s_state := SSuperseded\<rparr>) g;
          g = g\<lparr>g_indexes := foldl (drop_dep (s_id s)) (g_indexes g) (s_source_fact_ids s)\<rparr>
      in log_op Summary_superseded
           [(js ''superseded_id'', Str (s_id s)), (js ''replacement_id'', Str replacement)] g)"

definition conflict_cap :: dbl where
  "conflict_cap = dec 8 1"

definition effective_confidence :: "add_summary_input \<Rightarrow> dbl" where
  "effective_confidence input =
     (case si_conflicts input of
        Some cs \<Rightarrow> if cs \<noteq> [] then min (si_confidence input) conflict_cap else si_confidence input
      | None \<Rightarrow> si_confidence input)"

definition add_dep :: "summary_id \<Rightarrow> manifest_indexes \<Rightarrow> fact_id \<Rightarrow> manifest_indexes" where
  "add_dep sid ix i = ix\<lparr>summary_deps := add_to_set_map (summary_deps ix) i sid\<rparr>"

definition new_summary :: "add_summary_input \<Rightarrow> summary_id \<Rightarrow> jstring \<Rightarrow> summary" where
  "new_summary input i now =
     \<lparr>s_id = i, s_type = si_type input, s_scope = si_scope input, s_state = SActive, s_stale = False,
      s_confidence = effective_confidence input, s_generated_at = now,
      s_source_fact_ids = si_source_fact_ids input,
      s_source_ref_ids = (case si_source_ref_ids input of None \<Rightarrow> [] | Some xs \<Rightarrow> xs),
      s_key_points = si_key_points input,
      s_conflicts = (case si_conflicts input of None \<Rightarrow> [] | Some xs \<Rightarrow> xs),
      s_recommended_next_actions = (case si_recommended_next_actions input of None \<Rightarrow> [] | Some xs \<Rightarrow> xs)\<rparr>"

definition add_summary :: "add_summary_input \<Rightarrow> mgr \<Rightarrow> (summary_id \<times> summary_id option) \<times> mgr" where
  "add_summary input g =
     (let (i, g) = draw_id ''SUM_'' g; (now, g) = now_iso g;
          clash = List.find (summary_clash input) (obj_values (m_summaries (g_working g)));
          g = (case clash of None \<Rightarrow> g | Some s \<Rightarrow> retire_summary s i g);
          g = put_summary i (new_summary input i now) g;
          g = g\<lparr>g_indexes := foldl (add_dep i) (g_indexes g) (si_source_fact_ids input)\<rparr>;
          g = log_op Summary_added [(js ''summary_id'', Str i), (js ''type'', Str (si_type input)),
                (js ''scope'', Str (si_scope input))] g
      in ((i, map_option s_id clash), g\<lparr>g_dirty := True\<rparr>))"

section \<open>queryFacts\<close>

definition truthy_str :: "jstring option \<Rightarrow> jstring option" where
  "truthy_str s = (if s = Some [] then None else s)"

definition query_states :: "query_filter \<Rightarrow> fact_state list" where
  "query_states q = (case q_state q of Some sts \<Rightarrow> sts | None \<Rightarrow> [Active, Conflicted])"

definition query_candidates :: "query_filter \<Rightarrow> mgr \<Rightarrow> fact_id list" where
  "query_candidates q g =
     (case truthy_str (q_type q) of
        Some t \<Rightarrow> (case map_of (facts_by_type (g_indexes g)) t of None \<Rightarrow> [] | Some s \<Rightarrow> s)
      | None \<Rightarrow>
          (case truthy_str (q_identity_key q) of
             Some k \<Rightarrow> (case map_of (facts_by_identity_key (g_indexes g)) k of None \<Rightarrow> [] | Some s \<Rightarrow> s)
           | None \<Rightarrow> obj_keys (m_facts (g_working g))))"

definition query_match :: "query_filter \<Rightarrow> fact \<Rightarrow> bool" where
  "query_match q f \<longleftrightarrow> f_state f \<in> set (query_states q) \<and>
     (case truthy_str (q_source q) of Some s \<Rightarrow> f_source f = s | None \<Rightarrow> True) \<and>
     (case q_min_confidence q of Some c \<Rightarrow> c \<le> f_confidence f | None \<Rightarrow> True) \<and>
     (case truthy_str (q_identity_key q) of Some k \<Rightarrow> f_identity_key f = k | None \<Rightarrow> True)"

definition query_order :: "fact \<Rightarrow> fact \<Rightarrow> int" where
  "query_order a b =
     (if f_confidence b \<noteq> f_confidence a then fsub (f_confidence b) (f_confidence a)
      else f_discovery_index a - f_discovery_index b)"

fun query_collect :: "query_filter \<Rightarrow> mgr \<Rightarrow> fact_id list \<Rightarrow> fact list" where
  "query_collect q g [] = []"
| "query_collect q g (i # ids) =
     (case get_fact i g of
        None \<Rightarrow> query_collect q g ids
      | Some f \<Rightarrow> if query_match q f then f # query_collect q g ids else query_collect q g ids)"

definition query_facts :: "query_filter \<Rightarrow> mgr \<Rightarrow> fact list" where
  "query_facts q g =
     (let results = sort_by query_order (query_collect q g (query_candidates q g))
      in case q_limit q of
           Some n \<Rightarrow> if n \<noteq> 0 then slice results 0 n else results
         | None \<Rightarrow> results)"

section \<open>proposeRefinement\<close>

definition force_refinement :: "fact_id \<Rightarrow> fact_id \<Rightarrow> mgr \<Rightarrow> mgr" where
  "force_refinement new_id target g =
     (let g = (case get_fact new_id g of None \<Rightarrow> g | Some f \<Rightarrow> put_fact new_id (f\<lparr>f_state := Active\<rparr>) g);
          g = (case get_fact target g of
                 None \<Rightarrow> g
               | Some f \<Rightarrow> (let (now, g) = now_iso g in propagate_staleness target (transition_fact target Superseded now g)))
      in log_op Fact_superseded
           [(js ''new_fact_id'', Str new_id), (js ''superseded_id'', Str target),
            (js ''via'', Str (js ''propose_refinement'')), (js ''forced'', Bool True)] g)"

definition sweep_one :: "jstring \<Rightarrow> fact_id \<Rightarrow> jstring \<Rightarrow> mgr \<Rightarrow> fact_id \<Rightarrow> mgr" where
  "sweep_one identity_key new_id now g i =
     (if i = new_id then g
      else (case get_fact i g of
          None \<Rightarrow> g
        | Some f \<Rightarrow>
            if f_identity_key f = identity_key
            then log_op Fact_superseded
                   [(js ''superseded_id'', Str i), (js ''via'', Str (js ''propose_refinement'')),
                    (js ''reason'', Str (js ''conflict_resolution''))]
                   (propagate_staleness i (transition_fact i Superseded now g))
            else g))"

definition propose_refinement :: "fact_id \<Rightarrow> add_fact_input \<Rightarrow> mgr \<Rightarrow> (jstring + propose_ok) \<times> mgr" where
  "propose_refinement target refinement g =
     (case get_fact target g of
        None \<Rightarrow> (Inl (js ''Fact '' @ target @ js '' not found.''), g)
      | Some t \<Rightarrow>
          if f_state t = Invalidated
          then (Inl (js ''Cannot refine an invalidated fact ('' @ target @ js '').''), g)
          else
            (let (r, g) = add_fact (refinement\<lparr>i_derived_from := Some [target]\<rparr>) g;
                 new_id = ar_fact_id r;
                 g = (if ar_outcome r \<noteq> Supersede \<and> ar_outcome r \<noteq> New then force_refinement new_id target g else g);
                 (now, g) = now_iso g;
                 g = foldl (sweep_one (f_identity_key t) new_id now) g (conflicted_facts (g_indexes g))
             in (Inr \<lparr>pr_new_fact_id = new_id, pr_superseded_fact_id = target, pr_decision = ar_decision r\<rparr>, g)))"

section \<open>proposeConsolidation\<close>

definition supersede_sources :: "jstring \<Rightarrow> mgr \<Rightarrow> fact_id list \<Rightarrow> mgr" where
  "supersede_sources now g ids =
     foldl (\<lambda>g i. propagate_staleness i (transition_fact i Superseded now g)) g ids"

definition inherited_sources :: "fact_id list \<Rightarrow> mgr \<Rightarrow> jstring list" where
  "inherited_sources ids g =
     concat (map (\<lambda>i. case get_fact i g of None \<Rightarrow> [] | Some f \<Rightarrow> f_source f # f_supporting_sources f) ids)"

definition consolidated_fact ::
  "fact_id \<Rightarrow> jstring \<Rightarrow> jstring \<Rightarrow> add_fact_input \<Rightarrow> fact_id list \<Rightarrow> jstring list \<Rightarrow> jstring \<Rightarrow> int \<Rightarrow> fact" where
  "consolidated_fact i fact_hash identity_key c source_ids inherited now n =
     \<lparr>f_id = i, f_hash = fact_hash, f_type = i_type c, f_value = i_value c, f_identity_key = identity_key,
      f_confidence = i_confidence c, f_source = i_source c, f_derived_from = source_ids, f_supersedes = None,
      f_merged_from = Some source_ids, f_state = Active, f_created_at = now,
      f_observations = \<lparr>first_seen = now, last_seen = now, observation_count = 1\<rparr>,
      f_supporting_sources = dedup (i_source c # inherited), f_discovery_index = n\<rparr>"

definition propose_consolidation :: "fact_id list \<Rightarrow> add_fact_input \<Rightarrow> mgr \<Rightarrow> (jstring + propose_ok) \<times> mgr" where
  "propose_consolidation ids c g =
     (if length ids < 2 then (Inl (js ''Consolidation requires at least 2 source facts.''), g)
      else (case List.find (\<lambda>i. get_fact i g = None) ids of
          Some i \<Rightarrow> (Inl (js ''Source fact '' @ i @ js '' not found.''), g)
        | None \<Rightarrow>
            (let inherited = inherited_sources ids g; (now, g) = now_iso g; sha = w_sha (g_env g);
                 identity_key = derive_identity_key sha (w_registry (g_env g)) (i_type c) (i_value c);
                 fact_hash = derive_fact_hash sha (i_type c) (i_value c);
                 (i, g) = draw_id ''FACT_'' g; (n, g) = next_discovery_index g;
                 f = consolidated_fact i fact_hash identity_key c ids inherited now n;
                 g = put_fact i f g;
                 g = g\<lparr>g_indexes := update_indexes_for_fact f (g_indexes g)\<rparr>;
                 g = supersede_sources now g ids;
                 g = log_op Fact_consolidated [(js ''consolidated_fact_id'', Str i),
                       (js ''source_fact_ids'', strs_json ids), (js ''identity_key'', Str identity_key)] g
             in (Inr \<lparr>pr_new_fact_id = i, pr_superseded_fact_id = hd ids,
                      pr_decision = Dec_new (js ''Consolidation creates a new authoritative fact.'')\<rparr>,
                 g\<lparr>g_dirty := True\<rparr>))))"

section \<open>supersedeFact, invalidateFact, recordOperation\<close>

definition supersede_fact :: "fact_id \<Rightarrow> jstring \<Rightarrow> mgr \<Rightarrow> (jstring + unit) \<times> mgr" where
  "supersede_fact i reason g =
     (case get_fact i g of
        None \<Rightarrow> (Inl (js ''Fact '' @ i @ js '' not found.''), g)
      | Some f \<Rightarrow>
          if f_state f = Invalidated then (Inl (js ''Already invalidated.''), g)
          else (let (now, g) = now_iso g; g = transition_fact i Superseded now g; g = propagate_staleness i g
                in (Inr (), log_op Fact_superseded [(js ''fact_id'', Str i), (js ''reason'', Str reason),
                      (js ''manual'', Bool True)] g)))"

definition invalidate_fact :: "fact_id \<Rightarrow> jstring \<Rightarrow> mgr \<Rightarrow> (jstring + unit) \<times> mgr" where
  "invalidate_fact i reason g =
     (case get_fact i g of
        None \<Rightarrow> (Inl (js ''Fact '' @ i @ js '' not found.''), g)
      | Some f \<Rightarrow>
          (let (now, g) = now_iso g; g = transition_fact i Invalidated now g; g = propagate_staleness i g;
               g = g\<lparr>g_indexes := (g_indexes g)\<lparr>active_facts := set_del i (active_facts (g_indexes g)),
                      conflicted_facts := set_del i (conflicted_facts (g_indexes g))\<rparr>\<rparr>
           in (Inr (), log_op Fact_invalidated [(js ''fact_id'', Str i), (js ''reason'', Str reason),
                 (js ''invalidated'', Bool True)] g)))"

definition record_operation :: "operation_type \<Rightarrow> jsobj \<Rightarrow> mgr \<Rightarrow> operation_id \<times> mgr" where
  "record_operation t metadata g = record_op t metadata g"

section \<open>commit and reload\<close>

definition manager_commit :: "mgr \<Rightarrow> commit_result \<times> mgr" where
  "manager_commit g =
     (if \<not> g_dirty g then (C_ok (m_revision (g_working g)) (m_integrity_hash (g_working g)), g)
      else (case commit (g_persistence g) (g_working g) (g_expected g) (g_env g) of
          (C_ok r h, w) \<Rightarrow> (C_ok r h, g\<lparr>g_env := w,
             g_working := (g_working g)\<lparr>m_revision := r, m_integrity_hash := h\<rparr>, g_expected := r, g_dirty := False\<rparr>)
        | (C_fail f e, w) \<Rightarrow> (C_fail f e, g\<lparr>g_env := w\<rparr>)))"

datatype reload_result = Reload_ok | Reload_fail jstring | Reload_throw jstring

definition reload :: "mgr \<Rightarrow> reload_result \<times> mgr" where
  "reload g =
     (case load (g_persistence g) (g_env g) of
        (L_throw e, w) \<Rightarrow> (Reload_throw e, g\<lparr>g_env := w\<rparr>)
      | (L_fail reason detail, w) \<Rightarrow>
          (Reload_fail (js ''['' @ load_failure_str reason @ js ''] '' @ detail), g\<lparr>g_env := w\<rparr>)
      | (L_ok m ix, w) \<Rightarrow>
          (Reload_ok, log_op Manifest_loaded [(js ''event'', Str (js ''reload''))]
             (g\<lparr>g_env := w, g_working := m, g_indexes := ix, g_expected := m_revision m, g_dirty := False\<rparr>)))"

section \<open>Read accessors\<close>

definition get_reference :: "ref_id \<Rightarrow> mgr \<Rightarrow> reference option" where
  "get_reference i g = obj_get (m_references (g_working g)) i"

definition get_summary :: "summary_id \<Rightarrow> mgr \<Rightarrow> summary option" where
  "get_summary i g = obj_get (m_summaries (g_working g)) i"

definition get_active_summaries :: "jstring option \<Rightarrow> mgr \<Rightarrow> summary list" where
  "get_active_summaries t g =
     filter (\<lambda>s. s_state s = SActive \<and> (case truthy_str t of None \<Rightarrow> True | Some x \<Rightarrow> s_type s = x))
       (obj_values (m_summaries (g_working g)))"

definition get_conflicted_facts :: "mgr \<Rightarrow> fact list" where
  "get_conflicted_facts g = List.map_filter (\<lambda>i. get_fact i g) (conflicted_facts (g_indexes g))"


section \<open>Lemmas: frames\<close>

lemma log_op_frame [simp]:
  "m_facts (g_working (log_op t d g)) = m_facts (g_working g)"
  "m_references (g_working (log_op t d g)) = m_references (g_working g)"
  "m_summaries (g_working (log_op t d g)) = m_summaries (g_working g)"
  "m_last_fact_index (g_working (log_op t d g)) = m_last_fact_index (g_working g)"
  "m_revision (g_working (log_op t d g)) = m_revision (g_working g)"
  "m_schema_version (g_working (log_op t d g)) = m_schema_version (g_working g)"
  "g_indexes (log_op t d g) = g_indexes g" "g_dirty (log_op t d g) = g_dirty g"
  "g_expected (log_op t d g) = g_expected g" "g_actor (log_op t d g) = g_actor g"
  "g_persistence (log_op t d g) = g_persistence g"
  "w_sha (g_env (log_op t d g)) = w_sha (g_env g)" "w_registry (g_env (log_op t d g)) = w_registry (g_env g)"
  "w_uuid (g_env (log_op t d g)) = w_uuid (g_env g)" "w_draw (g_env (log_op t d g)) = w_draw (g_env g)"
  "w_files (g_env (log_op t d g)) = w_files (g_env g)"
  by (simp_all add: record_op_def read_ms_def read_iso_def Let_def)

lemma log_op_ops:
  "\<exists>q. m_operations (g_working (log_op t d g)) = m_operations (g_working g) @ [q] \<and>
     op_type q = t \<and> op_metadata q = d \<and> op_actor q = g_actor g \<and> op_revision_before q = m_revision (g_working g)"
  by (simp add: record_op_def read_ms_def read_iso_def Let_def)

lemma now_iso_frame:
  assumes "now_iso g = (t, g')"
  shows "g_working g' = g_working g" "g_indexes g' = g_indexes g" "g_dirty g' = g_dirty g"
    "g_expected g' = g_expected g" "g_actor g' = g_actor g" "g_persistence g' = g_persistence g"
    "w_sha (g_env g') = w_sha (g_env g)" "w_registry (g_env g') = w_registry (g_env g)"
    "w_uuid (g_env g') = w_uuid (g_env g)" "w_draw (g_env g') = w_draw (g_env g)"
    "w_files (g_env g') = w_files (g_env g)"
  using assms by (auto simp: now_iso_def read_iso_def Let_def)

lemma put_fact_frame [simp]:
  "m_references (g_working (put_fact i f g)) = m_references (g_working g)"
  "m_summaries (g_working (put_fact i f g)) = m_summaries (g_working g)"
  "m_operations (g_working (put_fact i f g)) = m_operations (g_working g)"
  "m_last_fact_index (g_working (put_fact i f g)) = m_last_fact_index (g_working g)"
  "g_indexes (put_fact i f g) = g_indexes g" "g_env (put_fact i f g) = g_env g"
  "m_facts (g_working (put_fact i f g)) = obj_set i f (m_facts (g_working g))"
  by (simp_all add: put_fact_def)

lemma put_summary_frame [simp]:
  "m_references (g_working (put_summary i s g)) = m_references (g_working g)"
  "m_facts (g_working (put_summary i s g)) = m_facts (g_working g)"
  "m_operations (g_working (put_summary i s g)) = m_operations (g_working g)"
  "m_last_fact_index (g_working (put_summary i s g)) = m_last_fact_index (g_working g)"
  "g_indexes (put_summary i s g) = g_indexes g" "g_env (put_summary i s g) = g_env g"
  "m_summaries (g_working (put_summary i s g)) = obj_set i s (m_summaries (g_working g))"
  by (simp_all add: put_summary_def)

section \<open>The invariant\<close>

text \<open>The identifier that is drawn next. \<open>fresh_next\<close> says that it is not in use: a method
  that draws one is specified for that case.\<close>

definition drawn :: "world \<Rightarrow> nat \<Rightarrow> jstring" where
  "drawn w n = short_id_of (w_uuid w n)"

definition next_fact_id :: "mgr \<Rightarrow> fact_id" where
  "next_fact_id g = js ''FACT_'' @ drawn (g_env g) (w_draw (g_env g))"

definition next_ref_id :: "mgr \<Rightarrow> ref_id" where
  "next_ref_id g = js ''REF_'' @ drawn (g_env g) (w_draw (g_env g))"

definition next_summary_id :: "mgr \<Rightarrow> summary_id" where
  "next_summary_id g = js ''SUM_'' @ drawn (g_env g) (w_draw (g_env g))"

definition fresh_next :: "mgr \<Rightarrow> bool" where
  "fresh_next g \<longleftrightarrow> map_of (m_facts (g_working g)) (next_fact_id g) = None \<and>
     map_of (m_references (g_working g)) (next_ref_id g) = None \<and>
     map_of (m_summaries (g_working g)) (next_summary_id g) = None"

definition base :: "mgr \<Rightarrow> bool" where
  "base g \<longleftrightarrow> manifest_wf (g_working g)"

definition indexed_ok :: "mgr \<Rightarrow> bool" where
  "indexed_ok g \<longleftrightarrow> idx_ok (g_working g) (g_indexes g)"

text \<open>What no method may change of a fact and of a summary.\<close>

definition same_fact :: "fact \<Rightarrow> fact \<Rightarrow> bool" where
  "same_fact f g \<longleftrightarrow> f_id g = f_id f \<and> f_hash g = f_hash f \<and> f_type g = f_type f \<and> f_value g = f_value f \<and>
     f_identity_key g = f_identity_key f \<and> f_source g = f_source f \<and> f_derived_from g = f_derived_from f \<and>
     f_supersedes g = f_supersedes f \<and> f_merged_from g = f_merged_from f \<and> f_created_at g = f_created_at f \<and>
     f_discovery_index g = f_discovery_index f"

definition same_summary :: "summary \<Rightarrow> summary \<Rightarrow> bool" where
  "same_summary s t \<longleftrightarrow> t\<lparr>s_state := s_state s, s_stale := s_stale s\<rparr> = s \<and> (s_stale s \<longrightarrow> s_stale t) \<and>
     (s_state t = s_state s \<or> s_state s = SActive \<and> s_state t = SSuperseded)"

definition extends :: "manifest \<Rightarrow> manifest \<Rightarrow> bool" where
  "extends m n \<longleftrightarrow> (\<exists>ops. m_operations n = m_operations m @ ops) \<and>
     m_last_fact_index m \<le> m_last_fact_index n \<and>
     (\<forall>i f. map_of (m_facts m) i = Some f \<longrightarrow> (\<exists>f'. map_of (m_facts n) i = Some f' \<and> same_fact f f')) \<and>
     (\<forall>i r. map_of (m_references m) i = Some r \<longrightarrow> map_of (m_references n) i = Some r) \<and>
     (\<forall>i s. map_of (m_summaries m) i = Some s \<longrightarrow> (\<exists>s'. map_of (m_summaries n) i = Some s' \<and> same_summary s s'))"

definition sound :: "bool \<Rightarrow> mgr \<Rightarrow> mgr \<Rightarrow> bool" where
  "sound b g g' \<longleftrightarrow> (base g \<longrightarrow> base g' \<and> extends (g_working g) (g_working g') \<and> (b \<and> indexed_ok g \<longrightarrow> indexed_ok g'))"

lemma same_fact_refl [simp]: "same_fact f f"
  by (simp add: same_fact_def)

lemma same_fact_trans: "same_fact f g \<Longrightarrow> same_fact g h \<Longrightarrow> same_fact f h"
  by (simp add: same_fact_def)

lemma same_summary_refl [simp]: "same_summary s s"
  by (simp add: same_summary_def)

lemma same_summary_trans: "same_summary s t \<Longrightarrow> same_summary t u \<Longrightarrow> same_summary s u"
  by (cases s; cases t; cases u) (auto simp: same_summary_def)

lemma extends_refl [simp]: "extends m m"
  by (auto simp: extends_def)

lemma extends_trans:
  assumes "extends m n" "extends n k" shows "extends m k"
proof -
  have f: "\<exists>f'. map_of (m_facts k) i = Some f' \<and> same_fact f f'" if "map_of (m_facts m) i = Some f" for i f
    using assms that by (meson extends_def same_fact_trans)
  have s: "\<exists>s'. map_of (m_summaries k) i = Some s' \<and> same_summary s s'" if "map_of (m_summaries m) i = Some s" for i s
    using assms that by (meson extends_def same_summary_trans)
  from assms have "\<exists>ops. m_operations k = m_operations m @ ops" by (auto simp: extends_def)
  with f s assms show ?thesis by (simp add: extends_def)
qed

lemma sound_refl [simp]: "sound b g g"
  by (simp add: sound_def)

lemma sound_trans: "sound b g h \<Longrightarrow> sound b h k \<Longrightarrow> sound b g k"
  by (auto simp: sound_def intro: extends_trans)

lemma sound_weaken: "sound True g h \<Longrightarrow> sound b g h"
  by (auto simp: sound_def)

lemma sound_foldl: "(\<And>g x. x \<in> set xs \<Longrightarrow> sound b g (step g x)) \<Longrightarrow> sound b g (foldl step g xs)"
proof (induction xs arbitrary: g)
  case (Cons x xs)
  then have "sound b g (step g x)" "sound b (step g x) (foldl step (step g x) xs)" by simp_all
  then show ?case by (simp add: sound_trans [of b g "step g x"])
qed simp

text \<open>Steps that touch no table.\<close>

lemma sound_frame:
  assumes "m_facts (g_working g') = m_facts (g_working g)" "m_references (g_working g') = m_references (g_working g)"
    "m_summaries (g_working g') = m_summaries (g_working g)" "g_indexes g' = g_indexes g"
    "m_last_fact_index (g_working g) \<le> m_last_fact_index (g_working g')"
    "\<exists>ops. m_operations (g_working g') = m_operations (g_working g) @ ops"
  shows "sound b g g'"
  using assms
  by (auto simp: sound_def base_def manifest_wf_def extends_def indexed_ok_def idx_ok_def fact_idx_ok_def deps_ok_def)

lemma sound_log_op: "sound b g (log_op t d g)"
  using log_op_ops [of t d g] by (intro sound_frame) auto

lemma sound_now: "now_iso g = (t, g') \<Longrightarrow> sound b g g'"
  by (rule sound_frame) (simp_all add: now_iso_frame)


section \<open>Lemmas: one row of a table\<close>

lemma by_field_new:
  "map_of t i = None \<Longrightarrow> map_of t' = (map_of t)(i \<mapsto> x) \<Longrightarrow>
   by_field h t' k = (if h x = k then insert i (by_field h t k) else by_field h t k)"
  by (auto simp: by_field_def)

lemma by_field_upd:
  "map_of t i = Some y \<Longrightarrow> map_of t' = (map_of t)(i \<mapsto> x) \<Longrightarrow> h x = h y \<Longrightarrow> by_field h t' = by_field h t"
  by (auto simp: by_field_def fun_eq_iff)

lemma in_state_upd:
  "map_of t' = (map_of t)(i \<mapsto> x) \<Longrightarrow> in_state st t' = (in_state st t - {i}) \<union> (if f_state x = st then {i} else {})"
  by (auto simp: in_state_def)

lemma in_state_absent: "map_of t i = None \<Longrightarrow> i \<notin> in_state st t"
  by (simp add: in_state_def)

lemma update_indexes_eq: "update_indexes_for_fact f ix = index_fact ix f"
  by (simp add: update_indexes_for_fact_def index_fact_def Let_def)

lemma fact_idx_new:
  assumes "fact_idx_ok m ix" "map_of (m_facts m) (f_id f) = None" "map_of (m_facts m') = (map_of (m_facts m))(f_id f \<mapsto> f)"
  shows "fact_idx_ok m' (index_fact ix f)"
  using assms in_state_absent [OF assms(2)]
  by (auto simp: fact_idx_ok_def fun_eq_iff sx.members_add by_field_new [OF assms(2,3)] in_state_upd [OF assms(3)] js_simps
      split: if_splits)

lemma keys_idx_new: "keys_idx_ok ix \<Longrightarrow> keys_idx_ok (index_fact ix f)"
  by (simp add: keys_idx_ok_def keys_ok_add_to_set_map distinct_set_add)

lemma transition_indexes_simps [simp]:
  "facts_by_type (transition_indexes i a b ix) = facts_by_type ix"
  "facts_by_identity_key (transition_indexes i a b ix) = facts_by_identity_key ix"
  "facts_by_source (transition_indexes i a b ix) = facts_by_source ix"
  "refs_by_source (transition_indexes i a b ix) = refs_by_source ix"
  "summary_deps (transition_indexes i a b ix) = summary_deps ix"
  "set (active_facts (transition_indexes i a b ix)) =
     (set (active_facts ix) - (if a = Active then {i} else {})) \<union> (if b = Active then {i} else {})"
  "set (conflicted_facts (transition_indexes i a b ix)) =
     (set (conflicted_facts ix) - (if a = Conflicted then {i} else {})) \<union> (if b = Conflicted then {i} else {})"
  "keys_idx_ok ix \<Longrightarrow> keys_idx_ok (transition_indexes i a b ix)"
  by (auto simp: transition_indexes_def Let_def js_simps keys_idx_ok_def distinct_set_add distinct_set_del)

lemma fact_idx_upd:
  assumes "fact_idx_ok m ix" "map_of (m_facts m) i = Some f" "map_of (m_facts m') = (map_of (m_facts m))(i \<mapsto> f')"
    "same_fact f f'"
  shows "fact_idx_ok m' (transition_indexes i (f_state f) (f_state f') ix)"
proof -
  have "i \<in> in_state st (m_facts m) \<longleftrightarrow> f_state f = st" for st using assms(2) by (simp add: in_state_def)
  with assms show ?thesis
    by (auto simp: fact_idx_ok_def in_state_upd [OF assms(3)] by_field_upd [OF assms(2,3)] same_fact_def)
qed

lemma fact_idx_same:
  assumes "fact_idx_ok m ix" "map_of (m_facts m) i = Some f" "map_of (m_facts m') = (map_of (m_facts m))(i \<mapsto> f')"
    "same_fact f f'" "f_state f' = f_state f"
  shows "fact_idx_ok m' ix"
proof -
  have "in_state st (m_facts m') = in_state st (m_facts m)" for st
    using assms(2,5) unfolding in_state_upd [OF assms(3)] by (auto simp: in_state_def)
  with assms show ?thesis
    by (auto simp: fact_idx_ok_def by_field_upd [OF assms(2,3)] same_fact_def)
qed

lemma idx_ok_facts:
  "idx_ok m ix \<Longrightarrow> fact_idx_ok m' ix' \<Longrightarrow> keys_idx_ok ix' \<Longrightarrow> refs_by_source ix' = refs_by_source ix \<Longrightarrow>
   summary_deps ix' = summary_deps ix \<Longrightarrow> m_references m' = m_references m \<Longrightarrow> m_summaries m' = m_summaries m \<Longrightarrow>
   idx_ok m' ix'"
  by (simp add: idx_ok_def deps_ok_def)

lemma table_ok_set:
  "table_ok idf t \<Longrightarrow> idf x = i \<Longrightarrow> i \<noteq> proto_key \<Longrightarrow> table_ok idf (obj_set i x t)"
  by (auto simp: table_ok_def keys_ok_obj_set map_of_obj_set)

lemma table_ok_key: "table_ok idf t \<Longrightarrow> map_of t i = Some x \<Longrightarrow> idf x = i \<and> i \<noteq> proto_key"
  by (simp add: table_ok_def)

text \<open>Replacing a row by one of the same fact.\<close>

lemma sound_upd_fact:
  assumes g: "get_fact i g = Some f" and "same_fact f f'"
    and "m_facts (g_working g') = obj_set i f' (m_facts (g_working g))"
    and "m_references (g_working g') = m_references (g_working g)" "m_summaries (g_working g') = m_summaries (g_working g)"
    "m_operations (g_working g') = m_operations (g_working g)" "m_last_fact_index (g_working g') = m_last_fact_index (g_working g)"
    "g_env g' = g_env g"
    and "b \<Longrightarrow> g_indexes g' = transition_indexes i (f_state f) (f_state f') (g_indexes g) \<or>
         g_indexes g' = g_indexes g \<and> f_state f' = f_state f"
  shows "sound b g g'"
  unfolding sound_def
proof (intro impI conjI)
  assume b: "base g"
  then have i: "f_id f = i" "i \<noteq> proto_key"
    using g table_ok_key [of f_id "m_facts (g_working g)" i f] by (auto simp: base_def manifest_wf_def get_fact_def)
  note m = map_of_obj_set [OF i(2), of f' "m_facts (g_working g)", folded assms(3)]
  show "base g'"
    using b assms i by (auto simp: base_def manifest_wf_def table_ok_set same_fact_def get_fact_def)
  show "extends (g_working g) (g_working g')"
    using assms i by (auto simp: extends_def map_of_obj_set get_fact_def)
  assume x: "b \<and> indexed_ok g"
  then have "fact_idx_ok (g_working g') (g_indexes g')"
    using assms fact_idx_upd [OF _ _ m assms(2)] fact_idx_same [OF _ _ m assms(2)] g
    by (auto simp: indexed_ok_def idx_ok_def get_fact_def)
  moreover have "keys_idx_ok (g_indexes g')" using x assms(9) by (auto simp: indexed_ok_def idx_ok_def)
  ultimately show "indexed_ok g'"
    using x assms unfolding indexed_ok_def by (elim conjE idx_ok_facts) auto
qed

lemma sound_put_fact:
  "get_fact i g = Some f \<Longrightarrow> same_fact f f' \<Longrightarrow> (b \<Longrightarrow> f_state f' = f_state f) \<Longrightarrow> sound b g (put_fact i f' g)"
  by (rule sound_upd_fact) auto

lemma sound_transition: "sound b g (transition_fact i st now g)"
proof (cases "get_fact i g")
  case (Some f)
  show ?thesis
    by (rule sound_upd_fact [OF Some, of "moved st now f"]) (simp_all add: transition_fact_def Some moved_def same_fact_def)
qed (simp add: transition_fact_def)

lemma base_fact_id: "base g \<Longrightarrow> get_fact i g = Some f \<Longrightarrow> f_id f = i \<and> i \<noteq> proto_key"
  using table_ok_key [of f_id "m_facts (g_working g)" i f] by (simp add: base_def manifest_wf_def get_fact_def)

lemma sound_baseI: "(base g \<Longrightarrow> sound b g g') \<Longrightarrow> sound b g g'"
  by (auto simp: sound_def)

lemma sound_converge: "sound b g (snd (converge_into i src now g))"
proof (rule sound_baseI, cases "get_fact i g")
  case (Some f)
  assume "base g"
  with Some have "f_id f = i" by (simp add: base_fact_id)
  with Some show ?thesis
    by (simp add: converge_into_def Let_def sound_put_fact [OF Some] same_fact_def)
qed (simp add: converge_into_def)


text \<open>Summaries: staleness, retirement, and new rows.\<close>

lemma deps_upd_summary:
  assumes "deps_ok m ix" "map_of (m_summaries m) sid = Some s" "map_of (m_summaries m') = (map_of (m_summaries m))(sid \<mapsto> s')"
    "s_source_fact_ids s' = s_source_fact_ids s" "s_state s' = SActive \<longrightarrow> s_state s = SActive"
  shows "deps_ok m' ix"
  using assms by (fastforce simp: deps_ok_def)

lemma sound_upd_summary:
  assumes g: "get_summary i g = Some s" and "same_summary s s'"
    and "m_summaries (g_working g') = obj_set i s' (m_summaries (g_working g))"
    and "m_references (g_working g') = m_references (g_working g)" "m_facts (g_working g') = m_facts (g_working g)"
    "m_operations (g_working g') = m_operations (g_working g)" "m_last_fact_index (g_working g') = m_last_fact_index (g_working g)"
    "g_env g' = g_env g" "g_indexes g' = g_indexes g"
  shows "sound b g g'"
  unfolding sound_def
proof (intro impI conjI)
  have s': "s_id s' = s_id s" "s_source_fact_ids s' = s_source_fact_ids s" "s_state s' = SActive \<longrightarrow> s_state s = SActive"
    using assms(2) by (cases s; cases s'; auto simp: same_summary_def)+
  assume b: "base g"
  then have i: "s_id s = i" "i \<noteq> proto_key"
    using g table_ok_key [of s_id "m_summaries (g_working g)" i s] by (auto simp: base_def manifest_wf_def get_summary_def)
  note m = map_of_obj_set [OF i(2), of s' "m_summaries (g_working g)", folded assms(3)]
  show "base g'"
    using b assms i by (auto simp: base_def manifest_wf_def table_ok_set s' get_summary_def)
  show "extends (g_working g) (g_working g')"
    using assms i by (auto simp: extends_def map_of_obj_set get_summary_def)
  assume x: "b \<and> indexed_ok g"
  then have "deps_ok (g_working g') (g_indexes g')"
    using deps_upd_summary [OF _ _ m s'(2,3)] g assms(9) by (auto simp: indexed_ok_def idx_ok_def get_summary_def)
  with x assms show "indexed_ok g'" by (simp add: indexed_ok_def idx_ok_def fact_idx_ok_def)
qed

lemma sound_stale_one: "sound b g (stale_one i g sid)"
proof (cases "get_summary sid g")
  case (Some s)
  have "sound b g (put_summary sid (s\<lparr>s_stale := True\<rparr>) g)"
    by (rule sound_upd_summary [OF Some]) (simp_all add: same_summary_def)
  with Some show ?thesis by (auto simp: stale_one_def get_summary_def intro: sound_trans sound_log_op)
qed (simp add: stale_one_def get_summary_def)

lemma sound_propagate: "sound b g (propagate_staleness i g)"
  unfolding propagate_staleness_def by (rule sound_foldl) (rule sound_stale_one)

text \<open>New rows under a drawn identifier.\<close>

lemma draw_id_eq:
  "draw_id pre g = (js pre @ drawn (g_env g) (w_draw (g_env g)), g\<lparr>g_env := (g_env g)\<lparr>w_draw := Suc (w_draw (g_env g))\<rparr>\<rparr>)"
  by (simp add: draw_id_def short_id_def drawn_def)

lemma drawn_not_proto [simp]:
  "js ''FACT_'' @ x \<noteq> proto_key" "js ''REF_'' @ x \<noteq> proto_key" "js ''SUM_'' @ x \<noteq> proto_key"
  "proto_key \<noteq> js ''FACT_'' @ x"
  by (auto simp: proto_key_def js_def)

lemma drawn_id_not_proto [simp]:
  "next_fact_id g \<noteq> proto_key" "next_ref_id g \<noteq> proto_key" "next_summary_id g \<noteq> proto_key"
  "proto_key \<noteq> next_fact_id g"
  by (simp_all add: next_fact_id_def next_ref_id_def next_summary_id_def)

lemma sound_new_fact:
  assumes i: "map_of (m_facts (g_working g)) (f_id f) = None" "f_id f \<noteq> proto_key"
    and m: "m_facts (g_working g') = obj_set (f_id f) f (m_facts (g_working g))"
    "m_references (g_working g') = m_references (g_working g)" "m_summaries (g_working g') = m_summaries (g_working g)"
    "m_operations (g_working g') = m_operations (g_working g)"
    "m_last_fact_index (g_working g) \<le> m_last_fact_index (g_working g')"
    and ix: "g_indexes g' = index_fact (g_indexes g) f"
  shows "sound b g g'"
  unfolding sound_def
proof (intro impI conjI)
  assume b: "base g"
  note none = i(1) and p = i(2)
  note t = map_of_obj_set [OF p, of f "m_facts (g_working g)", folded m(1)]
  show "base g'"
    using b p by (simp add: base_def manifest_wf_def table_ok_set m)
  show "extends (g_working g) (g_working g')"
    using none by (auto simp: extends_def t m(2-))
  assume x: "b \<and> indexed_ok g"
  then have "fact_idx_ok (g_working g') (g_indexes g')" "keys_idx_ok (g_indexes g')"
    using fact_idx_new [OF _ none t] by (auto simp: indexed_ok_def idx_ok_def ix keys_idx_new)
  with x show "indexed_ok g'"
    unfolding indexed_ok_def by (elim conjE idx_ok_facts) (simp_all add: ix m)
qed

lemma build_insert:
  assumes "build_fact input k h st sp now g = (f, g')"
  shows "f_id f = next_fact_id g" "f_state f = st" "f_hash f = h"
    "f_identity_key f = k" "f_confidence f = i_confidence input" "f_source f = i_source input"
    "f_type f = i_type input" "f_value f = i_value input" "f_discovery_index f = m_last_fact_index (g_working g) + 1"
    "f_created_at f = now" "f_supersedes f = sp"
    "g' = g\<lparr>g_env := (g_env g)\<lparr>w_draw := Suc (w_draw (g_env g))\<rparr>,
            g_working := (g_working g)\<lparr>m_last_fact_index := m_last_fact_index (g_working g) + 1\<rparr>\<rparr>"
  using assms by (auto simp: build_fact_def draw_id_eq next_discovery_index_def Let_def next_fact_id_def)

lemma sound_build_insert:
  assumes "build_fact input k h st sp now g = (f, g')" "map_of (m_facts (g_working g)) (next_fact_id g) = None"
  shows "sound b g (insert_fact f g')"
  by (rule sound_new_fact [of _ f])
    (simp_all add: build_insert [OF assms(1)] insert_fact_def update_indexes_eq Let_def assms(2))


lemma store_artifact_frame:
  assumes "store_artifact p i c w = (r, w')"
  shows "w_uuid w' = w_uuid w" "w_draw w' = w_draw w" "w_sha w' = w_sha w" "w_registry w' = w_registry w"
  using assms
  by (auto simp: store_artifact_def Let_def split: prod.splits option.splits dest!: try_io_effect)

lemma bucket_add_dep: "bucket (summary_deps (foldl (add_dep sid) ix fids)) i =
    bucket (summary_deps ix) i \<union> (if i \<in> set fids then {sid} else {})"
  by (induction fids arbitrary: ix) (auto simp: add_dep_def sx.members_add)

lemma fold_add_dep_frame [simp]:
  "facts_by_type (foldl (add_dep sid) ix fids) = facts_by_type ix"
  "facts_by_identity_key (foldl (add_dep sid) ix fids) = facts_by_identity_key ix"
  "facts_by_source (foldl (add_dep sid) ix fids) = facts_by_source ix"
  "refs_by_source (foldl (add_dep sid) ix fids) = refs_by_source ix"
  "active_facts (foldl (add_dep sid) ix fids) = active_facts ix"
  "conflicted_facts (foldl (add_dep sid) ix fids) = conflicted_facts ix"
  "keys_idx_ok ix \<Longrightarrow> keys_idx_ok (foldl (add_dep sid) ix fids)"
  by (induction fids arbitrary: ix) (simp_all add: add_dep_def keys_idx_ok_def keys_ok_add_to_set_map)

lemma bucket_drop_dep: "bucket (summary_deps (foldl (drop_dep sid) ix fids)) i =
    bucket (summary_deps ix) i - (if i \<in> set fids then {sid} else {})"
proof (induction fids arbitrary: ix)
  case (Cons j fids)
  have "bucket (summary_deps (drop_dep sid ix j)) i = bucket (summary_deps ix) i - (if i = j then {sid} else {})"
    by (auto simp: drop_dep_def bucket_def js_simps split: option.splits)
  with Cons show ?case by auto
qed simp

lemma fold_drop_dep_frame [simp]:
  "facts_by_type (foldl (drop_dep sid) ix fids) = facts_by_type ix"
  "facts_by_identity_key (foldl (drop_dep sid) ix fids) = facts_by_identity_key ix"
  "facts_by_source (foldl (drop_dep sid) ix fids) = facts_by_source ix"
  "refs_by_source (foldl (drop_dep sid) ix fids) = refs_by_source ix"
  "active_facts (foldl (drop_dep sid) ix fids) = active_facts ix"
  "conflicted_facts (foldl (drop_dep sid) ix fids) = conflicted_facts ix"
  "keys_idx_ok ix \<Longrightarrow> keys_idx_ok (foldl (drop_dep sid) ix fids)"
  by (induction fids arbitrary: ix) (simp_all add: drop_dep_def keys_idx_ok_def js_intros split: option.splits)

lemma deps_mem:
  "deps_ok m ix \<Longrightarrow> sid \<in> bucket (summary_deps ix) i \<Longrightarrow> \<exists>s. map_of (m_summaries m) sid = Some s \<and> i \<in> set (s_source_fact_ids s)"
  by (simp add: deps_ok_def)

lemma deps_retire:
  assumes d: "deps_ok m ix" and s: "map_of (m_summaries m) sid = Some s"
    and m': "map_of (m_summaries m') = (map_of (m_summaries m))(sid \<mapsto> s')" "s_state s' \<noteq> SActive"
    "s_source_fact_ids s' = s_source_fact_ids s"
    and ix': "\<And>i. bucket (summary_deps ix') i = bucket (summary_deps ix) i - (if i \<in> set (s_source_fact_ids s) then {sid} else {})"
  shows "deps_ok m' ix'"
  unfolding deps_ok_def
proof (intro conjI allI impI)
  fix t x i
  assume h: "map_of (m_summaries m') t = Some x" "s_state x = SActive" "i \<in> set (s_source_fact_ids x)"
  with m' have "t \<noteq> sid" by auto
  with h d m' show "t \<in> bucket (summary_deps ix') i" by (simp add: deps_ok_def ix')
next
  fix t i
  assume "t \<in> bucket (summary_deps ix') i"
  then have "t \<in> bucket (summary_deps ix) i" by (simp add: ix')
  from deps_mem [OF d this] s m'(1,3) show "\<exists>x. map_of (m_summaries m') t = Some x \<and> i \<in> set (s_source_fact_ids x)"
    by auto
qed

lemma deps_new:
  assumes d: "deps_ok m ix" and s: "map_of (m_summaries m) sid = None"
    and m': "map_of (m_summaries m') = (map_of (m_summaries m))(sid \<mapsto> s')"
    and ix': "\<And>i. bucket (summary_deps ix') i = bucket (summary_deps ix) i \<union> (if i \<in> set (s_source_fact_ids s') then {sid} else {})"
  shows "deps_ok m' ix'"
  unfolding deps_ok_def
proof (intro conjI allI impI)
  fix t x i
  assume "map_of (m_summaries m') t = Some x" "s_state x = SActive" "i \<in> set (s_source_fact_ids x)"
  with d m' show "t \<in> bucket (summary_deps ix') i" by (auto simp: deps_ok_def ix' split: if_splits)
next
  fix t i
  assume "t \<in> bucket (summary_deps ix') i"
  then consider "t \<in> bucket (summary_deps ix) i" | "t = sid" "i \<in> set (s_source_fact_ids s')"
    by (auto simp: ix' split: if_splits)
  then show "\<exists>x. map_of (m_summaries m') t = Some x \<and> i \<in> set (s_source_fact_ids x)"
  proof cases
    case 1
    from deps_mem [OF d 1] s m' show ?thesis by auto
  qed (simp add: m')
qed

lemma sound_retire:
  assumes "base g" "get_summary sid g = Some s" "s_state s = SActive"
  shows "sound b g (retire_summary s r g)"
proof -
  have i: "s_id s = sid" "sid \<noteq> proto_key"
    using assms table_ok_key [of s_id "m_summaries (g_working g)" sid s] by (auto simp: base_def manifest_wf_def get_summary_def)
  let ?g1 = "put_summary sid (s\<lparr>s_state := SSuperseded\<rparr>) g"
  let ?g2 = "?g1\<lparr>g_indexes := foldl (drop_dep sid) (g_indexes g) (s_source_fact_ids s)\<rparr>"
  have 1: "sound False g ?g1"
    using assms(3) by (intro sound_upd_summary [OF assms(2)]) (simp_all add: same_summary_def)
  have "indexed_ok ?g2" if "indexed_ok g"
    using that assms(2) i(2)
      deps_retire [of "g_working g" "g_indexes g" sid s "g_working ?g2" "s\<lparr>s_state := SSuperseded\<rparr>" "g_indexes ?g2"]
    by (simp add: indexed_ok_def idx_ok_def fact_idx_ok_def bucket_drop_dep get_summary_def map_of_obj_set)
  with 1 have "sound b g ?g2" by (simp add: sound_def base_def extends_def)
  with i show ?thesis by (auto simp: retire_summary_def intro: sound_trans sound_log_op)
qed

lemma sound_new_summary:
  assumes i: "map_of (m_summaries (g_working g)) (s_id s) = None" "s_id s \<noteq> proto_key"
    and m: "m_summaries (g_working g') = obj_set (s_id s) s (m_summaries (g_working g))"
    "m_references (g_working g') = m_references (g_working g)" "m_facts (g_working g') = m_facts (g_working g)"
    "m_operations (g_working g') = m_operations (g_working g)"
    "m_last_fact_index (g_working g') = m_last_fact_index (g_working g)"
    and ix: "g_indexes g' = foldl (add_dep (s_id s)) (g_indexes g) (s_source_fact_ids s)"
  shows "sound b g g'"
  unfolding sound_def
proof (intro impI conjI)
  assume b: "base g"
  note t = map_of_obj_set [OF i(2), of s "m_summaries (g_working g)", folded m(1)]
  show "base g'"
    using b i(2) by (simp add: base_def manifest_wf_def table_ok_set m)
  show "extends (g_working g) (g_working g')"
    using i(1) by (auto simp: extends_def t m(2-))
  assume x: "b \<and> indexed_ok g"
  then have "deps_ok (g_working g') (g_indexes g')"
    by (intro deps_new [OF _ i(1) t]) (simp_all add: indexed_ok_def idx_ok_def ix bucket_add_dep)
  with x show "indexed_ok g'"
    by (simp add: indexed_ok_def idx_ok_def fact_idx_ok_def ix m(2-))
qed

lemma sound_new_reference:
  assumes i: "map_of (m_references (g_working g)) (r_id r) = None" "r_id r \<noteq> proto_key"
    and m: "m_references (g_working g') = obj_set (r_id r) r (m_references (g_working g))"
    "m_summaries (g_working g') = m_summaries (g_working g)" "m_facts (g_working g') = m_facts (g_working g)"
    "m_operations (g_working g') = m_operations (g_working g)"
    "m_last_fact_index (g_working g') = m_last_fact_index (g_working g)"
    and ix: "g_indexes g' = (g_indexes g)\<lparr>refs_by_source := add_to_set_map (refs_by_source (g_indexes g)) (r_source r) (r_id r)\<rparr>"
  shows "sound b g g'"
  unfolding sound_def
proof (intro impI conjI)
  assume b: "base g"
  note none = i(1) and p = i(2)
  note t = map_of_obj_set [OF p, of r "m_references (g_working g)", folded m(1)]
  show "base g'"
    using b p by (simp add: base_def manifest_wf_def table_ok_set m)
  show "extends (g_working g) (g_working g')"
    using none by (auto simp: extends_def t m(2-))
  assume x: "b \<and> indexed_ok g"
  then show "indexed_ok g'"
    by (simp add: indexed_ok_def idx_ok_def fact_idx_ok_def deps_ok_def keys_idx_ok_def ix m(2-) fun_eq_iff
        sx.members_add by_field_new [OF none t] keys_ok_add_to_set_map)
qed


section \<open>Every method is sound\<close>

lemma stale_one_frame [simp]:
  "m_facts (g_working (stale_one i g sid)) = m_facts (g_working g)"
  "m_references (g_working (stale_one i g sid)) = m_references (g_working g)"
  "g_indexes (stale_one i g sid) = g_indexes g" "g_dirty (stale_one i g sid) = g_dirty g"
  "m_last_fact_index (g_working (stale_one i g sid)) = m_last_fact_index (g_working g)"
  "m_revision (g_working (stale_one i g sid)) = m_revision (g_working g)"
  "w_uuid (g_env (stale_one i g sid)) = w_uuid (g_env g)" "w_draw (g_env (stale_one i g sid)) = w_draw (g_env g)"
  "w_sha (g_env (stale_one i g sid)) = w_sha (g_env g)" "w_registry (g_env (stale_one i g sid)) = w_registry (g_env g)"
  by (simp_all add: stale_one_def put_summary_def split: option.splits)

lemma propagate_frame [simp]:
  "m_facts (g_working (propagate_staleness i g)) = m_facts (g_working g)"
  "m_references (g_working (propagate_staleness i g)) = m_references (g_working g)"
  "g_indexes (propagate_staleness i g) = g_indexes g" "g_dirty (propagate_staleness i g) = g_dirty g"
  "m_last_fact_index (g_working (propagate_staleness i g)) = m_last_fact_index (g_working g)"
  "m_revision (g_working (propagate_staleness i g)) = m_revision (g_working g)"
  "w_uuid (g_env (propagate_staleness i g)) = w_uuid (g_env g)" "w_draw (g_env (propagate_staleness i g)) = w_draw (g_env g)"
  "w_sha (g_env (propagate_staleness i g)) = w_sha (g_env g)" "w_registry (g_env (propagate_staleness i g)) = w_registry (g_env g)"
proof -
  let ?P = "\<lambda>g'. m_facts (g_working g') = m_facts (g_working g) \<and> m_references (g_working g') = m_references (g_working g) \<and>
    g_indexes g' = g_indexes g \<and> g_dirty g' = g_dirty g \<and> m_last_fact_index (g_working g') = m_last_fact_index (g_working g) \<and>
    m_revision (g_working g') = m_revision (g_working g) \<and> w_uuid (g_env g') = w_uuid (g_env g) \<and>
    w_draw (g_env g') = w_draw (g_env g) \<and> w_sha (g_env g') = w_sha (g_env g) \<and> w_registry (g_env g') = w_registry (g_env g)"
  have "?P (foldl (stale_one i) h xs)" if "?P h" for h xs
    using that by (induction xs arbitrary: h) simp_all
  then have "?P (propagate_staleness i g)" by (simp add: propagate_staleness_def)
  then show "m_facts (g_working (propagate_staleness i g)) = m_facts (g_working g)"
    "m_references (g_working (propagate_staleness i g)) = m_references (g_working g)"
    "g_indexes (propagate_staleness i g) = g_indexes g" "g_dirty (propagate_staleness i g) = g_dirty g"
    "m_last_fact_index (g_working (propagate_staleness i g)) = m_last_fact_index (g_working g)"
    "m_revision (g_working (propagate_staleness i g)) = m_revision (g_working g)"
    "w_uuid (g_env (propagate_staleness i g)) = w_uuid (g_env g)" "w_draw (g_env (propagate_staleness i g)) = w_draw (g_env g)"
    "w_sha (g_env (propagate_staleness i g)) = w_sha (g_env g)" "w_registry (g_env (propagate_staleness i g)) = w_registry (g_env g)"
    by blast+
qed

lemma conflict_readd:
  assumes "f_state f = Conflicted"
  shows "f_id f \<in> set (conflicted_facts (g_indexes (propagate_staleness e (transition_fact e Conflicted now (insert_fact f g)))))"
  using assms
  by (auto simp: transition_fact_def insert_fact_def update_indexes_eq Let_def js_simps split: option.splits)

lemma set_add_present: "x \<in> set s \<Longrightarrow> set_add x s = s"
  by (simp add: set_add_def)

lemma sound_after:
  "sound b g h \<Longrightarrow> sound b g (log_op t d h)" "sound b g h \<Longrightarrow> sound b g (propagate_staleness i h)"
  "sound b g h \<Longrightarrow> sound b g (transition_fact i st now h)" "sound b g h \<Longrightarrow> sound b g (snd (converge_into i src now h))"
  by (blast intro: sound_trans sound_log_op sound_propagate sound_transition sound_converge)+

text \<open>The decision of \<open>addFact\<close>, and the method by decision.\<close>

definition input_key :: "add_fact_input \<Rightarrow> mgr \<Rightarrow> jstring" where
  "input_key input g = derive_identity_key (w_sha (g_env g)) (w_registry (g_env g)) (i_type input) (i_value input)"

definition input_hash :: "add_fact_input \<Rightarrow> mgr \<Rightarrow> jstring" where
  "input_hash input g = derive_fact_hash (w_sha (g_env g)) (i_type input) (i_value input)"

definition decide :: "add_fact_input \<Rightarrow> mgr \<Rightarrow> decision" where
  "decide input g = arbitrate CONFIDENCE_SUPERIORITY_THRESHOLD
     \<lparr>c_fact_hash = input_hash input g, c_identity_key = input_key input g, c_confidence = i_confidence input,
      c_source = i_source input\<rparr> (g_working g) (g_indexes g)"

text \<open>The state after the step that the decision picks, before the operation is logged.\<close>

definition after_insert :: "decision \<Rightarrow> fact \<Rightarrow> add_fact_input \<Rightarrow> jstring \<Rightarrow> mgr \<Rightarrow> mgr" where
  "after_insert d f input now g =
     (case d of
        Dec_supersede e r \<Rightarrow> propagate_staleness e (transition_fact e Superseded now (insert_fact f g))
      | Dec_reject e r \<Rightarrow> snd (converge_into e (i_source input) now (insert_fact f g))
      | Dec_conflict e r \<Rightarrow> propagate_staleness e (transition_fact e Conflicted now (insert_fact f g))
      | _ \<Rightarrow> insert_fact f g)"

lemma add_fact_insert:
  assumes "dec_outcome (decide input g) \<noteq> Converge" "now_iso g = (now, g1)"
    "build_fact input (input_key input g) (input_hash input g)
       (incoming_state_for_outcome (dec_outcome (decide input g))) None now g1 = (f, g2)"
  shows "\<exists>t md. add_fact input g =
     (\<lparr>ar_outcome = dec_outcome (decide input g), ar_fact_id = f_id f, ar_decision = decide input g\<rparr>,
      log_op t md (after_insert (decide input g) f input now g2))"
proof (cases "decide input g")
  case (Dec_conflict e r)
  have "f_state f = Conflicted" using build_insert(2) [OF assms(3)] Dec_conflict by simp
  note r = set_add_present [OF conflict_readd [OF this], of e now g2]
  have "propagate_staleness e (transition_fact e Conflicted now (insert_fact f g2))
      \<lparr>g_indexes := g_indexes (propagate_staleness e (transition_fact e Conflicted now (insert_fact f g2)))
        \<lparr>conflicted_facts := set_add (f_id f) (conflicted_facts (g_indexes (propagate_staleness e (transition_fact e Conflicted now (insert_fact f g2)))))\<rparr>\<rparr>
      = propagate_staleness e (transition_fact e Conflicted now (insert_fact f g2))"
    unfolding r by simp
  with assms Dec_conflict show ?thesis
    by (simp add: add_fact_def Let_def decide_def [symmetric] input_key_def [symmetric] input_hash_def [symmetric] after_insert_def
        del: propagate_frame) blast
qed (use assms in \<open>auto simp: add_fact_def Let_def decide_def [symmetric] input_key_def [symmetric]
      input_hash_def [symmetric] after_insert_def\<close>)

lemma add_fact_converge:
  assumes "decide input g = Dec_converge e r" "now_iso g = (now, g1)"
  shows "get_fact e g1 = Some x \<Longrightarrow> \<exists>md. add_fact input g =
      (\<lparr>ar_outcome = Converge, ar_fact_id = f_id x, ar_decision = decide input g\<rparr>,
       log_op Fact_observation_updated md (put_fact (f_id x) (with_updates x (apply_convergence x (i_source input) now)) g1))"
    "get_fact e g1 = None \<Longrightarrow> add_fact input g =
      (\<lparr>ar_outcome = Converge, ar_fact_id = e, ar_decision = decide input g\<rparr>, g1)"
  using assms
  by (auto simp: add_fact_def Let_def decide_def [symmetric] input_key_def [symmetric] input_hash_def [symmetric]
      converge_into_def)

lemma next_fact_id_now: "now_iso g = (now, g') \<Longrightarrow> next_fact_id g' = next_fact_id g"
  by (simp add: next_fact_id_def drawn_def now_iso_frame)

lemma sound_add_fact:
  assumes fr: "fresh_next g"
  shows "sound b g (snd (add_fact input g))"
proof -
  obtain now g1 where n: "now_iso g = (now, g1)" by force
  note n' = sound_now [OF n]
  show ?thesis
  proof (cases "dec_outcome (decide input g) = Converge")
    case True
    then obtain e r where d: "decide input g = Dec_converge e r" by (cases "decide input g") auto
    show ?thesis
    proof (cases "get_fact e g1")
      case None
      with add_fact_converge(2) [OF d n None] n' show ?thesis by simp
    next
      case (Some x)
      have "snd (converge_into e (i_source input) now g1) = put_fact (f_id x) (with_updates x (apply_convergence x (i_source input) now)) g1"
        by (simp add: converge_into_def Some Let_def)
      with sound_converge [of b g1 e "i_source input" now] n'
      have "sound b g (put_fact (f_id x) (with_updates x (apply_convergence x (i_source input) now)) g1)"
        by (metis sound_trans)
      with add_fact_converge(1) [OF d n Some] show ?thesis by (auto intro: sound_after)
    qed
  next
    case False
    obtain f g2 where bf: "build_fact input (input_key input g) (input_hash input g)
        (incoming_state_for_outcome (dec_outcome (decide input g))) None now g1 = (f, g2)" by force
    have "map_of (m_facts (g_working g1)) (next_fact_id g1) = None"
      using fr by (simp add: fresh_next_def next_fact_id_now [OF n] now_iso_frame [OF n])
    then have "sound b g (insert_fact f g2)" by (rule sound_trans [OF n' sound_build_insert [OF bf]])
    then have "sound b g (after_insert (decide input g) f input now g2)"
      by (auto simp: after_insert_def split: decision.split intro: sound_after)
    with add_fact_insert [OF False n bf] show ?thesis by (auto intro: sound_after)
  qed
qed

lemma sound_dirty [simp]: "sound b g (h\<lparr>g_dirty := d\<rparr>) = sound b g h"
  by (simp add: sound_def base_def indexed_ok_def)

lemma sound_add_reference:
  assumes fr: "fresh_next g"
  shows "sound b g (snd (add_reference input g))"
proof -
  obtain i g1 where d: "draw_id ''REF_'' g = (i, g1)" by force
  then have i: "i = next_ref_id g"
    "g1 = g\<lparr>g_env := (g_env g)\<lparr>w_draw := Suc (w_draw (g_env g))\<rparr>\<rparr>" by (simp_all add: draw_id_eq next_ref_id_def)
  obtain r w where st: "store_artifact (g_persistence g1) i (ri_content input) (g_env g1) = (r, w)" by force
  note w = store_artifact_frame [OF st]
  show ?thesis
  proof (cases r)
    case (Inl e)
    have "sound b g (g1\<lparr>g_env := w\<rparr>)"
      by (rule sound_frame) (simp_all add: i w)
    with d st Inl show ?thesis by (simp add: add_reference_def)
  next
    case (Inr s)
    obtain now g2 where n: "now_iso (g1\<lparr>g_env := w\<rparr>) = (now, g2)" by force
    define ref where "ref = \<lparr>r_id = i, r_source = ri_source input, r_label = ri_label input, r_path = a_path s,
        r_content_hash = a_content_hash s, r_line_count = a_line_count s, r_byte_size = a_byte_size s, r_created_at = now,
        r_related_fact_ids = (case ri_related_fact_ids input of None \<Rightarrow> [] | Some xs \<Rightarrow> xs)\<rparr>"
    have "sound b g (g2\<lparr>g_working := (g_working g2)\<lparr>m_references := obj_set i ref (m_references (g_working g2))\<rparr>,
        g_indexes := (g_indexes g2)\<lparr>refs_by_source := add_to_set_map (refs_by_source (g_indexes g2)) (ri_source input) i\<rparr>\<rparr>)"
      by (rule sound_new_reference [of _ ref]) (use fr in \<open>simp_all add: ref_def i w now_iso_frame [OF n] fresh_next_def\<close>)
    then show ?thesis
      by (simp add: add_reference_def d st Inr n Let_def ref_def [symmetric] sound_after)
  qed
qed

lemma list_find_value:
  "List.find P (obj_values t) = Some s \<Longrightarrow> table_ok idf t \<Longrightarrow> map_of t (idf s) = Some s \<and> P s"
  by (drule list_find_mem) (simp add: in_values_iff)

lemma retire_summary_keys:
  "map_of (m_summaries (g_working g)) (s_id s) = Some s \<Longrightarrow>
   map_of (m_summaries (g_working (retire_summary s i g))) j = None \<longleftrightarrow> map_of (m_summaries (g_working g)) j = None"
  by (cases "s_id s = proto_key") (auto simp: retire_summary_def map_of_obj_set, simp_all add: obj_set_def)

lemma sound_add_summary:
  assumes fr: "fresh_next g"
  shows "sound b g (snd (add_summary input g))"
proof (rule sound_baseI)
  assume bg: "base g"
  obtain i g1 where d: "draw_id ''SUM_'' g = (i, g1)" by force
  then have i: "i = next_summary_id g"
    "g1 = g\<lparr>g_env := (g_env g)\<lparr>w_draw := Suc (w_draw (g_env g))\<rparr>\<rparr>" by (simp_all add: draw_id_eq next_summary_id_def)
  obtain now g2 where n: "now_iso g1 = (now, g2)" by force
  note f = now_iso_frame [OF n]
  have s2: "sound b g g2" by (rule sound_frame) (simp_all add: f i)
  with bg have b2: "base g2" by (simp add: sound_def)
  define clash where "clash = List.find (summary_clash input) (obj_values (m_summaries (g_working g2)))"
  have c: "map_of (m_summaries (g_working g2)) (s_id s) = Some s \<and> summary_clash input s" if "clash = Some s" for s
  proof -
    have "table_ok s_id (m_summaries (g_working g2))" using b2 by (simp add: base_def manifest_wf_def)
    from list_find_value [OF that [unfolded clash_def] this] show ?thesis .
  qed
  define g3 where "g3 = (case clash of None \<Rightarrow> g2 | Some s \<Rightarrow> retire_summary s i g2)"
  have s3: "sound b g2 g3"
    using c b2 by (auto simp: g3_def get_summary_def summary_clash_def intro: sound_retire split: option.split)
  have none: "map_of (m_summaries (g_working g3)) i = None"
    using fr c by (auto simp: g3_def retire_summary_keys f i fresh_next_def split: option.split)
  have "sound b g3 ((put_summary i (new_summary input i now) g3)
      \<lparr>g_indexes := foldl (add_dep i) (g_indexes g3) (si_source_fact_ids input)\<rparr>)"
    by (rule sound_new_summary [of _ "new_summary input i now"]) (use none in \<open>simp_all add: new_summary_def\<close>, simp add: i(1))
  with s2 s3 have "sound b g ((put_summary i (new_summary input i now) g3)
      \<lparr>g_indexes := foldl (add_dep i) (g_indexes g3) (si_source_fact_ids input)\<rparr>)"
    by (blast intro: sound_trans)
  then show "sound b g (snd (add_summary input g))"
    by (simp add: add_summary_def d n Let_def clash_def [symmetric] g3_def [symmetric] sound_after)
qed


lemma sound_force: "sound False g (force_refinement new_id target g)"
proof -
  define g1 where "g1 = (case get_fact new_id g of None \<Rightarrow> g | Some f \<Rightarrow> put_fact new_id (f\<lparr>f_state := Active\<rparr>) g)"
  have "sound False g g1"
    by (auto simp: g1_def same_fact_def intro: sound_put_fact split: option.split)
  then show ?thesis
    by (auto simp: force_refinement_def g1_def [symmetric] Let_def intro!: sound_after
        intro: sound_trans sound_now split: option.split prod.split)
qed

lemma sound_sweep: "sound b g (foldl (sweep_one k new_id now) g ids)"
  by (rule sound_foldl) (auto simp: sweep_one_def intro!: sound_after split: option.split)

text \<open>A refinement keeps the indexes unless it forces its new fact active.\<close>

definition forced :: "fact_id \<Rightarrow> add_fact_input \<Rightarrow> mgr \<Rightarrow> bool" where
  "forced target refinement g \<longleftrightarrow>
     ar_outcome (fst (add_fact (refinement\<lparr>i_derived_from := Some [target]\<rparr>) g)) \<noteq> Supersede \<and>
     ar_outcome (fst (add_fact (refinement\<lparr>i_derived_from := Some [target]\<rparr>) g)) \<noteq> New"

lemma sound_refinement:
  "fresh_next g \<Longrightarrow> b \<longrightarrow> \<not> forced target refinement g \<Longrightarrow> sound b g (snd (propose_refinement target refinement g))"
proof -
  assume fr: "fresh_next g" and nf: "b \<longrightarrow> \<not> forced target refinement g"
  obtain r g1 where a: "add_fact (refinement\<lparr>i_derived_from := Some [target]\<rparr>) g = (r, g1)" by force
  have s1: "sound b g g1" using sound_add_fact [OF fr, of b "refinement\<lparr>i_derived_from := Some [target]\<rparr>"] a by simp
  define g2 where "g2 = (if ar_outcome r \<noteq> Supersede \<and> ar_outcome r \<noteq> New then force_refinement (ar_fact_id r) target g1 else g1)"
  have "sound b g1 g2" using nf a sound_force by (cases b) (auto simp: g2_def forced_def)
  with s1 have s2: "sound b g g2" by (rule sound_trans)
  obtain now g3 where n: "now_iso g2 = (now, g3)" by force
  have "sound b g (foldl (sweep_one k (ar_fact_id r) now) g3 ids)" for k ids
    by (rule sound_trans [OF s2 sound_trans [OF sound_now [OF n] sound_sweep]])
  then show ?thesis
    by (simp add: propose_refinement_def a Let_def g2_def [symmetric] n split: option.split)
qed

lemma sound_supersede_sources: "sound b g (supersede_sources now g ids)"
  unfolding supersede_sources_def by (rule sound_foldl) (auto intro!: sound_after)

lemma sound_consolidation:
  assumes fr: "fresh_next g"
  shows "sound b g (snd (propose_consolidation ids c g))"
proof -
  obtain now g1 where n: "now_iso g = (now, g1)" by force
  obtain i g2 where d: "draw_id ''FACT_'' g1 = (i, g2)" by force
  then have i: "i = next_fact_id g1"
    "g2 = g1\<lparr>g_env := (g_env g1)\<lparr>w_draw := Suc (w_draw (g_env g1))\<rparr>\<rparr>" by (simp_all add: draw_id_eq next_fact_id_def)
  have none: "map_of (m_facts (g_working g1)) i = None"
    using fr by (simp add: i next_fact_id_now [OF n] now_iso_frame [OF n] fresh_next_def)
  obtain k g3 where x: "next_discovery_index g2 = (k, g3)" by force
  have s: "sound b g1 ((put_fact i (consolidated_fact i h ik c ids inh now k) g3)
      \<lparr>g_indexes := update_indexes_for_fact (consolidated_fact i h ik c ids inh now k) (g_indexes g3)\<rparr>)" for h ik inh
    using x none by (intro sound_new_fact [of _ "consolidated_fact i h ik c ids inh now k"])
      (auto simp: consolidated_fact_def i(1) i(2) update_indexes_eq next_discovery_index_def Let_def)
  show ?thesis
    by (auto simp: propose_consolidation_def Let_def n d x split: option.split
        intro!: sound_after sound_trans [OF sound_trans [OF sound_now [OF n] s] sound_supersede_sources])
qed

lemma sound_supersede: "sound b g (snd (supersede_fact i reason g))"
  by (auto simp: supersede_fact_def Let_def intro!: sound_after intro: sound_now split: option.split prod.split)

lemma set_del_absent: "x \<notin> set s \<Longrightarrow> set_del x s = s"
  by (auto simp: set_del_def filter_id_conv)

lemma sound_invalidate: "sound b g (snd (invalidate_fact i reason g))"
proof (cases "get_fact i g")
  case (Some f)
  obtain now g1 where n: "now_iso g = (now, g1)" by force
  define g2 where "g2 = propagate_staleness i (transition_fact i Invalidated now g1)"
  let ?g3 = "g2\<lparr>g_indexes := (g_indexes g2)\<lparr>active_facts := set_del i (active_facts (g_indexes g2)),
      conflicted_facts := set_del i (conflicted_facts (g_indexes g2))\<rparr>\<rparr>"
  have s2: "sound b g g2" unfolding g2_def by (intro sound_after sound_now [OF n])
  have "sound b g2 ?g3"
  proof (rule sound_baseI)
    assume "base g2"
    then have p: "i \<noteq> proto_key" if "get_fact i g2 = Some f'" for f' using base_fact_id that by blast
    have f1: "get_fact i g1 = Some f" using Some by (simp add: get_fact_def now_iso_frame [OF n])
    have "indexed_ok g2 \<Longrightarrow> ?g3 = g2"
    proof -
      assume x: "indexed_ok g2"
      have "i = proto_key \<or> get_fact i g2 = Some (moved Invalidated now f)"
        using f1 by (cases "i = proto_key") (simp_all add: g2_def transition_fact_def get_fact_def map_of_obj_set)
      then have "get_fact i g2 = Some (moved Invalidated now f) \<or> get_fact i g2 = None"
        using p by (cases "get_fact i g2") auto
      then have "i \<notin> in_state Active (m_facts (g_working g2))" "i \<notin> in_state Conflicted (m_facts (g_working g2))"
        by (auto simp: in_state_def get_fact_def moved_def)
      with x show ?thesis by (simp add: indexed_ok_def idx_ok_def fact_idx_ok_def set_del_absent)
    qed
    then show ?thesis by (auto simp: sound_def base_def indexed_ok_def)
  qed
  with s2 have "sound b g ?g3" by (rule sound_trans)
  with Some n show ?thesis by (simp add: invalidate_fact_def Let_def g2_def sound_after)
qed (simp add: invalidate_fact_def)

lemma sound_record_operation: "sound b g (snd (record_operation t md g))"
  by (simp add: record_operation_def sound_log_op)

lemma commit_raw_world: "commit_raw p m w = (r, w') \<Longrightarrow> w_uuid w' = w_uuid w \<and> w_draw w' = w_draw w \<and> w_sha w' = w_sha w"
  by (simp add: commit_raw_frame)

lemma commit_env: "commit p m n w = (r, w') \<Longrightarrow> w_uuid w' = w_uuid w \<and> w_draw w' = w_draw w \<and> w_sha w' = w_sha w"
  by (auto simp: commit_def commit_finish_def prepare_commit_def make_operation_def read_iso_def read_ms_def Let_def
      split: prod.splits sum.splits option.splits dest!: commit_check_frame commit_raw_world)

lemma sound_commit: "sound b g (snd (manager_commit g))"
  by (auto simp: manager_commit_def split: commit_result.split prod.split dest!: commit_env intro!: sound_frame)

end
