(* ===== verification/Contracts.thy ===== *)
theory Contracts
  imports Main
begin

text \<open>
  Contracts that several components share. \<open>methods\<close> is an object with an invariant and a
  preorder \<open>before\<close> on its states: every permitted method call keeps the invariant and moves
  the state forward. The lemmas lift this from one call to every sequence of calls.
\<close>

locale methods =
  fixes exec :: "'c \<Rightarrow> 's \<Rightarrow> 's"
    and inv :: "'s \<Rightarrow> bool"
    and permitted :: "'c \<Rightarrow> 's \<Rightarrow> bool"
    and before :: "'s \<Rightarrow> 's \<Rightarrow> bool"
  assumes before_refl: "before s s"
    and before_trans: "before s t \<Longrightarrow> before t u \<Longrightarrow> before s u"
    and exec_inv: "inv s \<Longrightarrow> permitted c s \<Longrightarrow> inv (exec c s)"
    and exec_before: "inv s \<Longrightarrow> permitted c s \<Longrightarrow> before s (exec c s)"
begin

definition run :: "'c list \<Rightarrow> 's \<Rightarrow> 's" where
  "run cs s = foldl (\<lambda>s c. exec c s) s cs"

fun permitted_run :: "'c list \<Rightarrow> 's \<Rightarrow> bool" where
  "permitted_run [] s = True"
| "permitted_run (c # cs) s = (permitted c s \<and> permitted_run cs (exec c s))"

lemma run_simps [simp]: "run [] s = s" "run (c # cs) s = run cs (exec c s)"
  by (simp_all add: run_def)

lemma run_append: "run (cs @ ds) s = run ds (run cs s)"
  by (simp add: run_def)

lemma run_inv: "inv s \<Longrightarrow> permitted_run cs s \<Longrightarrow> inv (run cs s)"
  by (induction cs arbitrary: s) (auto intro: exec_inv)

lemma run_before: "inv s \<Longrightarrow> permitted_run cs s \<Longrightarrow> before s (run cs s)"
proof (induction cs arbitrary: s)
  case (Cons c cs)
  then have "before s (exec c s)" "before (exec c s) (run cs (exec c s))"
    by (auto intro: exec_before exec_inv)
  then show ?case by (simp add: before_trans [of s "exec c s"])
qed (simp add: before_refl)

lemma run_steps_ordered:
  "inv s \<Longrightarrow> permitted_run (cs @ ds) s \<Longrightarrow> before (run cs s) (run (cs @ ds) s)"
proof (induction cs arbitrary: s)
  case Nil
  then show ?case by (simp add: run_before)
next
  case (Cons c cs)
  then show ?case by (auto intro: exec_inv)
qed

end

text \<open>
  \<open>evicting_queue\<close> is a first-in first-out buffer with a bound: a push adds at most the
  entries \<open>entry x s\<close> at the end and gives up entries from the front only, and keeps the bound
  \<open>fits\<close>. Whatever is pushed, the buffer holds the most recent entries in their order.
\<close>

locale evicting_queue =
  fixes push :: "'a \<Rightarrow> 's \<Rightarrow> 's"
    and items :: "'s \<Rightarrow> 'e list"
    and entry :: "'a \<Rightarrow> 's \<Rightarrow> 'e list"
    and fits :: "'s \<Rightarrow> bool"
  assumes push_items: "\<exists>k. items (push x s) = drop k (items s @ entry x s)"
    and push_fits: "fits s \<Longrightarrow> fits (push x s)"
begin

fun pushes :: "'a list \<Rightarrow> 's \<Rightarrow> 's" where
  "pushes [] s = s"
| "pushes (x # xs) s = pushes xs (push x s)"

fun entries :: "'a list \<Rightarrow> 's \<Rightarrow> 'e list" where
  "entries [] s = []"
| "entries (x # xs) s = entry x s @ entries xs (push x s)"

lemma pushes_append: "pushes (xs @ ys) s = pushes ys (pushes xs s)"
  by (induction xs arbitrary: s) auto

lemma pushes_fits: "fits s \<Longrightarrow> fits (pushes xs s)"
  by (induction xs arbitrary: s) (auto intro: push_fits)

lemma pushes_recent: "\<exists>k. items (pushes xs s) = drop k (items s @ entries xs s)"
proof (induction xs arbitrary: s)
  case (Cons x xs)
  obtain i where i: "items (pushes xs (push x s)) = drop i (items (push x s) @ entries xs (push x s))"
    using Cons.IH [of "push x s"] by blast
  obtain j where j: "items (push x s) = drop j (items s @ entry x s)" using push_items by blast
  let ?old = "items s @ entry x s" and ?new = "entries xs (push x s)"
  have "drop j ?old @ ?new = drop (min j (length ?old)) (?old @ ?new)" by (cases "j \<le> length ?old") simp_all
  with i j have "items (pushes (x # xs) s) = drop i (drop (min j (length ?old)) (?old @ ?new))"
    by (simp only: pushes.simps)
  then have "items (pushes (x # xs) s) = drop (i + min j (length ?old)) (items s @ entries (x # xs) s)"
    by (simp only: drop_drop entries.simps append_assoc)
  then show ?case ..
qed (auto intro: exI [of _ 0])

end

text \<open>
  \<open>limiter\<close> is what a rate limiter promises: \<open>step\<close> admits or refuses an event, and among the
  admitted ones any \<open>gap + 1\<close> in a row take at least the time \<open>span\<close>. \<open>track h c s\<close> relates the
  state to the times \<open>h\<close> of the admitted events and to the clock \<open>c\<close>.
\<close>

definition spaced :: "nat \<Rightarrow> int \<Rightarrow> int list \<Rightarrow> bool" where
  "spaced gap span h \<longleftrightarrow> (\<forall>i. i + gap < length h \<longrightarrow> h ! i + span \<le> h ! (i + gap))"

lemma spaced_Nil: "spaced gap span []"
  by (simp add: spaced_def)

lemma spaced_snoc:
  "spaced gap span h \<Longrightarrow> (gap \<le> length h \<Longrightarrow> 0 < gap \<Longrightarrow> h ! (length h - gap) + span \<le> t) \<Longrightarrow> 0 < gap \<Longrightarrow>
   spaced gap span (h @ [t])"
  unfolding spaced_def by (auto simp: nth_append less_Suc_eq) (metis add_diff_cancel_right' le_add2)

locale limiter =
  fixes step :: "'e \<Rightarrow> 's \<Rightarrow> bool \<times> 's"
    and moment :: "'e \<Rightarrow> int"
    and permitted :: "'e \<Rightarrow> bool"
    and track :: "int list \<Rightarrow> int \<Rightarrow> 's \<Rightarrow> bool"
    and gap :: nat
    and span :: int
  assumes gap_pos: "0 < gap"
    and track_refused: "track h c s \<Longrightarrow> c \<le> moment e \<Longrightarrow> permitted e \<Longrightarrow> \<not> fst (step e s) \<Longrightarrow>
      track h (moment e) (snd (step e s))"
    and track_admitted: "track h c s \<Longrightarrow> c \<le> moment e \<Longrightarrow> permitted e \<Longrightarrow> fst (step e s) \<Longrightarrow>
      track (h @ [moment e]) (moment e) (snd (step e s))"
    and admitted_late: "track h c s \<Longrightarrow> c \<le> moment e \<Longrightarrow> permitted e \<Longrightarrow> fst (step e s) \<Longrightarrow> gap \<le> length h \<Longrightarrow>
      h ! (length h - gap) + span \<le> moment e"
begin

fun admitted :: "'e list \<Rightarrow> 's \<Rightarrow> int list" where
  "admitted [] s = []"
| "admitted (e # es) s =
     (if fst (step e s) then moment e # admitted es (snd (step e s)) else admitted es (snd (step e s)))"

lemma admitted_spaced_from:
  "track h c s \<Longrightarrow> sorted (c # map moment es) \<Longrightarrow> list_all permitted es \<Longrightarrow> spaced gap span h \<Longrightarrow>
   spaced gap span (h @ admitted es s)"
proof (induction es arbitrary: h c s)
  case (Cons e es)
  then have c: "c \<le> moment e" and so: "sorted (moment e # map moment es)" and p: "permitted e" "list_all permitted es" by auto
  show ?case
  proof (cases "fst (step e s)")
    case True
    have "spaced gap span (h @ [moment e])"
      using Cons.prems(4) admitted_late [OF Cons.prems(1) c p(1) True] gap_pos by (intro spaced_snoc) auto
    with Cons.IH [OF track_admitted [OF Cons.prems(1) c p(1) True] so p(2)] True show ?thesis by simp
  next
    case False
    with Cons.IH [OF track_refused [OF Cons.prems(1) c p(1) False] so p(2)] Cons.prems(4) show ?thesis by simp
  qed
qed simp

lemma admitted_spaced:
  "track [] c s \<Longrightarrow> sorted (c # map moment es) \<Longrightarrow> list_all permitted es \<Longrightarrow> spaced gap span (admitted es s)"
  using admitted_spaced_from [of "[]" c s es] by (simp add: spaced_Nil)

end

section \<open>Caches\<close>

text \<open>
  A function with a cache in front of it: whatever the cache holds, a fine question gets the answer
  of the plain function, and the cache stays good. So over any sequence of fine questions the cache
  cannot be seen.
\<close>

fun ask_all :: "('q \<Rightarrow> 's \<Rightarrow> 'a \<times> 's) \<Rightarrow> 'q list \<Rightarrow> 's \<Rightarrow> 'a list" where
  "ask_all ask [] s = []"
| "ask_all ask (q # qs) s = (let (a, s') = ask q s in a # ask_all ask qs s')"

locale memoized =
  fixes ask :: "'q \<Rightarrow> 's \<Rightarrow> 'a \<times> 's"
    and good :: "'s \<Rightarrow> bool"
    and fine :: "'q \<Rightarrow> bool"
    and plain :: "'q \<Rightarrow> 'a"
  assumes answer: "good s \<Longrightarrow> fine q \<Longrightarrow> fst (ask q s) = plain q"
    and stays_good: "good s \<Longrightarrow> fine q \<Longrightarrow> good (snd (ask q s))"
begin

lemma cache_is_invisible: "list_all fine qs \<Longrightarrow> good s \<Longrightarrow> ask_all ask qs s = map plain qs"
proof (induction qs arbitrary: s)
  case (Cons q qs)
  then show ?case using answer [of s q] stays_good [of s q] by (simp add: split_beta)
qed simp

end

end
