(* ===== verification/ManagerProps.thy ===== *)
theory ManagerProps
  imports ManifestManager Contracts
begin

text \<open>
  What the manifest manager guarantees: over every sequence of calls (\<open>exec\<close>, the two
  interpretations of \<open>methods\<close>), for the table of facts of each outcome of \<open>addFact\<close>
  (\<open>belief_update\<close>, the specification that \<open>add_fact\<close> refines), for staleness, queries,
  summaries, refinements and commits.
\<close>

section \<open>Sequences of calls\<close>

datatype mgr_call =
    Call_add_fact add_fact_input
  | Call_add_reference add_reference_input
  | Call_add_summary add_summary_input
  | Call_refine fact_id add_fact_input
  | Call_consolidate "fact_id list" add_fact_input
  | Call_supersede fact_id jstring
  | Call_invalidate fact_id jstring
  | Call_record operation_type jsobj
  | Call_commit
  | Call_reload

fun exec :: "mgr_call \<Rightarrow> mgr \<Rightarrow> mgr" where
  "exec (Call_add_fact input) g = snd (add_fact input g)"
| "exec (Call_add_reference input) g = snd (add_reference input g)"
| "exec (Call_add_summary input) g = snd (add_summary input g)"
| "exec (Call_refine i input) g = snd (propose_refinement i input g)"
| "exec (Call_consolidate ids input) g = snd (propose_consolidation ids input g)"
| "exec (Call_supersede i reason) g = snd (supersede_fact i reason g)"
| "exec (Call_invalidate i reason) g = snd (invalidate_fact i reason g)"
| "exec (Call_record t md) g = snd (record_operation t md g)"
| "exec Call_commit g = snd (manager_commit g)"
| "exec Call_reload g = snd (reload g)"

definition keeps_history :: "mgr_call \<Rightarrow> mgr \<Rightarrow> bool" where
  "keeps_history c g \<longleftrightarrow> c \<noteq> Call_reload \<and> fresh_next g"

definition keeps_indexes :: "mgr_call \<Rightarrow> mgr \<Rightarrow> bool" where
  "keeps_indexes c g \<longleftrightarrow> c \<noteq> Call_reload \<and> fresh_next g \<and> (case c of Call_refine i input \<Rightarrow> \<not> forced i input g | _ \<Rightarrow> True)"

lemma sound_exec:
  "keeps_history c g \<Longrightarrow> sound False g (exec c g)" "keeps_indexes c g \<Longrightarrow> sound b g (exec c g)"
  by (cases c; simp add: keeps_history_def keeps_indexes_def sound_add_fact sound_add_reference sound_add_summary
      sound_refinement sound_consolidation sound_supersede sound_invalidate sound_record_operation sound_commit)+

interpretation hist: methods exec base keeps_history "\<lambda>g h. extends (g_working g) (g_working h)"
  using sound_exec(1) by unfold_locales (auto simp: sound_def intro: extends_trans)

interpretation live: methods exec "\<lambda>g. base g \<and> indexed_ok g" keeps_indexes "\<lambda>g h. extends (g_working g) (g_working h)"
  using sound_exec(2) [of _ _ True] by unfold_locales (auto simp: sound_def intro: extends_trans)

section \<open>What arbitration knows\<close>

lemma find_authoritative_mem:
  assumes "base g" "find_authoritative_fact ids (g_working g) = Some a"
  shows "f_id a \<in> set ids" "get_fact (f_id a) g = Some a" "live_fact a"
proof -
  from find_from_mem [OF assms(2) [unfolded find_authoritative_fact_def]]
  obtain i where i: "i \<in> set ids" "get_fact i g = Some a" "live_fact a" by (auto simp: eligible_def get_fact_def)
  with base_fact_id [OF assms(1)] have "f_id a = i" by blast
  with i show "f_id a \<in> set ids" "get_fact (f_id a) g = Some a" "live_fact a" by simp_all
qed

lemma decide_existing:
  assumes "base g" "dec_outcome (decide input g) \<noteq> New"
  obtains a ids where "dec_existing (decide input g) = f_id a" "get_fact (f_id a) g = Some a" "live_fact a"
    "map_of (facts_by_identity_key (g_indexes g)) (input_key input g) = Some ids" "f_id a \<in> set ids"
    "find_authoritative_fact ids (g_working g) = Some a"
  using dec_existing_authoritative [OF refl assms(2) [unfolded decide_def]] find_authoritative_mem [OF assms(1)]
  by (auto simp: decide_def)

lemma key_buckets:
  "indexed_ok g \<Longrightarrow> bucket (facts_by_identity_key (g_indexes g)) k = {i. \<exists>f. get_fact i g = Some f \<and> f_identity_key f = k}"
  by (simp add: indexed_ok_def idx_ok_def fact_idx_ok_def by_field_def get_fact_def)

lemma key_bucket:
  "indexed_ok g \<Longrightarrow> map_of (facts_by_identity_key (g_indexes g)) k = Some ids \<Longrightarrow>
   i \<in> set ids \<longleftrightarrow> (\<exists>f. get_fact i g = Some f \<and> f_identity_key f = k)"
  by (drule key_buckets [of g k]) (simp add: bucket_def set_eq_iff)

lemma key_bucket_none:
  "indexed_ok g \<Longrightarrow> map_of (facts_by_identity_key (g_indexes g)) k = None \<Longrightarrow> get_fact i g = Some f \<Longrightarrow> f_identity_key f \<noteq> k"
  by (drule key_buckets [of g k]) (auto simp: bucket_def)

lemma decide_new_retired:
  assumes "indexed_ok g" "dec_outcome (decide input g) = New" "get_fact i g = Some f" "f_identity_key f = input_key input g"
  shows "\<not> live_fact f"
proof (cases "map_of (facts_by_identity_key (g_indexes g)) (input_key input g)")
  case None
  with assms key_bucket_none show ?thesis by blast
next
  case (Some ids)
  with assms key_bucket have i: "i \<in> set ids" by blast
  have "find_authoritative_fact ids (g_working g) = None"
    using assms(2) Some i by (auto simp: decide_def arbitrate_def Let_def split: if_splits option.splits)
  then have "eligible (m_facts (g_working g)) ids = {}" by (simp add: find_authoritative_fact_def find_from_none)
  with i assms(3) show ?thesis by (auto simp: eligible_def get_fact_def)
qed

lemma decide_active_wins:
  assumes "base g" "indexed_ok g" "dec_outcome (decide input g) \<noteq> New" "get_fact i g = Some f"
    "f_identity_key f = input_key input g" "f_state f = Active"
  obtains a where "get_fact (dec_existing (decide input g)) g = Some a" "f_state a = Active" "f_confidence f \<le> f_confidence a"
    "f_identity_key a = input_key input g" "dec_existing (decide input g) = f_id a"
proof -
  from assms(1,3) obtain a ids where a: "dec_existing (decide input g) = f_id a" "get_fact (f_id a) g = Some a"
    "map_of (facts_by_identity_key (g_indexes g)) (input_key input g) = Some ids" "f_id a \<in> set ids"
    "find_authoritative_fact ids (g_working g) = Some a" by (rule decide_existing)
  from assms a(3) key_bucket have "i \<in> set ids" by blast
  with assms have "f \<in> eligible (m_facts (g_working g)) ids" by (auto simp: eligible_def live_fact_def get_fact_def)
  from find_from_active [OF a(5) [unfolded find_authoritative_fact_def] this assms(6)] a that key_bucket [OF assms(2) a(3)]
  show ?thesis by auto
qed

section \<open>addFact refines belief update\<close>

text \<open>The specification: what one observation does to the table of facts.\<close>

definition belief_update ::
  "decision \<Rightarrow> fact \<Rightarrow> jstring \<Rightarrow> jstring \<Rightarrow> (fact_id \<Rightarrow> fact option) \<Rightarrow> fact_id \<Rightarrow> fact option" where
  "belief_update d f source now t =
     (case d of
        Dec_new r \<Rightarrow> t(f_id f \<mapsto> f)
      | Dec_converge e r \<Rightarrow> t(e := map_option (\<lambda>x. with_updates x (apply_convergence x source now)) (t e))
      | Dec_supersede e r \<Rightarrow> t(f_id f \<mapsto> f, e := map_option (moved Superseded now) (t e))
      | Dec_reject e r \<Rightarrow> t(f_id f \<mapsto> f, e := map_option (\<lambda>x. with_updates x (apply_convergence x source now)) (t e))
      | Dec_conflict e r \<Rightarrow> t(f_id f \<mapsto> f, e := map_option (moved Conflicted now) (t e)))"

text \<open>The fact that \<open>addFact\<close> builds.\<close>

definition incoming_fact :: "add_fact_input \<Rightarrow> mgr \<Rightarrow> fact" where
  "incoming_fact input g =
     (let (now, g1) = now_iso g
      in fst (build_fact input (input_key input g) (input_hash input g)
           (incoming_state_for_outcome (dec_outcome (decide input g))) None now g1))"

definition fact_table :: "mgr \<Rightarrow> fact_id \<Rightarrow> fact option" where
  "fact_table g i = get_fact i g"

lemma fact_table_map: "fact_table g = map_of (m_facts (g_working g))"
  by (simp add: fact_table_def get_fact_def fun_eq_iff)

lemma table_put: "i \<noteq> proto_key \<Longrightarrow> fact_table (put_fact i f g) = (fact_table g)(i \<mapsto> f)"
  by (simp add: fact_table_map map_of_obj_set)

lemma table_insert: "f_id f \<noteq> proto_key \<Longrightarrow> fact_table (insert_fact f g) = (fact_table g)(f_id f \<mapsto> f)"
  by (simp add: fact_table_map insert_fact_def Let_def map_of_obj_set)

lemma table_transition:
  "i \<noteq> proto_key \<Longrightarrow> fact_table (transition_fact i st now g) = (fact_table g)(i := map_option (moved st now) (fact_table g i))"
  by (auto simp: fact_table_map transition_fact_def get_fact_def map_of_obj_set split: option.split)

lemma table_frame [simp]:
  "fact_table (log_op t md g) = fact_table g" "fact_table (propagate_staleness i g) = fact_table g"
  "fact_table (g\<lparr>g_indexes := ix\<rparr>) = fact_table g" "fact_table (g\<lparr>g_dirty := d\<rparr>) = fact_table g"
  by (simp_all add: fact_table_map)

lemma table_converge:
  assumes "fact_table g i = Some x" "f_id x = i" "i \<noteq> proto_key"
  shows "fact_table (snd (converge_into i src now g)) = (fact_table g)(i \<mapsto> with_updates x (apply_convergence x src now))"
  using assms by (simp add: converge_into_def fact_table_def [symmetric] Let_def table_put)

lemma add_fact_refines:
  assumes "base g" "now_iso g = (now, g1)" "fresh_next g"
  shows "fact_table (snd (add_fact input g)) =
    belief_update (decide input g) (incoming_fact input g) (i_source input) now (fact_table g)"
proof (cases "dec_outcome (decide input g) = Converge")
  case True
  then obtain e r where d: "decide input g = Dec_converge e r" by (cases "decide input g") auto
  from assms(1) True obtain x where x: "e = f_id x" "get_fact (f_id x) g = Some x"
    by (elim decide_existing [of g input]) (auto simp: d)
  with base_fact_id [OF assms(1)] have p: "f_id x \<noteq> proto_key" by blast
  have t: "fact_table g1 = fact_table g" by (simp add: fact_table_map now_iso_frame [OF assms(2)])
  with x have "get_fact e g1 = Some x" by (simp add: fact_table_def [symmetric])
  from add_fact_converge(1) [OF d assms(2) this] p x t show ?thesis
    by (auto simp: table_put belief_update_def d fact_table_def [symmetric])
next
  case False
  obtain f g2 where bf: "build_fact input (input_key input g) (input_hash input g)
      (incoming_state_for_outcome (dec_outcome (decide input g))) None now g1 = (f, g2)" by force
  then have inc: "incoming_fact input g = f" by (simp add: incoming_fact_def assms(2))
  have fp: "f_id f \<noteq> proto_key" by (simp add: build_insert [OF bf])
  have t: "fact_table g2 = fact_table g"
    by (simp add: fact_table_map build_insert(12) [OF bf] now_iso_frame [OF assms(2)])
  have fresh: "fact_table g (f_id f) = None"
    using assms(3) by (simp add: build_insert(1) [OF bf] fact_table_map fresh_next_def next_fact_id_now [OF assms(2)])
  have ex: "\<exists>x. fact_table g e = Some x \<and> f_id x = e \<and> e \<noteq> proto_key \<and> e \<noteq> f_id f"
    if "dec_outcome (decide input g) \<noteq> New" "dec_existing (decide input g) = e" for e
  proof -
    from assms(1) that(1) obtain x where x: "dec_existing (decide input g) = f_id x" "get_fact (f_id x) g = Some x"
      by (rule decide_existing)
    moreover from base_fact_id [OF assms(1) x(2)] have "f_id x \<noteq> proto_key" by simp
    moreover from fresh x(2) have "f_id x \<noteq> f_id f" by (auto simp: fact_table_def)
    ultimately show ?thesis using that(2) by (simp add: fact_table_def)
  qed
  have "fact_table (after_insert (decide input g) f input now g2) = belief_update (decide input g) f (i_source input) now (fact_table g)"
  proof (cases "decide input g")
    case (Dec_reject e r)
    with ex [of e] obtain x where x: "fact_table g e = Some x" "f_id x = e" "e \<noteq> proto_key" "e \<noteq> f_id f" by auto
    then have "fact_table (insert_fact f g2) e = Some x" by (simp add: table_insert fp t)
    from table_converge [OF this x(2,3)] x show ?thesis
      by (simp add: Dec_reject after_insert_def belief_update_def table_insert fp t)
  next
    case (Dec_supersede e r)
    with ex [of e] show ?thesis by (auto simp: after_insert_def belief_update_def table_insert fp t table_transition)
  next
    case (Dec_conflict e r)
    with ex [of e] show ?thesis by (auto simp: after_insert_def belief_update_def table_insert fp t table_transition)
  qed (use False in \<open>simp_all add: after_insert_def belief_update_def table_insert fp t\<close>)
  with add_fact_insert [OF False assms(2) bf] show ?thesis by (auto simp: inc)
qed


section \<open>At most one active belief per identity key\<close>

definition single_active :: "(fact_id \<Rightarrow> fact option) \<Rightarrow> bool" where
  "single_active t \<longleftrightarrow> (\<forall>i j f h. t i = Some f \<longrightarrow> t j = Some h \<longrightarrow> f_state f = Active \<longrightarrow> f_state h = Active \<longrightarrow>
     f_identity_key f = f_identity_key h \<longrightarrow> i = j)"

lemma single_activeD:
  "single_active t \<Longrightarrow> t i = Some f \<Longrightarrow> t j = Some h \<Longrightarrow> f_state f = Active \<Longrightarrow> f_state h = Active \<Longrightarrow>
   f_identity_key f = f_identity_key h \<Longrightarrow> i = j"
  unfolding single_active_def by blast

text \<open>A row that becomes active nowhere, or is put under a key without active rows, is harmless.\<close>

lemma single_active_upd:
  assumes "single_active t" "f_state f = Active \<Longrightarrow> (\<And>j h. j \<noteq> i \<Longrightarrow> t j = Some h \<Longrightarrow> f_state h = Active \<Longrightarrow> f_identity_key h \<noteq> f_identity_key f)"
  shows "single_active (t(i \<mapsto> f))"
  unfolding single_active_def
proof (intro allI impI)
  fix a b x y
  assume h: "(t(i \<mapsto> f)) a = Some x" "(t(i \<mapsto> f)) b = Some y" "f_state x = Active" "f_state y = Active"
    "f_identity_key x = f_identity_key y"
  show "a = b"
  proof (cases "a = i"; cases "b = i")
    assume "a = i" "b \<noteq> i"
    with h assms(2) [of b y] show ?thesis by simp
  next
    assume "a \<noteq> i" "b = i"
    with h assms(2) [of a x] show ?thesis by simp
  next
    assume "a \<noteq> i" "b \<noteq> i"
    with h have "t a = Some x" "t b = Some y" by simp_all
    with h show ?thesis by (blast intro: single_activeD [OF assms(1)])
  qed simp
qed

lemma moved_simps [simp]:
  "f_state (moved st now f) = st" "f_identity_key (moved st now f) = f_identity_key f" "f_id (moved st now f) = f_id f"
  "f_confidence (moved st now f) = f_confidence f" "f_type (moved st now f) = f_type f"
  "f_discovery_index (moved st now f) = f_discovery_index f" "f_value (moved st now f) = f_value f"
  by (simp_all add: moved_def)

lemma incoming_fact_simps [simp]:
  "f_state (incoming_fact input g) = incoming_state_for_outcome (dec_outcome (decide input g))"
  "f_identity_key (incoming_fact input g) = input_key input g" "f_hash (incoming_fact input g) = input_hash input g"
  "f_id (incoming_fact input g) = next_fact_id g"
  "f_confidence (incoming_fact input g) = i_confidence input" "f_source (incoming_fact input g) = i_source input"
  "f_type (incoming_fact input g) = i_type input" "f_value (incoming_fact input g) = i_value input"
  "f_discovery_index (incoming_fact input g) = m_last_fact_index (g_working g) + 1"
  "observation_count (f_observations (incoming_fact input g)) = 1"
  "f_derived_from (incoming_fact input g) = (case i_derived_from input of None \<Rightarrow> [] | Some xs \<Rightarrow> xs)"
  by (auto simp: incoming_fact_def now_iso_def read_iso_def build_fact_def draw_id_def short_id_def drawn_def
      next_discovery_index_def next_fact_id_def Let_def split: option.split)

lemma base_fresh: "fresh_next g \<Longrightarrow> fact_table g (f_id (incoming_fact input g)) = None"
  by (simp add: fresh_next_def fact_table_map)

lemma incoming_active_only:
  assumes "base g" "indexed_ok g" "single_active (fact_table g)" "fact_table g j = Some h" "f_state h = Active"
    "f_identity_key h = input_key input g" "dec_outcome (decide input g) \<noteq> New"
  shows "j = dec_existing (decide input g)"
proof -
  have h: "get_fact j g = Some h" using assms(4) by (simp add: fact_table_def)
  obtain a where a: "get_fact (dec_existing (decide input g)) g = Some a" "f_state a = Active"
    "f_identity_key a = input_key input g"
    by (rule decide_active_wins [OF assms(1,2,7) h assms(6,5)])
  have "fact_table g (dec_existing (decide input g)) = Some a" using a by (simp add: fact_table_def)
  from single_activeD [OF assms(3,4) this assms(5) a(2)] a(3) assms(6) show ?thesis by simp
qed

lemma single_active_rows:
  assumes "single_active t"
    and "\<And>i x'. t' i = Some x' \<Longrightarrow> \<exists>x. t i = Some x \<and> (f_state x' = Active \<longrightarrow> f_state x = Active) \<and> f_identity_key x' = f_identity_key x"
  shows "single_active t'"
  unfolding single_active_def
proof (intro allI impI)
  fix i j f h
  assume a: "t' i = Some f" "t' j = Some h" "f_state f = Active" "f_state h = Active" "f_identity_key f = f_identity_key h"
  from assms(2) [OF a(1)] assms(2) [OF a(2)] a(3-) show "i = j"
    by (elim exE conjE) (rule single_activeD [OF assms(1)], assumption+, simp_all)
qed

lemma single_active_add:
  assumes "base g" "indexed_ok g" "single_active (fact_table g)" and fr: "fresh_next g"
  shows "single_active (fact_table (snd (add_fact input g)))"
proof -
  obtain now g1 where n: "now_iso g = (now, g1)" by force
  let ?d = "decide input g" and ?f = "incoming_fact input g"
  have upd: "single_active ((fact_table g)(e := map_option m (fact_table g e)))"
    if "\<And>x. (f_state (m x) = Active \<longrightarrow> f_state x = Active) \<and> f_identity_key (m x) = f_identity_key x" for e m
    by (rule single_active_rows [OF assms(3)]) (use that in \<open>auto split: if_splits\<close>)
  have new: "single_active (t(f_id ?f \<mapsto> ?f))"
    if "single_active t" "f_state ?f = Active \<longrightarrow> (\<forall>j h. t j = Some h \<longrightarrow> f_state h = Active \<longrightarrow> f_identity_key h \<noteq> input_key input g)" for t
    using that by (intro single_active_upd) auto
  have swap: "e \<noteq> f_id ?f \<Longrightarrow> (fact_table g)(f_id ?f \<mapsto> ?f, e := map_option m (fact_table g e)) =
      ((fact_table g)(e := map_option m (fact_table g e)))(f_id ?f \<mapsto> ?f)" for e m
    by auto
  have neq: "dec_outcome ?d \<noteq> New \<Longrightarrow> dec_existing ?d \<noteq> f_id ?f"
    using base_fresh [OF fr, of input] by (elim decide_existing [OF assms(1)]) (auto simp: fact_table_def)
  show ?thesis
  proof (cases ?d)
    case (Dec_new r)
    have "f_identity_key h \<noteq> input_key input g" if "fact_table g j = Some h" "f_state h = Active" for j h
      using decide_new_retired [OF assms(2), of input j h] that Dec_new by (auto simp: fact_table_def live_fact_def)
    with new [OF assms(3)] show ?thesis by (simp add: add_fact_refines [OF assms(1) n fr] Dec_new belief_update_def)
  next
    case (Dec_converge e r)
    show ?thesis by (simp add: add_fact_refines [OF assms(1) n fr] Dec_converge belief_update_def upd)
  next
    case (Dec_supersede e r)
    have "f_identity_key h \<noteq> input_key input g"
      if "((fact_table g)(e := map_option (moved Superseded now) (fact_table g e))) j = Some h" "f_state h = Active" for j h
      using that incoming_active_only [OF assms(1-3), of j h input] Dec_supersede by (auto split: if_splits)
    with new [OF upd [of "moved Superseded now" e]] neq Dec_supersede show ?thesis
      by (simp add: add_fact_refines [OF assms(1) n fr] belief_update_def swap [simplified])
  next
    case (Dec_reject e r)
    with new [OF upd [of "\<lambda>x. with_updates x (apply_convergence x (i_source input) now)" e]] neq show ?thesis
      by (simp add: add_fact_refines [OF assms(1) n fr] belief_update_def swap [simplified])
  next
    case (Dec_conflict e r)
    with new [OF upd [of "moved Conflicted now" e]] neq show ?thesis
      by (simp add: add_fact_refines [OF assms(1) n fr] belief_update_def swap [simplified])
  qed
qed

section \<open>Discovery indexes\<close>

definition discovery_ok :: "mgr \<Rightarrow> bool" where
  "discovery_ok g \<longleftrightarrow>
     (\<forall>i f. fact_table g i = Some f \<longrightarrow> f_discovery_index f \<le> m_last_fact_index (g_working g)) \<and>
     (\<forall>i j f h. fact_table g i = Some f \<longrightarrow> fact_table g j = Some h \<longrightarrow> f_discovery_index f = f_discovery_index h \<longrightarrow> i = j)"

lemma last_index_add:
  "base g \<Longrightarrow> m_last_fact_index (g_working (snd (add_fact input g))) =
     m_last_fact_index (g_working g) + (if dec_outcome (decide input g) = Converge then 0 else 1)"
proof (cases "dec_outcome (decide input g) = Converge")
  case True
  assume b: "base g"
  from True obtain e r where d: "decide input g = Dec_converge e r" by (cases "decide input g") auto
  obtain now g1 where n: "now_iso g = (now, g1)" by force
  show ?thesis
    by (cases "get_fact e g1") (use add_fact_converge [OF d n] True in \<open>auto simp: now_iso_frame [OF n]\<close>)
next
  case False
  obtain now g1 where n: "now_iso g = (now, g1)" by force
  obtain f g2 where bf: "build_fact input (input_key input g) (input_hash input g)
      (incoming_state_for_outcome (dec_outcome (decide input g))) None now g1 = (f, g2)" by force
  have i: "m_last_fact_index (g_working (insert_fact f g2)) = m_last_fact_index (g_working g) + 1"
    by (simp add: insert_fact_def Let_def build_insert(12) [OF bf] now_iso_frame [OF n])
  have c: "m_last_fact_index (g_working (snd (converge_into e src now h))) = m_last_fact_index (g_working h)"
    "m_last_fact_index (g_working (transition_fact e st now h)) = m_last_fact_index (g_working h)" for e src now h st
    by (simp_all add: converge_into_def transition_fact_def Let_def split: option.split)
  have "m_last_fact_index (g_working (after_insert (decide input g) f input now g2)) = m_last_fact_index (g_working g) + 1"
    by (simp add: after_insert_def i c split: decision.split)
  with add_fact_insert [OF False n bf] False show ?thesis by auto
qed

lemma discovery_same:
  assumes "discovery_ok g" "m_last_fact_index (g_working g') = m_last_fact_index (g_working g)"
    and "\<And>i f'. fact_table g' i = Some f' \<Longrightarrow> \<exists>f. fact_table g i = Some f \<and> f_discovery_index f' = f_discovery_index f"
  shows "discovery_ok g'"
  using assms unfolding discovery_ok_def by metis

lemma discovery_new:
  assumes "discovery_ok g" "m_last_fact_index (g_working g') = m_last_fact_index (g_working g) + 1"
    and "\<And>i f'. fact_table g' i = Some f' \<Longrightarrow> (i = k \<and> f_discovery_index f' = m_last_fact_index (g_working g) + 1) \<or>
      (\<exists>f. fact_table g i = Some f \<and> f_discovery_index f' = f_discovery_index f)"
  shows "discovery_ok g'"
  unfolding discovery_ok_def
proof (intro conjI allI impI)
  have le: "f_discovery_index f \<le> m_last_fact_index (g_working g)" if "fact_table g i = Some f" for i f
    using assms(1) that by (simp add: discovery_ok_def)
  fix i f
  assume "fact_table g' i = Some f"
  from assms(3) [OF this] le show "f_discovery_index f \<le> m_last_fact_index (g_working g')"
    by (force simp: assms(2))
  fix j h
  assume eq: "fact_table g' i = Some f" "fact_table g' j = Some h" "f_discovery_index f = f_discovery_index h"
  from assms(3) [OF eq(1)] assms(3) [OF eq(2)] eq(3) show "i = j"
  proof (elim disjE conjE exE)
    fix x y
    assume "fact_table g i = Some x" "fact_table g j = Some y" "f_discovery_index f = f_discovery_index x"
      "f_discovery_index h = f_discovery_index y"
    with assms(1) eq(3) show ?thesis unfolding discovery_ok_def by metis
  qed (use le eq(3) in \<open>fastforce+\<close>)
qed

lemma belief_update_rows:
  assumes "belief_update d f src now t i = Some x" "d = decide input g" "f = incoming_fact input g"
  shows "dec_outcome d \<noteq> Converge \<and> i = f_id f \<and> f_discovery_index x = f_discovery_index f \<or>
    (\<exists>y. t i = Some y \<and> f_discovery_index x = f_discovery_index y)"
  using assms(1) by (cases d) (auto simp: belief_update_def split: if_splits)

lemma discovery_ok_add: "base g \<Longrightarrow> fresh_next g \<Longrightarrow> discovery_ok g \<Longrightarrow> discovery_ok (snd (add_fact input g))"
proof -
  assume b: "base g" and fr: "fresh_next g" and d: "discovery_ok g"
  obtain now g1 where n: "now_iso g = (now, g1)" by force
  note rows = belief_update_rows [OF _ refl refl, of input g "i_source input" now "fact_table g", folded add_fact_refines [OF b n fr]]
  show ?thesis
  proof (cases "dec_outcome (decide input g) = Converge")
    case True
    with rows last_index_add [OF b, of input] show ?thesis by (intro discovery_same [OF d]) auto
  next
    case False
    with rows last_index_add [OF b, of input] show ?thesis
      by (intro discovery_new [OF d, where k = "f_id (incoming_fact input g)"]) auto
  qed
qed


section \<open>Staleness\<close>

definition summary_table :: "mgr \<Rightarrow> summary_id \<Rightarrow> summary option" where
  "summary_table g = map_of (m_summaries (g_working g))"

abbreviation mark_stale :: "summary \<Rightarrow> summary" where
  "mark_stale s \<equiv> s\<lparr>s_stale := True\<rparr>"

lemma stale_one_table:
  "sid \<noteq> proto_key \<or> summary_table g sid = None \<Longrightarrow>
   summary_table (stale_one i g sid) = (summary_table g)(sid := map_option mark_stale (summary_table g sid))"
proof (cases "summary_table g sid")
  case (Some s)
  moreover assume "sid \<noteq> proto_key \<or> summary_table g sid = None"
  ultimately have "sid \<noteq> proto_key" by simp
  with Some show ?thesis by (auto simp: stale_one_def summary_table_def map_of_obj_set fun_eq_iff)
qed (auto simp: stale_one_def summary_table_def fun_eq_iff)

lemma propagate_table:
  assumes "base g"
  shows "summary_table (propagate_staleness i g) = (\<lambda>sid. if sid \<in> bucket (summary_deps (g_indexes g)) i
    then map_option mark_stale (summary_table g sid) else summary_table g sid)"
proof -
  have p: "summary_table g proto_key = None"
    using assms table_ok_key [of s_id "m_summaries (g_working g)" proto_key]
    by (cases "summary_table g proto_key") (auto simp: base_def manifest_wf_def summary_table_def)
  have "summary_table (foldl (stale_one i) h xs) = (\<lambda>sid. if sid \<in> set xs then map_option mark_stale (summary_table h sid) else summary_table h sid)"
    if "summary_table h proto_key = None" for h xs
    using that
  proof (induction xs arbitrary: h)
    case (Cons x xs)
    have t: "summary_table (stale_one i h x) = (summary_table h)(x := map_option mark_stale (summary_table h x))"
      using Cons.prems by (intro stale_one_table) (cases "x = proto_key", auto)
    with Cons.prems have "summary_table (stale_one i h x) proto_key = None" by auto
    from Cons.IH [OF this] show ?case by (auto simp: t fun_eq_iff option.map_comp comp_def)
  qed simp
  from this [OF p] show ?thesis
    by (auto simp: propagate_staleness_def bucket_def fun_eq_iff split: option.split)
qed

text \<open>Every active summary built from the fact is stale.\<close>

definition all_stale :: "fact_id \<Rightarrow> mgr \<Rightarrow> bool" where
  "all_stale i g \<longleftrightarrow> (\<forall>sid s. summary_table g sid = Some s \<longrightarrow> s_state s = SActive \<longrightarrow> i \<in> set (s_source_fact_ids s) \<longrightarrow> s_stale s)"

lemma propagate_all_stale:
  assumes "base g" "indexed_ok g" shows "all_stale i (propagate_staleness i g)"
proof -
  have "sid \<in> bucket (summary_deps (g_indexes g)) i"
    if "summary_table g sid = Some s" "s_state s = SActive" "i \<in> set (s_source_fact_ids s)" for sid s
    using assms(2) that by (simp add: indexed_ok_def idx_ok_def deps_ok_def summary_table_def)
  then show ?thesis by (auto simp: all_stale_def propagate_table [OF assms(1)] split: if_splits)
qed

lemma all_stale_frame [simp]: "all_stale i (log_op t md g) = all_stale i g"
  "all_stale i (g\<lparr>g_indexes := ix\<rparr>) = all_stale i g"
  by (simp_all add: all_stale_def summary_table_def)

lemma sound_both: "sound True g h \<Longrightarrow> base g \<Longrightarrow> indexed_ok g \<Longrightarrow> base h \<and> indexed_ok h"
  by (simp add: sound_def)

lemma supersede_all_stale:
  assumes "base g" "indexed_ok g" "supersede_fact i reason g = (Inr (), g')"
  shows "all_stale i g'"
proof -
  obtain now g1 where n: "now_iso g = (now, g1)" by force
  have "sound True g (transition_fact i Superseded now g1)" by (intro sound_after sound_now [OF n])
  from propagate_all_stale [of "transition_fact i Superseded now g1"] sound_both [OF this] assms show ?thesis
    by (auto simp: supersede_fact_def n Let_def split: option.splits if_splits)
qed

lemma invalidate_all_stale:
  assumes "base g" "indexed_ok g" "invalidate_fact i reason g = (Inr (), g')"
  shows "all_stale i g'"
proof -
  obtain now g1 where n: "now_iso g = (now, g1)" by force
  have "sound True g (transition_fact i Invalidated now g1)" by (intro sound_after sound_now [OF n])
  from propagate_all_stale [of "transition_fact i Invalidated now g1"] sound_both [OF this] assms show ?thesis
    by (auto simp: invalidate_fact_def n Let_def simp del: propagate_frame split: option.splits)
qed

lemma add_fact_all_stale:
  assumes "base g" "indexed_ok g" "dec_outcome (decide input g) \<in> {Supersede, Conflict}" "fresh_next g"
  shows "all_stale (dec_existing (decide input g)) (snd (add_fact input g))"
proof -
  obtain now g1 where n: "now_iso g = (now, g1)" by force
  obtain f g2 where bf: "build_fact input (input_key input g) (input_hash input g)
      (incoming_state_for_outcome (dec_outcome (decide input g))) None now g1 = (f, g2)" by force
  have none: "map_of (m_facts (g_working g1)) (next_fact_id g1) = None"
    using assms(4) by (simp add: fresh_next_def next_fact_id_now [OF n] now_iso_frame [OF n])
  have "sound True g (transition_fact e st now (insert_fact f g2))" for e st
    by (rule sound_after, rule sound_trans [OF sound_now [OF n] sound_build_insert [OF bf none]])
  then have "all_stale e (propagate_staleness e (transition_fact e st now (insert_fact f g2)))" for e st
    using assms(1,2) by (intro propagate_all_stale) (simp_all add: sound_def)
  with assms(3) have "all_stale (dec_existing (decide input g)) (after_insert (decide input g) f input now g2)"
    by (auto simp: after_insert_def split: decision.split)
  with add_fact_insert [OF _ n bf] assms(3) show ?thesis by auto
qed

section \<open>One active summary per type and scope\<close>

definition summary_unique :: "mgr \<Rightarrow> bool" where
  "summary_unique g \<longleftrightarrow> (\<forall>i j s t. summary_table g i = Some s \<longrightarrow> summary_table g j = Some t \<longrightarrow>
     s_state s = SActive \<longrightarrow> s_state t = SActive \<longrightarrow> s_type s = s_type t \<longrightarrow> s_scope s = s_scope t \<longrightarrow> i = j)"

text \<open>The abstract operation: retire the clash, add the new summary.\<close>

definition summary_update ::
  "summary option \<Rightarrow> summary \<Rightarrow> (summary_id \<Rightarrow> summary option) \<Rightarrow> summary_id \<Rightarrow> summary option" where
  "summary_update clash s t =
     (case clash of None \<Rightarrow> t | Some c \<Rightarrow> t(s_id c \<mapsto> c\<lparr>s_state := SSuperseded\<rparr>))(s_id s \<mapsto> s)"

definition clash_of :: "add_summary_input \<Rightarrow> mgr \<Rightarrow> summary option" where
  "clash_of input g = List.find (summary_clash input) (obj_values (m_summaries (g_working g)))"

lemma clash_of_some:
  assumes "base g" "clash_of input g = Some s"
  shows "summary_table g (s_id s) = Some s" "summary_clash input s" "s_id s \<noteq> proto_key"
proof -
  have t: "table_ok s_id (m_summaries (g_working g))" using assms(1) by (simp add: base_def manifest_wf_def)
  from list_find_value [OF assms(2) [unfolded clash_of_def] t]
  show "summary_table g (s_id s) = Some s" "summary_clash input s" by (simp_all add: summary_table_def)
  then show "s_id s \<noteq> proto_key" using table_ok_key [OF t, of "s_id s" s] by (simp add: summary_table_def)
qed

lemma clash_of_none:
  assumes "base g" "clash_of input g = None" "summary_table g i = Some s"
  shows "\<not> summary_clash input s"
proof -
  have "s \<in> set (obj_values (m_summaries (g_working g)))"
    using assms(3) by (force simp: summary_table_def dest: map_of_SomeD)
  with assms(2) show ?thesis by (auto simp: clash_of_def find_None_iff)
qed

lemma add_summary_refines:
  assumes "base g" "add_summary input g = (r, g')" "fresh_next g"
  shows "\<exists>s. summary_table g' = summary_update (clash_of input g) s (summary_table g) \<and>
     s = new_summary input (fst r) (s_generated_at s) \<and> snd r = map_option s_id (clash_of input g) \<and>
     summary_table g (fst r) = None"
proof -
  obtain i g1 where d: "draw_id ''SUM_'' g = (i, g1)" by force
  then have i: "i = next_summary_id g"
    "g1 = g\<lparr>g_env := (g_env g)\<lparr>w_draw := Suc (w_draw (g_env g))\<rparr>\<rparr>" by (simp_all add: draw_id_eq next_summary_id_def)
  obtain now g2 where n: "now_iso g1 = (now, g2)" by force
  have p: "i \<noteq> proto_key" by (simp add: i)
  have w: "g_working g2 = g_working g" by (simp add: now_iso_frame [OF n] i)
  have cg: "List.find (summary_clash input) (obj_values (m_summaries (g_working g2))) = clash_of input g"
    by (simp add: clash_of_def w)
  have none: "summary_table g i = None"
    using assms(3) by (simp add: i fresh_next_def summary_table_def)
  define g3 where "g3 = (case clash_of input g of None \<Rightarrow> g2 | Some s \<Rightarrow> retire_summary s i g2)"
  have t3: "summary_table g3 = (case clash_of input g of None \<Rightarrow> summary_table g
      | Some c \<Rightarrow> (summary_table g)(s_id c \<mapsto> c\<lparr>s_state := SSuperseded\<rparr>))"
    using clash_of_some(3) [OF assms(1)]
    by (auto simp: g3_def summary_table_def retire_summary_def map_of_obj_set w split: option.split)
  have e: "g' = log_op Summary_added [(js ''summary_id'', Str i), (js ''type'', Str (si_type input)),
                (js ''scope'', Str (si_scope input))]
       ((put_summary i (new_summary input i now) g3)
         \<lparr>g_indexes := foldl (add_dep i) (g_indexes g3) (si_source_fact_ids input)\<rparr>) \<lparr>g_dirty := True\<rparr>"
    "r = (i, map_option s_id (clash_of input g))"
    using assms(2) by (simp_all add: add_summary_def d n Let_def cg g3_def [symmetric])
  have "summary_table g' = (summary_table g3)(i \<mapsto> new_summary input i now)"
    using p by (simp add: e(1) summary_table_def map_of_obj_set)
  with t3 e(2) none show ?thesis
    by (intro exI [of _ "new_summary input i now"]) (auto simp: summary_update_def new_summary_def split: option.split)
qed

lemma summary_unique_add:
  assumes "base g" "summary_unique g" "fresh_next g"
  shows "summary_unique (snd (add_summary input g))"
proof -
  obtain r g' where a: "add_summary input g = (r, g')" by (cases "add_summary input g")
  from add_summary_refines [OF assms(1) a assms(3)] obtain s where s:
    "summary_table g' = summary_update (clash_of input g) s (summary_table g)"
    "s = new_summary input (fst r) (s_generated_at s)" by blast
  then have s': "s_type s = si_type input" "s_scope s = si_scope input" by (metis new_summary_def summary.select_convs)+
  have old: "j = s_id s \<or> summary_table g j = Some t \<and> \<not> summary_clash input t"
    if "summary_table g' j = Some t" "s_state t = SActive" for j t
  proof (cases "j = s_id s")
    case False
    show ?thesis
    proof (cases "clash_of input g")
      case None
      with that False s(1) clash_of_none [OF assms(1) None] show ?thesis by (simp add: summary_update_def)
    next
      case (Some c)
      have j: "j \<noteq> s_id c" "summary_table g j = Some t"
        using that False s(1) Some by (auto simp: summary_update_def split: if_splits)
      have "\<not> summary_clash input t"
      proof
        assume "summary_clash input t"
        with clash_of_some(1,2) [OF assms(1) Some] j assms(2) show False
          unfolding summary_unique_def summary_clash_def by metis
      qed
      with j show ?thesis by simp
    qed
  qed simp
  have new: "t = s" if "summary_table g' (s_id s) = Some t" for t
    using that s(1) by (simp add: summary_update_def)
  show ?thesis
    unfolding summary_unique_def a snd_conv
  proof (intro allI impI)
    fix i j x y
    assume h: "summary_table g' i = Some x" "summary_table g' j = Some y" "s_state x = SActive" "s_state y = SActive"
      "s_type x = s_type y" "s_scope x = s_scope y"
    show "i = j"
    proof (cases "i = s_id s"; cases "j = s_id s")
      assume "i \<noteq> s_id s" "j \<noteq> s_id s"
      with old h have "summary_table g i = Some x" "summary_table g j = Some y" by blast+
      with assms(2) h show ?thesis unfolding summary_unique_def by blast
    next
      assume "i = s_id s" "j \<noteq> s_id s"
      with old [OF h(2,4)] new h s' show ?thesis by (auto simp: summary_clash_def)
    next
      assume "i \<noteq> s_id s" "j = s_id s"
      with old [OF h(1,3)] new h s' show ?thesis by (auto simp: summary_clash_def)
    qed simp
  qed
qed


section \<open>Queries\<close>

definition query_all_match :: "query_filter \<Rightarrow> fact \<Rightarrow> bool" where
  "query_all_match q f \<longleftrightarrow> query_match q f \<and> (case truthy_str (q_type q) of Some t \<Rightarrow> f_type f = t | None \<Rightarrow> True)"

lemma ins_by_set: "set (ins_by cmp x ys) = insert x (set ys)"
  by (induction ys) auto

lemma sort_by_set [simp]: "set (sort_by cmp xs) = set xs"
  by (induction xs) (simp_all add: ins_by_set)

lemma query_collect_set:
  "f \<in> set (query_collect q g ids) \<longleftrightarrow> (\<exists>i \<in> set ids. get_fact i g = Some f \<and> query_match q f)"
  by (induction ids) (auto split: option.split)

lemma type_buckets:
  "indexed_ok g \<Longrightarrow> bucket (facts_by_type (g_indexes g)) k = {i. \<exists>f. get_fact i g = Some f \<and> f_type f = k}"
  by (simp add: indexed_ok_def idx_ok_def fact_idx_ok_def by_field_def get_fact_def)

lemma bucket_list: "set (case map_of m k of None \<Rightarrow> [] | Some s \<Rightarrow> s) = bucket m k"
  by (simp add: bucket_def split: option.split)

lemma query_candidates_set:
  assumes "indexed_ok g" "get_fact i g = Some f" "query_match q f"
  shows "i \<in> set (query_candidates q g) \<longleftrightarrow> query_all_match q f"
  using assms type_buckets [OF assms(1)] key_buckets [OF assms(1)]
  by (cases "truthy_str (q_type q)"; cases "truthy_str (q_identity_key q)")
    (auto simp: query_candidates_def bucket_list query_all_match_def query_match_def get_fact_def
      intro: rev_image_eqI dest: map_of_SomeD)

lemma query_results_set:
  assumes "indexed_ok g"
  shows "set (query_collect q g (query_candidates q g)) = {f. \<exists>i. get_fact i g = Some f \<and> query_all_match q f}"
proof -
  have m: "query_all_match q f \<Longrightarrow> query_match q f" for f by (simp add: query_all_match_def)
  show ?thesis
    using query_candidates_set [OF assms] m by (fastforce simp: query_collect_set)
qed

lemma query_order_cmp: "cmp_order query_order"
  unfolding cmp_order_def query_order_def by (auto simp: fsub_signs)

lemma query_order_le:
  "query_order a b \<le> 0 \<longleftrightarrow> f_confidence b < f_confidence a \<or>
     f_confidence b = f_confidence a \<and> f_discovery_index a \<le> f_discovery_index b"
  by (auto simp: query_order_def fsub_signs)

lemma query_limited:
  "query_facts q g = (case q_limit q of None \<Rightarrow> query_facts (q\<lparr>q_limit := None\<rparr>) g
     | Some n \<Rightarrow> if n = 0 then query_facts (q\<lparr>q_limit := None\<rparr>) g else slice (query_facts (q\<lparr>q_limit := None\<rparr>) g) 0 n)"
proof -
  have m: "query_match (q\<lparr>q_limit := None\<rparr>) = query_match q"
    by (simp add: fun_eq_iff query_match_def query_states_def)
  have "query_collect (q\<lparr>q_limit := None\<rparr>) g ids = query_collect q g ids" for ids
    by (induction ids) (simp_all add: m split: option.split)
  then show ?thesis
    by (simp add: query_facts_def query_candidates_def Let_def split: option.split)
qed

lemma sorted_wrt_slice: "sorted_wrt P xs \<Longrightarrow> sorted_wrt P (slice xs a b)"
  by (simp add: slice_def sorted_wrt_take sorted_wrt_drop)

lemma query_sorted: "sorted_wrt (\<lambda>a b. query_order a b \<le> 0) (query_facts q g)"
  using sorted_sort_by [OF query_order_cmp]
  by (auto simp: query_facts_def Let_def sorted_wrt_slice split: option.split)

section \<open>Refinement\<close>

lemma table_now: "now_iso g = (t, g') \<Longrightarrow> fact_table g' = fact_table g"
  by (simp add: fact_table_map now_iso_frame)

lemma table_force:
  assumes "fact_table g new_id = Some f" "fact_table g target = Some t" "new_id \<noteq> proto_key" "target \<noteq> proto_key"
  shows "\<exists>now. fact_table (force_refinement new_id target g) =
    (if new_id = target then (fact_table g)(target \<mapsto> moved Superseded now (f\<lparr>f_state := Active\<rparr>))
     else (fact_table g)(new_id \<mapsto> f\<lparr>f_state := Active\<rparr>, target \<mapsto> moved Superseded now t))"
proof -
  let ?g1 = "put_fact new_id (f\<lparr>f_state := Active\<rparr>) g"
  obtain now g2 where n: "now_iso ?g1 = (now, g2)" by force
  have t2: "fact_table g2 = (fact_table g)(new_id \<mapsto> f\<lparr>f_state := Active\<rparr>)"
    using assms(3) by (simp add: table_now [OF n] table_put)
  have g1: "get_fact target ?g1 = Some (if new_id = target then f\<lparr>f_state := Active\<rparr> else t)"
    using table_put [OF assms(3), of "f\<lparr>f_state := Active\<rparr>" g] assms(2) by (auto simp: fact_table_def fun_eq_iff)
  have "fact_table (force_refinement new_id target g) = fact_table (transition_fact target Superseded now g2)"
    using assms(1) g1 n by (simp add: force_refinement_def fact_table_def [symmetric] Let_def)
  then show ?thesis
    using assms by (intro exI [of _ now]) (auto simp: table_transition t2)
qed

lemma table_sweep:
  assumes "fact_table g proto_key = None"
  shows "fact_table (foldl (sweep_one k new_id now) g ids) =
    (\<lambda>i. case fact_table g i of None \<Rightarrow> None
       | Some f \<Rightarrow> if i \<in> set ids \<and> i \<noteq> new_id \<and> f_identity_key f = k then Some (moved Superseded now f) else Some f)"
  using assms
proof (induction ids arbitrary: g)
  case Nil
  then show ?case by (auto simp: fun_eq_iff split: option.split)
next
  case (Cons x ids)
  have one: "fact_table (sweep_one k new_id now g x) = (\<lambda>i. case fact_table g i of None \<Rightarrow> None
       | Some f \<Rightarrow> if i = x \<and> i \<noteq> new_id \<and> f_identity_key f = k then Some (moved Superseded now f) else Some f)"
  proof (cases "fact_table g x")
    case None
    then show ?thesis by (auto simp: sweep_one_def fact_table_def [symmetric] fun_eq_iff split: option.split)
  next
    case (Some f)
    with Cons.prems have "x \<noteq> proto_key" by auto
    with Some show ?thesis
      by (auto simp: sweep_one_def fact_table_def [symmetric] table_transition fun_eq_iff split: option.split)
  qed
  with Cons.prems have "fact_table (sweep_one k new_id now g x) proto_key = None" by simp
  from Cons.IH [OF this] show ?case
    by (auto simp: one fun_eq_iff moved_def split: option.split if_splits)
qed

lemma base_proto: "base g \<Longrightarrow> fact_table g proto_key = None"
  by (cases "fact_table g proto_key") (auto simp: fact_table_def dest: base_fact_id)

lemma base_row: "base g \<Longrightarrow> fact_table g i = Some f \<Longrightarrow> f_id f = i \<and> i \<noteq> proto_key"
  by (simp add: fact_table_def base_fact_id)


lemma decide_converge_hash:
  assumes "decide input g = Dec_converge e r"
  shows "\<exists>ids a. map_of (facts_by_identity_key (g_indexes g)) (input_key input g) = Some ids \<and>
    find_authoritative_fact ids (g_working g) = Some a \<and> e = f_id a \<and> f_hash a = input_hash input g"
  using assms by (auto simp: decide_def arbitrate_def Let_def split: option.splits if_splits)

lemma conflicted_force:
  "i \<noteq> target \<Longrightarrow> i \<in> set (conflicted_facts (g_indexes (force_refinement n target g))) \<longleftrightarrow> i \<in> set (conflicted_facts (g_indexes g))"
  by (auto simp: force_refinement_def Let_def transition_fact_def now_iso_frame split: option.split prod.split)

text \<open>The table before the sweep, when the target is the active belief of its key and the
  refinement has another value.\<close>

lemma refinement_table:
  assumes g: "base g" "indexed_ok g" "single_active (fact_table g)" and fr: "fresh_next g"
    and t: "fact_table g target = Some t" "f_state t = Active"
    and input: "input = refinement\<lparr>i_derived_from := Some [target]\<rparr>" "input_key input g = f_identity_key t"
    "input_hash input g \<noteq> f_hash t"
    and a: "add_fact input g = (r, g1)"
    and g2: "g2 = (if ar_outcome r \<noteq> Supersede \<and> ar_outcome r \<noteq> New then force_refinement (ar_fact_id r) target g1 else g1)"
  shows "ar_fact_id r = f_id (incoming_fact input g)"
    "\<exists>x y. fact_table g2 = (fact_table g)(ar_fact_id r \<mapsto> x, target \<mapsto> y) \<and> f_state x = Active \<and> f_state y = Superseded \<and>
      f_value x = i_value input \<and> f_identity_key x = f_identity_key t \<and> f_identity_key y = f_identity_key t"
    "i \<noteq> target \<Longrightarrow> i \<noteq> ar_fact_id r \<Longrightarrow> fact_table g i = Some f \<Longrightarrow> f_state f = Conflicted \<Longrightarrow>
      i \<in> set (conflicted_facts (g_indexes g2))"
    "ar_fact_id r \<noteq> target"
proof -
  let ?d = "decide input g" and ?f = "incoming_fact input g"
  have gt: "get_fact target g = Some t" using t by (simp add: fact_table_def)
  have nn: "dec_outcome ?d \<noteq> New"
    using decide_new_retired [OF g(2) _ gt, of input] t(2) input(2) by (auto simp: live_fact_def)
  have e: "dec_existing ?d = target"
    using incoming_active_only [OF g t(1,2) input(2) [symmetric] nn] by simp
  have nc: "dec_outcome ?d \<noteq> Converge"
  proof
    assume "dec_outcome ?d = Converge"
    then obtain r where d: "?d = Dec_converge target r" using e by (cases ?d) auto
    from decide_converge_hash [OF this] find_authoritative_mem [OF g(1)] gt input(3) show False by force
  qed
  have ft: "f_id ?f \<noteq> target" using base_fresh [OF fr, of input] t(1) by auto
  obtain now g0 where n: "now_iso g = (now, g0)" by force
  obtain nf g' where bf: "build_fact input (input_key input g) (input_hash input g)
      (incoming_state_for_outcome (dec_outcome ?d)) None now g0 = (nf, g')" by force
  then have "nf = ?f" by (simp add: incoming_fact_def n)
  with add_fact_insert [OF nc n bf] a have r: "ar_fact_id r = f_id ?f" "ar_outcome r = dec_outcome ?d" by auto
  show "ar_fact_id r = f_id ?f" "ar_fact_id r \<noteq> target" using r ft by simp_all
  have T1: "fact_table g1 = belief_update ?d ?f (i_source input) now (fact_table g)"
    using add_fact_refines [OF g(1) n fr, of input] a by simp
  have s1: "base g1 \<and> indexed_ok g1" using sound_both [OF sound_add_fact [OF fr] g(1,2), of input] a by simp
  have pr: "f_id ?f \<noteq> proto_key" "target \<noteq> proto_key" using base_row [OF g(1) t(1)] by simp_all
  have force: "\<exists>x y. fact_table (force_refinement (f_id ?f) target g1) = (fact_table g)(f_id ?f \<mapsto> x, target \<mapsto> y) \<and>
      f_state x = Active \<and> f_state y = Superseded \<and> f_value x = i_value input \<and> f_identity_key x = f_identity_key t \<and>
      f_identity_key y = f_identity_key t"
    if T: "fact_table g1 = (fact_table g)(f_id ?f \<mapsto> ?f, target \<mapsto> z)" "f_identity_key z = f_identity_key t" for z
  proof -
    have "fact_table g1 (f_id ?f) = Some ?f" "fact_table g1 target = Some z" using T(1) ft by auto
    from table_force [OF this pr] ft obtain now' where
      "fact_table (force_refinement (f_id ?f) target g1) = (fact_table g1)(f_id ?f \<mapsto> ?f\<lparr>f_state := Active\<rparr>, target \<mapsto> moved Superseded now' z)"
      by auto
    then show ?thesis using T input(2) ft
      by (intro exI [of _ "?f\<lparr>f_state := Active\<rparr>"] exI [of _ "moved Superseded now' z"]) (auto simp: fun_upd_twist)
  qed
  show "\<exists>x y. fact_table g2 = (fact_table g)(ar_fact_id r \<mapsto> x, target \<mapsto> y) \<and> f_state x = Active \<and> f_state y = Superseded \<and>
      f_value x = i_value input \<and> f_identity_key x = f_identity_key t \<and> f_identity_key y = f_identity_key t"
  proof (cases ?d)
    case (Dec_supersede e' r')
    with e input(2) t(1) show ?thesis
      by (intro exI [of _ ?f] exI [of _ "moved Superseded now t"]) (simp add: g2 r T1 belief_update_def)
  next
    case (Dec_conflict e' r')
    with force [of "moved Conflicted now t"] e t(1) show ?thesis by (simp add: g2 r T1 belief_update_def)
  next
    case (Dec_reject e' r')
    with force [of "with_updates t (apply_convergence t (i_source input) now)"] e t(1) show ?thesis
      by (simp add: g2 r T1 belief_update_def)
  qed (use nn nc in simp_all)
  assume i: "i \<noteq> target" "i \<noteq> ar_fact_id r" "fact_table g i = Some f" "f_state f = Conflicted"
  have "fact_table g1 i = Some f" using i r e by (cases ?d) (auto simp: T1 belief_update_def)
  then have "i \<in> set (conflicted_facts (g_indexes g1))"
    using s1 i(4) by (auto simp: indexed_ok_def idx_ok_def fact_idx_ok_def in_state_def fact_table_map)
  then show "i \<in> set (conflicted_facts (g_indexes g2))" using i(1) by (simp add: g2 conflicted_force)
qed

lemma refinement_result:
  assumes g: "base g" "indexed_ok g" "single_active (fact_table g)" and fr: "fresh_next g"
    and t: "fact_table g target = Some t" "f_state t = Active"
    and input: "input = refinement\<lparr>i_derived_from := Some [target]\<rparr>" "input_key input g = f_identity_key t"
    "input_hash input g \<noteq> f_hash t"
    and p: "propose_refinement target refinement g = (res, g')"
  obtains ok x y where "res = Inr ok" "pr_superseded_fact_id ok = target" "pr_new_fact_id ok \<noteq> target"
    "fact_table g' (pr_new_fact_id ok) = Some x" "f_state x = Active" "f_value x = i_value input"
    "fact_table g' target = Some y" "f_state y = Superseded"
    "\<And>i f. fact_table g' i = Some f \<Longrightarrow> f_identity_key f = f_identity_key t \<Longrightarrow> f_state f \<in> {Active, Conflicted} \<Longrightarrow>
       i = pr_new_fact_id ok"
proof -
  obtain r g1 where a: "add_fact input g = (r, g1)" by force
  define g2 where "g2 = (if ar_outcome r \<noteq> Supersede \<and> ar_outcome r \<noteq> New then force_refinement (ar_fact_id r) target g1 else g1)"
  note R = refinement_table [OF g fr t input a g2_def]
  obtain x y where T2: "fact_table g2 = (fact_table g)(ar_fact_id r \<mapsto> x, target \<mapsto> y)" and xy: "f_state x = Active"
    "f_state y = Superseded" "f_value x = i_value input" "f_identity_key x = f_identity_key t" "f_identity_key y = f_identity_key t"
    using R(2) by blast
  obtain now g3 where n: "now_iso g2 = (now, g3)" by force
  define ids where "ids = conflicted_facts (g_indexes g2)"
  have gt: "get_fact target g = Some t" using t by (simp add: fact_table_def)
  have P: "res = Inr \<lparr>pr_new_fact_id = ar_fact_id r, pr_superseded_fact_id = target, pr_decision = ar_decision r\<rparr>"
    "g' = foldl (sweep_one (f_identity_key t) (ar_fact_id r) now) g3 ids"
    using p t a n by (simp_all add: propose_refinement_def gt input(1) [symmetric] g2_def [symmetric] Let_def ids_def now_iso_frame [OF n])
  have pk: "fact_table g3 proto_key = None"
    using base_proto [OF g(1)] base_row [OF g(1) t(1)] R(1) by (auto simp: table_now [OF n] T2)
  note T3 = table_sweep [OF pk, of "f_identity_key t" "ar_fact_id r" now ids, folded P(2), unfolded table_now [OF n] T2]
  have new: "fact_table g' (ar_fact_id r) = Some x" using R(4) by (simp add: T3)
  obtain y' where tgt: "fact_table g' target = Some y'" "f_state y' = Superseded"
    using xy(2,5) R(4) by (cases "target \<in> set ids") (auto simp: T3)
  have only: "i = ar_fact_id r"
    if h: "fact_table g' i = Some f" "f_identity_key f = f_identity_key t" "f_state f \<in> {Active, Conflicted}" for i f
  proof (rule ccontr)
    assume ne: "i \<noteq> ar_fact_id r"
    have nt: "i \<noteq> target" using h tgt by auto
    obtain f0 where f0: "fact_table g i = Some f0" "f = f0 \<or> f = moved Superseded now f0"
      "i \<in> set ids \<longrightarrow> f_identity_key f0 = f_identity_key t \<longrightarrow> f = moved Superseded now f0"
      using h(1) ne nt by (auto simp: T3 split: option.splits if_splits)
    then have same: "f = f0" using h(3) by auto
    then have "f_state f0 \<noteq> Conflicted" using R(3) [OF nt ne f0(1)] f0(3) h(2,3)
      by (auto simp: ids_def dest!: arg_cong [of f0 _ f_state])
    with h(3) same have "f_state f0 = Active" by auto
    with single_activeD [OF g(3) f0(1) t(1)] t(2) h(2) same nt show False by simp
  qed
  show ?thesis by (rule that [OF P(1)]) (use new tgt only xy(1,3) R(4) in auto)
qed

text \<open>A refinement that repeats the value of the active belief retires it: no active or
  conflicted fact is left under its key.\<close>

lemma refinement_same_value:
  assumes g: "base g" "indexed_ok g" "single_active (fact_table g)" and fr: "fresh_next g"
    and t: "fact_table g target = Some t" "f_state t = Active"
    and input: "input = refinement\<lparr>i_derived_from := Some [target]\<rparr>" "input_key input g = f_identity_key t"
    "input_hash input g = f_hash t"
    and p: "propose_refinement target refinement g = (res, g')"
  shows "\<exists>ok y. res = Inr ok \<and> pr_new_fact_id ok = target \<and> fact_table g' target = Some y \<and> f_state y = Superseded"
    "fact_table g' i = Some f \<Longrightarrow> f_identity_key f = f_identity_key t \<Longrightarrow> f_state f \<noteq> Active"
proof -
  let ?d = "decide input g"
  have gt: "get_fact target g = Some t" using t by (simp add: fact_table_def)
  have nn: "dec_outcome ?d \<noteq> New"
    using decide_new_retired [OF g(2) _ gt, of input] t(2) input(2) by (auto simp: live_fact_def)
  have e: "dec_existing ?d = target"
    using incoming_active_only [OF g t(1,2) input(2) [symmetric] nn] by simp
  have c: "dec_outcome ?d = Converge"
  proof -
    from g(1) nn obtain a ids where a: "dec_existing ?d = f_id a" "get_fact (f_id a) g = Some a"
      "map_of (facts_by_identity_key (g_indexes g)) (input_key input g) = Some ids" "f_id a \<in> set ids"
      "find_authoritative_fact ids (g_working g) = Some a" by (rule decide_existing)
    with e gt have "a = t" by simp
    with a input(3) show ?thesis by (auto simp: decide_def arbitrate_def)
  qed
  then obtain why where d: "?d = Dec_converge target why" using e by (cases ?d) auto
  obtain now g0 where n: "now_iso g = (now, g0)" by force
  obtain r g1 where a: "add_fact input g = (r, g1)" by force
  have g0: "get_fact target g0 = Some t" using gt by (simp add: fact_table_def [symmetric] table_now [OF n])
  note row = base_row [OF g(1) t(1)]
  let ?u = "with_updates t (apply_convergence t (i_source input) now)"
  have r: "ar_fact_id r = target" "ar_outcome r = Converge"
    using add_fact_converge(1) [OF d n g0] a row by auto
  have T1: "fact_table g1 = (fact_table g)(target \<mapsto> ?u)"
    using add_fact_refines [OF g(1) n fr, of input] a t(1) by (simp add: d belief_update_def)
  define g2 where "g2 = force_refinement target target g1"
  obtain now' where T2: "fact_table g2 = (fact_table g)(target \<mapsto> moved Superseded now' (?u\<lparr>f_state := Active\<rparr>))"
    using table_force [of g1 target ?u target ?u] T1 row by (auto simp: g2_def)
  obtain now'' g3 where n3: "now_iso g2 = (now'', g3)" by force
  define ids where "ids = conflicted_facts (g_indexes g2)"
  have P: "res = Inr \<lparr>pr_new_fact_id = target, pr_superseded_fact_id = target, pr_decision = ar_decision r\<rparr>"
    "g' = foldl (sweep_one (f_identity_key t) target now'') g3 ids"
    using p t a n3 r by (simp_all add: propose_refinement_def gt input(1) [symmetric] g2_def [symmetric] Let_def ids_def now_iso_frame [OF n3])
  have pk: "fact_table g3 proto_key = None"
    using base_proto [OF g(1)] row by (auto simp: table_now [OF n3] T2)
  note T3 = table_sweep [OF pk, of "f_identity_key t" target now'' ids, folded P(2), unfolded table_now [OF n3] T2]
  show "\<exists>ok y. res = Inr ok \<and> pr_new_fact_id ok = target \<and> fact_table g' target = Some y \<and> f_state y = Superseded"
    by (simp add: P(1) T3)
  assume h: "fact_table g' i = Some f" "f_identity_key f = f_identity_key t"
  show "f_state f \<noteq> Active"
  proof
    assume act: "f_state f = Active"
    then have nt: "i \<noteq> target" using h(1) by (auto simp: T3)
    then have "fact_table g i = Some f" using h(1) act by (auto simp: T3 split: option.splits if_splits)
    with single_activeD [OF g(3) this t(1)] t(2) h(2) act nt show False by simp
  qed
qed


section \<open>Commit\<close>

lemma manager_commit_clean: "\<not> g_dirty g \<Longrightarrow> manager_commit g = (C_ok (m_revision (g_working g)) (m_integrity_hash (g_working g)), g)"
  by (simp add: manager_commit_def)

lemma manager_commit_ok:
  assumes "g_dirty g" "manager_commit g = (C_ok r h, g')"
  obtains final where "r = g_expected g + 1" "disk_revision (g_persistence g) (g_env g) = Some (g_expected g)"
    "w_files (g_env g') (p_manifest_path (g_persistence g)) = Some (manifest_doc final)"
    "m_facts final = m_facts (g_working g)" "m_references final = m_references (g_working g)"
    "m_summaries final = m_summaries (g_working g)" "m_revision final = r" "m_integrity_hash final = h"
    "\<exists>op. m_operations final = m_operations (g_working g) @ [op] \<and> op_type op = Manifest_committed"
    "g_expected g' = r" "\<not> g_dirty g'" "g_working g' = (g_working g)\<lparr>m_revision := r, m_integrity_hash := h\<rparr>"
    "disk_revision (g_persistence g') (g_env g') = Some (g_expected g')"
proof -
  obtain w' where c: "commit (g_persistence g) (g_working g) (g_expected g) (g_env g) = (C_ok r h, w')"
    and g': "g' = g\<lparr>g_env := w', g_working := (g_working g)\<lparr>m_revision := r, m_integrity_hash := h\<rparr>,
      g_expected := r, g_dirty := False\<rparr>"
    using assms by (auto simp: manager_commit_def split: prod.splits commit_result.splits)
  from commit_ok [OF c] obtain w1 where d: "disk_revision (g_persistence g) (g_env g) = Some (g_expected g)"
    and f: "commit_finish (g_persistence g) (g_working g) (g_expected g) w1 = (C_ok r h, w')" by blast
  from commit_finish_ok [OF f] obtain final w2 where x: "prepare_commit (g_persistence g) (g_working g) (g_expected g) w1 = (final, w2)"
    "r = g_expected g + 1" "h = m_integrity_hash final"
    "w_files w' (p_manifest_path (g_persistence g)) = Some (manifest_doc final)" "disk_revision (g_persistence g) w' = Some r"
    by blast
  note pf = prepare_commit_fields [OF x(1)]
  show ?thesis
    by (rule that [of final]) (use d x pf g' in auto)
qed

lemma manager_commit_fail:
  assumes "manager_commit g = (C_fail f e, g')"
  shows "g_working g' = g_working g" "g_dirty g'" "g_expected g' = g_expected g" "g_indexes g' = g_indexes g"
    "w_files (g_env g') (p_manifest_path (g_persistence g)) = w_files (g_env g) (p_manifest_path (g_persistence g))"
  using assms commit_fail_files [of "g_persistence g" "g_working g" "g_expected g" "g_env g" f e _ "p_manifest_path (g_persistence g)"]
  by (auto simp: manager_commit_def split: if_splits prod.splits commit_result.splits)

text \<open>A converging observation leaves a clean manager clean: it is never written.\<close>

lemma converge_not_dirty:
  assumes "dec_outcome (decide input g) = Converge"
  shows "g_dirty (snd (add_fact input g)) = g_dirty g"
proof -
  from assms obtain e r where d: "decide input g = Dec_converge e r" by (cases "decide input g") auto
  obtain now g1 where n: "now_iso g = (now, g1)" by force
  show ?thesis
    by (cases "get_fact e g1")
      (use add_fact_converge [OF d n] in \<open>auto simp: now_iso_frame [OF n] put_fact_def\<close>)
qed

lemma other_outcomes_dirty:
  assumes "dec_outcome (decide input g) \<noteq> Converge"
  shows "g_dirty (snd (add_fact input g))"
proof -
  obtain now g1 where n: "now_iso g = (now, g1)" by force
  obtain f g2 where bf: "build_fact input (input_key input g) (input_hash input g)
      (incoming_state_for_outcome (dec_outcome (decide input g))) None now g1 = (f, g2)" by force
  have "g_dirty (after_insert (decide input g) f input now g2)"
    by (simp add: after_insert_def insert_fact_def converge_into_def transition_fact_def put_fact_def Let_def
        split: decision.split option.split)
  with add_fact_insert [OF assms n bf] show ?thesis by auto
qed

lemma effective_confidence_le:
  "effective_confidence input \<le> si_confidence input"
  "si_conflicts input = Some (c # cs) \<Longrightarrow> effective_confidence input \<le> conflict_cap"
  by (simp_all add: effective_confidence_def split: option.split)

end
