(* ===== verification/Scenarios.thy ===== *)
theory Scenarios
  imports ManagerProps
begin

text \<open>
  Concrete states of the manifest engine on which the witnesses of the properties are
  evaluated: a manifest with one belief about a city, one summary built from it, and the
  observations that confirm, contradict, override and lose to it.
\<close>

definition demo_world :: world where
  "demo_world = \<lparr>w_sha = (\<lambda>s. s), w_clock = (\<lambda>n. int n), w_tick = 0, w_uuid = (\<lambda>n. js ''abc''), w_draw = 0,
     w_files = (\<lambda>p. None), w_io_error = (\<lambda>n. None), w_io = 0, w_op_seq = 0, w_op_counter = 0,
     w_registry = [(js ''pref'', \<lambda>v. Some (js ''pref:city''))]\<rparr>"

definition demo_persistence :: persistence where
  "demo_persistence = \<lparr>p_manifest_path = js ''/m.json'', p_artifacts_dir = js ''/a'', p_actor = js ''me''\<rparr>"

definition city_value :: "string \<Rightarrow> jsobj" where
  "city_value c = [(js ''value'', Str (js c))]"

definition city_input :: "string \<Rightarrow> int \<Rightarrow> add_fact_input" where
  "city_input c k = \<lparr>i_type = js ''pref'', i_value = city_value c, i_confidence = dec k 2, i_source = js ''user'',
     i_derived_from = None, i_supporting_sources = None\<rparr>"

definition city_fact :: "string \<Rightarrow> string \<Rightarrow> int \<Rightarrow> fact_state \<Rightarrow> int \<Rightarrow> fact" where
  "city_fact i c k st n = \<lparr>f_id = js i, f_hash = derive_fact_hash (\<lambda>s. s) (js ''pref'') (city_value c), f_type = js ''pref'',
     f_value = city_value c, f_identity_key = js ''pref:city'', f_confidence = dec k 2, f_source = js ''user'',
     f_derived_from = [], f_supersedes = None, f_merged_from = None, f_state = st, f_created_at = js ''t0'',
     f_observations = \<lparr>first_seen = js ''t0'', last_seen = js ''t0'', observation_count = 1\<rparr>,
     f_supporting_sources = [js ''user''], f_discovery_index = n\<rparr>"

definition city_summary :: summary where
  "city_summary = \<lparr>s_id = js ''S1'', s_type = js ''profile'', s_scope = js ''user'', s_state = SActive, s_stale = False,
     s_confidence = dec 9 1, s_generated_at = js ''t0'', s_source_fact_ids = [js ''F1''], s_source_ref_ids = [],
     s_key_points = [js ''lives in Paris''], s_conflicts = [], s_recommended_next_actions = []\<rparr>"

definition city_manifest :: "fact list \<Rightarrow> manifest" where
  "city_manifest fs = \<lparr>m_schema_version = js ''1.0'', m_revision = 0, m_integrity_hash = js ''h'', m_created_at = js ''t0'',
     m_updated_at = js ''t0'', m_facts = map (\<lambda>f. (f_id f, f)) fs, m_references = [],
     m_summaries = [(js ''S1'', city_summary)], m_operations = [], m_last_fact_index = int (length fs)\<rparr>"

definition city_manager :: "fact list \<Rightarrow> mgr" where
  "city_manager fs = new_manager demo_persistence (city_manifest fs) (build_indexes (city_manifest fs)) (js ''me'') demo_world"

text \<open>One active belief: Paris, with confidence 0.80.\<close>

definition paris :: mgr where
  "paris = city_manager [city_fact ''F1'' ''Paris'' 80 Active 1]"

lemma city_wf:
  "distinct (map f_id fs) \<Longrightarrow> proto_key \<notin> set (map f_id fs) \<Longrightarrow> manifest_wf (city_manifest fs)"
proof -
  assume a: "distinct (map f_id fs)" "proto_key \<notin> set (map f_id fs)"
  have "f_id f = i \<and> i \<noteq> proto_key" if "map_of (map (\<lambda>f. (f_id f, f)) fs) i = Some f" for i f
  proof -
    from map_of_SomeD [OF that] have f: "f \<in> set fs" "f_id f = i" by auto
    then have "i \<in> set (map f_id fs)" by force
    with a(2) f show ?thesis by metis
  qed
  then have "table_ok f_id (map (\<lambda>f. (f_id f, f)) fs)"
    unfolding table_ok_def keys_ok_def map_map comp_def fst_conv using a(1) by blast
  moreover have "table_ok s_id [(js ''S1'', city_summary)]"
    by (simp add: table_ok_def keys_ok_def city_summary_def proto_key_def)
  moreover have "table_ok r_id []" by (simp add: table_ok_def)
  ultimately show ?thesis by (simp only: manifest_wf_def city_manifest_def manifest.select_convs)
qed

lemma city_base: "distinct (map f_id fs) \<Longrightarrow> proto_key \<notin> set (map f_id fs) \<Longrightarrow> base (city_manager fs)"
  by (simp add: base_def city_manager_def new_manager_def city_wf)

lemma city_indexed: "distinct (map f_id fs) \<Longrightarrow> proto_key \<notin> set (map f_id fs) \<Longrightarrow> indexed_ok (city_manager fs)"
  by (simp add: indexed_ok_def city_manager_def new_manager_def city_wf build_indexes_ok)

lemma city_draw: "next_fact_id (city_manager fs) = js ''FACT_ABC''" "next_ref_id (city_manager fs) = js ''REF_ABC''"
  "next_summary_id (city_manager fs) = js ''SUM_ABC''"
  by (simp_all add: next_fact_id_def next_ref_id_def next_summary_id_def city_manager_def new_manager_def drawn_def
      demo_world_def short_id_of_def js_def upper_unit_def)

lemma city_tables: "g_working (city_manager fs) = city_manifest fs" "g_dirty (city_manager fs) = False"
  "g_env (city_manager fs) = demo_world" "g_indexes (city_manager fs) = build_indexes (city_manifest fs)"
  by (simp_all add: city_manager_def new_manager_def)

lemma paris_ok: "base paris" "indexed_ok paris" "fresh_next paris"
  unfolding paris_def
  by (rule city_base city_indexed; simp add: city_fact_def proto_key_def)+
    (simp add: fresh_next_def city_tables city_draw city_manifest_def city_fact_def)

lemma paris_table: "fact_table paris = [js ''F1'' \<mapsto> city_fact ''F1'' ''Paris'' 80 Active 1]"
  "summary_table paris = [js ''S1'' \<mapsto> city_summary]" "m_last_fact_index (g_working paris) = 1"
  by (simp_all add: paris_def fact_table_map summary_table_def city_tables city_manifest_def city_fact_def)

lemma paris_single: "single_active (fact_table paris)"
  by (simp add: single_active_def paris_table)

lemma paris_discovery: "discovery_ok paris"
  by (simp add: discovery_ok_def paris_table) (simp add: city_fact_def)

lemma paris_unique: "summary_unique paris"
  by (simp add: summary_unique_def paris_table)

lemma city_input_key: "input_key (city_input c k) (city_manager fs) = js ''pref:city''"
  by (simp add: input_key_def derive_identity_key_def city_input_def city_tables demo_world_def)

lemma city_hash: "input_hash (city_input c k) (city_manager fs) = derive_fact_hash (\<lambda>s. s) (js ''pref'') (city_value c)"
  by (simp add: input_hash_def city_input_def city_tables demo_world_def)

lemma city_hash_neq:
  "derive_fact_hash (\<lambda>s. s) (js ''pref'') (city_value ''Rome'') \<noteq> derive_fact_hash (\<lambda>s. s) (js ''pref'') (city_value ''Paris'')"
  by (simp add: derive_fact_hash_def city_value_def canonical_json_def assign_members_def obj_set_def stringify_str_def
      quote_def js_def quote_unit_def proto_key_def)

lemma paris_bucket: "map_of (facts_by_identity_key (g_indexes paris)) (js ''pref:city'') = Some [js ''F1'']"
  by (simp add: paris_def city_tables build_indexes_fields city_manifest_def city_fact_def sx.add_all_def add_to_set_map_def
      map_put_def set_add_def)

lemma paris_authority: "find_authoritative_fact [js ''F1''] (g_working paris) = Some (city_fact ''F1'' ''Paris'' 80 Active 1)"
  by (simp add: find_authoritative_fact_def paris_def city_tables city_manifest_def better_def) (simp add: city_fact_def)

lemma dec_literals:
  "dec 80 2 = 7205759403792794 * 2 ^ 1021" "dec 95 2 = 8556839292003942 * 2 ^ 1021"
  "dec 99 2 = 8917127262193582 * 2 ^ 1021" "dec 50 2 = 4503599627370496 * 2 ^ 1021"
  "dec 15 2 = 5404319552844595 * 2 ^ 1019"
  by (subst dec_value [of 1021 53] dec_value [of 1019 55]; simp add: rhe_def Let_def)+

lemma fsub_scaled: "\<bar>m - n\<bar> < 9007199254740992 \<Longrightarrow> fsub (m * 2 ^ t) (n * 2 ^ t) = (m - n) * 2 ^ t"
  using rnd_exact [of "m - n" t] by (simp add: fsub_def left_diff_distrib)

lemma dec_examples:
  "fsub (dec 95 2) (dec 80 2) < dec 15 2" "- fsub (dec 95 2) (dec 80 2) < dec 15 2"
  "dec 15 2 \<le> fsub (dec 99 2) (dec 80 2)"
  "fsub (dec 50 2) (dec 80 2) < dec 15 2" "dec 15 2 \<le> - fsub (dec 50 2) (dec 80 2)"
proof -
  define u :: int where "u = 2 ^ 1019"
  have u: "0 < u" unfolding u_def by (rule zero_less_power) simp
  have s: "fsub (m * 2 ^ 1021) (n * 2 ^ 1021) = (m - n) * (4 * u)" if "\<bar>m - n\<bar> < 9007199254740992" for m n
  proof -
    have "(2::int) ^ 1021 = 4 * u" unfolding u_def by simp
    with fsub_scaled [OF that, of 1021] show ?thesis by metis
  qed
  note e = dec_literals [folded u_def] s
  show "fsub (dec 95 2) (dec 80 2) < dec 15 2" "- fsub (dec 95 2) (dec 80 2) < dec 15 2"
    "dec 15 2 \<le> fsub (dec 99 2) (dec 80 2)"
    "fsub (dec 50 2) (dec 80 2) < dec 15 2" "dec 15 2 \<le> - fsub (dec 50 2) (dec 80 2)"
    using u by (simp_all add: e del: power_numeral)
qed

lemma paris_decide:
  "dec_outcome (decide (city_input ''Rome'' 95) paris) = Conflict"
  "dec_outcome (decide (city_input ''Rome'' 99) paris) = Supersede"
  "dec_outcome (decide (city_input ''Rome'' 50) paris) = Reject"
  "dec_outcome (decide (city_input ''Paris'' 95) paris) = Converge"
  using dec_examples city_hash_neq
  by (simp_all add: decide_def arbitrate_def paris_bucket paris_authority Let_def CONFIDENCE_SUPERIORITY_THRESHOLD_def
      paris_def [symmetric] city_input_key [of _ _ "[city_fact ''F1'' ''Paris'' 80 Active 1]", folded paris_def]
      city_hash [of _ _ "[city_fact ''F1'' ''Paris'' 80 Active 1]", folded paris_def])
    (simp_all add: city_fact_def city_input_def)


lemma paris_F1: "fact_table paris (js ''F1'') = Some (city_fact ''F1'' ''Paris'' 80 Active 1)"
  "f_state (city_fact ''F1'' ''Paris'' 80 Active 1) = Active"
  by (simp_all add: paris_table) (simp add: city_fact_def)

lemma paris_F1_key: "f_identity_key (city_fact ''F1'' ''Paris'' 80 Active 1) = js ''pref:city''"
  by (simp add: city_fact_def)

lemma paris_refine_key:
  "input_key (city_input c k\<lparr>i_derived_from := Some [js ''F1'']\<rparr>) paris = f_identity_key (city_fact ''F1'' ''Paris'' 80 Active 1)"
  using city_input_key [of c k] by (simp add: input_key_def paris_def paris_F1_key)

lemma paris_refine_hash:
  "input_hash (city_input ''Rome'' k\<lparr>i_derived_from := Some [js ''F1'']\<rparr>) paris \<noteq> f_hash (city_fact ''F1'' ''Paris'' 80 Active 1)"
  "input_hash (city_input ''Paris'' k\<lparr>i_derived_from := Some [js ''F1'']\<rparr>) paris = f_hash (city_fact ''F1'' ''Paris'' 80 Active 1)"
proof -
  have h: "input_hash (city_input c k\<lparr>i_derived_from := Some [js ''F1'']\<rparr>) paris = derive_fact_hash (\<lambda>s. s) (js ''pref'') (city_value c)" for c
    using city_hash [of c k "[city_fact ''F1'' ''Paris'' 80 Active 1]"] by (simp add: input_hash_def paris_def)
  show "input_hash (city_input ''Rome'' k\<lparr>i_derived_from := Some [js ''F1'']\<rparr>) paris \<noteq> f_hash (city_fact ''F1'' ''Paris'' 80 Active 1)"
    "input_hash (city_input ''Paris'' k\<lparr>i_derived_from := Some [js ''F1'']\<rparr>) paris = f_hash (city_fact ''F1'' ''Paris'' 80 Active 1)"
    unfolding h using city_hash_neq by (simp_all add: city_fact_def)
qed


text \<open>The same manager with its manifest on disk, and a change to commit.\<close>

definition paris_files :: "jstring \<Rightarrow> fs_file option" where
  "paris_files = [js ''/m.json'' \<mapsto> manifest_doc (g_working paris)]"

definition paris_disk :: mgr where
  "paris_disk = paris\<lparr>g_dirty := True, g_env := demo_world\<lparr>w_files := paris_files\<rparr>\<rparr>"

lemma paris_disk_simps: "g_working paris_disk = g_working paris" "g_persistence paris_disk = demo_persistence"
  "g_expected paris_disk = 0" "g_env paris_disk = demo_world\<lparr>w_files := paris_files\<rparr>" "g_dirty paris_disk"
  by (simp_all add: paris_disk_def paris_def city_manager_def new_manager_def city_manifest_def)

lemma demo_io_free: "io_free (demo_world\<lparr>w_files := fs\<rparr>)"
  by (simp add: io_free_def demo_world_def)

lemma paris_disk_revision: "disk_revision demo_persistence (demo_world\<lparr>w_files := paris_files\<rparr>) = Some 0"
  using disk_revision_doc [of "demo_world\<lparr>w_files := paris_files\<rparr>" demo_persistence "g_working paris"]
  by (simp add: demo_persistence_def paris_files_def paris_def city_tables city_manifest_def)

lemma paris_disk_commit: "\<exists>r h g'. manager_commit paris_disk = (C_ok r h, g')"
  by (rule commit_free [OF demo_io_free paris_disk_revision, of "g_working paris"])
    (simp add: manager_commit_def paris_disk_simps)

lemma city_loadable: "loadable (city_manifest [city_fact ''F1'' ''Paris'' 80 Active 1]) w"
proof -
  have "manifest_wf (city_manifest [city_fact ''F1'' ''Paris'' 80 Active 1])"
    by (rule city_wf) (simp_all add: city_fact_def proto_key_def)
  then show ?thesis
    by (simp add: loadable_def manifest_clean_def validate_lineage_def fact_lineage_errors_def summary_lineage_errors_def
        city_manifest_def city_fact_def city_summary_def city_value_def obj_clean_def)
qed

text \<open>What another writer has committed meanwhile: Rome, at revision 7.\<close>

definition rival_body :: manifest where
  "rival_body = (city_manifest [city_fact ''F1'' ''Rome'' 80 Active 1])\<lparr>m_revision := 7\<rparr>"

definition rival :: manifest where
  "rival = rival_body\<lparr>m_integrity_hash := compute_integrity_hash (\<lambda>s. s) rival_body\<rparr>"

lemma hash_skips_hash: "compute_integrity_hash sha (m\<lparr>m_integrity_hash := h\<rparr>) = compute_integrity_hash sha m"
  by (simp add: compute_integrity_hash_def hash_document_def manifest_json_def)

lemma rival_hash: "m_integrity_hash rival = compute_integrity_hash (\<lambda>s. s) rival"
  unfolding rival_def hash_skips_hash by simp

lemma rival_loadable: "loadable rival w"
proof -
  have "manifest_wf (city_manifest [city_fact ''F1'' ''Rome'' 80 Active 1])"
    by (rule city_wf) (simp_all add: city_fact_def proto_key_def)
  then show ?thesis
    by (simp add: rival_def rival_body_def loadable_def manifest_wf_def manifest_clean_def validate_lineage_def fact_lineage_errors_def
        summary_lineage_errors_def city_manifest_def city_fact_def city_summary_def city_value_def obj_clean_def)
qed

definition rival_world :: world where
  "rival_world = demo_world\<lparr>w_files := [js ''/m.json'' \<mapsto> manifest_doc rival]\<rparr>"

lemma rival_load: "\<exists>w'. load demo_persistence (rival_world\<lparr>w_io := n\<rparr>) = (L_ok rival (build_indexes rival), w')"
proof (rule load_stored)
  show "io_free (rival_world\<lparr>w_io := n\<rparr>)" by (simp add: rival_world_def demo_world_def io_free_def)
  show "m_integrity_hash rival = compute_integrity_hash (w_sha (rival_world\<lparr>w_io := n\<rparr>)) rival"
    using rival_hash by (simp add: rival_world_def demo_world_def)
  show "w_files (rival_world\<lparr>w_io := n\<rparr>) (p_manifest_path demo_persistence) = Some (manifest_doc rival)"
    by (simp add: rival_world_def demo_persistence_def)
qed (rule rival_loadable)

lemma rival_revision: "disk_revision demo_persistence rival_world = Some 7"
  using disk_revision_doc [of rival_world demo_persistence rival]
  by (simp add: rival_world_def demo_persistence_def rival_def rival_body_def)

end
