(* ===== verification/ManifestProps.thy ===== *)
theory ManifestProps
  imports Scenarios
begin

text \<open>
  The properties of the manifest engine, each with a witness on a state of \<open>Scenarios\<close>:
  what an observation does to the beliefs, what every sequence of calls keeps, what a
  commit publishes and a load reads, and what two writers can do to each other.
\<close>

section \<open>Beliefs\<close>

text \<open>C1: \<open>addFact\<close> refines belief update. After it the table of facts is the old one changed
  exactly as the decision says: the new fact is added (active, superseded or conflicted), the
  contested fact is superseded, strengthened or marked conflicted, and no other row changes.\<close>

theorem add_fact_table:
  assumes "base g" "fresh_next g" "now_iso g = (now, g1)"
  shows "fact_table (snd (add_fact input g)) =
    belief_update (decide input g) (incoming_fact input g) (i_source input) now (fact_table g)"
  using assms by (intro add_fact_refines)

theorem add_fact_table_witness:
  "fact_table (snd (add_fact (city_input ''Rome'' 99) paris)) =
    belief_update (decide (city_input ''Rome'' 99) paris) (incoming_fact (city_input ''Rome'' 99) paris) (js ''user'')
      (fst (now_iso paris)) (fact_table paris)"
  using add_fact_table [OF paris_ok(1,3), of "fst (now_iso paris)" "snd (now_iso paris)" "city_input ''Rome'' 99"]
  by (simp add: city_input_def)

text \<open>C5: If no identity key has two active facts, \<open>addFact\<close> keeps it so, whatever it decides:
  an observation never leaves two active beliefs about the same thing.\<close>

theorem add_fact_single_active:
  assumes "base g" "indexed_ok g" "fresh_next g" "single_active (fact_table g)"
  shows "single_active (fact_table (snd (add_fact input g)))"
  using assms by (intro single_active_add)

theorem add_fact_single_active_witness:
  "single_active (fact_table (snd (add_fact (city_input ''Rome'' 99) paris)))"
  using add_fact_single_active [OF paris_ok paris_single] .

text \<open>The fact that arbitration compares an observation with is the right one: it is a live
  fact of the identity key, it is active if any fact of the key is, and no active fact of the
  key has a higher confidence. When the decision is "new", every fact of the key is retired.\<close>

lemma arbitration_authority:
  assumes "base g" "indexed_ok g"
  shows "if dec_outcome (decide input g) = New
    then \<forall>i f. fact_table g i = Some f \<longrightarrow> f_identity_key f = input_key input g \<longrightarrow> \<not> live_fact f
    else \<exists>a. fact_table g (dec_existing (decide input g)) = Some a \<and> live_fact a \<and> f_identity_key a = input_key input g \<and>
      (\<forall>i f. fact_table g i = Some f \<longrightarrow> f_identity_key f = input_key input g \<longrightarrow> f_state f = Active \<longrightarrow>
        f_state a = Active \<and> f_confidence f \<le> f_confidence a)"
proof (cases "dec_outcome (decide input g) = New")
  case True
  with decide_new_retired [OF assms(2) True] show ?thesis by (auto simp: fact_table_def)
next
  case False
  from decide_existing [OF assms(1) False] obtain a ids where a: "dec_existing (decide input g) = f_id a"
    "get_fact (f_id a) g = Some a" "live_fact a"
    "map_of (facts_by_identity_key (g_indexes g)) (input_key input g) = Some ids" "f_id a \<in> set ids" by metis
  have "f_state a = Active \<and> f_confidence f \<le> f_confidence a"
    if "fact_table g i = Some f" "f_identity_key f = input_key input g" "f_state f = Active" for i f
    using decide_active_wins [OF assms False, of i f] that a by (auto simp: fact_table_def)
  with a key_bucket [OF assms(2) a(4)] False show ?thesis by (auto simp: fact_table_def)
qed

lemma arbitration_authority_witness:
  "\<exists>a. fact_table paris (dec_existing (decide (city_input ''Rome'' 50) paris)) = Some a \<and> live_fact a"
  using arbitration_authority [OF paris_ok(1,2), of "city_input ''Rome'' 50"] paris_decide(3) by auto

text \<open>C9: When a fact is superseded or contradicted by a new observation, superseded by hand or
  invalidated, every active summary that was built from it is marked stale.\<close>

theorem staleness_propagates:
  assumes "base g" "indexed_ok g" "fresh_next g"
  shows "(dec_outcome (decide input g) = Supersede \<or> dec_outcome (decide input g) = Conflict \<longrightarrow>
      all_stale (dec_existing (decide input g)) (snd (add_fact input g))) \<and>
    (fst (supersede_fact i reason g) = Inr () \<longrightarrow> all_stale i (snd (supersede_fact i reason g))) \<and>
    (fst (invalidate_fact i reason g) = Inr () \<longrightarrow> all_stale i (snd (invalidate_fact i reason g)))"
  using add_fact_all_stale [OF assms(1,2) _ assms(3)] supersede_all_stale [OF assms(1,2)] invalidate_all_stale [OF assms(1,2)]
  by (simp add: prod_eq_iff)

theorem staleness_propagates_witness:
  "all_stale (dec_existing (decide (city_input ''Rome'' 99) paris)) (snd (add_fact (city_input ''Rome'' 99) paris))"
  using staleness_propagates [OF paris_ok, of "city_input ''Rome'' 99"] paris_decide(2) by blast

text \<open>Discovery indexes stay distinct and bounded by the manifest's counter, and the counter
  grows by one for every observation that adds a fact and stays for one that converges.\<close>

lemma discovery_indexes:
  assumes "base g" "fresh_next g" "discovery_ok g"
  shows "discovery_ok (snd (add_fact input g)) \<and>
    m_last_fact_index (g_working (snd (add_fact input g))) =
      m_last_fact_index (g_working g) + (if dec_outcome (decide input g) = Converge then 0 else 1)"
  using discovery_ok_add [OF assms] last_index_add [OF assms(1)] by blast

section \<open>Refinements\<close>

text \<open>C7: A refinement of the active belief of its key with a different value resolves the key:
  the new fact is active with the proposed value, the target is superseded, and no other fact
  of the key is active or conflicted, whatever arbitration alone would have decided.\<close>

theorem refinement_resolves:
  assumes "base g" "indexed_ok g" "fresh_next g" "single_active (fact_table g)"
    and "fact_table g target = Some t" "f_state t = Active"
    and "input = refinement\<lparr>i_derived_from := Some [target]\<rparr>" "input_key input g = f_identity_key t"
    and "input_hash input g \<noteq> f_hash t"
    and "propose_refinement target refinement g = (res, g')"
  shows "\<exists>ok x y. res = Inr ok \<and> pr_superseded_fact_id ok = target \<and> pr_new_fact_id ok \<noteq> target \<and>
    fact_table g' (pr_new_fact_id ok) = Some x \<and> f_state x = Active \<and> f_value x = i_value input \<and>
    fact_table g' target = Some y \<and> f_state y = Superseded \<and>
    (\<forall>i f. fact_table g' i = Some f \<longrightarrow> f_identity_key f = f_identity_key t \<longrightarrow> f_state f \<in> {Active, Conflicted} \<longrightarrow>
       i = pr_new_fact_id ok)"
  by (rule refinement_result [OF assms(1,2,4,3,5-10)]) blast

theorem refinement_resolves_witness:
  "\<exists>ok x. fst (propose_refinement (js ''F1'') (city_input ''Rome'' 50) paris) = Inr ok \<and>
     fact_table (snd (propose_refinement (js ''F1'') (city_input ''Rome'' 50) paris)) (pr_new_fact_id ok) = Some x \<and> f_state x = Active"
  using refinement_resolves [OF paris_ok paris_single paris_F1 refl paris_refine_key paris_refine_hash(1) surjective_pairing]
  by blast

text \<open>A refinement that repeats the value of the active belief destroys it: the call succeeds
  and names the target as its own replacement, the target is superseded, and the key is left
  without any active fact.\<close>

lemma refinement_by_same_value:
  assumes "base g" "indexed_ok g" "fresh_next g" "single_active (fact_table g)"
    and "fact_table g target = Some t" "f_state t = Active"
    and "input = refinement\<lparr>i_derived_from := Some [target]\<rparr>" "input_key input g = f_identity_key t"
    and "input_hash input g = f_hash t"
    and "propose_refinement target refinement g = (res, g')"
  shows "(\<exists>ok y. res = Inr ok \<and> pr_new_fact_id ok = target \<and> fact_table g' target = Some y \<and> f_state y = Superseded) \<and>
    (\<forall>i f. fact_table g' i = Some f \<longrightarrow> f_identity_key f = f_identity_key t \<longrightarrow> f_state f \<noteq> Active)"
  using refinement_same_value [OF assms(1,2,4,3,5-10)] by blast

lemma refinement_by_same_value_witness:
  "\<nexists>i f. fact_table (snd (propose_refinement (js ''F1'') (city_input ''Paris'' 95) paris)) i = Some f \<and>
     f_identity_key f = js ''pref:city'' \<and> f_state f = Active"
  using refinement_by_same_value [OF paris_ok paris_single paris_F1 refl paris_refine_key paris_refine_hash(2) surjective_pairing]
    paris_F1_key by metis

section \<open>Sequences of calls\<close>

text \<open>The manifest that the working copy goes back to: the one at the start, or the document that the
  last successful reload has read.\<close>

definition origin_after :: "mgr_call \<Rightarrow> mgr \<Rightarrow> manifest \<Rightarrow> manifest" where
  "origin_after c g origin =
     (if c = Call_reload then (case fst (load (g_persistence g) (g_env g)) of L_ok doc ix \<Rightarrow> doc | _ \<Rightarrow> origin) else origin)"

fun origin_of :: "mgr_call list \<Rightarrow> mgr \<Rightarrow> manifest \<Rightarrow> manifest" where
  "origin_of [] g origin = origin"
| "origin_of (c # cs) g origin = origin_of cs (exec c g) (origin_after c g origin)"

text \<open>A call other than a reload draws new identifiers only, and a document that a reload reads is well formed.\<close>

definition orderly :: "mgr_call \<Rightarrow> mgr \<Rightarrow> bool" where
  "orderly c g \<longleftrightarrow>
     (if c = Call_reload then (case fst (load (g_persistence g) (g_env g)) of L_ok doc ix \<Rightarrow> manifest_wf doc | _ \<Rightarrow> True)
      else fresh_next g)"

fun orderly_run :: "mgr_call list \<Rightarrow> mgr \<Rightarrow> bool" where
  "orderly_run [] g \<longleftrightarrow> True"
| "orderly_run (c # cs) g \<longleftrightarrow> orderly c g \<and> orderly_run cs (exec c g)"

lemma orderly_step:
  assumes "base g" "orderly c g" "extends origin (g_working g)"
  shows "base (exec c g) \<and> extends (origin_after c g origin) (g_working (exec c g))"
proof (cases "c = Call_reload")
  case False
  then have "keeps_history c g" using assms(2) by (simp add: orderly_def keeps_history_def)
  from hist.exec_inv [OF assms(1) this] hist.exec_before [OF assms(1) this] assms(3) False show ?thesis
    by (auto simp: origin_after_def intro: extends_trans)
next
  case True
  obtain r w where l: "load (g_persistence g) (g_env g) = (r, w)" by fastforce
  show ?thesis
  proof (cases r)
    case (L_ok doc ix)
    then have "manifest_wf doc" using assms(2) True l by (simp add: orderly_def)
    moreover obtain q where "m_operations (g_working (exec c g)) = m_operations doc @ [q]"
      using log_op_ops [of Manifest_loaded "[(js ''event'', Str (js ''reload''))]"
          "g\<lparr>g_env := w, g_working := doc, g_indexes := ix, g_expected := m_revision doc, g_dirty := False\<rparr>"]
      by (auto simp: True reload_def l L_ok)
    ultimately show ?thesis
      by (simp add: True origin_after_def l L_ok reload_def base_def manifest_wf_def extends_def)
  qed (use assms in \<open>simp_all add: True origin_after_def l reload_def base_def\<close>)
qed

text \<open>C4: The working copy loses nothing, except that a reload takes it back to the document on disk. Over
  every sequence of manager calls, in which drawn identifiers are new and the documents that reloads read
  are well formed, the working manifest extends the one that the last successful reload has read, or
  the one at the start when there was none: the operation log only grows, every fact keeps all fields but
  state, confidence, observations and sources, references stay, and summaries change only in state and
  staleness. (The commit operations in the documents on disk are not part of the working copy.)\<close>

theorem history_is_kept:
  assumes "base g" "orderly_run cs g"
  shows "extends (origin_of cs g (g_working g)) (g_working (foldl (\<lambda>g c. exec c g) g cs)) \<and>
    (Call_reload \<notin> set cs \<longrightarrow> extends (g_working g) (g_working (foldl (\<lambda>g c. exec c g) g cs)))"
proof -
  have run: "extends (origin_of cs g origin) (g_working (foldl (\<lambda>g c. exec c g) g cs))" if "extends origin (g_working g)" for origin
    using assms that
  proof (induction cs arbitrary: g origin)
    case (Cons c cs)
    from orderly_step [of g c origin] Cons.prems Cons.IH [of "exec c g" "origin_after c g origin"] show ?case by simp
  qed simp
  have "origin_of cs g origin = origin" if "Call_reload \<notin> set cs" for origin
    using that by (induction cs arbitrary: g) (auto simp: origin_after_def)
  with run [of "g_working g"] show ?thesis by (metis extends_refl)
qed

theorem history_is_kept_witness:
  "extends rival (g_working (exec Call_reload (paris\<lparr>g_env := rival_world\<rparr>))) \<and>
   extends (g_working paris) (g_working (exec (Call_add_fact (city_input ''Rome'' 99)) paris))"
proof -
  let ?g = "paris\<lparr>g_env := rival_world\<rparr>"
  have "rival_world = rival_world\<lparr>w_io := w_io rival_world\<rparr>" by simp
  then obtain w where "load demo_persistence rival_world = (L_ok rival (build_indexes rival), w)"
    using rival_load by metis
  then have l: "load (g_persistence paris) rival_world = (L_ok rival (build_indexes rival), w)"
    by (simp add: paris_def city_manager_def new_manager_def)
  have "base ?g" using paris_ok(1) by (simp add: base_def)
  moreover have "orderly_run [Call_reload] ?g" using rival_loadable by (simp add: orderly_def l loadable_def)
  ultimately have "extends rival (g_working (exec Call_reload ?g))"
    using history_is_kept [of ?g "[Call_reload]"] by (simp add: origin_after_def l)
  moreover have "orderly_run [Call_add_fact (city_input ''Rome'' 99)] paris" using paris_ok(3) by (simp add: orderly_def)
  ultimately show ?thesis using history_is_kept [OF paris_ok(1), of "[Call_add_fact (city_input ''Rome'' 99)]"] by simp
qed

text \<open>C2: Over every sequence of calls without a reload and without a forced refinement the
  in-memory indexes describe the manifest exactly, so the validator accepts them.\<close>

theorem indexes_stay_exact:
  assumes "base g" "indexed_ok g" "live.permitted_run cs g"
  shows "indexed_ok (live.run cs g) \<and>
    iv_ok (validate_indexes (g_working (live.run cs g)) (g_indexes (live.run cs g)))"
proof -
  have i: "base (live.run cs g) \<and> indexed_ok (live.run cs g)" using assms by (intro live.run_inv) auto
  then have "keys_ok (m_facts (g_working (live.run cs g)))"
    by (simp add: base_def manifest_wf_def table_ok_def)
  with i show ?thesis by (auto simp: indexed_ok_def validate_indexes_iff idx_ok_consistent idx_ok_def)
qed

theorem indexes_stay_exact_witness:
  "indexed_ok (exec (Call_invalidate (js ''F1'') []) paris)"
  using indexes_stay_exact [OF paris_ok(1,2), of "[Call_invalidate (js ''F1'') []]"] paris_ok
  by (simp add: keeps_indexes_def)

text \<open>\<open>addSummary\<close> keeps at most one active summary per type and scope: it refines retiring
  the active summary of that type and scope, if there is one, and adding the new one.\<close>

lemma one_active_summary:
  assumes "base g" "fresh_next g" "summary_unique g" "add_summary input g = (r, g')"
  shows "summary_unique g' \<and>
    (\<exists>now. summary_table g' = summary_update (clash_of input g) (new_summary input (fst r) now) (summary_table g) \<and>
       snd r = map_option s_id (clash_of input g) \<and> summary_table g (fst r) = None)"
proof -
  from add_summary_refines [OF assms(1,4,2)] obtain s where s: "summary_table g' = summary_update (clash_of input g) s (summary_table g)"
    "s = new_summary input (fst r) (s_generated_at s)" "snd r = map_option s_id (clash_of input g)"
    "summary_table g (fst r) = None" by blast
  from summary_unique_add [OF assms(1,3,2), of input] assms(4) have "summary_unique g'" by simp
  with s show ?thesis by metis
qed

definition new_profile :: add_summary_input where
  "new_profile = \<lparr>si_type = js ''profile'', si_scope = js ''user'', si_key_points = [js ''moved''], si_conflicts = None,
     si_recommended_next_actions = None, si_source_fact_ids = [js ''F1''], si_source_ref_ids = None, si_confidence = dec 9 1\<rparr>"

lemma one_active_summary_example: "summary_unique (snd (add_summary new_profile paris))"
  using one_active_summary [OF paris_ok(1,3) paris_unique, of new_profile "fst (add_summary new_profile paris)"
      "snd (add_summary new_profile paris)"] by simp

section \<open>Queries\<close>

text \<open>C10: \<open>queryFacts\<close> without a limit returns exactly the facts that match every filter, the
  answer from an index being the same as a full scan would give; with a limit it returns a
  slice from the front, and every answer is sorted by confidence, ties by discovery index.\<close>

theorem query_exact:
  assumes "indexed_ok g"
  shows "set (query_facts (q\<lparr>q_limit := None\<rparr>) g) = {f. \<exists>i. get_fact i g = Some f \<and> query_all_match (q\<lparr>q_limit := None\<rparr>) f} \<and>
    query_facts q g = (case q_limit q of None \<Rightarrow> query_facts (q\<lparr>q_limit := None\<rparr>) g
      | Some n \<Rightarrow> if n = 0 then query_facts (q\<lparr>q_limit := None\<rparr>) g else slice (query_facts (q\<lparr>q_limit := None\<rparr>) g) 0 n) \<and>
    sorted_wrt (\<lambda>a b. f_confidence b < f_confidence a \<or>
      f_confidence b = f_confidence a \<and> f_discovery_index a \<le> f_discovery_index b) (query_facts q g)"
proof (intro conjI)
  show "set (query_facts (q\<lparr>q_limit := None\<rparr>) g) = {f. \<exists>i. get_fact i g = Some f \<and> query_all_match (q\<lparr>q_limit := None\<rparr>) f}"
    using query_results_set [OF assms] by (simp add: query_facts_def Let_def)
qed (rule query_limited, rule query_sorted [unfolded query_order_le])

definition any_pref :: query_filter where
  "any_pref = \<lparr>q_type = Some (js ''pref''), q_state = None, q_identity_key = None, q_source = None,
     q_min_confidence = None, q_limit = None\<rparr>"

theorem query_exact_witness:
  "city_fact ''F1'' ''Paris'' 80 Active 1 \<in> set (query_facts any_pref paris)"
proof -
  have "any_pref\<lparr>q_limit := None\<rparr> = any_pref" "query_all_match any_pref (city_fact ''F1'' ''Paris'' 80 Active 1)"
    by (simp_all add: any_pref_def query_all_match_def query_match_def query_states_def truthy_str_def) (simp add: city_fact_def)
  note a = this
  have "get_fact (js ''F1'') paris = Some (city_fact ''F1'' ''Paris'' 80 Active 1)"
    using paris_F1(1) by (simp add: fact_table_def)
  then show ?thesis
    using conjunct1 [OF query_exact [OF paris_ok(2), of any_pref], unfolded a(1)] a(2) by blast
qed

section \<open>Committing\<close>

text \<open>The result of a successful commit.\<close>

definition published :: "mgr \<Rightarrow> int \<Rightarrow> jstring \<Rightarrow> mgr \<Rightarrow> bool" where
  "published g r h g' \<longleftrightarrow> r = g_expected g + 1 \<and> disk_revision (g_persistence g) (g_env g) = Some (g_expected g) \<and>
     (\<exists>final opn. w_files (g_env g') (p_manifest_path (g_persistence g)) = Some (manifest_doc final) \<and>
        m_facts final = m_facts (g_working g) \<and> m_references final = m_references (g_working g) \<and>
        m_summaries final = m_summaries (g_working g) \<and> m_revision final = r \<and> m_integrity_hash final = h \<and>
        m_operations final = m_operations (g_working g) @ [opn] \<and> op_type opn = Manifest_committed) \<and>
     \<not> g_dirty g' \<and> disk_revision (g_persistence g') (g_env g') = Some (g_expected g')"

text \<open>A commit of a changed manager that succeeds found the expected revision on disk, and
  leaves there the document of the working manifest with the next revision and one more
  operation, the commit; the manager is clean and expects what is now on disk. A commit that
  fails leaves the file and the working manifest as they were, and the manager dirty.\<close>

lemma commit_publishes:
  assumes "g_dirty g" "manager_commit g = (res, g')"
  shows "case res of
      C_ok r h \<Rightarrow> published g r h g'
    | C_fail f e \<Rightarrow> g_working g' = g_working g \<and> g_dirty g' \<and>
        w_files (g_env g') (p_manifest_path (g_persistence g)) = w_files (g_env g) (p_manifest_path (g_persistence g))"
proof (cases res)
  case (C_ok r h)
  from assms(2) have c: "manager_commit g = (C_ok r h, g')" by (simp only: C_ok)
  show ?thesis
    unfolding C_ok commit_result.case published_def
    by (rule manager_commit_ok [OF assms(1) c]) blast
next
  case (C_fail f e)
  with manager_commit_fail [of g f e g'] assms(2) show ?thesis by simp
qed

lemma commit_publishes_example:
  "\<exists>r h g'. manager_commit paris_disk = (C_ok r h, g') \<and> published paris_disk r h g'"
proof -
  from paris_disk_commit obtain r h g' where c: "manager_commit paris_disk = (C_ok r h, g')" by blast
  with commit_publishes [OF _ c] show ?thesis by (auto simp: paris_disk_def)
qed

end
