(* ===== verification/StoreProps.thy ===== *)
theory StoreProps
  imports Scenarios
begin

text \<open>
  The properties of the store: what a commit writes a load reads, atomicity under every
  pattern of file-system errors, commits of serial and of overlapping writers, and the
  changes that never reach the disk.
\<close>

section \<open>Round trip\<close>

lemma loadable_committed:
  assumes "loadable m w" "prepare_commit p m n w1 = (final, w2)"
    and "\<And>r. r \<in> set (obj_values (m_references m)) \<Longrightarrow> w_files w' (r_path r) = w_files w (r_path r)"
  shows "loadable final w'"
proof -
  note f = prepare_commit_fields [OF assms(2)]
  from f(8) obtain q where q: "m_operations final = m_operations m @ [q]" "obj_clean (op_metadata q)" by blast
  have "validate_lineage final = validate_lineage m" using f by (intro validate_lineage_cong) simp_all
  with assms(1,3) q f show ?thesis
    by (auto simp: loadable_def manifest_clean_def manifest_wf_def)
qed

text \<open>C3: What \<open>commit\<close> writes, \<open>load\<close> reads. When no file-system call fails, committing a
  well-formed manifest of JSON data whose lineage and references are in order succeeds, and
  loading the file passes every gate (schema, integrity hash, lineage, references, indexes)
  and returns a manifest with the same facts, references, summaries and counters, the next
  revision, the log with the commit appended, and the indexes built from it.\<close>

theorem commit_load_roundtrip:
  assumes "io_free w" "disk_revision p w = Some n" "loadable m w"
    and "\<forall>r \<in> set (obj_values (m_references m)). r_path r \<noteq> p_manifest_path p \<and> r_path r \<noteq> tmp_path (p_manifest_path p)"
  shows "\<exists>h w1 final w2 opn. commit p m n w = (C_ok (n + 1) h, w1) \<and>
    load p w1 = (L_ok final (build_indexes final), w2) \<and>
    m_facts final = m_facts m \<and> m_references final = m_references m \<and> m_summaries final = m_summaries m \<and>
    m_last_fact_index final = m_last_fact_index m \<and> m_revision final = n + 1 \<and> m_integrity_hash final = h \<and>
    m_operations final = m_operations m @ [opn] \<and> op_type opn = Manifest_committed"
proof -
  obtain final w1 w' where c: "prepare_commit p m n (w\<lparr>w_io := Suc (w_io w)\<rparr>) = (final, w1)"
    "commit p m n w = (C_ok (n + 1) (m_integrity_hash final), w')" "io_free w'" "w_sha w' = w_sha w"
    "w_files w' (p_manifest_path p) = Some (manifest_doc final)"
    "\<And>q. q \<noteq> tmp_path (p_manifest_path p) \<Longrightarrow> q \<noteq> p_manifest_path p \<Longrightarrow> w_files w' q = w_files w q"
    using commit_free [OF assms(1,2)] by metis
  note f = prepare_commit_fields [OF c(1)]
  have "loadable final w'"
    using assms(4) by (intro loadable_committed [OF assms(3) c(1)] c(6)) auto
  moreover have "m_integrity_hash final = compute_integrity_hash (w_sha w') final" using f(9) c(4) by simp
  ultimately obtain w2 where "load p w' = (L_ok final (build_indexes final), w2)"
    using load_stored [OF c(3)] c(5) by blast
  with c(2) f show ?thesis by blast
qed

theorem commit_load_roundtrip_witness:
  "\<exists>h w1 final w2. commit demo_persistence (city_manifest [city_fact ''F1'' ''Paris'' 80 Active 1]) 0
      (demo_world\<lparr>w_files := paris_files\<rparr>) = (C_ok 1 h, w1) \<and>
    load demo_persistence w1 = (L_ok final (build_indexes final), w2)"
  using commit_load_roundtrip [OF demo_io_free paris_disk_revision city_loadable] by (auto simp: city_manifest_def)

section \<open>Atomicity\<close>

text \<open>C6: The write is atomic. Whatever calls fail on the way (creating the directory, opening
  or writing the temporary file, syncing, closing, renaming), the manifest file holds what it
  held before, or, exactly when the write reports success, the new document in full; no file
  but the temporary one changes.\<close>

theorem write_is_atomic:
  "\<forall>q. q \<noteq> tmp_path (p_manifest_path p) \<longrightarrow>
     w_files (snd (commit_raw p m w)) q =
       (if fst (commit_raw p m w) = None \<and> q = p_manifest_path p then Some (manifest_doc m) else w_files w q)"
  using commit_raw_files [of p m w] by (metis prod.collapse)

theorem write_is_atomic_witness:
  "w_files (snd (commit_raw demo_persistence (city_manifest []) (demo_world\<lparr>w_io_error := (\<lambda>n. if n = 4 then Some [] else None)\<rparr>)))
     (js ''/m.json'') = None"
  using write_is_atomic [rule_format, of "js ''/m.json''" demo_persistence "city_manifest []"
      "demo_world\<lparr>w_io_error := (\<lambda>n. if n = 4 then Some [] else None)\<rparr>"]
  by (simp add: demo_persistence_def demo_world_def tmp_path_def commit_raw_def try_io_def Let_def put_file_def
      split: if_splits)

section \<open>Writers\<close>

text \<open>C8: Serial writers cannot lose an update. If commits run one after the other, in any number
  and with any expected revisions, the successful ones get consecutive revisions, and a
  writer that still holds the revision from before a success is refused.\<close>

theorem serial_commits_ordered:
  assumes "rs.run p ds w = (revs, w')" "disk_revision p w = Some n"
  shows "disk_revision p w' = Some (n + int (length revs)) \<and>
    revs = map (\<lambda>i. n + 1 + int i) [0..<length revs] \<and>
    (revs \<noteq> [] \<longrightarrow> fst (save_manifest p m n w') = None)"
  using rs.run_rev [OF assms] rs.stale_save_fails [OF assms] by blast

theorem serial_commits_ordered_witness:
  "fst (save_manifest demo_persistence (city_manifest []) 0
     (snd (rs.run demo_persistence [(city_manifest [], 0)] (demo_world\<lparr>w_files := paris_files\<rparr>)))) = None"
proof -
  obtain r h w' where c: "commit demo_persistence (city_manifest []) 0 (demo_world\<lparr>w_files := paris_files\<rparr>) = (C_ok r h, w')"
    by (rule commit_free [OF demo_io_free paris_disk_revision])
  then have "rs.run demo_persistence [(city_manifest [], 0)] (demo_world\<lparr>w_files := paris_files\<rparr>) = ([r], w')"
    by (simp add: save_manifest_def)
  with serial_commits_ordered [OF this paris_disk_revision] show ?thesis by simp
qed

text \<open>If no two writers of one file are between the revision check and the write at the same
  time, every reachable state of the writers has each revision in the log at most once, newest
  first, and the newest is the one on disk.\<close>

lemma exclusive_writers:
  assumes "serial_reach p s0 s" "d_log s0 = []" "busy s0 = {}" "disk_revision p (d_world s0) = Some n"
  shows "distinct (map (fst \<circ> snd) (d_log s)) \<and>
    (d_log s \<noteq> [] \<longrightarrow> disk_revision p (d_world s) = Some (fst (snd (hd (d_log s)))))"
proof -
  have "serial_inv p s0" using assms(2-4) by (auto simp: serial_inv_def busy_def)
  from serial_reach_inv [OF assms(1) this] show ?thesis
    by (auto simp: serial_inv_def intro: sorted_log_distinct)
qed

definition two_writers :: disk_state where
  "two_writers = \<lparr>d_world = demo_world\<lparr>w_files := paris_files\<rparr>, d_phase = (\<lambda>i. Idle), d_log = []\<rparr>"

lemma commit_finish_free:
  assumes "io_free w"
  obtains h w' final where "commit_finish p m d w = (C_ok (d + 1) h, w')" "io_free w'"
    "w_files w' (p_manifest_path p) = Some (manifest_doc final)" "m_facts final = m_facts m" "m_revision final = d + 1"
proof -
  obtain final w1 where pr: "prepare_commit p m d w = (final, w1)" by fastforce
  note f = prepare_commit_fields [OF pr]
  from f assms have "io_free w1" by simp
  then obtain w' where raw: "commit_raw p final w1 = (None, w')" "io_free w'" using commit_raw_free by blast
  show ?thesis
    by (rule that [of "m_integrity_hash final" w' final])
      (use pr raw f commit_raw_files [OF raw(1)] in \<open>auto simp: commit_finish_def\<close>)
qed

text \<open>Overlapping writers can lose an update. From any state in which two writers are idle,
  both can commit the same revision with success, and the file then holds the facts of the
  second manifest only: the check and the write are separate file-system calls and nothing
  locks the file between them.\<close>

lemma overlapping_commits_lose_update:
  assumes "io_free (d_world s)" "disk_revision p (d_world s) = Some n" "d_phase s 0 = Idle" "d_phase s 1 = Idle"
  shows "\<exists>s1 s2 s3 s4 final. disk_step p s s1 \<and> disk_step p s1 s2 \<and> disk_step p s2 s3 \<and> disk_step p s3 s4 \<and>
    d_log s4 = (1, n + 1, m2) # (0, n + 1, m1) # d_log s \<and>
    w_files (d_world s4) (p_manifest_path p) = Some (manifest_doc final) \<and> m_facts final = m_facts m2"
proof -
  let ?w0 = "d_world s"
  let ?w1 = "?w0\<lparr>w_io := Suc (w_io ?w0)\<rparr>"
  let ?w2 = "?w1\<lparr>w_io := Suc (w_io ?w1)\<rparr>"
  have c1: "commit_check p n ?w0 = (Inr n, ?w1)" using assms by (intro commit_check_free)
  have "disk_revision p ?w1 = Some n" using assms(2) by (simp add: disk_revision_def)
  then have c2: "commit_check p n ?w1 = (Inr n, ?w2)" using assms(1) by (intro commit_check_free) simp_all
  have "io_free ?w2" using assms(1) by simp
  then obtain h3 w3 f3 where w3: "commit_finish p m1 n ?w2 = (C_ok (n + 1) h3, w3)" "io_free w3"
    by (rule commit_finish_free)
  from w3(2) obtain h4 w4 final where w4: "commit_finish p m2 n w3 = (C_ok (n + 1) h4, w4)"
    "w_files w4 (p_manifest_path p) = Some (manifest_doc final)" "m_facts final = m_facts m2"
    by (rule commit_finish_free)
  define s1 where "s1 = s\<lparr>d_world := ?w1, d_phase := (d_phase s)(0 := Checked m1 n)\<rparr>"
  define s2 where "s2 = s1\<lparr>d_world := ?w2, d_phase := (d_phase s1)(1 := Checked m2 n)\<rparr>"
  define s3 where "s3 = s2\<lparr>d_world := w3, d_phase := (d_phase s2)(0 := Idle), d_log := (0, n + 1, m1) # d_log s2\<rparr>"
  define s4 where "s4 = s3\<lparr>d_world := w4, d_phase := (d_phase s3)(1 := Idle), d_log := (1, n + 1, m2) # d_log s3\<rparr>"
  have "disk_step p s s1" unfolding s1_def by (rule ds_check [OF assms(3) c1])
  moreover have "disk_step p s1 s2"
    unfolding s2_def by (rule ds_check) (use assms(4) c2 in \<open>simp_all add: s1_def\<close>)
  moreover have "disk_step p s2 s3"
    unfolding s3_def by (rule ds_write) (use w3 in \<open>simp_all add: s2_def s1_def\<close>)
  moreover have "disk_step p s3 s4"
    unfolding s4_def by (rule ds_write) (use w4 in \<open>simp_all add: s3_def s2_def\<close>)
  moreover have "d_log s4 = (1, n + 1, m2) # (0, n + 1, m1) # d_log s" "d_world s4 = w4"
    by (simp_all add: s4_def s3_def s2_def s1_def)
  ultimately show ?thesis using w4 by blast
qed

lemma overlapping_commits_lose_update_example:
  "\<exists>s1 s2 s3 s4 final. disk_step demo_persistence two_writers s1 \<and> disk_step demo_persistence s1 s2 \<and>
    disk_step demo_persistence s2 s3 \<and> disk_step demo_persistence s3 s4 \<and>
    d_log s4 = [(1, 1, city_manifest []), (0, 1, city_manifest [city_fact ''F1'' ''Paris'' 80 Active 1])] \<and>
    w_files (d_world s4) (js ''/m.json'') = Some (manifest_doc final) \<and> m_facts final = []"
  using overlapping_commits_lose_update [of two_writers demo_persistence 0 "city_manifest []"
      "city_manifest [city_fact ''F1'' ''Paris'' 80 Active 1]"] demo_io_free [of paris_files] paris_disk_revision
  by (simp add: two_writers_def demo_persistence_def city_manifest_def)

section \<open>Changes that are not written\<close>

text \<open>An observation that converges changes a row but leaves a clean manager clean, and
  committing a clean manager does nothing: the strengthened confidence and the new source are
  lost unless something else makes the manager dirty. Every other observation makes it dirty.\<close>

lemma convergence_is_not_committed:
  "if dec_outcome (decide input g) = Converge
   then g_dirty (snd (add_fact input g)) = g_dirty g \<and>
     (\<not> g_dirty g \<longrightarrow> snd (manager_commit (snd (add_fact input g))) = snd (add_fact input g))
   else g_dirty (snd (add_fact input g))"
  using converge_not_dirty [of input g] other_outcomes_dirty [of input g] by (auto simp: manager_commit_clean)

lemma convergence_is_not_committed_witness:
  "snd (manager_commit (snd (add_fact (city_input ''Paris'' 95) paris))) = snd (add_fact (city_input ''Paris'' 95) paris)"
  using convergence_is_not_committed [of "city_input ''Paris'' 95" paris] paris_decide(4)
  by (simp add: paris_def city_tables)

end
