(* ===== verification/IdentityProps.thy ===== *)
theory IdentityProps
  imports Scenarios
begin

text \<open>
  The properties of the pure parts of the manifest engine: canonical JSON, identity keys,
  the decision table of arbitration and the index validator.
\<close>

section \<open>Canonical JSON\<close>

text \<open>C11: Canonical JSON is deterministic: documents that differ only in the order of object
  members and in members that are \<open>undefined\<close>, at any depth, have the same text, and so the
  same fact hash.\<close>

theorem canonical_json_determined:
  assumes "same_data (Obj v) (Obj w)"
  shows "canonical_json (Obj v) = canonical_json (Obj w) \<and> derive_fact_hash sha t v = derive_fact_hash sha t w"
  using same_data_replacer [OF assms] by (simp add: canonical_json_def derive_fact_hash_def del: sorted_replacer.simps)

theorem canonical_json_determined_witness:
  "canonical_json (Obj [(js ''b'', Null), (js ''a'', Bool True)]) = canonical_json (Obj [(js ''a'', Bool True), (js ''b'', Null)])"
proof -
  have "same_data (Obj [(js ''b'', Null), (js ''a'', Bool True)]) (Obj [(js ''a'', Bool True), (js ''b'', Null)])"
    by (rule same_perm) (simp_all add: keys_ok_def)
  from canonical_json_determined [OF this, of "\<lambda>s. s" "[]"] show ?thesis ..
qed

text \<open>A member called \<open>__proto__\<close> is invisible to canonical JSON at the top of a value: two
  values that differ only in it have the same fact hash, so a new observation that changes
  nothing else is taken for the old one.\<close>

lemma canonical_json_ignores_proto:
  "canonical_json (Obj (filter (\<lambda>(k, v). k \<noteq> js ''__proto__'') v)) = canonical_json (Obj v)"
  using sorted_replacer_proto [of v] by (simp add: canonical_json_def proto_key_def)

section \<open>Identity keys\<close>

text \<open>Identity keys of different types never meet: for types without a colon, registered or
  not, the keys of two values are different when their types are.\<close>

lemma identity_keys_separate_types:
  assumes "58 \<notin> set t" "58 \<notin> set u" "t \<noteq> u"
  shows "derive_identity_key sha (builtin_registry sha) t v \<noteq> derive_identity_key sha (builtin_registry sha) u w"
proof
  assume eq: "derive_identity_key sha (builtin_registry sha) t v = derive_identity_key sha (builtin_registry sha) u w"
  obtain x y where "derive_identity_key sha (builtin_registry sha) t v = t @ js '':'' @ x"
    "derive_identity_key sha (builtin_registry sha) u w = u @ js '':'' @ y"
    using builtin_key_prefix [of sha t v] builtin_key_prefix [of sha u w] by blast
  with eq have "t @ 58 # x = u @ 58 # y" by (simp add: js_def)
  from colon_split [OF assms(1,2) this] assms(3) show False by simp
qed

lemma identity_keys_separate_types_witness:
  "derive_identity_key (\<lambda>s. s) (builtin_registry (\<lambda>s. s)) (js ''task'') [] \<noteq>
   derive_identity_key (\<lambda>s. s) (builtin_registry (\<lambda>s. s)) (js ''event'') []"
  using identity_keys_separate_types [of "js ''task''" "js ''event''" "\<lambda>s. s"] by (simp add: js_def)

text \<open>The key of a credential does not depend on the secret: changing any member but the ones
  that name the account and the service leaves the key as it is.\<close>

lemma credential_key_hides_secret:
  assumes "k \<notin> js ` {''username'', ''account'', ''principal'', ''service'', ''host'', ''realm'', ''provider''}"
  shows "credential_key (obj_set k secret v) = credential_key v"
proof -
  have "field (obj_set k secret v) n = field v n"
    if "n \<in> {''username'', ''account'', ''principal'', ''service'', ''host'', ''realm'', ''provider''}" for n
    using assms that by (cases "k = proto_key") (auto simp: field_def jget_def map_of_obj_set, auto simp: obj_set_def)
  then show ?thesis by (simp add: credential_key_def)
qed

text \<open>Normalization makes a normal form of every text without control characters other than
  white space: lower case, no white space at the ends, single spaces inside, and normalizing
  again changes nothing.\<close>

lemma norm_text_normalizes:
  assumes "ctrl_free s"
  shows "normal_key (norm_text s) \<and> norm_text (norm_text s) = norm_text s"
  using norm_text_normal [OF assms] by (simp add: norm_text_normal_key)

text \<open>A control character between white space defeats the normalization: the key part is not
  normalized, and normalizing it again gives another key.\<close>

lemma norm_text_not_idempotent:
  "\<exists>s. norm_text (norm_text s) \<noteq> norm_text s"
proof
  show "norm_text (norm_text [97, 32, 1, 32, 98]) \<noteq> norm_text [97, 32, 1, 32, 98]"
    by (simp add: norm_text_def lower_unit_def trim_def is_ws_def strip_ctrl_def)
qed

section \<open>The decision\<close>

text \<open>\<open>standing a c m ix\<close>: arbitration compares the observation \<open>c\<close> with the fact \<open>a\<close>, of another value.\<close>

definition standing :: "fact \<Rightarrow> candidate \<Rightarrow> manifest \<Rightarrow> manifest_indexes \<Rightarrow> bool" where
  "standing a c m ix \<longleftrightarrow> (\<exists>ids. map_of (facts_by_identity_key ix) (c_identity_key c) = Some ids \<and>
     find_authoritative_fact ids m = Some a) \<and> c_fact_hash c \<noteq> f_hash a"

lemma standing_outcome:
  "standing a c m ix \<Longrightarrow> dec_outcome (arbitrate thr c m ix) =
     (if thr \<le> fsub (c_confidence c) (f_confidence a) then Supersede
      else if thr \<le> - fsub (c_confidence c) (f_confidence a) then Reject else Conflict)"
  by (auto simp: standing_def arbitrate_def Let_def find_authoritative_fact_def)

lemma fsub_swap: "fsub y x = - fsub x y"
  using rnd_minus [of "x - y"] by (simp add: fsub_def)

text \<open>The threshold treats both sides alike: if an observation of confidence \<open>a\<close> supersedes a
  standing fact of confidence \<open>b\<close> with another value, then an observation of confidence \<open>b\<close>
  is rejected by a standing fact of confidence \<open>a\<close>, and the other way round; and between
  two values it decides exactly one of supersede, reject and conflict.\<close>

lemma arbitration_symmetric:
  assumes "standing a c m ix" "standing b d n iy"
    and "c_confidence c = f_confidence b" "c_confidence d = f_confidence a"
  shows "(dec_outcome (arbitrate CONFIDENCE_SUPERIORITY_THRESHOLD c m ix) = Supersede \<longleftrightarrow>
      dec_outcome (arbitrate CONFIDENCE_SUPERIORITY_THRESHOLD d n iy) = Reject) \<and>
    (dec_outcome (arbitrate CONFIDENCE_SUPERIORITY_THRESHOLD c m ix) = Conflict \<longleftrightarrow>
      dec_outcome (arbitrate CONFIDENCE_SUPERIORITY_THRESHOLD d n iy) = Conflict)"
  using threshold_pos fsub_swap [of "f_confidence a" "f_confidence b"]
  by (simp add: standing_outcome [OF assms(1)] standing_outcome [OF assms(2)] assms(3,4))

definition city_candidate :: "string \<Rightarrow> int \<Rightarrow> candidate" where
  "city_candidate c k = \<lparr>c_fact_hash = derive_fact_hash (\<lambda>s. s) (js ''pref'') (city_value c), c_identity_key = js ''pref:city'',
     c_confidence = dec k 2, c_source = js ''user''\<rparr>"

lemma city_standing:
  assumes "derive_fact_hash (\<lambda>s. s) (js ''pref'') (city_value d) \<noteq> derive_fact_hash (\<lambda>s. s) (js ''pref'') (city_value c)"
  shows "standing (city_fact ''F1'' c k Active 1) (city_candidate d l) (city_manifest [city_fact ''F1'' c k Active 1])
    (build_indexes (city_manifest [city_fact ''F1'' c k Active 1]))"
proof -
  have "map_of (facts_by_identity_key (build_indexes (city_manifest [city_fact ''F1'' c k Active 1]))) (js ''pref:city'') = Some [js ''F1'']"
    by (simp add: build_indexes_fields city_manifest_def city_fact_def sx.add_all_def add_to_set_map_def map_put_def set_add_def)
  moreover have "find_authoritative_fact [js ''F1''] (city_manifest [city_fact ''F1'' c k Active 1]) = Some (city_fact ''F1'' c k Active 1)"
    by (simp add: find_authoritative_fact_def city_manifest_def better_def) (simp add: city_fact_def)
  ultimately show ?thesis using assms by (simp add: standing_def city_candidate_def city_fact_def)
qed

lemma arbitration_symmetric_witness:
  "dec_outcome (arbitrate CONFIDENCE_SUPERIORITY_THRESHOLD (city_candidate ''Rome'' 99)
      (city_manifest [city_fact ''F1'' ''Paris'' 80 Active 1])
      (build_indexes (city_manifest [city_fact ''F1'' ''Paris'' 80 Active 1]))) = Supersede \<longleftrightarrow>
   dec_outcome (arbitrate CONFIDENCE_SUPERIORITY_THRESHOLD (city_candidate ''Paris'' 80)
      (city_manifest [city_fact ''F1'' ''Rome'' 99 Active 1])
      (build_indexes (city_manifest [city_fact ''F1'' ''Rome'' 99 Active 1]))) = Reject"
proof (rule conjunct1 [OF arbitration_symmetric])
  show "standing (city_fact ''F1'' ''Paris'' 80 Active 1) (city_candidate ''Rome'' 99)
      (city_manifest [city_fact ''F1'' ''Paris'' 80 Active 1]) (build_indexes (city_manifest [city_fact ''F1'' ''Paris'' 80 Active 1]))"
    by (rule city_standing [OF city_hash_neq])
  show "standing (city_fact ''F1'' ''Rome'' 99 Active 1) (city_candidate ''Paris'' 80)
      (city_manifest [city_fact ''F1'' ''Rome'' 99 Active 1]) (build_indexes (city_manifest [city_fact ''F1'' ''Rome'' 99 Active 1]))"
    by (rule city_standing [OF city_hash_neq [symmetric]])
qed (simp_all add: city_candidate_def city_fact_def)

text \<open>The threshold is compared with a rounded difference of rounded decimals: an observation
  of confidence 0.95 against a standing 0.80 is a conflict, although 0.95 - 0.80 is the threshold
  0.15 that the documentation promises to be enough.\<close>

lemma threshold_boundary_rounds_down:
  "dec_outcome (decide (city_input ''Rome'' 95) paris) = Conflict \<and>
   f_confidence (city_fact ''F1'' ''Paris'' 80 Active 1) = dec 80 2 \<and> i_confidence (city_input ''Rome'' 95) = dec 95 2 \<and>
   CONFIDENCE_SUPERIORITY_THRESHOLD = dec 15 2"
  by (simp add: paris_decide CONFIDENCE_SUPERIORITY_THRESHOLD_def) (simp add: city_fact_def city_input_def)

section \<open>Indexes\<close>

text \<open>Building the indexes of a well-formed manifest gives its exact index, and the validator
  accepts indexes if and only if their type buckets, state sets and reference buckets agree
  with the manifest.\<close>

lemma indexes_built_and_validated:
  assumes "manifest_wf m"
  shows "idx_ok m (build_indexes m) \<and> (keys_idx_ok ix \<longrightarrow> (iv_ok (validate_indexes m ix) \<longleftrightarrow> idx_consistent m ix))"
  using build_indexes_ok [OF assms] validate_indexes_iff [of m ix] assms
  by (auto simp: manifest_wf_def table_ok_def)

lemma indexes_built_and_validated_witness:
  "idx_ok (g_working paris) (build_indexes (g_working paris))"
  using indexes_built_and_validated [of "g_working paris" empty_indexes] paris_ok(1) by (simp add: base_def)

end
