(* ===== verification/RecallTool.thy ===== *)
theory RecallTool
  imports ManagerProps
begin

text \<open>
  The recall tool (\<open>src/tools/recall-tool.ts\<close>): reading parts of a stored artifact. Each
  \<open>exec_*\<close> is one mode, \<open>recall\<close> is the entry point with its validation, the integrity
  check and the audit record, \<open>format_recall_result\<close> renders a response for the model.
  Line numbers and configuration values are integers; a line number of -1 marks a note.
  The lemmas say which lines a mode returns, that they are lines of the artifact under their
  own numbers, what the caps bound, and what a recall changes.
\<close>

record recall_config =
  rc_default_lines :: int
  rc_full_mode_max_lines :: int
  rc_full_mode_max_bytes :: int
  rc_search_context_lines :: int
  rc_search_max_matches :: int

definition recall_defaults :: recall_config where
  "recall_defaults = \<lparr>rc_default_lines = 40, rc_full_mode_max_lines = 2000, rc_full_mode_max_bytes = 200000,
     rc_search_context_lines = 2, rc_search_max_matches = 30\<rparr>"

datatype recall_failure = Ref_not_found | Artifact_missing | Hash_mismatch | Invalid_request | Recall_io_error

fun recall_failure_str :: "recall_failure \<Rightarrow> jstring" where
  "recall_failure_str Ref_not_found = js ''not_found''"
| "recall_failure_str Artifact_missing = js ''artifact_missing''"
| "recall_failure_str Hash_mismatch = js ''hash_mismatch''"
| "recall_failure_str Invalid_request = js ''invalid_request''"
| "recall_failure_str Recall_io_error = js ''io_error''"

datatype recall_response = Recall_ok recall_result | Recall_error ref_id recall_failure jstring

section \<open>Mode executors\<close>

text \<open>Lines with consecutive numbers, and a note between them.\<close>

definition numbered :: "int \<Rightarrow> jstring list \<Rightarrow> recall_line list" where
  "numbered k ls = map (\<lambda>(i, t). \<lparr>ln_n = k + int i, ln_text = t\<rparr>) (indexed ls)"

definition note_line :: "jstring \<Rightarrow> recall_line" where
  "note_line t = \<lparr>ln_n = - 1, ln_text = t\<rparr>"

definition recall_of :: "reference \<Rightarrow> recall_mode \<Rightarrow> jstring list \<Rightarrow> int \<Rightarrow> recall_line list \<Rightarrow> recall_result" where
  "recall_of r mode all bytes ls =
     \<lparr>rr_ref_id = r_id r, rr_mode = mode, rr_label = r_label r, rr_total_lines = int (length all), rr_byte_size = bytes,
      rr_source = r_source r, rr_created_at = r_created_at r, rr_lines = ls, rr_match_count = None\<rparr>"

definition exec_summary :: "recall_config \<Rightarrow> reference \<Rightarrow> jstring list \<Rightarrow> int \<Rightarrow> recall_result" where
  "exec_summary cfg r all bytes =
     (let total = int (length all);
          n = min (rc_default_lines cfg) (total div 2);
          head = numbered 1 (take (nat n) all);
          sep = (if n * 2 < total
                 then [note_line (js ''... ['' @ show_int (total - n * 2) @ js '' lines omitted] ...'')] else []);
          from = max n (total - n)
      in recall_of r M_summary all bytes (head @ sep @ numbered (from + 1) (drop (nat from) all)))"

definition exec_head :: "recall_config \<Rightarrow> reference \<Rightarrow> jstring list \<Rightarrow> recall_request \<Rightarrow> recall_result" where
  "exec_head cfg r all rq =
     (let count = (case rq_end_line rq of Some n \<Rightarrow> n | None \<Rightarrow> rc_default_lines cfg);
          part = slice all 0 count
      in recall_of r M_head all (int (length (join nl part))) (numbered 1 part))"

definition exec_tail :: "recall_config \<Rightarrow> reference \<Rightarrow> jstring list \<Rightarrow> recall_request \<Rightarrow> recall_result" where
  "exec_tail cfg r all rq =
     (let count = (case rq_start_line rq of Some n \<Rightarrow> n | None \<Rightarrow> rc_default_lines cfg);
          from = max 0 (int (length all) - count);
          part = slice_from all from
      in recall_of r M_tail all (int (length (join nl part))) (numbered (from + 1) part))"

definition exec_range :: "reference \<Rightarrow> jstring list \<Rightarrow> recall_request \<Rightarrow> recall_result" where
  "exec_range r all rq =
     (let start = max 1 (case rq_start_line rq of Some n \<Rightarrow> n | None \<Rightarrow> 1);
          stop = min (int (length all)) (case rq_end_line rq of Some n \<Rightarrow> n | None \<Rightarrow> int (length all));
          part = slice all (start - 1) stop
      in recall_of r M_range all (int (length (join nl part))) (numbered start part))"

text \<open>The loop of \<open>execFull\<close>: \<open>k\<close> lines and \<open>b\<close> characters have been taken.\<close>

fun take_capped :: "recall_config \<Rightarrow> int \<Rightarrow> int \<Rightarrow> jstring list \<Rightarrow> jstring list" where
  "take_capped cfg k b [] = []"
| "take_capped cfg k b (l # ls) =
     (if rc_full_mode_max_lines cfg \<le> k \<or> rc_full_mode_max_bytes cfg < b + int (length l) then []
      else l # take_capped cfg (k + 1) (b + int (length l) + 1) ls)"

definition exec_full :: "recall_config \<Rightarrow> reference \<Rightarrow> jstring list \<Rightarrow> int \<Rightarrow> recall_result" where
  "exec_full cfg r all bytes =
     (if rc_full_mode_max_lines cfg < int (length all) \<or> rc_full_mode_max_bytes cfg < bytes
      then (let ls = take_capped cfg 0 0 all
            in recall_of r M_full all bytes (numbered 1 ls @
                 [note_line (js ''[Truncated: '' @ show_int (int (length all) - int (length ls)) @
                    js '' lines omitted. Use range mode for specific sections.]'')]))
      else recall_of r M_full all bytes (numbered 1 all))"

definition line_matches :: "jstring \<Rightarrow> jstring \<Rightarrow> bool" where
  "line_matches q l \<longleftrightarrow> str_includes (lower l) (lower q)"

definition window_of :: "int \<Rightarrow> int \<Rightarrow> int \<Rightarrow> int list" where
  "window_of ctx len i = [max 0 (i - ctx)..min (len - 1) (i + ctx)]"

text \<open>The first loop of \<open>execSearch\<close>: the indexes of matches with their context.\<close>

fun mark_from :: "recall_config \<Rightarrow> int \<Rightarrow> jstring \<Rightarrow> int \<Rightarrow> jstring list \<Rightarrow> int jset \<Rightarrow> int jset" where
  "mark_from cfg len q i [] seen = seen"
| "mark_from cfg len q i (l # ls) seen =
     (if line_matches q l
      then (let seen = foldl (\<lambda>s c. set_add c s) seen (window_of (rc_search_context_lines cfg) len i)
            in if rc_search_max_matches cfg * (rc_search_context_lines cfg * 2 + 1) \<le> int (length seen) then seen
               else mark_from cfg len q (i + 1) ls seen)
      else mark_from cfg len q (i + 1) ls seen)"

text \<open>The second loop: the lines, a separator between groups, and the cap on matches.\<close>

fun emit_from :: "recall_config \<Rightarrow> jstring list \<Rightarrow> jstring \<Rightarrow> int \<Rightarrow> int \<Rightarrow> int list \<Rightarrow> recall_line list \<times> int" where
  "emit_from cfg all q prev found [] = ([], found)"
| "emit_from cfg all q prev found (i # marked) =
     (let sep = (if prev + 1 < i \<and> 0 \<le> prev then [note_line (js ''---'')] else []);
          found = (if line_matches q (all ! nat i) then found + 1 else found);
          this = sep @ [\<lparr>ln_n = i + 1, ln_text = all ! nat i\<rparr>]
      in if rc_search_max_matches cfg \<le> found
         then (this @ [note_line (js ''[Search capped at '' @ show_int (rc_search_max_matches cfg) @ js '' matches]'')], found)
         else (let (ls, n) = emit_from cfg all q i found marked in (this @ ls, n)))"

definition exec_search :: "recall_config \<Rightarrow> reference \<Rightarrow> jstring list \<Rightarrow> recall_request \<Rightarrow> recall_result" where
  "exec_search cfg r all rq =
     (let q = (case rq_query rq of Some s \<Rightarrow> s | None \<Rightarrow> []);
          marked = sort (mark_from cfg (int (length all)) q 0 all []);
          (ls, n) = emit_from cfg all q (- 2) 0 marked
      in (recall_of r M_search all 0 ls)\<lparr>rr_match_count := Some n\<rparr>)"

section \<open>Validation and entry point\<close>

definition validate_request :: "recall_request \<Rightarrow> jstring option" where
  "validate_request rq =
     (if rq_mode rq = M_range
      then (case (rq_start_line rq, rq_end_line rq) of
              (Some a, Some b) \<Rightarrow>
                if a < 1 then Some (js ''start_line must be >= 1'')
                else if b < a then Some (js ''end_line must be >= start_line'')
                else None
            | _ \<Rightarrow> Some (js ''range mode requires both start_line and end_line''))
      else if rq_mode rq = M_search \<and> (case rq_query rq of None \<Rightarrow> True | Some q \<Rightarrow> trim q = [])
      then Some (js ''search mode requires a non-empty query'')
      else None)"

fun exec_mode :: "recall_config \<Rightarrow> reference \<Rightarrow> jstring \<Rightarrow> recall_request \<Rightarrow> recall_mode \<Rightarrow> recall_result" where
  "exec_mode cfg r raw rq M_summary = exec_summary cfg r (split_nl raw) (int (length raw))"
| "exec_mode cfg r raw rq M_head = exec_head cfg r (split_nl raw) rq"
| "exec_mode cfg r raw rq M_tail = exec_tail cfg r (split_nl raw) rq"
| "exec_mode cfg r raw rq M_range = exec_range r (split_nl raw) rq"
| "exec_mode cfg r raw rq M_full = exec_full cfg r (split_nl raw) (int (length raw))"
| "exec_mode cfg r raw rq M_search = exec_search cfg r (split_nl raw) rq"

fun read_error_message :: "jstring \<Rightarrow> read_error \<Rightarrow> jstring" where
  "read_error_message p Enoent = js ''ENOENT: no such file or directory, open '' @ [39] @ p @ [39]"
| "read_error_message p (Io_error e) = e"

definition recall :: "recall_config \<Rightarrow> recall_request \<Rightarrow> mgr \<Rightarrow> recall_response \<times> mgr" where
  "recall cfg rq g =
     (let i = rq_ref_id rq; mode = (js ''mode'', Str (mode_str (rq_mode rq))); ref = (js ''ref_id'', Str i) in
      case validate_request rq of
        Some e \<Rightarrow> (Recall_error i Invalid_request e, g)
      | None \<Rightarrow>
          (case get_reference i g of
             None \<Rightarrow> (Recall_error i Ref_not_found (js ''No reference found for '' @ i), g)
           | Some r \<Rightarrow>
               (case read_file (r_path r) (g_env g) of
                  (Inl e, w) \<Rightarrow>
                    (Recall_error i Artifact_missing (js ''Failed to read '' @ r_path r @ js '': '' @ read_error_message (r_path r) e),
                     g\<lparr>g_env := w\<rparr>)
                | (Inr c, w) \<Rightarrow>
                    (let raw = file_text c; g = g\<lparr>g_env := w\<rparr>; h = w_sha w raw
                     in if h \<noteq> r_content_hash r
                        then (Recall_error i Hash_mismatch
                                (js ''Artifact integrity check failed for '' @ i @ js ''. Content may have been modified.''),
                              log_op Recall_event [ref, mode, (js ''outcome'', Str (js ''hash_mismatch'')),
                                (js ''expected'', Str (r_content_hash r)), (js ''actual'', Str h)] g)
                        else (let result = exec_mode cfg (r\<lparr>r_id := i\<rparr>) raw rq (rq_mode rq)
                              in (Recall_ok result,
                                  log_op Recall_event [ref, mode, (js ''outcome'', Str (js ''success'')),
                                    (js ''lines_returned'', int_json (int (length (rr_lines result)))),
                                    (js ''match_count'', (case rr_match_count result of None \<Rightarrow> Undef | Some n \<Rightarrow> int_json n))] g))))))"

text \<open>The detached recall function of a manager.\<close>

definition create_recall_tool :: "recall_config \<Rightarrow> recall_request \<Rightarrow> mgr \<Rightarrow> recall_response \<times> mgr" where
  "create_recall_tool cfg = (\<lambda>rq. recall cfg rq)"

section \<open>Rendering\<close>

definition render_line :: "recall_line \<Rightarrow> jstring" where
  "render_line l = (if ln_n l = - 1 then ln_text l else pad_start 4 32 (show_int (ln_n l)) @ js '': '' @ ln_text l)"

fun format_recall_result :: "recall_response \<Rightarrow> jstring" where
  "format_recall_result (Recall_error i reason detail) =
     js ''[recall_evidence error: '' @ recall_failure_str reason @ js ''] '' @ detail"
| "format_recall_result (Recall_ok x) =
     (let header = join (js '' | '')
            ([js ''REF: '' @ rr_ref_id x, js ''Label: '' @ rr_label x, js ''Source: '' @ rr_source x,
              js ''Total: '' @ show_int (rr_total_lines x) @ js '' lines'', js ''Mode: '' @ mode_str (rr_mode x)] @
             (case rr_match_count x of None \<Rightarrow> [] | Some n \<Rightarrow> [js ''Matches: '' @ show_int n]));
          body = join nl (map render_line (rr_lines x))
      in js ''--- '' @ header @ js '' ---'' @ nl @ body @ nl @ js ''--- end '' @ rr_ref_id x @ js '' ---'')"

section \<open>Lemmas: the lines of a result\<close>

text \<open>\<open>line_of all l\<close>: a note, or a line of the artifact under its own number; \<open>shown\<close>: the
  numbers of the lines that are not notes.\<close>

definition line_of :: "jstring list \<Rightarrow> recall_line \<Rightarrow> bool" where
  "line_of all l \<longleftrightarrow> ln_n l = - 1 \<or> 1 \<le> ln_n l \<and> ln_n l \<le> int (length all) \<and> ln_text l = all ! nat (ln_n l - 1)"

definition shown :: "recall_line list \<Rightarrow> int list" where
  "shown ls = filter (\<lambda>n. n \<noteq> - 1) (map ln_n ls)"

lemma shown_simps [simp]:
  "shown [] = []" "shown (l # ls) = (if ln_n l = - 1 then shown ls else ln_n l # shown ls)"
  "shown (ls @ ms) = shown ls @ shown ms"
  by (simp_all add: shown_def)

lemma note_line_simps [simp]: "ln_n (note_line t) = - 1" "line_of all (note_line t)" "ln_text (note_line t) = t"
  by (simp_all add: note_line_def line_of_def)

lemma length_numbered [simp]: "length (numbered k ls) = length ls"
  by (simp add: numbered_def)

lemma numbered_nth: "i < length ls \<Longrightarrow> numbered k ls ! i = \<lparr>ln_n = k + int i, ln_text = ls ! i\<rparr>"
  by (simp add: numbered_def)

lemma numbered_text [simp]: "map ln_text (numbered k ls) = ls"
  by (rule nth_equalityI) (simp_all add: numbered_nth)

lemma numbered_numbers: "map ln_n (numbered k ls) = [k..k + int (length ls) - 1]"
  by (rule nth_equalityI) (simp_all add: numbered_nth)

lemma shown_numbered: "1 \<le> k \<Longrightarrow> shown (numbered k ls) = [k..k + int (length ls) - 1]"
  unfolding shown_def numbered_numbers by (intro filter_True) auto

lemma line_of_numbered:
  assumes "1 \<le> k" "nat (k - 1) + length ls \<le> length all" "ls = take (length ls) (drop (nat (k - 1)) all)"
    and "l \<in> set (numbered k ls)"
  shows "line_of all l"
proof -
  from assms(4) obtain i where i: "i < length ls" "l = \<lparr>ln_n = k + int i, ln_text = ls ! i\<rparr>"
    by (metis in_set_conv_nth length_numbered numbered_nth)
  moreover have "ls ! i = all ! (nat (k - 1) + i)" using assms(2,3) i(1) by (metis nth_take nth_drop le_add1 le_trans)
  moreover have "nat (k + int i - 1) = nat (k - 1) + i" using assms(1) by simp
  ultimately show ?thesis using assms(1,2) by (simp add: line_of_def)
qed

lemma line_of_part:
  assumes "0 \<le> a" "l \<in> set (numbered (a + 1) (take m (drop (nat a) all)))"
  shows "line_of all l"
proof (rule line_of_numbered [OF _ _ _ assms(2)])
  have "take m (drop (nat a) all) \<noteq> []"
  proof
    assume e: "take m (drop (nat a) all) = []"
    from assms(2) show False unfolding e by (simp add: numbered_def indexed_def)
  qed
  then have "nat a \<le> length all" by (cases "nat a \<le> length all") auto
  then show "nat (a + 1 - 1) + length (take m (drop (nat a) all)) \<le> length all" by simp
qed (use assms(1) in \<open>simp_all add: min_def\<close>)

text \<open>What every mode guarantees of its lines.\<close>

definition faithful :: "jstring list \<Rightarrow> recall_line list \<Rightarrow> bool" where
  "faithful all ls \<longleftrightarrow> (\<forall>l \<in> set ls. line_of all l) \<and> sorted_wrt (<) (shown ls)"

lemma sorted_upto [simp]: "sorted_wrt (<) [a..b :: int]"
  by (simp add: strict_sorted_iff)

lemma faithful_part: "0 \<le> a \<Longrightarrow> faithful all (numbered (a + 1) (take m (drop (nat a) all)))"
  by (simp add: faithful_def line_of_part shown_numbered)

lemma faithful_prefix: "faithful all (numbered 1 (take m all))"
  using faithful_part [of 0 all m] by simp

lemma faithful_suffix: "0 \<le> a \<Longrightarrow> faithful all (numbered (a + 1) (drop (nat a) all))"
  using faithful_part [of a all "length all"] by simp

lemma faithful_append:
  assumes "faithful all ls" "faithful all ms" "\<And>a b. a \<in> set (shown ls) \<Longrightarrow> b \<in> set (shown ms) \<Longrightarrow> a < b"
  shows "faithful all (ls @ ms)"
  using assms by (auto simp: faithful_def sorted_wrt_append)

lemma faithful_note [simp]: "faithful all [note_line t]"
  by (simp add: faithful_def)

lemma faithful_with_note: "faithful all ls \<Longrightarrow> faithful all (ls @ [note_line t])"
  by (rule faithful_append) auto

lemma faithful_Nil [simp]: "faithful all []"
  by (simp add: faithful_def)

lemma take_capped_prefix: "\<exists>m. take_capped cfg k b ls = take m ls"
proof (induction cfg k b ls rule: take_capped.induct)
  case (2 cfg k b l ls)
  show ?case
  proof (cases "rc_full_mode_max_lines cfg \<le> k \<or> rc_full_mode_max_bytes cfg < b + int (length l)")
    case True
    then have "take_capped cfg k b (l # ls) = take 0 (l # ls)" by simp
    then show ?thesis ..
  next
    case False
    with 2 obtain m where "take_capped cfg (k + 1) (b + int (length l) + 1) ls = take m ls" by blast
    with False have "take_capped cfg k b (l # ls) = take (Suc m) (l # ls)" by simp
    then show ?thesis ..
  qed
qed simp

lemma faithful_summary: "faithful all (rr_lines (exec_summary cfg r all bytes))"
proof -
  define n where "n = min (rc_default_lines cfg) (int (length all) div 2)"
  define from' where "from' = max n (int (length all) - n)"
  define head where "head = numbered 1 (take (nat n) all)"
  define sep where "sep = (if n * 2 < int (length all)
     then [note_line (js ''... ['' @ show_int (int (length all) - n * 2) @ js '' lines omitted] ...'')] else [])"
  have f: "0 \<le> from'" "n \<le> from'" by (auto simp: from'_def n_def)
  have "rr_lines (exec_summary cfg r all bytes) = (head @ sep) @ numbered (from' + 1) (drop (nat from') all)"
    unfolding exec_summary_def Let_def recall_of_def n_def from'_def head_def sep_def
    by (simp only: recall_result.select_convs append_assoc)
  moreover have "faithful all ((head @ sep) @ numbered (from' + 1) (drop (nat from') all))"
  proof (rule faithful_append)
    show "faithful all (head @ sep)"
      by (simp add: sep_def head_def faithful_with_note faithful_prefix)
    show "a < b" if "a \<in> set (shown (head @ sep))" "b \<in> set (shown (numbered (from' + 1) (drop (nat from') all)))" for a b
      using that f by (auto simp: head_def sep_def shown_numbered split: if_splits)
  qed (rule faithful_suffix [OF f(1)])
  ultimately show ?thesis by simp
qed

lemma faithful_head: "faithful all (rr_lines (exec_head cfg r all rq))"
  by (simp add: exec_head_def Let_def recall_of_def slice_def slice_ix_def faithful_prefix)

lemma slice_ix_nonneg: "0 \<le> a \<Longrightarrow> slice_ix n a = min n (nat a)"
  by (simp add: slice_ix_def)

lemma drop_slice_ix: "0 \<le> a \<Longrightarrow> drop (slice_ix (length xs) a) xs = drop (nat a) xs"
  by (simp add: slice_ix_def min_def)

lemma faithful_tail: "faithful all (rr_lines (exec_tail cfg r all rq))"
  by (simp add: exec_tail_def Let_def recall_of_def slice_from_def drop_slice_ix faithful_suffix)

lemma faithful_range: "faithful all (rr_lines (exec_range r all rq))"
proof -
  have "faithful all (numbered k (take m (drop (nat (k - 1)) all)))" if "1 \<le> k" for k m
    using faithful_part [of "k - 1" all m] that by simp
  then show ?thesis
    by (simp add: exec_range_def Let_def recall_of_def slice_def drop_slice_ix)
qed

lemma faithful_full: "faithful all (rr_lines (exec_full cfg r all bytes))"
proof -
  obtain m where m: "take_capped cfg 0 0 all = take m all" using take_capped_prefix by blast
  have "faithful all (numbered 1 all)" using faithful_prefix [of all "length all"] by simp
  then show ?thesis by (simp add: exec_full_def Let_def recall_of_def m faithful_with_note faithful_prefix)
qed

lemma mode_total: "rr_total_lines (exec_mode cfg r raw rq mode) = int (length (split_nl raw))"
  by (cases mode) (simp_all add: exec_summary_def exec_head_def exec_tail_def exec_range_def exec_full_def exec_search_def
      recall_of_def Let_def split_beta)

section \<open>Lemmas: searching\<close>

lemma fold_set_add [simp]:
  "set (foldl (\<lambda>s c. set_add c s) seen xs) = set seen \<union> set xs"
  "distinct (foldl (\<lambda>s c. set_add c s) seen xs) = distinct seen"
proof (induction xs arbitrary: seen)
  case (Cons x xs)
  case 1 from Cons show ?case by (auto simp: js_simps)
  case 2 from Cons show ?case by (auto simp: set_add_def)
qed simp_all

text \<open>The indexes that are marked after the first \<open>k\<close> lines have been looked at.\<close>

definition hits :: "jstring \<Rightarrow> jstring list \<Rightarrow> nat \<Rightarrow> nat set" where
  "hits q all k = {j. j < k \<and> line_matches q (all ! j)}"

definition covered :: "int \<Rightarrow> jstring \<Rightarrow> jstring list \<Rightarrow> nat \<Rightarrow> int set" where
  "covered ctx q all k = (\<Union>j \<in> hits q all k. set (window_of ctx (int (length all)) (int j)))"

lemma hits_Suc: "hits q all (Suc k) = (if line_matches q (all ! k) then insert k (hits q all k) else hits q all k)"
  by (auto simp: hits_def less_Suc_eq)

lemma covered_Suc:
  "covered ctx q all (Suc k) = (if line_matches q (all ! k)
     then covered ctx q all k \<union> set (window_of ctx (int (length all)) (int k)) else covered ctx q all k)"
  by (auto simp: covered_def hits_Suc)

lemma hits_finite [simp]: "finite (hits q all k)"
  by (simp add: hits_def)

lemma mark_from_covered:
  assumes "all = pre @ ls" "set seen = covered (rc_search_context_lines cfg) q all (length pre)" "distinct seen"
  shows "distinct (mark_from cfg (int (length all)) q (int (length pre)) ls seen) \<and>
    (\<exists>k \<le> length all. set (mark_from cfg (int (length all)) q (int (length pre)) ls seen) = covered (rc_search_context_lines cfg) q all k \<and>
      (k = length all \<or> rc_search_max_matches cfg * (rc_search_context_lines cfg * 2 + 1) \<le>
         int (card (covered (rc_search_context_lines cfg) q all k))))"
  using assms
proof (induction ls arbitrary: pre seen)
  case Nil
  then show ?case by auto
next
  case (Cons l ls)
  let ?seen = "foldl (\<lambda>s c. set_add c s) seen (window_of (rc_search_context_lines cfg) (int (length all)) (int (length pre)))"
  have l: "all ! length pre = l" and p: "int (length pre) + 1 = int (length (pre @ [l]))"
    "all = (pre @ [l]) @ ls" "length (pre @ [l]) = Suc (length pre)" using Cons.prems(1) by simp_all
  show ?case
  proof (cases "line_matches q l")
    case True
    with Cons.prems l have s: "set ?seen = covered (rc_search_context_lines cfg) q all (Suc (length pre))" "distinct ?seen"
      by (simp_all add: covered_Suc)
    then have c: "length ?seen = card (covered (rc_search_context_lines cfg) q all (Suc (length pre)))"
      using distinct_card [of ?seen] by simp
    show ?thesis
    proof (cases "rc_search_max_matches cfg * (rc_search_context_lines cfg * 2 + 1) \<le> int (length ?seen)")
      case stop: True
      with True s c Cons.prems(1) show ?thesis by (auto simp: Let_def intro!: exI [of _ "Suc (length pre)"])
    next
      case False
      have step: "mark_from cfg (int (length all)) q (int (length pre)) (l # ls) seen =
          mark_from cfg (int (length all)) q (int (length (pre @ [l]))) ls ?seen"
        unfolding mark_from.simps Let_def p(1) [symmetric] using True False by simp
      show ?thesis unfolding step by (rule Cons.IH) (use s p in simp_all)
    qed
  next
    case False
    then have step: "mark_from cfg (int (length all)) q (int (length pre)) (l # ls) seen =
        mark_from cfg (int (length all)) q (int (length (pre @ [l]))) ls seen"
      unfolding mark_from.simps p(1) [symmetric] by simp
    show ?thesis unfolding step by (rule Cons.IH) (use Cons.prems p l False in \<open>simp_all add: covered_Suc\<close>)
  qed
qed

lemma window_member: "n - 1 \<in> set (window_of ctx len i) \<longleftrightarrow> 1 \<le> n \<and> n \<le> len \<and> \<bar>n - (i + 1)\<bar> \<le> ctx"
  by (auto simp: window_of_def)

lemma card_window: "0 \<le> ctx \<Longrightarrow> int (card (set (window_of ctx len i))) \<le> ctx * 2 + 1"
  by (auto simp: window_of_def min_def max_def)

lemma covered_card: "0 \<le> ctx \<Longrightarrow> int (card (covered ctx q all k)) \<le> int (card (hits q all k)) * (ctx * 2 + 1)"
proof -
  assume c: "0 \<le> ctx"
  have "card (covered ctx q all k) \<le> (\<Sum>j \<in> hits q all k. card (set (window_of ctx (int (length all)) (int j))))"
    unfolding covered_def by (rule card_UN_le) simp
  also have "\<dots> \<le> (\<Sum>j \<in> hits q all k. nat (ctx * 2 + 1))"
    using card_window [OF c, of "int (length all)"] by (intro sum_mono) (simp add: le_nat_iff c)
  finally have "int (card (covered ctx q all k)) \<le> int (card (hits q all k) * nat (ctx * 2 + 1))"
    unfolding of_nat_le_iff by simp
  also have "\<dots> = int (card (hits q all k)) * (ctx * 2 + 1)" using c by simp
  finally show ?thesis .
qed

lemma hit_covered: "0 \<le> ctx \<Longrightarrow> j \<in> hits q all k \<Longrightarrow> k \<le> length all \<Longrightarrow> int j \<in> covered ctx q all k"
  unfolding covered_def by (rule UN_I [of j]) (auto simp: hits_def window_of_def)

lemma covered_range: "x \<in> covered ctx q all k \<Longrightarrow> 0 \<le> x \<and> x < int (length all)"
  by (auto simp: covered_def window_of_def)

lemma hits_card: "card (hits q all (length all)) = length (filter (line_matches q) all)"
  by (simp add: hits_def length_filter_conv_card)

definition marked_hits :: "jstring \<Rightarrow> jstring list \<Rightarrow> int list \<Rightarrow> nat" where
  "marked_hits q all xs = length (filter (\<lambda>i. line_matches q (all ! nat i)) xs)"

lemma marked_hits_simps [simp]:
  "marked_hits q all [] = 0"
  "marked_hits q all (x # xs) = (if line_matches q (all ! nat x) then Suc (marked_hits q all xs) else marked_hits q all xs)"
  by (simp_all add: marked_hits_def)

definition found_after :: "jstring \<Rightarrow> jstring list \<Rightarrow> int \<Rightarrow> int \<Rightarrow> int" where
  "found_after q all found x = (if line_matches q (all ! nat x) then found + 1 else found)"

lemma emit_simps:
  "snd (emit_from cfg all q prev found (x # xs)) =
     (if rc_search_max_matches cfg \<le> found_after q all found x then found_after q all found x
      else snd (emit_from cfg all q x (found_after q all found x) xs))"
  "0 \<le> x \<Longrightarrow> shown (fst (emit_from cfg all q prev found (x # xs))) =
     (x + 1) # (if rc_search_max_matches cfg \<le> found_after q all found x then []
      else shown (fst (emit_from cfg all q x (found_after q all found x) xs)))"
  "l \<in> set (fst (emit_from cfg all q prev found (x # xs))) \<Longrightarrow>
     ln_n l = - 1 \<or> l = \<lparr>ln_n = x + 1, ln_text = all ! nat x\<rparr> \<or>
     l \<in> set (fst (emit_from cfg all q x (found_after q all found x) xs))"
  by (auto simp: found_after_def Let_def split_beta split: if_splits)

declare emit_from.simps(2) [simp del]

lemma emit_found:
  "found < rc_search_max_matches cfg \<Longrightarrow>
   snd (emit_from cfg all q prev found xs) = min (rc_search_max_matches cfg) (found + int (marked_hits q all xs))"
  by (induction xs arbitrary: prev found) (auto simp: emit_simps(1) found_after_def)

lemma emit_shown:
  "(\<forall>x \<in> set xs. 0 \<le> x) \<Longrightarrow> \<exists>m. shown (fst (emit_from cfg all q prev found xs)) = map (\<lambda>i. i + 1) (take m xs)"
proof (induction xs arbitrary: prev found)
  case (Cons x xs)
  from Cons.prems Cons.IH [of x "found_after q all found x"]
  obtain m where m: "shown (fst (emit_from cfg all q x (found_after q all found x) xs)) = map (\<lambda>i. i + 1) (take m xs)" by auto
  show ?case
  proof (cases "rc_search_max_matches cfg \<le> found_after q all found x")
    case True
    with Cons.prems show ?thesis by (intro exI [of _ 1]) (simp add: emit_simps(2))
  next
    case False
    with Cons.prems m show ?thesis by (intro exI [of _ "Suc m"]) (simp add: emit_simps(2))
  qed
qed simp

lemma emit_all:
  "found + int (marked_hits q all xs) < rc_search_max_matches cfg \<Longrightarrow> \<forall>x \<in> set xs. 0 \<le> x \<Longrightarrow>
   shown (fst (emit_from cfg all q prev found xs)) = map (\<lambda>i. i + 1) xs"
  by (induction xs arbitrary: prev found) (auto simp: emit_simps(2) found_after_def split: if_splits)

lemma emit_lines:
  "(\<forall>x \<in> set xs. 0 \<le> x \<and> x < int (length all)) \<Longrightarrow> l \<in> set (fst (emit_from cfg all q prev found xs)) \<Longrightarrow> line_of all l"
proof (induction xs arbitrary: prev found)
  case (Cons x xs)
  have "line_of all \<lparr>ln_n = x + 1, ln_text = all ! nat x\<rparr>" using Cons.prems(1) by (simp add: line_of_def)
  with Cons emit_simps(3) [OF Cons.prems(2)] show ?case by (auto simp: line_of_def)
qed simp

text \<open>The search as a whole.\<close>

definition query_of :: "recall_request \<Rightarrow> jstring" where
  "query_of rq = (case rq_query rq of Some s \<Rightarrow> s | None \<Rightarrow> [])"

definition marked :: "recall_config \<Rightarrow> jstring \<Rightarrow> jstring list \<Rightarrow> int list" where
  "marked cfg q all = sort (mark_from cfg (int (length all)) q 0 all [])"

lemma exec_search_eq:
  "rr_lines (exec_search cfg r all rq) = fst (emit_from cfg all (query_of rq) (- 2) 0 (marked cfg (query_of rq) all))"
  "rr_match_count (exec_search cfg r all rq) = Some (snd (emit_from cfg all (query_of rq) (- 2) 0 (marked cfg (query_of rq) all)))"
  by (simp_all add: exec_search_def recall_of_def Let_def split_beta query_of_def marked_def)

lemma marked_covered:
  "sorted_wrt (<) (marked cfg q all)"
  "\<exists>k \<le> length all. set (marked cfg q all) = covered (rc_search_context_lines cfg) q all k \<and>
     (k = length all \<or> rc_search_max_matches cfg * (rc_search_context_lines cfg * 2 + 1) \<le>
        int (card (covered (rc_search_context_lines cfg) q all k)))"
  using mark_from_covered [of all "[]" all "[]" cfg q]
  by (simp_all add: marked_def strict_sorted_iff covered_def hits_def)

lemma marked_range: "x \<in> set (marked cfg q all) \<Longrightarrow> 0 \<le> x \<and> x < int (length all)"
  using marked_covered(2) [of all cfg q] by (metis covered_range)

lemma faithful_search: "faithful all (rr_lines (exec_search cfg r all rq))"
proof -
  let ?xs = "marked cfg (query_of rq) all"
  have r: "\<forall>x \<in> set ?xs. 0 \<le> x \<and> x < int (length all)" using marked_range by blast
  then obtain m where "shown (rr_lines (exec_search cfg r all rq)) = map (\<lambda>i. i + 1) (take m ?xs)"
    unfolding exec_search_eq using emit_shown by meson
  moreover have "sorted_wrt (<) (take m ?xs)" using marked_covered(1) by (rule sorted_wrt_take)
  then have "sorted_wrt (<) (map (\<lambda>i. i + 1) (take m ?xs))"
    unfolding sorted_wrt_map by (rule sorted_wrt_mono_rel [rotated]) simp
  ultimately show ?thesis
    using emit_lines [OF r] by (simp add: faithful_def exec_search_eq)
qed

lemma faithful_mode: "faithful (split_nl raw) (rr_lines (exec_mode cfg r raw rq mode))"
  by (cases mode) (simp_all add: faithful_summary faithful_head faithful_tail faithful_range faithful_full faithful_search)

section \<open>Lemmas: search results\<close>

lemma marked_hits_eq: "distinct xs \<Longrightarrow> marked_hits q all xs = card (set (filter (\<lambda>i. line_matches q (all ! nat i)) xs))"
  using distinct_card [of "filter (\<lambda>i. line_matches q (all ! nat i)) xs"] by (simp add: marked_hits_def)

lemma marked_hits_card:
  "distinct xs \<Longrightarrow> \<forall>x \<in> set xs. 0 \<le> x \<Longrightarrow> int ` S \<subseteq> set xs \<Longrightarrow> (\<And>j. j \<in> S \<Longrightarrow> line_matches q (all ! j)) \<Longrightarrow>
   card S \<le> marked_hits q all xs"
proof -
  assume a: "distinct xs" "int ` S \<subseteq> set xs" "\<And>j. j \<in> S \<Longrightarrow> line_matches q (all ! j)"
  have "card S = card (int ` S)" by (simp add: card_image)
  also have "\<dots> \<le> card (set (filter (\<lambda>i. line_matches q (all ! nat i)) xs))"
    using a(2,3) by (intro card_mono) auto
  also have "\<dots> = marked_hits q all xs" using a(1) by (simp add: marked_hits_eq)
  finally show ?thesis .
qed

lemma marked_hits_le:
  assumes "distinct xs" "\<forall>x \<in> set xs. 0 \<le> x \<and> x < int (length all)"
  shows "marked_hits q all xs \<le> length (filter (line_matches q) all)"
proof -
  have m: "x \<in> int ` hits q all (length all)" if "x \<in> set (filter (\<lambda>i. line_matches q (all ! nat i)) xs)" for x
    using that assms(2) by (intro image_eqI [of _ _ "nat x"]) (auto simp: hits_def)
  have "marked_hits q all xs = card (set (filter (\<lambda>i. line_matches q (all ! nat i)) xs))"
    using assms(1) by (rule marked_hits_eq)
  also have "\<dots> \<le> card (int ` hits q all (length all))"
    by (intro card_mono finite_imageI hits_finite subsetI m)
  also have "\<dots> = length (filter (line_matches q) all)" by (simp add: card_image hits_card)
  finally show ?thesis .
qed

lemma search_found:
  assumes "0 \<le> rc_search_context_lines cfg" "0 < rc_search_max_matches cfg"
  shows "rr_match_count (exec_search cfg r all rq) =
    Some (min (rc_search_max_matches cfg) (int (length (filter (line_matches (query_of rq)) all))))"
proof -
  let ?q = "query_of rq" and ?c = "rc_search_context_lines cfg" and ?M = "rc_search_max_matches cfg"
  let ?xs = "marked cfg ?q all" and ?n = "length (filter (line_matches ?q) all)"
  have d: "distinct ?xs" using marked_covered(1) [of cfg ?q all] by (simp add: strict_sorted_iff)
  have r: "\<forall>x \<in> set ?xs. 0 \<le> x \<and> x < int (length all)" using marked_range by blast
  from marked_covered(2) obtain k where k: "k \<le> length all" "set ?xs = covered ?c ?q all k"
    "k = length all \<or> ?M * (?c * 2 + 1) \<le> int (card (covered ?c ?q all k))" by blast
  have "int ` hits ?q all k \<subseteq> set ?xs" using hit_covered [OF assms(1) _ k(1)] k(2) by auto
  then have le: "card (hits ?q all k) \<le> marked_hits ?q all ?xs"
    using d r by (intro marked_hits_card) (auto simp: hits_def)
  from k(3) have "?n \<le> card (hits ?q all k) \<or> ?M \<le> int (card (hits ?q all k))"
  proof
    assume "?M * (?c * 2 + 1) \<le> int (card (covered ?c ?q all k))"
    also note covered_card [OF assms(1), of ?q all k]
    finally show ?thesis using assms(1) by simp
  qed (simp add: hits_card)
  with le marked_hits_le [OF d r, of ?q] assms(2) show ?thesis
    by (auto simp: exec_search_eq emit_found min_def)
qed

lemma search_shows:
  assumes "0 \<le> rc_search_context_lines cfg" "int (length (filter (line_matches (query_of rq)) all)) < rc_search_max_matches cfg"
  shows "set (shown (rr_lines (exec_search cfg r all rq))) =
    {n. 1 \<le> n \<and> n \<le> int (length all) \<and> (\<exists>j < length all. line_matches (query_of rq) (all ! j) \<and>
       \<bar>n - (int j + 1)\<bar> \<le> rc_search_context_lines cfg)}"
proof -
  let ?q = "query_of rq" and ?c = "rc_search_context_lines cfg" and ?M = "rc_search_max_matches cfg"
  let ?xs = "marked cfg ?q all" and ?n = "length (filter (line_matches ?q) all)"
  have d: "distinct ?xs" using marked_covered(1) [of cfg ?q all] by (simp add: strict_sorted_iff)
  have r: "\<forall>x \<in> set ?xs. 0 \<le> x \<and> x < int (length all)" using marked_range by blast
  from marked_covered(2) obtain k where k: "k \<le> length all" "set ?xs = covered ?c ?q all k"
    "k = length all \<or> ?M * (?c * 2 + 1) \<le> int (card (covered ?c ?q all k))" by blast
  have "\<not> ?M * (?c * 2 + 1) \<le> int (card (covered ?c ?q all k))"
  proof
    assume "?M * (?c * 2 + 1) \<le> int (card (covered ?c ?q all k))"
    also note covered_card [OF assms(1), of ?q all k]
    finally have "?M \<le> int (card (hits ?q all k))" using assms(1) by simp
    moreover have "card (hits ?q all k) \<le> ?n"
      unfolding hits_card [symmetric] using k(1) by (intro card_mono) (auto simp: hits_def)
    ultimately show False using assms(2) by simp
  qed
  with k have s: "set ?xs = covered ?c ?q all (length all)" by auto
  have "shown (rr_lines (exec_search cfg r all rq)) = map (\<lambda>i. i + 1) ?xs"
    unfolding exec_search_eq using marked_hits_le [OF d r, of ?q] assms(2) r by (intro emit_all) auto
  then have "set (shown (rr_lines (exec_search cfg r all rq))) = (\<lambda>i. i + 1) ` covered ?c ?q all (length all)"
    using s by simp
  also have "\<dots> = {n. 1 \<le> n \<and> n \<le> int (length all) \<and> (\<exists>j < length all. line_matches ?q (all ! j) \<and> \<bar>n - (int j + 1)\<bar> \<le> ?c)}"
    (is "?L = ?R")
  proof (rule set_eqI)
    fix n
    have "n \<in> ?L \<longleftrightarrow> n - 1 \<in> covered ?c ?q all (length all)" by force
    also have "\<dots> \<longleftrightarrow> (\<exists>j < length all. line_matches ?q (all ! j) \<and> n - 1 \<in> set (window_of ?c (int (length all)) (int j)))"
      by (auto simp: covered_def hits_def)
    finally show "n \<in> ?L \<longleftrightarrow> n \<in> ?R" by (auto simp: window_member)
  qed
  finally show ?thesis .
qed

section \<open>Lemmas: caps, ranges and the audit record\<close>

lemma take_capped_bounds:
  "int (length (take_capped cfg k b ls)) \<le> max 0 (rc_full_mode_max_lines cfg - k)"
  "take_capped cfg k b ls \<noteq> [] \<Longrightarrow> b + int (length (join nl (take_capped cfg k b ls))) \<le> rc_full_mode_max_bytes cfg"
proof (induction cfg k b ls rule: take_capped.induct)
  case (2 cfg k b l ls)
  case 1 from 2 show ?case by (auto split: if_splits)
  case 2
  show ?case
  proof (cases "take_capped cfg (k + 1) (b + int (length l) + 1) ls")
    case Nil
    with 2 show ?thesis by (auto split: if_splits)
  next
    case (Cons x xs)
    with "2.IH"(2) 2 show ?thesis by (auto simp: nl_def split: if_splits)
  qed
qed simp_all

lemma join_prefix_length: "length (join sep (take m ls)) \<le> length (join sep ls)"
proof (induction m arbitrary: ls)
  case (Suc m)
  show ?case
  proof (cases ls)
    case (Cons a as)
    show ?thesis using Cons Suc.IH [of as] by (cases as; cases m) auto
  qed simp
qed simp

text \<open>The lines that are not notes.\<close>

definition texts :: "recall_line list \<Rightarrow> jstring list" where
  "texts ls = map ln_text (filter (\<lambda>l. ln_n l \<noteq> - 1) ls)"

lemma texts_append [simp]: "texts (ls @ ms) = texts ls @ texts ms" "texts [note_line t] = []"
  by (simp_all add: texts_def)

lemma texts_numbered [simp]: "1 \<le> k \<Longrightarrow> texts (numbered k ls) = ls"
proof -
  assume k: "1 \<le> k"
  have "filter (\<lambda>l. ln_n l \<noteq> - 1) (numbered k ls) = numbered k ls"
    using k by (intro filter_True) (auto simp: numbered_def)
  then show ?thesis by (simp add: texts_def)
qed

lemma full_capped:
  assumes "0 \<le> rc_full_mode_max_lines cfg" "0 \<le> rc_full_mode_max_bytes cfg"
  shows "int (length (texts (rr_lines (exec_full cfg r (split_nl raw) (int (length raw)))))) \<le> rc_full_mode_max_lines cfg \<and>
    int (length (join nl (texts (rr_lines (exec_full cfg r (split_nl raw) (int (length raw))))))) \<le> rc_full_mode_max_bytes cfg"
  using take_capped_bounds [of cfg 0 0 "split_nl raw"] assms
  by (cases "take_capped cfg 0 0 (split_nl raw) = []")
    (simp_all add: exec_full_def recall_of_def Let_def join_split_nl)

lemma full_prefix: "\<exists>m. texts (rr_lines (exec_full cfg r all bytes)) = take m all"
proof -
  obtain m where m: "take_capped cfg 0 0 all = take m all" using take_capped_prefix by blast
  then show ?thesis
    by (auto simp: exec_full_def recall_of_def Let_def intro: exI [of _ "length all"])
qed

lemma range_shown:
  assumes "1 \<le> a" "a \<le> b" "rq_start_line rq = Some a" "rq_end_line rq = Some b"
  shows "shown (rr_lines (exec_range r all rq)) = [a..min b (int (length all))]"
proof -
  let ?part = "slice all (a - 1) (min (int (length all)) b)"
  have "shown (rr_lines (exec_range r all rq)) = [a..a + int (length ?part) - 1]"
    using assms by (simp add: exec_range_def Let_def recall_of_def shown_numbered)
  moreover have "a + int (length ?part) - 1 = min b (int (length all)) \<or>
      a + int (length ?part) - 1 < a \<and> min b (int (length all)) < a"
    unfolding length_slice using assms(1,2) by (simp add: slice_ix_nonneg) linarith
  ultimately show ?thesis by auto
qed

lemma summary_all:
  assumes "even (length all)" "int (length all) \<le> 2 * rc_default_lines cfg"
  shows "rr_lines (exec_summary cfg r all bytes) = numbered 1 all"
proof -
  obtain m where m: "length all = 2 * m" using assms(1) by (rule evenE)
  with assms(2) have "min (rc_default_lines cfg) (int (length all) div 2) = int m" by simp
  then have "rr_lines (exec_summary cfg r all bytes) = numbered 1 (take m all) @ numbered (int m + 1) (drop m all)"
    using m by (simp add: exec_summary_def Let_def recall_of_def)
  also have "\<dots> = numbered 1 all"
    by (rule nth_equalityI) (use m in \<open>auto simp: nth_append numbered_nth not_less\<close>)
  finally show ?thesis .
qed

lemma read_file_world:
  assumes "read_file p w = (r, w')"
  shows "w' = w\<lparr>w_io := Suc (w_io w)\<rparr>" "r = Inr c \<Longrightarrow> w_files w p = Some c"
  using assms by (auto simp: read_file_def try_io_def split: option.splits)

lemma recall_ok:
  assumes "recall cfg rq g = (Recall_ok x, g')"
  obtains r c where "get_reference (rq_ref_id rq) g = Some r" "w_files (g_env g) (r_path r) = Some c"
    "w_sha (g_env g) (file_text c) = r_content_hash r" "validate_request rq = None"
    "x = exec_mode cfg (r\<lparr>r_id := rq_ref_id rq\<rparr>) (file_text c) rq (rq_mode rq)"
proof -
  from assms obtain r where r: "validate_request rq = None" "get_reference (rq_ref_id rq) g = Some r"
    by (cases "validate_request rq"; cases "get_reference (rq_ref_id rq) g") (simp_all add: recall_def Let_def)
  obtain e w where f: "read_file (r_path r) (g_env g) = (e, w)" by fastforce
  from assms r f obtain c where c: "e = Inr c" by (cases e) (auto simp: recall_def Let_def)
  note fr = read_file_world [OF f]
  from assms r f c have "w_sha w (file_text c) = r_content_hash r \<and>
      x = exec_mode cfg (r\<lparr>r_id := rq_ref_id rq\<rparr>) (file_text c) rq (rq_mode rq)"
    by (simp add: recall_def Let_def split: if_splits)
  with r fr c show ?thesis by (intro that [of r c]) simp_all
qed

text \<open>Whatever a recall answers, the manifest differs at most in one more audit operation.\<close>

definition audited :: "mgr \<Rightarrow> bool \<Rightarrow> mgr \<Rightarrow> bool" where
  "audited g b g' \<longleftrightarrow>
     g_working g' = (g_working g)\<lparr>m_operations := m_operations (g_working g')\<rparr> \<and> g_indexes g' = g_indexes g \<and>
     g_dirty g' = g_dirty g \<and> w_files (g_env g') = w_files (g_env g) \<and>
     (if b then \<exists>q. m_operations (g_working g') = m_operations (g_working g) @ [q] \<and> op_type q = Recall_event
      else m_operations (g_working g') = m_operations (g_working g))"

lemma audited_env: "w_files w = w_files (g_env g) \<Longrightarrow> audited g False (g\<lparr>g_env := w\<rparr>)"
  by (simp add: audited_def)

lemma audited_log: "w_files w = w_files (g_env g) \<Longrightarrow> audited g True (log_op Recall_event md (g\<lparr>g_env := w\<rparr>))"
  by (simp add: audited_def record_op_def read_ms_def read_iso_def Let_def)

lemma recall_audited:
  "audited g (case fst (recall cfg rq g) of Recall_ok x \<Rightarrow> True | Recall_error i e d \<Rightarrow> e = Hash_mismatch) (snd (recall cfg rq g))"
proof -
  have z: "audited g False g" by (simp add: audited_def)
  show ?thesis
  proof (cases "validate_request rq = None \<and> get_reference (rq_ref_id rq) g \<noteq> None")
    case False
    with z show ?thesis by (auto simp: recall_def Let_def split: option.splits)
  next
    case True
    then obtain r where r: "validate_request rq = None" "get_reference (rq_ref_id rq) g = Some r" by blast
    obtain e w where f: "read_file (r_path r) (g_env g) = (e, w)" by fastforce
    have w: "w_files w = w_files (g_env g)" by (simp add: read_file_world(1) [OF f])
    note a = audited_env [OF w] audited_log [OF w]
    show ?thesis
    proof (cases e)
      case (Inl x)
      with r f a show ?thesis by (simp add: recall_def Let_def)
    next
      case (Inr c)
      with r f a show ?thesis by (simp add: recall_def Let_def)
    qed
  qed
qed

end
