(* ===== verification/RecallProps.thy ===== *)
theory RecallProps
  imports Scenarios RecallTool
begin

text \<open>
  The properties of the recall tool: it shows only verified content under its own line
  numbers, finds what is searched for, keeps to its caps, and changes nothing but the
  operation log.
\<close>

text \<open>An artifact of three lines under the reference \<open>R1\<close>.\<close>

definition poem :: jstring where
  "poem = js ''red'' @ nl @ js ''green'' @ nl @ js ''blue''"

definition poem_reference :: reference where
  "poem_reference = \<lparr>r_id = js ''R1'', r_source = js ''user'', r_label = js ''colours'', r_path = js ''/a/R1'',
     r_content_hash = poem, r_line_count = 3, r_byte_size = 14, r_created_at = js ''t0'', r_related_fact_ids = []\<rparr>"

definition poem_manager :: mgr where
  "poem_manager = paris\<lparr>g_working := (g_working paris)\<lparr>m_references := [(js ''R1'', poem_reference)]\<rparr>,
     g_env := demo_world\<lparr>w_files := [js ''/a/R1'' \<mapsto> Plain_text poem]\<rparr>\<rparr>"

definition poem_request :: "recall_mode \<Rightarrow> recall_request" where
  "poem_request mode = \<lparr>rq_ref_id = js ''R1'', rq_mode = mode, rq_start_line = Some 2, rq_end_line = Some 9, rq_query = Some (js ''RE'')\<rparr>"

lemma poem_recall:
  "recall recall_defaults (poem_request mode) poem_manager =
     (Recall_ok (exec_mode recall_defaults poem_reference poem (poem_request mode) mode),
      snd (recall recall_defaults (poem_request mode) poem_manager))"
proof -
  have v: "validate_request (poem_request mode) = None"
    by (cases mode) (simp_all add: validate_request_def poem_request_def js_def trim_def is_ws_def)
  have r: "get_reference (js ''R1'') poem_manager = Some poem_reference"
    by (simp add: get_reference_def poem_manager_def)
  have f: "read_file (r_path poem_reference) (g_env poem_manager) =
      (Inr (Plain_text poem), (g_env poem_manager)\<lparr>w_io := 1\<rparr>)"
    by (simp add: read_file_def try_io_def poem_manager_def demo_world_def poem_reference_def)
  have h: "w_sha (g_env poem_manager) = (\<lambda>s. s)" by (simp add: poem_manager_def demo_world_def)
  have u: "poem_reference\<lparr>r_id := js ''R1''\<rparr> = poem_reference" "r_content_hash poem_reference = poem"
    by (simp_all add: poem_reference_def)
  have q: "rq_ref_id (poem_request mode) = js ''R1''" "rq_mode (poem_request mode) = mode"
    by (simp_all add: poem_request_def)
  show ?thesis
    unfolding recall_def Let_def v q by (simp add: r f h u)
qed

lemma poem_lines: "split_nl poem = [js ''red'', js ''green'', js ''blue'']"
  by (simp add: poem_def nl_def js_def)

text \<open>C17: A recall that succeeds shows verified content only: the artifact was read from the path of
  the reference, its hash is the stored one, and every line shown that is not a note is the
  line of the artifact with that number, in ascending order and without repetition.\<close>

theorem recall_shows_artifact:
  assumes "recall cfg rq g = (Recall_ok x, g')"
  shows "\<exists>r c. get_reference (rq_ref_id rq) g = Some r \<and> w_files (g_env g) (r_path r) = Some c \<and>
    w_sha (g_env g) (file_text c) = r_content_hash r \<and> rr_total_lines x = int (length (split_nl (file_text c))) \<and>
    (\<forall>l \<in> set (rr_lines x). line_of (split_nl (file_text c)) l) \<and> sorted_wrt (<) (shown (rr_lines x))"
proof -
  from recall_ok [OF assms] obtain r c where r: "get_reference (rq_ref_id rq) g = Some r" "w_files (g_env g) (r_path r) = Some c"
    "w_sha (g_env g) (file_text c) = r_content_hash r"
    "x = exec_mode cfg (r\<lparr>r_id := rq_ref_id rq\<rparr>) (file_text c) rq (rq_mode rq)" by metis
  then have "faithful (split_nl (file_text c)) (rr_lines x)" by (simp add: faithful_mode)
  moreover have "rr_total_lines x = int (length (split_nl (file_text c)))" using r(4) by (simp add: mode_total)
  ultimately show ?thesis using r(1-3) by (auto simp: faithful_def)
qed

theorem recall_shows_artifact_witness:
  "\<exists>x. fst (recall recall_defaults (poem_request M_tail) poem_manager) = Recall_ok x \<and> rr_total_lines x = 3 \<and>
     sorted_wrt (<) (shown (rr_lines x))"
proof -
  let ?x = "exec_mode recall_defaults poem_reference poem (poem_request M_tail) M_tail"
  have "fst (recall recall_defaults (poem_request M_tail) poem_manager) = Recall_ok ?x"
    by (subst poem_recall) (rule fst_conv)
  moreover have "sorted_wrt (<) (shown (rr_lines ?x))"
    using recall_shows_artifact [OF poem_recall [of M_tail]] by (elim exE conjE)
  moreover have "rr_total_lines ?x = 3" by (simp only: mode_total poem_lines) simp
  ultimately show ?thesis by (intro exI conjI)
qed

text \<open>Searching is exact below the cap and counts up to it: the match count is the number of
  lines that contain the query, or the cap if there are more; and if there are fewer than the
  cap, the lines shown are exactly those within the context distance of a match.\<close>

lemma search_is_exact:
  assumes "0 \<le> rc_search_context_lines cfg" "0 < rc_search_max_matches cfg"
  shows "rr_match_count (exec_search cfg r all rq) =
      Some (min (rc_search_max_matches cfg) (int (length (filter (line_matches (query_of rq)) all)))) \<and>
    (int (length (filter (line_matches (query_of rq)) all)) < rc_search_max_matches cfg \<longrightarrow>
     set (shown (rr_lines (exec_search cfg r all rq))) =
       {n. 1 \<le> n \<and> n \<le> int (length all) \<and> (\<exists>j < length all. line_matches (query_of rq) (all ! j) \<and>
          \<bar>n - (int j + 1)\<bar> \<le> rc_search_context_lines cfg)})"
  using search_found [OF assms] search_shows [OF assms(1)] by blast

lemma search_is_exact_example:
  "rr_match_count (exec_search recall_defaults poem_reference (split_nl poem) (poem_request M_search)) = Some 2"
proof -
  have "filter (line_matches (query_of (poem_request M_search))) (split_nl poem) = [js ''red'', js ''green'']"
    by (simp add: poem_lines query_of_def poem_request_def line_matches_def js_def lower_unit_def)
  then show ?thesis
    using search_is_exact [of recall_defaults poem_reference "split_nl poem" "poem_request M_search"]
    by (simp add: recall_defaults_def)
qed

text \<open>Modes keep to their bounds: full mode returns a prefix of the artifact of at most
  \<open>full_mode_max_lines\<close> lines and \<open>full_mode_max_bytes\<close> characters, and range mode returns
  exactly the requested lines that exist.\<close>

lemma recall_bounds:
  assumes "0 \<le> rc_full_mode_max_lines cfg" "0 \<le> rc_full_mode_max_bytes cfg"
    and "validate_request rq = None" "rq_mode rq = M_range" "rq_start_line rq = Some a" "rq_end_line rq = Some b"
  shows "(\<exists>m. texts (rr_lines (exec_mode cfg r raw rq M_full)) = take m (split_nl raw)) \<and>
    int (length (texts (rr_lines (exec_mode cfg r raw rq M_full)))) \<le> rc_full_mode_max_lines cfg \<and>
    int (length (join nl (texts (rr_lines (exec_mode cfg r raw rq M_full))))) \<le> rc_full_mode_max_bytes cfg \<and>
    shown (rr_lines (exec_mode cfg r raw rq M_range)) = [a..min b (int (length (split_nl raw)))]"
proof -
  from assms(3-6) have "1 \<le> a" "a \<le> b" by (auto simp: validate_request_def split: if_splits)
  with assms(1,2,5,6) show ?thesis by (simp add: full_prefix full_capped range_shown)
qed

lemma recall_bounds_witness:
  "shown (rr_lines (exec_mode recall_defaults poem_reference poem (poem_request M_range) M_range)) = [2, 3]"
  using recall_bounds [of recall_defaults "poem_request M_range" 2 9 poem_reference poem]
  by (simp add: recall_defaults_def poem_request_def validate_request_def poem_lines)

text \<open>A recall changes nothing but the operation log: it appends one audit record when the
  artifact could be read, and none when the request is invalid, the reference unknown or the
  artifact missing; and it never marks the manager as changed.\<close>

lemma recall_only_audits:
  "audited g (case fst (recall cfg rq g) of Recall_ok x \<Rightarrow> True | Recall_error i e d \<Rightarrow> e = Hash_mismatch) (snd (recall cfg rq g))"
  by (rule recall_audited)

end
