(* ===== verification/SlidingWindow.thy ===== *)
theory SlidingWindow
  imports JsValue Contracts
begin

text \<open>
  The sliding window over the conversation (\<open>src/context/sliding-window.ts\<close>): completed turns
  in order, large tool results replaced by a pointer to an artifact, and the oldest turns
  evicted until the budgets of turns and of estimated tokens hold. Budgets and thresholds are
  integers, \<open>chars_per_token\<close> a positive one: for lengths below \<open>2\<^sup>5\<^sup>3\<close> the rounded
  division of the source has the exact ceiling. The window is an \<open>evicting_queue\<close>.
\<close>

datatype turn_role = User | Assistant | Tool

record turn_message =
  tm_role :: turn_role
  tm_content :: jstring
  tm_tool_call_id :: "jstring option"
  tm_tool_calls :: "jsval list option"

record turn =
  tn_index :: nat
  tn_messages :: "turn_message list"
  tn_token_estimate :: int
  tn_has_offloaded_artifact :: bool

record offload_candidate =
  oc_turn_index :: nat
  oc_message_index :: nat
  oc_original_content :: jstring
  oc_ref_id :: jstring
  oc_replacement :: jstring

record window_config =
  wc_max_tokens :: int
  wc_max_turns :: int
  wc_offload_threshold_chars :: int
  wc_chars_per_token :: int

definition window_defaults :: window_config where
  "window_defaults = \<lparr>wc_max_tokens = 6000, wc_max_turns = 5, wc_offload_threshold_chars = 4000, wc_chars_per_token = 4\<rparr>"

record sliding_window =
  sw_turns :: "turn list"
  sw_next_index :: nat
  sw_config :: window_config

definition new_window :: "window_config \<Rightarrow> sliding_window" where
  "new_window cfg = \<lparr>sw_turns = [], sw_next_index = 0, sw_config = cfg\<rparr>"

section \<open>Private helpers\<close>

definition plain_message :: "turn_role \<Rightarrow> jstring \<Rightarrow> turn_message" where
  "plain_message role content = \<lparr>tm_role = role, tm_content = content, tm_tool_call_id = None, tm_tool_calls = None\<rparr>"

definition offload_id :: "nat \<Rightarrow> nat \<Rightarrow> jstring" where
  "offload_id turn i = js ''REF_'' @ pad_start 4 48 (nat_digits turn) @ js ''_'' @ pad_start 2 48 (nat_digits i)"

definition build_offload_replacement :: "jstring \<Rightarrow> jstring \<Rightarrow> jstring" where
  "build_offload_replacement ref content =
     js ''[Large output offloaded to artifact store]'' @ nl @
     js ''REF_ID: '' @ ref @ nl @
     js ''Size: '' @ nat_digits (utf8_length content) @ js '' bytes / '' @ nat_digits (length (split_nl content)) @ js '' lines'' @ nl @
     js ''Use: recall_evidence({ ref_id: \"'' @ ref @ js ''\", mode: \"summary\" }) to inspect.'' @ nl @
     js ''Use: recall_evidence({ ref_id: \"'' @ ref @ js ''\", mode: \"search\", query: \"...\" }) for targeted lookup.''"

definition is_large :: "window_config \<Rightarrow> turn_message \<Rightarrow> bool" where
  "is_large cfg m \<longleftrightarrow> tm_role m = Tool \<and> wc_offload_threshold_chars cfg < int (length (tm_content m))"

definition offload_of :: "nat \<Rightarrow> nat \<Rightarrow> turn_message \<Rightarrow> offload_candidate" where
  "offload_of turn i m = \<lparr>oc_turn_index = turn, oc_message_index = i, oc_original_content = tm_content m,
     oc_ref_id = offload_id turn i, oc_replacement = build_offload_replacement (offload_id turn i) (tm_content m)\<rparr>"

definition detect_offloads :: "window_config \<Rightarrow> turn_message list \<Rightarrow> nat \<Rightarrow> offload_candidate list" where
  "detect_offloads cfg ms turn = map (\<lambda>(i, m). offload_of turn i m) (filter (\<lambda>(i, m). is_large cfg m) (indexed ms))"

definition apply_offloads :: "turn_message list \<Rightarrow> offload_candidate list \<Rightarrow> turn_message list" where
  "apply_offloads ms os =
     (if os = [] then ms
      else (let by_index = foldl (\<lambda>m c. map_put (oc_message_index c) c m) [] os
            in map (\<lambda>(i, m). case map_of by_index i of None \<Rightarrow> m | Some c \<Rightarrow> m\<lparr>tm_content := oc_replacement c\<rparr>) (indexed ms)))"

definition ceil_div :: "int \<Rightarrow> int \<Rightarrow> int" where
  "ceil_div a b = - ((- a) div b)"

definition message_chars :: "turn_message list \<Rightarrow> int" where
  "message_chars ms = int (sum_list (map (\<lambda>m. length (tm_content m)) ms))"

definition estimate_tokens :: "window_config \<Rightarrow> turn_message list \<Rightarrow> int" where
  "estimate_tokens cfg ms = ceil_div (message_chars ms) (wc_chars_per_token cfg)"

definition tokens_of :: "turn list \<Rightarrow> int" where
  "tokens_of ts = sum_list (map tn_token_estimate ts)"

definition over_budget :: "window_config \<Rightarrow> turn list \<Rightarrow> bool" where
  "over_budget cfg ts \<longleftrightarrow> wc_max_turns cfg < int (length ts) \<or> wc_max_tokens cfg < tokens_of ts"

fun enforce_budget :: "window_config \<Rightarrow> turn list \<Rightarrow> turn list \<times> nat" where
  "enforce_budget cfg [] = ([], 0)"
| "enforce_budget cfg (t # ts) =
     (if over_budget cfg (t # ts) then (let (kept, n) = enforce_budget cfg ts in (kept, Suc n)) else (t # ts, 0))"

section \<open>Operations\<close>

definition build_turn :: "turn_message list \<Rightarrow> sliding_window \<Rightarrow> turn" where
  "build_turn ms w =
     (let os = detect_offloads (sw_config w) ms (sw_next_index w); processed = apply_offloads ms os
      in \<lparr>tn_index = sw_next_index w, tn_messages = processed, tn_token_estimate = estimate_tokens (sw_config w) processed,
          tn_has_offloaded_artifact = (os \<noteq> [])\<rparr>)"

definition push_turn :: "turn_message list \<Rightarrow> sliding_window \<Rightarrow> (offload_candidate list \<times> nat) \<times> sliding_window" where
  "push_turn ms w =
     (let os = detect_offloads (sw_config w) ms (sw_next_index w);
          (kept, evicted) = enforce_budget (sw_config w) (sw_turns w @ [build_turn ms w])
      in ((os, evicted), w\<lparr>sw_turns := kept, sw_next_index := Suc (sw_next_index w)\<rparr>))"

definition get_active_history :: "sliding_window \<Rightarrow> turn_message list" where
  "get_active_history w = concat (map tn_messages (sw_turns w))"

definition total_tokens :: "sliding_window \<Rightarrow> int" where
  "total_tokens w = tokens_of (sw_turns w)"

definition turn_count :: "sliding_window \<Rightarrow> nat" where
  "turn_count w = length (sw_turns w)"

definition oldest_turn_index :: "sliding_window \<Rightarrow> nat option" where
  "oldest_turn_index w = (case sw_turns w of [] \<Rightarrow> None | t # ts \<Rightarrow> Some (tn_index t))"

section \<open>Lemmas\<close>

lemma tokens_of_simps [simp]: "tokens_of [] = 0" "tokens_of (t # ts) = tn_token_estimate t + tokens_of ts"
  by (simp_all add: tokens_of_def)

text \<open>The loop keeps the longest suffix that is within the budget.\<close>

lemma enforce_budget_drop: "fst (enforce_budget cfg ts) = drop (snd (enforce_budget cfg ts)) ts"
  by (induction ts) (auto simp: split_beta)

lemma enforce_budget_count: "snd (enforce_budget cfg ts) \<le> length ts"
  by (induction ts) (auto simp: split_beta)

lemma enforce_budget_fits:
  "fst (enforce_budget cfg ts) \<noteq> [] \<Longrightarrow> \<not> over_budget cfg (fst (enforce_budget cfg ts))"
  by (induction ts) (auto simp: split_beta)

lemma enforce_budget_minimal: "k < snd (enforce_budget cfg ts) \<Longrightarrow> over_budget cfg (drop k ts)"
proof (induction ts arbitrary: k)
  case (Cons t ts)
  then show ?case by (cases k) (auto simp: split_beta split: if_splits)
qed simp

lemma push_turn_fields:
  "sw_turns (snd (push_turn ms w)) = drop (snd (fst (push_turn ms w))) (sw_turns w @ [build_turn ms w])"
  "sw_next_index (snd (push_turn ms w)) = Suc (sw_next_index w)" "sw_config (snd (push_turn ms w)) = sw_config w"
  "fst (fst (push_turn ms w)) = detect_offloads (sw_config w) ms (sw_next_index w)"
  "snd (fst (push_turn ms w)) = snd (enforce_budget (sw_config w) (sw_turns w @ [build_turn ms w]))"
  using enforce_budget_drop [of "sw_config w" "sw_turns w @ [build_turn ms w]"] by (simp_all add: push_turn_def split_beta)

text \<open>Turns carry consecutive indexes, the last one below the next, and the estimate of their
  messages; a window with turns is within its budgets.\<close>

definition estimated :: "sliding_window \<Rightarrow> bool" where
  "estimated w \<longleftrightarrow> (\<forall>t \<in> set (sw_turns w). tn_token_estimate t = estimate_tokens (sw_config w) (tn_messages t))"

definition window_ok :: "sliding_window \<Rightarrow> bool" where
  "window_ok w \<longleftrightarrow> length (sw_turns w) \<le> sw_next_index w \<and>
     map tn_index (sw_turns w) = [sw_next_index w - length (sw_turns w)..<sw_next_index w] \<and>
     (sw_turns w \<noteq> [] \<longrightarrow> \<not> over_budget (sw_config w) (sw_turns w)) \<and> estimated w"

lemma new_window_ok: "window_ok (new_window cfg)"
  by (simp add: window_ok_def new_window_def estimated_def)

lemma push_turn_estimated: "estimated w \<Longrightarrow> estimated (snd (push_turn ms w))"
  by (auto simp: estimated_def push_turn_fields build_turn_def Let_def dest!: in_set_dropD)

lemma push_turn_ok: "window_ok w \<Longrightarrow> window_ok (snd (push_turn ms w))"
proof -
  assume ok: "window_ok w"
  let ?ts = "sw_turns w @ [build_turn ms w]"
  let ?n = "snd (enforce_budget (sw_config w) ?ts)"
  have i: "map tn_index ?ts = [sw_next_index w - length (sw_turns w)..<Suc (sw_next_index w)]"
    using ok by (simp add: window_ok_def build_turn_def Let_def)
  have n: "?n \<le> Suc (length (sw_turns w))" using enforce_budget_count [of "sw_config w" ?ts] by simp
  have "map tn_index (drop ?n ?ts) = [sw_next_index w - length (sw_turns w) + ?n..<Suc (sw_next_index w)]"
    unfolding drop_map [symmetric] i by (simp add: drop_upt)
  moreover have "sw_next_index w - length (sw_turns w) + ?n = Suc (sw_next_index w) - (Suc (length (sw_turns w)) - ?n)"
    using ok n by (simp add: window_ok_def)
  ultimately have "map tn_index (drop ?n ?ts) = [Suc (sw_next_index w) - length (drop ?n ?ts)..<Suc (sw_next_index w)]" by simp
  moreover have "length ?ts \<le> Suc (sw_next_index w)" using ok by (simp add: window_ok_def)
  then have "length (drop ?n ?ts) \<le> Suc (sw_next_index w)" unfolding length_drop by simp
  moreover have "drop ?n ?ts \<noteq> [] \<longrightarrow> \<not> over_budget (sw_config w) (drop ?n ?ts)"
    using enforce_budget_fits [of "sw_config w" ?ts] unfolding enforce_budget_drop ..
  moreover have "estimated (snd (push_turn ms w))" using ok by (simp add: window_ok_def push_turn_estimated)
  ultimately show ?thesis
    by (simp only: window_ok_def push_turn_fields)
qed

interpretation window: evicting_queue "\<lambda>ms w. snd (push_turn ms w)" sw_turns "\<lambda>ms w. [build_turn ms w]" window_ok
  by unfold_locales (blast intro: push_turn_fields(1), rule push_turn_ok)

text \<open>Offloading.\<close>

lemma offload_map:
  "map_of (foldl (\<lambda>m c. map_put (oc_message_index c) c m) m0 os) i =
     (case List.find (\<lambda>c. oc_message_index c = i) (rev os) of Some c \<Rightarrow> Some c | None \<Rightarrow> map_of m0 i)"
proof (induction os rule: rev_induct)
  case (snoc c os)
  then show ?case by (auto simp: js_simps)
qed simp

lemma find_offload:
  "List.find (\<lambda>c. oc_message_index c = i) (rev (detect_offloads cfg ms turn)) =
     (if i < length ms \<and> is_large cfg (ms ! i) then Some (offload_of turn i (ms ! i)) else None)"
proof (cases "i < length ms \<and> is_large cfg (ms ! i)")
  case True
  then have m: "offload_of turn i (ms ! i) \<in> set (detect_offloads cfg ms turn)"
    by (auto simp: detect_offloads_def indexed_mem image_iff intro!: bexI [of _ "(i, ms ! i)"])
  have u: "c = offload_of turn i (ms ! i)" if "c \<in> set (detect_offloads cfg ms turn)" "oc_message_index c = i" for c
    using that by (auto simp: detect_offloads_def indexed_mem offload_of_def)
  have "List.find (\<lambda>c. oc_message_index c = i) (rev (detect_offloads cfg ms turn)) \<noteq> None"
    using m by (auto simp: find_None_iff offload_of_def)
  then obtain c where "List.find (\<lambda>c. oc_message_index c = i) (rev (detect_offloads cfg ms turn)) = Some c" by blast
  moreover from list_find_mem [OF this] have "c \<in> set (detect_offloads cfg ms turn)" "oc_message_index c = i"
    by simp_all
  ultimately show ?thesis using u True by simp
next
  case False
  then have "List.find (\<lambda>c. oc_message_index c = i) (rev (detect_offloads cfg ms turn)) = None"
    by (auto simp: find_None_iff detect_offloads_def indexed_mem offload_of_def)
  with False show ?thesis by simp
qed

definition offloaded :: "window_config \<Rightarrow> nat \<Rightarrow> nat \<Rightarrow> turn_message \<Rightarrow> turn_message" where
  "offloaded cfg turn i m = (if is_large cfg m then m\<lparr>tm_content := oc_replacement (offload_of turn i m)\<rparr> else m)"

lemma apply_offloads_nth:
  assumes "i < length ms"
  shows "apply_offloads ms (detect_offloads cfg ms turn) ! i = offloaded cfg turn i (ms ! i)"
proof (cases "detect_offloads cfg ms turn = []")
  case True
  with assms have "\<not> is_large cfg (ms ! i)"
    by (auto simp: detect_offloads_def filter_empty_conv indexed_mem)
  with True show ?thesis by (simp add: apply_offloads_def offloaded_def)
next
  case False
  with assms show ?thesis
    by (simp add: apply_offloads_def offload_map find_offload offloaded_def)
qed

lemma apply_offloads_length [simp]: "length (apply_offloads ms os) = length ms"
  by (simp add: apply_offloads_def)

text \<open>The active history is as long as its estimate allows.\<close>

lemma ceil_div_bound: "0 < b \<Longrightarrow> a \<le> ceil_div a b * b"
  unfolding ceil_div_def mult_minus_left using pos_mod_sign [of b "- a"] div_mult_mod_eq [of "- a" b] by linarith

lemma message_chars_simps [simp]:
  "message_chars [] = 0" "message_chars (ms @ ns) = message_chars ms + message_chars ns"
  "message_chars (m # ms) = int (length (tm_content m)) + message_chars ms"
  by (simp_all add: message_chars_def)

lemma turns_chars:
  "(\<forall>t \<in> set ts. tn_token_estimate t = estimate_tokens cfg (tn_messages t)) \<Longrightarrow> 0 < wc_chars_per_token cfg \<Longrightarrow>
   message_chars (concat (map tn_messages ts)) \<le> tokens_of ts * wc_chars_per_token cfg"
proof (induction ts)
  case (Cons t ts)
  then have "message_chars (tn_messages t) \<le> tn_token_estimate t * wc_chars_per_token cfg"
    by (simp add: estimate_tokens_def ceil_div_bound)
  with Cons show ?case by (simp add: algebra_simps)
qed simp

lemma history_chars:
  assumes "window_ok w" "0 < wc_chars_per_token (sw_config w)" "0 \<le> wc_max_tokens (sw_config w)"
  shows "message_chars (get_active_history w) \<le> wc_max_tokens (sw_config w) * wc_chars_per_token (sw_config w)"
proof -
  have "tokens_of (sw_turns w) \<le> wc_max_tokens (sw_config w)"
    using assms(1,3) by (cases "sw_turns w = []") (auto simp: window_ok_def over_budget_def)
  then have "tokens_of (sw_turns w) * wc_chars_per_token (sw_config w) \<le> wc_max_tokens (sw_config w) * wc_chars_per_token (sw_config w)"
    using assms(2) by simp
  moreover have "message_chars (get_active_history w) \<le> tokens_of (sw_turns w) * wc_chars_per_token (sw_config w)"
    unfolding get_active_history_def using assms(1,2) by (intro turns_chars) (auto simp: window_ok_def estimated_def)
  ultimately show ?thesis by linarith
qed

end
