(* ===== verification/Injection.thy ===== *)
theory Injection
  imports ManifestTypes
begin

text \<open>
  The injection compiler (\<open>src/context/injection.ts\<close>): the bounded text that shows the model
  what the manifest holds. One definition per selector and renderer, \<open>compile\<close> puts the
  sections together and cuts at the budget. \<open>collate\<close> is \<open>String.prototype.localeCompare\<close>,
  which depends on the locale of the host: a parameter. Fact and summary types that are
  names of members of \<open>Object.prototype\<close> (\<open>constructor\<close>, \<open>toString\<close>, ...) have no
  numeric priority in JavaScript and are not modelled.
  The lemmas show that secrets never reach the text and what the budget bounds.
\<close>

record injection_config =
  ic_max_chars :: int
  ic_max_facts :: int
  ic_max_summaries :: int
  ic_include_recent_ops :: bool
  ic_max_recent_ops :: int
  ic_include_refs :: bool

definition injection_defaults :: injection_config where
  "injection_defaults = \<lparr>ic_max_chars = 8000, ic_max_facts = 20, ic_max_summaries = 4, ic_include_recent_ops = True,
     ic_max_recent_ops = 5, ic_include_refs = True\<rparr>"

section \<open>Priorities\<close>

definition TYPE_PRIORITY :: "(jstring \<times> int) list" where
  "TYPE_PRIORITY = [(js ''constraint'', 100), (js ''task'', 90), (js ''credential'', 80), (js ''context'', 70),
     (js ''contact'', 60), (js ''preference'', 50), (js ''knowledge'', 40), (js ''service'', 30), (js ''event'', 20)]"

definition type_priority :: "jstring \<Rightarrow> int" where
  "type_priority t = (case map_of TYPE_PRIORITY t of Some n \<Rightarrow> n | None \<Rightarrow> 10)"

definition summary_type_priority :: "jstring \<Rightarrow> int" where
  "summary_type_priority t =
     (case map_of [(js ''goal'', 100), (js ''session'', 80), (js ''conflict'', 70), (js ''task'', 60), (js ''contact'', 40)] t of
        Some n \<Rightarrow> n | None \<Rightarrow> 10)"

section \<open>Selection\<close>

definition stale_tag :: "bool \<Rightarrow> jstring" where
  "stale_tag stale = (if stale then js '' [STALE '' @ [8212] @ js '' refresh before acting]'' else [])"

definition task_title :: "fact \<Rightarrow> jstring" where
  "task_title f = to_string (coalesce (jget (f_value f) (js ''title''))
     (coalesce (jget (f_value f) (js ''goal'')) (coalesce (jget (f_value f) (js ''id'')) (Str []))))"

definition extract_objective :: "manifest \<Rightarrow> jstring option" where
  "extract_objective m =
     (case List.find (\<lambda>s. s_type s = js ''goal'' \<and> s_state s = SActive) (obj_values (m_summaries m)) of
        Some s \<Rightarrow> (case s_key_points s of
            [] \<Rightarrow> None
          | p # ps \<Rightarrow> if p = [] then None else Some (p @ stale_tag (s_stale s)))
      | None \<Rightarrow>
          (case sort_by (\<lambda>a b. fsub (f_confidence b) (f_confidence a))
                  (filter (\<lambda>f. f_type f = js ''task'' \<and> f_state f = Active) (obj_values (m_facts m))) of
             [] \<Rightarrow> None
           | t # ts \<Rightarrow> if task_title t = [] then None else Some (task_title t)))"

definition fact_order :: "fact \<Rightarrow> fact \<Rightarrow> int" where
  "fact_order a b =
     (let pd = type_priority (f_type b) - type_priority (f_type a) in
      if pd \<noteq> 0 then pd
      else (let cd = fsub (f_confidence b) (f_confidence a) in
        if cd \<noteq> 0 then cd else f_discovery_index a - f_discovery_index b))"

definition select_facts :: "injection_config \<Rightarrow> manifest \<Rightarrow> fact list" where
  "select_facts cfg m = slice (sort_by fact_order (filter (\<lambda>f. f_state f = Active) (obj_values (m_facts m)))) 0 (ic_max_facts cfg)"

definition select_conflicted_facts :: "manifest \<Rightarrow> fact list" where
  "select_conflicted_facts m = filter (\<lambda>f. f_state f = Conflicted) (obj_values (m_facts m))"

definition summary_order :: "summary \<Rightarrow> summary \<Rightarrow> int" where
  "summary_order a b =
     (let stale_score = of_bool (s_stale a) - of_bool (s_stale b) in
      if stale_score \<noteq> 0 then stale_score else summary_type_priority (s_type b) - summary_type_priority (s_type a))"

definition select_summaries :: "injection_config \<Rightarrow> manifest \<Rightarrow> summary list" where
  "select_summaries cfg m =
     slice (sort_by summary_order (filter (\<lambda>s. s_state s = SActive) (obj_values (m_summaries m)))) 0 (ic_max_summaries cfg)"

definition select_refs :: "(jstring \<Rightarrow> jstring \<Rightarrow> int) \<Rightarrow> manifest \<Rightarrow> reference list" where
  "select_refs collate m =
     slice (sort_by (\<lambda>a b. collate (r_created_at b) (r_created_at a)) (obj_values (m_references m))) 0 8"

text \<open>Template literals print metadata with \<open>String(v)\<close>.\<close>

definition meta :: "operation \<Rightarrow> string \<Rightarrow> jsval" where
  "meta opn k = jget (op_metadata opn) (js k)"

definition summarize_op :: "operation \<Rightarrow> jstring" where
  "summarize_op opn =
     (case op_type opn of
        Fact_added \<Rightarrow> js ''Fact '' @ to_string (meta opn ''fact_id'') @ js '' added ('' @
          to_string (coalesce (meta opn ''state'') (Str (js ''active''))) @ js '')''
      | Fact_superseded \<Rightarrow> js ''Fact '' @ to_string (coalesce (meta opn ''superseded_id'') (meta opn ''fact_id'')) @
          js '' superseded by '' @ to_string (coalesce (meta opn ''new_fact_id'') (Str (js ''manual'')))
      | Fact_conflicted \<Rightarrow> js ''Conflict: facts '' @ to_string (meta opn ''new_fact_id'') @ js '' and '' @
          to_string (meta opn ''conflicted_id'')
      | Summary_added \<Rightarrow> js ''Summary '' @ to_string (meta opn ''summary_id'') @ js '' generated ('' @
          to_string (meta opn ''type'') @ js '':'' @ to_string (meta opn ''scope'') @ js '')''
      | Manifest_committed \<Rightarrow> js ''State committed (rev '' @ to_string (coalesce (meta opn ''ts'') (Str [])) @ js '')''
      | Recall_event \<Rightarrow> js ''Recall: '' @ to_string (meta opn ''ref_id'') @ js '' mode='' @ to_string (meta opn ''mode'')
      | t \<Rightarrow> op_type_str t)"

definition is_relevant_op :: "operation \<Rightarrow> bool" where
  "is_relevant_op opn \<longleftrightarrow> op_type opn \<in> {Fact_added, Fact_superseded, Fact_conflicted, Summary_added, Manifest_committed, Recall_event}"

text \<open>The recent operations with their time and summary.\<close>

definition extract_recent_ops :: "injection_config \<Rightarrow> manifest \<Rightarrow> (jstring \<times> jstring) list" where
  "extract_recent_ops cfg m =
     map (\<lambda>opn. (op_timestamp opn, summarize_op opn))
       (slice_from (filter is_relevant_op (m_operations m)) (- ic_max_recent_ops cfg))"

section \<open>Renderers\<close>

definition percent :: "dbl \<Rightarrow> jstring" where
  "percent x = to_fixed 0 (fmul x (dbl_of_int 100)) @ js ''%''"

definition render_fact_value :: "fact \<Rightarrow> jstring" where
  "render_fact_value f =
     (if f_type f = js ''credential''
      then (let user = coalesce (jget (f_value f) (js ''username'')) (coalesce (jget (f_value f) (js ''account'')) (Str (js ''?'')));
                svc = coalesce (jget (f_value f) (js ''service'')) (coalesce (jget (f_value f) (js ''host'')) (Str (js ''?'')))
            in js ''[credential slot] '' @ to_string user @ js ''@'' @ to_string svc @ js '' '' @ [8212] @
               js '' use identity_key to reference'')
      else join (js '', '') (map (\<lambda>(k, v). k @ js '': '' @ stringify_str v)
             (take 4 (filter (\<lambda>(k, v). v \<noteq> Undef \<and> v \<noteq> Null \<and> v \<noteq> Str []) (f_value f)))))"

definition fact_line :: "fact \<Rightarrow> jstring" where
  "fact_line f =
     js ''- ['' @ f_id f @ js ''] **'' @ f_type f @ js ''** ('' @ percent (f_confidence f) @
     (if 1 < observation_count (f_observations f) then js '' '' @ [215] @ show_int (observation_count (f_observations f)) else []) @
     js ''): '' @ render_fact_value f"

definition render_facts_section :: "fact list \<Rightarrow> jstring" where
  "render_facts_section fs = js ''## Active Facts'' @ nl @ nl @ join nl (map fact_line fs)"

definition conflicted_line :: "fact \<Rightarrow> jstring" where
  "conflicted_line f =
     js ''- [STATE: CONFLICTED] ['' @ f_id f @ js ''] **'' @ f_type f @ js ''** ('' @ percent (f_confidence f) @ js ''): '' @
     render_fact_value f"

definition render_conflicted_section :: "fact list \<Rightarrow> jstring" where
  "render_conflicted_section fs =
     js ''## Conflicted Beliefs '' @ [9888, 65039] @ nl @ nl @ join nl (map conflicted_line fs) @ nl @ nl @
     js ''_These beliefs require resolution before acting on them._''"

definition summary_block :: "summary \<Rightarrow> jstring" where
  "summary_block s =
     js ''**['' @ s_id s @ js '']** '' @ s_type s @ js '':'' @ s_scope s @ (if s_stale s then js '' **[STALE]**'' else []) @
     js '' ('' @ percent (s_confidence s) @ js '')'' @ nl @
     join nl (map (\<lambda>p. js ''  - '' @ p) (take 3 (s_key_points s))) @
     (if s_conflicts s \<noteq> [] then nl @ js ''  - '' @ [9888, 65039] @ js '' '' @ join (js ''; '') (take 2 (s_conflicts s)) else []) @
     (case s_recommended_next_actions s of [] \<Rightarrow> [] | a # as \<Rightarrow> nl @ js ''  '' @ [8594] @ js '' '' @ a)"

definition render_summaries_section :: "summary list \<Rightarrow> jstring" where
  "render_summaries_section ss = js ''## Summaries'' @ nl @ nl @ join (nl @ nl) (map summary_block ss)"

definition render_ops_section :: "(jstring \<times> jstring) list \<Rightarrow> jstring" where
  "render_ops_section ops =
     js ''## Recent Events'' @ nl @ nl @
     join nl (map (\<lambda>(ts, s). js ''- `'' @ slice ts 11 19 @ js ''` '' @ s) ops)"

definition ref_line :: "reference \<Rightarrow> jstring" where
  "ref_line r =
     (let amount = (if 1024 < r_byte_size r
                    then to_fixed 1 (fdiv (dbl_of_int (r_byte_size r)) (dbl_of_int 1024)) @ js ''KB''
                    else show_int (r_byte_size r) @ js ''B'')
      in js ''- `'' @ r_id r @ js ''` '' @ [8212] @ js '' '' @ r_label r @ js '' ('' @ show_int (r_line_count r) @ js '' lines, '' @
         amount @ js '', src: '' @ r_source r @ js '')'')"

definition render_refs_section :: "reference list \<Rightarrow> jstring" where
  "render_refs_section rs =
     js ''## Available References'' @ nl @ nl @ join nl (map ref_line rs) @ nl @ nl @
     js ''_Recall with: `recall_evidence({ ref_id, mode: \"summary\" | \"search\" | \"range\" })`_''"

section \<open>compile\<close>

definition drill_down :: jstring where
  "drill_down = js ''_Use summaries for navigation. For precise execution, drill into FACT_IDs via `recall_evidence`._''"

definition nonempty_section :: "('a list \<Rightarrow> jstring) \<Rightarrow> 'a list \<Rightarrow> jstring list" where
  "nonempty_section render xs = (if xs \<noteq> [] then [render xs] else [])"

definition sections :: "(jstring \<Rightarrow> jstring \<Rightarrow> int) \<Rightarrow> injection_config \<Rightarrow> manifest \<Rightarrow> jstring list" where
  "sections collate cfg m =
     (case extract_objective m of None \<Rightarrow> [] | Some t \<Rightarrow> [js ''**Objective:** '' @ t]) @
     nonempty_section render_facts_section (select_facts cfg m) @
     nonempty_section render_conflicted_section (select_conflicted_facts m) @
     nonempty_section render_summaries_section (select_summaries cfg m) @
     (if ic_include_recent_ops cfg then nonempty_section render_ops_section (extract_recent_ops cfg m) else []) @
     (if ic_include_refs cfg then nonempty_section render_refs_section (select_refs collate m) else []) @
     [drill_down]"

definition truncation_note :: "int \<Rightarrow> jstring" where
  "truncation_note n = nl @ nl @ js ''[Operational context truncated at '' @ show_int n @
     js '' chars. Use recall_evidence for full state.]''"

definition context_header :: jstring where
  "context_header = js ''# Current Operational Memory'' @ nl @ nl"

definition compile :: "(jstring \<Rightarrow> jstring \<Rightarrow> int) \<Rightarrow> injection_config \<Rightarrow> manifest \<Rightarrow> jstring" where
  "compile collate cfg m =
     (let body = join (nl @ nl) (sections collate cfg m) in
      if ic_max_chars cfg < int (length body)
      then slice body 0 (ic_max_chars cfg - 120) @ truncation_note (ic_max_chars cfg)
      else context_header @ body)"

section \<open>Lemmas: the budget\<close>

lemma nat_digits_length: "n < 10 ^ Suc k \<Longrightarrow> length (nat_digits n) \<le> Suc k"
proof (induction k arbitrary: n)
  case 0
  then show ?case by (simp add: nat_digits.simps [of n])
next
  case (Suc k)
  show ?case
  proof (cases "n < 10")
    case False
    have "n div 10 < 10 ^ Suc k" using Suc.prems by (simp add: less_mult_imp_div_less)
    from Suc.IH [OF this] False show ?thesis by (simp add: nat_digits.simps [of n])
  qed (simp add: nat_digits.simps [of n])
qed

lemma truncation_note_length:
  assumes "0 \<le> n" "n < 10 ^ 40"
  shows "length (truncation_note n) \<le> 120"
proof -
  have "nat n < 10 ^ Suc 39" using assms by (simp add: nat_less_iff)
  from nat_digits_length [OF this] have "length (show_int n) \<le> 40" using assms(1) by (simp add: show_int_def)
  then show ?thesis by (simp add: truncation_note_def nl_def)
qed

lemma compile_length:
  assumes "120 \<le> ic_max_chars cfg" "ic_max_chars cfg < 10 ^ 40"
  shows "int (length (compile collate cfg m)) \<le> ic_max_chars cfg + int (length context_header)"
proof (cases "ic_max_chars cfg < int (length (join (nl @ nl) (sections collate cfg m)))")
  case True
  with assms truncation_note_length [of "ic_max_chars cfg"] show ?thesis
    by (simp add: compile_def Let_def)
qed (simp add: compile_def Let_def)

section \<open>Lemmas: what is shown\<close>

definition infix_of :: "jstring \<Rightarrow> jstring \<Rightarrow> bool" where
  "infix_of x s \<longleftrightarrow> (\<exists>a b. s = a @ x @ b)"

lemma infix_refl [simp]: "infix_of x x"
  unfolding infix_of_def by (metis append.left_neutral append.right_neutral)

lemma infix_append: "infix_of x s \<Longrightarrow> infix_of x (a @ s)" "infix_of x s \<Longrightarrow> infix_of x (s @ b)"
  unfolding infix_of_def by (metis append.assoc)+

lemma infix_join: "infix_of x s \<Longrightarrow> s \<in> set ss \<Longrightarrow> infix_of x (join sep ss)"
proof (induction sep ss rule: join.induct)
  case (3 sep s' t ss)
  then show ?case by (auto intro: infix_append)
qed auto

lemma conflicted_infix:
  assumes "f \<in> set (select_conflicted_facts m)"
  shows "infix_of (conflicted_line f) (join (nl @ nl) (sections collate cfg m))"
proof (rule infix_join)
  have "infix_of (conflicted_line f) (join nl (map conflicted_line (select_conflicted_facts m)))"
    using assms by (intro infix_join [of _ "conflicted_line f"]) auto
  then show "infix_of (conflicted_line f) (render_conflicted_section (select_conflicted_facts m))"
    unfolding render_conflicted_section_def by (intro infix_append)
  show "render_conflicted_section (select_conflicted_facts m) \<in> set (sections collate cfg m)"
    using assms by (auto simp: sections_def nonempty_section_def)
qed

lemma fact_order_cmp: "cmp_order fact_order"
proof -
  have s: "fsub x y \<le> 0 \<longleftrightarrow> x \<le> y" "fsub x y = 0 \<longleftrightarrow> x = y" for x y
    using fsub_signs [of x y] by auto
  show ?thesis by (auto simp: cmp_order_def fact_order_def Let_def s)
qed

lemma select_facts_sorted: "sorted_wrt (\<lambda>a b. fact_order a b \<le> 0) (select_facts cfg m)"
  unfolding select_facts_def slice_def by (intro sorted_wrt_take sorted_wrt_drop sorted_sort_by fact_order_cmp)

section \<open>Lemmas: secrets\<close>

definition credential_members :: "jstring set" where
  "credential_members = {js ''username'', js ''account'', js ''service'', js ''host''}"

definition redact :: "fact \<Rightarrow> fact" where
  "redact f = (if f_type f = js ''credential''
     then f\<lparr>f_value := filter (\<lambda>(k, v). k \<in> credential_members) (f_value f)\<rparr> else f)"

definition redacted :: "manifest \<Rightarrow> manifest" where
  "redacted m = m\<lparr>m_facts := map (\<lambda>(i, f). (i, redact f)) (m_facts m)\<rparr>"

lemma redact_simps [simp]:
  "f_type (redact f) = f_type f" "f_state (redact f) = f_state f" "f_confidence (redact f) = f_confidence f"
  "f_id (redact f) = f_id f" "f_discovery_index (redact f) = f_discovery_index f" "f_observations (redact f) = f_observations f"
  by (simp_all add: redact_def)

lemma jget_filter: "k \<in> K \<Longrightarrow> jget (filter (\<lambda>(k, v). k \<in> K) kvs) k = jget kvs k"
  by (induction kvs) (auto simp: jget_def)

lemma credential_members_mem: "js ''username'' \<in> credential_members" "js ''account'' \<in> credential_members"
  "js ''service'' \<in> credential_members" "js ''host'' \<in> credential_members"
  by (simp_all add: credential_members_def)

lemma render_redact [simp]: "render_fact_value (redact f) = render_fact_value f"
  by (simp add: render_fact_value_def redact_def Let_def jget_filter credential_members_mem)

lemma redact_lines [simp]:
  "fact_line (redact f) = fact_line f" "conflicted_line (redact f) = conflicted_line f"
  by (simp_all add: fact_line_def conflicted_line_def)

lemma ins_by_map: "(\<And>a b. cmp (g a) (g b) = cmp a b) \<Longrightarrow> ins_by cmp (g x) (map g ys) = map g (ins_by cmp x ys)"
  by (induction ys) auto

lemma sort_by_map: "(\<And>a b. cmp (g a) (g b) = cmp a b) \<Longrightarrow> sort_by cmp (map g xs) = map g (sort_by cmp xs)"
  by (induction xs) (simp_all add: ins_by_map)

lemma slice_map: "slice (map g xs) a b = map g (slice xs a b)"
  by (simp add: slice_def take_map drop_map)

lemma redacted_values: "obj_values (m_facts (redacted m)) = map redact (obj_values (m_facts m))"
  by (simp add: redacted_def case_prod_unfold)

lemma filter_redact: "(\<And>f. P (redact f) = P f) \<Longrightarrow> filter P (map redact fs) = map redact (filter P fs)"
  by (induction fs) auto

lemma select_redacted:
  "select_facts cfg (redacted m) = map redact (select_facts cfg m)"
  "select_conflicted_facts (redacted m) = map redact (select_conflicted_facts m)"
  unfolding select_facts_def select_conflicted_facts_def redacted_values
  by (simp_all add: filter_redact sort_by_map slice_map fact_order_def Let_def del: map_map)

lemma objective_redacted: "extract_objective (redacted m) = extract_objective m"
proof -
  let ?P = "\<lambda>f. f_type f = js ''task'' \<and> f_state f = Active"
  let ?cmp = "\<lambda>a b. fsub (f_confidence b) (f_confidence a)"
  have "filter ?P (map redact fs) = filter ?P fs" for fs
    by (induction fs) (auto simp: redact_def)
  then have "filter ?P (obj_values (m_facts (redacted m))) = filter ?P (obj_values (m_facts m))"
    unfolding redacted_values .
  moreover have "m_summaries (redacted m) = m_summaries m" by (simp add: redacted_def)
  ultimately show ?thesis by (simp only: extract_objective_def)
qed

lemma compile_redacted: "compile collate cfg (redacted m) = compile collate cfg m"
proof -
  have "nonempty_section render_facts_section (map redact fs) = nonempty_section render_facts_section fs"
    "nonempty_section render_conflicted_section (map redact fs) = nonempty_section render_conflicted_section fs" for fs
    by (simp_all add: nonempty_section_def render_facts_section_def render_conflicted_section_def comp_def)
  moreover have "select_summaries cfg (redacted m) = select_summaries cfg m"
    "extract_recent_ops cfg (redacted m) = extract_recent_ops cfg m" "select_refs collate (redacted m) = select_refs collate m"
    by (simp_all add: select_summaries_def extract_recent_ops_def select_refs_def redacted_def)
  ultimately have "sections collate cfg (redacted m) = sections collate cfg m"
    by (simp add: sections_def select_redacted objective_redacted)
  then show ?thesis by (simp add: compile_def)
qed

text \<open>With \<open>max_recent_ops\<close> zero, \<open>slice(-0)\<close> is the whole list: every relevant operation is shown.\<close>

lemma no_recent_ops_shows_all:
  "ic_max_recent_ops cfg = 0 \<Longrightarrow> length (extract_recent_ops cfg m) = length (filter is_relevant_op (m_operations m))"
  by (simp add: extract_recent_ops_def slice_from_def slice_ix_def)

end
