(* ===== verification/ContextEngine.thy ===== *)
theory ContextEngine
  imports RecallTool SlidingWindow Injection
begin

text \<open>
  The context engine (\<open>src/context/context-engine.ts\<close>): one manager, one sliding window and
  one injection compiler, composed the way the class composes them. \<open>engine\<close> is the state of
  one engine object. A method runs to its end before the next starts; what another writer
  of the manifest file does in between is in the file system of the manager's world.
\<close>

section \<open>Configuration\<close>

text \<open>A \<open>Partial<...>\<close> object: a missing member takes the default.\<close>

record window_partial =
  wp_max_tokens :: "int option"
  wp_max_turns :: "int option"
  wp_offload_threshold_chars :: "int option"
  wp_chars_per_token :: "int option"

record injection_partial =
  ip_max_chars :: "int option"
  ip_max_facts :: "int option"
  ip_max_summaries :: "int option"
  ip_include_recent_ops :: "bool option"
  ip_max_recent_ops :: "int option"
  ip_include_refs :: "bool option"

abbreviation or_else :: "'a option \<Rightarrow> 'a \<Rightarrow> 'a" where
  "or_else x d \<equiv> (case x of Some v \<Rightarrow> v | None \<Rightarrow> d)"

definition window_config_of :: "window_partial \<Rightarrow> window_config" where
  "window_config_of p =
     \<lparr>wc_max_tokens = or_else (wp_max_tokens p) (wc_max_tokens window_defaults),
      wc_max_turns = or_else (wp_max_turns p) (wc_max_turns window_defaults),
      wc_offload_threshold_chars = or_else (wp_offload_threshold_chars p) (wc_offload_threshold_chars window_defaults),
      wc_chars_per_token = or_else (wp_chars_per_token p) (wc_chars_per_token window_defaults)\<rparr>"

definition injection_config_of :: "injection_partial \<Rightarrow> injection_config" where
  "injection_config_of p =
     \<lparr>ic_max_chars = or_else (ip_max_chars p) (ic_max_chars injection_defaults),
      ic_max_facts = or_else (ip_max_facts p) (ic_max_facts injection_defaults),
      ic_max_summaries = or_else (ip_max_summaries p) (ic_max_summaries injection_defaults),
      ic_include_recent_ops = or_else (ip_include_recent_ops p) (ic_include_recent_ops injection_defaults),
      ic_max_recent_ops = or_else (ip_max_recent_ops p) (ic_max_recent_ops injection_defaults),
      ic_include_refs = or_else (ip_include_refs p) (ic_include_refs injection_defaults)\<rparr>"

definition no_window_partial :: window_partial where
  "no_window_partial = \<lparr>wp_max_tokens = None, wp_max_turns = None, wp_offload_threshold_chars = None, wp_chars_per_token = None\<rparr>"

definition no_injection_partial :: injection_partial where
  "no_injection_partial = \<lparr>ip_max_chars = None, ip_max_facts = None, ip_max_summaries = None, ip_include_recent_ops = None,
     ip_max_recent_ops = None, ip_include_refs = None\<rparr>"

record engine_config =
  ec_sliding_window :: "window_partial option"
  ec_injection :: "injection_partial option"
  ec_auto_commit :: bool

record engine =
  e_manager :: mgr
  e_window :: sliding_window
  e_compiler :: injection_config
  e_auto_commit :: bool
  e_needs_commit :: bool

definition new_engine :: "mgr \<Rightarrow> engine_config \<Rightarrow> engine" where
  "new_engine g cfg =
     \<lparr>e_manager = g,
      e_window = new_window (window_config_of (or_else (ec_sliding_window cfg) no_window_partial)),
      e_compiler = injection_config_of (or_else (ec_injection cfg) no_injection_partial),
      e_auto_commit = ec_auto_commit cfg, e_needs_commit = False\<rparr>"

section \<open>Building the context\<close>

record build_context_result =
  bc_operational_memory :: jstring
  bc_history :: "turn_message list"
  bc_revision :: int

definition build_context :: "(jstring \<Rightarrow> jstring \<Rightarrow> int) \<Rightarrow> engine \<Rightarrow> build_context_result" where
  "build_context collate e =
     \<lparr>bc_operational_memory = compile collate (e_compiler e) (g_working (e_manager e)),
      bc_history = get_active_history (e_window e),
      bc_revision = m_revision (g_working (e_manager e))\<rparr>"

definition build_messages :: "(jstring \<Rightarrow> jstring \<Rightarrow> int) \<Rightarrow> jstring \<Rightarrow> jstring \<Rightarrow> engine \<Rightarrow> turn_message list" where
  "build_messages collate system_prompt current e =
     (let c = build_context collate e
      in [plain_message User system_prompt, plain_message User (bc_operational_memory c)] @ bc_history c @
         [plain_message User current])"

section \<open>completeTurn\<close>

record turn_result =
  tr_offloaded_ref_ids :: "ref_id list"
  tr_evicted_turns :: nat
  tr_committed :: bool
  tr_commit_result :: "commit_result option"
  tr_sync_required :: bool

definition offload_input :: "offload_candidate \<Rightarrow> add_reference_input" where
  "offload_input c = \<lparr>ri_source = js ''sliding-window'',
     ri_label = js ''Auto-offloaded tool result (turn '' @ nat_digits (oc_turn_index c) @ js '')'',
     ri_content = Text_content (oc_original_content c), ri_related_fact_ids = None\<rparr>"

fun store_offloads :: "offload_candidate list \<Rightarrow> mgr \<Rightarrow> ref_id list \<times> mgr" where
  "store_offloads [] g = ([], g)"
| "store_offloads (c # cs) g =
     (let (r, g) = add_reference (offload_input c) g; (ids, g) = store_offloads cs g
      in ((case r of Inl e \<Rightarrow> ids | Inr i \<Rightarrow> i # ids), g))"

definition complete_turn :: "turn_message list \<Rightarrow> bool \<Rightarrow> engine \<Rightarrow> turn_result \<times> engine" where
  "complete_turn ms fact_producing e =
     (let ((os, evicted), win) = push_turn ms (e_window e);
          (ids, g) = store_offloads os (e_manager e);
          fact_producing = (if os \<noteq> [] then True else fact_producing);
          e = e\<lparr>e_window := win, e_manager := g\<rparr>
      in if e_auto_commit e \<and> (fact_producing \<or> g_dirty g)
         then (let (c, g) = manager_commit g
               in (\<lparr>tr_offloaded_ref_ids = ids, tr_evicted_turns = evicted, tr_committed = True, tr_commit_result = Some c,
                    tr_sync_required = (case c of C_ok r h \<Rightarrow> False | C_fail f d \<Rightarrow> f = Commit_revision_conflict)\<rparr>,
                   e\<lparr>e_manager := g\<rparr>))
         else (\<lparr>tr_offloaded_ref_ids = ids, tr_evicted_turns = evicted, tr_committed = False, tr_commit_result = None,
               tr_sync_required = False\<rparr>, e))"

section \<open>syncAndReplan\<close>

datatype sync_result = Sync_ok | Sync_fail jstring | Sync_throw jstring

definition sync_and_replan :: "engine \<Rightarrow> sync_result \<times> engine" where
  "sync_and_replan e =
     (case reload (e_manager e) of
        (Reload_throw d, g) \<Rightarrow> (Sync_throw d, e\<lparr>e_manager := g\<rparr>)
      | (Reload_fail d, g) \<Rightarrow> (Sync_fail d, e\<lparr>e_manager := g\<rparr>)
      | (Reload_ok, g) \<Rightarrow>
          (Sync_ok, e\<lparr>e_manager := log_op Manifest_loaded
             [(js ''event'', Str (js ''sync_replan'')), (js ''reason'', Str (js ''revision_conflict''))] g\<rparr>))"

section \<open>Mutation proxies\<close>

definition mark_if :: "bool \<Rightarrow> engine \<Rightarrow> engine" where
  "mark_if b e = (if b then e\<lparr>e_needs_commit := True\<rparr> else e)"

definition engine_add_fact :: "add_fact_input \<Rightarrow> engine \<Rightarrow> add_fact_result \<times> engine" where
  "engine_add_fact input e =
     (let (r, g) = add_fact input (e_manager e) in (r, mark_if (ar_outcome r \<noteq> Converge) (e\<lparr>e_manager := g\<rparr>)))"

definition engine_add_reference :: "add_reference_input \<Rightarrow> engine \<Rightarrow> (jstring + ref_id) \<times> engine" where
  "engine_add_reference input e =
     (let (r, g) = add_reference input (e_manager e) in (r, mark_if (\<not> isl r) (e\<lparr>e_manager := g\<rparr>)))"

definition engine_add_summary :: "add_summary_input \<Rightarrow> engine \<Rightarrow> (summary_id \<times> summary_id option) \<times> engine" where
  "engine_add_summary input e =
     (let (r, g) = add_summary input (e_manager e) in (r, mark_if True (e\<lparr>e_manager := g\<rparr>)))"

definition engine_propose_refinement :: "fact_id \<Rightarrow> add_fact_input \<Rightarrow> engine \<Rightarrow> (jstring + propose_ok) \<times> engine" where
  "engine_propose_refinement i input e =
     (let (r, g) = propose_refinement i input (e_manager e) in (r, mark_if (\<not> isl r) (e\<lparr>e_manager := g\<rparr>)))"

definition engine_query_facts :: "query_filter \<Rightarrow> engine \<Rightarrow> fact list" where
  "engine_query_facts q e = query_facts q (e_manager e)"

definition engine_record_operation :: "operation_type \<Rightarrow> jsobj \<Rightarrow> engine \<Rightarrow> operation_id \<times> engine" where
  "engine_record_operation t md e = (let (i, g) = record_operation t md (e_manager e) in (i, e\<lparr>e_manager := g\<rparr>))"

definition engine_commit :: "engine \<Rightarrow> commit_result \<times> engine" where
  "engine_commit e =
     (let (c, g) = manager_commit (e_manager e); e = e\<lparr>e_manager := g\<rparr>
      in (c, (case c of C_ok r h \<Rightarrow> e\<lparr>e_needs_commit := False\<rparr> | C_fail f d \<Rightarrow> e)))"

record window_stats =
  ws_total_tokens :: int
  ws_turn_count :: nat
  ws_oldest_turn_index :: "nat option"

definition window_stats_of :: "engine \<Rightarrow> window_stats" where
  "window_stats_of e = \<lparr>ws_total_tokens = total_tokens (e_window e), ws_turn_count = turn_count (e_window e),
     ws_oldest_turn_index = oldest_turn_index (e_window e)\<rparr>"

section \<open>Lemmas: offloaded artifacts\<close>

text \<open>A reference that names a stored text, and the file that holds it.\<close>

definition stored :: "mgr \<Rightarrow> ref_id \<Rightarrow> jstring \<Rightarrow> bool" where
  "stored g i t \<longleftrightarrow> (\<exists>r. get_reference i g = Some r \<and> r_content_hash r = w_sha (g_env g) t \<and>
     w_files (g_env g) (r_path r) = Some (Plain_text t))"

lemma complete_turn_window: "e_window (snd (complete_turn ms b e)) = snd (push_turn ms (e_window e))"
  by (simp add: complete_turn_def Let_def split_beta)

lemma complete_turn_result:
  "tr_offloaded_ref_ids (fst (complete_turn ms b e)) = fst (store_offloads (fst (fst (push_turn ms (e_window e)))) (e_manager e))"
  "tr_evicted_turns (fst (complete_turn ms b e)) = snd (fst (push_turn ms (e_window e)))"
  by (simp_all add: complete_turn_def Let_def split_beta)

lemma complete_turn_manager:
  "e_manager (snd (complete_turn ms b e)) =
     (let g = snd (store_offloads (fst (fst (push_turn ms (e_window e)))) (e_manager e))
      in if e_auto_commit e \<and> (b \<or> fst (fst (push_turn ms (e_window e))) \<noteq> [] \<or> g_dirty g) then snd (manager_commit g) else g)"
  by (auto simp: complete_turn_def Let_def split_beta)

definition artifact_path :: "mgr \<Rightarrow> ref_id \<Rightarrow> jstring" where
  "artifact_path g i = path_join (p_artifacts_dir (g_persistence g)) (i @ js ''.artifact'')"

lemma artifact_path_inject [simp]: "artifact_path g i = artifact_path g j \<longleftrightarrow> i = j"
  by (simp add: artifact_path_def path_join_def)

lemma get_reference_simps [simp]:
  "get_reference i (log_op t md g) = get_reference i g" "get_reference i (g\<lparr>g_dirty := d\<rparr>) = get_reference i g"
  "get_reference i (g\<lparr>g_env := w\<rparr>) = get_reference i g" "get_reference i (g\<lparr>g_indexes := x\<rparr>) = get_reference i g"
  by (simp_all add: get_reference_def)

text \<open>Storing the text \<open>t\<close> under the next identifier, when no file-system call fails.\<close>

definition added :: "jstring \<Rightarrow> reference \<Rightarrow> mgr \<Rightarrow> mgr \<Rightarrow> bool" where
  "added t r g g' \<longleftrightarrow>
     w_files (g_env g') = (w_files (g_env g))(artifact_path g (next_ref_id g) \<mapsto> Plain_text t) \<and>
     (\<forall>j. get_reference j g' = (if j = next_ref_id g then Some r else get_reference j g)) \<and>
     r_path r = artifact_path g (next_ref_id g) \<and> r_content_hash r = w_sha (g_env g) t \<and>
     w_sha (g_env g') = w_sha (g_env g) \<and> w_uuid (g_env g') = w_uuid (g_env g) \<and>
     w_draw (g_env g') = Suc (w_draw (g_env g)) \<and> io_free (g_env g') \<and> g_persistence g' = g_persistence g"

lemma add_reference_free:
  assumes "io_free (g_env g)"
  obtains g' r where "add_reference input g = (Inr (next_ref_id g), g')" "added (content_text (ri_content input)) r g g'"
proof -
  let ?i = "next_ref_id g" and ?t = "content_text (ri_content input)"
  define w0 where "w0 = (g_env g)\<lparr>w_draw := Suc (w_draw (g_env g))\<rparr>"
  define w1 where "w1 = put_file (artifact_path g ?i) (Plain_text ?t) (w0\<lparr>w_io := Suc (Suc (w_io w0))\<rparr>)"
  have d: "draw_id ''REF_'' g = (?i, g\<lparr>g_env := w0\<rparr>)" by (simp add: draw_id_eq next_ref_id_def w0_def)
  have f: "io_free w0" using assms by (simp add: w0_def)
  have st: "store_artifact (g_persistence g) ?i (ri_content input) w0 =
      (Inr \<lparr>a_path = artifact_path g ?i, a_content_hash = w_sha w0 ?t, a_line_count = line_count_of ?t,
        a_byte_size = int (content_bytes (ri_content input))\<rparr>, w1)"
    using f by (simp add: store_artifact_def try_io_free Let_def artifact_path_def w1_def)
  obtain now g2 where n: "now_iso (g\<lparr>g_env := w1\<rparr>) = (now, g2)" by force
  note fr = now_iso_frame [OF n]
  have "io_free (g_env g2)" using n f by (auto simp: now_iso_def read_iso_def Let_def w1_def)
  define r where "r = \<lparr>r_id = ?i, r_source = ri_source input, r_label = ri_label input, r_path = artifact_path g ?i,
      r_content_hash = w_sha w0 ?t, r_line_count = line_count_of ?t, r_byte_size = int (content_bytes (ri_content input)),
      r_created_at = now, r_related_fact_ids = (case ri_related_fact_ids input of None \<Rightarrow> [] | Some xs \<Rightarrow> xs)\<rparr>"
  obtain g' where g': "add_reference input g = (Inr ?i, g')"
    "\<And>j. get_reference j g' = (if j = ?i then Some r else get_reference j g)"
    "w_files (g_env g') = w_files w1" "w_sha (g_env g') = w_sha w1" "w_uuid (g_env g') = w_uuid w1" "w_draw (g_env g') = w_draw w1"
    "io_free (g_env g')" "g_persistence g' = g_persistence g"
  proof (rule that [of "snd (add_reference input g)"])
    have np: "?i \<noteq> proto_key" by (simp add: next_ref_id_def)
    show "get_reference j (snd (add_reference input g)) = (if j = ?i then Some r else get_reference j g)" for j
      using np by (simp add: add_reference_def d st n Let_def fr) (simp add: get_reference_def fr map_of_obj_set r_def)
    show "io_free (g_env (snd (add_reference input g)))"
      using \<open>io_free (g_env g2)\<close>
      by (simp add: add_reference_def d st n Let_def) (simp add: record_op_def read_ms_def read_iso_def Let_def)
  qed (simp_all add: add_reference_def d st n Let_def fr)
  show ?thesis
    by (rule that [OF g'(1), of r]) (simp add: added_def g' w1_def w0_def r_def fun_eq_iff)
qed

lemma next_ref_drawn: "next_ref_id g = js ''REF_'' @ drawn (g_env g) (w_draw (g_env g))"
  by (simp add: next_ref_id_def)

text \<open>The next \<open>n\<close> identifiers that will be drawn are distinct and not in use.\<close>

definition fresh_refs :: "mgr \<Rightarrow> nat \<Rightarrow> bool" where
  "fresh_refs g n \<longleftrightarrow> inj_on (drawn (g_env g)) {w_draw (g_env g)..<w_draw (g_env g) + n} \<and>
     (\<forall>k < n. get_reference (js ''REF_'' @ drawn (g_env g) (w_draw (g_env g) + k)) g = None)"

lemma drawn_uuid: "w_uuid w' = w_uuid w \<Longrightarrow> drawn w' = drawn w"
  by (simp add: drawn_def fun_eq_iff)

lemma fresh_refs_step:
  assumes "fresh_refs g (Suc n)" "added t r g g'"
  shows "fresh_refs g' n"
proof -
  let ?d = "w_draw (g_env g)"
  have d: "w_draw (g_env g') = Suc ?d" using assms(2) by (simp add: added_def)
  have u: "drawn (g_env g') = drawn (g_env g)" using assms(2) by (intro drawn_uuid) (simp add: added_def)
  have i: "inj_on (drawn (g_env g)) {?d..<?d + Suc n}" using assms(1) by (simp add: fresh_refs_def)
  have "get_reference (js ''REF_'' @ drawn (g_env g) (Suc ?d + k)) g' = None" if "k < n" for k
  proof -
    have "drawn (g_env g) (Suc ?d + k) \<noteq> drawn (g_env g) ?d" using inj_onD [OF i, of "Suc ?d + k" ?d] that by auto
    moreover have "get_reference (js ''REF_'' @ drawn (g_env g) (?d + Suc k)) g = None"
      using assms(1) that unfolding fresh_refs_def by blast
    ultimately show ?thesis using assms(2) by (simp add: added_def next_ref_drawn)
  qed
  moreover have "inj_on (drawn (g_env g)) {Suc ?d..<Suc ?d + n}" by (rule inj_on_subset [OF i]) auto
  ultimately show ?thesis by (simp add: fresh_refs_def d u)
qed

lemma fresh_refs_next: "fresh_refs g (Suc n) \<Longrightarrow> get_reference (next_ref_id g) g = None"
  by (auto simp: fresh_refs_def next_ref_drawn)

text \<open>\<open>stored g i t\<close> together with the place of the artifact, which later references respect.\<close>

definition placed :: "mgr \<Rightarrow> ref_id \<Rightarrow> jstring \<Rightarrow> bool" where
  "placed g i t \<longleftrightarrow> (\<exists>r. get_reference i g = Some r \<and> r_path r = artifact_path g i \<and> r_content_hash r = w_sha (g_env g) t \<and>
     w_files (g_env g) (r_path r) = Some (Plain_text t))"

lemma placed_stored: "placed g i t \<Longrightarrow> stored g i t"
  by (auto simp: placed_def stored_def)

lemma added_paths: "added t r g g' \<Longrightarrow> artifact_path g' i = artifact_path g i"
  by (simp add: added_def artifact_path_def)

lemma placed_new: "added t r g g' \<Longrightarrow> placed g' (next_ref_id g) t"
  by (simp add: placed_def added_paths) (simp add: added_def)

lemma placed_step:
  assumes "placed g i u" "added t r g g'" "fresh_refs g (Suc n)"
  shows "placed g' i u"
proof -
  have "i \<noteq> next_ref_id g" using assms(1) fresh_refs_next [OF assms(3)] by (auto simp: placed_def)
  moreover from assms(1) obtain x where "get_reference i g = Some x" "r_path x = artifact_path g i"
    "r_content_hash x = w_sha (g_env g) u" "w_files (g_env g) (artifact_path g i) = Some (Plain_text u)"
    by (auto simp: placed_def)
  ultimately show ?thesis
    using assms(2) by (auto simp: placed_def added_paths [OF assms(2)]) (auto simp: added_def)
qed

lemma store_offloads_Cons:
  assumes "io_free (g_env g)" "fresh_refs g (Suc (length cs))"
  obtains g' r where "store_offloads (c # cs) g = (next_ref_id g # fst (store_offloads cs g'), snd (store_offloads cs g'))"
    "added (well_formed (oc_original_content c)) r g g'" "io_free (g_env g')" "fresh_refs g' (length cs)"
proof -
  from add_reference_free [OF assms(1)] obtain g' r where g': "add_reference (offload_input c) g = (Inr (next_ref_id g), g')"
    "added (content_text (ri_content (offload_input c))) r g g'" by metis
  then have a: "added (well_formed (oc_original_content c)) r g g'" by (simp add: offload_input_def content_text_def)
  show ?thesis
    by (rule that [OF _ a]) (use g'(1) a fresh_refs_step [OF assms(2) a] in \<open>simp_all add: Let_def split_beta added_def\<close>)
qed

lemma store_offloads_keeps:
  "io_free (g_env g) \<Longrightarrow> fresh_refs g (length cs) \<Longrightarrow> placed g i t \<Longrightarrow> placed (snd (store_offloads cs g)) i t"
proof (induction cs arbitrary: g)
  case (Cons c cs)
  obtain g' r where s: "store_offloads (c # cs) g = (next_ref_id g # fst (store_offloads cs g'), snd (store_offloads cs g'))"
    "added (well_formed (oc_original_content c)) r g g'" "io_free (g_env g')" "fresh_refs g' (length cs)"
    by (rule store_offloads_Cons [OF Cons.prems(1) Cons.prems(2) [unfolded length_Cons]])
  have "placed g' i t" using Cons.prems(2) by (intro placed_step [OF Cons.prems(3) s(2)]) simp
  then show ?case unfolding s(1) snd_conv by (rule Cons.IH [OF s(3,4)])
qed simp

lemma store_offloads_placed:
  "io_free (g_env g) \<Longrightarrow> fresh_refs g (length cs) \<Longrightarrow> length (fst (store_offloads cs g)) = length cs \<and>
    (\<forall>k < length cs. placed (snd (store_offloads cs g)) (fst (store_offloads cs g) ! k) (well_formed (oc_original_content (cs ! k))))"
proof (induction cs arbitrary: g)
  case (Cons c cs)
  obtain g' r where s: "store_offloads (c # cs) g = (next_ref_id g # fst (store_offloads cs g'), snd (store_offloads cs g'))"
    "added (well_formed (oc_original_content c)) r g g'" "io_free (g_env g')" "fresh_refs g' (length cs)"
    by (rule store_offloads_Cons [OF Cons.prems(1) Cons.prems(2) [unfolded length_Cons]])
  have "placed (snd (store_offloads cs g')) (next_ref_id g) (well_formed (oc_original_content c))"
    by (rule store_offloads_keeps [OF s(3,4) placed_new [OF s(2)]])
  then have "placed (snd (store_offloads cs g')) ((next_ref_id g # fst (store_offloads cs g')) ! k)
      (well_formed (oc_original_content ((c # cs) ! k)))" if "k < length (c # cs)" for k
    using that Cons.IH [OF s(3,4)] by (cases k) simp_all
  with Cons.IH [OF s(3,4)] show ?case by (simp only: s(1) fst_conv snd_conv length_Cons) blast
qed simp

text \<open>A stored artifact can be recalled.\<close>

lemma recall_stored:
  assumes "io_free (g_env g)" "stored g i t" "rq_ref_id rq = i" "validate_request rq = None"
  shows "\<exists>x. fst (recall cfg rq g) = Recall_ok x \<and> rr_total_lines x = int (length (split_nl t)) \<and> faithful (split_nl t) (rr_lines x)"
proof -
  obtain r where r: "get_reference i g = Some r" "r_content_hash r = w_sha (g_env g) t" "w_files (g_env g) (r_path r) = Some (Plain_text t)"
    using assms(2) by (auto simp: stored_def)
  then have "read_file (r_path r) (g_env g) = (Inr (Plain_text t), (g_env g)\<lparr>w_io := Suc (w_io (g_env g))\<rparr>)"
    using assms(1) by (simp add: read_file_def try_io_free)
  with r assms(3,4) have "fst (recall cfg rq g) = Recall_ok (exec_mode cfg (r\<lparr>r_id := i\<rparr>) t rq (rq_mode rq))"
    by (simp add: recall_def Let_def)
  then show ?thesis by (simp add: mode_total faithful_mode)
qed

section \<open>Lemmas: the advertised identifiers\<close>

text \<open>Identifiers of references carry no underscore after their prefix, because those of
  \<open>randomUUID\<close> have none.\<close>

definition plain_ref_id :: "ref_id \<Rightarrow> bool" where
  "plain_ref_id i \<longleftrightarrow> 95 \<notin> set (drop 4 i)"

definition refs_plain :: "mgr \<Rightarrow> bool" where
  "refs_plain g \<longleftrightarrow> (\<forall>i. get_reference i g \<noteq> None \<longrightarrow> plain_ref_id i) \<and> (\<forall>n. 95 \<notin> set (w_uuid (g_env g) n))"

lemma drawn_plain:
  assumes "\<forall>n. 95 \<notin> set (w_uuid w n)"
  shows "plain_ref_id (js ''REF_'' @ drawn w n)"
proof -
  have u: "upper_unit c = 95 \<Longrightarrow> c = 95" for c by (auto simp: upper_unit_def split: if_splits)
  have "95 \<notin> set (drawn w n)"
  proof
    assume "95 \<in> set (drawn w n)"
    then obtain c where "c \<in> set (take 12 (filter (\<lambda>c. c \<noteq> 45) (w_uuid w n)))" "upper_unit c = 95"
      unfolding drawn_def short_id_of_def set_map by (elim imageE) simp
    with u [of c] have "95 \<in> set (take 12 (filter (\<lambda>c. c \<noteq> 45) (w_uuid w n)))" by simp
    from in_set_takeD [OF this] assms show False by simp
  qed
  then show ?thesis by (simp add: plain_ref_id_def)
qed

lemma offload_id_not_plain: "\<not> plain_ref_id (offload_id turn i)"
  by (simp add: plain_ref_id_def offload_id_def) (simp add: js_def)

lemma add_reference_refs:
  "j \<noteq> next_ref_id g \<Longrightarrow> get_reference j (snd (add_reference input g)) = get_reference j g"
  "w_uuid (g_env (snd (add_reference input g))) = w_uuid (g_env g)"
proof -
  define w0 where "w0 = (g_env g)\<lparr>w_draw := Suc (w_draw (g_env g))\<rparr>"
  have d: "draw_id ''REF_'' g = (next_ref_id g, g\<lparr>g_env := w0\<rparr>)" by (simp add: draw_id_eq next_ref_id_def w0_def)
  obtain res w1 where st: "store_artifact (g_persistence g) (next_ref_id g) (ri_content input) w0 = (res, w1)" by fastforce
  note fr = store_artifact_frame [OF st]
  obtain now g2 where n: "now_iso (g\<lparr>g_env := w1\<rparr>) = (now, g2)" by force
  note f2 = now_iso_frame [OF n]
  show "w_uuid (g_env (snd (add_reference input g))) = w_uuid (g_env g)"
    by (cases res; simp add: add_reference_def d st n Let_def f2 fr; simp add: w0_def)
  assume j: "j \<noteq> next_ref_id g"
  show "get_reference j (snd (add_reference input g)) = get_reference j g"
  proof (cases res)
    case (Inl e)
    then show ?thesis by (simp add: add_reference_def d st)
  next
    case (Inr a)
    with j show ?thesis
      by (simp add: add_reference_def d st n Let_def) (simp add: get_reference_def f2 map_of_obj_set next_ref_id_def)
  qed
qed

lemma store_offloads_plain: "refs_plain g \<Longrightarrow> refs_plain (snd (store_offloads cs g))"
proof (induction cs arbitrary: g)
  case (Cons c cs)
  let ?g' = "snd (add_reference (offload_input c) g)"
  have "plain_ref_id (next_ref_id g)" using Cons.prems drawn_plain by (simp add: refs_plain_def next_ref_drawn)
  then have "refs_plain ?g'"
    using Cons.prems add_reference_refs(1) [of _ g "offload_input c"]
    by (auto simp: refs_plain_def add_reference_refs(2)) metis
  then show ?case using Cons.IH [of ?g'] by (simp add: Let_def split_beta)
qed simp

lemma commit_keeps_refs:
  "get_reference i (snd (manager_commit g)) = get_reference i g"
  "w_uuid (g_env (snd (manager_commit g))) = w_uuid (g_env g)"
proof -
  obtain r w where c: "commit (g_persistence g) (g_working g) (g_expected g) (g_env g) = (r, w)" by fastforce
  note u = commit_env [OF c]
  show "get_reference i (snd (manager_commit g)) = get_reference i g"
    by (cases r) (simp_all add: manager_commit_def c get_reference_def)
  show "w_uuid (g_env (snd (manager_commit g))) = w_uuid (g_env g)"
    by (cases r) (simp_all add: manager_commit_def c u)
qed

lemma complete_turn_plain: "refs_plain (e_manager e) \<Longrightarrow> refs_plain (e_manager (snd (complete_turn ms b e)))"
  using store_offloads_plain [of "e_manager e" "fst (fst (push_turn ms (e_window e)))"]
  by (simp add: complete_turn_manager Let_def) (simp add: refs_plain_def commit_keeps_refs)

lemma plain_pointer_unknown:
  assumes "refs_plain g" "validate_request rq = None" "rq_ref_id rq = offload_id turn i"
  shows "get_reference (offload_id turn i) g = None" "\<exists>d. fst (recall cfg rq g) = Recall_error (offload_id turn i) Ref_not_found d"
proof -
  show n: "get_reference (offload_id turn i) g = None"
    using assms(1) offload_id_not_plain by (auto simp: refs_plain_def)
  show "\<exists>d. fst (recall cfg rq g) = Recall_error (offload_id turn i) Ref_not_found d"
    using n assms(2,3) by (simp add: recall_def Let_def)
qed

section \<open>Lemmas: synchronizing\<close>

lemma sync_loads:
  assumes "sync_and_replan e = (Sync_ok, e')"
  shows "\<exists>m ix w. load (g_persistence (e_manager e)) (g_env (e_manager e)) = (L_ok m ix, w) \<and>
    m_facts (g_working (e_manager e')) = m_facts m \<and> m_references (g_working (e_manager e')) = m_references m \<and>
    m_summaries (g_working (e_manager e')) = m_summaries m \<and> g_expected (e_manager e') = m_revision m \<and>
    \<not> g_dirty (e_manager e') \<and> e_window e' = e_window e"
proof -
  obtain r w where l: "load (g_persistence (e_manager e)) (g_env (e_manager e)) = (r, w)" by fastforce
  with assms show ?thesis
    by (cases r) (auto simp: sync_and_replan_def reload_def)
qed

end
