(* ===== verification/Adapter.thy ===== *)
theory Adapter
  imports ContextEngine
begin

text \<open>
  The adapter that puts the engine into the context-engine slot of OpenClaw
  (\<open>src/adapters/openclaw-context-adapter.ts\<close>) and the plugin entry
  (\<open>src/adapters/plugin-entry.ts\<close>). \<open>adapter\<close> is the state of one adapter object: its
  sessions, each an engine and the buffered messages, and the world they share; a call on a
  session runs its engine in that world. Calls run one after the other; the concurrent
  commits of \<open>dispose\<close> are taken in the order of the sessions. The runtime's compaction is a
  parameter.
\<close>

section \<open>Messages\<close>

record content_part =
  cp_type :: jstring
  cp_text :: "jstring option"

datatype agent_content = Plain_content jstring | Part_content "content_part list"

record agent_message =
  am_role :: jstring
  am_content :: agent_content
  am_timestamp :: "int option"

fun extract_text_content :: "agent_content \<Rightarrow> jstring" where
  "extract_text_content (Plain_content s) = s"
| "extract_text_content (Part_content ps) =
     join (js '' '') (map (\<lambda>p. if cp_type p = js ''text'' \<and> cp_text p \<noteq> None then the (cp_text p)
       else js ''['' @ cp_type p @ js '']'') ps)"

fun role_str :: "turn_role \<Rightarrow> jstring" where
  "role_str User = js ''user''"
| "role_str Assistant = js ''assistant''"
| "role_str Tool = js ''tool''"

definition agent_to_turn :: "agent_message \<Rightarrow> turn_message option" where
  "agent_to_turn m =
     map_option (\<lambda>r. plain_message r (extract_text_content (am_content m))) (of_str role_str [User, Assistant, Tool] (am_role m))"

definition turn_to_agent :: "turn_message \<Rightarrow> world \<Rightarrow> agent_message \<times> world" where
  "turn_to_agent m w =
     (let (now, w) = read_ms w
      in (\<lparr>am_role = role_str (tm_role m), am_content = Plain_content (tm_content m), am_timestamp = Some now\<rparr>, w))"

fun turns_to_agent :: "turn_message list \<Rightarrow> world \<Rightarrow> agent_message list \<times> world" where
  "turns_to_agent [] w = ([], w)"
| "turns_to_agent (m # ms) w = (let (a, w) = turn_to_agent m w; (as, w) = turns_to_agent ms w in (a # as, w))"

definition extract_system_prompt :: "agent_message list \<Rightarrow> jstring option" where
  "extract_system_prompt ms =
     (case ms of [] \<Rightarrow> None
      | m # _ \<Rightarrow> if am_role m = js ''system'' \<or> am_role m = js ''user'' then Some (extract_text_content (am_content m)) else None)"

definition extract_last_user_content :: "agent_message list \<Rightarrow> jstring option" where
  "extract_last_user_content ms =
     map_option (\<lambda>m. extract_text_content (am_content m)) (List.find (\<lambda>m. am_role m = js ''user'') (rev ms))"

definition estimate_agent_tokens :: "agent_message list \<Rightarrow> int" where
  "estimate_agent_tokens ms = ceil_div (int (sum_list (map (\<lambda>m. length (extract_text_content (am_content m))) ms))) 4"

section \<open>Configuration and state\<close>

record engine_overrides =
  eo_sliding_window :: "window_partial option"
  eo_injection :: "injection_partial option"
  eo_auto_commit :: "bool option"

record adapter_config =
  ac_engine_id :: jstring
  ac_engine_name :: jstring
  ac_version :: jstring
  ac_manifest_root_dir :: "jstring option"
  ac_context_engine :: "engine_overrides option"

definition adapter_defaults :: adapter_config where
  "adapter_defaults = \<lparr>ac_engine_id = js ''manifest-engine'', ac_engine_name = js ''OpenClaw Manifest Engine'',
     ac_version = js ''0.1.0'', ac_manifest_root_dir = None, ac_context_engine = None\<rparr>"

record engine_info =
  ei_id :: jstring
  ei_name :: jstring
  ei_version :: jstring
  ei_owns_compaction :: bool
  ei_turn_maintenance_mode :: jstring

record session_state =
  ss_engine :: engine
  ss_pending :: "turn_message list"

record adapter =
  ad_sessions :: "(jstring, session_state) jmap"
  ad_config :: adapter_config
  ad_info :: engine_info
  ad_world :: world

definition new_adapter :: "adapter_config \<Rightarrow> world \<Rightarrow> adapter" where
  "new_adapter cfg w =
     \<lparr>ad_sessions = [], ad_config = cfg,
      ad_info = \<lparr>ei_id = ac_engine_id cfg, ei_name = ac_engine_name cfg, ei_version = ac_version cfg,
        ei_owns_compaction = False, ei_turn_maintenance_mode = js ''foreground''\<rparr>,
      ad_world = w\<rparr>"

definition engine_config_for :: "adapter_config \<Rightarrow> engine_config" where
  "engine_config_for cfg =
     (case ac_context_engine cfg of
        None \<Rightarrow> \<lparr>ec_sliding_window = None, ec_injection = None, ec_auto_commit = True\<rparr>
      | Some x \<Rightarrow> \<lparr>ec_sliding_window = eo_sliding_window x, ec_injection = eo_injection x,
          ec_auto_commit = or_else (eo_auto_commit x) True\<rparr>)"

section \<open>Calling a session\<close>

definition enter :: "world \<Rightarrow> engine \<Rightarrow> engine" where
  "enter w e = e\<lparr>e_manager := (e_manager e)\<lparr>g_env := w\<rparr>\<rparr>"

definition leave :: "engine \<Rightarrow> world" where
  "leave e = g_env (e_manager e)"

definition on_session :: "jstring \<Rightarrow> (session_state \<Rightarrow> 'r \<times> session_state) \<Rightarrow> adapter \<Rightarrow> 'r option \<times> adapter" where
  "on_session i f ad =
     (case map_of (ad_sessions ad) i of
        None \<Rightarrow> (None, ad)
      | Some s \<Rightarrow>
          (let (r, s) = f (s\<lparr>ss_engine := enter (ad_world ad) (ss_engine s)\<rparr>)
           in (Some r, ad\<lparr>ad_sessions := map_put i s (ad_sessions ad), ad_world := leave (ss_engine s)\<rparr>)))"

definition on_engine :: "(engine \<Rightarrow> 'r \<times> engine) \<Rightarrow> session_state \<Rightarrow> 'r \<times> session_state" where
  "on_engine f s = (let (r, e) = f (ss_engine s) in (r, s\<lparr>ss_engine := e\<rparr>))"

section \<open>Lifecycle\<close>

definition session_dir :: "adapter_config \<Rightarrow> jstring \<Rightarrow> jstring \<Rightarrow> jstring" where
  "session_dir cfg i session_file =
     (case ac_manifest_root_dir cfg of
        Some d \<Rightarrow> if d \<noteq> [] then path_join d i else dirname session_file
      | None \<Rightarrow> dirname session_file)"

text \<open>\<open>Inl\<close>: the promise is rejected with the error of \<open>ManifestManager.load\<close>.\<close>

definition bootstrap :: "jstring \<Rightarrow> jstring \<Rightarrow> adapter \<Rightarrow> (jstring + bool \<times> jstring option) \<times> adapter" where
  "bootstrap i session_file ad =
     (if map_of (ad_sessions ad) i \<noteq> None then (Inr (False, Some (js ''already_bootstrapped'')), ad)
      else (let dir = session_dir (ad_config ad) i session_file in
        case manager_load (path_join dir (js ''manifest.json'')) (path_join dir (js ''artifacts'')) (js ''manifest-engine'') (ad_world ad) of
          (Inl e, w) \<Rightarrow> (Inl e, ad\<lparr>ad_world := w\<rparr>)
        | (Inr g, w) \<Rightarrow>
            (Inr (True, None),
             ad\<lparr>ad_sessions := map_put i \<lparr>ss_engine = new_engine g (engine_config_for (ad_config ad)), ss_pending = []\<rparr> (ad_sessions ad),
                ad_world := w\<rparr>)))"

definition buffer :: "turn_message \<Rightarrow> session_state \<Rightarrow> session_state" where
  "buffer m s = s\<lparr>ss_pending := ss_pending s @ [m]\<rparr>"

definition ingest :: "jstring \<Rightarrow> agent_message \<Rightarrow> adapter \<Rightarrow> bool \<times> adapter" where
  "ingest i m ad =
     (let (r, ad) = on_session i (\<lambda>s. case agent_to_turn m of None \<Rightarrow> (False, s) | Some t \<Rightarrow> (True, buffer t s)) ad
      in (or_else r False, ad))"

fun buffer_all :: "agent_message list \<Rightarrow> nat \<Rightarrow> session_state \<Rightarrow> nat \<times> session_state" where
  "buffer_all [] n s = (n, s)"
| "buffer_all (m # ms) n s =
     (case agent_to_turn m of None \<Rightarrow> buffer_all ms n s | Some t \<Rightarrow> buffer_all ms (Suc n) (buffer t s))"

definition ingest_batch :: "jstring \<Rightarrow> agent_message list \<Rightarrow> adapter \<Rightarrow> nat \<times> adapter" where
  "ingest_batch i ms ad = (let (r, ad) = on_session i (buffer_all ms 0) ad in (or_else r 0, ad))"

record assemble_result =
  as_messages :: "agent_message list"
  as_estimated_tokens :: int
  as_prompt_authority :: jstring

definition assemble_in ::
  "(jstring \<Rightarrow> jstring \<Rightarrow> int) \<Rightarrow> agent_message list \<Rightarrow> jstring option \<Rightarrow> engine \<Rightarrow> assemble_result \<times> engine" where
  "assemble_in collate ms prompt e =
     (let user = (case prompt of Some p \<Rightarrow> Some p | None \<Rightarrow> extract_last_user_content ms);
          compiled = build_messages collate (or_else (extract_system_prompt ms) []) (or_else user []) e;
          (out, w) = turns_to_agent compiled (leave e)
      in (\<lparr>as_messages = out, as_estimated_tokens = estimate_agent_tokens out, as_prompt_authority = js ''assembled''\<rparr>, enter w e))"

definition assemble ::
  "(jstring \<Rightarrow> jstring \<Rightarrow> int) \<Rightarrow> jstring \<Rightarrow> agent_message list \<Rightarrow> jstring option \<Rightarrow> adapter \<Rightarrow> assemble_result \<times> adapter" where
  "assemble collate i ms prompt ad =
     (let (r, ad) = on_session i (on_engine (assemble_in collate ms prompt)) ad
      in (or_else r \<lparr>as_messages = ms, as_estimated_tokens = estimate_agent_tokens ms, as_prompt_authority = js ''assembled''\<rparr>, ad))"

definition turn_of :: "agent_message list \<Rightarrow> int \<Rightarrow> turn_message list" where
  "turn_of ms pre_prompt = List.map_filter agent_to_turn (slice_from ms pre_prompt)"

text \<open>\<open>Some\<close>: the result of the synchronization that a revision conflict makes necessary.\<close>

definition after_turn_in :: "agent_message list \<Rightarrow> int \<Rightarrow> session_state \<Rightarrow> sync_result option \<times> session_state" where
  "after_turn_in ms pre_prompt s =
     (let all = ss_pending s @ turn_of ms pre_prompt; s = s\<lparr>ss_pending := []\<rparr> in
      if all = [] then (None, s)
      else (let (r, e) = complete_turn all False (ss_engine s) in
        if tr_sync_required r then (let (x, e) = sync_and_replan e in (Some x, s\<lparr>ss_engine := e\<rparr>))
        else (None, s\<lparr>ss_engine := e\<rparr>)))"

definition after_turn :: "jstring \<Rightarrow> agent_message list \<Rightarrow> int \<Rightarrow> adapter \<Rightarrow> sync_result option \<times> adapter" where
  "after_turn i ms pre_prompt ad = (let (r, ad) = on_session i (after_turn_in ms pre_prompt) ad in (or_else r None, ad))"

record compact_result =
  co_ok :: bool
  co_compacted :: bool
  co_reason :: "jstring option"

definition compact :: "('p \<Rightarrow> compact_result) option \<Rightarrow> 'p \<Rightarrow> compact_result" where
  "compact delegate params =
     (case delegate of Some f \<Rightarrow> f params
      | None \<Rightarrow> \<lparr>co_ok = True, co_compacted = False, co_reason = Some (js ''no_delegate_available'')\<rparr>)"

definition flush :: "engine \<Rightarrow> commit_result option \<times> engine" where
  "flush e = (if g_dirty (e_manager e) then (let (c, g) = manager_commit (e_manager e) in (Some c, e\<lparr>e_manager := g\<rparr>)) else (None, e))"

fun flush_all :: "session_state list \<Rightarrow> world \<Rightarrow> commit_result option list \<times> world" where
  "flush_all [] w = ([], w)"
| "flush_all (s # ss) w =
     (let (c, e) = flush (enter w (ss_engine s)); (cs, w) = flush_all ss (leave e) in (c # cs, w))"

definition dispose :: "adapter \<Rightarrow> commit_result option list \<times> adapter" where
  "dispose ad = (let (cs, w) = flush_all (map snd (ad_sessions ad)) (ad_world ad) in (cs, ad\<lparr>ad_sessions := [], ad_world := w\<rparr>))"

section \<open>Proxies\<close>

definition adapter_add_fact :: "jstring \<Rightarrow> add_fact_input \<Rightarrow> adapter \<Rightarrow> add_fact_result option \<times> adapter" where
  "adapter_add_fact i input = on_session i (on_engine (engine_add_fact input))"

definition adapter_add_reference :: "jstring \<Rightarrow> add_reference_input \<Rightarrow> adapter \<Rightarrow> (jstring + ref_id) option \<times> adapter" where
  "adapter_add_reference i input = on_session i (on_engine (engine_add_reference input))"

definition adapter_add_summary :: "jstring \<Rightarrow> add_summary_input \<Rightarrow> adapter \<Rightarrow> (summary_id \<times> summary_id option) option \<times> adapter" where
  "adapter_add_summary i input = on_session i (on_engine (engine_add_summary input))"

definition adapter_query_facts :: "jstring \<Rightarrow> query_filter \<Rightarrow> adapter \<Rightarrow> fact list" where
  "adapter_query_facts i q ad = (case map_of (ad_sessions ad) i of None \<Rightarrow> [] | Some s \<Rightarrow> engine_query_facts q (ss_engine s))"

definition get_engine :: "jstring \<Rightarrow> adapter \<Rightarrow> engine option" where
  "get_engine i ad = map_option ss_engine (map_of (ad_sessions ad) i)"

definition create_adapter :: "adapter_config \<Rightarrow> world \<Rightarrow> adapter" where
  "create_adapter cfg w = new_adapter cfg w"

section \<open>Plugin entry\<close>

definition is_integer :: "dbl \<Rightarrow> bool" where
  "is_integer x \<longleftrightarrow> x mod ulp0 = 0"

definition parse_positive_int :: "jsval \<Rightarrow> int \<Rightarrow> int option" where
  "parse_positive_int v minimum =
     (case v of Num x \<Rightarrow> if \<not> is_integer x \<or> x div ulp0 < minimum then None else Some (x div ulp0) | _ \<Rightarrow> None)"

text \<open>The members the entry sets; everything else stays with the defaults.\<close>

record plugin_options =
  po_manifest_root_dir :: "jstring option"
  po_context_engine :: "engine_overrides option"

definition no_plugin_options :: plugin_options where
  "no_plugin_options = \<lparr>po_manifest_root_dir = None, po_context_engine = None\<rparr>"

definition members_of :: "jsval \<Rightarrow> jsobj option" where
  "members_of v = (case v of Obj kvs \<Rightarrow> Some kvs | Arr vs \<Rightarrow> Some [] | _ \<Rightarrow> None)"

definition root_dir_of :: "jsval \<Rightarrow> jstring option" where
  "root_dir_of v = (case v of Str s \<Rightarrow> if trim s \<noteq> [] then Some s else None | _ \<Rightarrow> None)"

definition to_adapter_config :: "jsval \<Rightarrow> plugin_options" where
  "to_adapter_config v =
     (case members_of v of
        None \<Rightarrow> no_plugin_options
      | Some raw \<Rightarrow>
          (let dir = root_dir_of (jget raw (js ''manifestRootDir''));
               inj = no_injection_partial
                 \<lparr>ip_max_chars := parse_positive_int (jget raw (js ''maxContextChars'')) 1000,
                  ip_max_facts := parse_positive_int (jget raw (js ''maxFacts'')) 1,
                  ip_max_summaries := parse_positive_int (jget raw (js ''maxSummaries'')) 1\<rparr>;
               win = no_window_partial
                 \<lparr>wp_max_tokens := parse_positive_int (jget raw (js ''maxWindowTokens'')) 100,
                  wp_max_turns := parse_positive_int (jget raw (js ''maxWindowTurns'')) 1\<rparr>
           in \<lparr>po_manifest_root_dir = dir,
               po_context_engine =
                 (if inj \<noteq> no_injection_partial \<or> win \<noteq> no_window_partial
                  then Some \<lparr>eo_sliding_window = (if win \<noteq> no_window_partial then Some win else None),
                    eo_injection = (if inj \<noteq> no_injection_partial then Some inj else None), eo_auto_commit = None\<rparr>
                  else None)\<rparr>))"

definition adapter_config_of :: "plugin_options \<Rightarrow> adapter_config" where
  "adapter_config_of p = adapter_defaults\<lparr>ac_manifest_root_dir := po_manifest_root_dir p, ac_context_engine := po_context_engine p\<rparr>"

text \<open>The module keeps one adapter: only the first activation configures it. \<open>register\<close>
  returns the identifier under which the factory is registered.\<close>

definition get_or_create_adapter :: "plugin_options \<Rightarrow> world \<Rightarrow> adapter option \<Rightarrow> adapter" where
  "get_or_create_adapter p w module_adapter = or_else module_adapter (create_adapter (adapter_config_of p) w)"

definition register :: "jsval \<Rightarrow> world \<Rightarrow> adapter option \<Rightarrow> jstring \<times> adapter option" where
  "register plugin_config w module_adapter =
     (let ad = get_or_create_adapter (to_adapter_config plugin_config) w module_adapter in (ei_id (ad_info ad), Some ad))"

section \<open>Sequences of calls\<close>

text \<open>The methods that change the adapter, one after the other. \<open>collate\<close> is the parameter of \<open>compile\<close>.\<close>

datatype adapter_call =
    Call_bootstrap jstring jstring
  | Call_ingest jstring agent_message
  | Call_ingest_batch jstring "agent_message list"
  | Call_assemble jstring "agent_message list" "jstring option"
  | Call_after_turn jstring "agent_message list" int
  | Call_session_fact jstring add_fact_input
  | Call_session_reference jstring add_reference_input
  | Call_session_summary jstring add_summary_input
  | Call_dispose

fun adapter_exec :: "(jstring \<Rightarrow> jstring \<Rightarrow> int) \<Rightarrow> adapter_call \<Rightarrow> adapter \<Rightarrow> adapter" where
  "adapter_exec collate (Call_bootstrap i session_file) ad = snd (bootstrap i session_file ad)"
| "adapter_exec collate (Call_ingest i m) ad = snd (ingest i m ad)"
| "adapter_exec collate (Call_ingest_batch i ms) ad = snd (ingest_batch i ms ad)"
| "adapter_exec collate (Call_assemble i ms prompt) ad = snd (assemble collate i ms prompt ad)"
| "adapter_exec collate (Call_after_turn i ms n) ad = snd (after_turn i ms n ad)"
| "adapter_exec collate (Call_session_fact i input) ad = snd (adapter_add_fact i input ad)"
| "adapter_exec collate (Call_session_reference i input) ad = snd (adapter_add_reference i input ad)"
| "adapter_exec collate (Call_session_summary i input) ad = snd (adapter_add_summary i input ad)"
| "adapter_exec collate Call_dispose ad = snd (dispose ad)"

fun call_session :: "adapter_call \<Rightarrow> jstring option" where
  "call_session (Call_bootstrap i session_file) = Some i"
| "call_session (Call_ingest i m) = Some i"
| "call_session (Call_ingest_batch i ms) = Some i"
| "call_session (Call_assemble i ms prompt) = Some i"
| "call_session (Call_after_turn i ms n) = Some i"
| "call_session (Call_session_fact i input) = Some i"
| "call_session (Call_session_reference i input) = Some i"
| "call_session (Call_session_summary i input) = Some i"
| "call_session Call_dispose = None"

section \<open>Lemmas\<close>

lemma on_session_frame:
  "j \<noteq> i \<Longrightarrow> map_of (ad_sessions (snd (on_session i f ad))) j = map_of (ad_sessions ad) j"
  "map_of (ad_sessions ad) i = Some s \<Longrightarrow> map_of (ad_sessions (snd (on_session i f ad))) i =
     Some (snd (f (s\<lparr>ss_engine := enter (ad_world ad) (ss_engine s)\<rparr>)))"
  by (auto simp: on_session_def js_simps split_beta split: option.splits)

lemma on_session_result:
  "map_of (ad_sessions ad) i = Some s \<Longrightarrow>
     fst (on_session i f ad) = Some (fst (f (s\<lparr>ss_engine := enter (ad_world ad) (ss_engine s)\<rparr>)))"
  by (simp add: on_session_def split_beta)

lemma enter_window [simp]: "e_window (enter w e) = e_window e" "e_compiler (enter w e) = e_compiler e"
  "g_working (e_manager (enter w e)) = g_working (e_manager e)"
  by (simp_all add: enter_def)

lemma agent_to_turn_content: "agent_to_turn m = Some t \<Longrightarrow> tm_content t = extract_text_content (am_content m)"
  by (auto simp: agent_to_turn_def plain_message_def)

lemma buffer_all_pending:
  "buffer_all ms n s = (n + length (List.map_filter agent_to_turn ms), s\<lparr>ss_pending := ss_pending s @ List.map_filter agent_to_turn ms\<rparr>)"
  by (induction ms arbitrary: n s) (auto simp: buffer_def map_filter_simps split: option.splits)

lemma sync_window: "e_window (snd (sync_and_replan e)) = e_window e"
  by (simp add: sync_and_replan_def split: prod.splits reload_result.splits)

lemma after_turn_window:
  "ss_pending (snd (after_turn_in ms n s)) = []"
  "e_window (ss_engine (snd (after_turn_in ms n s))) =
     (if ss_pending s @ turn_of ms n = [] then e_window (ss_engine s)
      else snd (push_turn (ss_pending s @ turn_of ms n) (e_window (ss_engine s))))"
  by (simp_all add: after_turn_in_def Let_def split_beta complete_turn_window sync_window)

text \<open>Every call but \<open>dispose\<close> leaves the other sessions as they are.\<close>

lemma on_engine_session: "snd (on_engine f s) = s\<lparr>ss_engine := snd (f (ss_engine s))\<rparr>"
  by (simp add: on_engine_def split_beta)

lemma other_sessions_stay:
  assumes "call_session c \<noteq> Some i" "c \<noteq> Call_dispose"
  shows "map_of (ad_sessions (adapter_exec collate c ad)) i = map_of (ad_sessions ad) i"
proof (cases c)
  case (Call_bootstrap j path)
  with assms(1) show ?thesis by (simp add: bootstrap_def Let_def js_simps split: prod.split sum.split)
qed (use assms in \<open>simp_all add: ingest_def ingest_batch_def assemble_def after_turn_def split_beta adapter_add_fact_def
       adapter_add_reference_def adapter_add_summary_def on_session_frame(1)\<close>)

lemma turns_to_agent_contents:
  "map (\<lambda>m. extract_text_content (am_content m)) (fst (turns_to_agent ms w)) = map tm_content ms"
  "map am_role (fst (turns_to_agent ms w)) = map (\<lambda>m. role_str (tm_role m)) ms"
  by (induction ms arbitrary: w) (auto simp: split_beta turn_to_agent_def read_ms_def)

lemma sum_lengths: "int (sum_list (map (\<lambda>m. length (extract_text_content (am_content m))) as)) =
  int (sum_list (map length (map (\<lambda>m. extract_text_content (am_content m)) as)))"
  by (simp add: comp_def)

text \<open>What the plugin entry accepts.\<close>

lemma parse_positive_int_ge: "parse_positive_int v n = Some k \<Longrightarrow> n \<le> k"
  by (auto simp: parse_positive_int_def split: jsval.splits if_splits)

definition plugin_engine_config :: "jsval \<Rightarrow> engine_config" where
  "plugin_engine_config v = engine_config_for (adapter_config_of (to_adapter_config v))"

lemma parsed_or_default:
  "n \<le> d \<Longrightarrow> n \<le> or_else (parse_positive_int v n) d"
  by (auto split: option.splits dest: parse_positive_int_ge)

text \<open>The partial configurations that reach the window and the compiler.\<close>

definition plugin_window :: "jsval \<Rightarrow> window_partial" where
  "plugin_window v = or_else (ec_sliding_window (plugin_engine_config v)) no_window_partial"

definition plugin_injection :: "jsval \<Rightarrow> injection_partial" where
  "plugin_injection v = or_else (ec_injection (plugin_engine_config v)) no_injection_partial"

lemma plugin_partials:
  "plugin_window v = (case members_of v of None \<Rightarrow> no_window_partial
     | Some raw \<Rightarrow> no_window_partial
         \<lparr>wp_max_tokens := parse_positive_int (jget raw (js ''maxWindowTokens'')) 100,
          wp_max_turns := parse_positive_int (jget raw (js ''maxWindowTurns'')) 1\<rparr>)"
  "plugin_injection v = (case members_of v of None \<Rightarrow> no_injection_partial
     | Some raw \<Rightarrow> no_injection_partial
         \<lparr>ip_max_chars := parse_positive_int (jget raw (js ''maxContextChars'')) 1000,
          ip_max_facts := parse_positive_int (jget raw (js ''maxFacts'')) 1,
          ip_max_summaries := parse_positive_int (jget raw (js ''maxSummaries'')) 1\<rparr>)"
  by (simp_all add: plugin_window_def plugin_injection_def plugin_engine_config_def engine_config_for_def adapter_config_of_def
      to_adapter_config_def no_plugin_options_def adapter_defaults_def Let_def split: option.split)

lemma plugin_limits:
  "1000 \<le> ic_max_chars (injection_config_of (plugin_injection v)) \<and> 1 \<le> ic_max_facts (injection_config_of (plugin_injection v)) \<and>
   1 \<le> ic_max_summaries (injection_config_of (plugin_injection v)) \<and> 100 \<le> wc_max_tokens (window_config_of (plugin_window v)) \<and>
   1 \<le> wc_max_turns (window_config_of (plugin_window v)) \<and> wc_chars_per_token (window_config_of (plugin_window v)) = 4"
  by (cases "members_of v")
    (simp_all add: plugin_partials window_config_of_def injection_config_of_def parsed_or_default
      no_window_partial_def no_injection_partial_def window_defaults_def injection_defaults_def)

text \<open>An engine that runs with the configuration of the plugin entry.\<close>

definition configured :: "jsval \<Rightarrow> engine \<Rightarrow> bool" where
  "configured v e \<longleftrightarrow> e_compiler e = injection_config_of (plugin_injection v) \<and>
     sw_config (e_window e) = window_config_of (plugin_window v) \<and> window_ok (e_window e)"

lemma new_engine_configured: "configured v (new_engine g (plugin_engine_config v))"
  by (simp add: configured_def new_engine_def plugin_window_def plugin_injection_def new_window_ok) (simp add: new_window_def)

lemma after_turn_compiler: "e_compiler (ss_engine (snd (after_turn_in ms n s))) = e_compiler (ss_engine s)"
  by (simp add: after_turn_in_def Let_def split_beta complete_turn_def sync_and_replan_def split: prod.splits reload_result.splits)

lemma after_turn_configured:
  assumes "configured v (ss_engine s)"
  shows "configured v (ss_engine (snd (after_turn_in ms n s)))"
  using assms by (simp add: configured_def after_turn_compiler after_turn_window push_turn_fields push_turn_ok)

lemma assembled_length:
  assumes "configured v e" "ic_max_chars (e_compiler e) < 10 ^ 40"
  shows "int (sum_list (map (\<lambda>m. length (extract_text_content (am_content m))) (as_messages (fst (assemble_in collate ms prompt e))))) \<le>
    int (length (or_else (extract_system_prompt ms) [])) +
    int (length (or_else (case prompt of Some p \<Rightarrow> Some p | None \<Rightarrow> extract_last_user_content ms) [])) +
    ic_max_chars (e_compiler e) + int (length context_header) + 4 * wc_max_tokens (sw_config (e_window e))"
proof -
  let ?u = "or_else (case prompt of Some p \<Rightarrow> Some p | None \<Rightarrow> extract_last_user_content ms) []"
  let ?s = "or_else (extract_system_prompt ms) []"
  let ?b = "build_messages collate ?s ?u e"
  have c: "120 \<le> ic_max_chars (e_compiler e)" "0 \<le> wc_max_tokens (sw_config (e_window e))"
    "wc_chars_per_token (sw_config (e_window e)) = 4" "window_ok (e_window e)"
    using assms(1) plugin_limits [of v] by (auto simp: configured_def)
  have "int (sum_list (map (\<lambda>m. length (extract_text_content (am_content m))) (as_messages (fst (assemble_in collate ms prompt e))))) =
      message_chars ?b"
    unfolding sum_lengths by (simp add: assemble_in_def Let_def split_beta turns_to_agent_contents message_chars_def comp_def)
  also have "\<dots> = int (length ?s) + int (length (compile collate (e_compiler e) (g_working (e_manager e)))) +
      message_chars (get_active_history (e_window e)) + int (length ?u)"
    by (simp add: build_messages_def build_context_def Let_def plain_message_def)
  also have "\<dots> \<le> int (length ?s) + (ic_max_chars (e_compiler e) + int (length context_header)) +
      wc_max_tokens (sw_config (e_window e)) * 4 + int (length ?u)"
    using compile_length [OF c(1) assms(2)] history_chars [OF c(4)] c(2,3) by (intro add_mono) simp_all
  finally show ?thesis by simp
qed

end
