(* ===== verification/ContextProps.thy ===== *)
theory ContextProps
  imports Scenarios Adapter
begin

text \<open>
  The properties of the context layer: what the window keeps of a conversation, what the
  injected text shows and bounds, what becomes of offloaded tool results, and what the
  adapter adds up to.
\<close>

section \<open>The window\<close>

text \<open>C16: The window keeps the most recent turns. After any sequence of completed turns it holds a
  suffix of all turns in their order, with consecutive indexes and within both budgets, and
  the last push evicted no more turns than the budgets require.\<close>

theorem window_keeps_recent:
  assumes "window_ok w"
  shows "window_ok (window.pushes mss w) \<and> (\<exists>k. sw_turns (window.pushes mss w) = drop k (sw_turns w @ window.entries mss w)) \<and>
    (k < snd (fst (push_turn ms w)) \<longrightarrow> over_budget (sw_config w) (drop k (sw_turns w @ [build_turn ms w])))"
  using window.pushes_fits [OF assms] window.pushes_recent [of mss w]
    enforce_budget_minimal [of k "sw_config w" "sw_turns w @ [build_turn ms w]"]
  by (simp add: push_turn_fields(5))

theorem window_keeps_recent_witness:
  "window_ok (window.pushes [[plain_message User (js ''hi'')], [plain_message User (js ''bye'')]] (new_window window_defaults))"
  using window_keeps_recent [OF new_window_ok] by blast

section \<open>The injected text\<close>

text \<open>Secrets of credentials never reach the prompt: the compiled text is the same when every
  credential loses all members of its value but the four that name the account and the
  service.\<close>

lemma secrets_stay_hidden:
  "compile collate cfg (redacted m) = compile collate cfg m"
  by (rule compile_redacted)

text \<open>The order of the facts as the text shows them: constraints first, tasks, credentials, ..., events and
  then other types; within a type the more confident first, and of equally confident ones the older.\<close>

definition type_names :: "jstring list" where
  "type_names = map js [''constraint'', ''task'', ''credential'', ''context'', ''contact'', ''preference'', ''knowledge'', ''service'', ''event'']"

definition type_rank :: "jstring \<Rightarrow> nat" where
  "type_rank t = length (takeWhile (\<lambda>n. n \<noteq> t) type_names)"

definition shown_before :: "fact \<Rightarrow> fact \<Rightarrow> bool" where
  "shown_before a b \<longleftrightarrow> type_rank (f_type a) < type_rank (f_type b) \<or>
     type_rank (f_type a) = type_rank (f_type b) \<and>
       (f_confidence b < f_confidence a \<or> f_confidence b = f_confidence a \<and> f_discovery_index a \<le> f_discovery_index b)"

lemma type_rank_priority: "type_rank s < type_rank t \<longleftrightarrow> type_priority t < type_priority s"
proof -
  have e: "t = js n \<longleftrightarrow> js n = t" for t n by auto
  have p: "type_priority t = (if t = js ''constraint'' then 100 else if t = js ''task'' then 90 else if t = js ''credential'' then 80
      else if t = js ''context'' then 70 else if t = js ''contact'' then 60 else if t = js ''preference'' then 50
      else if t = js ''knowledge'' then 40 else if t = js ''service'' then 30 else if t = js ''event'' then 20 else 10)" for t
    by (simp add: type_priority_def TYPE_PRIORITY_def)
  have r: "type_rank t = (if t = js ''constraint'' then 0 else if t = js ''task'' then 1 else if t = js ''credential'' then 2
      else if t = js ''context'' then 3 else if t = js ''contact'' then 4 else if t = js ''preference'' then 5
      else if t = js ''knowledge'' then 6 else if t = js ''service'' then 7 else if t = js ''event'' then 8 else 9)" for t
    by (auto simp: type_rank_def type_names_def)
  have "type_priority t = 100 - 10 * int (type_rank t)" for t
    unfolding p r by (simp split: if_split)
  then show ?thesis by simp
qed

lemma shown_before_order: "fact_order a b \<le> 0 \<longleftrightarrow> shown_before a b"
proof -
  have s: "fsub x y \<le> 0 \<longleftrightarrow> x \<le> y" "fsub x y = 0 \<longleftrightarrow> x = y" for x y using fsub_signs [of x y] by auto
  have eq: "type_rank (f_type a) = type_rank (f_type b) \<longleftrightarrow> type_priority (f_type a) = type_priority (f_type b)"
    using type_rank_priority [of "f_type a" "f_type b"] type_rank_priority [of "f_type b" "f_type a"] by linarith
  show ?thesis
    by (auto simp: shown_before_def fact_order_def Let_def s eq type_rank_priority)
qed

definition active_facts_of :: "manifest \<Rightarrow> fact list" where
  "active_facts_of m = filter (\<lambda>f. f_state f = Active) (obj_values (m_facts m))"

lemma slice_zero: "0 \<le> n \<Longrightarrow> slice xs 0 n = take (nat n) xs"
  by (simp add: slice_def slice_ix_def min_def)

lemma selected_first:
  assumes "0 \<le> ic_max_facts cfg" "f \<in> set (active_facts_of m)" "f \<notin> set (select_facts cfg m)"
  shows "int (length (select_facts cfg m)) = ic_max_facts cfg \<and> (\<forall>s \<in> set (select_facts cfg m). shown_before s f)"
proof -
  let ?all = "sort_by fact_order (active_facts_of m)" and ?n = "nat (ic_max_facts cfg)"
  have sel: "select_facts cfg m = take ?n ?all"
    using assms(1) by (simp add: select_facts_def slice_zero active_facts_of_def)
  have "f \<in> set ?all" using assms(2) by simp
  then have f: "f \<in> set (drop ?n ?all)" using assms(3) sel by (metis Un_iff append_take_drop_id set_append)
  then have "?n \<le> length ?all" by (cases "?n \<le> length ?all") simp_all
  moreover have "sorted_wrt (\<lambda>a b. fact_order a b \<le> 0) (take ?n ?all @ drop ?n ?all)"
    using sorted_sort_by [OF fact_order_cmp, of "active_facts_of m"] by simp
  ultimately show ?thesis using f assms(1) unfolding sel sorted_wrt_append by (simp add: shown_before_order)
qed

lemma selected_infix:
  assumes "select_facts cfg m \<noteq> []"
  shows "infix_of (join nl (map fact_line (select_facts cfg m))) (join (nl @ nl) (sections collate cfg m))"
proof (rule infix_join)
  show "infix_of (join nl (map fact_line (select_facts cfg m))) (render_facts_section (select_facts cfg m))"
    unfolding render_facts_section_def by (intro infix_append infix_refl)
  show "render_facts_section (select_facts cfg m) \<in> set (sections collate cfg m)"
    using assms by (simp add: sections_def nonempty_section_def)
qed

text \<open>C18: Contradictions are shown, and facts in a fixed order. For a budget of at least 120 (and of less than
  forty digits) and a limit of facts that is not negative: the text is at most the budget and the header
  long; the selected facts are active, sorted by type (constraints, tasks, credentials, contexts,
  contacts, preferences, knowledge, services, events, others), then by confidence, the highest first, then
  by age, the oldest first; an active fact is left out only when the limit is reached, and it comes after
  every selected one. When the sections are within the budget, the lines of the selected facts stand in
  the text in this order, and every conflicted fact of the manifest has its line.\<close>

theorem conflicts_are_shown:
  assumes "120 \<le> ic_max_chars cfg" "ic_max_chars cfg < 10 ^ 40" "0 \<le> ic_max_facts cfg" "sel = select_facts cfg m"
  shows "int (length (compile collate cfg m)) \<le> ic_max_chars cfg + int (length context_header) \<and>
    set sel \<subseteq> set (active_facts_of m) \<and> sorted_wrt shown_before sel \<and>
    (\<forall>f \<in> set (active_facts_of m) - set sel. int (length sel) = ic_max_facts cfg \<and> (\<forall>s \<in> set sel. shown_before s f)) \<and>
    (int (length (join (nl @ nl) (sections collate cfg m))) \<le> ic_max_chars cfg \<longrightarrow>
      (sel \<noteq> [] \<longrightarrow> infix_of (join nl (map fact_line sel)) (compile collate cfg m)) \<and>
      (\<forall>f \<in> set (obj_values (m_facts m)). f_state f = Conflicted \<longrightarrow> infix_of (conflicted_line f) (compile collate cfg m)))"
proof -
  have whole: "infix_of x (compile collate cfg m)"
    if "int (length (join (nl @ nl) (sections collate cfg m))) \<le> ic_max_chars cfg" "infix_of x (join (nl @ nl) (sections collate cfg m))" for x
    using that by (simp add: compile_def Let_def infix_append)
  have "set sel \<subseteq> set (active_facts_of m)"
    using set_take_subset assms(3) unfolding assms(4) select_facts_def slice_zero [OF assms(3)] active_facts_of_def
    by (metis set_sort_by)
  moreover have "sorted_wrt shown_before sel"
    using select_facts_sorted [of cfg m] by (simp add: assms(4) shown_before_order)
  moreover have "f \<in> set (select_conflicted_facts m)" if "f \<in> set (obj_values (m_facts m))" "f_state f = Conflicted" for f
    using that unfolding select_conflicted_facts_def by simp
  ultimately show ?thesis
    using compile_length [OF assms(1,2), of collate m] selected_first [OF assms(3)] whole selected_infix conflicted_infix
    unfolding assms(4) by blast
qed

definition shown_manifest :: manifest where
  "shown_manifest = (city_manifest [city_fact ''F1'' ''Paris'' 0 Active 1, (city_fact ''F2'' ''Rome'' 0 Active 2)\<lparr>f_type := js ''task''\<rparr>,
     city_fact ''F3'' ''Oslo'' 0 Conflicted 3])\<lparr>m_summaries := []\<rparr>"

lemma shown_selected: "select_facts injection_defaults shown_manifest =
    [(city_fact ''F2'' ''Rome'' 0 Active 2)\<lparr>f_type := js ''task''\<rparr>, city_fact ''F1'' ''Paris'' 0 Active 1]"
  by (simp add: select_facts_def slice_zero injection_defaults_def shown_manifest_def city_manifest_def fact_order_def city_fact_def
      type_priority_def TYPE_PRIORITY_def)

lemma nothing_percent: "percent (dec 0 2) = js ''0%''"
  by (simp add: percent_def dec_def rnd_quot_def fmul_def to_fixed_def ulp0_def Let_def nat_digits.simps js_def)

lemma shown_within: "int (length (join (nl @ nl) (sections (\<lambda>a b. 0) injection_defaults shown_manifest))) \<le> 8000"
proof -
  have s: "sections (\<lambda>a b. 0) injection_defaults shown_manifest = [render_facts_section [(city_fact ''F2'' ''Rome'' 0 Active 2)\<lparr>f_type := js ''task''\<rparr>, city_fact ''F1'' ''Paris'' 0 Active 1],
     render_conflicted_section [city_fact ''F3'' ''Oslo'' 0 Conflicted 3], drill_down]"
    unfolding sections_def shown_selected
    by (simp add: extract_objective_def shown_manifest_def city_manifest_def city_fact_def injection_defaults_def nonempty_section_def
        select_conflicted_facts_def select_summaries_def extract_recent_ops_def select_refs_def
        slice_from_def task_title_def jget_def city_value_def coalesce_def nullish_def)
  show ?thesis unfolding s
    by (simp add: render_facts_section_def render_conflicted_section_def fact_line_def conflicted_line_def nothing_percent
        city_fact_def nl_def drill_down_def render_fact_value_def city_value_def stringify_str_def quote_def quote_unit_def js_def)
qed

theorem conflicts_are_shown_witness:
  "sorted_wrt shown_before [(city_fact ''F2'' ''Rome'' 0 Active 2)\<lparr>f_type := js ''task''\<rparr>, city_fact ''F1'' ''Paris'' 0 Active 1] \<and>
   infix_of (conflicted_line (city_fact ''F3'' ''Oslo'' 0 Conflicted 3)) (compile (\<lambda>a b. 0) injection_defaults shown_manifest)"
proof -
  have cfg: "120 \<le> ic_max_chars injection_defaults" "ic_max_chars injection_defaults < 10 ^ 40" "0 \<le> ic_max_facts injection_defaults"
    "ic_max_chars injection_defaults = 8000"
    by (simp_all add: injection_defaults_def)
  have f: "city_fact ''F3'' ''Oslo'' 0 Conflicted 3 \<in> set (obj_values (m_facts shown_manifest))"
    "f_state (city_fact ''F3'' ''Oslo'' 0 Conflicted 3) = Conflicted"
    by (simp_all add: shown_manifest_def city_manifest_def) (simp add: city_fact_def)
  show ?thesis
    using conflicts_are_shown [OF cfg(1-3) shown_selected [symmetric], of "\<lambda>a b. 0"] f shown_within unfolding cfg(4) by blast
qed

section \<open>Offloaded tool results\<close>

text \<open>An engine with a small threshold, and a turn with one large tool result.\<close>

definition tool_world :: world where
  "tool_world = demo_world\<lparr>w_uuid := (\<lambda>n. [1000 + n])\<rparr>"

definition tool_engine :: engine where
  "tool_engine = new_engine (paris\<lparr>g_env := tool_world\<rparr>)
     \<lparr>ec_sliding_window = Some (no_window_partial\<lparr>wp_offload_threshold_chars := Some 2\<rparr>), ec_injection = None, ec_auto_commit = False\<rparr>"

definition tool_turn :: "turn_message list" where
  "tool_turn = [plain_message User (js ''read it''), plain_message Tool (js ''abc'')]"

definition look_at :: "ref_id \<Rightarrow> recall_request" where
  "look_at i = \<lparr>rq_ref_id = i, rq_mode = M_summary, rq_start_line = None, rq_end_line = None, rq_query = None\<rparr>"

lemma tool_offloads: "fst (fst (push_turn tool_turn (e_window tool_engine))) = [offload_of 0 1 (plain_message Tool (js ''abc''))]"
  by (simp add: push_turn_fields detect_offloads_def indexed_def is_large_def tool_turn_def tool_engine_def new_engine_def
      new_window_def window_config_of_def no_window_partial_def plain_message_def upt_rec)

lemma tool_world_facts: "io_free tool_world" "w_uuid tool_world = (\<lambda>n. [1000 + n])" "w_draw tool_world = 0"
  by (simp_all add: tool_world_def demo_world_def io_free_def)

lemma tool_refs: "get_reference i (e_manager tool_engine) = None" "g_env (e_manager tool_engine) = tool_world"
  by (simp_all add: tool_engine_def new_engine_def get_reference_def paris_def city_tables city_manifest_def)

text \<open>Completing a turn keeps what was stored in it, also when it commits: a commit writes the manifest
  and its temporary file only.\<close>

lemma commit_leaves:
  assumes "commit p m n w = (r, w')"
  shows "io_free w \<Longrightarrow> io_free w'"
    and "q \<noteq> tmp_path (p_manifest_path p) \<Longrightarrow> q \<noteq> p_manifest_path p \<Longrightarrow> w_files w' q = w_files w q"
proof -
  have raw: "(io_free w1 \<longrightarrow> io_free w2) \<and>
      (q \<noteq> tmp_path (p_manifest_path p) \<longrightarrow> q \<noteq> p_manifest_path p \<longrightarrow> w_files w2 q = w_files w1 q)"
    if "commit_raw p final w1 = (e, w2)" for final w1 e w2
    using commit_raw_frame(9,10) [OF that] commit_raw_files [OF that] by (simp add: io_free_def)
  have finish: "(io_free w1 \<longrightarrow> io_free w2) \<and>
      (q \<noteq> tmp_path (p_manifest_path p) \<longrightarrow> q \<noteq> p_manifest_path p \<longrightarrow> w_files w2 q = w_files w1 q)"
    if "commit_finish p m d w1 = (x, w2)" for d w1 x w2
  proof -
    obtain final u where pr: "prepare_commit p m d w1 = (final, u)" by fastforce
    obtain e v where "commit_raw p final u = (e, v)" by fastforce
    with pr that have "commit_raw p final u = (e, w2)" by (auto simp: commit_finish_def split: option.splits)
    from raw [OF this] prepare_commit_fields(10,12) [OF pr] show ?thesis by simp
  qed
  obtain c u where ck: "commit_check p n w = (c, u)" by fastforce
  then have u: "u = w\<lparr>w_io := Suc (w_io w)\<rparr>" by (rule commit_check_frame)
  have "(io_free u \<longrightarrow> io_free w') \<and>
      (q \<noteq> tmp_path (p_manifest_path p) \<longrightarrow> q \<noteq> p_manifest_path p \<longrightarrow> w_files w' q = w_files u q)"
    using assms ck finish by (cases c) (auto simp: commit_def)
  then show "io_free w \<Longrightarrow> io_free w'"
    "q \<noteq> tmp_path (p_manifest_path p) \<Longrightarrow> q \<noteq> p_manifest_path p \<Longrightarrow> w_files w' q = w_files w q"
    by (simp_all add: u)
qed

lemma artifact_not_tmp: "artifact_path g i \<noteq> tmp_path p"
proof
  assume "artifact_path g i = tmp_path p"
  then have "last (artifact_path g i) = last (tmp_path p)" by simp
  then show False by (simp add: artifact_path_def path_join_def tmp_path_def) (simp add: js_def)
qed

lemma commit_keeps_placed:
  assumes "placed g i t" "artifact_path g i \<noteq> p_manifest_path (g_persistence g)"
  shows "placed (snd (manager_commit g)) i t"
proof -
  obtain r w where c: "commit (g_persistence g) (g_working g) (g_expected g) (g_env g) = (r, w)" by fastforce
  have f: "w_files w (artifact_path g i) = w_files (g_env g) (artifact_path g i)" "w_sha w = w_sha (g_env g)"
    using commit_leaves(2) [OF c artifact_not_tmp assms(2)] commit_env [OF c] by simp_all
  have p: "artifact_path (snd (manager_commit g)) i = artifact_path g i"
    by (cases r) (simp_all add: manager_commit_def c artifact_path_def)
  have e: "g_env (snd (manager_commit g)) = (if g_dirty g then w else g_env g)"
    by (cases r) (simp_all add: manager_commit_def c)
  from assms(1) f show ?thesis
    by (auto simp: placed_def p e commit_keeps_refs)
qed

lemma commit_keeps_io: "io_free (g_env g) \<Longrightarrow> io_free (g_env (snd (manager_commit g)))"
proof -
  assume io: "io_free (g_env g)"
  obtain r w where c: "commit (g_persistence g) (g_working g) (g_expected g) (g_env g) = (r, w)" by fastforce
  from commit_leaves(1) [OF c io] io show ?thesis by (cases r) (simp_all add: manager_commit_def c)
qed

lemma store_offloads_io:
  "io_free (g_env g) \<Longrightarrow> fresh_refs g (length cs) \<Longrightarrow> io_free (g_env (snd (store_offloads cs g))) \<and>
    g_persistence (snd (store_offloads cs g)) = g_persistence g"
proof (induction cs arbitrary: g)
  case (Cons c cs)
  obtain g' r where s: "store_offloads (c # cs) g = (next_ref_id g # fst (store_offloads cs g'), snd (store_offloads cs g'))"
    "added (well_formed (oc_original_content c)) r g g'" "io_free (g_env g')" "fresh_refs g' (length cs)"
    by (rule store_offloads_Cons [OF Cons.prems(1) Cons.prems(2) [unfolded length_Cons]])
  from Cons.IH [OF s(3,4)] s(2) show ?case by (simp only: s(1) snd_conv added_def)
qed simp

lemma offloaded_messages: "map oc_original_content (detect_offloads cfg ms turn) = map tm_content (filter (is_large cfg) ms)"
proof -
  have "map snd (filter (\<lambda>(i, m). is_large cfg m) (indexed ms)) = filter (is_large cfg) ms"
    using filter_map [of "is_large cfg" snd "indexed ms"] by (simp add: indexed_def case_prod_unfold comp_def)
  moreover have "map oc_original_content (detect_offloads cfg ms turn) =
      map tm_content (map snd (filter (\<lambda>(i, m). is_large cfg m) (indexed ms)))"
    by (simp add: detect_offloads_def offload_of_def case_prod_unfold comp_def)
  ultimately show ?thesis by simp
qed

text \<open>What the modes show of a stored text.\<close>

lemma recall_placed:
  assumes "io_free (g_env g)" "placed g i t" "rq_ref_id rq = i" "validate_request rq = None"
  shows "\<exists>r. fst (recall cfg rq g) = Recall_ok (exec_mode cfg r t rq (rq_mode rq))"
proof -
  obtain r where r: "get_reference i g = Some r" "r_content_hash r = w_sha (g_env g) t" "w_files (g_env g) (r_path r) = Some (Plain_text t)"
    using placed_stored [OF assms(2)] by (auto simp: stored_def)
  then have "read_file (r_path r) (g_env g) = (Inr (Plain_text t), (g_env g)\<lparr>w_io := Suc (w_io (g_env g))\<rparr>)"
    using assms(1) by (simp add: read_file_def try_io_free)
  with r assms(3,4) have "fst (recall cfg rq g) = Recall_ok (exec_mode cfg (r\<lparr>r_id := i\<rparr>) t rq (rq_mode rq))"
    by (simp add: recall_def Let_def)
  then show ?thesis by blast
qed

lemma full_shows_all:
  assumes "int (length (split_nl t)) \<le> rc_full_mode_max_lines cfg" "int (length t) \<le> rc_full_mode_max_bytes cfg"
  shows "join nl (map ln_text (rr_lines (exec_mode cfg r t rq M_full))) = t"
  using assms by (simp add: exec_full_def recall_of_def join_split_nl)

lemma range_shows_lines:
  assumes "validate_request rq = None" "rq_mode rq = M_range" "rq_start_line rq = Some a" "rq_end_line rq = Some b"
  shows "map ln_text (rr_lines (exec_mode cfg r t rq M_range)) = take (nat (b - a + 1)) (drop (nat (a - 1)) (split_nl t))"
    and "shown (rr_lines (exec_mode cfg r t rq M_range)) = [a..min b (int (length (split_nl t)))]"
proof -
  have ab: "1 \<le> a" "a \<le> b" using assms by (auto simp: validate_request_def split: if_splits)
  let ?all = "split_nl t"
  have "slice_ix (length ?all) (min (int (length ?all)) b) = min (length ?all) (nat b)"
    "slice_ix (length ?all) (a - 1) = min (length ?all) (nat (a - 1))"
    using ab by (simp_all add: slice_ix_nonneg)
  then have "slice ?all (a - 1) (min (int (length ?all)) b) = take (nat b - nat (a - 1)) (drop (nat (a - 1)) ?all)"
    using ab by (auto simp: slice_def min_def)
  moreover have "nat b - nat (a - 1) = nat (b - a + 1)" using ab by simp
  ultimately show "map ln_text (rr_lines (exec_mode cfg r t rq M_range)) = take (nat (b - a + 1)) (drop (nat (a - 1)) ?all)"
    using ab assms(3,4) by (simp add: exec_range_def recall_of_def Let_def)
  show "shown (rr_lines (exec_mode cfg r t rq M_range)) = [a..min b (int (length ?all))]"
    using range_shown [OF ab assms(3,4)] by simp
qed

text \<open>C14: An offloaded tool result can be read back from the manager that the turn leaves, also when the
  turn was committed. When no file-system call fails, the identifiers that will be drawn are fresh and the
  manifest file is not the file of an artifact, a turn returns one identifier for each large tool result
  of it, in order, and a valid recall of that identifier succeeds for the text of the result (with lone
  surrogates replaced): full mode shows the whole text, when its lines and characters are within the caps
  of that mode; range mode shows exactly the asked lines under their numbers; and any mode shows only
  lines of the text under their own numbers, in order, and the number of all lines.\<close>

theorem offloaded_result_recallable:
  assumes "io_free (g_env (e_manager e))" "large = filter (is_large (sw_config (e_window e))) ms"
    and "fresh_refs (e_manager e) (length large)"
    and "\<forall>i. artifact_path (e_manager e) i \<noteq> p_manifest_path (g_persistence (e_manager e))"
    and "complete_turn ms b e = (r, e')" "ids = tr_offloaded_ref_ids r"
    and "k < length large" "rq_ref_id rq = ids ! k" "validate_request rq = None" "t = well_formed (tm_content (large ! k))"
  shows "length ids = length large \<and>
    (\<exists>x. fst (recall cfg rq (e_manager e')) = Recall_ok x \<and>
       rr_total_lines x = int (length (split_nl t)) \<and> faithful (split_nl t) (rr_lines x) \<and>
       (rq_mode rq = M_full \<and> int (length (split_nl t)) \<le> rc_full_mode_max_lines cfg \<and> int (length t) \<le> rc_full_mode_max_bytes cfg \<longrightarrow>
          join nl (map ln_text (rr_lines x)) = t) \<and>
       (\<forall>a z. rq_mode rq = M_range \<and> rq_start_line rq = Some a \<and> rq_end_line rq = Some z \<longrightarrow>
          map ln_text (rr_lines x) = take (nat (z - a + 1)) (drop (nat (a - 1)) (split_nl t)) \<and>
          shown (rr_lines x) = [a..min z (int (length (split_nl t)))]))"
proof -
  define cs where "cs = fst (fst (push_turn ms (e_window e)))"
  let ?g = "snd (store_offloads cs (e_manager e))"
  have cs: "map oc_original_content cs = map tm_content large"
    by (simp add: cs_def push_turn_fields offloaded_messages assms(2))
  then have len: "length cs = length large" using map_eq_imp_length_eq by blast
  have content: "oc_original_content (cs ! k) = tm_content (large ! k)"
    using cs assms(7) len by (metis nth_map)
  have ids: "ids = fst (store_offloads cs (e_manager e))"
    using complete_turn_result(1) [of ms b e] assms(5,6) by (simp add: cs_def)
  note fresh = assms(3) [folded len]
  note p = store_offloads_placed [OF assms(1) fresh] and io = store_offloads_io [OF assms(1) fresh]
  have "k < length cs" using assms(7) len by simp
  with p have "placed ?g (fst (store_offloads cs (e_manager e)) ! k) (well_formed (oc_original_content (cs ! k)))" by blast
  then have "placed ?g (ids ! k) t" by (simp only: ids content assms(10))
  moreover have "artifact_path ?g (ids ! k) \<noteq> p_manifest_path (g_persistence ?g)"
    using assms(4) io by (simp add: artifact_path_def)
  moreover have "e_manager e' = ?g \<or> e_manager e' = snd (manager_commit ?g)"
    using complete_turn_manager [of ms b e] assms(5) by (simp add: cs_def Let_def split: if_splits)
  ultimately have "placed (e_manager e') (ids ! k) t" "io_free (g_env (e_manager e'))"
    using commit_keeps_placed [of ?g "ids ! k" t] commit_keeps_io [of ?g] io by auto
  from recall_placed [OF this(2,1) assms(8,9), of cfg] obtain ref where
    x: "fst (recall cfg rq (e_manager e')) = Recall_ok (exec_mode cfg ref t rq (rq_mode rq))" ..
  have "length ids = length large" using p len by (simp add: ids)
  then show ?thesis
    using x mode_total [of cfg ref t rq "rq_mode rq"] faithful_mode [of t cfg ref rq "rq_mode rq"]
      full_shows_all [of t cfg ref rq] range_shows_lines [OF assms(9), of _ _ cfg ref t]
    by (intro conjI exI [of _ "exec_mode cfg ref t rq (rq_mode rq)"]) auto
qed

text \<open>The turn of the example is committed at its end.\<close>

definition look_fully :: "ref_id \<Rightarrow> recall_request" where
  "look_fully i = \<lparr>rq_ref_id = i, rq_mode = M_full, rq_start_line = None, rq_end_line = None, rq_query = None\<rparr>"

theorem offloaded_result_recallable_witness:
  "\<exists>x. fst (recall recall_defaults (look_fully (tr_offloaded_ref_ids (fst (complete_turn tool_turn True (tool_engine\<lparr>e_auto_commit := True\<rparr>))) ! 0))
     (e_manager (snd (complete_turn tool_turn True (tool_engine\<lparr>e_auto_commit := True\<rparr>))))) = Recall_ok x \<and>
     join nl (map ln_text (rr_lines x)) = js ''abc''"
proof -
  let ?e = "tool_engine\<lparr>e_auto_commit := True\<rparr>"
  let ?i = "tr_offloaded_ref_ids (fst (complete_turn tool_turn True ?e)) ! 0"
  have io: "io_free (g_env (e_manager ?e))" by (simp add: tool_refs tool_world_facts)
  have large: "[plain_message Tool (js ''abc'')] = filter (is_large (sw_config (e_window ?e))) tool_turn"
    by (simp add: is_large_def tool_turn_def tool_engine_def new_engine_def new_window_def window_config_of_def
        no_window_partial_def plain_message_def)
  have fresh: "fresh_refs (e_manager ?e) (length [plain_message Tool (js ''abc'')])" by (simp add: fresh_refs_def tool_refs)
  have path: "\<forall>i. artifact_path (e_manager ?e) i \<noteq> p_manifest_path (g_persistence (e_manager ?e))"
    by (simp add: artifact_path_def path_join_def tool_engine_def new_engine_def paris_def city_manager_def new_manager_def
        demo_persistence_def) (simp add: js_def)
  have rq: "rq_ref_id (look_fully ?i) = ?i" "validate_request (look_fully ?i) = None" "rq_mode (look_fully ?i) = M_full"
    by (simp_all add: look_fully_def validate_request_def)
  have t: "js ''abc'' = well_formed (tm_content ([plain_message Tool (js ''abc'')] ! 0))"
    "int (length (split_nl (js ''abc''))) \<le> rc_full_mode_max_lines recall_defaults"
    "int (length (js ''abc'')) \<le> rc_full_mode_max_bytes recall_defaults"
    by (simp_all add: plain_message_def recall_defaults_def js_def)
  have k: "0 < length [plain_message Tool (js ''abc'')]" by simp
  from offloaded_result_recallable [OF io large fresh path surjective_pairing refl k rq(1,2) t(1), of recall_defaults] rq(3) t(2,3)
  show ?thesis by blast
qed

text \<open>C13: The pointer that replaces an offloaded result leads nowhere. The message in the history
  names an identifier of the window, but no reference of the manifest ever has such an
  identifier, so following the instruction in the message fails with "not found".\<close>

theorem offload_pointer_dangles:
  assumes "refs_plain (e_manager e)" "i < length ms" "is_large (sw_config (e_window e)) (ms ! i)"
    and "validate_request rq = None" "rq_ref_id rq = offload_id (sw_next_index (e_window e)) i"
  shows "infix_of (js ''REF_ID: '' @ rq_ref_id rq) (tm_content (tn_messages (build_turn ms (e_window e)) ! i)) \<and>
    (\<exists>d. fst (recall cfg rq (e_manager (snd (complete_turn ms b e)))) = Recall_error (rq_ref_id rq) Ref_not_found d)"
proof -
  have "tm_content (tn_messages (build_turn ms (e_window e)) ! i) = build_offload_replacement (rq_ref_id rq) (tm_content (ms ! i))"
    using assms(2,3) by (simp add: build_turn_def Let_def apply_offloads_nth offloaded_def offload_of_def assms(5))
  moreover have "infix_of (js ''REF_ID: '' @ r) (build_offload_replacement r c)" for r c
    unfolding build_offload_replacement_def infix_of_def by (metis append.assoc)
  ultimately show ?thesis
    using plain_pointer_unknown(2) [OF complete_turn_plain [OF assms(1)] assms(4,5)] by (simp add: assms(5))
qed

theorem offload_pointer_dangles_witness:
  "\<exists>d. fst (recall recall_defaults (look_at (js ''REF_0000_01'')) (e_manager (snd (complete_turn tool_turn False tool_engine)))) =
     Recall_error (js ''REF_0000_01'') Ref_not_found d"
proof -
  have i: "offload_id (sw_next_index (e_window tool_engine)) 1 = js ''REF_0000_01''"
    by (simp add: offload_id_def tool_engine_def new_engine_def new_window_def pad_start_def nat_digits.simps js_def numeral_eq_Suc)
  have "refs_plain (e_manager tool_engine)" by (simp add: refs_plain_def tool_refs tool_world_facts)
  from offload_pointer_dangles [OF this, of 1 tool_turn "look_at (js ''REF_0000_01'')" recall_defaults False] show ?thesis
    unfolding i by (simp add: tool_turn_def is_large_def plain_message_def tool_engine_def new_engine_def new_window_def
        window_config_of_def no_window_partial_def validate_request_def look_at_def)
qed

section \<open>The adapter\<close>

text \<open>C12: The prompt is bounded. Whatever the plugin configuration is, an engine that runs with it
  assembles a prompt of at most the system prompt, the current message, the context budget
  with its header and four characters per token of the window budget; the limits are at
  least those of the schema; and completing turns keeps all this.\<close>

theorem prompt_is_bounded:
  assumes "configured v (ss_engine s)" "ic_max_chars (e_compiler (ss_engine s)) < 10 ^ 40"
    and "s' = snd (after_turn_in ms n s)" "r = fst (assemble_in collate ps (Some prompt) (ss_engine s'))"
  shows "configured v (ss_engine s') \<and> 1000 \<le> ic_max_chars (e_compiler (ss_engine s')) \<and>
    100 \<le> wc_max_tokens (sw_config (e_window (ss_engine s'))) \<and> 1 \<le> wc_max_turns (sw_config (e_window (ss_engine s'))) \<and>
    int (sum_list (map (\<lambda>m. length (extract_text_content (am_content m))) (as_messages r))) \<le>
      int (length (or_else (extract_system_prompt ps) [])) + int (length prompt) +
      ic_max_chars (e_compiler (ss_engine s')) + int (length context_header) + 4 * wc_max_tokens (sw_config (e_window (ss_engine s')))"
proof -
  have c: "configured v (ss_engine s')" unfolding assms(3) by (rule after_turn_configured [OF assms(1)])
  have l: "ic_max_chars (e_compiler (ss_engine s')) < 10 ^ 40" using assms(2) by (simp add: assms(3) after_turn_compiler)
  show ?thesis
    using assembled_length [OF c l, of collate ps "Some prompt"] c plugin_limits [of v] unfolding assms(4)
    by (simp add: configured_def)
qed

theorem prompt_is_bounded_witness:
  "configured Null (ss_engine (snd (after_turn_in [] 0 \<lparr>ss_engine = new_engine paris (plugin_engine_config Null),
     ss_pending = [plain_message User (js ''hi'')]\<rparr>)))"
proof -
  have "ic_max_chars (e_compiler (new_engine paris (plugin_engine_config Null))) < 10 ^ 40"
    using new_engine_configured [of Null paris]
    by (simp add: configured_def plugin_partials members_of_def injection_config_of_def no_injection_partial_def injection_defaults_def)
  then show ?thesis
    using prompt_is_bounded [of Null "\<lparr>ss_engine = new_engine paris (plugin_engine_config Null), ss_pending = [plain_message User (js ''hi'')]\<rparr>"]
    by (simp add: new_engine_configured)
qed

text \<open>What a sequence of calls adds to the conversation of a session whose buffer holds \<open>p\<close>: the turns it
  completes, and what is buffered at its end. Only messages of the three roles count, a turn consists of the
  buffered messages and the new ones, and a turn without messages is none.\<close>

fun conversation :: "jstring \<Rightarrow> adapter_call list \<Rightarrow> turn_message list \<Rightarrow> turn_message list list \<times> turn_message list" where
  "conversation i [] p = ([], p)"
| "conversation i (Call_ingest j m # cs) p =
     conversation i cs (if j = i then p @ List.map_filter agent_to_turn [m] else p)"
| "conversation i (Call_ingest_batch j ms # cs) p =
     conversation i cs (if j = i then p @ List.map_filter agent_to_turn ms else p)"
| "conversation i (Call_after_turn j ms n # cs) p =
     (if j = i then (let (turns, rest) = conversation i cs []; all = p @ turn_of ms n
                     in (if all = [] then turns else all # turns, rest))
      else conversation i cs p)"
| "conversation i (c # cs) p = conversation i cs p"

text \<open>One call on a session that exists: its buffer, and the turn that reaches its window, if any.\<close>

lemma call_conversation:
  assumes s: "map_of (ad_sessions ad) i = Some s" and c: "c \<noteq> Call_dispose"
  shows "\<exists>s'. map_of (ad_sessions (adapter_exec collate c ad)) i = Some s' \<and>
    (call_session c \<noteq> Some i \<longrightarrow> s' = s) \<and>
    (\<forall>cs. let (turns, rest) = conversation i (c # cs) (ss_pending s); (turns', rest') = conversation i cs (ss_pending s')
      in rest = rest' \<and> window.pushes turns (e_window (ss_engine s)) = window.pushes turns' (e_window (ss_engine s')))"
proof (cases "call_session c = Some i")
  case False
  then have "conversation i (c # cs) p = conversation i cs p" for cs p by (cases c) auto
  with False other_sessions_stay [OF False c, of collate ad] s show ?thesis by (simp add: split_beta)
next
  case True
  let ?s = "s\<lparr>ss_engine := enter (ad_world ad) (ss_engine s)\<rparr>"
  note at = on_session_frame(2) [OF s]
  show ?thesis
  proof (cases c)
    case (Call_bootstrap j path)
    with True s show ?thesis by (simp add: bootstrap_def split_beta)
  next
    case (Call_ingest j m)
    with True show ?thesis
      by (cases "agent_to_turn m") (simp_all add: at ingest_def split_beta buffer_def map_filter_simps)
  next
    case (Call_ingest_batch j ms)
    with True show ?thesis by (simp add: at ingest_batch_def split_beta buffer_all_pending)
  next
    case (Call_assemble j ms prompt)
    with True show ?thesis by (simp add: at assemble_def split_beta on_engine_session assemble_in_def Let_def)
  next
    case (Call_after_turn j ms n)
    with True after_turn_window [of ms n ?s] show ?thesis by (simp add: at after_turn_def split_beta Let_def)
  next
    case (Call_session_fact j input)
    with True show ?thesis
      by (simp add: at adapter_add_fact_def on_engine_session engine_add_fact_def mark_if_def split_beta)
  next
    case (Call_session_reference j input)
    with True show ?thesis
      by (simp add: at adapter_add_reference_def on_engine_session engine_add_reference_def mark_if_def split_beta)
  next
    case (Call_session_summary j input)
    with True show ?thesis
      by (simp add: at adapter_add_summary_def on_engine_session engine_add_summary_def mark_if_def split_beta)
  next
    case Call_dispose
    with c show ?thesis by simp
  qed
qed

text \<open>C15: The adapter keeps every conversation, whatever is called on other sessions in between. After any
  sequence of calls on any sessions, as long as none disposes the adapter, a session that existed before
  holds in its buffer exactly what was ingested for it since its last completed turn, and its window got
  exactly the turns that were completed for it, each the buffered messages followed by the new ones, in
  order and once; and a session on which nothing was called is unchanged in memory: its engine with the
  window and the working manifest, and its buffer. (What sessions share in files is another matter.)\<close>

theorem conversation_is_kept:
  assumes "map_of (ad_sessions ad) i = Some s" "Call_dispose \<notin> set cs" "conversation i cs (ss_pending s) = (turns, rest)"
  shows "\<exists>s'. map_of (ad_sessions (fold (adapter_exec collate) cs ad)) i = Some s' \<and> ss_pending s' = rest \<and>
    e_window (ss_engine s') = window.pushes turns (e_window (ss_engine s)) \<and>
    ((\<forall>c \<in> set cs. call_session c \<noteq> Some i) \<longrightarrow> s' = s)"
  using assms
proof (induction cs arbitrary: ad s turns)
  case (Cons c cs)
  have c: "c \<noteq> Call_dispose" using Cons.prems(2) by auto
  obtain s1 where s1: "map_of (ad_sessions (adapter_exec collate c ad)) i = Some s1" "call_session c \<noteq> Some i \<longrightarrow> s1 = s"
    and step: "\<forall>cs. let (turns, rest) = conversation i (c # cs) (ss_pending s); (turns', rest') = conversation i cs (ss_pending s1)
      in rest = rest' \<and> window.pushes turns (e_window (ss_engine s)) = window.pushes turns' (e_window (ss_engine s1))"
    using call_conversation [OF Cons.prems(1) c, of collate] by blast
  obtain turns' rest' where t: "conversation i cs (ss_pending s1) = (turns', rest')" by fastforce
  with step Cons.prems(3) have same: "rest' = rest" "window.pushes turns (e_window (ss_engine s)) = window.pushes turns' (e_window (ss_engine s1))"
    by (auto simp: Let_def dest!: spec [of _ cs])
  have "Call_dispose \<notin> set cs" using Cons.prems(2) by simp
  from Cons.IH [OF s1(1) this t [unfolded same(1)]] same(2) s1(2) show ?case by auto
qed simp

text \<open>Two sessions whose calls alternate.\<close>

definition two_sessions :: adapter where
  "two_sessions = (new_adapter adapter_defaults demo_world)
     \<lparr>ad_sessions := [(js ''s'', \<lparr>ss_engine = tool_engine, ss_pending = []\<rparr>), (js ''t'', \<lparr>ss_engine = tool_engine, ss_pending = []\<rparr>)]\<rparr>"

definition user_says :: "string \<Rightarrow> agent_message" where
  "user_says t = \<lparr>am_role = js ''user'', am_content = Plain_content (js t), am_timestamp = None\<rparr>"

definition mixed_calls :: "adapter_call list" where
  "mixed_calls = [Call_ingest (js ''s'') (user_says ''one''), Call_ingest_batch (js ''t'') [user_says ''other''],
     Call_after_turn (js ''s'') [user_says ''two''] 0, Call_after_turn (js ''t'') [] 0, Call_ingest (js ''s'') (user_says ''three'')]"

lemma user_says_turn: "agent_to_turn (user_says t) = Some (plain_message User (js t))"
  by (simp add: agent_to_turn_def user_says_def of_str_def)

lemma mixed_conversation: "conversation (js ''s'') mixed_calls [] =
    ([[plain_message User (js ''one''), plain_message User (js ''two'')]], [plain_message User (js ''three'')])"
  by (simp add: mixed_calls_def turn_of_def slice_from_def slice_ix_def map_filter_simps user_says_turn)

theorem conversation_is_kept_witness:
  "\<exists>s'. map_of (ad_sessions (fold (adapter_exec (\<lambda>a b. 0)) mixed_calls two_sessions)) (js ''s'') = Some s' \<and>
     ss_pending s' = [plain_message User (js ''three'')] \<and>
     e_window (ss_engine s') = window.pushes [[plain_message User (js ''one''), plain_message User (js ''two'')]] (e_window tool_engine)"
proof -
  have "map_of (ad_sessions two_sessions) (js ''s'') = Some \<lparr>ss_engine = tool_engine, ss_pending = []\<rparr>"
    by (simp add: two_sessions_def)
  moreover have "Call_dispose \<notin> set mixed_calls" by (simp add: mixed_calls_def)
  moreover have "conversation (js ''s'') mixed_calls (ss_pending \<lparr>ss_engine = tool_engine, ss_pending = []\<rparr>) =
      ([[plain_message User (js ''one''), plain_message User (js ''two'')]], [plain_message User (js ''three'')])"
    by (simp add: mixed_conversation)
  ultimately show ?thesis
    using conversation_is_kept [of two_sessions "js ''s''" "\<lparr>ss_engine = tool_engine, ss_pending = []\<rparr>" mixed_calls] by fastforce
qed

text \<open>A revision conflict costs the session its uncommitted work. When the commit of a turn
  meets another writer's revision, the adapter reloads at once: the facts, references and
  summaries of the session are then exactly those on disk, while the window keeps the turn
  whose artifacts and beliefs are gone.\<close>

lemma conflict_discards_work:
  assumes "after_turn_in ms n s = (Some Sync_ok, s')"
  shows "\<exists>e m ix w. load (g_persistence (e_manager e)) (g_env (e_manager e)) = (L_ok m ix, w) \<and>
    e = snd (complete_turn (ss_pending s @ turn_of ms n) False (ss_engine s)) \<and>
    m_facts (g_working (e_manager (ss_engine s'))) = m_facts m \<and>
    m_references (g_working (e_manager (ss_engine s'))) = m_references m \<and>
    m_summaries (g_working (e_manager (ss_engine s'))) = m_summaries m \<and> \<not> g_dirty (e_manager (ss_engine s')) \<and>
    e_window (ss_engine s') = snd (push_turn (ss_pending s @ turn_of ms n) (e_window (ss_engine s)))"
proof -
  let ?all = "ss_pending s @ turn_of ms n"
  obtain r e where c: "complete_turn ?all False (ss_engine s) = (r, e)" by fastforce
  from assms c have "?all \<noteq> []" "tr_sync_required r"
    by (auto simp: after_turn_in_def Let_def split: if_splits)
  with assms c have s: "sync_and_replan e = (Sync_ok, ss_engine s')"
    by (auto simp: after_turn_in_def Let_def split: prod.splits)
  have e: "e = snd (complete_turn ?all False (ss_engine s))" by (simp add: c)
  show ?thesis using sync_loads [OF s] by (metis e complete_turn_window)
qed

definition late_session :: session_state where
  "late_session = \<lparr>ss_engine = new_engine (paris_disk\<lparr>g_env := rival_world\<rparr>)
     \<lparr>ec_sliding_window = None, ec_injection = None, ec_auto_commit = True\<rparr>, ss_pending = [plain_message User (js ''hi'')]\<rparr>"

lemma conflict_discards_work_example:
  "\<exists>s'. after_turn_in [] 0 late_session = (Some Sync_ok, s') \<and> \<not> g_dirty (e_manager (ss_engine s'))"
proof -
  let ?g = "paris_disk\<lparr>g_env := rival_world\<rparr>"
  have io: "io_free rival_world" by (simp add: rival_world_def demo_world_def io_free_def)
  obtain e where c: "commit demo_persistence (g_working paris) 0 rival_world = (C_fail Commit_revision_conflict e, rival_world\<lparr>w_io := Suc (w_io rival_world)\<rparr>)"
    using commit_conflict_free [OF io rival_revision, of 0] by auto
  obtain w' where l: "load demo_persistence (rival_world\<lparr>w_io := Suc (w_io rival_world)\<rparr>) = (L_ok rival (build_indexes rival), w')"
    using rival_load by blast
  have m: "manager_commit ?g = (C_fail Commit_revision_conflict e, ?g\<lparr>g_env := rival_world\<lparr>w_io := Suc (w_io rival_world)\<rparr>\<rparr>)"
    by (simp add: manager_commit_def paris_disk_simps c)
  have d: "detect_offloads cfg [plain_message User (js ''hi'')] n = []" for cfg n
    by (simp add: detect_offloads_def indexed_def is_large_def plain_message_def)
  have f: "fst (fst (push_turn [plain_message User (js ''hi'')] w)) = []" for w by (simp add: push_turn_fields d)
  have "\<exists>s'. after_turn_in [] 0 late_session = (Some Sync_ok, s')"
    by (simp add: after_turn_in_def turn_of_def slice_from_def map_filter_simps late_session_def complete_turn_def new_engine_def
        Let_def split_beta f m paris_disk_simps sync_and_replan_def reload_def l)
  then obtain s' where a: "after_turn_in [] 0 late_session = (Some Sync_ok, s')" by blast
  with conflict_discards_work [OF a] show ?thesis by blast
qed

end
