(* ===== verification/CommandQueue.thy ===== *)
theory CommandQueue
  imports JsPrelude "HOL-Library.Multiset"
begin

text \<open>
  The in-process command queue of the gateway (\<open>openclaw-main/src/process/command-queue.ts\<close>,
  \<open>lanes.ts\<close>): named lanes with a FIFO queue and a bound on the tasks that run at once.

  The runtime around the queue is explicit state. An entry of a lane is named by the promise
  its caller holds (\<open>qe_id\<close>); \<open>cq_running\<close> holds the asynchronous closures of \<open>pump\<close> that wait
  for a task or its timeout; \<open>cq_log\<close> records what callers observe, in order: starts, waiting
  callbacks, settled promises, resolved waiters. Time is an argument of the operations that
  read the clock. \<open>onWait\<close> callbacks are taken not to call the queue back, log messages are
  left out, and the test-only hard reset of the state is not modelled.
\<close>

section \<open>Lanes and errors\<close>

datatype command_lane = MainLane | CronLane | CronNestedLane | SubagentLane | NestedLane

fun lane_name :: "command_lane \<Rightarrow> jstring" where
  "lane_name MainLane = js ''main''"
| "lane_name CronLane = js ''cron''"
| "lane_name CronNestedLane = js ''cron-nested''"
| "lane_name SubagentLane = js ''subagent''"
| "lane_name NestedLane = js ''nested''"

text \<open>A thrown value: an \<open>Error\<close> with its name and message, or anything else by its string.\<close>

datatype js_error = ErrorObject jstring jstring | OtherThrown jstring

definition lane_cleared_error :: "jstring option \<Rightarrow> js_error" where
  "lane_cleared_error lane = ErrorObject (js ''CommandLaneClearedError'')
     (case lane of
        Some l \<Rightarrow> if l = [] then js ''Command lane cleared'' else js ''Command lane \"'' @ l @ js ''\" cleared''
      | None \<Rightarrow> js ''Command lane cleared'')"

definition timed_out_text :: "jstring \<Rightarrow> jstring" where
  "timed_out_text lane = js ''Command lane \"'' @ lane @ js ''\" task timed out''"

definition task_timeout_error :: "jstring \<Rightarrow> int \<Rightarrow> js_error" where
  "task_timeout_error lane ms = ErrorObject (js ''CommandLaneTaskTimeoutError'')
     (timed_out_text lane @ js '' after '' @ show_int ms @ js ''ms'')"

definition is_task_timeout_error :: "js_error \<Rightarrow> jstring option \<Rightarrow> bool" where
  "is_task_timeout_error err lane = (case err of
     OtherThrown s \<Rightarrow> False
   | ErrorObject n m \<Rightarrow> n = js ''CommandLaneTaskTimeoutError'' \<and>
       (case lane of None \<Rightarrow> True | Some l \<Rightarrow> str_includes m (timed_out_text l)))"

definition gateway_draining_error :: js_error where
  "gateway_draining_error = ErrorObject (js ''GatewayDrainingError'')
     (js ''Gateway is draining for restart; new tasks are not accepted'')"

datatype 'v task_outcome = Resolved 'v | Rejected js_error

section \<open>State\<close>

record queue_entry =
  qe_id :: nat
  qe_enqueued_at :: int
  qe_warn_after :: int
  qe_task_timeout :: "int option"
  qe_on_wait :: bool

record lane_state =
  ln_lane :: jstring
  ln_queue :: "queue_entry list"
  ln_active :: "nat jset"
  ln_max :: int
  ln_draining :: bool
  ln_generation :: nat

record lane_snapshot =
  sn_lane :: jstring
  sn_queued :: nat
  sn_active :: nat
  sn_max :: int
  sn_draining :: bool
  sn_generation :: nat

record task_waiter =
  tw_id :: nat
  tw_tasks :: "nat jset"
  tw_timed :: bool

text \<open>The closure that runs a task: its number, its lane, the generation it started in.\<close>

record running_task =
  rt_id :: nat
  rt_lane :: jstring
  rt_entry :: queue_entry
  rt_generation :: nat

datatype 'v observation =
    Started jstring nat
  | WaitedLong nat int nat
  | Settled nat "'v task_outcome"
  | WaiterDone nat bool

record 'v command_queue =
  cq_gateway_draining :: bool
  cq_lanes :: "(jstring, lane_state) jmap"
  cq_waiters :: "task_waiter list"
  cq_next_task :: nat
  cq_running :: "running_task list"
  cq_next_entry :: nat
  cq_next_waiter :: nat
  cq_log :: "'v observation list"

definition empty_queue :: "'v command_queue" where
  "empty_queue = \<lparr>cq_gateway_draining = False, cq_lanes = [], cq_waiters = [], cq_next_task = 1,
     cq_running = [], cq_next_entry = 0, cq_next_waiter = 0, cq_log = []\<rparr>"

definition new_lane :: "jstring \<Rightarrow> lane_state" where
  "new_lane lane = \<lparr>ln_lane = lane, ln_queue = [], ln_active = [], ln_max = 1, ln_draining = False, ln_generation = 0\<rparr>"

definition normalize_lane :: "jstring \<Rightarrow> jstring" where
  "normalize_lane lane = (if trim lane = [] then lane_name MainLane else trim lane)"

text \<open>\<open>lane_at\<close> reads a lane, \<open>put_lane\<close> writes it: \<open>getLaneState\<close> creates what is missing.\<close>

definition lane_at :: "jstring \<Rightarrow> 'v command_queue \<Rightarrow> lane_state" where
  "lane_at lane s = (case map_of (cq_lanes s) lane of Some st \<Rightarrow> st | None \<Rightarrow> new_lane lane)"

definition put_lane :: "jstring \<Rightarrow> lane_state \<Rightarrow> 'v command_queue \<Rightarrow> 'v command_queue" where
  "put_lane lane st s = s\<lparr>cq_lanes := map_put lane st (cq_lanes s)\<rparr>"

definition observe :: "'v observation \<Rightarrow> 'v command_queue \<Rightarrow> 'v command_queue" where
  "observe x s = s\<lparr>cq_log := cq_log s @ [x]\<rparr>"

definition lane_depth :: "lane_state \<Rightarrow> nat" where
  "lane_depth st = length (ln_queue st) + length (ln_active st)"

definition lane_snapshot_of :: "lane_state \<Rightarrow> lane_snapshot" where
  "lane_snapshot_of st = \<lparr>sn_lane = ln_lane st, sn_queued = length (ln_queue st), sn_active = length (ln_active st),
     sn_max = ln_max st, sn_draining = ln_draining st, sn_generation = ln_generation st\<rparr>"

section \<open>Waiters\<close>

definition active_tasks :: "'v command_queue \<Rightarrow> nat list" where
  "active_tasks s = concat (map (\<lambda>(l, st). ln_active st) (cq_lanes s))"

definition has_pending :: "nat jset \<Rightarrow> 'v command_queue \<Rightarrow> bool" where
  "has_pending ts s \<longleftrightarrow> list_ex (\<lambda>(l, st). list_ex (\<lambda>t. t \<in> set ts) (ln_active st)) (cq_lanes s)"

definition resolve_waiter :: "nat \<Rightarrow> bool \<Rightarrow> 'v command_queue \<Rightarrow> 'v command_queue" where
  "resolve_waiter w drained s =
     (if list_ex (\<lambda>x. tw_id x = w) (cq_waiters s)
      then observe (WaiterDone w drained) (s\<lparr>cq_waiters := filter (\<lambda>x. tw_id x \<noteq> w) (cq_waiters s)\<rparr>)
      else s)"

definition notify_waiter :: "task_waiter \<Rightarrow> 'v command_queue \<Rightarrow> 'v command_queue" where
  "notify_waiter w s =
     (if tw_tasks w = [] \<or> \<not> has_pending (tw_tasks w) s then resolve_waiter (tw_id w) True s else s)"

definition notify_waiters :: "'v command_queue \<Rightarrow> 'v command_queue" where
  "notify_waiters s = fold notify_waiter (cq_waiters s) s"

section \<open>Running tasks\<close>

definition normalize_task_timeout :: "int option \<Rightarrow> int option" where
  "normalize_task_timeout v = (case v of None \<Rightarrow> None | Some n \<Rightarrow> if n \<le> 0 then None else Some (max 1 n))"

definition can_start :: "lane_state \<Rightarrow> bool" where
  "can_start st \<longleftrightarrow> int (length (ln_active st)) < ln_max st \<and> ln_queue st \<noteq> []"

text \<open>One turn of the loop of \<open>pump\<close>: the oldest entry leaves the queue and its task starts.\<close>

definition start_entry :: "jstring \<Rightarrow> int \<Rightarrow> 'v command_queue \<Rightarrow> 'v command_queue" where
  "start_entry lane now s =
     (let st = lane_at lane s; e = hd (ln_queue st); rest = tl (ln_queue st);
          waited = now - qe_enqueued_at e; t = cq_next_task s;
          s1 = (if qe_warn_after e \<le> waited \<and> qe_on_wait e then observe (WaitedLong (qe_id e) waited (length rest)) s else s);
          s2 = put_lane lane (st\<lparr>ln_queue := rest, ln_active := set_add t (ln_active st)\<rparr>) s1
      in observe (Started lane (qe_id e))
           (s2\<lparr>cq_next_task := Suc t,
               cq_running := cq_running s2 @ [\<lparr>rt_id = t, rt_lane = lane, rt_entry = e, rt_generation = ln_generation st\<rparr>]\<rparr>))"

lemma lane_state_put [simp]:
  "lane_at L (put_lane lane st s) = (if L = lane then st else lane_at L s)"
  by (simp add: lane_at_def put_lane_def js_simps)

lemma put_lane_fields [simp]:
  "cq_waiters (put_lane lane st s) = cq_waiters s" "cq_next_task (put_lane lane st s) = cq_next_task s"
  "cq_running (put_lane lane st s) = cq_running s" "cq_next_entry (put_lane lane st s) = cq_next_entry s"
  "cq_log (put_lane lane st s) = cq_log s" "cq_gateway_draining (put_lane lane st s) = cq_gateway_draining s"
  "cq_next_waiter (put_lane lane st s) = cq_next_waiter s"
  by (simp_all add: put_lane_def)

lemma observe_fields [simp]:
  "cq_waiters (observe x s) = cq_waiters s" "cq_next_task (observe x s) = cq_next_task s"
  "cq_running (observe x s) = cq_running s" "cq_next_entry (observe x s) = cq_next_entry s"
  "cq_log (observe x s) = cq_log s @ [x]" "cq_gateway_draining (observe x s) = cq_gateway_draining s"
  "cq_next_waiter (observe x s) = cq_next_waiter s" "cq_lanes (observe x s) = cq_lanes s"
  by (simp_all add: observe_def)

lemma lane_state_lanes: "cq_lanes s = cq_lanes t \<Longrightarrow> lane_at L s = lane_at L t"
  by (simp add: lane_at_def)

lemma lane_state_observe [simp]: "lane_at L (observe x s) = lane_at L s"
  by (simp add: lane_at_def)

lemma lane_state_other_fields [simp]:
  "lane_at L (s\<lparr>cq_next_task := n\<rparr>) = lane_at L s" "lane_at L (s\<lparr>cq_running := rs\<rparr>) = lane_at L s"
  "lane_at L (s\<lparr>cq_waiters := ws\<rparr>) = lane_at L s" "lane_at L (s\<lparr>cq_gateway_draining := b\<rparr>) = lane_at L s"
  "lane_at L (s\<lparr>cq_next_entry := n\<rparr>) = lane_at L s" "lane_at L (s\<lparr>cq_next_waiter := n\<rparr>) = lane_at L s"
  by (simp_all add: lane_at_def)

lemma start_entry_lane [simp]:
  "lane_at L (start_entry lane now s) =
     (if L = lane then (lane_at lane s)\<lparr>ln_queue := tl (ln_queue (lane_at lane s)),
        ln_active := set_add (cq_next_task s) (ln_active (lane_at lane s))\<rparr> else lane_at L s)"
  by (simp add: start_entry_def Let_def)

text \<open>The loop of \<open>pump\<close>, with its \<open>finally\<close>; it ends because every turn shortens the queue.\<close>

function pump :: "jstring \<Rightarrow> int \<Rightarrow> 'v command_queue \<Rightarrow> 'v command_queue" where
  "pump lane now s = (if can_start (lane_at lane s) then pump lane now (start_entry lane now s) else s)"
  by pat_completeness auto
termination
  by (relation "measure (\<lambda>(lane, now, s). length (ln_queue (lane_at lane s)))") (auto simp: can_start_def)

declare pump.simps [simp del]

definition set_draining :: "bool \<Rightarrow> jstring \<Rightarrow> 'v command_queue \<Rightarrow> 'v command_queue" where
  "set_draining b lane s = put_lane lane ((lane_at lane s)\<lparr>ln_draining := b\<rparr>) s"

definition pump_finally :: "jstring \<Rightarrow> int \<Rightarrow> 'v command_queue \<Rightarrow> 'v command_queue" where
  "pump_finally lane now s = set_draining False lane (pump lane now s)"

definition drain_lane :: "jstring \<Rightarrow> int \<Rightarrow> 'v command_queue \<Rightarrow> 'v command_queue" where
  "drain_lane lane now s =
     (if ln_draining (lane_at lane s) then s else pump_finally lane now (set_draining True lane s))"

definition complete_task :: "jstring \<Rightarrow> nat \<Rightarrow> nat \<Rightarrow> 'v command_queue \<Rightarrow> bool \<times> 'v command_queue" where
  "complete_task lane t generation s =
     (let st = lane_at lane s
      in if generation \<noteq> ln_generation st then (False, s)
         else (True, put_lane lane (st\<lparr>ln_active := set_del t (ln_active st)\<rparr>) s))"

text \<open>The continuation of the closure once its task or the timeout has won the race.\<close>

definition finish_task :: "running_task \<Rightarrow> 'v task_outcome \<Rightarrow> int \<Rightarrow> 'v command_queue \<Rightarrow> 'v command_queue" where
  "finish_task r outcome now s =
     (let s0 = s\<lparr>cq_running := filter (\<lambda>x. rt_id x \<noteq> rt_id r) (cq_running s)\<rparr>;
          (current, s1) = complete_task (rt_lane r) (rt_id r) (rt_generation r) s0;
          s2 = (if current then pump_finally (rt_lane r) now (notify_waiters s1) else s1)
      in observe (Settled (qe_id (rt_entry r)) outcome) s2)"

definition find_running :: "nat \<Rightarrow> 'v command_queue \<Rightarrow> running_task option" where
  "find_running t s = List.find (\<lambda>r. rt_id r = t) (cq_running s)"

definition task_settles :: "nat \<Rightarrow> 'v task_outcome \<Rightarrow> int \<Rightarrow> 'v command_queue \<Rightarrow> 'v command_queue" where
  "task_settles t outcome now s =
     (case find_running t s of None \<Rightarrow> s | Some r \<Rightarrow> finish_task r outcome now s)"

definition timeout_fires :: "nat \<Rightarrow> int \<Rightarrow> 'v command_queue \<Rightarrow> 'v command_queue" where
  "timeout_fires t now s =
     (case find_running t s of None \<Rightarrow> s
      | Some r \<Rightarrow> (case normalize_task_timeout (qe_task_timeout (rt_entry r)) of None \<Rightarrow> s
         | Some ms \<Rightarrow> finish_task r (Rejected (task_timeout_error (rt_lane r) ms)) now s))"

section \<open>Exported operations\<close>

definition mark_gateway_draining :: "'v command_queue \<Rightarrow> 'v command_queue" where
  "mark_gateway_draining s = s\<lparr>cq_gateway_draining := True\<rparr>"

definition is_probe_lane :: "jstring \<Rightarrow> bool" where
  "is_probe_lane lane \<longleftrightarrow> starts_with lane (js ''auth-probe:'') \<or> starts_with lane (js ''session:probe-'')"

definition set_concurrency :: "jstring \<Rightarrow> int \<Rightarrow> int \<Rightarrow> 'v command_queue \<Rightarrow> 'v command_queue" where
  "set_concurrency lane max_concurrent now s =
     (let cleaned = normalize_lane lane; min_concurrent = (if is_probe_lane cleaned then 1 else 0);
          st = (lane_at cleaned s)\<lparr>ln_max := max min_concurrent max_concurrent\<rparr>;
          s1 = put_lane cleaned st s
      in if 0 < ln_max st then drain_lane cleaned now s1 else s1)"

record enqueue_options =
  eo_warn_after :: "int option"
  eo_on_wait :: bool
  eo_task_timeout :: "int option"

definition default_options :: enqueue_options where
  "default_options = \<lparr>eo_warn_after = None, eo_on_wait = False, eo_task_timeout = None\<rparr>"

definition new_entry :: "nat \<Rightarrow> enqueue_options \<Rightarrow> int \<Rightarrow> queue_entry" where
  "new_entry i opts now = \<lparr>qe_id = i, qe_enqueued_at = now,
     qe_warn_after = (case eo_warn_after opts of None \<Rightarrow> 2000 | Some w \<Rightarrow> w),
     qe_task_timeout = normalize_task_timeout (eo_task_timeout opts), qe_on_wait = eo_on_wait opts\<rparr>"

definition enqueue_in_lane :: "jstring \<Rightarrow> enqueue_options \<Rightarrow> int \<Rightarrow> 'v command_queue \<Rightarrow> nat \<times> 'v command_queue" where
  "enqueue_in_lane lane opts now s =
     (let i = cq_next_entry s; s0 = s\<lparr>cq_next_entry := Suc i\<rparr>
      in if cq_gateway_draining s then (i, observe (Settled i (Rejected gateway_draining_error)) s0)
         else (let cleaned = normalize_lane lane; st = lane_at cleaned s0;
                   s1 = put_lane cleaned (st\<lparr>ln_queue := ln_queue st @ [new_entry i opts now]\<rparr>) s0
               in (i, drain_lane cleaned now s1)))"

definition enqueue_command :: "enqueue_options \<Rightarrow> int \<Rightarrow> 'v command_queue \<Rightarrow> nat \<times> 'v command_queue" where
  "enqueue_command = enqueue_in_lane (lane_name MainLane)"

definition get_queue_size :: "jstring \<Rightarrow> 'v command_queue \<Rightarrow> nat" where
  "get_queue_size lane s = (case map_of (cq_lanes s) (normalize_lane lane) of None \<Rightarrow> 0 | Some st \<Rightarrow> lane_depth st)"

definition get_lane_snapshot :: "jstring \<Rightarrow> 'v command_queue \<Rightarrow> lane_snapshot" where
  "get_lane_snapshot lane s =
     (case map_of (cq_lanes s) (normalize_lane lane) of
        None \<Rightarrow> \<lparr>sn_lane = normalize_lane lane, sn_queued = 0, sn_active = 0, sn_max = 1, sn_draining = False, sn_generation = 0\<rparr>
      | Some st \<Rightarrow> lane_snapshot_of st)"

definition get_lane_snapshots :: "(jstring \<Rightarrow> jstring \<Rightarrow> int) \<Rightarrow> 'v command_queue \<Rightarrow> lane_snapshot list" where
  "get_lane_snapshots collate s =
     sort_by (\<lambda>a b. collate (sn_lane a) (sn_lane b)) (map (\<lambda>(l, st). lane_snapshot_of st) (cq_lanes s))"

definition get_total_queue_size :: "'v command_queue \<Rightarrow> nat" where
  "get_total_queue_size s = sum_list (map (\<lambda>(l, st). lane_depth st) (cq_lanes s))"

definition get_active_task_count :: "'v command_queue \<Rightarrow> nat" where
  "get_active_task_count s = sum_list (map (\<lambda>(l, st). length (ln_active st)) (cq_lanes s))"

definition clear_lane :: "jstring \<Rightarrow> 'v command_queue \<Rightarrow> nat \<times> 'v command_queue" where
  "clear_lane lane s =
     (let cleaned = normalize_lane lane in
      case map_of (cq_lanes s) cleaned of None \<Rightarrow> (0, s)
      | Some st \<Rightarrow> (length (ln_queue st),
          fold (\<lambda>e. observe (Settled (qe_id e) (Rejected (lane_cleared_error (Some cleaned)))))
            (ln_queue st) (put_lane cleaned (st\<lparr>ln_queue := []\<rparr>) s)))"

definition idle_lane :: "lane_state \<Rightarrow> lane_state" where
  "idle_lane st = st\<lparr>ln_generation := Suc (ln_generation st), ln_active := [], ln_draining := False\<rparr>"

definition reset_lane :: "jstring \<Rightarrow> int \<Rightarrow> 'v command_queue \<Rightarrow> nat \<times> 'v command_queue" where
  "reset_lane lane now s =
     (let cleaned = normalize_lane lane in
      case map_of (cq_lanes s) cleaned of None \<Rightarrow> (0, s)
      | Some st \<Rightarrow>
          (let s1 = put_lane cleaned (idle_lane st) s;
               s2 = (if ln_queue st \<noteq> [] then drain_lane cleaned now s1 else s1)
           in (length (ln_active st), notify_waiters s2)))"

definition reset_all_lanes :: "int \<Rightarrow> 'v command_queue \<Rightarrow> 'v command_queue" where
  "reset_all_lanes now s =
     (let to_drain = map (\<lambda>(l, st). ln_lane st) (filter (\<lambda>(l, st). ln_queue st \<noteq> []) (cq_lanes s));
          s1 = s\<lparr>cq_gateway_draining := False, cq_lanes := map (\<lambda>(l, st). (l, idle_lane st)) (cq_lanes s)\<rparr>
      in notify_waiters (fold (\<lambda>l. drain_lane l now) to_drain s1))"

text \<open>The promise of \<open>waitForActiveTasks\<close>: settled at once, or held by a waiter.\<close>

datatype wait_promise = WaitSettled bool | WaitPending nat

definition wait_for_active :: "int option \<Rightarrow> 'v command_queue \<Rightarrow> wait_promise \<times> 'v command_queue" where
  "wait_for_active limit s =
     (let at_start = dedup (active_tasks s); timed_up = (case limit of None \<Rightarrow> False | Some ms \<Rightarrow> ms \<le> 0)
      in if at_start = [] then (WaitSettled True, s)
         else if timed_up then (WaitSettled False, s)
         else (let w = cq_next_waiter s;
                   s1 = s\<lparr>cq_next_waiter := Suc w,
                          cq_waiters := cq_waiters s @ [\<lparr>tw_id = w, tw_tasks = at_start, tw_timed = (limit \<noteq> None)\<rparr>]\<rparr>
               in (WaitPending w, notify_waiters s1)))"

definition waiter_timeout :: "nat \<Rightarrow> 'v command_queue \<Rightarrow> 'v command_queue" where
  "waiter_timeout w s =
     (if list_ex (\<lambda>x. tw_id x = w \<and> tw_timed x) (cq_waiters s) then resolve_waiter w False s else s)"

section \<open>Runs\<close>

datatype 'v queue_event =
    Enqueue jstring enqueue_options int
  | TaskSettles nat "'v task_outcome" int
  | TimeoutFires nat int
  | SetConcurrency jstring int int
  | ClearLane jstring
  | ResetLane jstring int
  | ResetAll int
  | MarkDraining
  | WaitActive "int option"
  | WaiterTimeout nat

fun queue_exec :: "'v queue_event \<Rightarrow> 'v command_queue \<Rightarrow> 'v command_queue" where
  "queue_exec (Enqueue lane opts now) s = snd (enqueue_in_lane lane opts now s)"
| "queue_exec (TaskSettles t outcome now) s = task_settles t outcome now s"
| "queue_exec (TimeoutFires t now) s = timeout_fires t now s"
| "queue_exec (SetConcurrency lane n now) s = set_concurrency lane n now s"
| "queue_exec (ClearLane lane) s = snd (clear_lane lane s)"
| "queue_exec (ResetLane lane now) s = snd (reset_lane lane now s)"
| "queue_exec (ResetAll now) s = reset_all_lanes now s"
| "queue_exec MarkDraining s = mark_gateway_draining s"
| "queue_exec (WaitActive limit) s = snd (wait_for_active limit s)"
| "queue_exec (WaiterTimeout w) s = waiter_timeout w s"

inductive queue_reachable :: "'v command_queue \<Rightarrow> bool" where
  queue_start: "queue_reachable empty_queue"
| queue_step: "queue_reachable s \<Longrightarrow> queue_reachable (queue_exec e s)"

end
