(* ===== verification/QueueInvariants.thy ===== *)
theory QueueInvariants
  imports CommandQueue
begin

text \<open>
  The invariants of the command queue and their preservation by every operation: the task
  numbers of a lane are those of its running closures of the current generation, every entry
  is queued, running or settled exactly once, a lane starts its entries in the order of their
  arrival, no lane with work and a free slot is left idle, and every waiter has a task to wait
  for.
\<close>

section \<open>Lanes and tasks\<close>

definition lanes_ok :: "'v command_queue \<Rightarrow> bool" where
  "lanes_ok s \<longleftrightarrow> keys_ok (cq_lanes s) \<and> (\<forall>L. ln_lane (lane_at L s) = L)"

definition current_tasks :: "jstring \<Rightarrow> nat \<Rightarrow> running_task list \<Rightarrow> nat set" where
  "current_tasks L g rs = rt_id ` {r \<in> set rs. rt_lane r = L \<and> rt_generation r = g}"

lemma current_tasks_snoc [simp]:
  "current_tasks L g (rs @ [r]) = (if rt_lane r = L \<and> rt_generation r = g then {rt_id r} else {}) \<union> current_tasks L g rs"
  by (auto simp: current_tasks_def)

lemma current_tasks_remove:
  "current_tasks L g (filter (\<lambda>x. rt_id x \<noteq> t) rs) = current_tasks L g rs - {t}"
  by (auto simp: current_tasks_def)

definition tasks_ok :: "'v command_queue \<Rightarrow> bool" where
  "tasks_ok s \<longleftrightarrow> distinct (map rt_id (cq_running s)) \<and>
     (\<forall>r \<in> set (cq_running s). rt_id r < cq_next_task s \<and> rt_generation r \<le> ln_generation (lane_at (rt_lane r) s)) \<and>
     (\<forall>L. distinct (ln_active (lane_at L s)) \<and>
        set (ln_active (lane_at L s)) = current_tasks L (ln_generation (lane_at L s)) (cq_running s))"

lemma lanes_okI: "keys_ok (cq_lanes s) \<Longrightarrow> (\<And>L. ln_lane (lane_at L s) = L) \<Longrightarrow> lanes_ok s"
  by (simp add: lanes_ok_def)

lemma lanes_ok_put: "lanes_ok s \<Longrightarrow> ln_lane st = lane \<Longrightarrow> lanes_ok (put_lane lane st s)"
  by (simp add: lanes_ok_def) (simp add: put_lane_def js_intros)

lemma keys_ok_put: "keys_ok (cq_lanes s) \<Longrightarrow> keys_ok (cq_lanes (put_lane lane st s))"
  by (simp add: put_lane_def js_intros)

lemma lanes_ok_cong: "cq_lanes s = cq_lanes t \<Longrightarrow> lanes_ok s = lanes_ok t"
  using lane_state_lanes [of s t] by (simp add: lanes_ok_def)

lemma tasks_ok_cong:
  "cq_lanes s = cq_lanes t \<Longrightarrow> cq_running s = cq_running t \<Longrightarrow> cq_next_task s = cq_next_task t \<Longrightarrow> tasks_ok s = tasks_ok t"
  using lane_state_lanes [of s t] by (simp add: tasks_ok_def)

section \<open>Entries\<close>

fun starts_of :: "jstring \<Rightarrow> 'v observation list \<Rightarrow> nat list" where
  "starts_of L [] = []"
| "starts_of L (Started l i # xs) = (if l = L then i # starts_of L xs else starts_of L xs)"
| "starts_of L (x # xs) = starts_of L xs"

fun settled_of :: "'v observation list \<Rightarrow> nat list" where
  "settled_of [] = []"
| "settled_of (Settled i r # xs) = i # settled_of xs"
| "settled_of (x # xs) = settled_of xs"

lemma starts_of_append [simp]: "starts_of L (xs @ ys) = starts_of L xs @ starts_of L ys"
  by (induction L xs rule: starts_of.induct) auto

lemma settled_of_append [simp]: "settled_of (xs @ ys) = settled_of xs @ settled_of ys"
  by (induction xs rule: settled_of.induct) auto

definition queue_ids :: "lane_state \<Rightarrow> nat list" where
  "queue_ids st = map qe_id (ln_queue st)"

definition queued :: "(jstring, lane_state) jmap \<Rightarrow> nat multiset" where
  "queued lanes = mset (concat (map (\<lambda>(l, st). queue_ids st) lanes))"

definition running_ids :: "running_task list \<Rightarrow> nat multiset" where
  "running_ids rs = mset (map (\<lambda>r. qe_id (rt_entry r)) rs)"

text \<open>Where the entries are; \<open>extra\<close> holds those that an operation has in hand.\<close>

definition entries_ok :: "nat multiset \<Rightarrow> 'v command_queue \<Rightarrow> bool" where
  "entries_ok extra s \<longleftrightarrow>
     queued (cq_lanes s) + running_ids (cq_running s) + mset (settled_of (cq_log s)) + extra = mset [0..<cq_next_entry s]"

definition arrivals :: "jstring \<Rightarrow> 'v command_queue \<Rightarrow> nat list" where
  "arrivals L s = starts_of L (cq_log s) @ queue_ids (lane_at L s)"

definition fifo_ok :: "'v command_queue \<Rightarrow> bool" where
  "fifo_ok s \<longleftrightarrow> (\<forall>L. sorted_wrt (<) (arrivals L s) \<and> (\<forall>i \<in> set (arrivals L s). i < cq_next_entry s))"

lemma queued_alist_replace:
  "map_of lanes k = Some old \<Longrightarrow> queued (alist_replace k st lanes) + mset (queue_ids old) = queued lanes + mset (queue_ids st)"
proof (induction lanes)
  case (Cons p lanes)
  obtain l w where p: "p = (l, w)" by (cases p)
  show ?case
  proof (cases "l = k")
    case True
    with Cons.prems p show ?thesis by (simp add: queued_def add_ac)
  next
    case False
    with Cons p have "queued (alist_replace k st lanes) + mset (queue_ids old) = queued lanes + mset (queue_ids st)" by simp
    then show ?thesis using False p by (simp add: queued_def add_ac)
  qed
qed simp

lemma queued_put:
  "queued (cq_lanes (put_lane L st s)) + mset (queue_ids (lane_at L s)) = queued (cq_lanes s) + mset (queue_ids st)"
proof (cases "map_of (cq_lanes s) L")
  case None
  then have "L \<notin> fst ` set (cq_lanes s)" by (simp add: map_of_eq_None_iff)
  with None show ?thesis by (simp add: put_lane_def map_put_def lane_at_def new_lane_def queue_ids_def queued_def)
next
  case (Some old)
  then have "L \<in> fst ` set (cq_lanes s)" by (force dest: map_of_SomeD)
  with Some show ?thesis by (simp add: put_lane_def map_put_def lane_at_def queued_alist_replace)
qed

lemma entries_put:
  assumes "entries_ok P s" "mset (queue_ids st) + Q = mset (queue_ids (lane_at L s)) + P"
  shows "entries_ok Q (put_lane L st s)"
proof -
  have "queued (cq_lanes (put_lane L st s)) + Q + (mset (queue_ids (lane_at L s)) + P) =
        (queued (cq_lanes (put_lane L st s)) + mset (queue_ids (lane_at L s))) + P + Q" by (simp add: add_ac)
  also have "\<dots> = queued (cq_lanes s) + P + (mset (queue_ids st) + Q)" unfolding queued_put by (simp add: add_ac)
  also have "\<dots> = queued (cq_lanes s) + P + (mset (queue_ids (lane_at L s)) + P)" unfolding assms(2) ..
  finally have e: "queued (cq_lanes (put_lane L st s)) + Q = queued (cq_lanes s) + P" by simp
  let ?rest = "running_ids (cq_running s) + mset (settled_of (cq_log s))"
  have "queued (cq_lanes (put_lane L st s)) + ?rest + Q = (queued (cq_lanes (put_lane L st s)) + Q) + ?rest"
    by (simp only: add_ac)
  also have "\<dots> = queued (cq_lanes s) + ?rest + P" unfolding e by (simp only: add_ac)
  finally show ?thesis using assms(1) unfolding entries_ok_def put_lane_fields by (simp only: add.assoc)
qed

lemma entries_put_same:
  "entries_ok P s \<Longrightarrow> ln_queue st = ln_queue (lane_at L s) \<Longrightarrow> entries_ok P (put_lane L st s)"
  by (rule entries_put) (simp_all add: queue_ids_def)

lemma entries_ok_cong:
  "cq_lanes s = cq_lanes t \<Longrightarrow> cq_running s = cq_running t \<Longrightarrow> cq_next_entry s = cq_next_entry t \<Longrightarrow>
   settled_of (cq_log s) = settled_of (cq_log t) \<Longrightarrow> entries_ok P s = entries_ok P t"
  by (simp add: entries_ok_def)

lemma fifo_ok_cong:
  "(\<And>L. arrivals L s = arrivals L t) \<Longrightarrow> cq_next_entry s = cq_next_entry t \<Longrightarrow> fifo_ok s = fifo_ok t"
  by (simp add: fifo_ok_def)

text \<open>The invariant that holds inside the operations too.\<close>

definition queue_core :: "nat multiset \<Rightarrow> 'v command_queue \<Rightarrow> bool" where
  "queue_core P s \<longleftrightarrow> lanes_ok s \<and> tasks_ok s \<and> entries_ok P s \<and> fifo_ok s"

lemma queue_core_cong:
  "cq_lanes s = cq_lanes t \<Longrightarrow> cq_running s = cq_running t \<Longrightarrow> cq_next_entry s = cq_next_entry t \<Longrightarrow>
   cq_next_task s = cq_next_task t \<Longrightarrow> settled_of (cq_log s) = settled_of (cq_log t) \<Longrightarrow>
   (\<And>L. starts_of L (cq_log s) = starts_of L (cq_log t)) \<Longrightarrow> queue_core P s = queue_core P t"
  unfolding queue_core_def
  using lanes_ok_cong [of s t] tasks_ok_cong [of s t] entries_ok_cong [of s t] fifo_ok_cong [of s t] lane_state_lanes [of s t]
  by (simp add: arrivals_def)

lemma queue_core_settle:
  "queue_core ({#i#} + P) s \<Longrightarrow> queue_core P (observe (Settled i r) s)"
  using lanes_ok_cong [of "observe (Settled i r) s" s] tasks_ok_cong [of "observe (Settled i r) s" s]
    fifo_ok_cong [of "observe (Settled i r) s" s]
  by (simp add: queue_core_def entries_ok_def add_ac arrivals_def)

lemma queue_core_settle_all:
  "queue_core (mset (map qe_id es) + P) s \<Longrightarrow> queue_core P (fold (\<lambda>e. observe (Settled (qe_id e) r)) es s)"
proof (induction es arbitrary: s)
  case (Cons e es)
  then show ?case using queue_core_settle [of "qe_id e" "mset (map qe_id es) + P" s r] by simp
qed simp

text \<open>A write that only changes bookkeeping of the lane.\<close>

lemma queue_core_put_same:
  assumes "queue_core P s" "ln_queue st = ln_queue (lane_at L s)" "ln_active st = ln_active (lane_at L s)"
    "ln_generation st = ln_generation (lane_at L s)" "ln_lane st = L"
  shows "queue_core P (put_lane L st s)"
proof -
  have "tasks_ok (put_lane L st s)"
    using assms by (auto simp: queue_core_def tasks_ok_def)
  moreover have "fifo_ok (put_lane L st s)"
    using assms fifo_ok_cong [of "put_lane L st s" s] by (simp add: queue_core_def arrivals_def queue_ids_def)
  ultimately show ?thesis
    using assms by (simp add: queue_core_def lanes_ok_put entries_put_same)
qed

section \<open>Starting tasks\<close>

lemma start_entry_fields:
  "cq_next_task (start_entry lane now s) = Suc (cq_next_task s)" "cq_next_entry (start_entry lane now s) = cq_next_entry s"
  "cq_running (start_entry lane now s) = cq_running s @ [\<lparr>rt_id = cq_next_task s, rt_lane = lane,
     rt_entry = hd (ln_queue (lane_at lane s)), rt_generation = ln_generation (lane_at lane s)\<rparr>]"
  "starts_of L (cq_log (start_entry lane now s)) =
     starts_of L (cq_log s) @ (if L = lane then [qe_id (hd (ln_queue (lane_at lane s)))] else [])"
  "settled_of (cq_log (start_entry lane now s)) = settled_of (cq_log s)"
  "cq_waiters (start_entry lane now s) = cq_waiters s" "cq_next_waiter (start_entry lane now s) = cq_next_waiter s"
  "cq_gateway_draining (start_entry lane now s) = cq_gateway_draining s"
  by (simp_all add: start_entry_def Let_def)

lemma start_entry_lanes:
  "cq_lanes (start_entry lane now s) = cq_lanes (put_lane lane ((lane_at lane s)\<lparr>ln_queue := tl (ln_queue (lane_at lane s)),
     ln_active := set_add (cq_next_task s) (ln_active (lane_at lane s))\<rparr>) s)"
  by (simp add: start_entry_def Let_def put_lane_def)

lemma active_fresh: "tasks_ok s \<Longrightarrow> cq_next_task s \<notin> set (ln_active (lane_at L s))"
  by (auto simp: tasks_ok_def current_tasks_def)

lemma start_entry_tasks: assumes "tasks_ok s" shows "tasks_ok (start_entry lane now s)"
  using assms active_fresh [OF assms, of lane]
  unfolding tasks_ok_def start_entry_fields start_entry_lane
  by (auto simp: set_add_def less_Suc_eq)

lemma start_entry_core:
  assumes "queue_core P s" "can_start (lane_at lane s)"
  shows "queue_core P (start_entry lane now s)"
proof -
  obtain e q where q: "ln_queue (lane_at lane s) = e # q"
    using assms(2) by (cases "ln_queue (lane_at lane s)") (auto simp: can_start_def)
  let ?st = "(lane_at lane s)\<lparr>ln_queue := tl (ln_queue (lane_at lane s)), ln_active := set_add (cq_next_task s) (ln_active (lane_at lane s))\<rparr>"
  have l: "lanes_ok (put_lane lane ?st s)" using assms(1) by (intro lanes_ok_put) (simp_all add: queue_core_def lanes_ok_def)
  have "entries_ok ({#qe_id e#} + P) (put_lane lane ?st s)"
    using assms(1) q by (intro entries_put [where P = P]) (simp_all add: queue_core_def queue_ids_def)
  then have "entries_ok P (start_entry lane now s)"
    by (simp add: entries_ok_def start_entry_fields start_entry_lanes q running_ids_def add_ac)
  moreover have "fifo_ok (start_entry lane now s)"
    using assms(1) q fifo_ok_cong [of "start_entry lane now s" s]
    by (simp add: queue_core_def arrivals_def start_entry_fields queue_ids_def)
  moreover have "lanes_ok (start_entry lane now s)"
    using l lanes_ok_cong [of "start_entry lane now s", OF start_entry_lanes] by simp
  ultimately show ?thesis using assms(1) by (simp add: queue_core_def start_entry_tasks)
qed

text \<open>Whatever every turn of the loop keeps, the loop keeps.\<close>

lemma pump_invariant:
  assumes "\<And>s. Q s \<Longrightarrow> can_start (lane_at lane s) \<Longrightarrow> Q (start_entry lane now s)" "Q s"
  shows "Q (pump lane now s)"
  using assms
proof (induction lane now s rule: pump.induct)
  case (1 lane now s)
  then show ?case by (simp add: pump.simps [of lane now s])
qed

lemma pump_core: "queue_core P s \<Longrightarrow> queue_core P (pump lane now s)"
  by (rule pump_invariant) (auto intro: start_entry_core)

lemma pump_stops: "\<not> can_start (lane_at lane (pump lane now s))"
proof (induction lane now s rule: pump.induct)
  case (1 lane now s)
  then show ?case by (simp add: pump.simps [of lane now s])
qed

lemma pump_lane_frame:
  "L \<noteq> lane \<Longrightarrow> lane_at L (pump lane now s) = lane_at L s"
  "ln_generation (lane_at L (pump lane now s)) = ln_generation (lane_at L s)"
  "ln_max (lane_at L (pump lane now s)) = ln_max (lane_at L s)"
  "ln_lane (lane_at L (pump lane now s)) = ln_lane (lane_at L s)"
  "ln_draining (lane_at L (pump lane now s)) = ln_draining (lane_at L s)"
  "cq_next_entry (pump lane now s) = cq_next_entry s" "cq_waiters (pump lane now s) = cq_waiters s"
  "cq_next_waiter (pump lane now s) = cq_next_waiter s"
  "settled_of (cq_log (pump lane now s)) = settled_of (cq_log s)"
  by (rule pump_invariant [where Q = "\<lambda>t. _ t = _ s"]; auto simp: start_entry_fields split: if_splits)+

definition active_in :: "jstring \<Rightarrow> 'v command_queue \<Rightarrow> nat set" where
  "active_in L s = set (ln_active (lane_at L s))"

lemma pump_active: "active_in L s \<subseteq> active_in L (pump lane now s)"
  by (rule pump_invariant [where Q = "\<lambda>t. active_in L s \<subseteq> active_in L t"]) (auto simp: active_in_def js_simps)

text \<open>A bound \<open>b\<close> that holds of the running tasks and of the limit of a lane.\<close>

definition within :: "jstring \<Rightarrow> int \<Rightarrow> 'v command_queue \<Rightarrow> bool" where
  "within L b s \<longleftrightarrow> int (length (ln_active (lane_at L s))) \<le> b \<and> ln_max (lane_at L s) \<le> b"

lemma start_entry_within: "within L b s \<Longrightarrow> can_start (lane_at lane s) \<Longrightarrow> within L b (start_entry lane now s)"
  by (auto simp: within_def can_start_def set_add_def)

lemma pump_within: "within L b s \<Longrightarrow> within L b (pump lane now s)"
  by (rule pump_invariant [where Q = "within L b"]) (auto intro: start_entry_within)

section \<open>Draining a lane\<close>

lemma set_draining_core: "queue_core P s \<Longrightarrow> queue_core P (set_draining b lane s)"
  unfolding set_draining_def by (rule queue_core_put_same) (auto simp: queue_core_def lanes_ok_def)

lemma set_draining_lane [simp]:
  "lane_at L (set_draining b lane s) =
     (if L = lane then (lane_at lane s)\<lparr>ln_draining := b\<rparr> else lane_at L s)"
  by (simp add: set_draining_def)

lemma set_draining_fields [simp]:
  "cq_waiters (set_draining b lane s) = cq_waiters s" "cq_next_waiter (set_draining b lane s) = cq_next_waiter s"
  "cq_next_task (set_draining b lane s) = cq_next_task s"
  "cq_next_entry (set_draining b lane s) = cq_next_entry s" "cq_log (set_draining b lane s) = cq_log s"
  by (simp_all add: set_draining_def)

lemma drain_lane_core: "queue_core P s \<Longrightarrow> queue_core P (drain_lane lane now s)"
  by (simp add: drain_lane_def pump_finally_def set_draining_core pump_core)

lemma pump_finally_core: "queue_core P s \<Longrightarrow> queue_core P (pump_finally lane now s)"
  by (simp add: pump_finally_def set_draining_core pump_core)

lemma pump_finally_lane:
  "L \<noteq> lane \<Longrightarrow> lane_at L (pump_finally lane now s) = lane_at L s"
  "\<not> can_start (lane_at lane (pump_finally lane now s))"
  "\<not> ln_draining (lane_at lane (pump_finally lane now s))"
  using pump_stops [of lane now s] by (simp_all add: pump_finally_def pump_lane_frame can_start_def)

lemma drain_lane_lane:
  "L \<noteq> lane \<Longrightarrow> lane_at L (drain_lane lane now s) = lane_at L s"
  "\<not> ln_draining (lane_at lane s) \<Longrightarrow> \<not> can_start (lane_at lane (drain_lane lane now s))"
  "\<not> ln_draining (lane_at lane s) \<Longrightarrow> \<not> ln_draining (lane_at lane (drain_lane lane now s))"
  by (simp_all add: drain_lane_def pump_finally_lane)

lemma pump_finally_fields [simp]:
  "cq_waiters (pump_finally lane now s) = cq_waiters s" "cq_next_waiter (pump_finally lane now s) = cq_next_waiter s"
  "cq_next_entry (pump_finally lane now s) = cq_next_entry s"
  "settled_of (cq_log (pump_finally lane now s)) = settled_of (cq_log s)"
  by (simp_all add: pump_finally_def pump_lane_frame)

lemma drain_lane_fields [simp]:
  "cq_waiters (drain_lane lane now s) = cq_waiters s" "cq_next_waiter (drain_lane lane now s) = cq_next_waiter s"
  "cq_next_entry (drain_lane lane now s) = cq_next_entry s"
  "settled_of (cq_log (drain_lane lane now s)) = settled_of (cq_log s)"
  by (simp_all add: drain_lane_def)

lemma set_draining_active [simp]: "active_in L (set_draining b lane s) = active_in L s"
  by (simp add: active_in_def)

lemma pump_finally_active: "active_in L s \<subseteq> active_in L (pump_finally lane now s)"
  by (simp add: pump_finally_def pump_active)

lemma drain_lane_active: "active_in L s \<subseteq> active_in L (drain_lane lane now s)"
  using pump_finally_active [of L "set_draining True lane s"] by (simp add: drain_lane_def)

text \<open>No lane is left with work, a free slot and nobody to start it.\<close>

definition busy_ok :: "'v command_queue \<Rightarrow> bool" where
  "busy_ok s \<longleftrightarrow> (\<forall>L. \<not> can_start (lane_at L s) \<and> \<not> ln_draining (lane_at L s))"

lemma drain_lane_busy:
  "(\<And>L. L \<noteq> lane \<Longrightarrow> \<not> can_start (lane_at L s)) \<Longrightarrow> (\<And>L. \<not> ln_draining (lane_at L s)) \<Longrightarrow>
   busy_ok (drain_lane lane now s)"
  unfolding busy_ok_def by (metis drain_lane_lane)

lemma drain_lanes_busy:
  "(\<And>L. L \<notin> set ls \<Longrightarrow> \<not> can_start (lane_at L s)) \<Longrightarrow> (\<And>L. \<not> ln_draining (lane_at L s)) \<Longrightarrow>
   busy_ok (fold (\<lambda>l. drain_lane l now) ls s)"
proof (induction ls arbitrary: s)
  case (Cons l ls)
  have "\<not> can_start (lane_at L (drain_lane l now s))" if "L \<notin> set ls" for L
    using that Cons.prems by (cases "L = l") (simp_all add: drain_lane_lane)
  moreover have "\<not> ln_draining (lane_at L (drain_lane l now s))" for L
    using Cons.prems by (cases "L = l") (simp_all add: drain_lane_lane)
  ultimately show ?case by (simp add: Cons.IH)
qed (simp add: busy_ok_def)

lemma drain_lanes_core: "queue_core P s \<Longrightarrow> queue_core P (fold (\<lambda>l. drain_lane l now) ls s)"
  by (induction ls arbitrary: s) (simp_all add: drain_lane_core)

lemma drain_lanes_fields [simp]:
  "cq_waiters (fold (\<lambda>l. drain_lane l now) ls s) = cq_waiters s"
  "cq_next_waiter (fold (\<lambda>l. drain_lane l now) ls s) = cq_next_waiter s"
  by (induction ls arbitrary: s) simp_all

lemma drain_lane_within: "within L b s \<Longrightarrow> within L b (drain_lane lane now s)"
  using pump_within [of L b "set_draining True lane s" lane now]
  by (auto simp: drain_lane_def pump_finally_def within_def split: if_splits)

lemma drain_lanes_within: "within L b s \<Longrightarrow> within L b (fold (\<lambda>l. drain_lane l now) ls s)"
  by (induction ls arbitrary: s) (simp_all add: drain_lane_within)

section \<open>Waiters\<close>

text \<open>Notification resolves the waiters without a pending task and changes nothing else.\<close>

lemma has_pending_cong: "cq_lanes s = cq_lanes t \<Longrightarrow> has_pending ts s = has_pending ts t"
  by (simp add: has_pending_def)

lemma resolve_waiter_fields [simp]:
  "cq_lanes (resolve_waiter w b s) = cq_lanes s" "cq_running (resolve_waiter w b s) = cq_running s"
  "cq_next_entry (resolve_waiter w b s) = cq_next_entry s" "cq_next_task (resolve_waiter w b s) = cq_next_task s"
  "cq_next_waiter (resolve_waiter w b s) = cq_next_waiter s"
  "settled_of (cq_log (resolve_waiter w b s)) = settled_of (cq_log s)"
  "starts_of L (cq_log (resolve_waiter w b s)) = starts_of L (cq_log s)"
  "cq_waiters (resolve_waiter w b s) = filter (\<lambda>x. tw_id x \<noteq> w) (cq_waiters s)"
  by (auto simp: resolve_waiter_def list_ex_iff filter_id_conv)

lemma notify_waiter_fields [simp]:
  "cq_lanes (notify_waiter w s) = cq_lanes s" "cq_running (notify_waiter w s) = cq_running s"
  "cq_next_entry (notify_waiter w s) = cq_next_entry s" "cq_next_task (notify_waiter w s) = cq_next_task s"
  "cq_next_waiter (notify_waiter w s) = cq_next_waiter s"
  "settled_of (cq_log (notify_waiter w s)) = settled_of (cq_log s)"
  "starts_of L (cq_log (notify_waiter w s)) = starts_of L (cq_log s)"
  by (simp_all add: notify_waiter_def)

lemma notify_fold_fields:
  "cq_lanes (fold notify_waiter ws s) = cq_lanes s" "cq_running (fold notify_waiter ws s) = cq_running s"
  "cq_next_entry (fold notify_waiter ws s) = cq_next_entry s" "cq_next_task (fold notify_waiter ws s) = cq_next_task s"
  "cq_next_waiter (fold notify_waiter ws s) = cq_next_waiter s"
  "settled_of (cq_log (fold notify_waiter ws s)) = settled_of (cq_log s)"
  "starts_of L (cq_log (fold notify_waiter ws s)) = starts_of L (cq_log s)"
  by (induction ws arbitrary: s) simp_all

lemma notify_waiters_fields [simp]:
  "cq_lanes (notify_waiters s) = cq_lanes s" "cq_running (notify_waiters s) = cq_running s"
  "cq_next_entry (notify_waiters s) = cq_next_entry s" "cq_next_task (notify_waiters s) = cq_next_task s"
  "cq_next_waiter (notify_waiters s) = cq_next_waiter s"
  "settled_of (cq_log (notify_waiters s)) = settled_of (cq_log s)"
  "starts_of L (cq_log (notify_waiters s)) = starts_of L (cq_log s)"
  by (simp_all add: notify_waiters_def notify_fold_fields)

lemma notify_lane_state [simp]: "lane_at L (notify_waiters s) = lane_at L s"
  by (rule lane_state_lanes) simp

lemma notify_core: "queue_core P s \<Longrightarrow> queue_core P (notify_waiters s)"
  using queue_core_cong [of "notify_waiters s" s] by simp

lemma resolve_core: "queue_core P s \<Longrightarrow> queue_core P (resolve_waiter w b s)"
  using queue_core_cong [of "resolve_waiter w b s" s] by simp

text \<open>What a waiter waits for.\<close>

definition waits :: "'v command_queue \<Rightarrow> task_waiter \<Rightarrow> bool" where
  "waits s w \<longleftrightarrow> tw_tasks w \<noteq> [] \<and> has_pending (tw_tasks w) s"

lemma has_pending_active:
  assumes "lanes_ok s"
  shows "has_pending ts s \<longleftrightarrow> (\<exists>L. \<exists>t \<in> active_in L s. t \<in> set ts)"
proof -
  have k: "keys_ok (cq_lanes s)" using assms by (simp add: lanes_ok_def)
  show ?thesis
  proof
    assume "has_pending ts s"
    then obtain l st t where "(l, st) \<in> set (cq_lanes s)" "t \<in> set (ln_active st)" "t \<in> set ts"
      by (auto simp: has_pending_def list_ex_iff)
    then have "t \<in> active_in l s" using k by (simp add: active_in_def lane_at_def flip: keys_ok_map_of_mem)
    with \<open>t \<in> set ts\<close> show "\<exists>L. \<exists>t \<in> active_in L s. t \<in> set ts" by blast
  next
    assume "\<exists>L. \<exists>t \<in> active_in L s. t \<in> set ts"
    then obtain L t where t: "t \<in> active_in L s" "t \<in> set ts" by blast
    then obtain st where "map_of (cq_lanes s) L = Some st" "t \<in> set (ln_active st)"
      by (cases "map_of (cq_lanes s) L") (auto simp: active_in_def lane_at_def new_lane_def)
    with t show "has_pending ts s" by (force simp: has_pending_def list_ex_iff dest: map_of_SomeD)
  qed
qed

lemma notify_waiter_waiters [simp]:
  "cq_waiters (notify_waiter w s) = filter (\<lambda>x. tw_id w = tw_id x \<longrightarrow> waits s w) (cq_waiters s)"
  by (auto simp: notify_waiter_def waits_def intro: filter_cong)

lemma waits_notify [simp]: "waits (notify_waiter w s) x = waits s x"
  by (simp add: waits_def has_pending_def)

lemma notify_fold_waiters:
  "cq_waiters (fold notify_waiter ws s) = filter (\<lambda>x. \<forall>w \<in> set ws. tw_id w = tw_id x \<longrightarrow> waits s w) (cq_waiters s)"
  by (induction ws arbitrary: s) (auto intro: filter_cong)

lemma notify_waiters_waiters:
  "distinct (map tw_id (cq_waiters s)) \<Longrightarrow> cq_waiters (notify_waiters s) = filter (waits s) (cq_waiters s)"
  unfolding notify_waiters_def notify_fold_waiters
  by (rule filter_cong) (auto simp: distinct_map dest: inj_onD)

lemma notify_waiter_log:
  "WaiterDone i b \<in> set (cq_log (notify_waiter w s)) \<longleftrightarrow>
     WaiterDone i b \<in> set (cq_log s) \<or> (b \<and> tw_id w = i \<and> \<not> waits s w \<and> i \<in> tw_id ` set (cq_waiters s))"
  unfolding notify_waiter_def waits_def resolve_waiter_def list_ex_iff image_iff
  by (auto; metis)

lemma notify_fold_log:
  "WaiterDone i b \<in> set (cq_log (fold notify_waiter ws s)) \<longleftrightarrow>
     WaiterDone i b \<in> set (cq_log s) \<or> (b \<and> i \<in> tw_id ` set (cq_waiters s) \<and> (\<exists>w \<in> set ws. tw_id w = i \<and> \<not> waits s w))"
proof (induction ws arbitrary: s)
  case (Cons w ws)
  have "i \<in> tw_id ` set (cq_waiters (notify_waiter w s)) \<longleftrightarrow>
      i \<in> tw_id ` set (cq_waiters s) \<and> (tw_id w = i \<longrightarrow> waits s w)" by auto
  then show ?case unfolding fold_simps comp_apply Cons.IH notify_waiter_log waits_notify by auto
qed simp

definition wait_ok :: "'v command_queue \<Rightarrow> bool" where
  "wait_ok s \<longleftrightarrow> distinct (map tw_id (cq_waiters s)) \<and>
     (\<forall>w \<in> set (cq_waiters s). tw_id w < cq_next_waiter s \<and> waits s w)"

definition waiters_named :: "'v command_queue \<Rightarrow> bool" where
  "waiters_named s \<longleftrightarrow> distinct (map tw_id (cq_waiters s)) \<and> (\<forall>w \<in> set (cq_waiters s). tw_id w < cq_next_waiter s)"

lemma wait_ok_named: "wait_ok s \<Longrightarrow> waiters_named s"
  by (simp add: wait_ok_def waiters_named_def)

lemma waits_notified [simp]: "waits (notify_waiters s) x = waits s x"
  by (simp add: waits_def has_pending_def)

lemma notify_wait_ok: "waiters_named s \<Longrightarrow> wait_ok (notify_waiters s)"
  by (simp add: wait_ok_def waiters_named_def notify_waiters_waiters distinct_map_filter)

lemma wait_ok_grow:
  assumes "wait_ok s" "lanes_ok s" "lanes_ok t" "\<And>L. active_in L s \<subseteq> active_in L t"
    "cq_waiters t = cq_waiters s" "cq_next_waiter t = cq_next_waiter s"
  shows "wait_ok t"
  using assms has_pending_active [of s] has_pending_active [of t] unfolding wait_ok_def waits_def by auto blast

section \<open>Completion\<close>

lemma current_tasks_mem:
  "distinct (map rt_id rs) \<Longrightarrow> r \<in> set rs \<Longrightarrow> rt_id r \<in> current_tasks L g rs \<longleftrightarrow> rt_lane r = L \<and> rt_generation r = g"
  by (auto simp: current_tasks_def distinct_map dest: inj_onD)

lemma running_ids_remove:
  "distinct (map rt_id rs) \<Longrightarrow> r \<in> set rs \<Longrightarrow>
   running_ids rs = running_ids (filter (\<lambda>x. rt_id x \<noteq> rt_id r) rs) + {#qe_id (rt_entry r)#}"
proof (induction rs)
  case (Cons x rs)
  show ?case
  proof (cases "x = r")
    case True
    then have "filter (\<lambda>x. rt_id x \<noteq> rt_id r) rs = rs"
      using Cons.prems by (intro filter_True) (auto simp: image_iff)
    with True show ?thesis by (simp add: running_ids_def)
  next
    case False
    with Cons have "running_ids rs = running_ids (filter (\<lambda>x. rt_id x \<noteq> rt_id r) rs) + {#qe_id (rt_entry r)#}"
      "rt_id x \<noteq> rt_id r" by (auto simp: image_iff)
    then show ?thesis by (simp add: running_ids_def)
  qed
qed simp

text \<open>The state after the closure has left and \<open>completeTask\<close> has run.\<close>

definition task_removed :: "running_task \<Rightarrow> 'v command_queue \<Rightarrow> 'v command_queue" where
  "task_removed r s = snd (complete_task (rt_lane r) (rt_id r) (rt_generation r)
     (s\<lparr>cq_running := filter (\<lambda>x. rt_id x \<noteq> rt_id r) (cq_running s)\<rparr>))"

lemma task_removed_fields [simp]:
  "cq_running (task_removed r s) = filter (\<lambda>x. rt_id x \<noteq> rt_id r) (cq_running s)"
  "cq_next_task (task_removed r s) = cq_next_task s" "cq_next_entry (task_removed r s) = cq_next_entry s"
  "cq_log (task_removed r s) = cq_log s" "cq_waiters (task_removed r s) = cq_waiters s"
  "cq_next_waiter (task_removed r s) = cq_next_waiter s"
  by (simp_all add: task_removed_def complete_task_def Let_def)

lemma task_removed_lane:
  "lane_at L (task_removed r s) =
     (if L = rt_lane r \<and> rt_generation r = ln_generation (lane_at L s)
      then (lane_at L s)\<lparr>ln_active := set_del (rt_id r) (ln_active (lane_at L s))\<rparr> else lane_at L s)"
  by (simp add: task_removed_def complete_task_def Let_def)

lemma task_removed_core:
  assumes "queue_core P s" "r \<in> set (cq_running s)"
  shows "queue_core ({#qe_id (rt_entry r)#} + P) (task_removed r s)"
proof -
  have d: "distinct (map rt_id (cq_running s))" and t: "tasks_ok s"
    using assms(1) by (simp_all add: queue_core_def tasks_ok_def)
  let ?s0 = "s\<lparr>cq_running := filter (\<lambda>x. rt_id x \<noteq> rt_id r) (cq_running s)\<rparr>"
  have "entries_ok ({#qe_id (rt_entry r)#} + P) ?s0"
    using assms running_ids_remove [OF d assms(2)] by (simp add: queue_core_def entries_ok_def add_ac)
  then have e: "entries_ok ({#qe_id (rt_entry r)#} + P) (task_removed r s)"
    by (auto simp: task_removed_def complete_task_def Let_def intro: entries_put_same)
  have l0: "lanes_ok ?s0" and n: "\<And>L. ln_lane (lane_at L s) = L"
    using assms(1) lanes_ok_cong [of ?s0 s] by (simp_all add: queue_core_def lanes_ok_def)
  have l: "lanes_ok (task_removed r s)"
    using l0 n by (simp add: task_removed_def complete_task_def Let_def lanes_ok_put)
  have f: "fifo_ok (task_removed r s)"
    using assms(1) fifo_ok_cong [of "task_removed r s" s]
    by (simp add: queue_core_def arrivals_def queue_ids_def task_removed_lane)
  have "distinct (map rt_id (filter (\<lambda>x. rt_id x \<noteq> rt_id r) (cq_running s)))"
    using d by (simp add: distinct_map_filter)
  moreover have "set (ln_active (lane_at L (task_removed r s))) =
      current_tasks L (ln_generation (lane_at L (task_removed r s))) (cq_running (task_removed r s)) \<and>
      distinct (ln_active (lane_at L (task_removed r s)))" for L
    using t current_tasks_mem [OF d assms(2), of L "ln_generation (lane_at L s)"]
    by (auto simp: tasks_ok_def task_removed_lane current_tasks_remove js_simps js_intros)
  ultimately have "tasks_ok (task_removed r s)"
    using t by (auto simp: tasks_ok_def task_removed_lane)
  with e l f show ?thesis by (simp add: queue_core_def)
qed

lemma finish_task_eq:
  "finish_task r outcome now s = observe (Settled (qe_id (rt_entry r)) outcome)
     (if rt_generation r = ln_generation (lane_at (rt_lane r) s)
      then pump_finally (rt_lane r) now (notify_waiters (task_removed r s)) else task_removed r s)"
  by (simp add: finish_task_def task_removed_def complete_task_def Let_def split_beta)

lemma finish_task_core:
  assumes "queue_core {#} s" "r \<in> set (cq_running s)"
  shows "queue_core {#} (finish_task r outcome now s)"
  unfolding finish_task_eq
  by (rule queue_core_settle) (use task_removed_core [OF assms] in \<open>simp add: pump_finally_core notify_core\<close>)

lemma busy_ok_cong: "(\<And>L. lane_at L s = lane_at L t) \<Longrightarrow> busy_ok s = busy_ok t"
  by (simp add: busy_ok_def)

lemma pump_finally_busy:
  "(\<And>L. L \<noteq> lane \<Longrightarrow> \<not> can_start (lane_at L s) \<and> \<not> ln_draining (lane_at L s)) \<Longrightarrow> busy_ok (pump_finally lane now s)"
  unfolding busy_ok_def by (metis pump_finally_lane)

lemma finish_task_busy: assumes "busy_ok s" shows "busy_ok (finish_task r outcome now s)"
proof (cases "rt_generation r = ln_generation (lane_at (rt_lane r) s)")
  case True
  have "busy_ok (pump_finally (rt_lane r) now (notify_waiters (task_removed r s)))"
    using assms by (intro pump_finally_busy) (simp add: busy_ok_def task_removed_lane)
  with True show ?thesis by (simp add: finish_task_eq busy_ok_def)
next
  case False
  then have "lane_at L (task_removed r s) = lane_at L s" for L by (auto simp: task_removed_lane)
  with assms False show ?thesis by (simp add: finish_task_eq busy_ok_def)
qed

lemma wait_ok_observe [simp]: "wait_ok (observe x s) = wait_ok s"
  by (simp add: wait_ok_def waits_def has_pending_def)

lemma finish_task_wait:
  assumes "wait_ok s" "queue_core {#} s" "r \<in> set (cq_running s)"
  shows "wait_ok (finish_task r outcome now s)"
proof -
  let ?u = "task_removed r s"
  have l: "lanes_ok s" "lanes_ok ?u" using assms(2) task_removed_core [OF assms(2,3)] unfolding queue_core_def by blast+
  show ?thesis
  proof (cases "rt_generation r = ln_generation (lane_at (rt_lane r) s)")
    case True
    have n: "wait_ok (notify_waiters ?u)" using assms(1) by (intro notify_wait_ok) (simp add: wait_ok_def waiters_named_def)
    have "queue_core ({#qe_id (rt_entry r)#} + {#}) (notify_waiters ?u)" using task_removed_core [OF assms(2,3)] by (rule notify_core)
    then have k: "lanes_ok (notify_waiters ?u)" "lanes_ok (pump_finally (rt_lane r) now (notify_waiters ?u))"
      using pump_finally_core unfolding queue_core_def by blast+
    have "wait_ok (pump_finally (rt_lane r) now (notify_waiters ?u))"
      by (rule wait_ok_grow [OF n k pump_finally_active]) simp_all
    with True show ?thesis by (simp add: finish_task_eq)
  next
    case False
    have "active_in L s \<subseteq> active_in L ?u" for L using False by (auto simp: active_in_def task_removed_lane)
    then have "wait_ok ?u" by (rule wait_ok_grow [OF assms(1) l]) simp_all
    with False show ?thesis by (simp add: finish_task_eq)
  qed
qed

section \<open>Every operation\<close>

definition queue_ok :: "'v command_queue \<Rightarrow> bool" where
  "queue_ok s \<longleftrightarrow> queue_core {#} s \<and> busy_ok s \<and> wait_ok s"

lemma find_running_mem: "find_running t s = Some r \<Longrightarrow> r \<in> set (cq_running s) \<and> rt_id r = t"
  unfolding find_running_def by (drule list_find_mem) simp

lemma finish_task_ok: "queue_ok s \<Longrightarrow> r \<in> set (cq_running s) \<Longrightarrow> queue_ok (finish_task r outcome now s)"
  by (simp add: queue_ok_def finish_task_core finish_task_busy finish_task_wait)

lemma task_settles_ok: "queue_ok s \<Longrightarrow> queue_ok (task_settles t outcome now s)"
  by (auto simp: task_settles_def finish_task_ok dest!: find_running_mem split: option.split)

lemma timeout_fires_ok: "queue_ok s \<Longrightarrow> queue_ok (timeout_fires t now s)"
  by (auto simp: timeout_fires_def finish_task_ok dest!: find_running_mem split: option.split)

lemma queue_ok_parts:
  "queue_ok s \<Longrightarrow> lanes_ok s" "queue_ok s \<Longrightarrow> tasks_ok s" "queue_ok s \<Longrightarrow> entries_ok {#} s" "queue_ok s \<Longrightarrow> fifo_ok s"
  "queue_ok s \<Longrightarrow> \<not> can_start (lane_at L s)" "queue_ok s \<Longrightarrow> \<not> ln_draining (lane_at L s)" "queue_ok s \<Longrightarrow> wait_ok s"
  "queue_ok s \<Longrightarrow> ln_lane (lane_at L s) = L"
  by (simp_all add: queue_ok_def queue_core_def busy_ok_def lanes_ok_def)

text \<open>A lane that an operation rewrote is drained: enough for the whole invariant.\<close>

lemma drain_ok:
  assumes "queue_core {#} s" "\<And>L. L \<noteq> lane \<Longrightarrow> \<not> can_start (lane_at L s)" "\<And>L. \<not> ln_draining (lane_at L s)" "wait_ok s"
  shows "queue_ok (drain_lane lane now s)"
proof -
  have "lanes_ok s" "lanes_ok (drain_lane lane now s)"
    using assms(1) drain_lane_core [OF assms(1), of lane now] unfolding queue_core_def by blast+
  then have "wait_ok (drain_lane lane now s)"
    by (rule wait_ok_grow [OF assms(4) _ _ drain_lane_active]) simp_all
  with assms show ?thesis by (simp add: queue_ok_def drain_lane_core drain_lane_busy)
qed

lemma wait_ok_put:
  "wait_ok s \<Longrightarrow> lanes_ok s \<Longrightarrow> ln_lane st = lane \<Longrightarrow> ln_active st = ln_active (lane_at lane s) \<Longrightarrow> wait_ok (put_lane lane st s)"
  by (rule wait_ok_grow [of s]) (auto simp: lanes_ok_put active_in_def)

lemma set_concurrency_ok: assumes "queue_ok s" shows "queue_ok (set_concurrency lane n now s)"
proof -
  let ?l = "normalize_lane lane"
  define st where "st = (lane_at ?l s)\<lparr>ln_max := max (if is_probe_lane ?l then 1 else 0) n\<rparr>"
  note p = queue_ok_parts [OF assms]
  have c: "queue_core {#} (put_lane ?l st s)"
    using assms p by (intro queue_core_put_same) (simp_all add: st_def queue_ok_def)
  have w: "wait_ok (put_lane ?l st s)" using p by (intro wait_ok_put) (simp_all add: st_def)
  have d: "\<not> ln_draining (lane_at L (put_lane ?l st s))" for L using p by (simp add: st_def)
  have "queue_ok (drain_lane ?l now (put_lane ?l st s))" using c w d p by (intro drain_ok) simp_all
  moreover have "queue_ok (put_lane ?l st s)" if "\<not> 0 < ln_max st"
    using that c w d p by (auto simp: queue_ok_def busy_ok_def can_start_def)
  moreover have "set_concurrency lane n now s =
      (if 0 < ln_max st then drain_lane ?l now (put_lane ?l st s) else put_lane ?l st s)"
    by (simp add: set_concurrency_def Let_def st_def)
  ultimately show ?thesis by simp
qed

lemma enqueue_core:
  assumes "queue_ok s"
  defines "i \<equiv> cq_next_entry s"
  shows "queue_core {#i#} (s\<lparr>cq_next_entry := Suc i\<rparr>)"
proof -
  have "fifo_ok (s\<lparr>cq_next_entry := Suc i\<rparr>)"
    using queue_ok_parts(4) [OF assms(1)] by (auto simp: fifo_ok_def arrivals_def i_def less_Suc_eq)
  moreover have "entries_ok {#i#} (s\<lparr>cq_next_entry := Suc i\<rparr>)"
    using queue_ok_parts(3) [OF assms(1)] by (simp add: entries_ok_def i_def)
  ultimately show ?thesis
    using queue_ok_parts(1,2) [OF assms(1)] lanes_ok_cong [of "s\<lparr>cq_next_entry := Suc i\<rparr>" s]
      tasks_ok_cong [of "s\<lparr>cq_next_entry := Suc i\<rparr>" s]
    by (simp add: queue_core_def)
qed

lemma arrivals_less: "fifo_ok s \<Longrightarrow> i \<in> set (arrivals L s) \<Longrightarrow> i < cq_next_entry s"
  by (simp add: fifo_ok_def)

lemma enqueue_ok: assumes ok: "queue_ok s" shows "queue_ok (snd (enqueue_in_lane lane opts now s))"
proof (cases "cq_gateway_draining s")
  case True
  let ?i = "cq_next_entry s" and ?s0 = "s\<lparr>cq_next_entry := Suc (cq_next_entry s)\<rparr>"
  have "queue_core {#} (observe (Settled ?i (Rejected gateway_draining_error)) ?s0)"
    using enqueue_core [OF ok] by (intro queue_core_settle) simp
  with True queue_ok_parts [OF ok] show ?thesis
    by (simp add: enqueue_in_lane_def Let_def queue_ok_def busy_ok_def wait_ok_def waits_def has_pending_def)
next
  case False
  let ?i = "cq_next_entry s" and ?l = "normalize_lane lane"
  define s0 where "s0 = s\<lparr>cq_next_entry := Suc ?i\<rparr>"
  define st where "st = (lane_at ?l s0)\<lparr>ln_queue := ln_queue (lane_at ?l s0) @ [new_entry ?i opts now]\<rparr>"
  note p = queue_ok_parts [OF ok]
  have c0: "queue_core {#?i#} s0" using enqueue_core [OF ok] by (simp add: s0_def)
  have ids: "queue_ids st = queue_ids (lane_at ?l s0) @ [?i]" by (simp add: st_def queue_ids_def new_entry_def)
  have "arrivals L (put_lane ?l st s0) = arrivals L s @ (if L = ?l then [?i] else [])" for L
    by (simp add: arrivals_def ids s0_def)
  then have "fifo_ok (put_lane ?l st s0)"
    using p(4) by (auto simp: fifo_ok_def s0_def sorted_wrt_append less_Suc_eq)
  moreover have "tasks_ok (put_lane ?l st s0)" using c0 by (auto simp: queue_core_def tasks_ok_def st_def)
  moreover have "lanes_ok (put_lane ?l st s0)" using c0 p by (intro lanes_ok_put) (simp_all add: queue_core_def st_def s0_def)
  moreover have "entries_ok {#} (put_lane ?l st s0)" using c0 ids by (intro entries_put [where P = "{#?i#}"]) (simp_all add: queue_core_def)
  ultimately have "queue_core {#} (put_lane ?l st s0)" by (simp add: queue_core_def)
  moreover have "wait_ok s0" using p(7) by (simp add: s0_def wait_ok_def waits_def has_pending_def)
  then have "wait_ok (put_lane ?l st s0)" using c0 p by (intro wait_ok_put) (simp_all add: queue_core_def st_def s0_def)
  ultimately have "queue_ok (drain_lane ?l now (put_lane ?l st s0))" using p by (intro drain_ok) (simp_all add: s0_def st_def)
  with False show ?thesis by (simp add: enqueue_in_lane_def Let_def s0_def st_def)
qed

lemma notify_ok: "queue_core {#} s \<Longrightarrow> busy_ok s \<Longrightarrow> waiters_named s \<Longrightarrow> queue_ok (notify_waiters s)"
  by (simp add: queue_ok_def notify_core notify_wait_ok busy_ok_def)

lemma settle_all_fields:
  "cq_lanes (fold (\<lambda>e. observe (Settled (qe_id e) r)) es s) = cq_lanes s"
  "cq_waiters (fold (\<lambda>e. observe (Settled (qe_id e) r)) es s) = cq_waiters s"
  "cq_next_waiter (fold (\<lambda>e. observe (Settled (qe_id e) r)) es s) = cq_next_waiter s"
  by (induction es arbitrary: s) simp_all

lemma wait_ok_cong:
  "cq_lanes s = cq_lanes t \<Longrightarrow> cq_waiters s = cq_waiters t \<Longrightarrow> cq_next_waiter s = cq_next_waiter t \<Longrightarrow> wait_ok s = wait_ok t"
  by (simp add: wait_ok_def waits_def has_pending_def)

lemma clear_lane_ok: assumes ok: "queue_ok s" shows "queue_ok (snd (clear_lane lane s))"
proof (cases "map_of (cq_lanes s) (normalize_lane lane)")
  case (Some st)
  let ?l = "normalize_lane lane"
  define t where "t = put_lane ?l (st\<lparr>ln_queue := []\<rparr>) s"
  define u where "u = fold (\<lambda>e. observe (Settled (qe_id e) (Rejected (lane_cleared_error (Some ?l))))) (ln_queue st) t"
  note p = queue_ok_parts [OF ok]
  have st: "lane_at ?l s = st" using Some by (simp add: lane_at_def)
  have tl: "lane_at L t = (if L = ?l then st\<lparr>ln_queue := []\<rparr> else lane_at L s)" for L by (simp add: t_def)
  have "entries_ok (mset (map qe_id (ln_queue st))) t"
    unfolding t_def using p(3) st by (intro entries_put [where P = "{#}"]) (simp_all add: queue_ids_def)
  moreover have "lanes_ok t" unfolding t_def using p(1) p(8) [of ?l] st by (intro lanes_ok_put) simp_all
  moreover have "tasks_ok t" using p(2) st by (auto simp: tasks_ok_def t_def)
  moreover have "fifo_ok t" using p(4) by (auto simp: fifo_ok_def arrivals_def tl queue_ids_def sorted_wrt_append) (auto simp: t_def)
  ultimately have "queue_core (mset (map qe_id (ln_queue st)) + {#}) t" by (simp add: queue_core_def)
  then have "queue_core {#} u" unfolding u_def by (rule queue_core_settle_all)
  moreover have "lane_at L u = lane_at L t" for L
    by (rule lane_state_lanes) (simp add: u_def settle_all_fields)
  then have "busy_ok u" using p(5,6) p(6) [of ?l] st by (simp add: busy_ok_def tl can_start_def)
  moreover have "wait_ok t" unfolding t_def using p p(8) [of ?l] st by (intro wait_ok_put) simp_all
  then have "wait_ok u" using wait_ok_cong [of u t] by (simp add: u_def settle_all_fields)
  ultimately have "queue_ok u" by (simp add: queue_ok_def)
  then show ?thesis using Some by (simp add: clear_lane_def Let_def t_def u_def)
qed (use ok in \<open>simp add: clear_lane_def\<close>)

lemma idle_lane_simps [simp]:
  "ln_queue (idle_lane st) = ln_queue st" "ln_active (idle_lane st) = []" "ln_draining (idle_lane st) = False"
  "ln_lane (idle_lane st) = ln_lane st" "ln_max (idle_lane st) = ln_max st"
  "ln_generation (idle_lane st) = Suc (ln_generation st)"
  by (simp_all add: idle_lane_def)

lemma current_tasks_new:
  "tasks_ok s \<Longrightarrow> current_tasks L (Suc (ln_generation (lane_at L s))) (cq_running s) = {}"
  by (auto simp: tasks_ok_def current_tasks_def)

lemma reset_lane_ok: assumes ok: "queue_ok s" shows "queue_ok (snd (reset_lane lane now s))"
proof (cases "map_of (cq_lanes s) (normalize_lane lane)")
  case (Some st)
  let ?l = "normalize_lane lane"
  define t where "t = put_lane ?l (idle_lane st) s"
  define u where "u = (if ln_queue st \<noteq> [] then drain_lane ?l now t else t)"
  note p = queue_ok_parts [OF ok]
  have st: "lane_at ?l s = st" using Some by (simp add: lane_at_def)
  have tl: "lane_at L t = (if L = ?l then idle_lane st else lane_at L s)" for L by (simp add: t_def)
  have "entries_ok {#} t" unfolding t_def using p(3) st by (intro entries_put_same) simp_all
  moreover have "lanes_ok t" unfolding t_def using p(1) p(8) [of ?l] st by (intro lanes_ok_put) simp_all
  moreover have "tasks_ok t"
    using p(2) current_tasks_new [OF p(2), of ?l] st by (auto simp: tasks_ok_def t_def intro: le_SucI)
  moreover have "fifo_ok t"
    using p(4) st fifo_ok_cong [of t s] by (simp add: arrivals_def tl queue_ids_def) (simp add: t_def)
  ultimately have c: "queue_core {#} t" by (simp add: queue_core_def)
  then have "queue_core {#} u" by (simp add: u_def drain_lane_core)
  moreover have "busy_ok u"
  proof (cases "ln_queue st = []")
    case True
    with p(5,6) show ?thesis by (simp add: u_def busy_ok_def tl can_start_def)
  next
    case False
    have "busy_ok (drain_lane ?l now t)" by (rule drain_lane_busy) (use p(5,6) in \<open>simp_all add: tl\<close>)
    with False show ?thesis by (simp add: u_def)
  qed
  moreover have "waiters_named u" using wait_ok_named [OF p(7)] by (simp add: u_def t_def waiters_named_def)
  ultimately have "queue_ok (notify_waiters u)" by (rule notify_ok)
  then show ?thesis using Some by (simp add: reset_lane_def Let_def flip: t_def u_def)
qed (use ok in \<open>simp add: reset_lane_def\<close>)

lemma queued_map_idle: "queued (map (\<lambda>(l, st). (l, idle_lane st)) lanes) = queued lanes"
  by (auto simp: queued_def queue_ids_def intro!: arg_cong [of _ _ "\<lambda>x. mset (concat x)"])

lemma map_of_idle: "map_of (map (\<lambda>(l, st). (l, idle_lane st)) lanes) L = map_option idle_lane (map_of lanes L)"
  by (induction lanes) auto

lemma idle_all_lane_state:
  "lane_at L (s\<lparr>cq_gateway_draining := False, cq_lanes := map (\<lambda>(l, st). (l, idle_lane st)) (cq_lanes s)\<rparr>) =
     (if L \<in> fst ` set (cq_lanes s) then idle_lane (lane_at L s) else lane_at L s)"
proof (cases "map_of (cq_lanes s) L")
  case None
  then have "L \<notin> fst ` set (cq_lanes s)" by (simp add: map_of_eq_None_iff)
  with None show ?thesis by (simp add: lane_at_def map_of_idle)
next
  case (Some st)
  then have "L \<in> fst ` set (cq_lanes s)" by (force dest: map_of_SomeD)
  with Some show ?thesis by (simp add: lane_at_def map_of_idle)
qed

lemma reset_all_ok: assumes ok: "queue_ok s" shows "queue_ok (reset_all_lanes now s)"
proof -
  define t where "t = s\<lparr>cq_gateway_draining := False, cq_lanes := map (\<lambda>(l, st). (l, idle_lane st)) (cq_lanes s)\<rparr>"
  define ls where "ls = map (\<lambda>(l, st). ln_lane st) (filter (\<lambda>(l, st). ln_queue st \<noteq> []) (cq_lanes s))"
  note p = queue_ok_parts [OF ok]
  have tl: "lane_at L t = (if L \<in> fst ` set (cq_lanes s) then idle_lane (lane_at L s) else lane_at L s)" for L
    by (simp add: t_def idle_all_lane_state)
  have "keys_ok (cq_lanes t)"
    using p(1) by (simp add: lanes_ok_def keys_ok_def t_def comp_def split_def)
  then have "lanes_ok t" using p(8) by (simp add: lanes_ok_def tl)
  moreover have "entries_ok {#} t" using p(3) by (simp add: entries_ok_def t_def queued_map_idle)
  moreover have "tasks_ok t"
    using p(2) current_tasks_new [OF p(2)] unfolding tasks_ok_def tl by (auto simp: t_def intro: le_SucI)
  moreover have "fifo_ok t"
    using p(4) fifo_ok_cong [of t s] by (simp add: arrivals_def tl queue_ids_def) (simp add: t_def)
  ultimately have "queue_core {#} t" by (simp add: queue_core_def)
  then have "queue_core {#} (fold (\<lambda>l. drain_lane l now) ls t)" by (rule drain_lanes_core)
  moreover have "\<not> can_start (lane_at L t)" if "L \<notin> set ls" for L
  proof (cases "map_of (cq_lanes s) L")
    case None
    then show ?thesis using p(5) [of L] by (simp add: tl map_of_eq_None_iff)
  next
    case (Some st)
    then have "(L, st) \<in> set (cq_lanes s)" "ln_lane st = L" using p(8) [of L] by (auto simp: lane_at_def dest: map_of_SomeD)
    with that have "ln_queue st = []" by (force simp: ls_def)
    moreover have "lane_at L s = st" using Some by (simp add: lane_at_def)
    ultimately show ?thesis by (simp add: tl can_start_def)
  qed
  then have "busy_ok (fold (\<lambda>l. drain_lane l now) ls t)" using p(6) by (intro drain_lanes_busy) (simp_all add: tl)
  moreover have "waiters_named (fold (\<lambda>l. drain_lane l now) ls t)"
    using wait_ok_named [OF p(7)] by (simp add: waiters_named_def t_def)
  ultimately show ?thesis by (simp add: reset_all_lanes_def Let_def notify_ok flip: t_def ls_def)
qed

lemma mark_draining_ok: "queue_ok s \<Longrightarrow> queue_ok (mark_gateway_draining s)"
  using queue_core_cong [of "mark_gateway_draining s" s "{#}"] wait_ok_cong [of "mark_gateway_draining s" s]
    lane_state_lanes [of "mark_gateway_draining s" s]
  by (simp add: queue_ok_def busy_ok_def mark_gateway_draining_def)

lemma active_tasks_mem: assumes "lanes_ok s" shows "t \<in> set (active_tasks s) \<longleftrightarrow> (\<exists>L. t \<in> active_in L s)"
proof -
  have "t \<in> set (active_tasks s) \<longleftrightarrow> has_pending [t] s" by (auto simp: active_tasks_def has_pending_def list_ex_iff)
  with has_pending_active [OF assms, of "[t]"] show ?thesis by auto
qed

lemma wait_for_active_ok: assumes ok: "queue_ok s" shows "queue_ok (snd (wait_for_active limit s))"
proof -
  let ?w = "\<lparr>tw_id = cq_next_waiter s, tw_tasks = dedup (active_tasks s), tw_timed = (limit \<noteq> None)\<rparr>"
  define t where "t = s\<lparr>cq_next_waiter := Suc (cq_next_waiter s), cq_waiters := cq_waiters s @ [?w]\<rparr>"
  note p = queue_ok_parts [OF ok]
  have "queue_core {#} t" using ok queue_core_cong [of t s "{#}"] by (simp add: queue_ok_def t_def)
  moreover have "busy_ok t" using p(5,6) by (simp add: busy_ok_def t_def)
  moreover have "waiters_named t"
    using wait_ok_named [OF p(7)] by (auto simp: waiters_named_def t_def less_Suc_eq)
  ultimately have "queue_ok (notify_waiters t)" by (rule notify_ok)
  with ok show ?thesis by (auto simp: wait_for_active_def Let_def t_def)
qed

lemma waiter_timeout_ok: assumes "queue_ok s" shows "queue_ok (waiter_timeout w s)"
proof -
  have "wait_ok (resolve_waiter w False s)"
    using queue_ok_parts(7) [OF assms] by (auto simp: wait_ok_def waits_def has_pending_def distinct_map_filter)
  then have "queue_ok (resolve_waiter w False s)"
    using assms lane_state_lanes [of "resolve_waiter w False s" s] by (simp add: queue_ok_def resolve_core busy_ok_def)
  with assms show ?thesis by (simp add: waiter_timeout_def)
qed

lemma empty_queue_ok: "queue_ok empty_queue"
  by (simp add: queue_ok_def queue_core_def empty_queue_def lanes_ok_def tasks_ok_def entries_ok_def fifo_ok_def busy_ok_def
      wait_ok_def lane_at_def new_lane_def can_start_def arrivals_def queue_ids_def queued_def running_ids_def current_tasks_def)

lemma queue_exec_ok: "queue_ok s \<Longrightarrow> queue_ok (queue_exec e s)"
  by (cases e) (simp_all add: enqueue_ok task_settles_ok timeout_fires_ok set_concurrency_ok clear_lane_ok reset_lane_ok
      reset_all_ok mark_draining_ok wait_for_active_ok waiter_timeout_ok)

lemma reachable_ok: "queue_reachable s \<Longrightarrow> queue_ok s"
  by (induction rule: queue_reachable.induct) (auto intro: empty_queue_ok queue_exec_ok)

end
