(* ===== verification/QueueProps.thy ===== *)
theory QueueProps
  imports QueueInvariants
begin

text \<open>
  What the command queue promises its callers: every accepted command is settled at most once
  and never lost, a lane runs its commands in order and within its limit, it never idles with
  work to do, and whoever waits for the active tasks is woken exactly when they are done.
\<close>

section \<open>Bounds of a lane\<close>

lemma finish_task_max: "ln_max (lane_at L (finish_task r outcome now s)) = ln_max (lane_at L s)"
  by (simp add: finish_task_eq pump_finally_def pump_lane_frame task_removed_lane)

lemma pump_finally_max [simp]: "ln_max (lane_at L (pump_finally lane now s)) = ln_max (lane_at L s)"
  by (simp add: pump_finally_def pump_lane_frame)

lemma drain_lane_max [simp]: "ln_max (lane_at L (drain_lane lane now s)) = ln_max (lane_at L s)"
  by (simp add: drain_lane_def)

lemma drain_lanes_max [simp]: "ln_max (lane_at L (fold (\<lambda>l. drain_lane l now) ls s)) = ln_max (lane_at L s)"
  by (induction ls arbitrary: s) simp_all

lemma pump_finally_within: "within L b s \<Longrightarrow> within L b (pump_finally lane now s)"
  using pump_within [of L b s lane now] by (auto simp: pump_finally_def within_def)

lemma within_notify [simp]: "within L b (notify_waiters s) = within L b s"
  by (simp add: within_def)

lemma length_set_del: "length (set_del x s) \<le> length s"
  by (simp add: set_del_def)

lemma finish_task_within: assumes "within L b s" shows "within L b (finish_task r outcome now s)"
proof -
  have "within L b (task_removed r s)"
    using assms length_set_del [of "rt_id r" "ln_active (lane_at L s)"] by (auto simp: within_def task_removed_lane)
  then show ?thesis
    using pump_finally_within [of L b "notify_waiters (task_removed r s)"] by (simp add: finish_task_eq within_def)
qed

lemma settle_all_lane_state [simp]:
  "lane_at L (fold (\<lambda>e. observe (Settled (qe_id e) r)) es s) = lane_at L s"
  by (rule lane_state_lanes) (rule settle_all_fields)

lemma resolve_lane_state [simp]: "lane_at L (resolve_waiter w b s) = lane_at L s"
  by (rule lane_state_lanes) simp

lemma within_resolve [simp]: "within L b (resolve_waiter w d s) = within L b s"
  by (simp add: within_def)

lemma lane_state_some: "map_of (cq_lanes s) l = Some st \<Longrightarrow> lane_at l s = st"
  by (simp add: lane_at_def)

text \<open>Every event but a change of the limit keeps a bound on a lane's tasks and limit.\<close>

lemma exec_within:
  assumes "within L b s" "\<nexists>lane n now. e = SetConcurrency lane n now"
  shows "within L b (queue_exec e s)"
proof (cases e)
  case (Enqueue lane opts now)
  then show ?thesis using assms(1)
    by (auto simp: enqueue_in_lane_def Let_def intro!: drain_lane_within) (auto simp: within_def)
next
  case (ResetAll now)
  have "within L b (s\<lparr>cq_gateway_draining := False, cq_lanes := map (\<lambda>(l, st). (l, idle_lane st)) (cq_lanes s)\<rparr>)"
    using assms(1) by (auto simp: within_def idle_all_lane_state)
  with ResetAll show ?thesis by (simp add: reset_all_lanes_def Let_def drain_lanes_within)
next
  case (ResetLane lane now)
  then show ?thesis using assms(1)
    by (auto simp: reset_lane_def Let_def split: option.split dest!: lane_state_some intro!: drain_lane_within)
       (auto simp: within_def)
next
  case (ClearLane lane)
  then show ?thesis using assms(1)
    by (auto simp: clear_lane_def Let_def within_def split: option.split dest!: lane_state_some)
next
  case MarkDraining
  then show ?thesis using assms(1) by (simp add: mark_gateway_draining_def within_def)
next
  case (WaitActive limit)
  then show ?thesis using assms(1) by (simp add: wait_for_active_def Let_def within_def)
qed (use assms in \<open>auto simp: task_settles_def timeout_fires_def finish_task_within waiter_timeout_def split: option.split\<close>)

lemma exec_max:
  assumes "\<nexists>lane n now. e = SetConcurrency lane n now"
  shows "ln_max (lane_at L (queue_exec e s)) = ln_max (lane_at L s)"
proof (cases e)
  case (ResetAll now)
  then show ?thesis by (simp add: reset_all_lanes_def Let_def idle_all_lane_state)
next
  case (ResetLane lane now)
  then show ?thesis by (auto simp: reset_lane_def Let_def split: option.split dest!: lane_state_some)
next
  case (ClearLane lane)
  then show ?thesis by (auto simp: clear_lane_def Let_def split: option.split dest!: lane_state_some)
qed (use assms in \<open>auto simp: enqueue_in_lane_def Let_def task_settles_def timeout_fires_def finish_task_max
      mark_gateway_draining_def wait_for_active_def waiter_timeout_def split: option.split\<close>)

lemma set_concurrency_bound:
  assumes "int (length (ln_active (lane_at L s))) \<le> b" "ln_max (lane_at L (set_concurrency lane n now s)) \<le> b"
  shows "int (length (ln_active (lane_at L (set_concurrency lane n now s)))) \<le> b"
proof -
  let ?l = "normalize_lane lane"
  let ?t = "put_lane ?l ((lane_at ?l s)\<lparr>ln_max := max (if is_probe_lane ?l then 1 else 0) n\<rparr>) s"
  have e: "set_concurrency lane n now s = (if 0 < ln_max (lane_at ?l ?t) then drain_lane ?l now ?t else ?t)"
    by (simp add: set_concurrency_def Let_def)
  have "ln_max (lane_at L ?t) \<le> b" using assms(2) unfolding e by (simp split: if_splits)
  then have "within L b ?t" using assms(1) by (auto simp: within_def)
  then show ?thesis unfolding e using drain_lane_within [of L b ?t ?l now] by (auto simp: within_def)
qed

lemma exec_bound:
  "int (length (ln_active (lane_at L (queue_exec e s)))) \<le>
     max (int (length (ln_active (lane_at L s)))) (ln_max (lane_at L (queue_exec e s)))" (is "_ \<le> ?b")
proof (cases "\<exists>lane n now. e = SetConcurrency lane n now")
  case True
  then show ?thesis by (auto intro!: set_concurrency_bound simp del: of_nat_le_iff)
next
  case False
  then have "within L ?b s" by (simp add: within_def exec_max)
  then have "within L ?b (queue_exec e s)" using False by (rule exec_within)
  then show ?thesis by (simp add: within_def)
qed

section \<open>Waiters\<close>

text \<open>Task numbers only grow, and a waiter waits for tasks that have started.\<close>

lemma pump_next_task: "cq_next_task s \<le> cq_next_task (pump lane now s)"
  by (rule pump_invariant [where Q = "\<lambda>t. cq_next_task s \<le> cq_next_task t"]) (auto simp: start_entry_fields)

lemma pump_finally_next_task: "cq_next_task s \<le> cq_next_task (pump_finally lane now s)"
  using pump_next_task [of s lane now] by (simp add: pump_finally_def set_draining_def)

lemma drain_lane_next_task: "cq_next_task s \<le> cq_next_task (drain_lane lane now s)"
  using pump_finally_next_task [of "set_draining True lane s"] by (simp add: drain_lane_def set_draining_def)

lemma drain_lanes_next_task: "cq_next_task s \<le> cq_next_task (fold (\<lambda>l. drain_lane l now) ls s)"
proof (induction ls arbitrary: s)
  case (Cons l ls)
  show ?case using drain_lane_next_task [of s l now] Cons.IH [of "drain_lane l now s"] by simp
qed simp

lemma settle_all_next_task [simp]: "cq_next_task (fold (\<lambda>e. observe (Settled (qe_id e) r)) es s) = cq_next_task s"
  by (induction es arbitrary: s) simp_all

lemma finish_task_next_task: "cq_next_task s \<le> cq_next_task (finish_task r outcome now s)"
  using pump_finally_next_task [of "notify_waiters (task_removed r s)" "rt_lane r" now] by (simp add: finish_task_eq)

lemma exec_next_task: "cq_next_task s \<le> cq_next_task (queue_exec e s)"
proof (cases e)
  case (Enqueue lane opts now)
  then show ?thesis by (auto simp: enqueue_in_lane_def Let_def intro: order_trans [OF _ drain_lane_next_task])
next
  case (SetConcurrency lane n now)
  then show ?thesis by (auto simp: set_concurrency_def Let_def intro: order_trans [OF _ drain_lane_next_task])
next
  case (ResetLane lane now)
  then show ?thesis
    by (auto simp: reset_lane_def Let_def split: option.split intro: order_trans [OF _ drain_lane_next_task])
next
  case (ResetAll now)
  then show ?thesis by (auto simp: reset_all_lanes_def Let_def intro: order_trans [OF _ drain_lanes_next_task])
qed (auto simp: task_settles_def timeout_fires_def finish_task_next_task clear_lane_def Let_def mark_gateway_draining_def
      wait_for_active_def waiter_timeout_def split: option.split)

definition tasks_started :: "'v command_queue \<Rightarrow> bool" where
  "tasks_started s \<longleftrightarrow> (\<forall>w \<in> set (cq_waiters s). \<forall>t \<in> set (tw_tasks w). t < cq_next_task s)"

lemma notify_waiters_subset: "set (cq_waiters (notify_waiters s)) \<subseteq> set (cq_waiters s)"
  by (auto simp: notify_waiters_def notify_fold_waiters)

lemma exec_waiters:
  "set (cq_waiters (queue_exec e s)) \<subseteq> set (cq_waiters s) \<union> {w. set (tw_tasks w) \<subseteq> set (active_tasks s)}"
proof -
  note sub = subsetD [OF notify_waiters_subset]
  show ?thesis
    by (cases e) (auto simp: enqueue_in_lane_def Let_def set_concurrency_def task_settles_def timeout_fires_def finish_task_eq
      clear_lane_def settle_all_fields reset_lane_def reset_all_lanes_def mark_gateway_draining_def wait_for_active_def
      waiter_timeout_def split: option.splits if_splits dest!: sub)
qed

lemma active_started: "queue_ok s \<Longrightarrow> t \<in> set (active_tasks s) \<Longrightarrow> t < cq_next_task s"
  using active_tasks_mem [OF queue_ok_parts(1), of s t] queue_ok_parts(2) [of s]
  by (auto simp: active_in_def tasks_ok_def current_tasks_def)

lemma exec_started: assumes "queue_ok s" "tasks_started s" shows "tasks_started (queue_exec e s)"
  using assms exec_waiters [of e s] exec_next_task [of s e] active_started [OF assms(1)]
  unfolding tasks_started_def by (blast intro: less_le_trans)

lemma reachable_started: "queue_reachable s \<Longrightarrow> tasks_started s"
proof (induction rule: queue_reachable.induct)
  case queue_start
  then show ?case by (simp add: tasks_started_def empty_queue_def)
next
  case (queue_step s e)
  then show ?case using exec_started reachable_ok by blast
qed

text \<open>Starting tasks adds new numbers only, so it does not make old tasks pending again.\<close>

lemma pump_active_new: "active_in L (pump lane now s) \<subseteq> active_in L s \<union> {cq_next_task s..}"
proof -
  have "active_in L (pump lane now s) \<subseteq> active_in L s \<union> {cq_next_task s..} \<and> cq_next_task s \<le> cq_next_task (pump lane now s)"
    by (rule pump_invariant [where Q = "\<lambda>t. active_in L t \<subseteq> active_in L s \<union> {cq_next_task s..} \<and> cq_next_task s \<le> cq_next_task t"])
       (auto simp: active_in_def start_entry_fields js_simps split: if_splits)
  then show ?thesis ..
qed

lemma pump_log: "set (cq_log s) \<subseteq> set (cq_log (pump lane now s))"
  by (rule pump_invariant [where Q = "\<lambda>t. set (cq_log s) \<subseteq> set (cq_log t)"]) (auto simp: start_entry_def Let_def)

text \<open>A waiter is either kept or told that its tasks are done, and then they are.\<close>

definition woken :: "task_waiter \<Rightarrow> 'v command_queue \<Rightarrow> bool" where
  "woken w s \<longleftrightarrow> \<not> has_pending (tw_tasks w) s \<and> WaiterDone (tw_id w) True \<in> set (cq_log s)"

lemma notify_woken:
  assumes "w \<in> set (cq_waiters s)" "waiters_named s" "tw_tasks w \<noteq> []"
  shows "w \<in> set (cq_waiters (notify_waiters s)) \<or> woken w (notify_waiters s)"
proof (cases "waits s w")
  case True
  with assms(1,2) show ?thesis by (simp add: waiters_named_def notify_waiters_waiters)
next
  case False
  then have "WaiterDone (tw_id w) True \<in> set (cq_log (notify_waiters s))"
    using assms(1) by (auto simp: notify_waiters_def notify_fold_log)
  with False assms(3) show ?thesis by (simp add: woken_def waits_def has_pending_def)
qed

lemma notify_woken_from:
  fixes s t :: "'v command_queue"
  assumes "w \<in> set (cq_waiters s)" "waiters_named s" "tw_tasks w \<noteq> []"
    "cq_waiters t = cq_waiters s" "cq_next_waiter t = cq_next_waiter s"
  shows "w \<in> set (cq_waiters (notify_waiters t)) \<or> woken w (notify_waiters t)"
  using assms by (intro notify_woken) (simp_all add: waiters_named_def)

lemma pump_finally_woken:
  assumes "woken w s" "\<forall>t \<in> set (tw_tasks w). t < cq_next_task s" "lanes_ok s" "lanes_ok (pump_finally lane now s)"
  shows "woken w (pump_finally lane now s)"
proof -
  have "active_in L (pump_finally lane now s) \<subseteq> active_in L s \<union> {cq_next_task s..}" for L
    using pump_active_new [of L lane now s] by (simp add: pump_finally_def)
  then have "\<not> has_pending (tw_tasks w) (pump_finally lane now s)"
    using assms unfolding woken_def has_pending_active [OF assms(3)] has_pending_active [OF assms(4)] by fastforce
  with assms(1) subsetD [OF pump_log [of s lane now]] show ?thesis by (auto simp: woken_def pump_finally_def)
qed

lemma finish_task_woken:
  assumes ok: "queue_ok s" "tasks_started s" and r: "r \<in> set (cq_running s)" and w: "w \<in> set (cq_waiters s)"
  shows "w \<in> set (cq_waiters (finish_task r outcome now s)) \<or> woken w (finish_task r outcome now s)"
proof (cases "rt_generation r = ln_generation (lane_at (rt_lane r) s)")
  case True
  let ?t = "notify_waiters (task_removed r s)"
  have n: "waiters_named (task_removed r s)" and ne: "tw_tasks w \<noteq> []"
    using queue_ok_parts(7) [OF ok(1)] w by (auto simp: wait_ok_def waiters_named_def waits_def)
  have "queue_core ({#qe_id (rt_entry r)#} + {#}) ?t"
    using ok(1) r by (intro notify_core task_removed_core) (simp_all add: queue_ok_def)
  then have k: "lanes_ok ?t" "lanes_ok (pump_finally (rt_lane r) now ?t)"
    using pump_finally_core unfolding queue_core_def by blast+
  have "w \<in> set (cq_waiters ?t) \<or> woken w ?t" using w n ne by (intro notify_woken) simp_all
  then have "w \<in> set (cq_waiters ?t) \<or> woken w (pump_finally (rt_lane r) now ?t)"
    using pump_finally_woken [OF _ _ k] ok(2) w by (simp add: tasks_started_def) blast
  with True show ?thesis by (auto simp: finish_task_eq woken_def has_pending_def)
qed (use w in \<open>simp add: finish_task_eq\<close>)

lemma named_append: "waiters_named s \<Longrightarrow> tw_id x = cq_next_waiter s \<Longrightarrow>
  waiters_named (s\<lparr>cq_next_waiter := Suc (cq_next_waiter s), cq_waiters := cq_waiters s @ [x]\<rparr>)"
  by (auto simp: waiters_named_def less_Suc_eq)

lemma exec_woken:
  assumes ok: "queue_ok s" "tasks_started s" and w: "w \<in> set (cq_waiters s)" and e: "e \<noteq> WaiterTimeout (tw_id w)"
  shows "w \<in> set (cq_waiters (queue_exec e s)) \<or> woken w (queue_exec e s)"
proof -
  have n: "waiters_named s" and ne: "tw_tasks w \<noteq> []"
    using queue_ok_parts(7) [OF ok(1)] w by (auto simp: wait_ok_def waiters_named_def waits_def)
  show ?thesis
  proof (cases e)
    case (ResetLane lane now)
    then show ?thesis using notify_woken_from [OF w n ne] w
      by (simp add: reset_lane_def Let_def split: option.split)
  next
    case (ResetAll now)
    then show ?thesis using notify_woken_from [OF w n ne] by (simp add: reset_all_lanes_def Let_def)
  next
    case (WaitActive limit)
    let ?x = "\<lparr>tw_id = cq_next_waiter s, tw_tasks = dedup (active_tasks s), tw_timed = (limit \<noteq> None)\<rparr>"
    have "w \<in> set (cq_waiters (notify_waiters (s\<lparr>cq_next_waiter := Suc (cq_next_waiter s), cq_waiters := cq_waiters s @ [?x]\<rparr>))) \<or>
        woken w (notify_waiters (s\<lparr>cq_next_waiter := Suc (cq_next_waiter s), cq_waiters := cq_waiters s @ [?x]\<rparr>))"
      using w ne by (intro notify_woken named_append n) simp_all
    with WaitActive w show ?thesis by (simp add: wait_for_active_def Let_def)
  qed (use w e finish_task_woken [OF ok _ w] in \<open>auto simp: enqueue_in_lane_def Let_def set_concurrency_def task_settles_def
      timeout_fires_def clear_lane_def settle_all_fields mark_gateway_draining_def waiter_timeout_def
      split: option.split dest!: find_running_mem\<close>)
qed

section \<open>A run\<close>

text \<open>Two commands in the main lane (the lane of a blank name), a waiter for the first, the second still queued; then the
  first is done.\<close>

definition two_queued :: "nat command_queue" where
  "two_queued = queue_exec (WaitActive None)
     (queue_exec (Enqueue [] default_options 5) (queue_exec (Enqueue [] default_options 3) empty_queue))"

definition one_done :: "nat command_queue" where
  "one_done = queue_exec (TaskSettles 1 (Resolved 7) 9) two_queued"

lemma two_queued_reachable: "queue_reachable two_queued"
  unfolding two_queued_def by (intro queue_reachable.intros)

lemma one_done_reachable: "queue_reachable one_done"
  unfolding one_done_def by (intro queue_reachable.intros two_queued_reachable)

lemma two_queued_waiters: "cq_waiters two_queued = [\<lparr>tw_id = 0, tw_tasks = [1], tw_timed = False\<rparr>]"
  by code_simp

lemma two_queued_log: "cq_log two_queued = [Started (js ''main'') 0]"
  by code_simp

lemma one_done_log:
  "cq_log one_done = [Started (js ''main'') 0, WaiterDone 0 True, Started (js ''main'') 1, Settled 0 (Resolved 7)]"
  by code_simp

section \<open>Properties\<close>

text \<open>Where an entry is: queued in a lane, held by a running closure, or settled.\<close>

definition entry_places :: "'v command_queue \<Rightarrow> nat list" where
  "entry_places s = concat (map (\<lambda>(l, st). map qe_id (ln_queue st)) (cq_lanes s)) @
     map (\<lambda>r. qe_id (rt_entry r)) (cq_running s) @ settled_of (cq_log s)"

lemma entry_places_mset: "entries_ok {#} s \<Longrightarrow> mset (entry_places s) = mset [0..<cq_next_entry s]"
  by (simp add: entries_ok_def entry_places_def queued_def queue_ids_def running_ids_def add_ac)

text \<open>C19: the queue never loses or duplicates a command. In every reachable state, whatever the
  order of enqueues, completions, timeouts, clears, resets and changes of limits, each promise
  handed out so far is in exactly one place, once: queued, running, or settled; so every promise
  is settled at most once, and a cleared, timed out or reset command is not run or settled again.\<close>
theorem queue_loses_no_entry:
  assumes "queue_reachable s"
  shows "distinct (entry_places s) \<and> set (entry_places s) = {..<cq_next_entry s}"
proof -
  have m: "mset (entry_places s) = mset [0..<cq_next_entry s]"
    using queue_ok_parts(3) [OF reachable_ok [OF assms]] by (rule entry_places_mset)
  then have "distinct (entry_places s)" using mset_eq_imp_distinct_iff [OF m] by simp
  moreover have "set (entry_places s) = set [0..<cq_next_entry s]" using m by (rule mset_eq_setD)
  ultimately show ?thesis by (simp add: lessThan_atLeast0)
qed

theorem queue_loses_no_entry_witness:
  "distinct (entry_places one_done) \<and> set (entry_places one_done) = {..<cq_next_entry one_done}"
  by (rule queue_loses_no_entry [OF one_done_reachable])

text \<open>C20: a lane is first in, first out: in every reachable state the commands that a lane has
  started, in the order of their starts, followed by those still queued, are in the order in
  which they were enqueued.\<close>
theorem lane_starts_in_order:
  assumes "queue_reachable s"
  shows "sorted_wrt (<) (starts_of lane (cq_log s) @ map qe_id (ln_queue (lane_at lane s)))"
  using queue_ok_parts(4) [OF reachable_ok [OF assms]] by (simp add: fifo_ok_def arrivals_def queue_ids_def)

theorem lane_starts_in_order_witness:
  "sorted_wrt (<) (starts_of (js ''main'') (cq_log one_done) @ map qe_id (ln_queue (lane_at (js ''main'') one_done)))"
  by (rule lane_starts_in_order [OF one_done_reachable])

text \<open>C21: lanes are work-conserving and bounded. In every reachable state a lane with queued
  commands has at least as many running tasks as its limit allows and is not marked as draining
  (so no wake-up is ever missed, also across timeouts and resets), and no event makes more tasks
  of a lane active than the larger of its limit and what was active before.\<close>
theorem lane_stays_busy_within_limit:
  assumes "queue_reachable s"
  shows "(ln_queue (lane_at lane s) = [] \<or> ln_max (lane_at lane s) \<le> int (length (ln_active (lane_at lane s)))) \<and>
     ln_draining (lane_at lane s) = False \<and>
     int (length (ln_active (lane_at lane (queue_exec e s)))) \<le>
       max (int (length (ln_active (lane_at lane s)))) (ln_max (lane_at lane (queue_exec e s)))"
  using queue_ok_parts(5,6) [OF reachable_ok [OF assms], of lane] exec_bound [of lane e s]
  by (auto simp: can_start_def)

theorem lane_stays_busy_within_limit_witness:
  "(ln_queue (lane_at (js ''main'') two_queued) = [] \<or>
      ln_max (lane_at (js ''main'') two_queued) \<le> int (length (ln_active (lane_at (js ''main'') two_queued)))) \<and>
     ln_draining (lane_at (js ''main'') two_queued) = False \<and>
     int (length (ln_active (lane_at (js ''main'') (queue_exec (ResetLane [] 8) two_queued)))) \<le>
       max (int (length (ln_active (lane_at (js ''main'') two_queued)))) (ln_max (lane_at (js ''main'') (queue_exec (ResetLane [] 8) two_queued)))"
  by (rule lane_stays_busy_within_limit [OF two_queued_reachable])

text \<open>C22: \<open>waitForActiveTasks\<close> answers exactly when the tasks are done. Whatever happens next,
  apart from the waiter's own timeout, a pending waiter stays if one of its tasks is still
  active, and otherwise it is removed and told that the tasks have drained.\<close>
theorem waiter_told_exactly:
  assumes "queue_reachable s" "w \<in> set (cq_waiters s)" "e \<noteq> WaiterTimeout (tw_id w)"
  shows "if has_pending (tw_tasks w) (queue_exec e s) then w \<in> set (cq_waiters (queue_exec e s))
         else w \<notin> set (cq_waiters (queue_exec e s)) \<and> WaiterDone (tw_id w) True \<in> set (cq_log (queue_exec e s))"
proof -
  have ok: "queue_ok s" "tasks_started s" using assms(1) reachable_ok reachable_started by blast+
  have "w \<in> set (cq_waiters (queue_exec e s)) \<longrightarrow> has_pending (tw_tasks w) (queue_exec e s)"
    using queue_ok_parts(7) [OF queue_exec_ok [OF ok(1)]] by (simp add: wait_ok_def waits_def)
  with exec_woken [OF ok assms(2,3)] show ?thesis by (auto simp: woken_def)
qed

theorem waiter_told_exactly_witness:
  "if has_pending [1] one_done then \<lparr>tw_id = 0, tw_tasks = [1], tw_timed = False\<rparr> \<in> set (cq_waiters one_done)
   else \<lparr>tw_id = 0, tw_tasks = [1], tw_timed = False\<rparr> \<notin> set (cq_waiters one_done) \<and> WaiterDone 0 True \<in> set (cq_log one_done)"
  using waiter_told_exactly [OF two_queued_reachable, of "\<lparr>tw_id = 0, tw_tasks = [1], tw_timed = False\<rparr>" "TaskSettles 1 (Resolved 7) 9"]
  unfolding one_done_def by (simp add: two_queued_waiters cong: if_cong)

text \<open>A completion of an earlier generation settles its promise and changes no lane.\<close>

lemma stale_completion:
  "find_running t s = Some r \<Longrightarrow> rt_generation r \<noteq> ln_generation (lane_at (rt_lane r) s) \<Longrightarrow>
   cq_lanes (task_settles t outcome now s) = cq_lanes s \<and>
   cq_log (task_settles t outcome now s) = cq_log s @ [Settled (qe_id (rt_entry r)) outcome]"
  by (simp add: task_settles_def finish_task_eq task_removed_def complete_task_def Let_def)

end
