(* ===== verification/RateLimits.thy ===== *)
theory RateLimits
  imports JsPrelude Contracts
begin

text \<open>
  The two rate limiters of the gateway: the fixed window
  (\<open>openclaw-main/src/infra/fixed-window-rate-limit.ts\<close>) and the sliding window with lockout for
  failed authentication (\<open>openclaw-main/src/gateway/auth-rate-limit.ts\<close>). Times and limits are
  integers in milliseconds; the time of a call is an argument. Parsing of IP addresses is the
  job of a package: \<open>parse_ip\<close> gives the canonical form of an address, \<open>is_loopback\<close> its range.
\<close>

section \<open>Fixed window\<close>

record fixed_window =
  fw_max_requests :: int
  fw_window_ms :: int
  fw_count :: int
  fw_start :: int

record window_answer =
  wa_allowed :: bool
  wa_retry_after :: int
  wa_remaining :: int

definition new_fixed_window :: "int \<Rightarrow> int \<Rightarrow> fixed_window" where
  "new_fixed_window max_requests window_ms =
     \<lparr>fw_max_requests = max 1 max_requests, fw_window_ms = max 1 window_ms, fw_count = 0, fw_start = 0\<rparr>"

definition roll_window :: "int \<Rightarrow> fixed_window \<Rightarrow> fixed_window" where
  "roll_window now s = (if fw_window_ms s \<le> now - fw_start s then s\<lparr>fw_start := now, fw_count := 0\<rparr> else s)"

definition consume :: "int \<Rightarrow> fixed_window \<Rightarrow> window_answer \<times> fixed_window" where
  "consume now s0 =
     (let s = roll_window now s0 in
      if fw_max_requests s \<le> fw_count s
      then (\<lparr>wa_allowed = False, wa_retry_after = max 0 (fw_start s + fw_window_ms s - now), wa_remaining = 0\<rparr>, s)
      else (\<lparr>wa_allowed = True, wa_retry_after = 0, wa_remaining = max 0 (fw_max_requests s - (fw_count s + 1))\<rparr>,
            s\<lparr>fw_count := fw_count s + 1\<rparr>))"

definition reset_window :: "fixed_window \<Rightarrow> fixed_window" where
  "reset_window s = s\<lparr>fw_count := 0, fw_start := 0\<rparr>"

text \<open>The times of the admitted requests: those before the previous window, those of the
  previous window, those of the current one.\<close>

definition fw_parts :: "int \<Rightarrow> int \<Rightarrow> int list \<Rightarrow> int list \<Rightarrow> int list \<Rightarrow> int \<Rightarrow> fixed_window \<Rightarrow> bool" where
  "fw_parts m w older previous current c s \<longleftrightarrow> fw_max_requests s = m \<and> fw_window_ms s = w \<and> 1 \<le> m \<and> 1 \<le> w \<and>
     fw_start s \<le> c \<and> int (length current) = fw_count s \<and> fw_count s \<le> m \<and> int (length previous) \<le> m \<and>
     (\<forall>t \<in> set older. t + w \<le> fw_start s) \<and> (\<forall>t \<in> set previous. t \<le> fw_start s) \<and> (\<forall>t \<in> set current. t \<le> c)"

definition fw_track :: "int \<Rightarrow> int \<Rightarrow> int list \<Rightarrow> int \<Rightarrow> fixed_window \<Rightarrow> bool" where
  "fw_track m w h c s \<longleftrightarrow> (\<exists>older previous current. h = older @ previous @ current \<and> fw_parts m w older previous current c s)"

lemma fw_parts_roll:
  "fw_parts m w older previous current c s \<Longrightarrow> c \<le> t \<Longrightarrow> fw_window_ms s \<le> t - fw_start s \<Longrightarrow>
   fw_parts m w (older @ previous) current [] t (roll_window t s)"
  unfolding fw_parts_def roll_window_def by auto

lemma fw_parts_stay:
  "fw_parts m w older previous current c s \<Longrightarrow> c \<le> t \<Longrightarrow> \<not> fw_window_ms s \<le> t - fw_start s \<Longrightarrow>
   fw_parts m w older previous current t (roll_window t s)"
  unfolding fw_parts_def roll_window_def by auto

lemma fw_track_roll: assumes "fw_track m w h c s" "c \<le> t" shows "fw_track m w h t (roll_window t s)"
proof -
  obtain older previous current where h: "h = older @ previous @ current" and p: "fw_parts m w older previous current c s"
    using assms(1) by (auto simp: fw_track_def)
  show ?thesis
  proof (cases "fw_window_ms s \<le> t - fw_start s")
    case True
    have "h = (older @ previous) @ current @ []" using h by simp
    with fw_parts_roll [OF p assms(2) True] show ?thesis unfolding fw_track_def by blast
  next
    case False
    with fw_parts_stay [OF p assms(2)] h show ?thesis unfolding fw_track_def by blast
  qed
qed

lemma consume_fields:
  "wa_allowed (fst (consume t s)) \<longleftrightarrow> fw_count (roll_window t s) < fw_max_requests (roll_window t s)"
  "snd (consume t s) = (if wa_allowed (fst (consume t s))
     then (roll_window t s)\<lparr>fw_count := fw_count (roll_window t s) + 1\<rparr> else roll_window t s)"
  by (simp_all add: consume_def Let_def)

lemma fw_parts_count:
  "fw_parts m w older previous current t s \<Longrightarrow> fw_count s < fw_max_requests s \<Longrightarrow>
   fw_parts m w older previous (current @ [t]) t (s\<lparr>fw_count := fw_count s + 1\<rparr>)"
  unfolding fw_parts_def by auto

lemma fw_track_admitted:
  assumes "fw_track m w h c s" "c \<le> t" "wa_allowed (fst (consume t s))"
  shows "fw_track m w (h @ [t]) t (snd (consume t s))"
proof -
  obtain older previous current where h: "h = older @ previous @ current"
    and p: "fw_parts m w older previous current t (roll_window t s)"
    using fw_track_roll [OF assms(1,2)] by (auto simp: fw_track_def)
  have "h @ [t] = older @ previous @ (current @ [t])" using h by simp
  then show ?thesis
    using fw_parts_count [OF p] assms(3) unfolding fw_track_def consume_fields by auto
qed

lemma fw_admitted_late:
  assumes "fw_track m w h c s" "c \<le> t" "wa_allowed (fst (consume t s))" "nat (2 * m) \<le> length h"
  shows "h ! (length h - nat (2 * m)) + w \<le> t"
proof -
  obtain older previous current where h: "h = older @ previous @ current"
    and p: "fw_parts m w older previous current t (roll_window t s)"
    using fw_track_roll [OF assms(1,2)] by (auto simp: fw_track_def)
  have "length h - nat (2 * m) < length older"
    using h p assms(3,4) unfolding fw_parts_def consume_fields by auto
  then have "h ! (length h - nat (2 * m)) \<in> set older" using h by (simp add: nth_append)
  with p show ?thesis unfolding fw_parts_def by force
qed

lemma new_window_track: "0 \<le> c \<Longrightarrow> fw_track (max 1 m) (max 1 w) [] c (new_fixed_window m w)"
  by (auto simp: fw_track_def fw_parts_def new_fixed_window_def)

interpretation fixed: limiter "\<lambda>t s. (wa_allowed (fst (consume t s)), snd (consume t s))" "\<lambda>t. t" "\<lambda>t. True"
  "fw_track (max 1 m) w" "nat (2 * max 1 m)" w for m w
proof unfold_locales
  show "0 < nat (2 * max 1 m)" by simp
next
  fix h c s and t :: int
  assume a: "fw_track (max 1 m) w h c s" "c \<le> t"
  show "fw_track (max 1 m) w h t (snd (wa_allowed (fst (consume t s)), snd (consume t s)))"
    if "\<not> fst (wa_allowed (fst (consume t s)), snd (consume t s))"
    using that fw_track_roll [OF a] by (simp add: consume_fields(2))
  show "fw_track (max 1 m) w (h @ [t]) t (snd (wa_allowed (fst (consume t s)), snd (consume t s)))"
    if "fst (wa_allowed (fst (consume t s)), snd (consume t s))"
    using that fw_track_admitted [OF a] by simp
  show "h ! (length h - nat (2 * max 1 m)) + w \<le> t"
    if "fst (wa_allowed (fst (consume t s)), snd (consume t s))" "nat (2 * max 1 m) \<le> length h"
    using that fw_admitted_late [OF a] by simp
qed

text \<open>Coming back after the time that a refusal names is enough.\<close>

lemma retry_after_enough:
  "wa_allowed (fst (consume t s)) = False \<Longrightarrow> 0 < fw_max_requests s \<Longrightarrow> fw_count s \<le> fw_max_requests s \<Longrightarrow>
   wa_allowed (fst (consume (t + wa_retry_after (fst (consume t s))) (snd (consume t s))))"
  by (auto simp: consume_def roll_window_def Let_def split: if_splits)

section \<open>Authentication\<close>

definition scope_default :: jstring where "scope_default = js ''default''"
definition browser_origin_prefix :: jstring where "browser_origin_prefix = js ''browser-origin:''"

record rate_entry =
  re_attempts :: "int list"
  re_locked_until :: "int option"

record rate_config =
  rc_max_attempts :: "int option"
  rc_window_ms :: "int option"
  rc_lockout_ms :: "int option"
  rc_exempt_loopback :: "bool option"

record auth_limiter =
  al_max_attempts :: int
  al_window_ms :: int
  al_lockout_ms :: int
  al_exempt_loopback :: bool
  al_entries :: "(jstring, rate_entry) jmap"

record rate_check =
  rk_allowed :: bool
  rk_remaining :: int
  rk_retry_after :: int

record address_parser =
  parse_ip :: "jstring \<Rightarrow> jstring option"
  is_loopback :: "jstring \<Rightarrow> bool"

definition default_value :: "'a \<Rightarrow> 'a option \<Rightarrow> 'a" where
  "default_value d x = (case x of None \<Rightarrow> d | Some v \<Rightarrow> v)"

definition create_auth_limiter :: "rate_config \<Rightarrow> auth_limiter" where
  "create_auth_limiter cfg = \<lparr>al_max_attempts = default_value 10 (rc_max_attempts cfg),
     al_window_ms = default_value 60000 (rc_window_ms cfg), al_lockout_ms = default_value 300000 (rc_lockout_ms cfg),
     al_exempt_loopback = default_value True (rc_exempt_loopback cfg), al_entries = []\<rparr>"

definition normalize_client_ip :: "address_parser \<Rightarrow> jstring option \<Rightarrow> jstring" where
  "normalize_client_ip p ip = (case ip of
     None \<Rightarrow> js ''unknown''
   | Some s \<Rightarrow> if starts_with s browser_origin_prefix then s else default_value (js ''unknown'') (parse_ip p s))"

definition normalize_scope :: "jstring option \<Rightarrow> jstring" where
  "normalize_scope scope = (let s = trim (default_value scope_default scope) in if s = [] then scope_default else s)"

definition limit_key :: "address_parser \<Rightarrow> jstring option \<Rightarrow> jstring option \<Rightarrow> jstring" where
  "limit_key p ip scope = normalize_scope scope @ js '':'' @ normalize_client_ip p ip"

definition is_exempt :: "address_parser \<Rightarrow> jstring option \<Rightarrow> auth_limiter \<Rightarrow> bool" where
  "is_exempt p ip s \<longleftrightarrow> al_exempt_loopback s \<and> is_loopback p (normalize_client_ip p ip)"

definition slide_window :: "int \<Rightarrow> int \<Rightarrow> rate_entry \<Rightarrow> rate_entry" where
  "slide_window window now e = e\<lparr>re_attempts := filter (\<lambda>ts. now - window < ts) (re_attempts e)\<rparr>"

text \<open>\<open>entry.lockedUntil && now < entry.lockedUntil\<close> and its counterpart: zero is falsy.\<close>

definition locked :: "int \<Rightarrow> rate_entry \<Rightarrow> bool" where
  "locked now e \<longleftrightarrow> (case re_locked_until e of None \<Rightarrow> False | Some u \<Rightarrow> u \<noteq> 0 \<and> now < u)"

definition lock_expired :: "int \<Rightarrow> rate_entry \<Rightarrow> bool" where
  "lock_expired now e \<longleftrightarrow> (case re_locked_until e of None \<Rightarrow> False | Some u \<Rightarrow> u \<noteq> 0 \<and> u \<le> now)"

definition entry_at :: "jstring \<Rightarrow> auth_limiter \<Rightarrow> rate_entry option" where
  "entry_at key s = map_of (al_entries s) key"

definition put_entry :: "jstring \<Rightarrow> rate_entry \<Rightarrow> auth_limiter \<Rightarrow> auth_limiter" where
  "put_entry key e s = s\<lparr>al_entries := map_put key e (al_entries s)\<rparr>"

definition unlock_expired :: "int \<Rightarrow> rate_entry \<Rightarrow> rate_entry" where
  "unlock_expired now e = (if lock_expired now e then e\<lparr>re_locked_until := None, re_attempts := []\<rparr> else e)"

definition free_answer :: "auth_limiter \<Rightarrow> rate_check" where
  "free_answer s = \<lparr>rk_allowed = True, rk_remaining = al_max_attempts s, rk_retry_after = 0\<rparr>"

definition check_auth :: "address_parser \<Rightarrow> jstring option \<Rightarrow> jstring option \<Rightarrow> int \<Rightarrow> auth_limiter \<Rightarrow> rate_check \<times> auth_limiter" where
  "check_auth p ip scope now s =
     (if is_exempt p ip s then (free_answer s, s)
      else (case entry_at (limit_key p ip scope) s of None \<Rightarrow> (free_answer s, s)
      | Some e \<Rightarrow>
          if locked now e
          then (\<lparr>rk_allowed = False, rk_remaining = 0, rk_retry_after = the (re_locked_until e) - now\<rparr>, s)
          else (let e1 = slide_window (al_window_ms s) now (unlock_expired now e);
                    remaining = max 0 (al_max_attempts s - int (length (re_attempts e1)))
                in (\<lparr>rk_allowed = (0 < remaining), rk_remaining = remaining, rk_retry_after = 0\<rparr>,
                    put_entry (limit_key p ip scope) e1 s))))"

definition add_attempt :: "int \<Rightarrow> auth_limiter \<Rightarrow> rate_entry \<Rightarrow> rate_entry" where
  "add_attempt now s e =
     (let e1 = slide_window (al_window_ms s) now e; e2 = e1\<lparr>re_attempts := re_attempts e1 @ [now]\<rparr>
      in if al_max_attempts s \<le> int (length (re_attempts e2)) then e2\<lparr>re_locked_until := Some (now + al_lockout_ms s)\<rparr> else e2)"

definition record_failure :: "address_parser \<Rightarrow> jstring option \<Rightarrow> jstring option \<Rightarrow> int \<Rightarrow> auth_limiter \<Rightarrow> auth_limiter" where
  "record_failure p ip scope now s =
     (if is_exempt p ip s then s
      else (let key = limit_key p ip scope; e = default_value \<lparr>re_attempts = [], re_locked_until = None\<rparr> (entry_at key s)
            in if locked now e then put_entry key e s else put_entry key (add_attempt now s e) s))"

definition reset_auth :: "address_parser \<Rightarrow> jstring option \<Rightarrow> jstring option \<Rightarrow> auth_limiter \<Rightarrow> auth_limiter" where
  "reset_auth p ip scope s = s\<lparr>al_entries := map_del (limit_key p ip scope) (al_entries s)\<rparr>"

text \<open>The loop of \<open>prune\<close> visits every entry once, in the order of insertion.\<close>

definition prune_entry :: "int \<Rightarrow> auth_limiter \<Rightarrow> jstring \<times> rate_entry \<Rightarrow> (jstring \<times> rate_entry) list" where
  "prune_entry now s ke =
     (if locked now (snd ke) then [ke]
      else (let e = slide_window (al_window_ms s) now (snd ke) in if re_attempts e = [] then [] else [(fst ke, e)]))"

definition prune_auth :: "int \<Rightarrow> auth_limiter \<Rightarrow> auth_limiter" where
  "prune_auth now s = s\<lparr>al_entries := concat (map (prune_entry now s) (al_entries s))\<rparr>"

definition tracked :: "auth_limiter \<Rightarrow> nat" where
  "tracked s = length (al_entries s)"

definition dispose_auth :: "auth_limiter \<Rightarrow> auth_limiter" where
  "dispose_auth s = s\<lparr>al_entries := []\<rparr>"

section \<open>The authentication limiter as a limiter\<close>

definition entry_parts :: "int \<Rightarrow> int \<Rightarrow> int \<Rightarrow> int list \<Rightarrow> int list \<Rightarrow> int \<Rightarrow> int \<Rightarrow> rate_entry \<Rightarrow> bool" where
  "entry_parts m w l old recent edge c e \<longleftrightarrow> re_attempts e = filter (\<lambda>t. edge < t) recent \<and> edge + w \<le> c \<and>
     int (length (re_attempts e)) < m \<and> (\<forall>t \<in> set old. t + l \<le> c)"

text \<open>An entry and the times of the failed attempts of its client: locked since the last one, or
  holding those since the last lockout that are newer than some instant outside the window.\<close>

definition entry_track :: "int \<Rightarrow> int \<Rightarrow> int \<Rightarrow> int list \<Rightarrow> int \<Rightarrow> rate_entry \<Rightarrow> bool" where
  "entry_track m w l h c e \<longleftrightarrow> (case re_locked_until e of
     Some u \<Rightarrow> h \<noteq> [] \<and> u = last h + l
   | None \<Rightarrow> \<exists>old recent edge. h = old @ recent \<and> entry_parts m w l old recent edge c e)"

definition times_ok :: "int \<Rightarrow> int \<Rightarrow> int \<Rightarrow> int list \<Rightarrow> int \<Rightarrow> bool" where
  "times_ok m w l h c \<longleftrightarrow> 1 \<le> m \<and> 1 \<le> w \<and> 0 \<le> l \<and> 0 < c \<and> sorted h \<and> (\<forall>t \<in> set h. 0 < t \<and> t \<le> c)"

lemma entry_parts_later: "entry_parts m w l old recent edge c e \<Longrightarrow> c \<le> now \<Longrightarrow> entry_parts m w l old recent edge now e"
  unfolding entry_parts_def by force

lemma entry_track_later: "entry_track m w l h c e \<Longrightarrow> c \<le> now \<Longrightarrow> entry_track m w l h now e"
  using entry_parts_later unfolding entry_track_def by (cases "re_locked_until e") fastforce+

lemma last_le: "times_ok m w l h c \<Longrightarrow> t \<in> set h \<Longrightarrow> t \<le> last h"
  unfolding times_ok_def by (cases h rule: rev_cases) (auto simp: sorted_append)

lemma entry_track_fresh:
  assumes "times_ok m w l h c" "\<forall>t \<in> set h. t + l \<le> c"
  shows "entry_track m w l h c \<lparr>re_attempts = [], re_locked_until = None\<rparr>"
proof -
  have "entry_parts m w l h [] (c - w) c \<lparr>re_attempts = [], re_locked_until = None\<rparr>"
    using assms by (simp add: entry_parts_def times_ok_def)
  moreover have "h = h @ []" by simp
  ultimately show ?thesis unfolding entry_track_def rate_entry.simps option.case by blast
qed

lemma entry_track_slide:
  assumes "entry_track m w l h c e" "c \<le> now"
  shows "entry_track m w l h now (slide_window w now e)"
proof (cases "re_locked_until e")
  case None
  then obtain old recent edge where h: "h = old @ recent" and p: "entry_parts m w l old recent edge c e"
    using assms(1) by (auto simp: entry_track_def)
  have "length (filter (\<lambda>ts. now - w < ts) (re_attempts e)) \<le> length (re_attempts e)" by (rule length_filter_le)
  then have "entry_parts m w l old recent (now - w) now (slide_window w now e)"
    using p assms(2) unfolding entry_parts_def slide_window_def by (auto intro!: filter_cong)
  with None h show ?thesis unfolding entry_track_def by (auto simp: slide_window_def)
qed (use assms in \<open>simp add: entry_track_def slide_window_def\<close>)

lemma entry_track_unlock:
  assumes "entry_track m w l h c e" "times_ok m w l h now" "c \<le> now"
  shows "entry_track m w l h now (unlock_expired now e)"
proof (cases "lock_expired now e")
  case True
  then obtain u where u: "re_locked_until e = Some u" "u \<le> now" by (auto simp: lock_expired_def split: option.splits)
  with assms(1) have "u = last h + l" by (simp add: entry_track_def)
  then have "\<forall>t \<in> set h. t + l \<le> now" using last_le [OF assms(2)] u(2) by fastforce
  with entry_track_fresh [OF assms(2)] True show ?thesis
    unfolding unlock_expired_def entry_track_def entry_parts_def by simp
next
  case False
  with entry_track_later [OF assms(1,3)] show ?thesis by (simp add: unlock_expired_def)
qed

lemma unlocked_after_check:
  assumes "entry_track m w l h c e" "times_ok m w l h c" "\<not> locked now e"
  shows "re_locked_until (unlock_expired now e) = None"
proof (cases "re_locked_until e")
  case (Some u)
  with assms(1) have "h \<noteq> []" "u = last h + l" by (simp_all add: entry_track_def)
  with assms(2) have "0 < u" unfolding times_ok_def by (metis add_pos_nonneg last_in_set)
  with Some assms(3) show ?thesis by (simp add: locked_def unlock_expired_def lock_expired_def)
qed (simp add: unlock_expired_def)

lemma entry_track_add:
  assumes "entry_track m w l h c e" "re_locked_until e = None" "c \<le> now" "1 \<le> w"
    and s: "al_max_attempts s = m" "al_window_ms s = w" "al_lockout_ms s = l"
  shows "entry_track m w l (h @ [now]) now (add_attempt now s e)"
proof (cases "m \<le> int (length (re_attempts (slide_window w now e))) + 1")
  case True
  then have "re_locked_until (add_attempt now s e) = Some (now + l)" using s by (simp add: add_attempt_def Let_def)
  then show ?thesis by (simp add: entry_track_def)
next
  case False
  obtain old recent edge where h: "h = old @ recent" and p: "entry_parts m w l old recent edge now (slide_window w now e)"
    using entry_track_slide [OF assms(1,3)] assms(2) by (auto simp: entry_track_def slide_window_def)
  then have "entry_parts m w l old (recent @ [now]) edge now (add_attempt now s e)"
    using False s assms(4) by (auto simp: entry_parts_def add_attempt_def Let_def)
  moreover have "re_locked_until (add_attempt now s e) = None"
    using False s assms(2) by (simp add: add_attempt_def Let_def slide_window_def)
  ultimately show ?thesis using h unfolding entry_track_def by auto
qed

lemma sorted_filter_many:
  "sorted xs \<Longrightarrow> i < length xs \<Longrightarrow> c < xs ! i \<Longrightarrow> length xs - i \<le> length (filter (\<lambda>t. c < (t::int)) xs)"
proof (induction xs arbitrary: i)
  case (Cons x xs)
  show ?case
  proof (cases i)
    case 0
    with Cons.prems have "\<forall>t \<in> set (x # xs). c < t" by auto
    then have "filter (\<lambda>t. c < t) (x # xs) = x # xs" by (rule filter_True)
    then show ?thesis by simp
  next
    case (Suc j)
    with Cons show ?thesis by fastforce
  qed
qed simp

lemma entry_late:
  assumes "entry_track m w l h c e" "times_ok m w l h c" "c \<le> now" "\<not> locked now e" "nat m \<le> length h"
  shows "h ! (length h - nat m) + min w l \<le> now"
proof -
  let ?i = "length h - nat m"
  have m: "0 < nat m" using assms(2) by (simp add: times_ok_def)
  then have i: "?i < length h" using assms(5) by linarith
  show ?thesis
  proof (cases "re_locked_until e")
    case (Some u)
    with assms(1) have u: "h \<noteq> []" "u = last h + l" by (simp_all add: entry_track_def)
    with assms(2) have "0 < u" unfolding times_ok_def by (metis add_pos_nonneg last_in_set)
    with Some assms(4) have "u \<le> now" by (simp add: locked_def)
    with u last_le [OF assms(2), of "h ! ?i"] i show ?thesis by simp
  next
    case None
    then obtain old recent edge where h: "h = old @ recent" and p: "entry_parts m w l old recent edge c e"
      using assms(1) by (auto simp: entry_track_def)
    show ?thesis
    proof (cases "?i < length old")
      case True
      then have "h ! ?i \<in> set old" unfolding h by (simp add: nth_append)
      with p assms(3) show ?thesis unfolding entry_parts_def by fastforce
    next
      case False
      let ?j = "?i - length old"
      have j: "h ! ?i = recent ! ?j" "?j < length recent" "length recent - ?j = nat m"
        using False i assms(5) unfolding h by (auto simp: nth_append)
      have "\<not> edge < recent ! ?j"
        using sorted_filter_many [of recent ?j edge] assms(2) p j m unfolding times_ok_def entry_parts_def h
        by (auto simp: sorted_append)
      with p assms(3) show ?thesis unfolding entry_parts_def j(1) by linarith
    qed
  qed
qed

abbreviation fresh_entry :: rate_entry where
  "fresh_entry \<equiv> \<lparr>re_attempts = [], re_locked_until = None\<rparr>"

text \<open>Events that concern the limiter: a failing attempt is checked first and recorded when the
  check lets it pass. \<open>auth_step\<close> says whether an attempt under \<open>key\<close> was let through.\<close>

datatype auth_event =
    FailedAttempt "jstring option" "jstring option" int
  | PlainCheck "jstring option" "jstring option" int
  | PruneEntries int
  | ResetClient "jstring option" "jstring option" int

fun auth_moment :: "auth_event \<Rightarrow> int" where
  "auth_moment (FailedAttempt ip scope t) = t"
| "auth_moment (PlainCheck ip scope t) = t"
| "auth_moment (PruneEntries t) = t"
| "auth_moment (ResetClient ip scope t) = t"

definition limits :: "address_parser \<Rightarrow> jstring \<Rightarrow> jstring option \<Rightarrow> jstring option \<Rightarrow> auth_limiter \<Rightarrow> bool" where
  "limits p key ip scope s \<longleftrightarrow> limit_key p ip scope = key \<and> \<not> is_exempt p ip s"

fun auth_step :: "address_parser \<Rightarrow> jstring \<Rightarrow> auth_event \<Rightarrow> auth_limiter \<Rightarrow> bool \<times> auth_limiter" where
  "auth_step p key (FailedAttempt ip scope t) s =
     (let (r, s1) = check_auth p ip scope t s
      in if rk_allowed r then (limits p key ip scope s, record_failure p ip scope t s1) else (False, s1))"
| "auth_step p key (PlainCheck ip scope t) s = (False, snd (check_auth p ip scope t s))"
| "auth_step p key (PruneEntries t) s = (False, prune_auth t s)"
| "auth_step p key (ResetClient ip scope t) s = (False, reset_auth p ip scope s)"

fun keeps_key :: "address_parser \<Rightarrow> jstring \<Rightarrow> auth_event \<Rightarrow> bool" where
  "keeps_key p key (ResetClient ip scope t) = (limit_key p ip scope \<noteq> key)"
| "keeps_key p key e = True"

definition config_ok :: "int \<Rightarrow> int \<Rightarrow> int \<Rightarrow> auth_limiter \<Rightarrow> bool" where
  "config_ok m w l s \<longleftrightarrow> al_max_attempts s = m \<and> al_window_ms s = w \<and> al_lockout_ms s = l \<and> keys_ok (al_entries s)"

definition auth_track :: "jstring \<Rightarrow> int \<Rightarrow> int \<Rightarrow> int \<Rightarrow> int list \<Rightarrow> int \<Rightarrow> auth_limiter \<Rightarrow> bool" where
  "auth_track key m w l h c s \<longleftrightarrow> config_ok m w l s \<and> times_ok m w l h c \<and>
     entry_track m w l h c (default_value fresh_entry (entry_at key s))"

lemma default_value_simps [simp]: "default_value d None = d" "default_value d (Some v) = v"
  by (simp_all add: default_value_def)

lemma entry_at_put [simp]: "entry_at key (put_entry k e s) = (if key = k then Some e else entry_at key s)"
  by (simp add: entry_at_def put_entry_def js_simps)

lemma config_put [simp]: "config_ok m w l s \<Longrightarrow> config_ok m w l (put_entry k e s)"
  by (simp add: config_ok_def put_entry_def js_intros)

lemma is_exempt_put [simp]: "is_exempt p ip (put_entry k e s) = is_exempt p ip s"
  by (simp add: is_exempt_def put_entry_def)

lemma check_config: "config_ok m w l s \<Longrightarrow> config_ok m w l (snd (check_auth p ip scope t s))"
  by (auto simp: check_auth_def Let_def split: option.split)

lemma check_exempt [simp]: "is_exempt p ip (snd (check_auth p ip' scope t s)) = is_exempt p ip s"
  by (auto simp: check_auth_def Let_def split: option.split)

lemma record_config: "config_ok m w l s \<Longrightarrow> config_ok m w l (record_failure p ip scope t s)"
  by (simp add: record_failure_def Let_def)

lemma check_entry:
  "entry_at key (snd (check_auth p ip scope t s)) =
     (if limits p key ip scope s
      then map_option (\<lambda>e. if locked t e then e else slide_window (al_window_ms s) t (unlock_expired t e)) (entry_at key s)
      else entry_at key s)"
  by (auto simp: check_auth_def Let_def limits_def split: option.split)

lemma record_entry:
  "entry_at key (record_failure p ip scope t s) =
     (if limits p key ip scope s
      then (let e = default_value fresh_entry (entry_at key s) in Some (if locked t e then e else add_attempt t s e))
      else entry_at key s)"
  by (auto simp: record_failure_def Let_def limits_def)

lemma fresh_not_locked [simp]: "\<not> locked t fresh_entry"
  by (simp add: locked_def)

lemma check_allowed:
  "rk_allowed (fst (check_auth p ip scope t s)) \<Longrightarrow> limits p key ip scope s \<Longrightarrow>
   \<not> locked t (default_value fresh_entry (entry_at key s))"
  by (auto simp: check_auth_def Let_def limits_def split: option.splits if_splits)

lemma slide_fresh [simp]: "slide_window w t (unlock_expired t fresh_entry) = fresh_entry"
  by (simp add: slide_window_def unlock_expired_def lock_expired_def)

lemma check_default:
  "default_value fresh_entry (entry_at key (snd (check_auth p ip scope t s))) =
     (let e = default_value fresh_entry (entry_at key s)
      in if limits p key ip scope s \<and> \<not> locked t e then slide_window (al_window_ms s) t (unlock_expired t e) else e)"
  by (cases "entry_at key s") (auto simp: check_entry Let_def)

lemma times_ok_later: "times_ok m w l h c \<Longrightarrow> c \<le> t \<Longrightarrow> times_ok m w l h t"
  unfolding times_ok_def by force

lemma times_ok_snoc: "times_ok m w l h c \<Longrightarrow> c \<le> t \<Longrightarrow> times_ok m w l (h @ [t]) t"
  unfolding times_ok_def by (force simp: sorted_append)

lemma entry_track_check:
  assumes "entry_track m w l h c e" "times_ok m w l h c" "c \<le> t"
  shows "entry_track m w l h t (slide_window w t (unlock_expired t e))"
  using entry_track_slide [OF entry_track_unlock [OF assms(1) times_ok_later [OF assms(2,3)] assms(3)], of t] by simp

lemma check_track:
  assumes "auth_track key m w l h c s" "c \<le> t"
  shows "auth_track key m w l h t (snd (check_auth p ip scope t s))"
  using assms times_ok_later [of m w l h c t] entry_track_later [of m w l h c _ t] entry_track_check [of m w l h c _ t]
  unfolding auth_track_def check_default Let_def by (auto simp: check_config) (auto simp: config_ok_def)

lemma prune_lookup:
  "keys_ok m \<Longrightarrow> map_of (concat (map (prune_entry t s) m)) key =
     (case map_of m key of None \<Rightarrow> None | Some e \<Rightarrow> map_of (prune_entry t s (key, e)) key)"
proof (induction m)
  case (Cons x m)
  obtain k e where x: "x = (k, e)" by (cases x)
  have n: "map_of (prune_entry t s (k, e)) key = None" if "k \<noteq> key"
    using that by (simp add: prune_entry_def Let_def)
  have "map_of m k = None" using Cons.prems x by (simp add: keys_ok_def map_of_eq_None_iff)
  moreover have "keys_ok m" using Cons.prems by (simp add: keys_ok_def)
  ultimately show ?case using Cons.IH x n by (cases "k = key") (auto simp: map_add_def split: option.splits)
qed simp

lemma prune_entry_shape: "prune_entry t s (k, e) = [] \<or> (\<exists>e'. prune_entry t s (k, e) = [(k, e')])"
  by (simp add: prune_entry_def Let_def)

lemma prune_key_subset: "fst ` set (concat (map (prune_entry t s) m)) \<subseteq> fst ` set m"
proof (induction m)
  case (Cons x m)
  then show ?case using prune_entry_shape [of t s "fst x" "snd x"] by auto
qed simp

lemma prune_keys: "keys_ok m \<Longrightarrow> keys_ok (concat (map (prune_entry t s) m))"
proof (induction m)
  case (Cons x m)
  have "keys_ok (concat (map (prune_entry t s) m))" using Cons by (simp add: keys_ok_def)
  moreover have "fst x \<notin> fst ` set (concat (map (prune_entry t s) m))"
    using Cons.prems prune_key_subset [of t s m] unfolding keys_ok_def list.map distinct.simps set_map by blast
  ultimately show ?case using prune_entry_shape [of t s "fst x" "snd x"] by (elim disjE exE) (simp_all add: keys_ok_def)
qed simp

lemma prune_default:
  assumes "keys_ok (al_entries s)"
  shows "default_value fresh_entry (entry_at key (prune_auth t s)) =
     (let e = default_value fresh_entry (entry_at key s)
      in if locked t e then e
         else if re_attempts (slide_window (al_window_ms s) t e) = [] then fresh_entry else slide_window (al_window_ms s) t e)"
  unfolding entry_at_def prune_auth_def
  by (cases "map_of (al_entries s) key")
     (simp_all add: prune_lookup [OF assms] prune_entry_def Let_def slide_window_def)

lemma prune_track:
  assumes "auth_track key m w l h c s" "c \<le> t"
  shows "auth_track key m w l h t (prune_auth t s)"
proof -
  define e where "e = default_value fresh_entry (entry_at key s)"
  have e: "entry_track m w l h c e" and tk: "times_ok m w l h t" and k: "config_ok m w l s"
    using assms times_ok_later by (auto simp: auth_track_def e_def)
  have w: "al_window_ms s = w" and ko: "keys_ok (al_entries s)" using k by (simp_all add: config_ok_def)
  have sl: "entry_track m w l h t (slide_window w t e)" using entry_track_slide [OF e assms(2)] .
  have "entry_track m w l h t fresh_entry" if "\<not> locked t e" "re_attempts (slide_window w t e) = []"
  proof (cases "re_locked_until e")
    case None
    with sl that(2) show ?thesis by (simp add: entry_track_def entry_parts_def slide_window_def)
  next
    case (Some u)
    then have "unlock_expired t e = fresh_entry"
      using unlocked_after_check [OF e _ that(1)] assms(1) by (auto simp: auth_track_def unlock_expired_def lock_expired_def)
    with entry_track_unlock [OF e tk assms(2)] show ?thesis by simp
  qed
  then have "entry_track m w l h t (default_value fresh_entry (entry_at key (prune_auth t s)))"
    using sl entry_track_later [OF e assms(2)] unfolding prune_default [OF ko] w e_def [symmetric] Let_def by simp
  moreover have "config_ok m w l (prune_auth t s)" using k prune_keys [OF ko] by (simp add: config_ok_def prune_auth_def)
  ultimately show ?thesis using tk by (simp add: auth_track_def)
qed

lemma reset_track:
  assumes "auth_track key m w l h c s" "c \<le> t" "limit_key p ip scope \<noteq> key"
  shows "auth_track key m w l h t (reset_auth p ip scope s)"
  using assms times_ok_later [of m w l h c t] entry_track_later [of m w l h c _ t]
  by (auto simp: auth_track_def config_ok_def reset_auth_def entry_at_def js_simps js_intros)

lemma auth_track_later: "auth_track key m w l h c s \<Longrightarrow> c \<le> t \<Longrightarrow> auth_track key m w l h t s"
  by (auto simp: auth_track_def times_ok_later entry_track_later)

lemma record_other_track:
  "auth_track key m w l h c s \<Longrightarrow> \<not> limits p key ip scope s \<Longrightarrow> auth_track key m w l h c (record_failure p ip scope t s)"
  by (simp add: auth_track_def record_entry record_config)

lemma limits_check [simp]: "limits p key ip scope (snd (check_auth p ip' scope' t s)) = limits p key ip scope s"
  by (simp add: limits_def)

lemma attempt_track:
  assumes tr: "auth_track key m w l h c s" "c \<le> t" and al: "rk_allowed (fst (check_auth p ip scope t s))" "limits p key ip scope s"
  shows "auth_track key m w l (h @ [t]) t (record_failure p ip scope t (snd (check_auth p ip scope t s)))"
proof -
  define s1 where "s1 = snd (check_auth p ip scope t s)"
  define e where "e = default_value fresh_entry (entry_at key s)"
  define e1 where "e1 = slide_window w t (unlock_expired t e)"
  have e: "entry_track m w l h c e" "times_ok m w l h c" and k: "config_ok m w l s" using tr by (simp_all add: auth_track_def e_def)
  have nl: "\<not> locked t e" unfolding e_def by (rule check_allowed [OF al])
  have d1: "default_value fresh_entry (entry_at key s1) = e1"
    using k nl al(2) by (simp add: s1_def check_default e1_def config_ok_def flip: e_def)
  have u: "re_locked_until e1 = None" using unlocked_after_check [OF e nl] by (simp add: e1_def slide_window_def)
  have t1: "entry_track m w l h t e1" unfolding e1_def by (rule entry_track_check [OF e tr(2)])
  have k1: "config_ok m w l s1" unfolding s1_def by (rule check_config [OF k])
  have "1 \<le> w" using e(2) by (simp add: times_ok_def)
  then have "entry_track m w l (h @ [t]) t (add_attempt t s1 e1)"
    using k1 by (intro entry_track_add [OF t1 u]) (simp_all add: config_ok_def)
  moreover have "default_value fresh_entry (entry_at key (record_failure p ip scope t s1)) = add_attempt t s1 e1"
    using al(2) u d1 by (simp add: record_entry Let_def locked_def flip: s1_def) (simp add: s1_def)
  ultimately show ?thesis
    using times_ok_snoc [OF e(2) tr(2)] record_config [OF k1] by (simp add: auth_track_def flip: s1_def)
qed

lemma attempt_late:
  assumes "auth_track key m w l h c s" "c \<le> t" "rk_allowed (fst (check_auth p ip scope t s))" "limits p key ip scope s" "nat m \<le> length h"
  shows "h ! (length h - nat m) + min w l \<le> t"
  using assms(1) by (intro entry_late [OF _ _ assms(2) check_allowed [OF assms(3,4)] assms(5)]) (simp_all add: auth_track_def)

lemma auth_step_fst:
  "fst (auth_step p key e s) \<longleftrightarrow> (\<exists>ip scope t. e = FailedAttempt ip scope t \<and>
     rk_allowed (fst (check_auth p ip scope t s)) \<and> limits p key ip scope s)"
  by (cases e) (auto simp: split_beta)

interpretation auth: limiter "auth_step p key" auth_moment "keeps_key p key" "auth_track key (max 1 m) w l" "nat (max 1 m)" "min w l"
  for p key m w l
proof unfold_locales
  fix h c s e
  assume a: "auth_track key (max 1 m) w l h c s" "c \<le> auth_moment e" "keeps_key p key e"
  show "auth_track key (max 1 m) w l h (auth_moment e) (snd (auth_step p key e s))" if "\<not> fst (auth_step p key e s)"
    using that a check_track [OF a(1), of "auth_moment e"] record_other_track
    by (cases e) (auto simp: split_beta prune_track reset_track)
  assume "fst (auth_step p key e s)"
  then obtain ip scope t where e: "e = FailedAttempt ip scope t" "rk_allowed (fst (check_auth p ip scope t s))" "limits p key ip scope s"
    by (auto simp: auth_step_fst)
  show "auth_track key (max 1 m) w l (h @ [auth_moment e]) (auth_moment e) (snd (auth_step p key e s))"
    using attempt_track [OF a(1) _ e(2,3)] a(2) e by (simp add: split_beta)
  show "h ! (length h - nat (max 1 m)) + min w l \<le> auth_moment e" if "nat (max 1 m) \<le> length h"
    using attempt_late [OF a(1) _ e(2,3) that] a(2) e(1) by simp
qed simp

end
