(* ===== verification/DedupeCache.thy ===== *)
theory DedupeCache
  imports JsPrelude "HOL-Library.Sublist"
begin

text \<open>
  The deduplication cache (\<open>openclaw-main/src/infra/dedupe.ts\<close>, \<open>map-size.ts\<close>): a map from keys
  to the time they were last checked, bounded in age and in number. Its reference is a
  definition on the list of all earlier calls.
\<close>

section \<open>The cache\<close>

function prune_map_to_max_size :: "int \<Rightarrow> ('k, 'v) jmap \<Rightarrow> ('k, 'v) jmap" where
  "prune_map_to_max_size limit m =
     (if limit \<le> 0 then []
      else if limit < int (length m) then prune_map_to_max_size limit (map_del (fst (hd m)) m) else m)"
  by pat_completeness auto
termination
proof (relation "measure (\<lambda>(l, m). length m)")
  fix limit :: int and m :: "('k, 'v) jmap"
  assume "\<not> limit \<le> 0" "limit < int (length m)"
  then obtain x xs where "m = x # xs" by (cases m) auto
  then show "((limit, map_del (fst (hd m)) m), (limit, m)) \<in> measure (\<lambda>(l, m). length m)"
    by (simp add: map_del_def split_beta le_imp_less_Suc)
qed simp

declare prune_map_to_max_size.simps [simp del]

record dedupe_cache =
  dc_ttl :: int
  dc_max :: int
  dc_cache :: "(jstring, int) jmap"

definition create_dedupe_cache :: "int \<Rightarrow> int \<Rightarrow> dedupe_cache" where
  "create_dedupe_cache ttl max_size = \<lparr>dc_ttl = max 0 ttl, dc_max = max 0 max_size, dc_cache = []\<rparr>"

definition touch :: "jstring \<Rightarrow> int \<Rightarrow> (jstring, int) jmap \<Rightarrow> (jstring, int) jmap" where
  "touch key now m = map_put key now (map_del key m)"

definition prune_cache :: "int \<Rightarrow> dedupe_cache \<Rightarrow> dedupe_cache" where
  "prune_cache now s =
     (let m = (if 0 < dc_ttl s then filter (\<lambda>(k, ts). \<not> ts < now - dc_ttl s) (dc_cache s) else dc_cache s)
      in if dc_max s \<le> 0 then s\<lparr>dc_cache := []\<rparr> else s\<lparr>dc_cache := prune_map_to_max_size (dc_max s) m\<rparr>)"

definition has_unexpired :: "jstring \<Rightarrow> int \<Rightarrow> bool \<Rightarrow> dedupe_cache \<Rightarrow> bool \<times> dedupe_cache" where
  "has_unexpired key now touch_on_read s =
     (case map_of (dc_cache s) key of None \<Rightarrow> (False, s)
      | Some existing \<Rightarrow>
          if 0 < dc_ttl s \<and> dc_ttl s \<le> now - existing then (False, s\<lparr>dc_cache := map_del key (dc_cache s)\<rparr>)
          else (True, if touch_on_read then s\<lparr>dc_cache := touch key now (dc_cache s)\<rparr> else s))"

text \<open>A missing or empty key is falsy.\<close>

definition check_key :: "jstring option \<Rightarrow> int \<Rightarrow> dedupe_cache \<Rightarrow> bool \<times> dedupe_cache" where
  "check_key key now s = (case key of
     None \<Rightarrow> (False, s)
   | Some k \<Rightarrow>
       if k = [] then (False, s)
       else (let (hit, s1) = has_unexpired k now True s
             in if hit then (True, s1) else (False, prune_cache now (s1\<lparr>dc_cache := touch k now (dc_cache s1)\<rparr>))))"

definition peek_key :: "jstring option \<Rightarrow> int \<Rightarrow> dedupe_cache \<Rightarrow> bool \<times> dedupe_cache" where
  "peek_key key now s = (case key of
     None \<Rightarrow> (False, s)
   | Some k \<Rightarrow> if k = [] then (False, s) else has_unexpired k now False s)"

definition delete_key :: "jstring option \<Rightarrow> dedupe_cache \<Rightarrow> dedupe_cache" where
  "delete_key key s = (case key of
     None \<Rightarrow> s
   | Some k \<Rightarrow> if k = [] then s else s\<lparr>dc_cache := map_del k (dc_cache s)\<rparr>)"

definition clear_cache :: "dedupe_cache \<Rightarrow> dedupe_cache" where
  "clear_cache s = s\<lparr>dc_cache := []\<rparr>"

definition cache_size :: "dedupe_cache \<Rightarrow> nat" where
  "cache_size s = length (dc_cache s)"

section \<open>The reference\<close>

text \<open>The history \<open>g\<close> lists the checks, the latest first. A key is remembered if it was last
  checked less than the time to live ago and fewer than \<open>max_size\<close> other keys came after.\<close>

type_synonym history = "(jstring \<times> int) list"

definition newer_keys :: "jstring \<Rightarrow> history \<Rightarrow> nat" where
  "newer_keys k g = length (remdups (map fst (takeWhile (\<lambda>p. fst p \<noteq> k) g)))"

definition remembered :: "int \<Rightarrow> int \<Rightarrow> jstring \<Rightarrow> int \<Rightarrow> history \<Rightarrow> bool" where
  "remembered ttl max_size k now g = (case map_of g k of
     None \<Rightarrow> False
   | Some t \<Rightarrow> (ttl \<le> 0 \<or> now - t < ttl) \<and> int (newer_keys k g) < max_size)"

datatype cache_call = Check "jstring option" int | Peek "jstring option" int

fun call_time :: "cache_call \<Rightarrow> int" where
  "call_time (Check key now) = now"
| "call_time (Peek key now) = now"

fun cache_exec :: "cache_call \<Rightarrow> dedupe_cache \<Rightarrow> bool \<times> dedupe_cache" where
  "cache_exec (Check key now) s = check_key key now s"
| "cache_exec (Peek key now) s = peek_key key now s"

fun cache_answers :: "cache_call list \<Rightarrow> dedupe_cache \<Rightarrow> bool list" where
  "cache_answers [] s = []"
| "cache_answers (c # cs) s = (let (r, s1) = cache_exec c s in r # cache_answers cs s1)"

fun call_key :: "cache_call \<Rightarrow> jstring option" where
  "call_key (Check key now) = key"
| "call_key (Peek key now) = key"

definition truthy_key :: "jstring option \<Rightarrow> bool" where
  "truthy_key key = (case key of None \<Rightarrow> False | Some k \<Rightarrow> k \<noteq> [])"

fun next_history :: "cache_call \<Rightarrow> history \<Rightarrow> history" where
  "next_history (Check key now) g = (if truthy_key key then (the key, now) # g else g)"
| "next_history (Peek key now) g = g"

fun reference_answers :: "int \<Rightarrow> int \<Rightarrow> cache_call list \<Rightarrow> history \<Rightarrow> bool list" where
  "reference_answers ttl max_size [] g = []"
| "reference_answers ttl max_size (c # cs) g =
     (truthy_key (call_key c) \<and> remembered ttl max_size (the (call_key c)) (call_time c) g)
       # reference_answers ttl max_size cs (next_history c g)"

section \<open>Keys by recency\<close>

fun firsts :: "history \<Rightarrow> history" where
  "firsts [] = []"
| "firsts ((k, t) # g) = (k, t) # map_del k (firsts g)"

definition rank :: "jstring \<Rightarrow> history \<Rightarrow> nat" where
  "rank k xs = length (takeWhile (\<lambda>p. fst p \<noteq> k) xs)"

lemma keys_map_del: "fst ` set (map_del k m) = fst ` set m - {k}"
  by (force simp: map_del_def)

lemma firsts_keys_ok: "keys_ok (firsts g)"
  by (induction g rule: firsts.induct) (auto simp: keys_ok_def map_del_def distinct_map_filter image_iff)

lemma firsts_map_of: "map_of (firsts g) = map_of g"
  by (induction g rule: firsts.induct) (auto simp: js_simps fun_eq_iff)

lemma firsts_set: "set (firsts g) \<subseteq> set g"
  by (induction g rule: firsts.induct) (auto simp: map_del_def)

lemma firsts_sorted: "sorted_wrt (\<ge>) (map snd g) \<Longrightarrow> sorted_wrt (\<ge>) (map snd (firsts g))"
proof (induction g rule: firsts.induct)
  case (2 k t g)
  then have "sorted_wrt (\<ge>) (map snd (map_del k (firsts g)))"
    by (simp add: map_del_def sorted_wrt_map sorted_wrt_filter)
  with 2 show ?case using firsts_set [of g] by (fastforce simp: map_del_def)
qed simp

lemma take_while_del: "l \<noteq> k \<Longrightarrow> takeWhile (\<lambda>p. fst p \<noteq> k) (map_del l m) = map_del l (takeWhile (\<lambda>p. fst p \<noteq> k) m)"
  by (induction m) (auto simp: map_del_def)

lemma firsts_before: "fst ` set (takeWhile (\<lambda>p. fst p \<noteq> k) (firsts g)) = fst ` set (takeWhile (\<lambda>p. fst p \<noteq> k) g)"
proof (induction g rule: firsts.induct)
  case (2 l t g)
  show ?case
  proof (cases "l = k")
    case False
    with 2 show ?thesis by (auto simp: take_while_del keys_map_del)
  qed simp
qed simp

lemma rank_newer: "rank k (firsts g) = newer_keys k g"
proof -
  have "distinct (map fst (takeWhile (\<lambda>p. fst p \<noteq> k) (firsts g)))"
    using firsts_keys_ok [of g] unfolding keys_ok_def by (metis distinct_append map_append takeWhile_dropWhile_id)
  then have "rank k (firsts g) = card (fst ` set (takeWhile (\<lambda>p. fst p \<noteq> k) (firsts g)))"
    unfolding rank_def by (metis distinct_card length_map set_map)
  then show ?thesis by (simp add: firsts_before newer_keys_def length_remdups_card_conv)
qed

lemma rank_map_del: "rank k xs \<le> Suc (rank k (map_del l xs))" if "keys_ok xs" "k \<noteq> l"
  using that(1)
proof (induction xs)
  case (Cons x xs)
  then show ?case
  proof (cases "fst x = l")
    case True
    with Cons.prems have "l \<notin> fst ` set xs" by (simp add: keys_ok_def)
    then have "map_del l xs = xs" by (force simp: map_del_def filter_id_conv)
    with True show ?thesis using that(2) by (simp add: rank_def map_del_def split_beta)
  next
    case False
    with Cons show ?thesis by (auto simp: rank_def map_del_def split_beta keys_ok_def)
  qed
qed (simp add: rank_def)

lemma rank_filter: "rank k (filter P xs) \<le> rank k xs" if "\<And>p. p \<in> set xs \<Longrightarrow> fst p = k \<Longrightarrow> P p"
  using that by (induction xs) (auto simp: rank_def)

section \<open>The cache is the reference\<close>

lemma subseq_filter_self: "subseq xs ys \<Longrightarrow> distinct ys \<Longrightarrow> xs = filter (\<lambda>p. p \<in> set xs) ys"
proof (induction rule: list_emb.induct)
  case (list_emb_Cons xs ys y)
  then have "y \<notin> set xs" by (auto dest: list_emb_set)
  with list_emb_Cons show ?case by simp
next
  case (list_emb_Cons2 x y xs ys)
  then have "filter (\<lambda>p. p \<in> set (x # xs)) ys = filter (\<lambda>p. p \<in> set xs) ys" by (intro filter_cong) auto
  with list_emb_Cons2 show ?case by simp
qed simp

lemma keys_ok_distinct: "keys_ok m \<Longrightarrow> distinct m"
  by (simp add: keys_ok_def distinct_map)

lemma keys_ok_unique: "keys_ok m \<Longrightarrow> p \<in> set m \<Longrightarrow> q \<in> set m \<Longrightarrow> fst p = fst q \<Longrightarrow> p = q"
  by (auto simp: keys_ok_def distinct_map dest: inj_onD)

lemma rank_subseq:
  assumes "subseq xs ys" "keys_ok ys" "p \<in> set xs"
  shows "rank (fst p) xs \<le> rank (fst p) ys"
proof -
  have "xs = filter (\<lambda>q. q \<in> set xs) ys" using assms keys_ok_distinct by (intro subseq_filter_self)
  moreover have "p \<in> set ys" using assms(1,3) by (auto dest: list_emb_set)
  then have "rank (fst p) (filter (\<lambda>q. q \<in> set xs) ys) \<le> rank (fst p) ys"
    using assms(3) keys_ok_unique [OF assms(2)] by (intro rank_filter) metis
  ultimately show ?thesis by simp
qed

lemma rank_nth: "keys_ok m \<Longrightarrow> i < length m \<Longrightarrow> rank (fst (m ! i)) m = i"
proof (induction m arbitrary: i)
  case (Cons x m)
  show ?case
  proof (cases i)
    case (Suc j)
    with Cons.prems have "fst x \<noteq> fst (m ! j)" by (metis keys_ok_def distinct.simps(2) image_eqI length_Cons list.map(2) not_less_eq nth_mem set_map)
    with Cons Suc show ?thesis by (simp add: rank_def keys_ok_def)
  qed (simp add: rank_def)
qed simp

lemma nth_rank: "keys_ok m \<Longrightarrow> p \<in> set m \<Longrightarrow> m ! rank (fst p) m = p \<and> rank (fst p) m < length m"
  by (metis in_set_conv_nth rank_nth)

lemma prune_to_max: "keys_ok m \<Longrightarrow> 0 < limit \<Longrightarrow> rev (prune_map_to_max_size limit m) = take (nat limit) (rev m)"
proof (induction limit m rule: prune_map_to_max_size.induct)
  case (1 limit m)
  show ?case
  proof (cases "limit < int (length m)")
    case True
    then obtain x xs where m: "m = x # xs" using "1.prems"(2) by (cases m) auto
    then have d: "map_del (fst (hd m)) m = xs"
      using "1.prems"(1) by (force simp: map_del_def keys_ok_def filter_id_conv)
    have "keys_ok xs" using "1.prems"(1) m by (simp add: keys_ok_def)
    then have "rev (prune_map_to_max_size limit xs) = take (nat limit) (rev xs)" using 1 True d by simp
    with True m d "1.prems" show ?thesis by (simp add: prune_map_to_max_size.simps [of limit "x # xs"])
  qed (use "1.prems" in \<open>simp add: prune_map_to_max_size.simps [of limit m]\<close>)
qed

definition stale :: "int \<Rightarrow> int \<Rightarrow> int \<Rightarrow> bool" where
  "stale ttl now t \<longleftrightarrow> 0 < ttl \<and> ttl \<le> now - t"

definition history_ok :: "history \<Rightarrow> int \<Rightarrow> bool" where
  "history_ok g c \<longleftrightarrow> sorted_wrt (\<ge>) (map snd g) \<and> (\<forall>p \<in> set g. snd p \<le> c)"

text \<open>The cache, newest first, is a part of the recency list; what it lacks is stale or has too
  many newer keys.\<close>

definition lacks :: "int \<Rightarrow> int \<Rightarrow> int \<Rightarrow> history \<Rightarrow> history \<Rightarrow> bool" where
  "lacks ttl mx c F C \<longleftrightarrow> subseq C F \<and>
     (\<forall>p \<in> set F. p \<notin> set C \<longrightarrow> mx \<le> int (rank (fst p) F) \<or> stale ttl c (snd p))"

definition cache_ok :: "int \<Rightarrow> int \<Rightarrow> history \<Rightarrow> int \<Rightarrow> dedupe_cache \<Rightarrow> bool" where
  "cache_ok ttl mx g c s \<longleftrightarrow> dc_ttl s = ttl \<and> dc_max s = mx \<and> history_ok g c \<and>
     int (length (dc_cache s)) \<le> mx \<and> lacks ttl mx c (firsts g) (rev (dc_cache s))"

lemma lacks_keys: "lacks ttl mx c F C \<Longrightarrow> keys_ok F \<Longrightarrow> keys_ok C"
  unfolding lacks_def keys_ok_def
  by (metis keys_ok_def keys_ok_distinct subseq_filter_self distinct_map_filter)

lemma lacks_fresh:
  assumes l: "lacks ttl mx c F C" "keys_ok F" "sorted_wrt (\<ge>) (map snd F)" and n: "int (length C) \<le> mx"
    and p: "p \<in> set C" "\<not> stale ttl c (snd p)"
  shows "int (rank (fst p) F) < mx"
proof (rule ccontr)
  assume "\<not> ?thesis"
  then have r: "nat mx \<le> rank (fst p) F" using n by linarith
  have pF: "p \<in> set F" using l(1) p(1) by (auto simp: lacks_def dest: list_emb_set)
  note q = nth_rank [OF l(2) pF]
  have "F ! i \<in> set C" if "i < nat mx" for i
  proof -
    have i: "i < rank (fst p) F" "i < length F" using that r q by auto
    then have "snd (F ! rank (fst p) F) \<le> snd (F ! i)" using l(3) [unfolded sorted_wrt_iff_nth_less, rule_format, OF i(1)] q i by simp
    then have "snd p \<le> snd (F ! i)" using q by simp
    then have "\<not> stale ttl c (snd (F ! i))" using p(2) by (auto simp: stale_def)
    moreover have "\<not> mx \<le> int (rank (fst (F ! i)) F)" using rank_nth [OF l(2) i(2)] that by simp
    ultimately show ?thesis using l(1) i(2) by (auto simp: lacks_def)
  qed
  then have "set (take (nat mx) F) \<union> {p} \<subseteq> set C"
    using p(1) unfolding subset_iff Un_iff by (metis in_set_conv_nth length_take min_less_iff_conj nth_take singletonD)
  moreover have "p \<notin> set (take (nat mx) F)"
  proof
    assume "p \<in> set (take (nat mx) F)"
    then obtain i where "i < length F" "i < nat mx" "F ! i = p" by (auto simp: in_set_conv_nth)
    with rank_nth [OF l(2)] r show False by fastforce
  qed
  moreover have "card (set (take (nat mx) F)) = nat mx"
    using q r keys_ok_distinct [OF l(2)] by (subst distinct_card) auto
  ultimately have "nat mx + 1 \<le> card (set C)" using card_mono [OF finite_set, of "set (take (nat mx) F) \<union> {p}" C] by simp
  also have "\<dots> \<le> length C" by (rule card_length)
  finally show False using n by linarith
qed

lemma lookup_rev: "keys_ok m \<Longrightarrow> map_of m k = Some t \<longleftrightarrow> (k, t) \<in> set (rev m)"
  by (simp add: keys_ok_def)

lemma has_unexpired_hit:
  "fst (has_unexpired k now b s) \<longleftrightarrow> (\<exists>t. map_of (dc_cache s) k = Some t \<and> \<not> stale (dc_ttl s) now t)"
  by (simp add: has_unexpired_def stale_def split: option.split)

text \<open>The answer of a lookup is the one of the reference.\<close>

lemma hit_exact:
  assumes ok: "cache_ok ttl mx g c s" and c: "c \<le> now"
  shows "fst (has_unexpired k now b s) \<longleftrightarrow> remembered ttl mx k now g"
proof -
  let ?F = "firsts g" and ?C = "rev (dc_cache s)"
  have kF: "keys_ok ?F" by (rule firsts_keys_ok)
  have l: "lacks ttl mx c ?F ?C" and n: "int (length ?C) \<le> mx" and ttl: "dc_ttl s = ttl"
    using ok by (simp_all add: cache_ok_def)
  have kC: "keys_ok (dc_cache s)" using lacks_keys [OF l kF] by (simp add: keys_ok_def flip: rev_map)
  have so: "sorted_wrt (\<ge>) (map snd ?F)" using ok by (intro firsts_sorted) (simp add: cache_ok_def history_ok_def)
  have hit: "fst (has_unexpired k now b s) \<longleftrightarrow> (\<exists>t. (k, t) \<in> set ?C \<and> \<not> stale ttl now t)"
    unfolding has_unexpired_hit lookup_rev [OF kC] ttl ..
  have ref: "remembered ttl mx k now g \<longleftrightarrow> (\<exists>t. (k, t) \<in> set ?F \<and> \<not> stale ttl now t \<and> int (rank k ?F) < mx)"
    using keys_ok_map_of_mem [OF kF] firsts_map_of [of g]
    by (cases "map_of g k") (force simp: remembered_def stale_def rank_newer)+
  have mono: "\<not> stale ttl c t" if "\<not> stale ttl now t" for t using that c by (auto simp: stale_def)
  have "(k, t) \<in> set ?F \<and> int (rank k ?F) < mx" if "(k, t) \<in> set ?C" "\<not> stale ttl now t" for t
    using lacks_fresh [OF l kF so n that(1)] mono [OF that(2)] that(1) l by (auto simp: lacks_def dest: list_emb_set)
  moreover have "(k, t) \<in> set ?C" if "(k, t) \<in> set ?F" "\<not> stale ttl now t" "int (rank k ?F) < mx" for t
    using l mono [OF that(2)] that unfolding lacks_def by fastforce
  ultimately show ?thesis unfolding hit ref by blast
qed

text \<open>Every step of a lookup keeps the relation to the reference.\<close>

lemma map_del_idem: "map_del k (map_del k m) = map_del k m"
  by (simp add: map_del_def case_prod_unfold)

lemma touch_rev: "rev (touch k now m) = (k, now) # map_del k (rev m)"
  by (simp add: touch_def map_put_def keys_map_del) (simp add: map_del_def rev_filter)

lemma lacks_later: "lacks ttl mx c F C \<Longrightarrow> c \<le> now \<Longrightarrow> lacks ttl mx now F C"
  unfolding lacks_def stale_def by fastforce

lemma lacks_touch:
  assumes l: "lacks ttl mx c F C" "keys_ok F"
  shows "lacks ttl mx c ((k, now) # map_del k F) ((k, now) # map_del k C)"
  unfolding lacks_def
proof (intro conjI ballI impI)
  show "subseq ((k, now) # map_del k C) ((k, now) # map_del k F)"
    using l(1) by (simp add: lacks_def map_del_def subseq_filter)
next
  fix p
  assume p: "p \<in> set ((k, now) # map_del k F)" "p \<notin> set ((k, now) # map_del k C)"
  then have f: "fst p \<noteq> k" "p \<in> set F" "p \<notin> set C" by (auto simp: map_del_def)
  then have "mx \<le> int (rank (fst p) F) \<or> stale ttl c (snd p)" using l(1) by (simp add: lacks_def)
  moreover have "rank (fst p) F \<le> rank (fst p) ((k, now) # map_del k F)"
    using rank_map_del [OF l(2) f(1)] f(1) by (simp add: rank_def)
  ultimately show "mx \<le> int (rank (fst p) ((k, now) # map_del k F)) \<or> stale ttl c (snd p)" by linarith
qed

lemma lacks_drop:
  assumes l: "lacks ttl mx c F C" and D: "subseq D C"
    and n: "\<And>p. p \<in> set C \<Longrightarrow> p \<notin> set D \<Longrightarrow> mx \<le> int (rank (fst p) F) \<or> stale ttl c (snd p)"
  shows "lacks ttl mx c F D"
  using assms subseq_order.order_trans [of D C F] unfolding lacks_def by blast

lemma prune_cache_rev:
  assumes "keys_ok (dc_cache s)" "0 \<le> dc_max s"
  shows "rev (dc_cache (prune_cache now s)) =
     take (nat (dc_max s)) (if 0 < dc_ttl s then filter (\<lambda>(k, ts). \<not> ts < now - dc_ttl s) (rev (dc_cache s)) else rev (dc_cache s))"
proof (cases "dc_max s = 0")
  case False
  have "keys_ok (filter (\<lambda>(k, ts). \<not> ts < now - dc_ttl s) (dc_cache s))" using assms(1) by (simp add: keys_ok_def distinct_map_filter)
  with False assms show ?thesis by (simp add: prune_cache_def Let_def prune_to_max rev_filter)
qed (simp add: prune_cache_def Let_def)

lemma prune_lacks:
  assumes l: "lacks ttl mx c F (rev (dc_cache s))" and F: "keys_ok F" and s: "dc_ttl s = ttl" "dc_max s = mx" "0 \<le> mx"
  shows "lacks ttl mx c F (rev (dc_cache (prune_cache c s)))"
proof -
  define C where "C = rev (dc_cache s)"
  define D where "D = (if 0 < ttl then filter (\<lambda>(k, ts). \<not> ts < c - ttl) C else C)"
  have kC: "keys_ok (dc_cache s)" using lacks_keys [OF l F] by (simp add: keys_ok_def flip: rev_map)
  have lC: "lacks ttl mx c F C" using l by (simp add: C_def)
  have DC: "subseq D C" by (simp add: D_def subseq_filter_left)
  have lD: "lacks ttl mx c F D" by (rule lacks_drop [OF lC DC]) (auto simp: D_def stale_def split: if_splits)
  have "lacks ttl mx c F (take (nat mx) D)"
  proof (rule lacks_drop [OF lD])
    show "subseq (take (nat mx) D) D" by (metis append_take_drop_id list_emb_append2 subseq_order.order_refl prefix_imp_subseq take_is_prefix)
    fix p
    assume p: "p \<in> set D" "p \<notin> set (take (nat mx) D)"
    have kD: "keys_ok D" by (rule lacks_keys [OF lD F])
    have "\<not> rank (fst p) D < nat mx" using p nth_rank [OF kD p(1)] by (auto simp: in_set_conv_nth)
    moreover have "rank (fst p) D \<le> rank (fst p) F" using lD F p(1) by (intro rank_subseq) (simp_all add: lacks_def)
    ultimately show "mx \<le> int (rank (fst p) F) \<or> stale ttl c (snd p)" by linarith
  qed
  moreover have "rev (dc_cache (prune_cache c s)) = take (nat mx) D"
    using prune_cache_rev [OF kC, of c] s by (simp add: C_def D_def)
  ultimately show ?thesis by simp
qed

lemma history_ok_cons: "history_ok g c \<Longrightarrow> c \<le> now \<Longrightarrow> history_ok ((k, now) # g) now"
  by (fastforce simp: history_ok_def)

lemma history_ok_later: "history_ok g c \<Longrightarrow> c \<le> now \<Longrightarrow> history_ok g now"
  by (fastforce simp: history_ok_def)

lemma cache_ok_later: "cache_ok ttl mx g c s \<Longrightarrow> c \<le> now \<Longrightarrow> cache_ok ttl mx g now s"
  using history_ok_later lacks_later unfolding cache_ok_def by blast

lemma cache_keys: "cache_ok ttl mx g c s \<Longrightarrow> keys_ok (dc_cache s)"
  using lacks_keys [OF _ firsts_keys_ok, of ttl mx c g "rev (dc_cache s)"] by (simp add: cache_ok_def keys_ok_def flip: rev_map)

lemma length_touch: "keys_ok m \<Longrightarrow> k \<in> fst ` set m \<Longrightarrow> length (touch k now m) = length m"
proof -
  assume k: "keys_ok m" "k \<in> fst ` set m"
  have "length (touch k now m) = Suc (card (fst ` set (map_del k m)))"
    using distinct_card [of "map fst (map_del k m)"] keys_ok_map_del [OF k(1), of k]
    by (simp add: touch_def map_put_def keys_map_del keys_ok_def)
  also have "\<dots> = card (fst ` set m)" using k(2) card.remove [of "fst ` set m" k] by (simp add: keys_map_del)
  also have "\<dots> = length m" using k(1) distinct_card [of "map fst m"] by (simp add: keys_ok_def)
  finally show ?thesis .
qed

lemma lookup_ok:
  assumes ok: "cache_ok ttl mx g c s" and c: "c \<le> now"
  shows "fst (has_unexpired k now True s) \<Longrightarrow> cache_ok ttl mx ((k, now) # g) now (snd (has_unexpired k now True s))"
    and "cache_ok ttl mx g now (snd (has_unexpired k now False s))"
proof -
  note o = cache_ok_later [OF ok c]
  note kc = cache_keys [OF ok]
  have l: "lacks ttl mx now (firsts g) (rev (dc_cache s))" using o by (simp add: cache_ok_def)
  have h: "history_ok ((k, now) # g) now" using ok history_ok_cons [OF _ c] by (simp add: cache_ok_def)
  show "cache_ok ttl mx ((k, now) # g) now (snd (has_unexpired k now True s))" if hit: "fst (has_unexpired k now True s)"
  proof -
    obtain t where t: "map_of (dc_cache s) k = Some t" "\<not> stale (dc_ttl s) now t" using hit unfolding has_unexpired_hit by blast
    then have "snd (has_unexpired k now True s) = s\<lparr>dc_cache := touch k now (dc_cache s)\<rparr>"
      by (auto simp: has_unexpired_def stale_def)
    moreover have "k \<in> fst ` set (dc_cache s)" using t(1) by (force dest: map_of_SomeD)
    ultimately show ?thesis
      using o h lacks_touch [OF l firsts_keys_ok] length_touch [OF kc] by (simp add: cache_ok_def touch_rev)
  qed
  show "cache_ok ttl mx g now (snd (has_unexpired k now False s))"
  proof (cases "map_of (dc_cache s) k")
    case (Some t)
    have "lacks ttl mx now (firsts g) (rev (map_del k (dc_cache s)))" if "stale ttl now t"
    proof (rule lacks_drop [OF l])
      show "subseq (rev (map_del k (dc_cache s))) (rev (dc_cache s))" by (simp add: map_del_def rev_filter subseq_filter_left)
      fix p
      assume "p \<in> set (rev (dc_cache s))" "p \<notin> set (rev (map_del k (dc_cache s)))"
      then have "p \<in> set (dc_cache s)" "fst p = k" by (auto simp: map_del_def)
      then have "snd p = t" using Some keys_ok_map_of_mem [OF kc, of k "snd p"] by (cases p) auto
      with that show "mx \<le> int (rank (fst p) (firsts g)) \<or> stale ttl now (snd p)" by simp
    qed
    moreover have "length (map_del k (dc_cache s)) \<le> length (dc_cache s)" by (simp add: map_del_def)
    ultimately show ?thesis using o Some by (auto simp: has_unexpired_def cache_ok_def stale_def)
  qed (use o in \<open>simp add: has_unexpired_def\<close>)
qed

lemma miss_ok:
  assumes ok: "cache_ok ttl mx g c s" and c: "c \<le> now" and miss: "\<not> fst (has_unexpired k now True s)"
  shows "cache_ok ttl mx ((k, now) # g) now
    (prune_cache now ((snd (has_unexpired k now True s))\<lparr>dc_cache := touch k now (dc_cache (snd (has_unexpired k now True s)))\<rparr>))"
proof -
  have "map_del k (dc_cache (snd (has_unexpired k now True s))) = map_del k (dc_cache s)"
    using miss by (auto simp: has_unexpired_def map_del_idem split: option.splits if_splits)
  then have t: "touch k now (dc_cache (snd (has_unexpired k now True s))) = touch k now (dc_cache s)" by (simp add: touch_def)
  define u where "u = (snd (has_unexpired k now True s))\<lparr>dc_cache := touch k now (dc_cache s)\<rparr>"
  have u: "dc_ttl u = ttl" "dc_max u = mx" "dc_cache u = touch k now (dc_cache s)" and mx: "0 \<le> mx"
    using ok by (auto simp: u_def has_unexpired_def cache_ok_def split: option.splits)
  have "lacks ttl mx now (firsts ((k, now) # g)) (rev (dc_cache u))"
    using lacks_touch [OF lacks_later [OF _ c] firsts_keys_ok] ok by (simp add: u(3) touch_rev cache_ok_def)
  then have l: "lacks ttl mx now (firsts ((k, now) # g)) (rev (dc_cache (prune_cache now u)))"
    using u mx by (intro prune_lacks firsts_keys_ok)
  have ku: "keys_ok (dc_cache u)" by (simp add: u(3) touch_def keys_ok_map_put keys_ok_map_del cache_keys [OF ok])
  have "length (rev (dc_cache (prune_cache now u))) \<le> nat mx" using prune_cache_rev [OF ku, of now] u mx by simp
  then have "int (length (dc_cache (prune_cache now u))) \<le> mx" using mx by simp
  moreover have "dc_ttl (prune_cache now u) = ttl" "dc_max (prune_cache now u) = mx" using u by (simp_all add: prune_cache_def Let_def)
  ultimately have "cache_ok ttl mx ((k, now) # g) now (prune_cache now u)"
    using l ok history_ok_cons [OF _ c] by (simp add: cache_ok_def)
  then show ?thesis by (simp add: t u_def)
qed

lemma exec_reference:
  assumes "cache_ok ttl mx g c s" "c \<le> call_time e"
  shows "fst (cache_exec e s) = (truthy_key (call_key e) \<and> remembered ttl mx (the (call_key e)) (call_time e) g)"
    and "cache_ok ttl mx (next_history e g) (call_time e) (snd (cache_exec e s))"
proof -
  note o = cache_ok_later [OF assms]
  note hit = hit_exact [OF assms]
  show "fst (cache_exec e s) = (truthy_key (call_key e) \<and> remembered ttl mx (the (call_key e)) (call_time e) g)"
    using hit by (cases e) (auto simp: check_key_def peek_key_def truthy_key_def split_beta split: option.split)
  show "cache_ok ttl mx (next_history e g) (call_time e) (snd (cache_exec e s))"
    using o lookup_ok [OF assms] miss_ok [OF assms]
    by (cases e) (auto simp: check_key_def peek_key_def truthy_key_def split_beta split: option.split)
qed

lemma create_cache_ok: "cache_ok (max 0 ttl) (max 0 m) [] c (create_dedupe_cache ttl m)"
  by (simp add: cache_ok_def create_dedupe_cache_def history_ok_def lacks_def)

lemma answers_reference:
  "cache_ok ttl mx g c s \<Longrightarrow> sorted (c # map call_time es) \<Longrightarrow> cache_answers es s = reference_answers ttl mx es g"
proof (induction es arbitrary: g c s)
  case (Cons e es)
  then have c: "c \<le> call_time e" and so: "sorted (call_time e # map call_time es)" by auto
  show ?case
    using exec_reference(1) [OF Cons.prems(1) c] Cons.IH [OF exec_reference(2) [OF Cons.prems(1) c] so]
    by (simp add: split_beta)
qed simp

end
