(* ===== verification/HeartbeatCooldown.thy ===== *)
theory HeartbeatCooldown
  imports JsPrelude Contracts
begin

text \<open>
  The decision whether a wake of a heartbeat agent runs now or is deferred
  (\<open>openclaw-main/src/infra/heartbeat-cooldown.ts\<close>) and the bookkeeping of its caller
  (\<open>evaluateWakeDeferral\<close> and \<open>recordRunBookkeeping\<close> of \<open>heartbeat-runner.ts\<close>). Times are
  integers in milliseconds. The buffer of recent run starts is an \<open>evicting_queue\<close>, the guard
  against floods a \<open>limiter\<close>.
\<close>

section \<open>Decision\<close>

datatype wake_intent = ScheduledWake | EventWake | ImmediateWake | ManualWake

datatype defer_reason = NotDue | MinSpacing | Flood

datatype defer_decision = RunNow | Defer defer_reason

record defer_input =
  di_intent :: wake_intent
  di_now :: int
  di_next_due :: int
  di_last_run :: "int option"
  di_recent :: "int list option"
  di_min_spacing :: "int option"
  di_flood_window :: "int option"
  di_flood_threshold :: "int option"

definition default_min_spacing :: int where "default_min_spacing = 30000"
definition default_flood_window :: int where "default_flood_window = 60000"
definition default_flood_threshold :: int where "default_flood_threshold = 5"

definition opt_or :: "'a option \<Rightarrow> 'a \<Rightarrow> 'a" where
  "opt_or x d = (case x of None \<Rightarrow> d | Some v \<Rightarrow> v)"

text \<open>The loop of \<open>checkFloodGuard\<close>, from the last entry to the first old one.\<close>

fun count_back :: "int \<Rightarrow> int list \<Rightarrow> int" where
  "count_back start [] = 0"
| "count_back start (ts # rest) = (if ts < start then 0 else 1 + count_back start rest)"

definition check_flood_guard :: "defer_input \<Rightarrow> defer_decision option" where
  "check_flood_guard i =
     (let window = opt_or (di_flood_window i) default_flood_window;
          threshold = opt_or (di_flood_threshold i) default_flood_threshold
      in case di_recent i of
           None \<Rightarrow> None
         | Some recent \<Rightarrow>
             if int (length recent) < threshold \<or> window \<le> 0 then None
             else if threshold \<le> count_back (di_now i - window) (rev recent) then Some (Defer Flood) else None)"

definition should_defer_wake :: "defer_input \<Rightarrow> defer_decision" where
  "should_defer_wake i =
     (if di_intent i = ManualWake then RunNow
      else if di_intent i = ImmediateWake then opt_or (check_flood_guard i) RunNow
      else (case check_flood_guard i of Some d \<Rightarrow> d
        | None \<Rightarrow>
            if di_intent i = ScheduledWake then (if di_now i < di_next_due i then Defer NotDue else RunNow)
            else (case di_last_run i of None \<Rightarrow> RunNow
              | Some last_run \<Rightarrow>
                  let spacing = opt_or (di_min_spacing i) default_min_spacing
                  in if di_now i < di_next_due i then Defer NotDue
                     else if 0 < spacing \<and> di_now i - last_run < spacing then Defer MinSpacing else RunNow)))"

text \<open>\<open>recordRunStart\<close>: its loop ends only if the bound is not negative.\<close>

partial_function (option) shift_while :: "int \<Rightarrow> int list \<Rightarrow> int list option" where
  "shift_while bound buffer = (if bound < int (length buffer) then shift_while bound (tl buffer) else Some buffer)"

definition record_run_start :: "int list \<Rightarrow> int \<Rightarrow> int option \<Rightarrow> int list option" where
  "record_run_start buffer ts threshold =
     shift_while (opt_or threshold default_flood_threshold + 1) (buffer @ [ts])"

section \<open>Bookkeeping of an agent\<close>

record heartbeat_agent =
  ha_next_due :: int
  ha_last_run :: "int option"
  ha_recent :: "int list"
  ha_flood_logged :: bool

definition wake_input :: "wake_intent \<Rightarrow> int \<Rightarrow> heartbeat_agent \<Rightarrow> defer_input" where
  "wake_input intent now a = \<lparr>di_intent = intent, di_now = now, di_next_due = ha_next_due a, di_last_run = ha_last_run a,
     di_recent = Some (ha_recent a), di_min_spacing = None, di_flood_window = None, di_flood_threshold = None\<rparr>"

definition evaluate_wake :: "wake_intent \<Rightarrow> int \<Rightarrow> heartbeat_agent \<Rightarrow> defer_decision \<times> heartbeat_agent" where
  "evaluate_wake intent now a =
     (let d = should_defer_wake (wake_input intent now a)
      in (d, if d = Defer Flood then a\<lparr>ha_flood_logged := True\<rparr> else a))"

definition record_run :: "int \<Rightarrow> heartbeat_agent \<Rightarrow> heartbeat_agent" where
  "record_run now a = a\<lparr>ha_last_run := Some now,
     ha_recent := opt_or (record_run_start (ha_recent a) now None) [], ha_flood_logged := False\<rparr>"

section \<open>Lemmas\<close>

lemma shift_while_eq:
  "0 \<le> bound \<Longrightarrow> shift_while bound buffer = Some (drop (length buffer - nat bound) buffer)"
proof (induction buffer)
  case Nil
  then show ?case by (simp add: shift_while.simps [of bound "[]"])
next
  case (Cons x xs)
  then show ?case
    by (cases "bound < int (length (x # xs))")
       (auto simp: shift_while.simps [of bound "x # xs"] Suc_diff_le nat_le_iff)
qed

lemma shift_while_diverges: "bound < 0 \<Longrightarrow> shift_while bound buffer = None"
proof (rule ccontr)
  assume b: "bound < 0" and "shift_while bound buffer \<noteq> None"
  then obtain r where "shift_while bound buffer = Some r" by auto
  then have "bound < 0 \<longrightarrow> False"
    by (rule shift_while.raw_induct [rotated]) (auto split: if_splits)
  with b show False by simp
qed

text \<open>Recording a run start returns if and only if the threshold is at least minus one.\<close>

lemma record_run_start_returns:
  "record_run_start buffer ts (Some threshold) =
     (if -1 \<le> threshold then Some (drop (Suc (length buffer) - nat (threshold + 1)) (buffer @ [ts])) else None)"
  by (simp add: record_run_start_def opt_or_def shift_while_eq shift_while_diverges)

lemma record_run_start_default:
  "record_run_start buffer ts None = Some (drop (length buffer - 5) (buffer @ [ts]))"
  by (simp add: record_run_start_def opt_or_def default_flood_threshold_def shift_while_eq)

lemma opt_or_simps [simp]: "opt_or None d = d" "opt_or (Some v) d = v"
  by (simp_all add: opt_or_def)

interpretation recent: evicting_queue "\<lambda>ts buffer. opt_or (record_run_start buffer ts None) []" "\<lambda>buffer. buffer"
  "\<lambda>ts buffer. [ts]" "\<lambda>buffer. length buffer \<le> 6"
proof unfold_locales
  show "\<exists>k. opt_or (record_run_start s x None) [] = drop k (s @ [x])" for x s
    by (simp add: record_run_start_default del: drop_append) blast
qed (simp add: record_run_start_default)

lemma count_back_eq: "count_back start ts = int (length (takeWhile (\<lambda>t. start \<le> t) ts))"
  by (induction ts) auto

lemma take_while_sorted: "sorted_wrt (\<ge>) ts \<Longrightarrow> takeWhile (\<lambda>t. start \<le> t) ts = filter (\<lambda>t. start \<le> t) (ts :: int list)"
proof (induction ts)
  case (Cons t ts)
  show ?case
  proof (cases "start \<le> t")
    case False
    with Cons.prems have "filter (\<lambda>t. start \<le> t) ts = []" by (fastforce simp: filter_empty_conv)
    with False show ?thesis by simp
  qed (use Cons in simp)
qed simp

lemma count_back_sorted:
  assumes "sorted ts" shows "count_back start (rev ts) = int (length (filter (\<lambda>t. start \<le> t) ts))"
proof -
  have "sorted_wrt (\<ge>) (rev ts)" using assms by (simp add: sorted_wrt_rev)
  then have "count_back start (rev ts) = int (length (filter (\<lambda>t. start \<le> t) (rev ts)))"
    unfolding count_back_eq by (simp only: take_while_sorted)
  then show ?thesis by (simp add: rev_filter [symmetric])
qed

lemma sorted_recent_many:
  "sorted ts \<Longrightarrow> k \<le> length (filter (\<lambda>t. start \<le> t) ts) \<longleftrightarrow>
     k \<le> length ts \<and> (k = 0 \<or> start \<le> (ts ! (length ts - k) :: int))"
proof (induction ts)
  case (Cons t ts)
  show ?case
  proof (cases "start \<le> t")
    case True
    with Cons.prems have all: "\<forall>u \<in> set (t # ts). start \<le> u" by auto
    then have "filter (\<lambda>t. start \<le> t) (t # ts) = t # ts" by (rule filter_True)
    moreover have "start \<le> (t # ts) ! (length (t # ts) - k)" if "0 < k" "k \<le> length (t # ts)"
      using bspec [OF all nth_mem [of "length (t # ts) - k" "t # ts"]] that by linarith
    ultimately show ?thesis by auto
  next
    case False
    then have "filter (\<lambda>t. start \<le> t) (t # ts) = filter (\<lambda>t. start \<le> t) ts" by simp
    moreover have "(t # ts) ! (length (t # ts) - k) = ts ! (length ts - k)" if "k \<le> length ts"
      using that by (simp add: Suc_diff_le)
    moreover have "sorted ts" using Cons.prems by simp
    ultimately show ?thesis using Cons.IH False by (cases "k = Suc (length ts)") auto
  qed
qed auto

section \<open>The agent and its history\<close>

definition agent_track :: "int list \<Rightarrow> int \<Rightarrow> heartbeat_agent \<Rightarrow> bool" where
  "agent_track h c a \<longleftrightarrow> sorted h \<and> (\<forall>t \<in> set h. t \<le> c) \<and> ha_recent a = drop (length h - 6) h \<and>
     ha_last_run a = (if h = [] then None else Some (last h))"

definition in_window :: "int \<Rightarrow> int list \<Rightarrow> nat" where
  "in_window now h = length (filter (\<lambda>t. now - default_flood_window \<le> t) h)"

text \<open>The reference decides on all run starts of the agent.\<close>

definition reference_decision :: "wake_intent \<Rightarrow> int \<Rightarrow> int \<Rightarrow> int list \<Rightarrow> defer_decision" where
  "reference_decision intent now next_due h =
     (if intent = ManualWake then RunNow
      else if default_flood_threshold \<le> int (in_window now h) then Defer Flood
      else if intent = ImmediateWake then RunNow
      else if intent = EventWake \<and> h = [] then RunNow
      else if now < next_due then Defer NotDue
      else if intent = EventWake \<and> now - last h < default_min_spacing then Defer MinSpacing
      else RunNow)"

lemma suc_minus_six: "6 \<le> n \<Longrightarrow> Suc (n - 6) = n - (5::nat)"
  by linarith

lemma flood_guard_reference:
  assumes "agent_track h c a"
  shows "check_flood_guard (wake_input intent now a) =
     (if default_flood_threshold \<le> int (in_window now h) then Some (Defer Flood) else None)"
proof -
  let ?r = "drop (length h - 6) h" and ?start = "now - default_flood_window"
  have so: "sorted h" "sorted ?r" using assms by (simp_all add: agent_track_def sorted_wrt_drop)
  have "5 \<le> length (filter (\<lambda>t. ?start \<le> t) ?r) \<longleftrightarrow> 5 \<le> length ?r \<and> ?start \<le> ?r ! (length ?r - 5)"
    using sorted_recent_many [OF so(2), of 5] by simp
  also have "\<dots> \<longleftrightarrow> 5 \<le> length h \<and> ?start \<le> h ! (length h - 5)"
    by (cases "6 \<le> length h") (auto simp: suc_minus_six)
  also have "\<dots> \<longleftrightarrow> 5 \<le> in_window now h" using sorted_recent_many [OF so(1), of 5] by (simp add: in_window_def)
  finally have e: "5 \<le> length (filter (\<lambda>t. ?start \<le> t) ?r) \<longleftrightarrow> 5 \<le> in_window now h" .
  have n: "\<not> 5 \<le> in_window now h" if "length ?r < 5"
    using that e length_filter_le [of "\<lambda>t. ?start \<le> t" ?r] by linarith
  have r: "ha_recent a = ?r" using assms by (simp add: agent_track_def)
  show ?thesis
    unfolding check_flood_guard_def wake_input_def defer_input.simps opt_or_simps option.case Let_def r count_back_sorted [OF so(2)]
    using e n by (auto simp: default_flood_threshold_def default_flood_window_def simp del: length_drop)
qed

lemma decision_reference:
  assumes "agent_track h c a"
  shows "should_defer_wake (wake_input intent now a) = reference_decision intent now (ha_next_due a) h"
proof -
  have f: "check_flood_guard (wake_input intent now a) =
     (if default_flood_threshold \<le> int (in_window now h) then Some (Defer Flood) else None)"
    by (rule flood_guard_reference [OF assms])
  have l: "ha_last_run a = (if h = [] then None else Some (last h))" using assms by (simp add: agent_track_def)
  show ?thesis
    unfolding should_defer_wake_def f reference_decision_def
    by (cases intent) (auto simp: wake_input_def l Let_def default_min_spacing_def)
qed

lemma record_run_track:
  assumes "agent_track h c a" "c \<le> t" shows "agent_track (h @ [t]) t (record_run t a)"
proof -
  have "drop (length (drop (length h - 6) h) - 5) (drop (length h - 6) h @ [t]) = drop (length (h @ [t]) - 6) (h @ [t])"
    by (cases "6 \<le> length h") (auto simp: suc_minus_six)
  then show ?thesis
    using assms by (fastforce simp: agent_track_def record_run_def record_run_start_default sorted_append)
qed

definition new_agent :: "int \<Rightarrow> heartbeat_agent" where
  "new_agent next_due = \<lparr>ha_next_due = next_due, ha_last_run = None, ha_recent = [], ha_flood_logged = False\<rparr>"

lemma new_agent_track: "agent_track [] c (new_agent d)"
  by (simp add: agent_track_def new_agent_def)

lemma record_runs_track:
  "agent_track h c a \<Longrightarrow> sorted (c # ts) \<Longrightarrow> agent_track (h @ ts) (last (c # ts)) (fold record_run ts a)"
proof (induction ts arbitrary: h c a)
  case (Cons t ts)
  then have "agent_track (h @ [t]) t (record_run t a)" by (intro record_run_track) auto
  from Cons.IH [OF this] Cons.prems show ?case by simp
qed simp

text \<open>A wake of an agent: the scheduler may have moved the due time; a wake that is not deferred
  starts a run.\<close>

type_synonym wake = "wake_intent \<times> int \<times> int"

fun heartbeat_step :: "wake \<Rightarrow> heartbeat_agent \<Rightarrow> bool \<times> heartbeat_agent" where
  "heartbeat_step (intent, t, due) a =
     (let (d, a1) = evaluate_wake intent t (a\<lparr>ha_next_due := due\<rparr>)
      in if d = RunNow then (True, record_run t a1) else (False, a1))"

fun wake_time :: "wake \<Rightarrow> int" where
  "wake_time (intent, t, due) = t"

fun automatic :: "wake \<Rightarrow> bool" where
  "automatic (intent, t, due) = (intent \<noteq> ManualWake)"

lemma agent_track_later: "agent_track h c a \<Longrightarrow> c \<le> t \<Longrightarrow> agent_track h t a"
  by (fastforce simp: agent_track_def)

lemma agent_track_other [simp]:
  "agent_track h c (a\<lparr>ha_next_due := d\<rparr>) = agent_track h c a" "agent_track h c (a\<lparr>ha_flood_logged := b\<rparr>) = agent_track h c a"
  by (simp_all add: agent_track_def)

lemma evaluate_wake_track: "agent_track h c (snd (evaluate_wake intent t a)) = agent_track h c a"
  by (simp add: evaluate_wake_def Let_def)

lemma heartbeat_step_late:
  assumes tr: "agent_track h c a" and e: "automatic e" "fst (heartbeat_step e a)" and n: "5 \<le> length h"
  shows "h ! (length h - 5) + default_flood_window \<le> wake_time e"
proof -
  obtain intent t due where x: "e = (intent, t, due)" by (cases e)
  have "should_defer_wake (wake_input intent t (a\<lparr>ha_next_due := due\<rparr>)) = RunNow"
    using e(2) x by (simp add: evaluate_wake_def Let_def split: if_splits)
  then have "reference_decision intent t due h = RunNow" using decision_reference [of h c "a\<lparr>ha_next_due := due\<rparr>"] tr by simp
  then have "\<not> 5 \<le> in_window t h"
    using e(1) x by (simp add: reference_decision_def default_flood_threshold_def split: if_splits)
  moreover have "sorted h" using tr by (simp add: agent_track_def)
  ultimately have "\<not> t - default_flood_window \<le> h ! (length h - 5)"
    using sorted_recent_many [of h 5 "t - default_flood_window"] n by (simp add: in_window_def)
  then show ?thesis using x by simp
qed

interpretation heartbeat: limiter heartbeat_step wake_time automatic agent_track 5 default_flood_window
proof unfold_locales
  fix h c a e
  assume a: "agent_track h c a" "c \<le> wake_time e" "automatic e"
  obtain intent t due where x: "e = (intent, t, due)" by (cases e)
  have tr: "agent_track h t (snd (evaluate_wake intent t (a\<lparr>ha_next_due := due\<rparr>)))"
    using agent_track_later [OF a(1,2)] x by (simp add: evaluate_wake_track)
  show "agent_track h (wake_time e) (snd (heartbeat_step e a))" if "\<not> fst (heartbeat_step e a)"
    using that tr x by (simp add: split_beta split: if_splits)
  assume f: "fst (heartbeat_step e a)"
  show "agent_track (h @ [wake_time e]) (wake_time e) (snd (heartbeat_step e a))"
    using f record_run_track [OF tr] x by (simp add: split_beta split: if_splits)
  show "h ! (length h - 5) + default_flood_window \<le> wake_time e" if "5 \<le> length h"
    using heartbeat_step_late [OF a(1,3) f that] .
qed simp

end
