(* ===== verification/NodePendingWork.thy ===== *)
theory NodePendingWork
  imports JsValue "HOL-Library.Multiset"
begin

text \<open>
  The work that the gateway keeps for nodes that are not connected
  (\<open>openclaw-main/src/gateway/node-pending-work.ts\<close>): per node at most one item of each type,
  handed out by priority and removed by acknowledgement or expiry. The clock, the identifier
  drawn by \<open>randomUUID\<close> and the collation \<open>localeCompare\<close> are arguments.
\<close>

section \<open>Items\<close>

datatype work_type = StatusRequest | LocationRequest

datatype work_priority = DefaultPriority | NormalPriority | HighPriority

fun priority_rank :: "work_priority \<Rightarrow> int" where
  "priority_rank HighPriority = 3"
| "priority_rank NormalPriority = 2"
| "priority_rank DefaultPriority = 1"

lemma priority_rank_inject [simp]: "priority_rank p = priority_rank q \<longleftrightarrow> p = q"
  by (cases p; cases q) simp_all

instantiation work_priority :: linorder
begin

definition less_eq_work_priority :: "work_priority \<Rightarrow> work_priority \<Rightarrow> bool" where
  "less_eq_work_priority p q \<longleftrightarrow> priority_rank p \<le> priority_rank q"

definition less_work_priority :: "work_priority \<Rightarrow> work_priority \<Rightarrow> bool" where
  "less_work_priority p q \<longleftrightarrow> priority_rank p < priority_rank q"

instance
  by standard (auto simp: less_eq_work_priority_def less_work_priority_def)

end

record work_item =
  wi_id :: jstring
  wi_type :: work_type
  wi_priority :: work_priority
  wi_created :: int
  wi_expires :: "int option"
  wi_payload :: "jsval option"

record node_state =
  ns_revision :: nat
  ns_items :: "(jstring, work_item) jmap"

type_synonym pending_work = "(jstring, node_state) jmap"

definition default_status_id :: jstring where "default_status_id = js ''baseline-status''"
definition default_max_items :: int where "default_max_items = 4"
definition max_items_limit :: int where "max_items_limit = 10"

definition empty_state :: node_state where
  "empty_state = \<lparr>ns_revision = 0, ns_items = []\<rparr>"

definition get_or_create_state :: "jstring \<Rightarrow> pending_work \<Rightarrow> node_state" where
  "get_or_create_state node w = (case map_of w node of Some s \<Rightarrow> s | None \<Rightarrow> empty_state)"

definition expired :: "int \<Rightarrow> work_item \<Rightarrow> bool" where
  "expired now item = (case wi_expires item of None \<Rightarrow> False | Some t \<Rightarrow> t \<le> now)"

definition prune_expired :: "int \<Rightarrow> node_state \<Rightarrow> node_state" where
  "prune_expired now s =
     (let kept = filter (\<lambda>(k, item). \<not> expired now item) (ns_items s); changed = list_ex (\<lambda>(k, item). expired now item) (ns_items s)
      in s\<lparr>ns_items := kept, ns_revision := (if changed then Suc (ns_revision s) else ns_revision s)\<rparr>)"

definition prune_state_if_empty :: "jstring \<Rightarrow> node_state \<Rightarrow> pending_work \<Rightarrow> pending_work" where
  "prune_state_if_empty node s w = (if ns_items s = [] then map_del node w else w)"

definition compare_items :: "(jstring \<Rightarrow> jstring \<Rightarrow> int) \<Rightarrow> work_item \<Rightarrow> work_item \<Rightarrow> int" where
  "compare_items collate a b =
     (let delta = priority_rank (wi_priority b) - priority_rank (wi_priority a) in
      if delta \<noteq> 0 then delta
      else if wi_created a \<noteq> wi_created b then wi_created a - wi_created b
      else collate (wi_id a) (wi_id b))"

definition sorted_items :: "(jstring \<Rightarrow> jstring \<Rightarrow> int) \<Rightarrow> node_state \<Rightarrow> work_item list" where
  "sorted_items collate s = sort_by (compare_items collate) (map snd (ns_items s))"

definition baseline_status_item :: "int \<Rightarrow> work_item" where
  "baseline_status_item now = \<lparr>wi_id = default_status_id, wi_type = StatusRequest, wi_priority = DefaultPriority,
     wi_created = now, wi_expires = None, wi_payload = None\<rparr>"

section \<open>Operations\<close>

record enqueue_answer =
  ea_revision :: nat
  ea_item :: work_item
  ea_deduped :: bool

datatype pending_error = NodeIdRequired

record work_request =
  wr_node :: jstring
  wr_type :: work_type
  wr_priority :: "work_priority option"
  wr_expires_in :: "int option"
  wr_payload :: "jsval option"

definition build_item :: "work_request \<Rightarrow> int \<Rightarrow> jstring \<Rightarrow> work_item" where
  "build_item r now uuid = \<lparr>wi_id = uuid, wi_type = wr_type r,
     wi_priority = (case wr_priority r of None \<Rightarrow> NormalPriority | Some p \<Rightarrow> p), wi_created = now,
     wi_expires = (case wr_expires_in r of None \<Rightarrow> None | Some ms \<Rightarrow> Some (now + max 1000 ms)), wi_payload = wr_payload r\<rparr>"

definition enqueue_pending ::
  "work_request \<Rightarrow> int \<Rightarrow> jstring \<Rightarrow> pending_work \<Rightarrow> (pending_error + enqueue_answer) \<times> pending_work" where
  "enqueue_pending r now uuid w =
     (let node = trim (wr_node r) in
      if node = [] then (Inl NodeIdRequired, w)
      else (let s = prune_expired now (get_or_create_state node w) in
            case List.find (\<lambda>item. wi_type item = wr_type r) (map snd (ns_items s)) of
              Some existing \<Rightarrow> (Inr \<lparr>ea_revision = ns_revision s, ea_item = existing, ea_deduped = True\<rparr>, map_put node s w)
            | None \<Rightarrow>
                (let item = build_item r now uuid;
                     s1 = s\<lparr>ns_items := map_put (wi_id item) item (ns_items s), ns_revision := Suc (ns_revision s)\<rparr>
                 in (Inr \<lparr>ea_revision = ns_revision s1, ea_item = item, ea_deduped = False\<rparr>, map_put node s1 w))))"

record drain_options =
  do_max_items :: "int option"
  do_include_default :: "bool option"
  do_now :: "int option"

record drain_answer =
  da_revision :: nat
  da_items :: "work_item list"
  da_has_more :: bool

definition drain_limit :: "drain_options \<Rightarrow> int" where
  "drain_limit opts = min max_items_limit (max 1 (case do_max_items opts of None \<Rightarrow> default_max_items | Some n \<Rightarrow> n))"

definition drain_pending ::
  "(jstring \<Rightarrow> jstring \<Rightarrow> int) \<Rightarrow> jstring \<Rightarrow> drain_options \<Rightarrow> int \<Rightarrow> pending_work \<Rightarrow> drain_answer \<times> pending_work" where
  "drain_pending collate node_id opts clock w =
     (let node = trim node_id in
      if node = [] then (\<lparr>da_revision = 0, da_items = [], da_has_more = False\<rparr>, w)
      else (let now = (case do_now opts of None \<Rightarrow> clock | Some t \<Rightarrow> t);
                state = map_option (prune_expired now) (map_of w node);
                revision = (case map_of w node of None \<Rightarrow> 0 | Some s \<Rightarrow> ns_revision s);
                w1 = (case state of None \<Rightarrow> w | Some s \<Rightarrow> prune_state_if_empty node s (map_put node s w));
                limit = drain_limit opts;
                explicit = (case state of None \<Rightarrow> [] | Some s \<Rightarrow> sorted_items collate s);
                has_status = list_ex (\<lambda>item. wi_type item = StatusRequest) explicit;
                include_baseline = (do_include_default opts \<noteq> Some False \<and> \<not> has_status);
                first = slice explicit 0 limit;
                items = (if include_baseline \<and> int (length first) < limit then first @ [baseline_status_item now] else first);
                returned = length (filter (\<lambda>item. wi_id item \<noteq> default_status_id) items);
                baseline_included = list_ex (\<lambda>item. wi_id item = default_status_id) items
            in (\<lparr>da_revision = revision, da_items = items,
                 da_has_more = (returned < length explicit \<or> (include_baseline \<and> \<not> baseline_included))\<rparr>, w1)))"

definition ack_one :: "jstring \<Rightarrow> (jstring, work_item) jmap \<times> jstring list \<Rightarrow> (jstring, work_item) jmap \<times> jstring list" where
  "ack_one item_id acc =
     (let (items, removed) = acc; k = trim item_id in
      if k = [] \<or> k = default_status_id then acc
      else if k \<in> fst ` set items then (map_del k items, removed @ [k]) else acc)"

definition acknowledge_pending :: "jstring \<Rightarrow> jstring list \<Rightarrow> pending_work \<Rightarrow> (nat \<times> jstring list) \<times> pending_work" where
  "acknowledge_pending node_id item_ids w =
     (let node = trim node_id in
      if node = [] then ((0, []), w)
      else (case map_of w node of None \<Rightarrow> ((0, []), w)
      | Some s \<Rightarrow>
          (let (items, removed) = fold ack_one item_ids (ns_items s, []);
               s1 = s\<lparr>ns_items := items, ns_revision := (if removed \<noteq> [] then Suc (ns_revision s) else ns_revision s)\<rparr>
           in ((ns_revision s1, removed), prune_state_if_empty node s1 (map_put node s1 w)))))"

definition reset_pending :: "pending_work \<Rightarrow> pending_work" where
  "reset_pending w = []"

definition pending_state_count :: "pending_work \<Rightarrow> nat" where
  "pending_state_count w = length w"

section \<open>Invariant\<close>

definition state_ok :: "node_state \<Rightarrow> bool" where
  "state_ok s \<longleftrightarrow> keys_ok (ns_items s) \<and> distinct (map (\<lambda>(k, item). wi_type item) (ns_items s)) \<and>
     (\<forall>(k, item) \<in> set (ns_items s). wi_id item = k \<and> k \<noteq> default_status_id)"

definition work_ok :: "pending_work \<Rightarrow> bool" where
  "work_ok w \<longleftrightarrow> keys_ok w \<and> (\<forall>(node, s) \<in> set w. state_ok s \<and> ns_items s \<noteq> [])"

datatype pending_op =
    EnqueueOp work_request int jstring
  | DrainOp jstring drain_options int
  | AckOp jstring "jstring list"
  | ResetOp

fun pending_exec :: "(jstring \<Rightarrow> jstring \<Rightarrow> int) \<Rightarrow> pending_op \<Rightarrow> pending_work \<Rightarrow> pending_work" where
  "pending_exec collate (EnqueueOp r now uuid) w = snd (enqueue_pending r now uuid w)"
| "pending_exec collate (DrainOp node opts clock) w = snd (drain_pending collate node opts clock w)"
| "pending_exec collate (AckOp node ids) w = snd (acknowledge_pending node ids w)"
| "pending_exec collate ResetOp w = reset_pending w"

text \<open>A drawn identifier is new and not the one of the baseline item.\<close>

fun uuid_fresh :: "pending_op \<Rightarrow> pending_work \<Rightarrow> bool" where
  "uuid_fresh (EnqueueOp r now uuid) w =
     (uuid \<noteq> default_status_id \<and> uuid \<notin> fst ` set (ns_items (get_or_create_state (trim (wr_node r)) w)))"
| "uuid_fresh op w = True"

inductive pending_reachable :: "(jstring \<Rightarrow> jstring \<Rightarrow> int) \<Rightarrow> pending_work \<Rightarrow> bool" for collate where
  pending_start: "pending_reachable collate []"
| pending_step: "pending_reachable collate w \<Longrightarrow> uuid_fresh op w \<Longrightarrow> pending_reachable collate (pending_exec collate op w)"

lemma state_ok_filter: "state_ok s \<Longrightarrow> state_ok (s\<lparr>ns_items := filter P (ns_items s), ns_revision := r\<rparr>)"
  by (auto simp: state_ok_def keys_ok_def distinct_map_filter)

lemma state_ok_prune: "state_ok s \<Longrightarrow> state_ok (prune_expired now s)"
  using state_ok_filter [of s] by (simp add: prune_expired_def Let_def)

lemma work_ok_state: "work_ok w \<Longrightarrow> state_ok (get_or_create_state node w)"
  by (auto simp: work_ok_def get_or_create_state_def empty_state_def state_ok_def dest!: map_of_SomeD split: option.split)

lemma work_ok_put: "work_ok w \<Longrightarrow> state_ok s \<Longrightarrow> ns_items s \<noteq> [] \<Longrightarrow> work_ok (map_put node s w)"
proof -
  assume a: "work_ok w" "state_ok s" "ns_items s \<noteq> []"
  have k: "keys_ok (map_put node s w)" using a(1) by (simp add: work_ok_def js_intros)
  have "state_ok t \<and> ns_items t \<noteq> []" if "(n, t) \<in> set (map_put node s w)" for n t
  proof -
    have "map_of (map_put node s w) n = Some t" using that k by (simp add: keys_ok_map_of_mem)
    with a show ?thesis by (auto simp: js_simps work_ok_def dest!: map_of_SomeD split: if_splits)
  qed
  with k show ?thesis by (auto simp: work_ok_def)
qed

lemma work_ok_del: "work_ok w \<Longrightarrow> work_ok (map_del node w)"
  by (auto simp: work_ok_def js_intros map_del_def keys_ok_def distinct_map_filter)

lemma map_del_put: "map_del node (map_put node s w) = map_del node w"
proof -
  have "map_del node (alist_replace node s w) = map_del node w" by (induction w) (auto simp: map_del_def)
  then show ?thesis by (simp add: map_put_def) (simp add: map_del_def)
qed

lemma work_ok_settle: "work_ok w \<Longrightarrow> state_ok s \<Longrightarrow> work_ok (prune_state_if_empty node s (map_put node s w))"
  by (simp add: prune_state_if_empty_def map_del_put work_ok_del work_ok_put)

lemma find_none: "List.find P xs = None \<Longrightarrow> x \<in> set xs \<Longrightarrow> \<not> P x"
  by (metis find_None_iff)

lemma state_ok_add:
  assumes "state_ok s" "wi_id item \<noteq> default_status_id" "wi_id item \<notin> fst ` set (ns_items s)"
    "List.find (\<lambda>i. wi_type i = wi_type item) (map snd (ns_items s)) = None"
  shows "state_ok (s\<lparr>ns_items := map_put (wi_id item) item (ns_items s), ns_revision := r\<rparr>)"
proof -
  have m: "map_put (wi_id item) item (ns_items s) = ns_items s @ [(wi_id item, item)]" using assms(3) by (simp add: map_put_def)
  have "wi_type item \<notin> set (map (\<lambda>(k, i). wi_type i) (ns_items s))"
  proof
    assume "wi_type item \<in> set (map (\<lambda>(k, i). wi_type i) (ns_items s))"
    then obtain k i where "(k, i) \<in> set (ns_items s)" "wi_type i = wi_type item" by auto
    moreover from this have "i \<in> set (map snd (ns_items s))" by force
    ultimately show False using find_none [OF assms(4)] by blast
  qed
  with assms(1-3) show ?thesis unfolding state_ok_def node_state.simps m by (simp add: keys_ok_def)
qed

lemma map_put_not_Nil [simp]: "map_put k v m \<noteq> []"
  by (metis map_of_map_put fun_upd_same map_of.simps(1) option.distinct(1))

lemma enqueue_pending_ok:
  assumes "work_ok w" "uuid_fresh (EnqueueOp r now uuid) w"
  shows "work_ok (snd (enqueue_pending r now uuid w))"
proof -
  let ?node = "trim (wr_node r)"
  define s where "s = prune_expired now (get_or_create_state ?node w)"
  have s: "state_ok s" using assms(1) by (simp add: s_def work_ok_state state_ok_prune)
  have f: "uuid \<notin> fst ` set (ns_items s)" "uuid \<noteq> default_status_id"
    using assms(2) by (auto simp: s_def prune_expired_def Let_def)
  show ?thesis
  proof (cases "List.find (\<lambda>item. wi_type item = wr_type r) (map snd (ns_items s))")
    case None
    let ?item = "build_item r now uuid"
    let ?s1 = "s\<lparr>ns_items := map_put (wi_id ?item) ?item (ns_items s), ns_revision := Suc (ns_revision s)\<rparr>"
    have "state_ok ?s1" using s f None by (intro state_ok_add) (simp_all add: build_item_def)
    moreover have "ns_items ?s1 \<noteq> []" by simp
    ultimately have "work_ok (map_put ?node ?s1 w)" by (intro work_ok_put assms(1))
    with None assms(1) show ?thesis by (simp add: enqueue_pending_def Let_def flip: s_def)
  next
    case (Some item)
    then have "ns_items s \<noteq> []" by auto
    with Some assms(1) s show ?thesis by (simp add: enqueue_pending_def Let_def work_ok_put flip: s_def)
  qed
qed

lemma drain_pending_ok: "work_ok w \<Longrightarrow> work_ok (snd (drain_pending collate node opts clock w))"
  using work_ok_state [of w "trim node"]
  by (auto simp: drain_pending_def Let_def get_or_create_state_def work_ok_settle state_ok_prune split: option.split)

lemma ack_one_items: "\<exists>P. fst (ack_one k acc) = filter P (fst acc)"
  by (auto simp: ack_one_def Let_def split_beta map_del_def intro: exI [of _ "\<lambda>x. True"])

lemma ack_fold_items: "\<exists>P. fst (fold ack_one ks acc) = filter P (fst acc)"
proof (induction ks arbitrary: acc)
  case (Cons k ks)
  obtain P Q where "fst (ack_one k acc) = filter P (fst acc)" "fst (fold ack_one ks (ack_one k acc)) = filter Q (fst (ack_one k acc))"
    using ack_one_items Cons.IH by meson
  then show ?case by (auto simp: filter_filter)
qed (auto intro: exI [of _ "\<lambda>x. True"])

lemma acknowledge_pending_ok: "work_ok w \<Longrightarrow> work_ok (snd (acknowledge_pending node ids w))"
proof -
  assume w: "work_ok w"
  show ?thesis
  proof (cases "map_of w (trim node)")
    case (Some s)
    with w have s: "state_ok s" by (auto simp: work_ok_def dest: map_of_SomeD)
    obtain P where "fst (fold ack_one ids (ns_items s, [])) = filter P (ns_items s)" using ack_fold_items [of ids "(ns_items s, [])"] by auto
    with w Some show ?thesis
      by (simp add: acknowledge_pending_def Let_def split_beta work_ok_settle state_ok_filter [OF s])
  qed (use w in \<open>simp add: acknowledge_pending_def Let_def\<close>)
qed

lemma work_ok_Nil: "work_ok []"
  by (simp add: work_ok_def)

lemma pending_exec_ok: "work_ok w \<Longrightarrow> uuid_fresh op w \<Longrightarrow> work_ok (pending_exec collate op w)"
  using enqueue_pending_ok [of w]
  by (cases op) (simp_all add: drain_pending_ok acknowledge_pending_ok reset_pending_def work_ok_Nil)

lemma pending_reachable_ok: "pending_reachable collate w \<Longrightarrow> work_ok w"
  by (induction rule: pending_reachable.induct) (auto intro: pending_exec_ok work_ok_Nil)

section \<open>What a drain hands out\<close>

definition live_items :: "jstring \<Rightarrow> int \<Rightarrow> pending_work \<Rightarrow> work_item list" where
  "live_items node now w = filter (\<lambda>item. \<not> expired now item) (map snd (ns_items (get_or_create_state node w)))"

lemma sort_by_key_sorted:
  assumes "\<And>x y. cmp x y \<le> 0 \<Longrightarrow> key y \<le> (key x :: 'b :: linorder)" "\<And>x y. \<not> cmp x y \<le> 0 \<Longrightarrow> key x \<le> key y"
  shows "sorted_wrt (\<lambda>x y. key y \<le> key x) (sort_by cmp xs)"
proof -
  have ins: "sorted_wrt (\<lambda>x y. key y \<le> key x) ys \<Longrightarrow> sorted_wrt (\<lambda>x y. key y \<le> key x) (ins_by cmp z ys)" for z ys
  proof (induction ys)
    case (Cons y ys)
    with assms [of z y] show ?case by (auto intro: order_trans)
  qed simp
  show ?thesis by (induction xs) (simp_all add: ins)
qed

lemma compare_priority:
  "compare_items collate a b \<le> 0 \<Longrightarrow> wi_priority b \<le> wi_priority a"
  "\<not> compare_items collate a b \<le> 0 \<Longrightarrow> wi_priority a \<le> wi_priority b"
  by (auto simp: compare_items_def Let_def less_eq_work_priority_def split: if_splits)

lemma sorted_items_priority: "sorted_wrt (\<lambda>a b. wi_priority b \<le> wi_priority a) (sorted_items collate s)"
  unfolding sorted_items_def by (rule sort_by_key_sorted) (auto intro: compare_priority)

lemma default_least: "DefaultPriority \<le> p"
  by (cases p) (simp_all add: less_eq_work_priority_def)

lemma mset_sort_by: "mset (sort_by cmp xs) = mset xs"
proof -
  have ins: "mset (ins_by cmp x ys) = add_mset x (mset ys)" for x ys by (induction ys) simp_all
  show ?thesis by (induction xs) (simp_all add: ins)
qed

lemma types_at_most_two: "distinct (ts :: work_type list) \<Longrightarrow> length ts \<le> 2"
proof -
  assume "distinct ts"
  then have "length ts = card (set ts)" by (simp add: distinct_card)
  also have "\<dots> \<le> card {StatusRequest, LocationRequest}" by (rule card_mono) (auto intro: work_type.exhaust)
  finally show ?thesis by simp
qed

definition drain_now :: "drain_options \<Rightarrow> int \<Rightarrow> int" where
  "drain_now opts clock = (case do_now opts of None \<Rightarrow> clock | Some t \<Rightarrow> t)"

definition explicit_items :: "(jstring \<Rightarrow> jstring \<Rightarrow> int) \<Rightarrow> jstring \<Rightarrow> int \<Rightarrow> pending_work \<Rightarrow> work_item list" where
  "explicit_items collate node now w = sorted_items collate (prune_expired now (get_or_create_state node w))"

lemma drain_explicit:
  "(case map_option (prune_expired now) (map_of w node) of None \<Rightarrow> [] | Some s \<Rightarrow> sorted_items collate s) =
     explicit_items collate node now w"
  by (simp add: explicit_items_def get_or_create_state_def empty_state_def prune_expired_def sorted_items_def split: option.split)

lemma explicit_mset: "mset (explicit_items collate node now w) = mset (live_items node now w)"
  by (simp add: explicit_items_def live_items_def sorted_items_def mset_sort_by prune_expired_def Let_def filter_map comp_def split_def)

lemma explicit_set: "set (explicit_items collate node now w) = set (live_items node now w)"
  using explicit_mset by (rule mset_eq_setD)

lemma explicit_types:
  assumes "work_ok w" shows "distinct (map wi_type (explicit_items collate node now w))"
proof -
  have "distinct (map (\<lambda>(k, item). wi_type item) (ns_items (prune_expired now (get_or_create_state node w))))"
    using state_ok_prune [OF work_ok_state [OF assms]] by (simp add: state_ok_def)
  then have "distinct (map wi_type (map snd (ns_items (prune_expired now (get_or_create_state node w)))))"
    by (simp add: comp_def split_def)
  moreover have "mset (map wi_type (explicit_items collate node now w)) =
      mset (map wi_type (map snd (ns_items (prune_expired now (get_or_create_state node w)))))"
    unfolding explicit_items_def sorted_items_def mset_map [of wi_type] mset_sort_by ..
  ultimately show ?thesis using mset_eq_imp_distinct_iff by blast
qed

lemma explicit_length: "work_ok w \<Longrightarrow> length (explicit_items collate node now w) \<le> 2"
  using types_at_most_two [OF explicit_types] by simp

lemma explicit_ids: "work_ok w \<Longrightarrow> i \<in> set (explicit_items collate node now w) \<Longrightarrow> wi_id i \<noteq> default_status_id"
  using state_ok_prune [OF work_ok_state, of w now node]
  by (auto simp: explicit_items_def sorted_items_def state_ok_def)

lemma one_status:
  "distinct (map wi_type xs) \<Longrightarrow> length (filter (\<lambda>i. wi_type i = StatusRequest) xs) =
     (if list_ex (\<lambda>i. wi_type i = StatusRequest) xs then 1 else 0)"
proof (induction xs)
  case (Cons x xs)
  then show ?case by (auto simp: filter_empty_conv list_ex_iff image_iff)
qed simp

lemma no_status_length:
  assumes "distinct (map wi_type xs)" "\<not> list_ex (\<lambda>i. wi_type i = StatusRequest) xs"
  shows "length xs \<le> 1"
proof -
  have "set (map wi_type xs) \<subseteq> {LocationRequest}" using assms(2) by (auto simp: list_ex_iff) (metis work_type.exhaust)
  then have "card (set (map wi_type xs)) \<le> 1" using card_mono [of "{LocationRequest}"] by force
  with assms(1) show ?thesis by (metis distinct_card length_map)
qed

lemma drain_items:
  fixes collate :: "jstring \<Rightarrow> jstring \<Rightarrow> int" and clock :: int
  assumes "work_ok w" "trim node \<noteq> []" "2 \<le> drain_limit opts"
  defines "now \<equiv> drain_now opts clock"
  defines "ex \<equiv> explicit_items collate (trim node) now w"
  shows "da_items (fst (drain_pending collate node opts clock w)) =
      ex @ (if do_include_default opts \<noteq> Some False \<and> \<not> list_ex (\<lambda>i. wi_type i = StatusRequest) ex
            then [baseline_status_item now] else [])" (is "_ = ex @ ?b")
    and "da_has_more (fst (drain_pending collate node opts clock w)) = False"
proof -
  have l: "length ex \<le> 2" using explicit_length [OF assms(1)] by (simp add: ex_def)
  then have sl: "slice ex 0 (drain_limit opts) = ex" using assms(3) by simp
  have len: "int (length ex) < drain_limit opts" if "\<not> list_ex (\<lambda>i. wi_type i = StatusRequest) ex"
    using no_status_length [OF _ that] explicit_types [OF assms(1)] assms(3) by (fastforce simp: ex_def)
  have ids: "\<forall>i \<in> set ex. wi_id i \<noteq> default_status_id" using explicit_ids [OF assms(1)] by (simp add: ex_def)
  then have f: "filter (\<lambda>item. wi_id item \<noteq> default_status_id) ex = ex" by simp
  have b: "wi_id (baseline_status_item now) = default_status_id" by (simp add: baseline_status_item_def)
  show "da_items (fst (drain_pending collate node opts clock w)) = ex @ ?b"
    unfolding drain_pending_def Let_def drain_explicit drain_now_def [symmetric] now_def [symmetric] ex_def [symmetric] sl
    using assms(2) len by auto
  show "da_has_more (fst (drain_pending collate node opts clock w)) = False"
    unfolding drain_pending_def Let_def drain_explicit drain_now_def [symmetric] now_def [symmetric] ex_def [symmetric] sl
    using assms(2) len f b by (auto simp: list_ex_iff)
qed

text \<open>An item leaves its node only by expiry, acknowledgement or the reset of the tests.\<close>

definition item_at :: "jstring \<Rightarrow> jstring \<Rightarrow> pending_work \<Rightarrow> work_item option" where
  "item_at node k w = map_of (ns_items (get_or_create_state node w)) k"

fun op_now :: "pending_op \<Rightarrow> int option" where
  "op_now (EnqueueOp r now uuid) = Some now"
| "op_now (DrainOp node opts clock) = Some (drain_now opts clock)"
| "op_now op = None"

fun acks :: "pending_op \<Rightarrow> jstring \<Rightarrow> jstring \<Rightarrow> bool" where
  "acks (AckOp node ids) n k = (trim node = n \<and> k \<in> set (map trim ids))"
| "acks ResetOp n k = True"
| "acks op n k = False"

lemma item_at_put: "item_at node k (map_put n s w) = (if node = n then map_of (ns_items s) k else item_at node k w)"
  by (simp add: item_at_def get_or_create_state_def js_simps)

lemma item_at_settle:
  "item_at node k (prune_state_if_empty n s (map_put n s w)) = (if node = n then map_of (ns_items s) k else item_at node k w)"
  by (auto simp: prune_state_if_empty_def map_del_put item_at_put) 
     (auto simp: item_at_def get_or_create_state_def empty_state_def js_simps)

lemma prune_keeps: "map_of (ns_items s) k = Some i \<Longrightarrow> keys_ok (ns_items s) \<Longrightarrow> \<not> expired now i \<Longrightarrow>
  map_of (ns_items (prune_expired now s)) k = Some i"
  by (simp add: keys_ok_map_of_mem prune_expired_def Let_def keys_ok_def distinct_map_filter)

lemma ack_one_keeps:
  "trim x \<noteq> k \<Longrightarrow> map_of (fst (ack_one x acc)) k = map_of (fst acc) k"
  by (auto simp: ack_one_def Let_def split_beta js_simps)

lemma ack_fold_keeps: "k \<notin> set (map trim xs) \<Longrightarrow> map_of (fst (fold ack_one xs acc)) k = map_of (fst acc) k"
  by (induction xs arbitrary: acc) (auto simp: ack_one_keeps)

lemma pending_item_kept:
  assumes w: "work_ok w" and f: "uuid_fresh op w" and i: "item_at node k w = Some i"
    and a: "\<not> acks op node k" and e: "\<And>now. op_now op = Some now \<Longrightarrow> \<not> expired now i"
  shows "item_at node k (pending_exec collate op w) = Some i"
proof -
  have k: "keys_ok (ns_items (get_or_create_state node w))" using work_ok_state [OF w] by (simp add: state_ok_def)
  note pk = prune_keeps [OF i [unfolded item_at_def] k]
  show ?thesis
  proof (cases op)
    case (EnqueueOp r now uuid)
    then have "k \<noteq> uuid \<or> node \<noteq> trim (wr_node r)" using f i by (auto simp: item_at_def dest: map_of_SomeD intro: rev_image_eqI)
    with EnqueueOp pk e [of now] i show ?thesis
      by (auto simp: enqueue_pending_def Let_def item_at_put js_simps build_item_def split: option.split)
  next
    case (DrainOp n opts clock)
    with pk e [of "drain_now opts clock"] i show ?thesis
      by (auto simp: drain_pending_def Let_def item_at_settle get_or_create_state_def drain_now_def split: option.split)
  next
    case (AckOp n ids)
    with a i show ?thesis
      by (auto simp: acknowledge_pending_def Let_def split_beta item_at_settle ack_fold_keeps split: option.split)
         (auto simp: item_at_def get_or_create_state_def ack_fold_keeps)
  qed (use a in simp)
qed

end
