(* ===== verification/ExecApprovals.thy ===== *)
theory ExecApprovals
  imports JsPrelude
begin

text \<open>
  The manager of pending approvals (\<open>openclaw-main/src/gateway/exec-approval-manager.ts\<close>).
  Records are objects that the caller and the manager share, so they live in a store and are
  named by address (\<open>am_records\<close>); promises are numbered, \<open>am_promises\<close> holds the record of
  each, \<open>am_settled\<close> the values they were resolved with. Armed timers and scheduled cleanups are
  part of the state, and their firing is an operation. The clock and the identifier drawn by
  \<open>randomUUID\<close> are arguments; \<open>'p\<close> is the type of the request.
\<close>

section \<open>State\<close>

datatype approval_decision = AllowOnce | AllowAlways | Deny

record 'p approval_record =
  ar_id :: jstring
  ar_request :: 'p
  ar_created :: int
  ar_expires :: int
  ar_by_conn :: "jstring option"
  ar_by_device :: "jstring option"
  ar_by_client :: "jstring option"
  ar_by_token :: "bool option"
  ar_resolved_at :: "int option"
  ar_decision :: "approval_decision option"
  ar_consumed :: "approval_decision option"
  ar_resolved_by :: "jstring option"

record pending_entry =
  pe_record :: nat
  pe_promise :: nat

record 'p approval_manager =
  am_pending :: "(jstring, pending_entry) jmap"
  am_records :: "'p approval_record list"
  am_promises :: "nat list"
  am_settled :: "(nat \<times> approval_decision option) list"
  am_timers :: "(nat \<times> jstring) list"
  am_cleanups :: "(nat \<times> jstring) list"
  am_consumed :: "nat list"

definition new_approval_manager :: "'p approval_manager" where
  "new_approval_manager = \<lparr>am_pending = [], am_records = [], am_promises = [], am_settled = [], am_timers = [],
     am_cleanups = [], am_consumed = []\<rparr>"

definition record_at :: "nat \<Rightarrow> 'p approval_manager \<Rightarrow> 'p approval_record" where
  "record_at a m = am_records m ! a"

definition write_record :: "nat \<Rightarrow> 'p approval_record \<Rightarrow> 'p approval_manager \<Rightarrow> 'p approval_manager" where
  "write_record a r m = m\<lparr>am_records := (am_records m)[a := r]\<rparr>"

definition unresolved :: "'p approval_record \<Rightarrow> bool" where
  "unresolved r \<longleftrightarrow> ar_resolved_at r = None"

section \<open>Operations\<close>

definition create_approval :: "'p \<Rightarrow> int \<Rightarrow> jstring option \<Rightarrow> int \<Rightarrow> jstring \<Rightarrow> 'p approval_manager \<Rightarrow> nat \<times> 'p approval_manager" where
  "create_approval request timeout_ms key now uuid m =
     (let resolved_id = (case key of None \<Rightarrow> uuid | Some s \<Rightarrow> if trim s = [] then uuid else trim s);
          r = \<lparr>ar_id = resolved_id, ar_request = request, ar_created = now, ar_expires = now + timeout_ms, ar_by_conn = None,
               ar_by_device = None, ar_by_client = None, ar_by_token = None, ar_resolved_at = None, ar_decision = None,
               ar_consumed = None, ar_resolved_by = None\<rparr>
      in (length (am_records m), m\<lparr>am_records := am_records m @ [r]\<rparr>))"

definition already_resolved :: "jstring \<Rightarrow> jstring" where
  "already_resolved key = js ''approval id '' @ [39] @ key @ [39] @ js '' already resolved''"

definition register_approval :: "nat \<Rightarrow> 'p approval_manager \<Rightarrow> (jstring + nat) \<times> 'p approval_manager" where
  "register_approval a m =
     (let key = ar_id (record_at a m) in
      case map_of (am_pending m) key of
        Some existing \<Rightarrow>
          if unresolved (record_at (pe_record existing) m) then (Inr (pe_promise existing), m)
          else (Inl (already_resolved key), m)
      | None \<Rightarrow>
          (let p = length (am_promises m); e = \<lparr>pe_record = a, pe_promise = p\<rparr>
           in (Inr p, m\<lparr>am_promises := am_promises m @ [a], am_timers := am_timers m @ [(p, key)],
                        am_pending := map_put key e (am_pending m)\<rparr>)))"

definition wait_for_decision :: "nat \<Rightarrow> 'p approval_manager \<Rightarrow> (jstring + nat) \<times> 'p approval_manager" where
  "wait_for_decision = register_approval"

text \<open>The common end of \<open>resolve\<close> and \<open>expire\<close>: clear the timer, fill in the record, settle the
  promise, schedule the cleanup.\<close>

definition finish_entry :: "jstring \<Rightarrow> approval_decision option \<Rightarrow> jstring option \<Rightarrow> int \<Rightarrow> 'p approval_manager \<Rightarrow> bool \<times> 'p approval_manager" where
  "finish_entry key d by_whom now m =
     (case map_of (am_pending m) key of None \<Rightarrow> (False, m)
      | Some e \<Rightarrow>
          (let r = record_at (pe_record e) m in
           if \<not> unresolved r then (False, m)
           else (True, (write_record (pe_record e) (r\<lparr>ar_resolved_at := Some now, ar_decision := d, ar_resolved_by := by_whom\<rparr>) m)
                  \<lparr>am_timers := filter (\<lambda>t. fst t \<noteq> pe_promise e) (am_timers m),
                   am_settled := am_settled m @ [(pe_promise e, d)],
                   am_cleanups := am_cleanups m @ [(pe_promise e, key)]\<rparr>)))"

definition resolve_approval :: "jstring \<Rightarrow> approval_decision \<Rightarrow> jstring option \<Rightarrow> int \<Rightarrow> 'p approval_manager \<Rightarrow> bool \<times> 'p approval_manager" where
  "resolve_approval key d by_whom now m = finish_entry key (Some d) by_whom now m"

definition expire_approval :: "jstring \<Rightarrow> jstring option \<Rightarrow> int \<Rightarrow> 'p approval_manager \<Rightarrow> bool \<times> 'p approval_manager" where
  "expire_approval key by_whom now m = finish_entry key None by_whom now m"

definition timer_fires :: "nat \<Rightarrow> int \<Rightarrow> 'p approval_manager \<Rightarrow> 'p approval_manager" where
  "timer_fires p now m =
     (case List.find (\<lambda>t. fst t = p) (am_timers m) of None \<Rightarrow> m
      | Some (q, key) \<Rightarrow>
          snd (expire_approval key None now (m\<lparr>am_timers := filter (\<lambda>t. fst t \<noteq> p) (am_timers m)\<rparr>)))"

definition cleanup_fires :: "nat \<Rightarrow> 'p approval_manager \<Rightarrow> 'p approval_manager" where
  "cleanup_fires p m =
     (case List.find (\<lambda>t. fst t = p) (am_cleanups m) of None \<Rightarrow> m
      | Some (q, key) \<Rightarrow>
          (let m1 = m\<lparr>am_cleanups := filter (\<lambda>t. fst t \<noteq> p) (am_cleanups m)\<rparr> in
           case map_of (am_pending m) key of None \<Rightarrow> m1
           | Some e \<Rightarrow> if pe_promise e = p then m1\<lparr>am_pending := map_del key (am_pending m)\<rparr> else m1))"

definition get_snapshot :: "jstring \<Rightarrow> 'p approval_manager \<Rightarrow> 'p approval_record option" where
  "get_snapshot key m = map_option (\<lambda>e. record_at (pe_record e) m) (map_of (am_pending m) key)"

definition list_pending_records :: "'p approval_manager \<Rightarrow> 'p approval_record list" where
  "list_pending_records m = filter unresolved (map (\<lambda>(key, e). record_at (pe_record e) m) (am_pending m))"

definition consume_allow_once :: "jstring \<Rightarrow> 'p approval_manager \<Rightarrow> bool \<times> 'p approval_manager" where
  "consume_allow_once key m =
     (case map_of (am_pending m) key of None \<Rightarrow> (False, m)
      | Some e \<Rightarrow>
          (let r = record_at (pe_record e) m in
           if ar_decision r \<noteq> Some AllowOnce then (False, m)
           else (True, (write_record (pe_record e) (r\<lparr>ar_consumed := ar_decision r, ar_decision := None\<rparr>) m)
                  \<lparr>am_consumed := am_consumed m @ [pe_record e]\<rparr>)))"

definition await_decision :: "jstring \<Rightarrow> 'p approval_manager \<Rightarrow> nat option" where
  "await_decision key m = map_option pe_promise (map_of (am_pending m) key)"

datatype id_lookup = ExactId jstring | PrefixId jstring | AmbiguousIds "jstring list" | NoId

record 'p lookup_options =
  lo_include_resolved :: bool
  lo_filter :: "('p approval_record \<Rightarrow> bool) option"

definition passes :: "'p lookup_options \<Rightarrow> 'p approval_record \<Rightarrow> bool" where
  "passes opts r \<longleftrightarrow> (lo_include_resolved opts \<or> unresolved r) \<and> (case lo_filter opts of None \<Rightarrow> True | Some f \<Rightarrow> f r)"

definition lookup_approval_id :: "jstring \<Rightarrow> 'p lookup_options \<Rightarrow> 'p approval_manager \<Rightarrow> id_lookup" where
  "lookup_approval_id input opts m =
     (let normalized = trim input in
      if normalized = [] then NoId
      else (case map_of (am_pending m) normalized of
        Some e \<Rightarrow> if passes opts (record_at (pe_record e) m) then ExactId normalized else NoId
      | None \<Rightarrow>
          (let matches = map fst (filter (\<lambda>(key, e). passes opts (record_at (pe_record e) m) \<and>
                 starts_with (lower (trim key)) (lower normalized)) (am_pending m))
           in case matches of [] \<Rightarrow> NoId | [key] \<Rightarrow> PrefixId key | ids \<Rightarrow> AmbiguousIds ids)))"

definition lookup_pending_id :: "jstring \<Rightarrow> 'p approval_manager \<Rightarrow> id_lookup" where
  "lookup_pending_id input = lookup_approval_id input \<lparr>lo_include_resolved = False, lo_filter = None\<rparr>"

section \<open>Runs\<close>

datatype 'p approval_op =
    CreateOp 'p int "jstring option" int jstring
  | RegisterOp nat
  | ResolveOp jstring approval_decision "jstring option" int
  | ExpireOp jstring "jstring option" int
  | TimerOp nat int
  | CleanupOp nat
  | ConsumeOp jstring

fun approval_exec :: "'p approval_op \<Rightarrow> 'p approval_manager \<Rightarrow> 'p approval_manager" where
  "approval_exec (CreateOp request timeout key now uuid) m = snd (create_approval request timeout key now uuid m)"
| "approval_exec (RegisterOp a) m = snd (register_approval a m)"
| "approval_exec (ResolveOp key d by_whom now) m = snd (resolve_approval key d by_whom now m)"
| "approval_exec (ExpireOp key by_whom now) m = snd (expire_approval key by_whom now m)"
| "approval_exec (TimerOp p now) m = timer_fires p now m"
| "approval_exec (CleanupOp p) m = cleanup_fires p m"
| "approval_exec (ConsumeOp key) m = snd (consume_allow_once key m)"

text \<open>Callers register records they have created.\<close>

fun op_known :: "'p approval_op \<Rightarrow> 'p approval_manager \<Rightarrow> bool" where
  "op_known (RegisterOp a) m = (a < length (am_records m))"
| "op_known op m = True"

inductive approval_reachable :: "'p approval_manager \<Rightarrow> bool" where
  approval_start: "approval_reachable new_approval_manager"
| approval_step: "approval_reachable m \<Longrightarrow> op_known op m \<Longrightarrow> approval_reachable (approval_exec op m)"

section \<open>Invariant\<close>

text \<open>The verdict of a record: the decision, also after it has been consumed.\<close>

definition verdict :: "'p approval_record \<Rightarrow> approval_decision option" where
  "verdict r = (case ar_consumed r of Some d \<Rightarrow> Some d | None \<Rightarrow> ar_decision r)"

definition record_ok :: "'p approval_record \<Rightarrow> bool" where
  "record_ok r \<longleftrightarrow> (unresolved r \<longrightarrow> ar_decision r = None \<and> ar_consumed r = None) \<and>
     (ar_consumed r \<noteq> None \<longrightarrow> ar_consumed r = Some AllowOnce \<and> ar_decision r = None)"

definition entry_ok :: "'p approval_manager \<Rightarrow> jstring \<Rightarrow> pending_entry \<Rightarrow> bool" where
  "entry_ok m key e \<longleftrightarrow> pe_promise e < length (am_promises m) \<and> am_promises m ! pe_promise e = pe_record e \<and>
     (unresolved (record_at (pe_record e) m) \<longrightarrow> (pe_promise e, key) \<in> set (am_timers m))"

definition settled_ok :: "'p approval_manager \<Rightarrow> nat \<Rightarrow> approval_decision option \<Rightarrow> bool" where
  "settled_ok m p v \<longleftrightarrow> p < length (am_promises m) \<and> \<not> unresolved (record_at (am_promises m ! p) m) \<and>
     verdict (record_at (am_promises m ! p) m) = v"

definition timer_ok :: "'p approval_manager \<Rightarrow> nat \<Rightarrow> jstring \<Rightarrow> bool" where
  "timer_ok m p key \<longleftrightarrow> p < length (am_promises m) \<and> (\<exists>e. map_of (am_pending m) key = Some e \<and> pe_promise e = p)"

definition pending_ok :: "'p approval_manager \<Rightarrow> bool" where
  "pending_ok m \<longleftrightarrow> keys_ok (am_pending m) \<and> (\<forall>key e. map_of (am_pending m) key = Some e \<longrightarrow> entry_ok m key e) \<and>
     (\<forall>a \<in> set (am_promises m). a < length (am_records m)) \<and>
     (\<forall>(p, key) \<in> set (am_timers m). timer_ok m p key) \<and>
     (\<forall>(p, key) \<in> set (am_cleanups m). p < length (am_promises m) \<and> p \<notin> fst ` set (am_timers m))"

definition answers_ok :: "'p approval_manager \<Rightarrow> bool" where
  "answers_ok m \<longleftrightarrow> (\<forall>r \<in> set (am_records m). record_ok r) \<and>
     distinct (map fst (am_settled m)) \<and> (\<forall>(p, v) \<in> set (am_settled m). settled_ok m p v) \<and> distinct (am_consumed m) \<and>
     (\<forall>a \<in> set (am_consumed m). a < length (am_records m) \<and> ar_consumed (record_at a m) = Some AllowOnce)"

definition approvals_ok :: "'p approval_manager \<Rightarrow> bool" where
  "approvals_ok m \<longleftrightarrow> pending_ok m \<and> answers_ok m"

lemma entry_facts:
  assumes "approvals_ok m" "map_of (am_pending m) key = Some e"
  shows "pe_promise e < length (am_promises m)" "am_promises m ! pe_promise e = pe_record e"
    "pe_record e < length (am_records m)" "record_ok (record_at (pe_record e) m)"
    "unresolved (record_at (pe_record e) m) \<Longrightarrow> (pe_promise e, key) \<in> set (am_timers m)"
proof -
  have e: "entry_ok m key e" using assms by (simp add: approvals_ok_def pending_ok_def)
  then show "pe_promise e < length (am_promises m)" "am_promises m ! pe_promise e = pe_record e"
    "unresolved (record_at (pe_record e) m) \<Longrightarrow> (pe_promise e, key) \<in> set (am_timers m)" by (simp_all add: entry_ok_def)
  then show r: "pe_record e < length (am_records m)" using assms(1) by (auto simp: approvals_ok_def pending_ok_def dest: nth_mem)
  then show "record_ok (record_at (pe_record e) m)" using assms(1) by (simp add: approvals_ok_def answers_ok_def record_at_def)
qed

lemma record_at_write [simp]:
  "a < length (am_records m) \<Longrightarrow> record_at b (write_record a r m) = (if b = a then r else record_at b m)"
  by (simp add: record_at_def write_record_def nth_list_update)

lemma record_at_fields [simp]:
  "record_at a (m\<lparr>am_timers := x\<rparr>) = record_at a m" "record_at a (m\<lparr>am_settled := y\<rparr>) = record_at a m"
  "record_at a (m\<lparr>am_cleanups := z\<rparr>) = record_at a m" "record_at a (m\<lparr>am_consumed := c\<rparr>) = record_at a m"
  "record_at a (m\<lparr>am_pending := q\<rparr>) = record_at a m" "record_at a (m\<lparr>am_promises := w\<rparr>) = record_at a m"
  by (simp_all add: record_at_def)

lemma write_record_fields [simp]:
  "am_pending (write_record a r m) = am_pending m" "am_promises (write_record a r m) = am_promises m"
  "am_settled (write_record a r m) = am_settled m" "am_timers (write_record a r m) = am_timers m"
  "am_cleanups (write_record a r m) = am_cleanups m" "am_consumed (write_record a r m) = am_consumed m"
  "length (am_records (write_record a r m)) = length (am_records m)"
  by (simp_all add: write_record_def)

lemma records_write: "\<forall>r \<in> set (am_records m). record_ok r \<Longrightarrow> record_ok r' \<Longrightarrow>
  \<forall>r \<in> set (am_records (write_record a r' m)). record_ok r"
  using set_update_subset_insert [of "am_records m" a r'] by (auto simp: write_record_def)

text \<open>The state after an entry has been settled.\<close>

definition settle_state :: "jstring \<Rightarrow> pending_entry \<Rightarrow> approval_decision option \<Rightarrow> jstring option \<Rightarrow> int \<Rightarrow> 'p approval_manager \<Rightarrow> 'p approval_manager" where
  "settle_state key e d by_whom now m =
     (write_record (pe_record e) ((record_at (pe_record e) m)\<lparr>ar_resolved_at := Some now, ar_decision := d, ar_resolved_by := by_whom\<rparr>) m)
       \<lparr>am_timers := filter (\<lambda>t. fst t \<noteq> pe_promise e) (am_timers m), am_settled := am_settled m @ [(pe_promise e, d)],
        am_cleanups := am_cleanups m @ [(pe_promise e, key)]\<rparr>"

lemma settle_state_fields [simp]:
  "am_pending (settle_state key e d by_whom now m) = am_pending m"
  "am_promises (settle_state key e d by_whom now m) = am_promises m"
  "length (am_records (settle_state key e d by_whom now m)) = length (am_records m)"
  "am_timers (settle_state key e d by_whom now m) = filter (\<lambda>t. fst t \<noteq> pe_promise e) (am_timers m)"
  "am_cleanups (settle_state key e d by_whom now m) = am_cleanups m @ [(pe_promise e, key)]"
  "am_settled (settle_state key e d by_whom now m) = am_settled m @ [(pe_promise e, d)]"
  "am_consumed (settle_state key e d by_whom now m) = am_consumed m"
  by (simp_all add: settle_state_def)

lemma settle_state_record:
  "pe_record e < length (am_records m) \<Longrightarrow> record_at b (settle_state key e d by_whom now m) =
     (if b = pe_record e then (record_at b m)\<lparr>ar_resolved_at := Some now, ar_decision := d, ar_resolved_by := by_whom\<rparr>
      else record_at b m)"
  by (simp add: settle_state_def)

lemma timer_ok_cong: "am_promises m = am_promises n \<Longrightarrow> am_pending m = am_pending n \<Longrightarrow> timer_ok m p key = timer_ok n p key"
  by (simp add: timer_ok_def)

lemma finish_entry_eq:
  "snd (finish_entry key d by_whom now m) = (case map_of (am_pending m) key of None \<Rightarrow> m
     | Some e \<Rightarrow> if unresolved (record_at (pe_record e) m) then settle_state key e d by_whom now m else m)"
  by (simp add: finish_entry_def settle_state_def Let_def split: option.split)

lemma settle_pending:
  assumes ok: "approvals_ok m" and e: "map_of (am_pending m) key = Some e" "unresolved (record_at (pe_record e) m)"
  shows "pending_ok (settle_state key e d by_whom now m)"
proof -
  note f = entry_facts [OF ok e(1)]
  have p: "pending_ok m" using ok by (simp add: approvals_ok_def)
  let ?t = "settle_state key e d by_whom now m"
  have "entry_ok ?t k x" if x: "map_of (am_pending m) k = Some x" for k x
    using entry_facts [OF ok x] f by (auto simp: entry_ok_def settle_state_record unresolved_def split: if_splits)
  moreover have "\<forall>(q, k) \<in> set (am_timers ?t). timer_ok ?t q k"
    using p timer_ok_cong [of ?t m] by (auto simp: pending_ok_def)
  moreover have "\<forall>(q, k) \<in> set (am_cleanups ?t). q < length (am_promises ?t) \<and> q \<notin> fst ` set (am_timers ?t)"
    using p f(1) by (auto simp: pending_ok_def)
  ultimately show ?thesis using p unfolding pending_ok_def by simp
qed

lemma settle_answers:
  assumes ok: "approvals_ok m" and e: "map_of (am_pending m) key = Some e" "unresolved (record_at (pe_record e) m)"
  shows "answers_ok (settle_state key e d by_whom now m)"
proof -
  let ?t = "settle_state key e d by_whom now m"
  note f = entry_facts [OF ok e(1)]
  have a: "answers_ok m" using ok by (simp add: approvals_ok_def)
  have nc: "ar_consumed (record_at (pe_record e) m) = None" using f(4) e(2) by (simp add: record_ok_def)
  have old: "settled_ok ?t q v" "q \<noteq> pe_promise e" if "(q, v) \<in> set (am_settled m)" for q v
  proof -
    have s: "settled_ok m q v" using a that by (auto simp: answers_ok_def)
    then have "am_promises m ! q \<noteq> pe_record e" using e(2) by (auto simp: settled_ok_def)
    with s f show "settled_ok ?t q v" "q \<noteq> pe_promise e" by (auto simp: settled_ok_def settle_state_record)
  qed
  have new: "settled_ok ?t (pe_promise e) d"
    using f nc by (simp add: settled_ok_def settle_state_record verdict_def unresolved_def)
  have "pe_promise e \<notin> fst ` set (am_settled m)"
  proof
    assume "pe_promise e \<in> fst ` set (am_settled m)"
    then obtain v where "(pe_promise e, v) \<in> set (am_settled m)" by (rule imageE) (metis prod.collapse)
    with old(2) show False by blast
  qed
  then have "distinct (map fst (am_settled ?t))" using a by (simp add: answers_ok_def)
  moreover have "\<forall>(q, v) \<in> set (am_settled ?t). settled_ok ?t q v" using old(1) new by auto
  moreover have "record_ok ((record_at (pe_record e) m)\<lparr>ar_resolved_at := Some now, ar_decision := d, ar_resolved_by := by_whom\<rparr>)"
    using nc by (simp add: record_ok_def unresolved_def)
  from records_write [OF _ this, of m "pe_record e"] have "\<forall>r \<in> set (am_records ?t). record_ok r"
    using a unfolding answers_ok_def settle_state_def by simp
  moreover have "\<forall>b \<in> set (am_consumed ?t). b < length (am_records ?t) \<and> ar_consumed (record_at b ?t) = Some AllowOnce"
    using a f(3) nc by (auto simp: answers_ok_def settle_state_record)
  ultimately show ?thesis using a unfolding answers_ok_def by simp
qed

lemma finish_entry_ok: "approvals_ok m \<Longrightarrow> approvals_ok (snd (finish_entry key d by_whom now m))"
  unfolding finish_entry_eq using settle_pending [of m] settle_answers [of m]
  by (auto simp: approvals_ok_def split: option.split)

lemma create_ok: assumes "approvals_ok m" shows "approvals_ok (snd (create_approval request timeout key now uuid m))"
proof -
  let ?t = "snd (create_approval request timeout key now uuid m)"
  have f: "am_pending ?t = am_pending m" "am_promises ?t = am_promises m" "am_settled ?t = am_settled m"
    "am_timers ?t = am_timers m" "am_cleanups ?t = am_cleanups m" "am_consumed ?t = am_consumed m"
    "length (am_records ?t) = Suc (length (am_records m))"
    by (simp_all add: create_approval_def Let_def)
  have r: "record_at a ?t = record_at a m" if "a < length (am_records m)" for a
    using that by (simp add: create_approval_def Let_def record_at_def nth_append)
  have p: "pending_ok m" and a: "answers_ok m" using assms by (simp_all add: approvals_ok_def)
  have b: "am_promises m ! q < length (am_records m)" if "q < length (am_promises m)" for q
    using p that by (simp add: pending_ok_def)
  have "\<forall>x \<in> set (am_records ?t). record_ok x"
    using a by (auto simp: answers_ok_def create_approval_def Let_def record_ok_def)
  moreover have "settled_ok ?t q v" if "(q, v) \<in> set (am_settled m)" for q v
    using a that b [of q] by (auto simp: answers_ok_def settled_ok_def f r)
  ultimately have "answers_ok ?t" using a unfolding answers_ok_def f by (auto simp: r)
  moreover have "entry_ok ?t k e" if "map_of (am_pending m) k = Some e" for k e
    using entry_facts [OF assms that] by (simp add: entry_ok_def f r)
  then have "pending_ok ?t" using p timer_ok_cong [of ?t m] by (auto simp: pending_ok_def f)
  ultimately show ?thesis by (simp add: approvals_ok_def)
qed

lemma register_ok:
  assumes ok: "approvals_ok m" and a: "a < length (am_records m)"
  shows "approvals_ok (snd (register_approval a m))"
proof (cases "map_of (am_pending m) (ar_id (record_at a m))")
  case None
  let ?k = "ar_id (record_at a m)" and ?p = "length (am_promises m)"
  let ?e = "\<lparr>pe_record = a, pe_promise = ?p\<rparr>"
  define t where "t = m\<lparr>am_promises := am_promises m @ [a], am_timers := am_timers m @ [(?p, ?k)], am_pending := map_put ?k ?e (am_pending m)\<rparr>"
  have p: "pending_ok m" and an: "answers_ok m" using ok by (simp_all add: approvals_ok_def)
  have r: "record_at b t = record_at b m" for b by (simp add: t_def)
  have pr: "am_promises t ! q = am_promises m ! q" if "q < ?p" for q using that by (simp add: t_def nth_append)
  have "settled_ok t q v" if "(q, v) \<in> set (am_settled m)" for q v
    using an that pr [of q] by (auto simp: answers_ok_def settled_ok_def r) (auto simp: t_def)
  then have "answers_ok t" using an by (auto simp: answers_ok_def r) (auto simp: t_def)
  moreover have "pending_ok t"
    unfolding pending_ok_def
  proof (intro conjI allI impI)
    show "keys_ok (am_pending t)" using p by (simp add: t_def pending_ok_def js_intros)
    show "entry_ok t k e" if "map_of (am_pending t) k = Some e" for k e
      using that entry_facts [OF ok, of k e] by (auto simp: t_def js_simps entry_ok_def nth_append split: if_splits)
    show "\<forall>b \<in> set (am_promises t). b < length (am_records t)" using p a by (simp add: t_def pending_ok_def)
    show "\<forall>(q, k) \<in> set (am_timers t). timer_ok t q k"
      using p None by (auto simp: t_def pending_ok_def timer_ok_def js_simps)
    show "\<forall>(q, k) \<in> set (am_cleanups t). q < length (am_promises t) \<and> q \<notin> fst ` set (am_timers t)"
      using p by (auto simp: t_def pending_ok_def)
  qed
  ultimately have "approvals_ok t" by (simp add: approvals_ok_def)
  with None show ?thesis by (simp add: register_approval_def Let_def t_def)
qed (use ok in \<open>simp add: register_approval_def Let_def\<close>)

lemma consume_ok: assumes ok: "approvals_ok m" shows "approvals_ok (snd (consume_allow_once key m))"
proof (cases "map_of (am_pending m) key")
  case (Some e)
  let ?r = "record_at (pe_record e) m"
  note f = entry_facts [OF ok Some]
  show ?thesis
  proof (cases "ar_decision ?r = Some AllowOnce")
    case True
    let ?r' = "?r\<lparr>ar_consumed := ar_decision ?r, ar_decision := None\<rparr>"
    define t where "t = (write_record (pe_record e) ?r' m)\<lparr>am_consumed := am_consumed m @ [pe_record e]\<rparr>"
    have p: "pending_ok m" and a: "answers_ok m" using ok by (simp_all add: approvals_ok_def)
    have nc: "ar_consumed ?r = None" "\<not> unresolved ?r" using f(4) True by (auto simp: record_ok_def)
    have r: "record_at b t = (if b = pe_record e then ?r' else record_at b m)" for b using f(3) by (simp add: t_def)
    have "entry_ok t k x" if "map_of (am_pending m) k = Some x" for k x
      using entry_facts [OF ok that] nc by (auto simp: entry_ok_def r unresolved_def) (auto simp: t_def)
    moreover have tf: "am_pending t = am_pending m" "am_promises t = am_promises m" "am_timers t = am_timers m"
      "am_cleanups t = am_cleanups m" "length (am_records t) = length (am_records m)" by (simp_all add: t_def)
    ultimately have "pending_ok t" using p timer_ok_cong [OF tf(2,1)] by (simp add: pending_ok_def tf)
    moreover have "settled_ok t q v" if "(q, v) \<in> set (am_settled m)" for q v
      using a that True nc by (auto simp: answers_ok_def settled_ok_def r tf verdict_def unresolved_def)
    then have "answers_ok t"
      using a f(3) nc True records_write [of m ?r' "pe_record e"]
      unfolding answers_ok_def by (auto simp: r) (auto simp: t_def record_ok_def unresolved_def)
    ultimately show ?thesis using Some True by (simp add: consume_allow_once_def Let_def approvals_ok_def t_def)
  qed (use Some ok in \<open>simp add: consume_allow_once_def Let_def\<close>)
qed (use ok in \<open>simp add: consume_allow_once_def\<close>)

text \<open>A timer that fires settles its own entry; disarming it alone would be harmless only for a
  resolved one.\<close>

lemma timer_find: "List.find (\<lambda>t. fst t = p) ts = Some (q, key) \<Longrightarrow> q = p \<and> (p, key) \<in> set ts"
  using list_find_mem [of "\<lambda>t. fst t = p" ts "(q, key)"] by auto

lemma settle_state_disarmed:
  "pe_promise e = p \<Longrightarrow> settle_state key e d by_whom now (m\<lparr>am_timers := filter (\<lambda>t. fst t \<noteq> p) (am_timers m)\<rparr>) =
     settle_state key e d by_whom now m"
  by (simp add: settle_state_def write_record_def)

lemma disarm_ok:
  assumes ok: "approvals_ok m" and e: "map_of (am_pending m) key = Some e" "\<not> unresolved (record_at (pe_record e) m)"
  shows "approvals_ok (m\<lparr>am_timers := filter (\<lambda>t. fst t \<noteq> pe_promise e) (am_timers m)\<rparr>)"
proof -
  define t where "t = m\<lparr>am_timers := filter (\<lambda>t. fst t \<noteq> pe_promise e) (am_timers m)\<rparr>"
  have tf: "am_pending t = am_pending m" "am_promises t = am_promises m" "am_cleanups t = am_cleanups m"
    "am_records t = am_records m" "am_settled t = am_settled m" "am_consumed t = am_consumed m" by (simp_all add: t_def)
  have r: "record_at b t = record_at b m" for b by (simp add: t_def)
  have p: "pending_ok m" and a: "answers_ok m" using ok by (simp_all add: approvals_ok_def)
  have "settled_ok t q v = settled_ok m q v" for q v by (simp add: settled_ok_def tf r)
  then have "answers_ok t" using a by (simp add: answers_ok_def tf r)
  moreover have "entry_ok t k x" if "map_of (am_pending m) k = Some x" for k x
    using entry_facts [OF ok that] entry_facts(2) [OF ok e(1)] e(2) by (auto simp: entry_ok_def tf r) (auto simp: t_def)
  moreover have "\<forall>(q, k) \<in> set (am_timers t). timer_ok t q k"
    using p timer_ok_cong [OF tf(2,1)] by (auto simp: pending_ok_def t_def)
  moreover have "\<forall>(q, k) \<in> set (am_cleanups t). q < length (am_promises t) \<and> q \<notin> fst ` set (am_timers t)"
    using p by (auto simp: pending_ok_def t_def)
  ultimately have "approvals_ok t" using p by (simp add: approvals_ok_def pending_ok_def tf)
  then show ?thesis by (simp add: t_def)
qed

lemma timers_known:
  assumes "approvals_ok m" shows "(p, key) \<in> set (am_timers m) \<Longrightarrow> timer_ok m p key"
    and "(p, key) \<in> set (am_cleanups m) \<Longrightarrow> p \<notin> fst ` set (am_timers m)"
proof -
  have t: "\<forall>(p, key) \<in> set (am_timers m). timer_ok m p key"
    and c: "\<forall>(p, key) \<in> set (am_cleanups m). p < length (am_promises m) \<and> p \<notin> fst ` set (am_timers m)"
    using assms unfolding approvals_ok_def pending_ok_def by blast+
  show "(p, key) \<in> set (am_timers m) \<Longrightarrow> timer_ok m p key" using t by blast
  show "(p, key) \<in> set (am_cleanups m) \<Longrightarrow> p \<notin> fst ` set (am_timers m)" using bspec [OF c, of "(p, key)"] by simp
qed

lemma timer_fires_ok: assumes ok: "approvals_ok m" shows "approvals_ok (timer_fires p now m)"
proof (cases "List.find (\<lambda>t. fst t = p) (am_timers m)")
  case (Some qk)
  obtain q key where qk: "qk = (q, key)" by (cases qk)
  have "(p, key) \<in> set (am_timers m)" using timer_find [OF Some [unfolded qk]] by simp
  then obtain e where e: "map_of (am_pending m) key = Some e" "pe_promise e = p"
    using timers_known(1) [OF ok] unfolding timer_ok_def by blast
  have t: "timer_fires p now m = (if unresolved (record_at (pe_record e) m) then settle_state key e None None now m
      else m\<lparr>am_timers := filter (\<lambda>t. fst t \<noteq> pe_promise e) (am_timers m)\<rparr>)"
    using Some qk e by (simp add: timer_fires_def expire_approval_def finish_entry_eq settle_state_disarmed)
  show ?thesis
    unfolding t using settle_pending [OF ok e(1)] settle_answers [OF ok e(1)] disarm_ok [OF ok e(1)] by (simp add: approvals_ok_def)
qed (use ok in \<open>simp add: timer_fires_def\<close>)

lemma pending_shrink_ok:
  assumes ok: "approvals_ok m" and t: "t = m\<lparr>am_cleanups := filter P (am_cleanups m), am_pending := q\<rparr>"
    and q: "keys_ok q" "\<And>k e. map_of q k = Some e \<Longrightarrow> map_of (am_pending m) k = Some e"
    and k: "\<And>p key. (p, key) \<in> set (am_timers m) \<Longrightarrow> map_of q key = map_of (am_pending m) key"
  shows "approvals_ok t"
proof -
  have tf: "am_promises t = am_promises m" "am_timers t = am_timers m" "am_pending t = q"
    "am_records t = am_records m" "am_settled t = am_settled m" "am_consumed t = am_consumed m" by (simp_all add: t)
  have r: "record_at b t = record_at b m" for b by (simp add: t)
  have p: "pending_ok m" and a: "answers_ok m" using ok by (simp_all add: approvals_ok_def)
  have "settled_ok t x v = settled_ok m x v" for x v by (simp add: settled_ok_def tf r)
  then have "answers_ok t" using a by (simp add: answers_ok_def tf r)
  moreover have "entry_ok t k x = entry_ok m k x" for k x by (simp add: entry_ok_def tf r)
  moreover have "\<forall>(x, key) \<in> set (am_timers m). timer_ok t x key" using p k by (fastforce simp: pending_ok_def timer_ok_def tf)
  moreover have "\<forall>(x, key) \<in> set (am_cleanups t). x < length (am_promises m) \<and> x \<notin> fst ` set (am_timers m)"
    using p by (auto simp: pending_ok_def t)
  ultimately show ?thesis using p q by (simp add: approvals_ok_def pending_ok_def tf)
qed

lemma cleanup_ok: assumes ok: "approvals_ok m" shows "approvals_ok (cleanup_fires p m)"
proof (cases "List.find (\<lambda>t. fst t = p) (am_cleanups m)")
  case (Some qk)
  obtain q key where qk: "qk = (q, key)" by (cases qk)
  let ?P = "\<lambda>t. fst t \<noteq> p"
  have c: "(p, key) \<in> set (am_cleanups m)" using timer_find [OF Some [unfolded qk]] by simp
  have po: "pending_ok m" using ok by (simp add: approvals_ok_def)
  have keep: "approvals_ok (m\<lparr>am_cleanups := filter ?P (am_cleanups m)\<rparr>)"
  proof (rule pending_shrink_ok [OF ok])
    show "m\<lparr>am_cleanups := filter ?P (am_cleanups m)\<rparr> =
        m\<lparr>am_cleanups := filter ?P (am_cleanups m), am_pending := am_pending m\<rparr>" by simp
  qed (use po in \<open>simp_all add: pending_ok_def\<close>)
  have "approvals_ok (m\<lparr>am_cleanups := filter ?P (am_cleanups m), am_pending := map_del key (am_pending m)\<rparr>)"
    if e: "map_of (am_pending m) key = Some e" "pe_promise e = p" for e
  proof (rule pending_shrink_ok [OF ok refl])
    show "keys_ok (map_del key (am_pending m))" using po by (simp add: pending_ok_def js_intros)
    show "map_of (am_pending m) k = Some x" if "map_of (map_del key (am_pending m)) k = Some x" for k x
      using that by (simp add: js_simps split: if_splits)
    show "map_of (map_del key (am_pending m)) k = map_of (am_pending m) k" if "(x, k) \<in> set (am_timers m)" for x k
    proof -
      have "timer_ok m x k" using timers_known(1) [OF ok that] .
      moreover have "p \<notin> fst ` set (am_timers m)" using timers_known(2) [OF ok c] .
      ultimately have "k \<noteq> key" using e that by (force simp: timer_ok_def)
      then show ?thesis by (simp add: js_simps)
    qed
  qed
  with keep Some qk show ?thesis by (auto simp: cleanup_fires_def Let_def split: option.split)
qed (use ok in \<open>simp add: cleanup_fires_def\<close>)

lemma new_manager_ok: "approvals_ok new_approval_manager"
  by (simp add: approvals_ok_def pending_ok_def answers_ok_def new_approval_manager_def)

lemma approval_exec_ok: "approvals_ok m \<Longrightarrow> op_known op m \<Longrightarrow> approvals_ok (approval_exec op m)"
  by (cases op) (simp_all add: create_ok register_ok finish_entry_ok timer_fires_ok cleanup_ok consume_ok
      resolve_approval_def expire_approval_def)

lemma approval_reachable_ok: "approval_reachable m \<Longrightarrow> approvals_ok m"
  by (induction rule: approval_reachable.induct) (auto intro: new_manager_ok approval_exec_ok)

end
