(* ===== verification/GatewayProps.thy ===== *)
theory GatewayProps
  imports RateLimits DedupeCache HeartbeatCooldown NodePendingWork ExecApprovals
begin

text \<open>
  What the small state machines of the gateway promise: the rate limiters and the heartbeat
  guard bound how often something is let through, the deduplication cache answers like a scan of
  its history, pending work is handed out completely and in order, and approvals are settled
  once and used once.
\<close>

section \<open>Rate limits\<close>

fun admitted_times :: "int list \<Rightarrow> fixed_window \<Rightarrow> int list" where
  "admitted_times [] s = []"
| "admitted_times (t # ts) s =
     (let (a, s1) = consume t s in if wa_allowed a then t # admitted_times ts s1 else admitted_times ts s1)"

lemma admitted_times_limiter:
  "admitted_times ts s = fixed.admitted ts s"
  by (induction ts arbitrary: s) (simp_all add: fixed.admitted.simps split_beta)

text \<open>A fixed-window limiter admits, however the requests are timed, at most two windows' worth
  of requests in any span shorter than a window: among the admitted requests any
  \<open>2 * maxRequests + 1\<close> in a row take at least \<open>windowMs\<close>.\<close>
lemma fixed_window_bounds_requests:
  assumes "sorted (0 # ts)"
  shows "spaced (nat (2 * max 1 m)) (max 1 w) (admitted_times ts (new_fixed_window m w))"
  using fixed.admitted_spaced [OF new_window_track [OF order_refl, of m w], of ts] assms
  by (simp add: admitted_times_limiter list_all_iff)

lemma fixed_window_bounds_requests_witness:
  "spaced (nat (2 * max 1 2)) (max 1 100) (admitted_times [0, 10, 20, 110, 120, 125] (new_fixed_window 2 100)) \<and>
   admitted_times [0, 10, 20, 110, 120, 125] (new_fixed_window 2 100) = [0, 10, 110, 120]"
  using fixed_window_bounds_requests [of "[0, 10, 20, 110, 120, 125]" 2 100]
  by (simp add: new_fixed_window_def consume_def roll_window_def Let_def)

fun let_through :: "address_parser \<Rightarrow> jstring \<Rightarrow> auth_event list \<Rightarrow> auth_limiter \<Rightarrow> int list" where
  "let_through p key [] s = []"
| "let_through p key (e # es) s =
     (let (a, s1) = auth_step p key e s in if a then auth_moment e # let_through p key es s1 else let_through p key es s1)"

lemma let_through_limiter: "let_through p key es s = auth.admitted p key es s"
  by (induction es arbitrary: s) (simp_all add: auth.admitted.simps split_beta)

lemma create_auth_track:
  "1 \<le> al_max_attempts (create_auth_limiter cfg) \<Longrightarrow> 1 \<le> al_window_ms (create_auth_limiter cfg) \<Longrightarrow>
   0 \<le> al_lockout_ms (create_auth_limiter cfg) \<Longrightarrow> 0 < c \<Longrightarrow>
   auth_track key (max 1 (al_max_attempts (create_auth_limiter cfg))) (al_window_ms (create_auth_limiter cfg))
     (al_lockout_ms (create_auth_limiter cfg)) [] c (create_auth_limiter cfg)"
  using entry_track_fresh [of "al_max_attempts (create_auth_limiter cfg)" _ _ "[]" c]
  by (simp add: auth_track_def config_ok_def times_ok_def entry_at_def) (simp add: create_auth_limiter_def)

text \<open>C32: the authentication limiter bounds guessing. Whatever else happens, that is attempts and
  checks of other clients, prunes and resets of other clients, any \<open>maxAttempts + 1\<close> failing
  attempts of one client that are let through in a row, each checked before it is recorded, take
  at least the shorter of the window and the lockout.\<close>
theorem auth_limiter_bounds_guessing:
  assumes "1 \<le> al_max_attempts (create_auth_limiter cfg)" "1 \<le> al_window_ms (create_auth_limiter cfg)"
    and "0 \<le> al_lockout_ms (create_auth_limiter cfg)"
    and "sorted (1 # map auth_moment es)" "list_all (keeps_key p key) es"
  shows "spaced (nat (al_max_attempts (create_auth_limiter cfg)))
     (min (al_window_ms (create_auth_limiter cfg)) (al_lockout_ms (create_auth_limiter cfg)))
     (let_through p key es (create_auth_limiter cfg))"
  using auth.admitted_spaced [OF create_auth_track [OF assms(1-3), of 1] assms(4,5)] assms(1)
  by (simp add: let_through_limiter max_def)

definition demo_parser :: address_parser where
  "demo_parser = \<lparr>parse_ip = Some, is_loopback = (\<lambda>s. s = js ''::1'')\<rparr>"

definition demo_config :: rate_config where
  "demo_config = \<lparr>rc_max_attempts = Some 2, rc_window_ms = Some 100, rc_lockout_ms = Some 300, rc_exempt_loopback = None\<rparr>"

definition guesses :: "auth_event list" where
  "guesses = [FailedAttempt (Some [49]) (Some []) 10, FailedAttempt (Some [50]) (Some []) 15, FailedAttempt (Some [49]) (Some []) 20,
     FailedAttempt (Some [49]) (Some []) 30, PruneEntries 200, FailedAttempt (Some [49]) (Some []) 330]"

theorem auth_limiter_bounds_guessing_witness:
  "spaced 2 100 (let_through demo_parser (js ''default:1'') guesses (create_auth_limiter demo_config)) \<and>
   let_through demo_parser (js ''default:1'') guesses (create_auth_limiter demo_config) = [10, 20, 330]"
proof -
  have "let_through demo_parser (js ''default:1'') guesses (create_auth_limiter demo_config) = [10, 20, 330]"
    by code_simp
  then show ?thesis
    using auth_limiter_bounds_guessing [of demo_config guesses demo_parser "js ''default:1''"]
    by (simp add: demo_config_def create_auth_limiter_def guesses_def)
qed

section \<open>Deduplication\<close>

text \<open>C34: the deduplication cache is exact: on a clock that does not run backwards it answers every
  sequence of \<open>check\<close> and \<open>peek\<close> calls like the reference, which scans the whole history: a key is
  known if and only if it was last checked less than the time to live ago and fewer than \<open>maxSize\<close>
  other keys were checked since.\<close>
theorem dedupe_cache_exact:
  assumes "sorted (map call_time es)"
  shows "cache_answers es (create_dedupe_cache ttl m) = reference_answers (max 0 ttl) (max 0 m) es []"
proof (cases es)
  case (Cons e rest)
  with assms have "sorted (call_time e # map call_time es)" by simp
  then show ?thesis by (rule answers_reference [OF create_cache_ok])
qed simp

definition dedupe_calls :: "cache_call list" where
  "dedupe_calls = [Check (Some [97]) 0, Check (Some [98]) 1, Check (Some [97]) 2, Check (Some [99]) 3, Peek (Some [98]) 4,
     Check (Some [97]) 9, Check (Some [99]) 30]"

theorem dedupe_cache_exact_witness:
  "cache_answers dedupe_calls (create_dedupe_cache 20 2) = reference_answers (max 0 20) (max 0 2) dedupe_calls [] \<and>
   cache_answers dedupe_calls (create_dedupe_cache 20 2) = [False, False, True, False, False, True, False]"
proof -
  have "cache_answers dedupe_calls (create_dedupe_cache 20 2) = [False, False, True, False, False, True, False]" by code_simp
  moreover have "sorted (map call_time dedupe_calls)" by (simp add: dedupe_calls_def)
  ultimately show ?thesis using dedupe_cache_exact by blast
qed

section \<open>Heartbeats\<close>

text \<open>The decision about a wake depends on the agent's whole history of run starts although
  only the last six are kept: it is the one of the reference, which counts all runs of the last
  minute.\<close>
lemma wake_decided_by_history:
  assumes "sorted (ts @ [now])"
  shows "should_defer_wake (wake_input intent now (fold record_run ts (new_agent due))) =
     reference_decision intent now due ts"
proof -
  have "agent_track ts (last (hd (ts @ [now]) # ts)) (fold record_run ts (new_agent due))"
    using record_runs_track [OF new_agent_track, of "hd (ts @ [now])" ts due] assms
    by (cases ts) (auto simp: sorted_append)
  moreover have "ha_next_due (fold record_run ts a) = ha_next_due a" for a
    by (induction ts arbitrary: a) (simp_all add: record_run_def)
  ultimately show ?thesis by (simp add: decision_reference new_agent_def)
qed

lemma wake_decided_by_history_witness:
  "should_defer_wake (wake_input ImmediateWake 70000 (fold record_run [1, 2, 20000, 30000, 40000, 50000, 60000] (new_agent 5))) =
     reference_decision ImmediateWake 70000 5 [1, 2, 20000, 30000, 40000, 50000, 60000] \<and>
   reference_decision ImmediateWake 70000 5 [1, 2, 20000, 30000, 40000, 50000, 60000] = Defer Flood"
  using wake_decided_by_history [of "[1, 2, 20000, 30000, 40000, 50000, 60000]" 70000 ImmediateWake 5]
  by (simp add: reference_decision_def in_window_def default_flood_threshold_def default_flood_window_def)

text \<open>C35: recording a run start returns if and only if the threshold is at least minus one; it then
  keeps the newest \<open>threshold + 1\<close> starts. With a smaller threshold the loop never ends.\<close>
theorem run_start_returns:
  "record_run_start buffer ts threshold =
     (if -1 \<le> opt_or threshold default_flood_threshold
      then Some (drop (Suc (length buffer) - nat (opt_or threshold default_flood_threshold + 1)) (buffer @ [ts])) else None)"
  by (cases threshold) (simp_all add: record_run_start_returns record_run_start_default default_flood_threshold_def)

fun runs_started :: "wake list \<Rightarrow> heartbeat_agent \<Rightarrow> int list" where
  "runs_started [] a = []"
| "runs_started (e # es) a =
     (let (r, a1) = heartbeat_step e a in if r then wake_time e # runs_started es a1 else runs_started es a1)"

lemma runs_started_limiter: "runs_started es a = heartbeat.admitted es a"
  by (induction es arbitrary: a) (simp_all add: heartbeat.admitted.simps split_beta)

text \<open>No feedback loop of wakes floods an agent. Whatever wakes arrive, as long as none is a
  manual one, any six run starts in a row take at least a minute.\<close>
lemma wakes_never_flood:
  assumes "sorted (map wake_time es)" "list_all automatic es"
  shows "spaced 5 60000 (runs_started es (new_agent due))"
proof (cases es)
  case (Cons e rest)
  with assms(1) have "sorted (wake_time e # map wake_time es)" by simp
  then have "spaced 5 default_flood_window (heartbeat.admitted es (new_agent due))"
    by (rule heartbeat.admitted_spaced [OF new_agent_track _ assms(2)])
  then show ?thesis by (simp add: runs_started_limiter default_flood_window_def)
qed (simp add: spaced_def)

definition wake_storm :: "wake list" where
  "wake_storm = map (\<lambda>t. (ImmediateWake, t, 0)) [0, 10, 20, 30, 40, 50, 60, 60001, 60002, 60003]"

lemma wakes_never_flood_example:
  "spaced 5 60000 (runs_started wake_storm (new_agent 0)) \<and>
   runs_started wake_storm (new_agent 0) = [0, 10, 20, 30, 40, 60001]"
proof -
  have "runs_started wake_storm (new_agent 0) = [0, 10, 20, 30, 40, 60001]"
    by (simp add: wake_storm_def evaluate_wake_def new_agent_def record_run_def record_run_start_default should_defer_wake_def
        wake_input_def check_flood_guard_def Let_def default_flood_threshold_def default_flood_window_def)
  with wakes_never_flood [of wake_storm 0] show ?thesis by (simp add: wake_storm_def)
qed

section \<open>Pending work\<close>

text \<open>Nothing is held back from a node that asks for its work. In every reachable state, with
  room for two items, an answer with the default status item hands out exactly the items of the
  node that have not expired, besides the baseline item, by falling priority; it contains exactly
  one status request and does not announce more.\<close>
lemma drain_hands_out_all:
  assumes "pending_reachable collate w" "trim node \<noteq> []" "2 \<le> drain_limit opts" "do_include_default opts \<noteq> Some False"
  shows "{i \<in> set (da_items (fst (drain_pending collate node opts clock w))). wi_id i \<noteq> default_status_id} =
       set (live_items (trim node) (drain_now opts clock) w) \<and>
     sorted_wrt (\<lambda>a b. wi_priority b \<le> wi_priority a) (da_items (fst (drain_pending collate node opts clock w))) \<and>
     length (filter (\<lambda>i. wi_type i = StatusRequest) (da_items (fst (drain_pending collate node opts clock w)))) = 1 \<and>
     da_has_more (fst (drain_pending collate node opts clock w)) = False"
proof -
  let ?now = "drain_now opts clock"
  let ?ex = "explicit_items collate (trim node) ?now w"
  let ?b = "if list_ex (\<lambda>i. wi_type i = StatusRequest) ?ex then [] else [baseline_status_item ?now]"
  have ok: "work_ok w" using assms(1) by (rule pending_reachable_ok)
  have d: "da_items (fst (drain_pending collate node opts clock w)) = ?ex @ ?b"
    using drain_items(1) [OF ok assms(2,3), of collate clock] assms(4) by simp
  have b: "wi_id (baseline_status_item ?now) = default_status_id" "wi_type (baseline_status_item ?now) = StatusRequest"
    "wi_priority (baseline_status_item ?now) = DefaultPriority" by (simp_all add: baseline_status_item_def)
  have "{i \<in> set (?ex @ ?b). wi_id i \<noteq> default_status_id} = set ?ex" using explicit_ids [OF ok] b(1) by auto
  moreover have "sorted_wrt (\<lambda>a b. wi_priority b \<le> wi_priority a) (?ex @ ?b)"
    using sorted_items_priority [of collate] b(3) by (auto simp: sorted_wrt_append explicit_items_def default_least)
  moreover have "length (filter (\<lambda>i. wi_type i = StatusRequest) (?ex @ ?b)) = 1"
    using one_status [OF explicit_types [OF ok], of collate "trim node" ?now] b(2) by simp
  ultimately show ?thesis
    using drain_items(2) [OF ok assms(2,3), of collate clock] unfolding d explicit_set by blast
qed

definition location_request :: work_request where
  "location_request = \<lparr>wr_node = [110], wr_type = LocationRequest, wr_priority = Some HighPriority, wr_expires_in = Some 50,
     wr_payload = None\<rparr>"

definition demo_work :: pending_work where
  "demo_work = pending_exec (\<lambda>a b. 0) (EnqueueOp location_request 7 [105]) []"

lemma demo_work_reachable: "pending_reachable (\<lambda>a b. 0) demo_work"
  unfolding demo_work_def
  by (intro pending_reachable.intros) (simp add: default_status_id_def js_def get_or_create_state_def empty_state_def)

definition plain_drain :: drain_options where
  "plain_drain = \<lparr>do_max_items = None, do_include_default = None, do_now = Some 900\<rparr>"

lemma drain_hands_out_all_example:
  "{i \<in> set (da_items (fst (drain_pending (\<lambda>a b. 0) [110] plain_drain 0 demo_work))). wi_id i \<noteq> default_status_id} =
       set (live_items (trim [110]) (drain_now plain_drain 0) demo_work) \<and>
     sorted_wrt (\<lambda>a b. wi_priority b \<le> wi_priority a) (da_items (fst (drain_pending (\<lambda>a b. 0) [110] plain_drain 0 demo_work))) \<and>
     length (filter (\<lambda>i. wi_type i = StatusRequest) (da_items (fst (drain_pending (\<lambda>a b. 0) [110] plain_drain 0 demo_work)))) = 1 \<and>
     da_has_more (fst (drain_pending (\<lambda>a b. 0) [110] plain_drain 0 demo_work)) = False"
  by (rule drain_hands_out_all [OF demo_work_reachable])
     (simp_all add: plain_drain_def drain_limit_def max_items_limit_def default_max_items_def trim_def is_ws_def)

section \<open>Approvals\<close>

text \<open>C33: an approval is answered once and used once. In every reachable state each promise has been
  resolved at most once, with the verdict that its record shows; no record's one-time approval
  has been consumed twice, and whatever was consumed had been resolved as \<open>allow-once\<close>; and every
  pending record without a verdict has its timer armed, so that its promise will be resolved.\<close>
theorem approvals_settle_once:
  assumes "approval_reachable m"
  shows "distinct (map fst (am_settled m)) \<and> distinct (am_consumed m) \<and>
     {v. \<exists>p. (p, v) \<in> set (am_settled m) \<and> verdict (record_at (am_promises m ! p) m) \<noteq> v} = {} \<and>
     {a \<in> set (am_consumed m). ar_consumed (record_at a m) \<noteq> Some AllowOnce \<or> ar_resolved_at (record_at a m) = None} = {} \<and>
     {e. \<exists>key. map_of (am_pending m) key = Some e \<and> unresolved (record_at (pe_record e) m) \<and> pe_promise e \<notin> fst ` set (am_timers m)} = {}"
proof -
  have ok: "approvals_ok m" using assms by (rule approval_reachable_ok)
  then have a: "answers_ok m" by (simp add: approvals_ok_def)
  have "verdict (record_at (am_promises m ! p) m) = v" if "(p, v) \<in> set (am_settled m)" for p v
    using a that by (auto simp: answers_ok_def settled_ok_def)
  moreover have "ar_consumed (record_at a m) = Some AllowOnce \<and> ar_resolved_at (record_at a m) \<noteq> None"
    if "a \<in> set (am_consumed m)" for a
  proof -
    have c: "a < length (am_records m)" "ar_consumed (record_at a m) = Some AllowOnce" "\<forall>r \<in> set (am_records m). record_ok r"
      using a that by (auto simp: answers_ok_def)
    then have "record_ok (record_at a m)" by (simp add: record_at_def)
    with c(2) show ?thesis by (simp add: record_ok_def unresolved_def)
  qed
  moreover have "pe_promise e \<in> fst ` set (am_timers m)"
    if "map_of (am_pending m) key = Some e" "unresolved (record_at (pe_record e) m)" for e key
    using entry_facts(5) [OF ok that] by force
  ultimately show ?thesis using a unfolding answers_ok_def by blast
qed

definition approved_once :: "nat approval_manager" where
  "approved_once = approval_exec (ConsumeOp [97]) (approval_exec (ConsumeOp [97]) (approval_exec (ResolveOp [97] AllowOnce None 5)
     (approval_exec (RegisterOp 0) (approval_exec (CreateOp 1 1000 (Some [97]) 2 [98]) new_approval_manager))))"

lemma approved_once_reachable: "approval_reachable approved_once"
  unfolding approved_once_def by (intro approval_reachable.intros) (simp_all add: create_approval_def Let_def new_approval_manager_def)

lemma approved_once_log: "am_settled approved_once = [(0, Some AllowOnce)] \<and> am_consumed approved_once = [0]"
  by (simp add: approved_once_def create_approval_def register_approval_def resolve_approval_def finish_entry_def
      consume_allow_once_def record_at_def write_record_def unresolved_def new_approval_manager_def map_put_def Let_def trim_def is_ws_def)

theorem approvals_settle_once_witness:
  "distinct (map fst (am_settled approved_once)) \<and> distinct (am_consumed approved_once) \<and>
     {v. \<exists>p. (p, v) \<in> set (am_settled approved_once) \<and> verdict (record_at (am_promises approved_once ! p) approved_once) \<noteq> v} = {} \<and>
     {a \<in> set (am_consumed approved_once). ar_consumed (record_at a approved_once) \<noteq> Some AllowOnce \<or>
        ar_resolved_at (record_at a approved_once) = None} = {} \<and>
     {e. \<exists>key. map_of (am_pending approved_once) key = Some e \<and> unresolved (record_at (pe_record e) approved_once) \<and>
        pe_promise e \<notin> fst ` set (am_timers approved_once)} = {}"
  by (rule approvals_settle_once [OF approved_once_reachable])

end
