(* ===== verification/StringCoerce.thy ===== *)
theory StringCoerce
  imports JsValue
begin

text \<open>
  Reading strings and identifiers out of values of type \<open>unknown\<close>
  (\<open>openclaw-main/src/shared/string-coerce.ts\<close>). \<open>null\<close> and \<open>undefined\<close> as results are \<open>None\<close>;
  \<open>toLowerCase\<close> is the one of ASCII, and \<open>toLocaleLowerCase\<close> is not modelled.
\<close>

section \<open>Strings\<close>

definition read_string_value :: "jsval \<Rightarrow> jstring option" where
  "read_string_value v = (case v of Str s \<Rightarrow> Some s | _ \<Rightarrow> None)"

definition normalize_nullable_string :: "jsval \<Rightarrow> jstring option" where
  "normalize_nullable_string v = (case v of Str s \<Rightarrow> if trim s = [] then None else Some (trim s) | _ \<Rightarrow> None)"

definition normalize_optional_string :: "jsval \<Rightarrow> jstring option" where
  "normalize_optional_string v = normalize_nullable_string v"

definition normalize_stringified_optional_string :: "jsval \<Rightarrow> jstring option" where
  "normalize_stringified_optional_string v =
     (case v of Str s \<Rightarrow> normalize_optional_string v
      | Num x \<Rightarrow> normalize_optional_string (Str (to_string v))
      | Bool b \<Rightarrow> normalize_optional_string (Str (to_string v))
      | _ \<Rightarrow> None)"

definition normalize_optional_lowercase_string :: "jsval \<Rightarrow> jstring option" where
  "normalize_optional_lowercase_string v = map_option lower (normalize_optional_string v)"

definition normalize_lowercase_string_or_empty :: "jsval \<Rightarrow> jstring" where
  "normalize_lowercase_string_or_empty v =
     (case normalize_optional_lowercase_string v of None \<Rightarrow> [] | Some s \<Rightarrow> s)"

definition normalize_fast_mode :: "jsval \<Rightarrow> bool option" where
  "normalize_fast_mode raw =
     (case raw of Bool b \<Rightarrow> Some b
      | Str s \<Rightarrow>
          (let key = normalize_lowercase_string_or_empty raw in
           if s = [] then None
           else if key \<in> set (map js [''off'', ''false'', ''no'', ''0'', ''disable'', ''disabled'', ''normal'']) then Some False
           else if key \<in> set (map js [''on'', ''true'', ''yes'', ''1'', ''enable'', ''enabled'', ''fast'']) then Some True
           else None)
      | _ \<Rightarrow> None)"

definition lowercase_preserving_whitespace :: "jstring \<Rightarrow> jstring" where
  "lowercase_preserving_whitespace s = lower s"

definition resolve_primary_string_value :: "jsval \<Rightarrow> jstring option" where
  "resolve_primary_string_value v =
     (case v of Str s \<Rightarrow> normalize_optional_string v
      | Obj kvs \<Rightarrow> normalize_optional_string (jget kvs (js ''primary''))
      | _ \<Rightarrow> None)"

definition has_non_empty_string :: "jsval \<Rightarrow> bool" where
  "has_non_empty_string v \<longleftrightarrow> normalize_optional_string v \<noteq> None"

section \<open>Thread identifiers\<close>

text \<open>A value of type \<open>string | number\<close>; a fractional number is cut towards zero.\<close>

datatype thread_value = ThreadNumber dbl | ThreadText jstring

definition math_trunc :: "dbl \<Rightarrow> dbl" where
  "math_trunc x = sgn x * (\<bar>x\<bar> div ulp0 * ulp0)"

definition normalize_optional_thread_value :: "jsval \<Rightarrow> thread_value option" where
  "normalize_optional_thread_value v =
     (case v of Num x \<Rightarrow> Some (ThreadNumber (math_trunc x))
      | _ \<Rightarrow> map_option ThreadText (normalize_optional_string v))"

fun thread_string :: "thread_value \<Rightarrow> jstring" where
  "thread_string (ThreadNumber x) = num_to_string x"
| "thread_string (ThreadText s) = s"

definition normalize_optional_stringified_id :: "jsval \<Rightarrow> jstring option" where
  "normalize_optional_stringified_id v = map_option thread_string (normalize_optional_thread_value v)"

fun of_thread :: "thread_value option \<Rightarrow> jsval" where
  "of_thread None = Undef"
| "of_thread (Some (ThreadNumber x)) = Num x"
| "of_thread (Some (ThreadText s)) = Str s"

fun of_string :: "jstring option \<Rightarrow> jsval" where
  "of_string None = Undef"
| "of_string (Some s) = Str s"

section \<open>Normal forms\<close>

text \<open>Normalized strings are fixed points of their normalization.\<close>

lemma normalize_optional_string_eq:
  "normalize_optional_string v = Some s \<longleftrightarrow> (\<exists>r. v = Str r \<and> s = trim r \<and> s \<noteq> [])"
  by (cases v) (auto simp: normalize_optional_string_def normalize_nullable_string_def)

lemma normalize_optional_string_fixed:
  "normalize_optional_string (of_string (normalize_optional_string v)) = normalize_optional_string v"
  by (cases v) (simp_all add: normalize_optional_string_def normalize_nullable_string_def)

lemma trim_lower: "trim (lower s) = lower (trim s)"
proof -
  have ws: "is_ws (lower_unit c) = is_ws c" for c by (auto simp: lower_unit_def is_ws_def)
  have "dropWhile is_ws (lower s) = lower (dropWhile is_ws s)" for s
    by (induction s) (simp_all add: ws)
  then show ?thesis by (simp add: trim_def rev_map)
qed

lemma normalize_lowercase_fixed:
  "normalize_lowercase_string_or_empty (Str (normalize_lowercase_string_or_empty v)) = normalize_lowercase_string_or_empty v"
  by (cases v) (simp_all add: normalize_lowercase_string_or_empty_def normalize_optional_lowercase_string_def
      normalize_optional_string_def normalize_nullable_string_def trim_lower trim_def [of "[]"])

lemma math_trunc_fixed [simp]: "math_trunc (math_trunc x) = math_trunc x"
proof -
  have u: "0 < ulp0" by (simp add: ulp0_def)
  define a where "a = \<bar>x\<bar> div ulp0"
  have "0 \<le> a" using u unfolding a_def by (simp add: pos_imp_zdiv_nonneg_iff)
  moreover have m: "math_trunc x = sgn x * (a * ulp0)" by (simp add: math_trunc_def a_def)
  ultimately have "\<bar>math_trunc x\<bar> = \<bar>sgn x\<bar> * (a * ulp0)" "sgn (math_trunc x) = sgn x * sgn a"
    using u by (simp_all add: abs_mult sgn_mult)
  then show ?thesis using u m \<open>0 \<le> a\<close> unfolding math_trunc_def [of "math_trunc x"]
    by (cases "x = 0"; cases "a = 0") (simp_all add: abs_sgn_eq)
qed

lemma normalize_thread_fixed:
  "normalize_optional_thread_value (of_thread (normalize_optional_thread_value v)) = normalize_optional_thread_value v"
  by (cases v) (simp_all add: normalize_optional_thread_value_def normalize_optional_string_def normalize_nullable_string_def)

end
