(* ===== verification/HeartbeatWake.thy ===== *)
theory HeartbeatWake
  imports HeartbeatCooldown StringCoerce
begin

text \<open>
  Waking the heartbeat (\<open>openclaw-main/src/infra/heartbeat-wake.ts\<close>, \<open>heartbeat-reason.ts\<close>):
  requests are coalesced per target, a timer hands the pending batch to the registered handler
  one wake after the other, and a busy or failing handler is tried again after a pause.

  The runtime is explicit state: the armed \<open>setTimeout\<close> (there is at most one) and the batches
  whose loop waits for a handler to answer. Handlers are functions in the program; here they are
  named by a number. \<open>wk_calls\<close> records the calls of handlers. Times are integers in
  milliseconds and an argument of every operation that reads the clock; a timer does not fire
  before it is due.
\<close>

section \<open>Requests and results\<close>

datatype run_result = Ran int | Skipped jstring | RunFailed jstring

definition skip_requests_in_flight :: jstring where "skip_requests_in_flight = js ''requests-in-flight''"
definition skip_cron_in_progress :: jstring where "skip_cron_in_progress = js ''cron-in-progress''"
definition skip_lanes_busy :: jstring where "skip_lanes_busy = js ''lanes-busy''"

definition is_retryable_busy_skip :: "jstring \<Rightarrow> bool" where
  "is_retryable_busy_skip reason \<longleftrightarrow>
     reason \<in> set [skip_requests_in_flight, skip_cron_in_progress, skip_lanes_busy]"

datatype wake_source =
    IntervalSource | ManualSource | ExecEventSource | NotificationsEventSource | CronSource | HookSource
  | BackgroundTaskSource | BackgroundTaskBlockedSource | AcpSpawnSource | CliWatchdogSource
  | RestartSentinelSource | RetrySource | OtherSource

record wake_override =
  ov_target :: "jstring option"
  ov_to :: "jstring option"
  ov_account_id :: "jstring option"

record wake_request =
  wq_source :: wake_source
  wq_intent :: wake_intent
  wq_reason :: "jstring option"
  wq_agent_id :: "jstring option"
  wq_session_key :: "jstring option"
  wq_heartbeat :: "wake_override option"

record pending_wake =
  pw_source :: wake_source
  pw_intent :: wake_intent
  pw_reason :: jstring
  pw_priority :: nat
  pw_requested_at :: int
  pw_agent_id :: "jstring option"
  pw_session_key :: "jstring option"
  pw_heartbeat :: "wake_override option"

datatype timer_kind = NormalTimer | RetryTimer

text \<open>The armed timer with what its callback has captured.\<close>

record wake_timer =
  wt_due_at :: int
  wt_kind :: timer_kind
  wt_delay :: int

text \<open>A running loop over a batch; the head of \<open>wb_rest\<close> is with the handler.\<close>

record wake_batch =
  wb_handler :: nat
  wb_wakes :: "pending_wake list"
  wb_rest :: "pending_wake list"
  wb_delay :: int

record wake_state =
  wk_enabled :: bool
  wk_handler :: "nat option"
  wk_generation :: nat
  wk_pending :: "(jstring, pending_wake) jmap"
  wk_scheduled :: bool
  wk_running :: bool
  wk_timer :: "wake_timer option"
  wk_batches :: "(nat, wake_batch) jmap"
  wk_next_batch :: nat
  wk_calls :: "(nat \<times> int \<times> wake_request) list"

definition initial_wake_state :: wake_state where
  "initial_wake_state = \<lparr>wk_enabled = True, wk_handler = None, wk_generation = 0, wk_pending = [], wk_scheduled = False,
     wk_running = False, wk_timer = None, wk_batches = [], wk_next_batch = 0, wk_calls = []\<rparr>"

definition default_coalesce_ms :: int where "default_coalesce_ms = 250"
definition default_retry_ms :: int where "default_retry_ms = 1000"

definition set_heartbeats_enabled :: "bool \<Rightarrow> wake_state \<Rightarrow> wake_state" where
  "set_heartbeats_enabled b s = s\<lparr>wk_enabled := b\<rparr>"

definition are_heartbeats_enabled :: "wake_state \<Rightarrow> bool" where
  "are_heartbeats_enabled s = wk_enabled s"

section \<open>Coalescing\<close>

definition normalize_wake_reason :: "jstring option \<Rightarrow> jstring" where
  "normalize_wake_reason reason =
     (case normalize_optional_string (of_string reason) of None \<Rightarrow> js ''requested'' | Some r \<Rightarrow> r)"

definition normalize_wake_target :: "jstring option \<Rightarrow> jstring option" where
  "normalize_wake_target v =
     (let trimmed = (case normalize_optional_string (of_string v) of None \<Rightarrow> [] | Some t \<Rightarrow> t)
      in if trimmed = [] then None else Some trimmed)"

definition wake_target_key :: "jstring option \<Rightarrow> jstring option \<Rightarrow> jstring" where
  "wake_target_key agent session =
     (let text = (\<lambda>v. case normalize_wake_target v of None \<Rightarrow> [] | Some t \<Rightarrow> t)
      in text agent @ js ''::'' @ text session)"

definition resolve_wake_priority :: "wake_source \<Rightarrow> wake_intent \<Rightarrow> jstring \<Rightarrow> nat" where
  "resolve_wake_priority source intent reason =
     (if intent = ManualWake \<or> intent = ImmediateWake then 3
      else if source = RetrySource \<or> reason = js ''retry'' then 0
      else if intent = ScheduledWake \<or> source = IntervalSource \<or> reason = js ''interval'' then 1
      else 2)"

definition next_wake :: "wake_request \<Rightarrow> int \<Rightarrow> pending_wake" where
  "next_wake q requested_at =
     (let reason = normalize_wake_reason (wq_reason q) in
      \<lparr>pw_source = wq_source q, pw_intent = wq_intent q, pw_reason = reason,
       pw_priority = resolve_wake_priority (wq_source q) (wq_intent q) reason, pw_requested_at = requested_at,
       pw_agent_id = normalize_wake_target (wq_agent_id q), pw_session_key = normalize_wake_target (wq_session_key q),
       pw_heartbeat = wq_heartbeat q\<rparr>)"

definition merge_wake :: "pending_wake \<Rightarrow> pending_wake \<Rightarrow> pending_wake" where
  "merge_wake nxt previous =
     (let merged = nxt\<lparr>pw_heartbeat := (case pw_heartbeat nxt of None \<Rightarrow> pw_heartbeat previous | Some h \<Rightarrow> Some h)\<rparr>
      in if pw_priority previous < pw_priority nxt then merged
         else if pw_priority nxt = pw_priority previous \<and> pw_requested_at previous \<le> pw_requested_at nxt then merged
         else previous)"

definition queue_pending_wake :: "wake_request \<Rightarrow> int \<Rightarrow> wake_state \<Rightarrow> wake_state" where
  "queue_pending_wake q now s =
     (let nxt = next_wake q now; key = wake_target_key (pw_agent_id nxt) (pw_session_key nxt)
      in s\<lparr>wk_pending := map_put key
            (case map_of (wk_pending s) key of None \<Rightarrow> nxt | Some previous \<Rightarrow> merge_wake nxt previous) (wk_pending s)\<rparr>)"

section \<open>The timer\<close>

text \<open>\<open>wait = None\<close> stands for a number that is not finite.\<close>

definition schedule :: "int option \<Rightarrow> timer_kind \<Rightarrow> int \<Rightarrow> wake_state \<Rightarrow> wake_state" where
  "schedule wait kind now s =
     (let delay = (case wait of None \<Rightarrow> default_coalesce_ms | Some c \<Rightarrow> max 0 c); due = now + delay;
          armed = s\<lparr>wk_timer := Some \<lparr>wt_due_at = due, wt_kind = kind, wt_delay = delay\<rparr>\<rparr>
      in case wk_timer s of None \<Rightarrow> armed
         | Some t \<Rightarrow> if wt_kind t = RetryTimer then s else if wt_due_at t \<le> due then s else armed)"

definition wake_opts :: "pending_wake \<Rightarrow> wake_request" where
  "wake_opts w = \<lparr>wq_source = pw_source w, wq_intent = pw_intent w, wq_reason = Some (pw_reason w),
     wq_agent_id = pw_agent_id w, wq_session_key = pw_session_key w, wq_heartbeat = pw_heartbeat w\<rparr>"

definition finish_batch :: "nat \<Rightarrow> int \<Rightarrow> int \<Rightarrow> wake_state \<Rightarrow> wake_state" where
  "finish_batch i delay now s =
     (let s1 = s\<lparr>wk_batches := map_del i (wk_batches s), wk_running := False\<rparr>
      in if wk_pending s1 \<noteq> [] \<or> wk_scheduled s1 then schedule (Some delay) NormalTimer now s1 else s1)"

text \<open>The head of the loop: the next wake goes to the handler, or the loop is over.\<close>

definition continue_batch :: "nat \<Rightarrow> wake_batch \<Rightarrow> int \<Rightarrow> wake_state \<Rightarrow> wake_state" where
  "continue_batch i b now s =
     (case wb_rest b of
        [] \<Rightarrow> finish_batch i (wb_delay b) now s
      | w # rest \<Rightarrow> s\<lparr>wk_batches := map_put i b (wk_batches s),
                      wk_calls := wk_calls s @ [(wb_handler b, now, wake_opts w)]\<rparr>)"

definition timer_callback :: "wake_timer \<Rightarrow> int \<Rightarrow> wake_state \<Rightarrow> wake_state" where
  "timer_callback t now s =
     (let s1 = s\<lparr>wk_timer := None, wk_scheduled := False\<rparr> in
      case wk_handler s1 of
        None \<Rightarrow> s1
      | Some h \<Rightarrow>
          if wk_running s1 then schedule (Some (wt_delay t)) (wt_kind t) now (s1\<lparr>wk_scheduled := True\<rparr>)
          else (let batch = map snd (wk_pending s1); i = wk_next_batch s1;
                    s2 = s1\<lparr>wk_pending := [], wk_running := True, wk_next_batch := Suc i\<rparr>
                in continue_batch i \<lparr>wb_handler = h, wb_wakes = batch, wb_rest = batch, wb_delay = wt_delay t\<rparr> now s2))"

definition wake_timer_fires :: "int \<Rightarrow> wake_state \<Rightarrow> wake_state" where
  "wake_timer_fires now s =
     (case wk_timer s of None \<Rightarrow> s | Some t \<Rightarrow> if wt_due_at t \<le> now then timer_callback t now s else s)"

datatype handler_answer = Answered run_result | Threw

fun busy_result :: "run_result \<Rightarrow> bool" where
  "busy_result (Skipped reason) = is_retryable_busy_skip reason"
| "busy_result r = False"

definition handler_answers :: "nat \<Rightarrow> handler_answer \<Rightarrow> int \<Rightarrow> wake_state \<Rightarrow> wake_state" where
  "handler_answers i ans now s =
     (case map_of (wk_batches s) i of None \<Rightarrow> s
      | Some b \<Rightarrow>
          (case ans of
             Answered r \<Rightarrow>
               continue_batch i (b\<lparr>wb_rest := tl (wb_rest b)\<rparr>) now
                 (if busy_result r
                  then schedule (Some default_retry_ms) RetryTimer now (queue_pending_wake (wake_opts (hd (wb_rest b))) now s)
                  else s)
           | Threw \<Rightarrow>
               finish_batch i (wb_delay b) now
                 (schedule (Some default_retry_ms) RetryTimer now
                   (fold (\<lambda>w. queue_pending_wake (wake_opts w) now) (wb_wakes b) s))))"

section \<open>Exported operations\<close>

text \<open>A disposer is the generation and the handler it was made for.\<close>

definition set_wake_handler :: "nat option \<Rightarrow> int \<Rightarrow> wake_state \<Rightarrow> (nat \<times> nat option) \<times> wake_state" where
  "set_wake_handler nxt now s =
     (let s1 = s\<lparr>wk_generation := Suc (wk_generation s), wk_handler := nxt\<rparr>;
          s2 = (if nxt \<noteq> None then s1\<lparr>wk_timer := None, wk_running := False, wk_scheduled := False\<rparr> else s1);
          s3 = (if wk_handler s2 \<noteq> None \<and> wk_pending s2 \<noteq> [] then schedule (Some default_coalesce_ms) NormalTimer now s2 else s2)
      in ((wk_generation s1, nxt), s3))"

definition dispose_wake_handler :: "nat \<times> nat option \<Rightarrow> wake_state \<Rightarrow> wake_state" where
  "dispose_wake_handler d s =
     (if wk_generation s \<noteq> fst d then s
      else if wk_handler s \<noteq> snd d then s
      else s\<lparr>wk_generation := Suc (wk_generation s), wk_handler := None\<rparr>)"

text \<open>\<open>coalesceMs\<close> may be absent, and it may be a number that is not finite (\<open>Some None\<close>).\<close>

definition request_heartbeat :: "wake_request \<Rightarrow> int option option \<Rightarrow> int \<Rightarrow> wake_state \<Rightarrow> wake_state" where
  "request_heartbeat q wait now s =
     schedule (case wait of None \<Rightarrow> Some default_coalesce_ms | Some c \<Rightarrow> c) NormalTimer now (queue_pending_wake q now s)"

definition has_wake_handler :: "wake_state \<Rightarrow> bool" where
  "has_wake_handler s \<longleftrightarrow> wk_handler s \<noteq> None"

definition has_pending_wake :: "wake_state \<Rightarrow> bool" where
  "has_pending_wake s \<longleftrightarrow> 0 < length (wk_pending s) \<or> wk_timer s \<noteq> None \<or> wk_scheduled s"

definition reset_wake_state :: "wake_state \<Rightarrow> wake_state" where
  "reset_wake_state s = s\<lparr>wk_timer := None, wk_pending := [], wk_scheduled := False, wk_running := False,
     wk_generation := Suc (wk_generation s), wk_handler := None\<rparr>"

section \<open>Runs\<close>

datatype wake_event =
    RequestWake wake_request "int option option" int
  | TimerFires int
  | HandlerAnswers nat handler_answer int
  | SetHandler "nat option" int
  | Dispose "nat \<times> nat option"
  | SetEnabled bool
  | ResetForTests

fun wake_exec :: "wake_event \<Rightarrow> wake_state \<Rightarrow> wake_state" where
  "wake_exec (RequestWake q c now) s = request_heartbeat q c now s"
| "wake_exec (TimerFires now) s = wake_timer_fires now s"
| "wake_exec (HandlerAnswers i a now) s = handler_answers i a now s"
| "wake_exec (SetHandler h now) s = snd (set_wake_handler h now s)"
| "wake_exec (Dispose d) s = dispose_wake_handler d s"
| "wake_exec (SetEnabled b) s = set_heartbeats_enabled b s"
| "wake_exec ResetForTests s = reset_wake_state s"

inductive wake_reachable :: "wake_state \<Rightarrow> bool" where
  wake_start: "wake_reachable initial_wake_state"
| wake_step: "wake_reachable s \<Longrightarrow> wake_reachable (wake_exec e s)"

section \<open>Effects of the helpers\<close>

lemma schedule_fields [simp]:
  "wk_handler (schedule c k now s) = wk_handler s" "wk_pending (schedule c k now s) = wk_pending s"
  "wk_running (schedule c k now s) = wk_running s" "wk_scheduled (schedule c k now s) = wk_scheduled s"
  "wk_batches (schedule c k now s) = wk_batches s" "wk_next_batch (schedule c k now s) = wk_next_batch s"
  "wk_calls (schedule c k now s) = wk_calls s" "wk_generation (schedule c k now s) = wk_generation s"
  by (simp_all add: schedule_def Let_def split: option.splits)

lemma schedule_armed [simp]: "\<exists>t. wk_timer (schedule c k now s) = Some t"
  by (simp add: schedule_def Let_def split: option.splits)

lemma schedule_armed' [simp]: "wk_timer (schedule c k now s) \<noteq> None"
  using schedule_armed [of c k now s] by auto

lemma schedule_retry [simp]: "wk_timer s = Some t \<Longrightarrow> wt_kind t = RetryTimer \<Longrightarrow> schedule c k now s = s"
  by (simp add: schedule_def Let_def)

lemma queue_fields [simp]:
  "wk_handler (queue_pending_wake q now s) = wk_handler s" "wk_timer (queue_pending_wake q now s) = wk_timer s"
  "wk_running (queue_pending_wake q now s) = wk_running s" "wk_scheduled (queue_pending_wake q now s) = wk_scheduled s"
  "wk_batches (queue_pending_wake q now s) = wk_batches s" "wk_next_batch (queue_pending_wake q now s) = wk_next_batch s"
  "wk_calls (queue_pending_wake q now s) = wk_calls s" "wk_generation (queue_pending_wake q now s) = wk_generation s"
  by (simp_all add: queue_pending_wake_def Let_def)

lemma queue_fold_fields [simp]:
  "wk_handler (fold (\<lambda>w. queue_pending_wake (f w) now) ws s) = wk_handler s"
  "wk_timer (fold (\<lambda>w. queue_pending_wake (f w) now) ws s) = wk_timer s"
  "wk_running (fold (\<lambda>w. queue_pending_wake (f w) now) ws s) = wk_running s"
  "wk_scheduled (fold (\<lambda>w. queue_pending_wake (f w) now) ws s) = wk_scheduled s"
  "wk_batches (fold (\<lambda>w. queue_pending_wake (f w) now) ws s) = wk_batches s"
  "wk_next_batch (fold (\<lambda>w. queue_pending_wake (f w) now) ws s) = wk_next_batch s"
  by (induction ws arbitrary: s) simp_all

section \<open>Invariant\<close>

text \<open>The key of a pending wake is the one of its target, and its priority is the one of its reason.\<close>

definition pending_ok :: "jstring \<Rightarrow> pending_wake \<Rightarrow> bool" where
  "pending_ok k w \<longleftrightarrow> k = wake_target_key (pw_agent_id w) (pw_session_key w) \<and>
     normalize_wake_reason (Some (pw_reason w)) = pw_reason w \<and> normalize_wake_target (pw_agent_id w) = pw_agent_id w \<and>
     normalize_wake_target (pw_session_key w) = pw_session_key w \<and>
     pw_priority w = resolve_wake_priority (pw_source w) (pw_intent w) (pw_reason w)"

definition wakes_ok :: "(jstring, pending_wake) jmap \<Rightarrow> bool" where
  "wakes_ok p \<longleftrightarrow> keys_ok p \<and> (\<forall>k w. map_of p k = Some w \<longrightarrow> pending_ok k w)"

definition batch_ok :: "wake_batch \<Rightarrow> bool" where
  "batch_ok b \<longleftrightarrow> wb_rest b \<noteq> [] \<and> (\<exists>k. wb_rest b = drop k (wb_wakes b))"

definition armed_ok :: "wake_state \<Rightarrow> bool" where
  "armed_ok s \<longleftrightarrow> (wk_handler s \<noteq> None \<and> wk_pending s \<noteq> [] \<longrightarrow> wk_timer s \<noteq> None) \<and> (wk_scheduled s \<longrightarrow> wk_timer s \<noteq> None)"

definition batches_ok :: "wake_state \<Rightarrow> bool" where
  "batches_ok s \<longleftrightarrow> keys_ok (wk_batches s) \<and> (\<forall>(i, b) \<in> set (wk_batches s). i < wk_next_batch s \<and> batch_ok b) \<and>
     (wk_running s \<longrightarrow> wk_batches s \<noteq> [])"

definition wake_ok :: "wake_state \<Rightarrow> bool" where
  "wake_ok s \<longleftrightarrow> armed_ok s \<and> batches_ok s \<and> wakes_ok (wk_pending s)"

lemma normalize_wake_target_fixed [simp]: "normalize_wake_target (normalize_wake_target v) = normalize_wake_target v"
  by (cases v) (auto simp: normalize_wake_target_def normalize_optional_string_def normalize_nullable_string_def)

lemma normalize_wake_reason_fixed [simp]: "normalize_wake_reason (Some (normalize_wake_reason v)) = normalize_wake_reason v"
proof -
  have r: "trim (js ''requested'') = js ''requested''" by (rule trim_id) (simp add: js_def is_ws_def)
  show ?thesis
    by (cases v) (simp_all add: normalize_wake_reason_def normalize_optional_string_def normalize_nullable_string_def r)
qed

lemma next_wake_ok:
  "pending_ok (wake_target_key (pw_agent_id (next_wake q now)) (pw_session_key (next_wake q now))) (next_wake q now)"
  by (simp add: pending_ok_def next_wake_def Let_def)

lemma merge_wake_ok:
  assumes "pending_ok k nxt" "pending_ok k previous"
  shows "pending_ok k (merge_wake nxt previous)"
  using assms by (simp add: pending_ok_def merge_wake_def Let_def)

lemma queue_wakes_ok:
  assumes "wakes_ok (wk_pending s)"
  shows "wakes_ok (wk_pending (queue_pending_wake q now s))"
proof -
  let ?n = "next_wake q now" and ?k = "wake_target_key (pw_agent_id (next_wake q now)) (pw_session_key (next_wake q now))"
  let ?v = "case map_of (wk_pending s) ?k of None \<Rightarrow> ?n | Some previous \<Rightarrow> merge_wake ?n previous"
  have "pending_ok ?k ?v"
    using assms by (auto simp: wakes_ok_def merge_wake_ok next_wake_ok split: option.split)
  moreover have "wk_pending (queue_pending_wake q now s) = map_put ?k ?v (wk_pending s)"
    by (simp add: queue_pending_wake_def Let_def)
  ultimately show ?thesis using assms by (auto simp: wakes_ok_def js_simps intro: keys_ok_map_put split: if_splits)
qed

lemma queue_fold_wakes_ok:
  "wakes_ok (wk_pending s) \<Longrightarrow> wakes_ok (wk_pending (fold (\<lambda>w. queue_pending_wake (f w) now) ws s))"
  by (induction ws arbitrary: s) (simp_all add: queue_wakes_ok)

lemma schedule_armed_ok [simp]: "armed_ok (schedule c k now s)"
  by (simp add: armed_ok_def)

lemma schedule_batches_ok [simp]: "batches_ok (schedule c k now s) = batches_ok s"
  by (simp add: batches_ok_def)

lemma queue_batches_ok [simp]: "batches_ok (queue_pending_wake q now s) = batches_ok s"
  by (simp add: batches_ok_def)

lemma queue_fold_batches_ok [simp]: "batches_ok (fold (\<lambda>w. queue_pending_wake (f w) now) ws s) = batches_ok s"
  by (induction ws arbitrary: s) simp_all

lemma finish_batch_fields [simp]:
  "wk_handler (finish_batch i d now s) = wk_handler s" "wk_pending (finish_batch i d now s) = wk_pending s"
  "\<not> wk_running (finish_batch i d now s)" "wk_batches (finish_batch i d now s) = map_del i (wk_batches s)"
  "wk_next_batch (finish_batch i d now s) = wk_next_batch s" "wk_calls (finish_batch i d now s) = wk_calls s"
  by (simp_all add: finish_batch_def Let_def)

lemma finish_batch_armed [simp]: "armed_ok (finish_batch i d now s)"
  by (simp add: finish_batch_def Let_def) (simp add: armed_ok_def)

lemma mem_map_del: "x \<in> set (map_del l m) \<Longrightarrow> x \<in> set m"
  by (auto simp: map_del_def)

lemma finish_batch_ok:
  assumes "keys_ok (wk_batches s)" "\<forall>(j, c) \<in> set (wk_batches s). j < wk_next_batch s \<and> batch_ok c"
  shows "batches_ok (finish_batch i d now s)"
  using assms by (auto simp: batches_ok_def keys_ok_map_del dest: mem_map_del)

lemma batches_ok_base:
  "batches_ok s \<Longrightarrow> keys_ok (wk_batches s)"
  "batches_ok s \<Longrightarrow> \<forall>(j, c) \<in> set (wk_batches s). j < wk_next_batch s \<and> batch_ok c"
  by (simp_all add: batches_ok_def)

lemma continue_batch_fields [simp]:
  "wk_handler (continue_batch i b now s) = wk_handler s" "wk_pending (continue_batch i b now s) = wk_pending s"
  "wk_next_batch (continue_batch i b now s) = wk_next_batch s"
  by (simp_all add: continue_batch_def split: list.split)

lemma continue_batch_armed: "armed_ok s \<Longrightarrow> armed_ok (continue_batch i b now s)"
  by (cases "wb_rest b") (simp_all add: continue_batch_def, simp add: armed_ok_def)

lemma mem_map_put: "keys_ok m \<Longrightarrow> (k, v) \<in> set (map_put l w m) \<Longrightarrow> (k = l \<and> v = w) \<or> (k, v) \<in> set m"
  by (metis keys_ok_map_of_mem keys_ok_map_put map_of_map_put map_upd_Some_unfold)

lemma continue_batch_ok:
  assumes "keys_ok (wk_batches s)" "\<forall>(j, c) \<in> set (wk_batches s). j < wk_next_batch s \<and> batch_ok c"
    and "i < wk_next_batch s" "\<exists>k. wb_rest b = drop k (wb_wakes b)"
  shows "batches_ok (continue_batch i b now s)"
proof (cases "wb_rest b")
  case Nil
  then show ?thesis using finish_batch_ok [OF assms(1,2)] by (simp add: continue_batch_def)
next
  case (Cons w ws)
  have "j < wk_next_batch s \<and> batch_ok c" if "(j, c) \<in> set (map_put i b (wk_batches s))" for j c
    using mem_map_put [OF assms(1) that] assms(2-4) Cons by (auto simp: batch_ok_def)
  moreover have "map_put i b (wk_batches s) \<noteq> []" by (auto simp: map_put_def split: if_splits dest: arg_cong [of _ _ length] simp: js_simps)
  ultimately show ?thesis using assms(1) Cons
    by (auto simp: continue_batch_def batches_ok_def intro: keys_ok_map_put)
qed

section \<open>Preservation\<close>

lemma timer_callback_ok:
  assumes "wake_ok s"
  shows "wake_ok (timer_callback t now s)"
proof -
  let ?s1 = "s\<lparr>wk_timer := None, wk_scheduled := False\<rparr>"
  show ?thesis
  proof (cases "wk_handler s")
    case None
    then show ?thesis using assms by (simp add: timer_callback_def wake_ok_def armed_ok_def batches_ok_def)
  next
    case (Some h)
    show ?thesis
    proof (cases "wk_running s")
      case True
      with Some show ?thesis using assms by (simp add: timer_callback_def wake_ok_def) (simp add: batches_ok_def)
    next
      case False
      let ?b = "\<lparr>wb_handler = h, wb_wakes = map snd (wk_pending s), wb_rest = map snd (wk_pending s), wb_delay = wt_delay t\<rparr>"
      let ?s2 = "?s1\<lparr>wk_pending := [], wk_running := True, wk_next_batch := Suc (wk_next_batch s)\<rparr>"
      have b: "batches_ok s" using assms by (simp add: wake_ok_def)
      have "batches_ok (continue_batch (wk_next_batch s) ?b now ?s2)"
        using b by (intro continue_batch_ok) (auto simp: batches_ok_def intro: exI [of _ 0])
      moreover have "armed_ok (continue_batch (wk_next_batch s) ?b now ?s2)"
        by (rule continue_batch_armed) (simp add: armed_ok_def)
      moreover have "wakes_ok (wk_pending (continue_batch (wk_next_batch s) ?b now ?s2))"
        by (simp add: wakes_ok_def)
      ultimately show ?thesis using Some False by (simp add: timer_callback_def Let_def wake_ok_def)
    qed
  qed
qed

lemma wake_timer_fires_ok: "wake_ok s \<Longrightarrow> wake_ok (wake_timer_fires now s)"
  by (simp add: wake_timer_fires_def timer_callback_ok split: option.split)

lemma handler_answers_ok:
  assumes "wake_ok s"
  shows "wake_ok (handler_answers i ans now s)"
proof (cases "map_of (wk_batches s) i")
  case (Some b)
  have ok: "armed_ok s" "batches_ok s" "wakes_ok (wk_pending s)" using assms by (simp_all add: wake_ok_def)
  have "(i, b) \<in> set (wk_batches s)" using Some by (rule map_of_SomeD)
  with ok(2) have i: "i < wk_next_batch s" and "batch_ok b" by (auto simp: batches_ok_def)
  then obtain k where k: "wb_rest b = drop k (wb_wakes b)" by (auto simp: batch_ok_def)
  show ?thesis
  proof (cases ans)
    case (Answered r)
    let ?s1 = "if busy_result r then schedule (Some default_retry_ms) RetryTimer now (queue_pending_wake (wake_opts (hd (wb_rest b))) now s) else s"
    have s1: "batches_ok ?s1" "armed_ok ?s1" "wakes_ok (wk_pending ?s1)" "wk_next_batch ?s1 = wk_next_batch s"
      using ok queue_wakes_ok by (simp_all split: if_split)
    have "batches_ok (continue_batch i (b\<lparr>wb_rest := tl (wb_rest b)\<rparr>) now ?s1)"
      using s1(1,4) i k by (intro continue_batch_ok) (auto simp: batches_ok_def drop_Suc tl_drop intro: exI [of _ "Suc k"])
    then show ?thesis using Some Answered s1 by (simp add: handler_answers_def wake_ok_def continue_batch_armed)
  next
    case Threw
    then show ?thesis using Some ok(3) batches_ok_base [OF ok(2)]
      by (simp add: handler_answers_def wake_ok_def finish_batch_ok queue_fold_wakes_ok)
  qed
qed (use assms in \<open>simp add: handler_answers_def\<close>)

lemma request_heartbeat_ok: "wake_ok s \<Longrightarrow> wake_ok (request_heartbeat q c now s)"
  by (simp add: request_heartbeat_def wake_ok_def queue_wakes_ok)

lemma set_wake_handler_ok: "wake_ok s \<Longrightarrow> wake_ok (snd (set_wake_handler h now s))"
  by (cases h) (auto simp: set_wake_handler_def Let_def wake_ok_def armed_ok_def batches_ok_def)

lemma dispose_wake_handler_ok: "wake_ok s \<Longrightarrow> wake_ok (dispose_wake_handler d s)"
  by (simp add: dispose_wake_handler_def wake_ok_def armed_ok_def batches_ok_def)

lemma reset_wake_state_ok: "wake_ok s \<Longrightarrow> wake_ok (reset_wake_state s)"
  by (simp add: reset_wake_state_def wake_ok_def armed_ok_def batches_ok_def wakes_ok_def)

lemma set_enabled_ok: "wake_ok s \<Longrightarrow> wake_ok (set_heartbeats_enabled b s)"
  by (simp add: set_heartbeats_enabled_def wake_ok_def armed_ok_def batches_ok_def)

lemma wake_exec_ok: "wake_ok s \<Longrightarrow> wake_ok (wake_exec e s)"
  by (cases e) (simp_all add: wake_timer_fires_ok handler_answers_ok request_heartbeat_ok set_wake_handler_ok
      dispose_wake_handler_ok reset_wake_state_ok set_enabled_ok)

lemma wake_reachable_ok: "wake_reachable s \<Longrightarrow> wake_ok s"
proof (induction rule: wake_reachable.induct)
  case wake_start
  show ?case by (simp add: initial_wake_state_def wake_ok_def armed_ok_def batches_ok_def wakes_ok_def)
next
  case (wake_step s e)
  then show ?case by (simp add: wake_exec_ok)
qed

end
