(* ===== verification/WakeProps.thy ===== *)
theory WakeProps
  imports HeartbeatWake
begin

text \<open>
  What the wake queue of the heartbeat promises: no pending wake is stranded, coalescing keeps
  the most urgent request of every target, and the pause after a busy handler is kept.
\<close>

section \<open>Answers of handlers\<close>

definition answer_all :: "nat \<Rightarrow> handler_answer list \<Rightarrow> int \<Rightarrow> wake_state \<Rightarrow> wake_state" where
  "answer_all i rs now s = fold (\<lambda>r. handler_answers i r now) rs s"

text \<open>The oldest batch in flight gets its answers.\<close>

definition answer_first :: "handler_answer list \<Rightarrow> int \<Rightarrow> wake_state \<Rightarrow> wake_state" where
  "answer_first rs now s = (case wk_batches s of [] \<Rightarrow> s | (i, b) # later \<Rightarrow> answer_all i rs now s)"

lemma answer_gone: "map_of (wk_batches s) i = None \<Longrightarrow> answer_all i rs now s = s"
  by (induction rs arbitrary: s) (simp_all add: answer_all_def handler_answers_def)

lemma continue_running: "wk_running (continue_batch i b now s) \<Longrightarrow> wk_running s"
  by (auto simp: continue_batch_def split: list.splits)

lemma continue_ended:
  "wb_rest b = [] \<Longrightarrow> \<not> wk_running (continue_batch i b now s) \<and> map_of (wk_batches (continue_batch i b now s)) i = None"
  by (simp add: continue_batch_def js_simps)

lemma continue_going:
  "wb_rest b \<noteq> [] \<Longrightarrow> map_of (wk_batches (continue_batch i b now s)) i = Some b"
  by (auto simp: continue_batch_def js_simps split: list.split)

lemma answers_stop_running:
  assumes "map_of (wk_batches s) i = Some b" "wb_rest b \<noteq> []" "length (wb_rest b) \<le> length rs"
  shows "\<not> wk_running (answer_all i rs now s)"
  using assms
proof (induction rs arbitrary: s b)
  case (Cons r rs)
  have step: "answer_all i (r # rs) now s = answer_all i rs now (handler_answers i r now s)" by (simp add: answer_all_def)
  show ?case
  proof (cases r)
    case (Answered x)
    let ?b = "b\<lparr>wb_rest := tl (wb_rest b)\<rparr>"
    obtain t where t: "handler_answers i r now s = continue_batch i ?b now t"
      using Answered Cons.prems(1) by (simp add: handler_answers_def)
    show ?thesis
    proof (cases "tl (wb_rest b)")
      case Nil
      then show ?thesis using continue_ended [of ?b i now t] by (simp add: step t answer_gone)
    next
      case (Cons w ws)
      have "\<not> wk_running (answer_all i rs now (continue_batch i ?b now t))"
        using Cons.prems(2,3) Cons by (intro Cons.IH [OF continue_going]) (cases "wb_rest b", simp_all)+
      then show ?thesis by (simp add: step t)
    qed
  next
    case Threw
    then obtain t where "handler_answers i r now s = finish_batch i (wb_delay b) now t"
      using Cons.prems(1) by (simp add: handler_answers_def)
    then show ?thesis by (simp add: step answer_gone js_simps)
  qed
qed simp

lemma answer_running: "wk_running (handler_answers i r now s) \<Longrightarrow> wk_running s"
  by (cases r) (auto simp: handler_answers_def dest: continue_running split: option.splits if_splits)

lemma answers_running: "wk_running (answer_all i rs now s) \<Longrightarrow> wk_running s"
  by (induction rs arbitrary: s) (auto simp: answer_all_def dest: answer_running)

lemma answer_first_stops:
  assumes "wake_ok s" "\<forall>(i, b) \<in> set (wk_batches s). length (wb_rest b) \<le> length rs"
  shows "\<not> wk_running (answer_first rs now s)"
proof (cases "wk_batches s")
  case Nil
  then show ?thesis using assms by (simp add: answer_first_def wake_ok_def batches_ok_def)
next
  case (Cons ib later)
  obtain i b where ib: "ib = (i, b)" by (cases ib)
  have "wb_rest b \<noteq> []" using assms(1) Cons ib by (simp add: wake_ok_def batches_ok_def batch_ok_def)
  then have "\<not> wk_running (answer_all i rs now s)"
    using assms(2) Cons ib by (intro answers_stop_running) auto
  then show ?thesis using Cons ib by (simp add: answer_first_def)
qed

section \<open>Pending wakes stay pending\<close>

definition waiting :: "jstring \<Rightarrow> nat \<Rightarrow> wake_state \<Rightarrow> bool" where
  "waiting k p s \<longleftrightarrow> (\<exists>w. map_of (wk_pending s) k = Some w \<and> p \<le> pw_priority w)"

lemma merge_priority: "pw_priority previous \<le> pw_priority (merge_wake nxt previous)"
  by (simp add: merge_wake_def Let_def)

lemma queue_waiting: "waiting k p s \<Longrightarrow> waiting k p (queue_pending_wake q now s)"
  using merge_priority by (fastforce simp: waiting_def queue_pending_wake_def Let_def js_simps intro: order_trans)

lemma queue_fold_waiting: "waiting k p s \<Longrightarrow> waiting k p (fold (\<lambda>w. queue_pending_wake (f w) now) ws s)"
  by (induction ws arbitrary: s) (simp_all add: queue_waiting)

lemma waiting_pending: "wk_pending s = wk_pending t \<Longrightarrow> waiting k p s = waiting k p t"
  by (simp add: waiting_def)

lemma answer_waiting: "waiting k p s \<Longrightarrow> waiting k p (handler_answers i r now s)"
  by (cases r)
     (auto simp: handler_answers_def waiting_pending [of "continue_batch a b c d" d for a b c d]
        waiting_pending [of "schedule a b c d" d for a b c d] waiting_pending [of "finish_batch a b c d" d for a b c d]
        queue_waiting queue_fold_waiting split: option.split)

lemma answers_waiting: "waiting k p s \<Longrightarrow> waiting k p (answer_all i rs now s)"
  by (induction rs arbitrary: s) (simp_all add: answer_all_def answer_waiting)

lemma answer_first_waiting: "waiting k p s \<Longrightarrow> waiting k p (answer_first rs now s)"
  by (simp add: answer_first_def answers_waiting split: list.split)

lemma answer_ok: "wake_ok s \<Longrightarrow> wake_ok (answer_first rs now s)"
proof -
  have "wake_ok s \<Longrightarrow> wake_ok (answer_all i rs now s)" for i
    by (induction rs arbitrary: s) (simp_all add: answer_all_def handler_answers_ok)
  then show "wake_ok s \<Longrightarrow> wake_ok (answer_first rs now s)" by (simp add: answer_first_def split: list.split)
qed

lemma answer_handler: "wk_handler (handler_answers i r now s) = wk_handler s"
  by (cases r) (simp_all add: handler_answers_def split: option.split)

lemma answer_first_handler: "wk_handler (answer_first rs now s) = wk_handler s"
proof -
  have "wk_handler (answer_all i rs now s) = wk_handler s" for i
    by (induction rs arbitrary: s) (simp_all add: answer_all_def answer_handler)
  then show ?thesis by (simp add: answer_first_def split: list.split)
qed

lemma batch_starts:
  assumes "wk_timer s = Some t" "wt_due_at t \<le> now" "wk_handler s = Some h" "\<not> wk_running s" "wk_pending s \<noteq> []"
  shows "map_of (wk_batches (wake_timer_fires now s)) (wk_next_batch s) =
     Some \<lparr>wb_handler = h, wb_wakes = map snd (wk_pending s), wb_rest = map snd (wk_pending s), wb_delay = wt_delay t\<rparr>"
  using assms by (auto simp: wake_timer_fires_def timer_callback_def Let_def continue_batch_def js_simps split: list.split)

section \<open>Handing over\<close>

text \<open>The handler answers, one wake of the batch after the other, each answer at its own time.\<close>

definition answer_each :: "nat \<Rightarrow> (handler_answer \<times> int) list \<Rightarrow> wake_state \<Rightarrow> wake_state" where
  "answer_each i rs s = fold (\<lambda>(r, t). handler_answers i r t) rs s"

text \<open>After the first \<open>n\<close> calls, the handler \<open>h\<close> was called for the target \<open>k\<close> with at least priority \<open>p\<close>.\<close>

definition handed_over :: "nat \<Rightarrow> jstring \<Rightarrow> nat \<Rightarrow> nat \<Rightarrow> wake_state \<Rightarrow> bool" where
  "handed_over h k p n s \<longleftrightarrow> (\<exists>t q. (h, t, q) \<in> set (drop n (wk_calls s)) \<and> wake_target_key (wq_agent_id q) (wq_session_key q) = k \<and>
     p \<le> resolve_wake_priority (wq_source q) (wq_intent q) (normalize_wake_reason (wq_reason q)))"

lemma continue_calls: "\<exists>l. wk_calls (continue_batch i b now u) = wk_calls u @ l"
  by (simp add: continue_batch_def finish_batch_def Let_def split: list.split)

lemma queue_calls: "wk_calls (fold (\<lambda>w. queue_pending_wake (f w) now) ws u) = wk_calls u"
  by (induction ws arbitrary: u) simp_all

lemma answer_calls: "\<exists>l. wk_calls (handler_answers i r now s) = wk_calls s @ l"
proof (cases "map_of (wk_batches s) i")
  case (Some b)
  show ?thesis
  proof (cases r)
    case (Answered a)
    let ?u = "if busy_result a then schedule (Some default_retry_ms) RetryTimer now (queue_pending_wake (wake_opts (hd (wb_rest b))) now s) else s"
    have "wk_calls ?u = wk_calls s" by simp
    then show ?thesis using continue_calls [of i "b\<lparr>wb_rest := tl (wb_rest b)\<rparr>" now ?u] Some Answered
      by (simp only: handler_answers_def option.case handler_answer.case)
  qed (simp add: handler_answers_def Some finish_batch_def Let_def queue_calls)
qed (simp add: handler_answers_def)

lemma answer_keeps_handed: "handed_over h k p n s \<Longrightarrow> handed_over h k p n (handler_answers i r now s)"
  using answer_calls [of i r now s] unfolding handed_over_def by fastforce

lemma answers_keep_handed: "handed_over h k p n s \<Longrightarrow> handed_over h k p n (answer_each i rs s)"
  by (induction rs arbitrary: s) (auto simp: answer_each_def answer_keeps_handed)

lemma answer_each_gone: "map_of (wk_batches s) i = None \<Longrightarrow> answer_each i rs s = s"
  by (induction rs arbitrary: s) (auto simp: answer_each_def handler_answers_def)

lemma wake_opts_simps [simp]:
  "wq_agent_id (wake_opts w) = pw_agent_id w" "wq_session_key (wake_opts w) = pw_session_key w"
  by (simp_all add: wake_opts_def)

lemma wake_opts_priority:
  "pending_ok k w \<Longrightarrow> resolve_wake_priority (wq_source (wake_opts w)) (wq_intent (wake_opts w)) (normalize_wake_reason (wq_reason (wake_opts w))) = pw_priority w"
  by (simp add: wake_opts_def pending_ok_def)

lemma handed_last:
  assumes "(h, t, wake_opts w) \<in> set (drop n (wk_calls s))" "pending_ok k w" "p \<le> pw_priority w"
  shows "handed_over h k p n s"
  using assms wake_opts_priority [OF assms(2)] unfolding handed_over_def
  by (intro exI [of _ t] exI [of _ "wake_opts w"]) (simp add: pending_ok_def)

lemma requeued_waiting:
  assumes "w \<in> set ws" "pending_ok k w" "p \<le> pw_priority w"
  shows "waiting k p (fold (\<lambda>w. queue_pending_wake (wake_opts w) now) ws s)"
proof -
  have q: "waiting k p (queue_pending_wake (wake_opts w) now u)" for u
  proof -
    have n: "pw_priority (next_wake (wake_opts w) now) = pw_priority w"
      "wake_target_key (pw_agent_id (next_wake (wake_opts w) now)) (pw_session_key (next_wake (wake_opts w) now)) = k"
      using assms(2) wake_opts_priority [OF assms(2)]
      by (simp_all add: next_wake_def Let_def wake_target_key_def pending_ok_def)
    have "pw_priority (next_wake (wake_opts w) now) \<le> pw_priority (merge_wake (next_wake (wake_opts w) now) previous)" for previous
      by (simp add: merge_wake_def Let_def)
    with n assms(3) show ?thesis
      by (auto simp: waiting_def queue_pending_wake_def Let_def js_simps intro: order_trans split: option.split)
  qed
  from assms(1) obtain before after where ws: "ws = before @ w # after" by (meson split_list)
  show ?thesis unfolding ws by (simp add: queue_fold_waiting q)
qed

text \<open>A batch hands over a wake of it, unless the handler throws before; then the wake waits again.\<close>

lemma batch_hands_over:
  assumes "map_of (wk_batches s) i = Some b" "wb_handler b = h" "w \<in> set (wb_rest b)" "set (wb_rest b) \<subseteq> set (wb_wakes b)"
    and "(h, t, wake_opts (hd (wb_rest b))) \<in> set (drop n (wk_calls s))" "n \<le> length (wk_calls s)"
    and "pending_ok k w" "p \<le> pw_priority w" "length (wb_rest b) \<le> length rs"
  shows "handed_over h k p n (answer_each i rs s) \<or> Threw \<in> fst ` set rs \<and> waiting k p (answer_each i rs s)"
  using assms(1-6,9)
proof (induction rs arbitrary: s b t)
  case (Cons x rs)
  obtain r now where x: "x = (r, now)" by (cases x)
  have step: "answer_each i (x # rs) s = answer_each i rs (handler_answers i r now s)" by (simp add: answer_each_def x)
  show ?case
  proof (cases "w = hd (wb_rest b)")
    case True
    then have "handed_over h k p n s" using handed_last [of h t w n s k p] Cons.prems(5) assms(7,8) by simp
    then have "handed_over h k p n (answer_each i (x # rs) s)" by (rule answers_keep_handed)
    then show ?thesis ..
  next
    case False
    then have rest: "w \<in> set (tl (wb_rest b))" using Cons.prems(3) by (cases "wb_rest b") simp_all
    show ?thesis
    proof (cases r)
      case (Answered a)
      let ?b = "b\<lparr>wb_rest := tl (wb_rest b)\<rparr>"
      obtain v vs where v: "tl (wb_rest b) = v # vs" using rest by (cases "tl (wb_rest b)") simp_all
      obtain u where u: "handler_answers i r now s = continue_batch i ?b now u" "wk_calls u = wk_calls s"
        using Answered Cons.prems(1) by (cases "busy_result a") (simp_all add: handler_answers_def)
      have c: "map_of (wk_batches (continue_batch i ?b now u)) i = Some ?b"
        "wk_calls (continue_batch i ?b now u) = wk_calls s @ [(h, now, wake_opts v)]"
        using v u(2) Cons.prems(2) by (simp_all add: continue_batch_def js_simps)
      have "set (wb_rest ?b) \<subseteq> set (wb_wakes ?b)" "length (wb_rest ?b) \<le> length rs"
        using Cons.prems(4,7) v by (cases "wb_rest b"; auto)+
      with c Cons.prems(2,6) rest v
      have "handed_over h k p n (answer_each i rs (continue_batch i ?b now u)) \<or>
          Threw \<in> fst ` set rs \<and> waiting k p (answer_each i rs (continue_batch i ?b now u))"
        by (intro Cons.IH [OF c(1), where t = now]) auto
      then show ?thesis unfolding step u(1) by auto
    next
      case Threw
      have "waiting k p (handler_answers i r now s)"
        using requeued_waiting [of w "wb_wakes b" k p now s] Cons.prems(1,3,4) assms(7,8) Threw
        by (auto simp: handler_answers_def waiting_pending [of "schedule a b c d" d for a b c d]
            waiting_pending [of "finish_batch a b c d" d for a b c d])
      moreover have "map_of (wk_batches (handler_answers i r now s)) i = None"
        using Cons.prems(1) Threw by (simp add: handler_answers_def js_simps)
      ultimately show ?thesis unfolding step by (simp add: answer_each_gone x Threw)
    qed
  qed
qed (use assms in auto)

lemma batch_calls:
  assumes "wk_timer s = Some t" "wt_due_at t \<le> now" "wk_handler s = Some h" "\<not> wk_running s" "wk_pending s \<noteq> []"
  shows "wk_calls (wake_timer_fires now s) = wk_calls s @ [(h, now, wake_opts (hd (map snd (wk_pending s))))]"
  using assms by (cases "wk_pending s") (simp_all add: wake_timer_fires_def timer_callback_def Let_def continue_batch_def)

lemma answer_first_calls: "length (wk_calls s) \<le> length (wk_calls (answer_first rs now s))"
proof -
  have "length (wk_calls s) \<le> length (wk_calls (answer_all i rs now s))" for i
  proof (induction rs arbitrary: s)
    case (Cons r rs)
    obtain l where "wk_calls (handler_answers i r now s) = wk_calls s @ l" using answer_calls by blast
    with Cons.IH [of "handler_answers i r now s"] show ?case by (simp add: answer_all_def)
  qed (simp add: answer_all_def)
  then show ?thesis by (simp add: answer_first_def split: list.split)
qed

section \<open>Coalescing\<close>

abbreviation request_key :: "wake_request \<Rightarrow> jstring" where
  "request_key q \<equiv> wake_target_key (wq_agent_id q) (wq_session_key q)"

abbreviation request_priority :: "wake_request \<Rightarrow> nat" where
  "request_priority q \<equiv> resolve_wake_priority (wq_source q) (wq_intent q) (normalize_wake_reason (wq_reason q))"

text \<open>The reference: of the requests for a target, the last one of the highest priority.\<close>

definition last_best :: "('a \<Rightarrow> nat) \<Rightarrow> 'a list \<Rightarrow> 'a option" where
  "last_best f cs =
     (let ds = filter (\<lambda>x. list_all (\<lambda>y. f y \<le> f x) cs) cs in if ds = [] then None else Some (last ds))"

definition most_urgent :: "jstring \<Rightarrow> (wake_request \<times> int) list \<Rightarrow> (wake_request \<times> int) option" where
  "most_urgent k rs = last_best (\<lambda>x. request_priority (fst x)) (filter (\<lambda>x. request_key (fst x) = k) rs)"

lemma last_best_nonempty: "cs \<noteq> [] \<Longrightarrow> filter (\<lambda>x. list_all (\<lambda>y. f y \<le> (f x :: nat)) cs) cs \<noteq> []"
proof -
  assume "cs \<noteq> []"
  then have "Max (f ` set cs) \<in> f ` set cs" by (intro Max_in) auto
  then obtain x where "x \<in> set cs" "f x = Max (f ` set cs)" by force
  then have "list_all (\<lambda>y. f y \<le> f x) cs" by (simp add: list_all_iff)
  with \<open>x \<in> set cs\<close> show ?thesis by (force simp: filter_empty_conv)
qed

lemma last_best_Some:
  assumes "last_best f cs = Some y"
  shows "y \<in> set cs" "\<And>z. z \<in> set cs \<Longrightarrow> f z \<le> f y"
proof -
  let ?ds = "filter (\<lambda>x. list_all (\<lambda>y. f y \<le> f x) cs) cs"
  have "?ds \<noteq> []" "y = last ?ds" using assms by (auto simp: last_best_def Let_def split: if_splits)
  then have "y \<in> set ?ds" by (metis last_in_set)
  then show "y \<in> set cs" "\<And>z. z \<in> set cs \<Longrightarrow> f z \<le> f y" by (auto simp: list_all_iff)
qed

lemma last_best_None: "last_best f cs = None \<longleftrightarrow> cs = []"
  using last_best_nonempty [of cs f] by (auto simp: last_best_def Let_def)

lemma last_best_snoc:
  "last_best f (cs @ [x]) = (case last_best f cs of None \<Rightarrow> Some x | Some y \<Rightarrow> if f y \<le> f x then Some x else Some y)"
proof (cases "last_best f cs")
  case None
  then have "cs = []" by (simp add: last_best_None)
  then show ?thesis by (simp add: last_best_def)
next
  case (Some y)
  note y = last_best_Some [OF Some]
  show ?thesis
  proof (cases "f y \<le> f x")
    case True
    then have "\<forall>z \<in> set cs. f z \<le> f x" using y(2) order_trans by blast
    then show ?thesis using True Some by (simp add: last_best_def list_all_iff)
  next
    case False
    have "list_all (\<lambda>z. f z \<le> f w) (cs @ [x]) \<longleftrightarrow> list_all (\<lambda>z. f z \<le> f w) cs" for w
    proof -
      have "f x \<le> f w" if "list_all (\<lambda>z. f z \<le> f w) cs"
        using that y(1) False unfolding list_all_iff by (meson le_less_trans not_le_imp_less order_less_imp_le)
      then show ?thesis by auto
    qed
    moreover have "\<not> list_all (\<lambda>z. f z \<le> f x) cs" using y(1) False unfolding list_all_iff by blast
    ultimately have "last_best f (cs @ [x]) = last_best f cs" by (simp only: last_best_def filter_append filter.simps) simp
    then show ?thesis using Some False by simp
  qed
qed

lemma most_urgent_Nil: "most_urgent k [] = None"
  by (simp add: most_urgent_def last_best_def)

lemma most_urgent_mem: "most_urgent k rs = Some y \<Longrightarrow> y \<in> set rs"
  using last_best_Some(1) [of "\<lambda>x. request_priority (fst x)" "filter (\<lambda>x. request_key (fst x) = k) rs" y]
  by (simp add: most_urgent_def)

lemma most_urgent_snoc:
  "most_urgent k (rs @ [x]) =
     (if request_key (fst x) \<noteq> k then most_urgent k rs
      else case most_urgent k rs of None \<Rightarrow> Some x
        | Some y \<Rightarrow> if request_priority (fst y) \<le> request_priority (fst x) then Some x else Some y)"
  by (simp add: most_urgent_def last_best_snoc)

text \<open>What coalescing decides; the override of the delivery target may come from an earlier request.\<close>

definition core_wake :: "pending_wake \<Rightarrow> pending_wake" where
  "core_wake w = w\<lparr>pw_heartbeat := None\<rparr>"

definition queue_all :: "(wake_request \<times> int) list \<Rightarrow> wake_state \<Rightarrow> wake_state" where
  "queue_all rs s = fold (\<lambda>(q, t). queue_pending_wake q t) rs s"

lemma core_merge:
  "core_wake (merge_wake nxt previous) =
     (if pw_priority previous < pw_priority nxt \<or> (pw_priority nxt = pw_priority previous \<and> pw_requested_at previous \<le> pw_requested_at nxt)
      then core_wake nxt else core_wake previous)"
  by (simp add: core_wake_def merge_wake_def Let_def)

lemma core_fields: "core_wake v = core_wake w \<Longrightarrow> pw_priority v = pw_priority w \<and> pw_requested_at v = pw_requested_at w"
  unfolding core_wake_def by (metis pending_wake.simps(4) pending_wake.simps(5) pending_wake.update_convs(8) pending_wake.surjective)

lemma next_wake_fields [simp]:
  "pw_priority (next_wake q t) = request_priority q" "pw_requested_at (next_wake q t) = t"
  "wake_target_key (pw_agent_id (next_wake q t)) (pw_session_key (next_wake q t)) = request_key q"
  by (simp_all add: next_wake_def Let_def wake_target_key_def)

lemma queue_pending_lookup:
  "map_of (wk_pending (queue_pending_wake q t s)) k =
     (if k = request_key q
      then Some (case map_of (wk_pending s) k of None \<Rightarrow> next_wake q t | Some p \<Rightarrow> merge_wake (next_wake q t) p)
      else map_of (wk_pending s) k)"
  by (simp add: queue_pending_wake_def Let_def js_simps)

section \<open>Concrete states\<close>

definition exec_wake :: wake_request where
  "exec_wake = \<lparr>wq_source = ExecEventSource, wq_intent = EventWake, wq_reason = None, wq_agent_id = None,
     wq_session_key = None, wq_heartbeat = None\<rparr>"

text \<open>A handler is busy with a wake when the next one arrives.\<close>

definition busy_events :: "wake_event list" where
  "busy_events = [SetHandler (Some 7) 0, RequestWake exec_wake (Some (Some 0)) 0, TimerFires 0, RequestWake exec_wake (Some (Some 0)) 5]"

definition busy_state :: wake_state where
  "busy_state = fold wake_exec busy_events initial_wake_state"

lemma reachable_fold: "wake_reachable s \<Longrightarrow> wake_reachable (fold wake_exec es s)"
  by (induction es arbitrary: s) (simp_all add: wake_reachable.wake_step)

lemma busy_state_reachable: "wake_reachable busy_state"
  unfolding busy_state_def by (rule reachable_fold) (rule wake_reachable.wake_start)

lemma busy_state_facts:
  "wk_handler busy_state = Some 7" "wk_running busy_state"
  "wk_timer busy_state = Some \<lparr>wt_due_at = 5, wt_kind = NormalTimer, wt_delay = 0\<rparr>"
  "map_of (wk_pending busy_state) (js ''::'') = Some (next_wake exec_wake 5)"
  "map (\<lambda>(i, b). (i, length (wb_rest b))) (wk_batches busy_state) = [(0, 1)]"
  by code_simp+

text \<open>A busy answer while a normal timer is armed does not arm a retry timer: the wake is tried again
  when that timer fires, possibly at once, and not after \<open>DEFAULT_RETRY_MS\<close>.\<close>

lemma queue_pending_nonempty: "wk_pending (queue_pending_wake q now s) \<noteq> []"
proof -
  have "map_of (wk_pending (queue_pending_wake q now s)) (request_key q) \<noteq> None" by (simp add: queue_pending_lookup)
  then show ?thesis by auto
qed

lemma busy_answer:
  assumes "map_of (wk_batches s) i = Some b" "wb_rest b = [w]" "busy_result r"
  shows "wk_pending (handler_answers i (Answered r) now s) \<noteq> []"
    and "\<not> wk_running (handler_answers i (Answered r) now s)"
    and "wk_timer s = None \<Longrightarrow> wk_timer (handler_answers i (Answered r) now s) =
      Some \<lparr>wt_due_at = now + 1000, wt_kind = RetryTimer, wt_delay = 1000\<rparr>"
    and "wk_timer s = Some t \<Longrightarrow> wt_kind t = NormalTimer \<Longrightarrow> wt_due_at t \<le> now \<Longrightarrow>
      wk_timer (handler_answers i (Answered r) now s) = Some t"
proof -
  let ?q = "schedule (Some default_retry_ms) RetryTimer now (queue_pending_wake (wake_opts w) now s)"
  have a: "handler_answers i (Answered r) now s = finish_batch i (wb_delay b) now ?q"
    using assms by (simp add: handler_answers_def continue_batch_def)
  have p: "wk_pending ?q \<noteq> []" by (simp add: queue_pending_nonempty)
  show "wk_pending (handler_answers i (Answered r) now s) \<noteq> []" "\<not> wk_running (handler_answers i (Answered r) now s)"
    using p by (simp_all add: a)
  show "wk_timer (handler_answers i (Answered r) now s) = Some \<lparr>wt_due_at = now + 1000, wt_kind = RetryTimer, wt_delay = 1000\<rparr>"
    if "wk_timer s = None"
  proof -
    have q: "wk_timer ?q = Some \<lparr>wt_due_at = now + 1000, wt_kind = RetryTimer, wt_delay = 1000\<rparr>"
      using that by (simp add: schedule_def default_retry_ms_def)
    then show ?thesis using p by (simp add: a finish_batch_def Let_def schedule_def)
  qed
  show "wk_timer (handler_answers i (Answered r) now s) = Some t"
    if "wk_timer s = Some t" "wt_kind t = NormalTimer" "wt_due_at t \<le> now"
  proof -
    have q: "wk_timer ?q = Some t" using that by (simp add: schedule_def default_retry_ms_def)
    then show ?thesis using p that by (simp add: a finish_batch_def Let_def schedule_def)
  qed
qed

lemma busy_retry_without_pause:
  assumes "map_of (wk_batches s) i = Some b" "wb_rest b = [w]" "busy_result r"
    and "wk_timer s = Some t" "wt_kind t = NormalTimer" "wt_due_at t \<le> now" "wk_handler s = Some h"
  shows "wk_batches (wake_timer_fires now (handler_answers i (Answered r) now s)) \<noteq> []"
proof -
  let ?s = "handler_answers i (Answered r) now s"
  have "map_of (wk_batches (wake_timer_fires now ?s)) (wk_next_batch ?s) \<noteq> None"
    using batch_starts [of ?s t now h] busy_answer [OF assms(1-3)] assms(4-7) by (simp add: answer_handler)
  then show ?thesis by auto
qed

text \<open>The loop of an old handler that ends late clears the running flag of the new handler's batch, so
  that two batches of the new handler run at the same time.\<close>

lemma stale_batch_unlocks:
  "map (\<lambda>(i, b). wb_handler b) (wk_batches (fold wake_exec
     [SetHandler (Some 8) 6, TimerFires 300, RequestWake exec_wake (Some (Some 0)) 310, HandlerAnswers 0 (Answered (Ran 1)) 320,
      TimerFires 330] busy_state)) = [8, 8]"
  by code_simp

section \<open>Properties\<close>

text \<open>C36: no wake is stranded. In every reachable state with a handler, a pending wake has a timer
  armed. Once the oldest batch in flight has got its answers \<open>rs\<close>, whatever they are, the timer that is
  armed then starts a batch of this handler; and when the handler has answered for every wake of that
  batch, whatever it answers, then it was called for the target with a wake that is at least as urgent,
  unless a call of it threw: then it was called, or the wake is pending again, no less urgent (a wake
  behind one whose calls always throw need not be handed over).\<close>
theorem pending_wake_is_served:
  assumes "wake_reachable s" "wk_handler s = Some h" "map_of (wk_pending s) k = Some w"
    and "\<forall>(i, b) \<in> set (wk_batches s). length (wb_rest b) \<le> length rs"
    and "u = answer_first rs now s" "length (wk_pending u) \<le> length as"
  shows "wk_timer s \<noteq> None \<and>
     (\<exists>t. wk_timer u = Some t \<and>
       (let v = answer_each (wk_next_batch u) as (wake_timer_fires (wt_due_at t) u)
        in handed_over h k (pw_priority w) (length (wk_calls s)) v \<or> Threw \<in> fst ` set as \<and> waiting k (pw_priority w) v))"
proof -
  have ok: "wake_ok s" using assms(1) by (rule wake_reachable_ok)
  have armed: "wk_timer s \<noteq> None" using ok assms(2,3) by (auto simp: wake_ok_def armed_ok_def)
  have "waiting k (pw_priority w) s" using assms(3) by (simp add: waiting_def)
  then have "waiting k (pw_priority w) u" unfolding assms(5) by (rule answer_first_waiting)
  then obtain w' where w': "map_of (wk_pending u) k = Some w'" "pw_priority w \<le> pw_priority w'" by (auto simp: waiting_def)
  have h: "wk_handler u = Some h" using assms(2,5) by (simp add: answer_first_handler)
  have p: "wk_pending u \<noteq> []" using w'(1) by auto
  have ok': "wake_ok u" unfolding assms(5) using ok by (rule answer_ok)
  then obtain t where t: "wk_timer u = Some t" using h p by (auto simp: wake_ok_def armed_ok_def)
  have pk: "pending_ok k w'" using ok' w'(1) by (simp add: wake_ok_def wakes_ok_def)
  have m: "w' \<in> set (map snd (wk_pending u))" using w'(1) by (force dest: map_of_SomeD)
  have idle: "\<not> wk_running u" unfolding assms(5) by (rule answer_first_stops [OF ok assms(4)])
  let ?f = "wake_timer_fires (wt_due_at t) u"
  note b = batch_starts [OF t order_refl h idle p]
  have more: "length (wk_calls s) \<le> length (wk_calls u)" unfolding assms(5) by (rule answer_first_calls)
  then have call: "(h, wt_due_at t, wake_opts (hd (map snd (wk_pending u)))) \<in> set (drop (length (wk_calls s)) (wk_calls ?f))"
    "length (wk_calls s) \<le> length (wk_calls ?f)"
    using batch_calls [OF t order_refl h idle p] by simp_all
  let ?v = "answer_each (wk_next_batch u) as ?f"
  have "handed_over h k (pw_priority w) (length (wk_calls s)) ?v \<or> Threw \<in> fst ` set as \<and> waiting k (pw_priority w) ?v"
    using m assms(6) call by (intro batch_hands_over [OF b _ _ _ _ _ pk w'(2)]) simp_all
  with armed t show ?thesis by (auto simp: Let_def)
qed

lemma busy_state_batch:
  "wk_pending busy_state = [(js ''::'', next_wake exec_wake 5)]"
  "wk_batches busy_state = [(0, \<lparr>wb_handler = 7, wb_wakes = [next_wake exec_wake 0], wb_rest = [next_wake exec_wake 0], wb_delay = 0\<rparr>)]"
  "wake_target_key None None = js ''::''" "normalize_wake_target None = None"
  by code_simp+

lemma busy_answered: "length (wk_pending (answer_first [Threw] 9 busy_state)) = 1"
proof -
  let ?u = "queue_pending_wake (wake_opts (next_wake exec_wake 0)) 9 busy_state"
  have "wk_pending (answer_first [Threw] 9 busy_state) = wk_pending ?u"
    by (simp add: answer_first_def answer_all_def busy_state_batch handler_answers_def)
  also have "length \<dots> = 1"
    by (simp add: queue_pending_wake_def next_wake_def Let_def busy_state_batch map_put_def exec_wake_def wake_opts_def)
  finally show ?thesis .
qed

theorem pending_wake_is_served_witness:
  "wk_timer busy_state \<noteq> None \<and>
   (\<exists>t. wk_timer (answer_first [Threw] 9 busy_state) = Some t \<and>
     handed_over 7 (js ''::'') (pw_priority (next_wake exec_wake 5)) (length (wk_calls busy_state))
       (answer_each (wk_next_batch (answer_first [Threw] 9 busy_state)) [(Answered (Ran 3), 12)]
         (wake_timer_fires (wt_due_at t) (answer_first [Threw] 9 busy_state))))"
proof -
  have "map (\<lambda>(i, b). (i, length (wb_rest b))) (wk_batches busy_state) = [(0, 1)]" by (rule busy_state_facts)
  then have rs: "\<forall>(i, b) \<in> set (wk_batches busy_state). length (wb_rest b) \<le> length [Threw]" by auto
  have "length (wk_pending (answer_first [Threw] 9 busy_state)) \<le> length [(Answered (Ran 3), 12 :: int)]" by (simp add: busy_answered)
  from pending_wake_is_served [OF busy_state_reachable busy_state_facts(1,4) rs refl this] show ?thesis
    by (simp add: Let_def)
qed

text \<open>C37: the pause after a busy or failing handler is kept. While a retry timer is armed, whatever is
  requested, answered or disposed, no batch starts before it is due and it stays armed; only a new
  handler or the reset of the tests lifts it.\<close>
theorem retry_pause_is_kept:
  assumes "wk_timer s = Some t" "wt_kind t = RetryTimer"
    and "list_all (\<lambda>e. case e of TimerFires now \<Rightarrow> now < wt_due_at t | SetHandler h now \<Rightarrow> h = None | ResetForTests \<Rightarrow> False | _ \<Rightarrow> True) es"
  shows "wk_timer (fold wake_exec es s) = Some t \<and> wk_next_batch (fold wake_exec es s) = wk_next_batch s"
  using assms(1,3)
proof (induction es arbitrary: s)
  case (Cons e es)
  have f: "wk_timer (finish_batch i d now u) = Some t" if "wk_timer u = Some t" for i d now u
    using that assms(2) by (simp add: finish_batch_def Let_def schedule_retry [where t = t])
  have c: "wk_timer (continue_batch i b now u) = Some t" if "wk_timer u = Some t" for i b now u
    using that f by (simp add: continue_batch_def split: list.split)
  have "wk_timer (wake_exec e s) = Some t \<and> wk_next_batch (wake_exec e s) = wk_next_batch s"
  proof (cases e)
    case (RequestWake q c now)
    then show ?thesis using Cons.prems(1) assms(2) by (simp add: request_heartbeat_def schedule_retry [where t = t])
  next
    case (TimerFires now)
    then show ?thesis using Cons.prems by (simp add: wake_timer_fires_def)
  next
    case (HandlerAnswers i a now)
    then show ?thesis using Cons.prems(1) assms(2)
      by (cases a) (simp_all add: handler_answers_def c f schedule_retry [where t = t] split: option.split)
  next
    case (SetHandler h now)
    then show ?thesis using Cons.prems by (simp add: set_wake_handler_def Let_def)
  next
    case (Dispose d)
    then show ?thesis using Cons.prems(1) by (simp add: dispose_wake_handler_def)
  next
    case (SetEnabled b)
    then show ?thesis using Cons.prems(1) by (simp add: set_heartbeats_enabled_def)
  next
    case ResetForTests
    then show ?thesis using Cons.prems(2) by simp
  qed
  with Cons.IH [of "wake_exec e s"] Cons.prems(2) show ?case by simp
qed simp

definition paused_state :: wake_state where
  "paused_state = handler_answers 0 (Answered (Skipped skip_lanes_busy)) 3
     (fold wake_exec [SetHandler (Some 7) 0, RequestWake exec_wake (Some (Some 0)) 0, TimerFires 0] initial_wake_state)"

lemma paused_state_timer: "wk_timer paused_state = Some \<lparr>wt_due_at = 1003, wt_kind = RetryTimer, wt_delay = 1000\<rparr>"
proof -
  let ?s = "fold wake_exec [SetHandler (Some 7) 0, RequestWake exec_wake (Some (Some 0)) 0, TimerFires 0] initial_wake_state"
  have "map_of (wk_batches ?s) 0 = Some \<lparr>wb_handler = 7, wb_wakes = [next_wake exec_wake 0], wb_rest = [next_wake exec_wake 0], wb_delay = 0\<rparr>"
    by code_simp
  moreover have "wk_timer ?s = None" by code_simp
  moreover have "busy_result (Skipped skip_lanes_busy)" by (simp add: is_retryable_busy_skip_def)
  ultimately show ?thesis using busy_answer(3) [of ?s 0] unfolding paused_state_def by simp
qed

theorem retry_pause_is_kept_witness:
  "wk_timer (fold wake_exec [RequestWake exec_wake (Some (Some 0)) 4, TimerFires 10] paused_state) =
       Some \<lparr>wt_due_at = 1003, wt_kind = RetryTimer, wt_delay = 1000\<rparr> \<and>
   wk_next_batch (fold wake_exec [RequestWake exec_wake (Some (Some 0)) 4, TimerFires 10] paused_state) = wk_next_batch paused_state"
  by (rule retry_pause_is_kept [OF paused_state_timer]) simp_all

text \<open>Coalescing keeps the most urgent request. Of all requests for a target since it was last
  handed out, in the order of their times, the pending wake is the last one of the highest
  priority, apart from the override of the delivery target.\<close>
lemma coalescing_keeps_most_urgent:
  assumes "sorted (map snd rs)" "map_of (wk_pending s) k = None"
  shows "map_option core_wake (map_of (wk_pending (queue_all rs s)) k) =
     map_option (\<lambda>(q, t). core_wake (next_wake q t)) (most_urgent k rs)"
  using assms(1)
proof (induction rs rule: rev_induct)
  case Nil
  then show ?case using assms(2) by (simp add: queue_all_def most_urgent_Nil)
next
  case (snoc x rs)
  obtain q t where x: "x = (q, t)" by (cases x)
  have so: "sorted (map snd rs)" and late: "\<forall>y \<in> set rs. snd y \<le> t" using snoc.prems x by (auto simp: sorted_append)
  have q: "queue_all (rs @ [(q, t)]) s = queue_pending_wake q t (queue_all rs s)" by (simp add: queue_all_def)
  note IH = snoc.IH [OF so]
  show ?case
  proof (cases "most_urgent k rs")
    case None
    then show ?thesis using IH by (simp add: x q queue_pending_lookup most_urgent_snoc)
  next
    case (Some y)
    obtain q' t' where y: "y = (q', t')" by (cases y)
    obtain p where p: "map_of (wk_pending (queue_all rs s)) k = Some p" "core_wake p = core_wake (next_wake q' t')"
      using IH Some y by auto
    have "t' \<le> t" using most_urgent_mem [OF Some] late y by auto
    with core_fields [OF p(2)] show ?thesis
      using p Some y by (auto simp: x q queue_pending_lookup most_urgent_snoc core_merge)
  qed
qed

definition manual_wake :: wake_request where
  "manual_wake = exec_wake\<lparr>wq_intent := ManualWake, wq_source := ManualSource\<rparr>"

lemma coalescing_keeps_most_urgent_example:
  "map_option core_wake (map_of (wk_pending (queue_all [(exec_wake, 1), (manual_wake, 2), (exec_wake, 3)] initial_wake_state)) (js ''::'')) =
     map_option (\<lambda>(q, t). core_wake (next_wake q t)) (most_urgent (js ''::'') [(exec_wake, 1), (manual_wake, 2), (exec_wake, 3)]) \<and>
   most_urgent (js ''::'') [(exec_wake, 1), (manual_wake, 2), (exec_wake, 3)] = Some (manual_wake, 2)"
proof -
  have "most_urgent (js ''::'') [(exec_wake, 1), (manual_wake, 2), (exec_wake, 3)] = Some (manual_wake, 2)" by code_simp
  then show ?thesis
    using coalescing_keeps_most_urgent [of "[(exec_wake, 1), (manual_wake, 2), (exec_wake, 3)]" initial_wake_state "js ''::''"]
    by (simp add: initial_wake_state_def)
qed

end
