(* ===== verification/AccountId.thy ===== *)
theory AccountId
  imports StringCoerce Contracts
begin

text \<open>
  Account identifiers (\<open>openclaw-main/src/routing/account-id.ts\<close>, \<open>infra/prototype-keys.ts\<close>,
  \<open>utils/account-id.ts\<close>): the canonical form of an identifier and the two bounded caches in
  front of it. The caches are state; \<open>cached_normalize_*\<close> read and write them, \<open>normalize_*\<close> are
  the functions they remember.
\<close>

section \<open>Canonical form\<close>

definition default_account_id :: jstring where
  "default_account_id = js ''default''"

definition id_char :: "nat \<Rightarrow> bool" where
  "id_char c \<longleftrightarrow> (97 \<le> c \<and> c \<le> 122) \<or> (48 \<le> c \<and> c \<le> 57) \<or> c = 95 \<or> c = 45"

text \<open>\<open>VALID_ID_RE\<close>; its flag ignores the case of letters.\<close>

definition valid_id :: "jstring \<Rightarrow> bool" where
  "valid_id s \<longleftrightarrow> s \<noteq> [] \<and> list_all (\<lambda>c. id_char (lower_unit c)) s \<and> hd s \<notin> {45, 95} \<and> length s \<le> 64"

text \<open>\<open>s.replace(/[^a-z0-9_-]+/g, "-")\<close>.\<close>

fun dash_invalid :: "jstring \<Rightarrow> jstring" where
  "dash_invalid [] = []"
| "dash_invalid (c # cs) =
     (if id_char c then c # dash_invalid cs
      else if cs \<noteq> [] \<and> \<not> id_char (hd cs) then dash_invalid cs else 45 # dash_invalid cs)"

definition strip_dashes :: "jstring \<Rightarrow> jstring" where
  "strip_dashes s = rev (dropWhile (\<lambda>c. c = 45) (rev (dropWhile (\<lambda>c. c = 45) s)))"

definition canonicalize_account_id :: "jstring \<Rightarrow> jstring" where
  "canonicalize_account_id v =
     (let normalized = normalize_lowercase_string_or_empty (Str v)
      in if valid_id v then normalized else slice (strip_dashes (dash_invalid normalized)) 0 64)"

definition is_blocked_object_key :: "jstring \<Rightarrow> bool" where
  "is_blocked_object_key k \<longleftrightarrow> k \<in> set (map js [''__proto__'', ''prototype'', ''constructor''])"

definition normalize_canonical_account_id :: "jstring \<Rightarrow> jstring option" where
  "normalize_canonical_account_id v =
     (let canonical = canonicalize_account_id v
      in if canonical = [] \<or> is_blocked_object_key canonical then None else Some canonical)"

definition trimmed_id :: "jstring option \<Rightarrow> jstring" where
  "trimmed_id v = trim (case v of None \<Rightarrow> [] | Some s \<Rightarrow> s)"

definition normalize_account_id :: "jstring option \<Rightarrow> jstring" where
  "normalize_account_id v =
     (if trimmed_id v = [] then default_account_id
      else case normalize_canonical_account_id (trimmed_id v) of None \<Rightarrow> default_account_id | Some c \<Rightarrow> c)"

definition normalize_optional_account_id :: "jstring option \<Rightarrow> jstring option" where
  "normalize_optional_account_id v = (if trimmed_id v = [] then None else normalize_canonical_account_id (trimmed_id v))"

section \<open>The caches\<close>

definition account_id_cache_max :: nat where "account_id_cache_max = 512"

record account_caches =
  ac_normalized :: "(jstring, jstring) jmap"
  ac_optional :: "(jstring, jstring option) jmap"

definition set_normalize_cache :: "(jstring, 'v) jmap \<Rightarrow> jstring \<Rightarrow> 'v \<Rightarrow> (jstring, 'v) jmap" where
  "set_normalize_cache cache key v =
     (let c = map_put key v cache
      in if length c \<le> account_id_cache_max then c else (case c of [] \<Rightarrow> c | (oldest, w) # rest \<Rightarrow> map_del oldest c))"

definition cached_normalize_account_id :: "jstring option \<Rightarrow> account_caches \<Rightarrow> jstring \<times> account_caches" where
  "cached_normalize_account_id v s =
     (let trimmed = trimmed_id v in
      if trimmed = [] then (default_account_id, s)
      else let fresh = (case normalize_canonical_account_id trimmed of None \<Rightarrow> default_account_id | Some c \<Rightarrow> c);
               store = (fresh, s\<lparr>ac_normalized := set_normalize_cache (ac_normalized s) trimmed fresh\<rparr>)
           in case map_of (ac_normalized s) trimmed of
                Some cached \<Rightarrow> if cached = [] then store else (cached, s)
              | None \<Rightarrow> store)"

definition cached_normalize_optional_account_id :: "jstring option \<Rightarrow> account_caches \<Rightarrow> jstring option \<times> account_caches" where
  "cached_normalize_optional_account_id v s =
     (let trimmed = trimmed_id v in
      if trimmed = [] then (None, s)
      else case map_of (ac_optional s) trimmed of
             Some cached \<Rightarrow> (cached, s)
           | None \<Rightarrow> (let fresh = normalize_canonical_account_id trimmed
                     in (fresh, s\<lparr>ac_optional := set_normalize_cache (ac_optional s) trimmed fresh\<rparr>)))"

section \<open>The caches are transparent\<close>

definition caches_ok :: "account_caches \<Rightarrow> bool" where
  "caches_ok s \<longleftrightarrow>
     keys_ok (ac_normalized s) \<and> keys_ok (ac_optional s) \<and>
     length (ac_normalized s) \<le> account_id_cache_max \<and> length (ac_optional s) \<le> account_id_cache_max \<and>
     (\<forall>k v. map_of (ac_normalized s) k = Some v \<longrightarrow> v = normalize_account_id (Some k)) \<and>
     (\<forall>k v. map_of (ac_optional s) k = Some v \<longrightarrow> v = normalize_optional_account_id (Some k))"

lemma set_normalize_cache_facts:
  assumes "keys_ok cache" "length cache \<le> account_id_cache_max"
  shows "keys_ok (set_normalize_cache cache k v)" "length (set_normalize_cache cache k v) \<le> account_id_cache_max"
    and "map_of (set_normalize_cache cache k v) l = Some w \<Longrightarrow> l = k \<and> w = v \<or> map_of cache l = Some w"
proof -
  let ?c = "map_put k v cache"
  have c: "keys_ok ?c" using assms(1) by (rule keys_ok_map_put)
  show "keys_ok (set_normalize_cache cache k v)"
    using c by (auto simp: set_normalize_cache_def Let_def keys_ok_map_del split: list.split)
  show "length (set_normalize_cache cache k v) \<le> account_id_cache_max"
  proof (cases "length ?c \<le> account_id_cache_max")
    case False
    then obtain x xs where x: "?c = x # xs" by (cases ?c) auto
    have "length (map_del (fst x) (x # xs)) \<le> length xs" by (cases x) (simp add: map_del_def)
    moreover have "length ?c \<le> Suc account_id_cache_max" using assms(2) by (simp add: length_map_put)
    ultimately show ?thesis using False x by (simp add: set_normalize_cache_def Let_def split_beta)
  qed (simp add: set_normalize_cache_def Let_def)
  have "map_of ?c l = Some w" if "map_of (set_normalize_cache cache k v) l = Some w"
    using that by (auto simp: set_normalize_cache_def Let_def map_of_map_del split: list.splits if_splits)
  then show "map_of (set_normalize_cache cache k v) l = Some w \<Longrightarrow> l = k \<and> w = v \<or> map_of cache l = Some w"
    by (auto simp: map_of_map_put split: if_splits)
qed

lemma trimmed_id_again [simp]:
  "trimmed_id (Some (trimmed_id v)) = trimmed_id v"
  "normalize_account_id (Some (trimmed_id v)) = normalize_account_id v"
  "normalize_optional_account_id (Some (trimmed_id v)) = normalize_optional_account_id v"
  by (simp_all add: normalize_account_id_def normalize_optional_account_id_def trimmed_id_def)

lemma remember_account:
  "caches_ok s \<Longrightarrow> v = normalize_account_id (Some k) \<Longrightarrow>
   caches_ok (s\<lparr>ac_normalized := set_normalize_cache (ac_normalized s) k v\<rparr>)"
  using set_normalize_cache_facts [of "ac_normalized s"] by (fastforce simp: caches_ok_def)

lemma remember_optional:
  "caches_ok s \<Longrightarrow> v = normalize_optional_account_id (Some k) \<Longrightarrow>
   caches_ok (s\<lparr>ac_optional := set_normalize_cache (ac_optional s) k v\<rparr>)"
  using set_normalize_cache_facts [of "ac_optional s"] by (fastforce simp: caches_ok_def)

lemma cached_optional:
  assumes "caches_ok s"
  shows "cached_normalize_optional_account_id v s = (normalize_optional_account_id v, snd (cached_normalize_optional_account_id v s))"
    and "caches_ok (snd (cached_normalize_optional_account_id v s))"
proof -
  have fresh: "normalize_canonical_account_id (trimmed_id v) = normalize_optional_account_id v" if "trimmed_id v \<noteq> []"
    using that by (simp add: normalize_optional_account_id_def)
  have hit: "c = normalize_optional_account_id v" if "map_of (ac_optional s) (trimmed_id v) = Some c" for c
    using assms that trimmed_id_again(3) [of v] unfolding caches_ok_def by metis
  have empty: "normalize_optional_account_id v = None" if "trimmed_id v = []" using that by (simp add: normalize_optional_account_id_def)
  show "cached_normalize_optional_account_id v s = (normalize_optional_account_id v, snd (cached_normalize_optional_account_id v s))"
    by (auto simp: cached_normalize_optional_account_id_def Let_def fresh hit empty split: option.split)
  show "caches_ok (snd (cached_normalize_optional_account_id v s))"
    using assms by (auto simp: cached_normalize_optional_account_id_def Let_def fresh remember_optional split: option.split)
qed

lemma cached_account:
  assumes "caches_ok s"
  shows "cached_normalize_account_id v s = (normalize_account_id v, snd (cached_normalize_account_id v s))"
    and "caches_ok (snd (cached_normalize_account_id v s))"
proof -
  have fresh: "(case normalize_canonical_account_id (trimmed_id v) of None \<Rightarrow> default_account_id | Some c \<Rightarrow> c) = normalize_account_id v"
    if "trimmed_id v \<noteq> []" using that by (simp add: normalize_account_id_def)
  have hit: "c = normalize_account_id v" if "map_of (ac_normalized s) (trimmed_id v) = Some c" for c
    using assms that trimmed_id_again(2) [of v] unfolding caches_ok_def by metis
  have empty: "normalize_account_id v = default_account_id" if "trimmed_id v = []" using that by (simp add: normalize_account_id_def)
  show "cached_normalize_account_id v s = (normalize_account_id v, snd (cached_normalize_account_id v s))"
    by (cases "trimmed_id v = []"; cases "map_of (ac_normalized s) (trimmed_id v)")
       (simp_all add: cached_normalize_account_id_def Let_def fresh empty, use hit in blast)
  show "caches_ok (snd (cached_normalize_account_id v s))"
    using assms by (cases "trimmed_id v = []"; cases "map_of (ac_normalized s) (trimmed_id v)")
      (simp_all add: cached_normalize_account_id_def Let_def fresh remember_account)
qed

interpretation accounts: memoized cached_normalize_account_id caches_ok "\<lambda>v. True" normalize_account_id
  by unfold_locales (use cached_account in \<open>metis fst_conv\<close>, rule cached_account)

interpretation optional_accounts: memoized cached_normalize_optional_account_id caches_ok "\<lambda>v. True" normalize_optional_account_id
  by unfold_locales (use cached_optional in \<open>metis fst_conv\<close>, rule cached_optional)

lemma account_caches_are_invisible:
  "ask_all cached_normalize_account_id vs \<lparr>ac_normalized = [], ac_optional = []\<rparr> = map normalize_account_id vs"
  by (rule accounts.cache_is_invisible) (simp_all add: caches_ok_def list_all_iff)

end
