(* ===== verification/ChannelRoute.thy ===== *)
theory ChannelRoute
  imports AccountId
begin

text \<open>
  Routes of messages (\<open>openclaw-main/src/plugin-sdk/channel-route.ts\<close>) and delivery contexts
  (\<open>utils/delivery-context.shared.ts\<close>, \<open>message-channel-core.ts\<close>, \<open>channels/ids.ts\<close>).
  The catalog of channels, built from the bundled and installed plugins, is a parameter
  (\<open>channel_registry\<close>), and account identifiers are normalized by the function that the caches of
  \<open>AccountId\<close> remember.
\<close>

section \<open>Routes\<close>

datatype chat_type = DirectChat | GroupChat | ChannelChat
datatype thread_kind = TopicThread | PlainThread | ReplyThread
datatype thread_source = ExplicitSource | TargetSource | SessionSource | TurnSource

record route_target =
  tg_to :: jstring
  tg_raw_to :: "jstring option"
  tg_chat_type :: "chat_type option"

record route_thread =
  th_id :: thread_value
  th_kind :: "thread_kind option"
  th_source :: "thread_source option"

record route_ref =
  cr_channel :: "jstring option"
  cr_account_id :: "jstring option"
  cr_target :: "route_target option"
  cr_thread :: "route_thread option"

record route_input =
  ri_channel :: jsval
  ri_account_id :: jsval
  ri_to :: jsval
  ri_raw_to :: jsval
  ri_chat_type :: "chat_type option"
  ri_thread_id :: jsval
  ri_thread_kind :: "thread_kind option"
  ri_thread_source :: "thread_source option"

definition blank_input :: route_input where
  "blank_input = \<lparr>ri_channel = Undef, ri_account_id = Undef, ri_to = Undef, ri_raw_to = Undef, ri_chat_type = None,
     ri_thread_id = Undef, ri_thread_kind = None, ri_thread_source = None\<rparr>"

definition normalize_route_thread_id :: "jsval \<Rightarrow> thread_value option" where
  "normalize_route_thread_id v = normalize_optional_thread_value v"

definition stringify_route_thread_id :: "jsval \<Rightarrow> jstring option" where
  "stringify_route_thread_id v = map_option thread_string (normalize_route_thread_id v)"

definition normalize_channel_route_ref :: "route_input option \<Rightarrow> route_ref option" where
  "normalize_channel_route_ref input =
     (case input of None \<Rightarrow> None
      | Some i \<Rightarrow>
          (let channel = normalize_lowercase_string_or_empty (ri_channel i);
               account = (case ri_account_id i of Str s \<Rightarrow> normalize_optional_account_id (Some s) | _ \<Rightarrow> None);
               to = normalize_optional_string (ri_to i);
               raw_to = normalize_optional_string (ri_raw_to i);
               thread = normalize_route_thread_id (ri_thread_id i)
           in if channel = [] \<and> to = None \<and> account = None \<and> thread = None then None
              else Some \<lparr>cr_channel = (if channel = [] then None else Some channel), cr_account_id = account,
                cr_target = map_option (\<lambda>t. \<lparr>tg_to = t, tg_raw_to = (if raw_to = Some t then None else raw_to),
                                              tg_chat_type = ri_chat_type i\<rparr>) to,
                cr_thread = map_option (\<lambda>v. \<lparr>th_id = v, th_kind = ri_thread_kind i, th_source = ri_thread_source i\<rparr>) thread\<rparr>))"

definition channel_route_target :: "route_ref option \<Rightarrow> jstring option" where
  "channel_route_target route = Option.bind route (\<lambda>r. map_option tg_to (cr_target r))"

definition channel_route_thread_id :: "route_ref option \<Rightarrow> thread_value option" where
  "channel_route_thread_id route = Option.bind route (\<lambda>r. map_option th_id (cr_thread r))"

text \<open>\<open>ChannelRouteTargetInput\<close> is the part of the input without kind and source of the thread.\<close>

definition normalize_channel_route_target :: "route_input option \<Rightarrow> route_ref option" where
  "normalize_channel_route_target input = normalize_channel_route_ref input"

record explicit_target =
  xt_to :: jstring
  xt_thread_id :: "thread_value option"
  xt_chat_type :: "chat_type option"

record parsed_target =
  pt_channel :: jstring
  pt_raw_to :: jstring
  pt_to :: jstring
  pt_thread_id :: "thread_value option"
  pt_chat_type :: "chat_type option"

definition resolve_channel_route_target ::
  "jstring \<Rightarrow> jstring option \<Rightarrow> thread_value option \<Rightarrow> (jstring \<Rightarrow> jstring \<Rightarrow> explicit_target option) \<Rightarrow> parsed_target option" where
  "resolve_channel_route_target channel raw_target fallback parse =
     (let ch = normalize_lowercase_string_or_empty (Str channel) in
      case normalize_optional_string (of_string raw_target) of
        None \<Rightarrow> None
      | Some raw_to \<Rightarrow>
          if ch = [] then None
          else (let parsed = parse ch raw_to; fallback_id = normalize_optional_thread_value (of_thread fallback)
                in Some \<lparr>pt_channel = ch, pt_raw_to = raw_to,
                     pt_to = (case parsed of None \<Rightarrow> raw_to | Some x \<Rightarrow> xt_to x),
                     pt_thread_id = normalize_optional_thread_value (of_thread
                       (case Option.bind parsed xt_thread_id of None \<Rightarrow> fallback_id | Some t \<Rightarrow> Some t)),
                     pt_chat_type = Option.bind parsed xt_chat_type\<rparr>))"

section \<open>Keys and comparisons\<close>

definition or_empty :: "jstring option \<Rightarrow> jstring" where
  "or_empty v = (case v of None \<Rightarrow> [] | Some s \<Rightarrow> s)"

text \<open>The four strings that name a route.\<close>

definition route_parts :: "route_ref option \<Rightarrow> jstring list" where
  "route_parts route =
     [or_empty (Option.bind route cr_channel), or_empty (channel_route_target route),
      or_empty (Option.bind route cr_account_id),
      or_empty (stringify_route_thread_id (of_thread (channel_route_thread_id route)))]"

definition channel_route_dedupe_key :: "route_input option \<Rightarrow> jstring" where
  "channel_route_dedupe_key input = stringify_str (Arr (map Str (route_parts (normalize_channel_route_target input))))"

definition channel_route_identity_key :: "route_input option \<Rightarrow> jstring" where
  "channel_route_identity_key input = channel_route_dedupe_key input"

definition thread_ids_equal :: "thread_value option \<Rightarrow> thread_value option \<Rightarrow> bool" where
  "thread_ids_equal l r \<longleftrightarrow> stringify_route_thread_id (of_thread l) = stringify_route_thread_id (of_thread r)"

definition accounts_compatible :: "jstring option \<Rightarrow> jstring option \<Rightarrow> bool" where
  "accounts_compatible l r \<longleftrightarrow> or_empty l = [] \<or> or_empty r = [] \<or> l = r"

definition accounts_equal :: "jstring option \<Rightarrow> jstring option \<Rightarrow> bool" where
  "accounts_equal l r \<longleftrightarrow> or_empty l = or_empty r"

definition channel_routes_match_exact :: "route_ref option \<Rightarrow> route_ref option \<Rightarrow> bool" where
  "channel_routes_match_exact left right =
     (case (left, right) of
        (Some l, Some r) \<Rightarrow>
          cr_channel l = cr_channel r \<and> channel_route_target left = channel_route_target right \<and>
          accounts_equal (cr_account_id l) (cr_account_id r) \<and>
          thread_ids_equal (channel_route_thread_id left) (channel_route_thread_id right)
      | _ \<Rightarrow> False)"

definition channel_routes_share_conversation :: "route_ref option \<Rightarrow> route_ref option \<Rightarrow> bool" where
  "channel_routes_share_conversation left right =
     (case (left, right) of
        (Some l, Some r) \<Rightarrow>
          if cr_channel l \<noteq> cr_channel r \<or> channel_route_target left \<noteq> channel_route_target right \<or>
             \<not> accounts_compatible (cr_account_id l) (cr_account_id r) then False
          else if channel_route_thread_id left = None \<or> channel_route_thread_id right = None then True
          else thread_ids_equal (channel_route_thread_id left) (channel_route_thread_id right)
      | _ \<Rightarrow> False)"

definition channel_route_targets_match_exact :: "route_input option \<Rightarrow> route_input option \<Rightarrow> bool" where
  "channel_route_targets_match_exact l r =
     channel_routes_match_exact (normalize_channel_route_target l) (normalize_channel_route_target r)"

definition channel_route_targets_share_conversation :: "route_input option \<Rightarrow> route_input option \<Rightarrow> bool" where
  "channel_route_targets_share_conversation l r =
     channel_routes_share_conversation (normalize_channel_route_target l) (normalize_channel_route_target r)"

text \<open>A key is made of a route or of an input. A route without target and thread is taken for an
  input, which has the same channel and account.\<close>

datatype route_key_input = KeyRoute route_ref | KeyInput route_input

definition input_of_route :: "route_ref \<Rightarrow> route_input" where
  "input_of_route r = blank_input\<lparr>ri_channel := of_string (cr_channel r), ri_to := of_string (map_option tg_to (cr_target r)),
     ri_account_id := of_string (cr_account_id r), ri_thread_id := of_thread (map_option th_id (cr_thread r))\<rparr>"

definition normalize_channel_route_key_input :: "route_key_input option \<Rightarrow> route_ref option" where
  "normalize_channel_route_key_input route =
     (case route of None \<Rightarrow> None
      | Some (KeyRoute r) \<Rightarrow> normalize_channel_route_ref (Some (input_of_route r))
      | Some (KeyInput i) \<Rightarrow> normalize_channel_route_target (Some i))"

definition channel_route_compact_key :: "route_key_input option \<Rightarrow> jstring option" where
  "channel_route_compact_key route =
     (let normalized = normalize_channel_route_key_input route
      in if or_empty (Option.bind normalized cr_channel) = [] \<or> or_empty (channel_route_target normalized) = [] then None
         else Some (join (js ''|'') (route_parts normalized)))"

definition channel_route_key :: "route_ref option \<Rightarrow> jstring option" where
  "channel_route_key route = channel_route_compact_key (map_option KeyRoute route)"

section \<open>Delivery contexts\<close>

text \<open>What the process knows about channels: the aliases and names of the bundled ones, and the
  lookup among registered plugins.\<close>

record channel_registry =
  rg_aliases :: "jstring \<Rightarrow> jstring option"
  rg_chat_ids :: "jstring \<Rightarrow> bool"
  rg_plugin_id :: "jstring \<Rightarrow> jstring option"

definition internal_message_channel :: jstring where
  "internal_message_channel = js ''webchat''"

definition normalize_chat_channel_id :: "channel_registry \<Rightarrow> jstring option \<Rightarrow> jstring option" where
  "normalize_chat_channel_id g raw =
     (case normalize_optional_lowercase_string (of_string raw) of None \<Rightarrow> None
      | Some normalized \<Rightarrow>
          (let resolved = (case rg_aliases g normalized of None \<Rightarrow> normalized | Some r \<Rightarrow> r)
           in if rg_chat_ids g resolved then Some resolved else None))"

definition normalize_any_channel_id :: "channel_registry \<Rightarrow> jstring option \<Rightarrow> jstring option" where
  "normalize_any_channel_id g raw =
     (case normalize_optional_lowercase_string (of_string raw) of None \<Rightarrow> None | Some key \<Rightarrow> rg_plugin_id g key)"

definition normalize_message_channel :: "channel_registry \<Rightarrow> jstring option \<Rightarrow> jstring option" where
  "normalize_message_channel g raw =
     (case normalize_optional_lowercase_string (of_string raw) of None \<Rightarrow> None
      | Some normalized \<Rightarrow>
          if normalized = internal_message_channel then Some internal_message_channel
          else (case normalize_chat_channel_id g (Some normalized) of
                  Some built_in \<Rightarrow> if built_in = [] then Some (case normalize_any_channel_id g (Some normalized) of None \<Rightarrow> normalized | Some c \<Rightarrow> c)
                                   else Some built_in
                | None \<Rightarrow> Some (case normalize_any_channel_id g (Some normalized) of None \<Rightarrow> normalized | Some c \<Rightarrow> c)))"

definition is_deliverable_message_channel :: "channel_registry \<Rightarrow> jstring \<Rightarrow> bool" where
  "is_deliverable_message_channel g v =
     (let normalized = normalize_message_channel g (Some v)
      in normalized \<noteq> None \<and> normalized \<noteq> Some internal_message_channel \<and> normalized = Some v)"

record delivery_context =
  dv_channel :: "jstring option"
  dv_to :: "jstring option"
  dv_account_id :: "jstring option"
  dv_thread_id :: "thread_value option"

definition context_input :: "delivery_context \<Rightarrow> route_input" where
  "context_input c = blank_input\<lparr>ri_channel := of_string (dv_channel c), ri_to := of_string (dv_to c),
     ri_account_id := of_string (dv_account_id c), ri_thread_id := of_thread (dv_thread_id c)\<rparr>"

definition normalize_delivery_context :: "channel_registry \<Rightarrow> delivery_context option \<Rightarrow> delivery_context option" where
  "normalize_delivery_context g context =
     (case context of None \<Rightarrow> None
      | Some c \<Rightarrow>
          (let channel = map_option (\<lambda>s. case normalize_message_channel g (Some s) of None \<Rightarrow> trim s | Some n \<Rightarrow> n) (dv_channel c);
               route = normalize_channel_route_target (Some (context_input (c\<lparr>dv_channel := channel\<rparr>)))
           in map_option (\<lambda>r. \<lparr>dv_channel = cr_channel r, dv_to = channel_route_target route,
                dv_account_id = normalize_optional_account_id (cr_account_id r),
                dv_thread_id = channel_route_thread_id route\<rparr>) route))"

definition nullish_or :: "'a option \<Rightarrow> 'a option \<Rightarrow> 'a option" where
  "nullish_or a b = (case a of None \<Rightarrow> b | Some x \<Rightarrow> Some x)"

definition merge_delivery_context ::
  "channel_registry \<Rightarrow> delivery_context option \<Rightarrow> delivery_context option \<Rightarrow> delivery_context option" where
  "merge_delivery_context g primary fallback =
     (let p = normalize_delivery_context g primary; f = normalize_delivery_context g fallback;
          conflict = (or_empty (Option.bind p dv_channel) \<noteq> [] \<and> or_empty (Option.bind f dv_channel) \<noteq> [] \<and>
                      Option.bind p dv_channel \<noteq> Option.bind f dv_channel);
          f' = (if conflict then None else f)
      in if p = None \<and> f = None then None
         else normalize_delivery_context g (Some \<lparr>
           dv_channel = nullish_or (Option.bind p dv_channel) (Option.bind f dv_channel),
           dv_to = nullish_or (Option.bind p dv_to) (Option.bind f' dv_to),
           dv_account_id = nullish_or (Option.bind p dv_account_id) (Option.bind f' dv_account_id),
           dv_thread_id = nullish_or (Option.bind p dv_thread_id) (Option.bind f' dv_thread_id)\<rparr>))"

definition delivery_context_key :: "channel_registry \<Rightarrow> delivery_context option \<Rightarrow> jstring option" where
  "delivery_context_key g context =
     channel_route_compact_key (map_option (\<lambda>c. KeyInput (context_input c)) (normalize_delivery_context g context))"

section \<open>Delivery fields of a session\<close>

record session_origin =
  so_provider :: "jstring option"
  so_account_id :: "jstring option"
  so_thread_id :: "thread_value option"

record session_source =
  ss_channel :: "jstring option"
  ss_last_channel :: "jstring option"
  ss_last_to :: "jstring option"
  ss_last_account_id :: "jstring option"
  ss_last_thread_id :: "thread_value option"
  ss_origin :: "session_origin option"
  ss_delivery_context :: "delivery_context option"

record session_fields =
  sf_delivery_context :: "delivery_context option"
  sf_last_channel :: "jstring option"
  sf_last_to :: "jstring option"
  sf_last_account_id :: "jstring option"
  sf_last_thread_id :: "thread_value option"

definition no_session_fields :: session_fields where
  "no_session_fields = \<lparr>sf_delivery_context = None, sf_last_channel = None, sf_last_to = None, sf_last_account_id = None,
     sf_last_thread_id = None\<rparr>"

definition normalize_session_delivery_fields :: "channel_registry \<Rightarrow> session_source option \<Rightarrow> session_fields" where
  "normalize_session_delivery_fields g source =
     (case source of None \<Rightarrow> no_session_fields
      | Some s \<Rightarrow>
          (case merge_delivery_context g
                  (normalize_delivery_context g (Some \<lparr>dv_channel = nullish_or (ss_last_channel s) (ss_channel s),
                     dv_to = ss_last_to s, dv_account_id = ss_last_account_id s, dv_thread_id = ss_last_thread_id s\<rparr>))
                  (normalize_delivery_context g (ss_delivery_context s)) of
             None \<Rightarrow> no_session_fields
           | Some m \<Rightarrow> \<lparr>sf_delivery_context = Some m, sf_last_channel = dv_channel m, sf_last_to = dv_to m,
               sf_last_account_id = dv_account_id m, sf_last_thread_id = dv_thread_id m\<rparr>))"

definition delivery_context_from_session :: "channel_registry \<Rightarrow> session_source option \<Rightarrow> delivery_context option" where
  "delivery_context_from_session g entry =
     (case entry of None \<Rightarrow> None
      | Some e \<Rightarrow> sf_delivery_context (normalize_session_delivery_fields g (Some (e\<lparr>
          ss_channel := nullish_or (ss_channel e) (Option.bind (ss_origin e) so_provider),
          ss_last_account_id := nullish_or (ss_last_account_id e) (Option.bind (ss_origin e) so_account_id),
          ss_last_thread_id := nullish_or (ss_last_thread_id e)
            (nullish_or (Option.bind (ss_delivery_context e) dv_thread_id) (Option.bind (ss_origin e) so_thread_id))\<rparr>))))"

section \<open>JSON strings can be read back\<close>

definition unhex :: "nat \<Rightarrow> nat" where
  "unhex h = (if h < 58 then h - 48 else h - 87)"

definition unescape :: "nat \<Rightarrow> nat" where
  "unescape d = (if d = 98 then 8 else if d = 116 then 9 else if d = 110 then 10 else if d = 102 then 12
     else if d = 114 then 13 else d)"

text \<open>Reads the units of a string up to its closing quote.\<close>

fun read_string :: "jstring \<Rightarrow> (jstring \<times> jstring) option" where
  "read_string [] = None"
| "read_string (c # cs) =
     (if c = 34 then Some ([], cs)
      else if c = 92 then
        (case cs of
           d # ds \<Rightarrow>
             if d = 117 then
               (case ds of a # b # e # f # r \<Rightarrow>
                  map_option (apfst (Cons (unhex a * 4096 + unhex b * 256 + unhex e * 16 + unhex f))) (read_string r)
                | _ \<Rightarrow> None)
             else map_option (apfst (Cons (unescape d))) (read_string ds)
         | [] \<Rightarrow> None)
      else map_option (apfst (Cons c)) (read_string cs))"

lemma unhex_hex_digit: "d < 16 \<Longrightarrow> unhex (hex_digit d) = d"
  by (simp add: unhex_def hex_digit_def)

definition hex_value :: "nat \<Rightarrow> nat" where
  "hex_value c = unhex (hex_digit (c div 4096 mod 16)) * 4096 + unhex (hex_digit (c div 256 mod 16)) * 256 +
    unhex (hex_digit (c div 16 mod 16)) * 16 + unhex (hex_digit (c mod 16))"

lemma hex_value_eq:
  assumes "c < 65536"
  shows "hex_value c = c"
proof -
  have d: "c div 256 = c div 16 div 16" "c div 4096 = c div 16 div 16 div 16" by (simp_all add: div_mult2_eq [symmetric])
  have "c div 16 div 16 div 16 < 16" using assms by (simp add: div_mult2_eq [symmetric] less_mult_imp_div_less)
  then have m: "c div 16 div 16 div 16 mod 16 = c div 16 div 16 div 16" by (rule mod_less)
  have "c = c div 16 * 16 + c mod 16" "c div 16 = c div 16 div 16 * 16 + c div 16 mod 16"
    "c div 16 div 16 = c div 16 div 16 div 16 * 16 + c div 16 div 16 mod 16" by (rule div_mult_mod_eq [symmetric])+
  then have "c = c div 16 div 16 div 16 * 4096 + c div 16 div 16 mod 16 * 256 + c div 16 mod 16 * 16 + c mod 16" by linarith
  then show ?thesis unfolding hex_value_def d m by (simp add: unhex_hex_digit m \<open>c div 16 div 16 div 16 < 16\<close>)
qed

lemma read_hex4: "c < 65536 \<Longrightarrow> read_string (92 # 117 # hex4 c @ r) = map_option (apfst (Cons c)) (read_string r)"
proof -
  assume "c < 65536"
  moreover have "read_string (92 # 117 # hex4 c @ r) = map_option (apfst (Cons (hex_value c))) (read_string r)"
    by (simp add: hex4_def hex_value_def)
  ultimately show ?thesis by (simp only: hex_value_eq)
qed

lemma read_quote_unit: "read_string (quote_unit c @ r) = map_option (apfst (Cons c)) (read_string r)"
proof -
  consider "c \<in> {8, 9, 10, 12, 13, 34, 92}" | "c \<notin> {8, 9, 10, 12, 13, 34, 92}" "c < 32" | "c \<notin> {34, 92}" "\<not> c < 32" by auto
  then show ?thesis
  proof cases
    case 2
    then have "quote_unit c = 92 # 117 # hex4 c" by (simp add: quote_unit_def)
    with 2 read_hex4 [of c r] show ?thesis by simp
  qed (auto simp: quote_unit_def unescape_def)
qed

lemma read_quote_units: "read_string (quote_units s @ 34 # r) = Some (s, r)"
proof (induction s rule: quote_units.induct)
  case 1
  show ?case by simp
next
  case (2 c cs)
  have esc: "read_string (92 # 117 # hex4 c @ quote_units cs @ 34 # r) = Some (c # cs, r)"
    if "c < 57344" "read_string (quote_units cs @ 34 # r) = Some (cs, r)"
    using that read_hex4 [of c "quote_units cs @ 34 # r"] by simp
  have plain: "read_string (quote_unit c @ quote_units cs @ 34 # r) = Some (c # cs, r)"
    if "read_string (quote_units cs @ 34 # r) = Some (cs, r)"
    using that by (simp add: read_quote_unit)
  show ?case
  proof (cases "55296 \<le> c \<and> c < 56320")
    case True
    show ?thesis
    proof (cases cs)
      case Nil
      with True esc show ?thesis by simp
    next
      case (Cons d ds)
      with True show ?thesis using "2.IH"(1,2) esc by auto
    qed
  next
    case False
    with "2.IH"(3,4) esc plain show ?thesis by auto
  qed
qed

lemma read_quote: "read_string (tl (quote s @ r)) = Some (s, r)"
  using read_quote_units [of s r] by (simp add: quote_def del: read_string.simps)

lemma quote_cancel:
  assumes "quote a @ x = quote b @ y"
  shows "a = b \<and> x = y"
proof -
  have "Some (a, x) = Some (b, y)" unfolding read_quote [symmetric] assms ..
  then show ?thesis by simp
qed

lemma quoted_parts_inject:
  assumes "stringify_str (Arr (map Str [a, b, c, d])) = stringify_str (Arr (map Str [a', b', c', d']))"
  shows "[a, b, c, d] = [a', b', c', d']"
proof -
  have e: "quote a @ js '','' @ quote b @ js '','' @ quote c @ js '','' @ quote d @ js '']'' =
        quote a' @ js '','' @ quote b' @ js '','' @ quote c' @ js '','' @ quote d' @ js '']''"
    using assms by (simp add: stringify_str_def)
  have a: "a = a'" and e1: "quote b @ js '','' @ quote c @ js '','' @ quote d @ js '']'' =
      quote b' @ js '','' @ quote c' @ js '','' @ quote d' @ js '']''"
    using quote_cancel [OF e] by simp_all
  have b: "b = b'" and e2: "quote c @ js '','' @ quote d @ js '']'' = quote c' @ js '','' @ quote d' @ js '']''"
    using quote_cancel [OF e1] by simp_all
  have "c = c'" and e3: "quote d @ js '']'' = quote d' @ js '']''" using quote_cancel [OF e2] by simp_all
  with a b quote_cancel [OF e3] show ?thesis by simp
qed

section \<open>Normalized routes\<close>

lemma normalized_route:
  assumes "normalize_channel_route_ref input = Some r"
  shows "cr_channel r \<noteq> Some []" "channel_route_target (Some r) \<noteq> Some []"
    and "normalize_optional_thread_value (of_thread (channel_route_thread_id (Some r))) = channel_route_thread_id (Some r)"
proof -
  obtain i where i: "input = Some i" using assms by (cases input) (simp_all add: normalize_channel_route_ref_def)
  have c: "cr_channel r = (if normalize_lowercase_string_or_empty (ri_channel i) = [] then None
      else Some (normalize_lowercase_string_or_empty (ri_channel i)))"
    and t: "channel_route_target (Some r) = normalize_optional_string (ri_to i)"
    and th: "channel_route_thread_id (Some r) = normalize_optional_thread_value (ri_thread_id i)"
    using assms unfolding i normalize_channel_route_ref_def Let_def
    by (auto simp: channel_route_target_def channel_route_thread_id_def normalize_route_thread_id_def
        option.map_comp comp_def option.map_ident simp del: not_None_eq split: if_splits)
  show "cr_channel r \<noteq> Some []" by (simp add: c)
  show "channel_route_target (Some r) \<noteq> Some []" by (simp add: t normalize_optional_string_eq)
  show "normalize_optional_thread_value (of_thread (channel_route_thread_id (Some r))) = channel_route_thread_id (Some r)"
    unfolding th by (rule normalize_thread_fixed)
qed

lemma num_to_string_nonempty [simp]: "num_to_string x \<noteq> []"
  by (simp add: num_to_string_def Let_def split_beta)

lemma thread_string_nonempty: "stringify_route_thread_id v \<noteq> Some []"
  by (cases v) (auto simp: stringify_route_thread_id_def normalize_route_thread_id_def normalize_optional_thread_value_def
      normalize_optional_string_eq)

lemma or_empty_eq: "a \<noteq> Some [] \<Longrightarrow> b \<noteq> Some [] \<Longrightarrow> or_empty a = or_empty b \<longleftrightarrow> a = b"
  by (cases a; cases b) (auto simp: or_empty_def)

lemma dedupe_key_parts:
  "channel_route_dedupe_key a = channel_route_dedupe_key b \<longleftrightarrow>
   route_parts (normalize_channel_route_target a) = route_parts (normalize_channel_route_target b)"
proof
  assume "channel_route_dedupe_key a = channel_route_dedupe_key b"
  then show "route_parts (normalize_channel_route_target a) = route_parts (normalize_channel_route_target b)"
    unfolding channel_route_dedupe_key_def route_parts_def by (rule quoted_parts_inject)
qed (simp add: channel_route_dedupe_key_def)

text \<open>Two routes have the same key if and only if they match exactly.\<close>

lemma dedupe_key_matches:
  assumes "normalize_channel_route_target a = Some l" "normalize_channel_route_target b = Some r"
  shows "channel_route_dedupe_key a = channel_route_dedupe_key b \<longleftrightarrow> channel_route_targets_match_exact a b"
proof -
  note l = normalized_route [OF assms(1) [unfolded normalize_channel_route_target_def]]
  note r = normalized_route [OF assms(2) [unfolded normalize_channel_route_target_def]]
  have "or_empty (cr_channel l) = or_empty (cr_channel r) \<longleftrightarrow> cr_channel l = cr_channel r"
    by (rule or_empty_eq [OF l(1) r(1)])
  moreover have "or_empty (channel_route_target (Some l)) = or_empty (channel_route_target (Some r)) \<longleftrightarrow>
      channel_route_target (Some l) = channel_route_target (Some r)" by (rule or_empty_eq [OF l(2) r(2)])
  moreover have "or_empty (stringify_route_thread_id x) = or_empty (stringify_route_thread_id y) \<longleftrightarrow>
      stringify_route_thread_id x = stringify_route_thread_id y" for x y
    by (rule or_empty_eq) (rule thread_string_nonempty)+
  ultimately show ?thesis
    by (auto simp: dedupe_key_parts channel_route_targets_match_exact_def channel_routes_match_exact_def assms
        route_parts_def accounts_equal_def thread_ids_equal_def)
qed

text \<open>The compact key joins the parts without escaping: these two routes are different and share it.\<close>

definition piped_target :: route_input where
  "piped_target = blank_input\<lparr>ri_channel := Str (js ''x''), ri_to := Str (js ''a|b''), ri_account_id := Str (js ''d''),
     ri_thread_id := Str (js ''c'')\<rparr>"

definition piped_thread :: route_input where
  "piped_thread = blank_input\<lparr>ri_channel := Str (js ''x''), ri_to := Str (js ''a''), ri_account_id := Str (js ''b''),
     ri_thread_id := Str (js ''d|c'')\<rparr>"

end
