(* ===== verification/SystemEvents.thy ===== *)
theory SystemEvents
  imports ChannelRoute Contracts
begin

text \<open>
  The queues of system events (\<open>openclaw-main/src/infra/system-events.ts\<close>): per session a short
  list of lines that are put before the next prompt, without repetitions, consumed by the run
  that has shown them. Adding to a queue is an \<open>evicting_queue\<close>.
\<close>

section \<open>Events and queues\<close>

record system_event =
  ev_text :: jstring
  ev_ts :: int
  ev_context_key :: "jstring option"
  ev_delivery_context :: "delivery_context option"
  ev_force_sender :: "bool option"
  ev_trusted :: "bool option"

record queued_event =
  qv_text :: jstring
  qv_ts :: int
  qv_context_key :: "jstring option"
  qv_delivery_context :: "delivery_context option"
  qv_force_sender :: bool

record session_queue =
  sq_queue :: "queued_event list"
  sq_last_context_key :: "jstring option"

record system_event_options =
  se_session_key :: "jstring option"
  se_context_key :: "jstring option"
  se_delivery_context :: "delivery_context option"
  se_force_sender :: "bool option"
  se_trusted :: "bool option"

type_synonym event_queues = "(jstring, session_queue) jmap"

definition max_events :: nat where "max_events = 20"

definition session_key_error :: jstring where
  "session_key_error = js ''system events require a sessionKey''"

definition require_session_key :: "jstring option \<Rightarrow> jstring + jstring" where
  "require_session_key key =
     (case normalize_optional_string (of_string key) of
        None \<Rightarrow> Inl session_key_error
      | Some trimmed \<Rightarrow> if trimmed = [] then Inl session_key_error else Inr trimmed)"

definition normalize_context_key :: "jstring option \<Rightarrow> jstring option" where
  "normalize_context_key key = normalize_optional_lowercase_string (of_string key)"

definition get_session_queue :: "jstring option \<Rightarrow> event_queues \<Rightarrow> jstring + session_queue option" where
  "get_session_queue session_key qs =
     (case require_session_key session_key of Inl err \<Rightarrow> Inl err | Inr key \<Rightarrow> Inr (map_of qs key))"

definition empty_session_queue :: session_queue where
  "empty_session_queue = \<lparr>sq_queue = [], sq_last_context_key = None\<rparr>"

text \<open>The entry of a key that is already required; it is created when it is missing.\<close>

definition get_or_create_session_queue :: "jstring \<Rightarrow> event_queues \<Rightarrow> session_queue \<times> event_queues" where
  "get_or_create_session_queue key qs =
     (case map_of qs key of Some existing \<Rightarrow> (existing, qs)
      | None \<Rightarrow> (empty_session_queue, map_put key empty_session_queue qs))"

definition clone_system_event :: "queued_event \<Rightarrow> system_event" where
  "clone_system_event e = \<lparr>ev_text = qv_text e, ev_ts = qv_ts e, ev_context_key = qv_context_key e,
     ev_delivery_context = qv_delivery_context e, ev_force_sender = Some (qv_force_sender e),
     ev_trusted = Some (\<not> qv_force_sender e)\<rparr>"

definition is_system_event_context_changed :: "jstring option \<Rightarrow> jstring option \<Rightarrow> event_queues \<Rightarrow> jstring + bool" where
  "is_system_event_context_changed session_key context_key qs =
     (case get_session_queue session_key qs of Inl err \<Rightarrow> Inl err
      | Inr existing \<Rightarrow> Inr (normalize_context_key context_key \<noteq> Option.bind existing sq_last_context_key))"

section \<open>Comparing events\<close>

definition are_delivery_contexts_equal :: "delivery_context option \<Rightarrow> delivery_context option \<Rightarrow> bool" where
  "are_delivery_contexts_equal left right =
     (case (left, right) of
        (None, None) \<Rightarrow> True
      | (Some l, Some r) \<Rightarrow>
          channel_route_dedupe_key (Some (context_input l)) = channel_route_dedupe_key (Some (context_input r))
      | _ \<Rightarrow> False)"

definition resolve_event_owner_downgrade :: "bool option \<Rightarrow> bool option \<Rightarrow> bool" where
  "resolve_event_owner_downgrade force trusted = (case force of Some b \<Rightarrow> b | None \<Rightarrow> trusted = Some False)"

definition is_duplicate_system_event ::
  "queued_event \<Rightarrow> jstring \<Rightarrow> jstring option \<Rightarrow> delivery_context option \<Rightarrow> bool \<Rightarrow> bool" where
  "is_duplicate_system_event existing text_in context_key context force \<longleftrightarrow>
     qv_text existing = text_in \<and> qv_context_key existing = context_key \<and>
     qv_force_sender existing = resolve_event_owner_downgrade (Some force) None \<and>
     are_delivery_contexts_equal (qv_delivery_context existing) context"

definition are_system_events_equal :: "queued_event \<Rightarrow> system_event \<Rightarrow> bool" where
  "are_system_events_equal left right \<longleftrightarrow>
     qv_text left = ev_text right \<and> qv_ts left = ev_ts right \<and> qv_context_key left = ev_context_key right \<and>
     qv_force_sender left = resolve_event_owner_downgrade (ev_force_sender right) (ev_trusted right) \<and>
     are_delivery_contexts_equal (qv_delivery_context left) (ev_delivery_context right)"

definition find_duplicate_in_queue ::
  "queued_event list \<Rightarrow> jstring \<Rightarrow> jstring option \<Rightarrow> delivery_context option \<Rightarrow> bool \<Rightarrow> queued_event option" where
  "find_duplicate_in_queue queue text_in context_key context force =
     (if context_key = None
      then (if queue \<noteq> [] \<and> is_duplicate_system_event (last queue) text_in context_key context force then Some (last queue) else None)
      else List.find (\<lambda>e. is_duplicate_system_event e text_in context_key context force) queue)"

section \<open>Operations\<close>

definition push_event :: "queued_event \<Rightarrow> session_queue \<Rightarrow> session_queue" where
  "push_event e entry =
     (let q = sq_queue entry @ [e]
      in \<lparr>sq_queue = (if max_events < length q then tl q else q),
          sq_last_context_key = (case qv_context_key e of None \<Rightarrow> sq_last_context_key entry | Some c \<Rightarrow> Some c)\<rparr>)"

definition enqueue_system_event ::
  "channel_registry \<Rightarrow> jstring \<Rightarrow> system_event_options \<Rightarrow> int \<Rightarrow> event_queues \<Rightarrow> (jstring + bool) \<times> event_queues" where
  "enqueue_system_event g text_in opts now qs =
     (case require_session_key (se_session_key opts) of Inl err \<Rightarrow> (Inl err, qs)
      | Inr key \<Rightarrow>
          (let (entry, qs1) = get_or_create_session_queue key qs;
               cleaned = trim text_in;
               context_key = normalize_context_key (se_context_key opts);
               context = normalize_delivery_context g (se_delivery_context opts);
               force = (case se_force_sender opts of Some b \<Rightarrow> b | None \<Rightarrow> se_trusted opts = Some False)
           in if cleaned = [] then (Inr False, qs1)
              else if find_duplicate_in_queue (sq_queue entry) cleaned context_key context force \<noteq> None then (Inr False, qs1)
              else (Inr True, map_put key (push_event \<lparr>qv_text = cleaned, qv_ts = now, qv_context_key = context_key,
                                             qv_delivery_context = context, qv_force_sender = force\<rparr> entry) qs1)))"

definition drain_system_event_entries :: "jstring option \<Rightarrow> event_queues \<Rightarrow> (jstring + system_event list) \<times> event_queues" where
  "drain_system_event_entries session_key qs =
     (case require_session_key session_key of Inl err \<Rightarrow> (Inl err, qs)
      | Inr key \<Rightarrow>
          (case map_of qs key of None \<Rightarrow> (Inr [], qs)
           | Some entry \<Rightarrow>
               if sq_queue entry = [] then (Inr [], qs)
               else (Inr (map clone_system_event (sq_queue entry)), map_del key qs)))"

text \<open>The context key of the last event that has one.\<close>

definition last_context :: "queued_event list \<Rightarrow> jstring option" where
  "last_context queue = (case List.find (\<lambda>e. qv_context_key e \<noteq> None) (rev queue) of None \<Rightarrow> None | Some e \<Rightarrow> qv_context_key e)"

definition reset_queue_state :: "jstring \<Rightarrow> queued_event list \<Rightarrow> event_queues \<Rightarrow> event_queues" where
  "reset_queue_state key queue qs =
     (if queue = [] then map_del key qs
      else map_put key \<lparr>sq_queue = queue, sq_last_context_key = last_context queue\<rparr> qs)"

definition consume_system_event_entries ::
  "jstring option \<Rightarrow> system_event list \<Rightarrow> event_queues \<Rightarrow> (jstring + system_event list) \<times> event_queues" where
  "consume_system_event_entries session_key consumed qs =
     (case require_session_key session_key of Inl err \<Rightarrow> (Inl err, qs)
      | Inr key \<Rightarrow>
          (case map_of qs key of None \<Rightarrow> (Inr [], qs)
           | Some entry \<Rightarrow>
               (let queue = sq_queue entry; n = length consumed in
                if queue = [] \<or> consumed = [] then (Inr [], qs)
                else if length queue < n \<or> \<not> list_all2 are_system_events_equal (take n queue) consumed then (Inr [], qs)
                else (Inr (map clone_system_event (take n queue)), reset_queue_state key (drop n queue) qs))))"

text \<open>One turn of the loop: the first event that equals the consumed one leaves the queue.\<close>

definition take_selected :: "system_event \<Rightarrow> queued_event list \<times> system_event list \<Rightarrow> queued_event list \<times> system_event list" where
  "take_selected consumed acc =
     (let (queue, removed) = acc in
      case List.extract (\<lambda>e. are_system_events_equal e consumed) queue of
        None \<Rightarrow> (queue, removed)
      | Some (before, e, after) \<Rightarrow> (before @ after, removed @ [clone_system_event e]))"

definition consume_selected_system_event_entries ::
  "jstring option \<Rightarrow> system_event list \<Rightarrow> event_queues \<Rightarrow> (jstring + system_event list) \<times> event_queues" where
  "consume_selected_system_event_entries session_key consumed qs =
     (case require_session_key session_key of Inl err \<Rightarrow> (Inl err, qs)
      | Inr key \<Rightarrow>
          (case map_of qs key of None \<Rightarrow> (Inr [], qs)
           | Some entry \<Rightarrow>
               if sq_queue entry = [] \<or> consumed = [] then (Inr [], qs)
               else (let (queue, removed) = fold take_selected consumed (sq_queue entry, [])
                     in (Inr removed, reset_queue_state key queue qs))))"

definition drain_system_events :: "jstring option \<Rightarrow> event_queues \<Rightarrow> (jstring + jstring list) \<times> event_queues" where
  "drain_system_events session_key qs =
     (case drain_system_event_entries session_key qs of
        (Inl err, qs1) \<Rightarrow> (Inl err, qs1) | (Inr es, qs1) \<Rightarrow> (Inr (map ev_text es), qs1))"

definition peek_system_event_entries :: "jstring option \<Rightarrow> event_queues \<Rightarrow> jstring + system_event list" where
  "peek_system_event_entries session_key qs =
     (case get_session_queue session_key qs of Inl err \<Rightarrow> Inl err
      | Inr None \<Rightarrow> Inr [] | Inr (Some entry) \<Rightarrow> Inr (map clone_system_event (sq_queue entry)))"

definition peek_system_events :: "jstring option \<Rightarrow> event_queues \<Rightarrow> jstring + jstring list" where
  "peek_system_events session_key qs =
     (case peek_system_event_entries session_key qs of Inl err \<Rightarrow> Inl err | Inr es \<Rightarrow> Inr (map ev_text es))"

definition has_system_events :: "jstring option \<Rightarrow> event_queues \<Rightarrow> jstring + bool" where
  "has_system_events session_key qs =
     (case get_session_queue session_key qs of Inl err \<Rightarrow> Inl err
      | Inr None \<Rightarrow> Inr False | Inr (Some entry) \<Rightarrow> Inr (0 < length (sq_queue entry)))"

definition resolve_system_event_delivery_context ::
  "channel_registry \<Rightarrow> system_event list \<Rightarrow> delivery_context option" where
  "resolve_system_event_delivery_context g events =
     fold (\<lambda>e resolved. merge_delivery_context g (ev_delivery_context e) resolved) events None"

definition reset_system_events :: "event_queues \<Rightarrow> event_queues" where
  "reset_system_events qs = []"

section \<open>Runs\<close>

datatype event_op =
    EnqueueEvent jstring system_event_options int
  | DrainEvents "jstring option"
  | ConsumeEvents "jstring option" "system_event list"
  | ConsumeSelected "jstring option" "system_event list"
  | ResetEvents

fun event_exec :: "channel_registry \<Rightarrow> event_op \<Rightarrow> event_queues \<Rightarrow> event_queues" where
  "event_exec g (EnqueueEvent t opts now) qs = snd (enqueue_system_event g t opts now qs)"
| "event_exec g (DrainEvents k) qs = snd (drain_system_event_entries k qs)"
| "event_exec g (ConsumeEvents k es) qs = snd (consume_system_event_entries k es qs)"
| "event_exec g (ConsumeSelected k es) qs = snd (consume_selected_system_event_entries k es qs)"
| "event_exec g ResetEvents qs = reset_system_events qs"

inductive events_reachable :: "channel_registry \<Rightarrow> event_queues \<Rightarrow> bool" for g where
  events_start: "events_reachable g []"
| events_step: "events_reachable g qs \<Longrightarrow> events_reachable g (event_exec g e qs)"

section \<open>Comparison is an equivalence\<close>

lemma contexts_equal_refl [simp]: "are_delivery_contexts_equal c c"
  by (simp add: are_delivery_contexts_equal_def split: option.split)

lemma event_equals_clone [simp]: "are_system_events_equal e (clone_system_event e)"
  by (simp add: are_system_events_equal_def clone_system_event_def resolve_event_owner_downgrade_def)

definition same_event :: "queued_event \<Rightarrow> queued_event \<Rightarrow> bool" where
  "same_event a b \<longleftrightarrow> is_duplicate_system_event a (qv_text b) (qv_context_key b) (qv_delivery_context b) (qv_force_sender b)"

lemma same_event_eq:
  "same_event a b \<longleftrightarrow> qv_text a = qv_text b \<and> qv_context_key a = qv_context_key b \<and>
     qv_force_sender a = qv_force_sender b \<and> are_delivery_contexts_equal (qv_delivery_context a) (qv_delivery_context b)"
  by (simp add: same_event_def is_duplicate_system_event_def resolve_event_owner_downgrade_def)

section \<open>Invariant\<close>

text \<open>A queue is short, its events with a context key are different, and the context key it remembers
  is the one of the last event that has one.\<close>

definition session_queue_ok :: "session_queue \<Rightarrow> bool" where
  "session_queue_ok entry \<longleftrightarrow> length (sq_queue entry) \<le> max_events \<and>
     sorted_wrt (\<lambda>a b. qv_context_key b \<noteq> None \<longrightarrow> \<not> same_event a b) (sq_queue entry) \<and>
     (last_context (sq_queue entry) \<noteq> None \<longrightarrow> sq_last_context_key entry = last_context (sq_queue entry))"

definition event_queues_ok :: "event_queues \<Rightarrow> bool" where
  "event_queues_ok qs \<longleftrightarrow> (\<forall>k entry. map_of qs k = Some entry \<longrightarrow> session_queue_ok entry)"

lemma last_context_snoc:
  "last_context (q @ [e]) = (case qv_context_key e of None \<Rightarrow> last_context q | Some c \<Rightarrow> Some c)"
  by (simp add: last_context_def split: option.split)

lemma last_context_suffix: "last_context b = Some c \<Longrightarrow> last_context (a @ b) = Some c"
  by (induction b arbitrary: c rule: rev_induct)
     (auto simp: last_context_snoc simp flip: append_assoc split: option.splits, simp add: last_context_def)

lemma last_context_tl: "last_context (tl q) = Some c \<Longrightarrow> last_context q = Some c"
  using last_context_suffix [of "tl q" c "[hd q]"] by (cases q) simp_all

lemma push_event_queue: "\<exists>k. sq_queue (push_event e entry) = drop k (sq_queue entry @ [e])"
proof (cases "max_events < length (sq_queue entry @ [e])")
  case True
  then have "sq_queue (push_event e entry) = drop 1 (sq_queue entry @ [e])"
    unfolding push_event_def Let_def by (simp only: if_True session_queue.simps drop_Suc drop_0 One_nat_def)
  then show ?thesis ..
next
  case False
  then have "sq_queue (push_event e entry) = drop 0 (sq_queue entry @ [e])" by (simp add: push_event_def)
  then show ?thesis ..
qed

lemma push_event_short: "length (sq_queue entry) \<le> max_events \<Longrightarrow> length (sq_queue (push_event e entry)) \<le> max_events"
  by (simp add: push_event_def Let_def)

interpretation events: evicting_queue push_event sq_queue "\<lambda>e entry. [e]" "\<lambda>entry. length (sq_queue entry) \<le> max_events"
  by unfold_locales (rule push_event_queue, rule push_event_short)

lemma push_event_room:
  "length (sq_queue entry) < max_events \<Longrightarrow> sq_queue (push_event e entry) = sq_queue entry @ [e]"
  by (simp add: push_event_def Let_def)

lemma no_duplicate:
  assumes "find_duplicate_in_queue queue (qv_text e) (qv_context_key e) (qv_delivery_context e) (qv_force_sender e) = None"
    and "qv_context_key e \<noteq> None" "a \<in> set queue"
  shows "\<not> same_event a e"
proof -
  have "List.find (\<lambda>a. same_event a e) queue = None"
    using assms(1,2) by (simp add: find_duplicate_in_queue_def same_event_def)
  with assms(3) show ?thesis by (auto simp: find_None_iff)
qed

lemma sorted_wrt_tl: "sorted_wrt P xs \<Longrightarrow> sorted_wrt P (tl xs)"
  by (cases xs) simp_all

lemma push_event_ok:
  assumes "session_queue_ok entry"
    and "find_duplicate_in_queue (sq_queue entry) (qv_text e) (qv_context_key e) (qv_delivery_context e) (qv_force_sender e) = None"
  shows "session_queue_ok (push_event e entry)"
proof -
  let ?q = "sq_queue entry @ [e]" and ?R = "\<lambda>a b. qv_context_key b \<noteq> None \<longrightarrow> \<not> same_event a b"
  have "sorted_wrt ?R ?q" using assms no_duplicate [OF assms(2)] by (auto simp: session_queue_ok_def sorted_wrt_append)
  then have so: "sorted_wrt ?R (sq_queue (push_event e entry))"
    by (simp add: push_event_def Let_def sorted_wrt_tl)
  have sub: "last_context ?q = Some c" if "last_context (sq_queue (push_event e entry)) = Some c" for c
  proof (cases "max_events < length ?q")
    case True
    with that have "last_context (tl ?q) = Some c" by (simp add: push_event_def Let_def)
    then show ?thesis by (rule last_context_tl)
  qed (use that in \<open>simp add: push_event_def Let_def\<close>)
  have "sq_last_context_key (push_event e entry) = last_context ?q" if "last_context ?q \<noteq> None"
    using that assms(1) by (auto simp: push_event_def Let_def last_context_snoc session_queue_ok_def split: option.splits)
  then have "sq_last_context_key (push_event e entry) = last_context (sq_queue (push_event e entry))"
    if "last_context (sq_queue (push_event e entry)) \<noteq> None" using that sub by force
  moreover have "length (sq_queue (push_event e entry)) \<le> max_events"
    using assms(1) by (intro push_event_short) (simp add: session_queue_ok_def)
  ultimately show ?thesis using so unfolding session_queue_ok_def by blast
qed

lemma event_queues_ok_put: "event_queues_ok qs \<Longrightarrow> session_queue_ok entry \<Longrightarrow> event_queues_ok (map_put k entry qs)"
  by (simp add: event_queues_ok_def map_of_map_put)

lemma event_queues_ok_del: "event_queues_ok qs \<Longrightarrow> event_queues_ok (map_del k qs)"
  by (simp add: event_queues_ok_def map_of_map_del)

lemma empty_session_queue_ok: "session_queue_ok empty_session_queue"
  by (simp add: session_queue_ok_def empty_session_queue_def last_context_def)

lemma get_or_create_ok:
  assumes "event_queues_ok qs"
  shows "session_queue_ok (fst (get_or_create_session_queue key qs))" "event_queues_ok (snd (get_or_create_session_queue key qs))"
  using assms by (auto simp: get_or_create_session_queue_def event_queues_ok_put empty_session_queue_ok split: option.split)
    (simp add: event_queues_ok_def)

lemma enqueue_event_ok:
  assumes "event_queues_ok qs"
  shows "event_queues_ok (snd (enqueue_system_event g t opts now qs))"
proof (cases "require_session_key (se_session_key opts)")
  case (Inr key)
  let ?entry = "fst (get_or_create_session_queue key qs)" and ?qs1 = "snd (get_or_create_session_queue key qs)"
  let ?e = "\<lparr>qv_text = trim t, qv_ts = now, qv_context_key = normalize_context_key (se_context_key opts),
    qv_delivery_context = normalize_delivery_context g (se_delivery_context opts),
    qv_force_sender = (case se_force_sender opts of Some b \<Rightarrow> b | None \<Rightarrow> se_trusted opts = Some False)\<rparr>"
  note ok = get_or_create_ok [OF assms, of key]
  let ?dup = "find_duplicate_in_queue (sq_queue ?entry) (qv_text ?e) (qv_context_key ?e) (qv_delivery_context ?e) (qv_force_sender ?e)"
  have step: "snd (enqueue_system_event g t opts now qs) =
      (if trim t = [] \<or> ?dup \<noteq> None then ?qs1 else map_put key (push_event ?e ?entry) ?qs1)"
    using Inr by (simp add: enqueue_system_event_def Let_def split_beta)
  show ?thesis
  proof (cases "trim t = [] \<or> ?dup \<noteq> None")
    case False
    then have "session_queue_ok (push_event ?e ?entry)" by (intro push_event_ok [OF ok(1)]) blast
    then show ?thesis unfolding step if_not_P [OF False] by (rule event_queues_ok_put [OF ok(2)])
  qed (simp only: step if_P ok(2))
qed (use assms in \<open>simp add: enqueue_system_event_def\<close>)

lemma drain_events_ok: "event_queues_ok qs \<Longrightarrow> event_queues_ok (snd (drain_system_event_entries k qs))"
  by (simp add: drain_system_event_entries_def event_queues_ok_del split: sum.split option.split)

lemma reset_queue_state_ok:
  assumes "event_queues_ok qs" "length queue \<le> max_events" "sorted_wrt (\<lambda>a b. qv_context_key b \<noteq> None \<longrightarrow> \<not> same_event a b) queue"
  shows "event_queues_ok (reset_queue_state key queue qs)"
  using assms by (simp add: reset_queue_state_def event_queues_ok_del event_queues_ok_put session_queue_ok_def)

lemma sorted_wrt_drop: "sorted_wrt P xs \<Longrightarrow> sorted_wrt P (drop n xs)"
  by (induction xs arbitrary: n) (auto simp: drop_Cons split: nat.split)

lemma consume_events_ok:
  assumes "event_queues_ok qs"
  shows "event_queues_ok (snd (consume_system_event_entries k es qs))"
proof -
  have "event_queues_ok (reset_queue_state key (drop n (sq_queue entry)) qs)" if "map_of qs key = Some entry" for key n entry
    using assms that by (intro reset_queue_state_ok) (auto simp: event_queues_ok_def session_queue_ok_def intro!: sorted_wrt_drop order_trans [OF diff_le_self])
  then show ?thesis using assms by (auto simp: consume_system_event_entries_def Let_def split: sum.split option.split)
qed

lemma take_selected_shrinks:
  assumes "sorted_wrt P (fst acc)"
  shows "sorted_wrt P (fst (take_selected c acc))" "length (fst (take_selected c acc)) \<le> length (fst acc)"
proof -
  obtain queue removed where acc: "acc = (queue, removed)" by (cases acc)
  show "sorted_wrt P (fst (take_selected c acc))" "length (fst (take_selected c acc)) \<le> length (fst acc)"
    using assms unfolding acc by (auto simp: take_selected_def sorted_wrt_append extract_Some_iff split: option.split)
qed

lemma take_all_selected_shrinks:
  "sorted_wrt P (fst acc) \<Longrightarrow>
   sorted_wrt P (fst (fold take_selected cs acc)) \<and> length (fst (fold take_selected cs acc)) \<le> length (fst acc)"
proof (induction cs arbitrary: acc)
  case (Cons c cs)
  then show ?case using take_selected_shrinks [of P acc c] Cons.IH [of "take_selected c acc"] order_trans by (metis fold_simps(2))
qed simp

lemma consume_selected_ok:
  assumes "event_queues_ok qs"
  shows "event_queues_ok (snd (consume_selected_system_event_entries k es qs))"
proof -
  have "event_queues_ok (reset_queue_state key (fst (fold take_selected es (sq_queue entry, []))) qs)"
    if "map_of qs key = Some entry" for key entry
  proof -
    have ok: "session_queue_ok entry" using assms that by (simp add: event_queues_ok_def)
    show ?thesis
      using take_all_selected_shrinks [of "\<lambda>a b. qv_context_key b \<noteq> None \<longrightarrow> \<not> same_event a b" "(sq_queue entry, [])" es] ok
      by (intro reset_queue_state_ok [OF assms]) (auto simp: session_queue_ok_def)
  qed
  then show ?thesis using assms
    by (auto simp: consume_selected_system_event_entries_def Let_def split_beta split: sum.split option.split)
qed

lemma events_reachable_ok: "events_reachable g qs \<Longrightarrow> event_queues_ok qs"
proof (induction rule: events_reachable.induct)
  case (events_step qs e)
  then show ?case
    by (cases e) (simp_all add: enqueue_event_ok drain_events_ok consume_events_ok consume_selected_ok, simp add: reset_system_events_def event_queues_ok_def)
qed (simp add: event_queues_ok_def)

end
