(* ===== verification/EventProps.thy ===== *)
theory EventProps
  imports SystemEvents
begin

text \<open>
  What routes and system events promise: the key of a route is exact, the queue of a session
  is the end of the history of its events, short and free of repetitions, with the newest context key of
  that history as the remembered one, and what a run has shown is what it consumes.
\<close>

section \<open>The queue of a session under additions\<close>

definition queue_of :: "jstring \<Rightarrow> event_queues \<Rightarrow> queued_event list" where
  "queue_of k qs = (case map_of qs k of None \<Rightarrow> [] | Some entry \<Rightarrow> sq_queue entry)"

definition add_events :: "channel_registry \<Rightarrow> (jstring \<times> system_event_options \<times> int) list \<Rightarrow> event_queues \<Rightarrow> event_queues" where
  "add_events g ops qs = fold (\<lambda>(t, opts, now) qs. snd (enqueue_system_event g t opts now qs)) ops qs"

lemma get_or_create_queue:
  "queue_of k (snd (get_or_create_session_queue key qs)) = queue_of k qs"
  "sq_queue (fst (get_or_create_session_queue key qs)) = queue_of key qs"
  by (auto simp: get_or_create_session_queue_def queue_of_def map_of_map_put empty_session_queue_def split: option.split)

lemma queue_of_put: "queue_of k (map_put key entry qs) = (if k = key then sq_queue entry else queue_of k qs)"
  by (simp add: queue_of_def map_of_map_put)

lemma queue_of_del: "queue_of k (map_del key qs) = (if k = key then [] else queue_of k qs)"
  by (simp add: queue_of_def map_of_map_del)

lemma enqueue_grows:
  assumes "length (queue_of k qs) < max_events"
  shows "\<exists>new. queue_of k (snd (enqueue_system_event g t opts now qs)) = queue_of k qs @ new \<and> length new \<le> 1"
proof (cases "require_session_key (se_session_key opts)")
  case (Inr key)
  have room: "length (sq_queue (fst (get_or_create_session_queue key qs))) < max_events" if "key = k"
    using assms that by (simp add: get_or_create_queue)
  show ?thesis using Inr push_event_room [OF room]
    by (auto simp: enqueue_system_event_def Let_def split_beta get_or_create_queue queue_of_put)
qed (auto simp: enqueue_system_event_def)

lemma add_events_grows:
  "length (queue_of k qs) + length ops \<le> max_events \<Longrightarrow>
   \<exists>new. queue_of k (add_events g ops qs) = queue_of k qs @ new \<and> length new \<le> length ops"
proof (induction ops arbitrary: qs)
  case (Cons x ops)
  obtain t opts now where x: "x = (t, opts, now)" by (cases x)
  let ?qs = "snd (enqueue_system_event g t opts now qs)"
  obtain new where new: "queue_of k ?qs = queue_of k qs @ new" "length new \<le> 1"
    using enqueue_grows [of k qs g t opts now] Cons.prems by auto
  then have "length (queue_of k ?qs) + length ops \<le> max_events" using Cons.prems by simp
  then obtain later where "queue_of k (add_events g ops ?qs) = queue_of k ?qs @ later" "length later \<le> length ops"
    using Cons.IH by blast
  with new show ?case by (intro exI [of _ "new @ later"]) (simp add: add_events_def x)
qed (simp add: add_events_def)

lemma peek_queue:
  "peek_system_event_entries s qs =
     (case require_session_key s of Inl err \<Rightarrow> Inl err | Inr k \<Rightarrow> Inr (map clone_system_event (queue_of k qs)))"
  by (auto simp: peek_system_event_entries_def get_session_queue_def queue_of_def split: sum.split option.split)

lemma consume_queue:
  assumes "require_session_key s = Inr k" "queue_of k qs = old @ new" "old \<noteq> []"
  shows "fst (consume_system_event_entries s (map clone_system_event old) qs) = Inr (map clone_system_event old)"
    and "queue_of k (snd (consume_system_event_entries s (map clone_system_event old) qs)) = new"
proof -
  obtain entry where e: "map_of qs k = Some entry" "sq_queue entry = old @ new"
    using assms(2,3) by (auto simp: queue_of_def split: option.splits)
  have eq: "list_all2 are_system_events_equal old (map clone_system_event old)"
    by (simp add: list_all2_map2 list.rel_refl)
  have c: "consume_system_event_entries s (map clone_system_event old) qs =
      (Inr (map clone_system_event old), reset_queue_state k new qs)"
    using assms(1,3) e eq by (simp add: consume_system_event_entries_def)
  show "fst (consume_system_event_entries s (map clone_system_event old) qs) = Inr (map clone_system_event old)"
    by (simp add: c)
  show "queue_of k (snd (consume_system_event_entries s (map clone_system_event old) qs)) = new"
    by (simp add: c reset_queue_state_def queue_of_put queue_of_del)
qed

lemma take_selected_shown:
  "fold take_selected (map clone_system_event old) (old @ new, removed) = (new, removed @ map clone_system_event old)"
proof (induction old arbitrary: removed)
  case (Cons e old)
  have "take_selected (clone_system_event e) ((e # old) @ new, removed) = (old @ new, removed @ [clone_system_event e])"
    by (simp add: take_selected_def extract_def)
  with Cons.IH show ?case by simp
qed simp

lemma consume_selected_queue:
  assumes "require_session_key s = Inr k" "queue_of k qs = old @ new" "old \<noteq> []"
  shows "fst (consume_selected_system_event_entries s (map clone_system_event old) qs) = Inr (map clone_system_event old)"
    and "queue_of k (snd (consume_selected_system_event_entries s (map clone_system_event old) qs)) = new"
proof -
  obtain entry where e: "map_of qs k = Some entry" "sq_queue entry = old @ new"
    using assms(2,3) by (auto simp: queue_of_def split: option.splits)
  have c: "consume_selected_system_event_entries s (map clone_system_event old) qs =
      (Inr (map clone_system_event old), reset_queue_state k new qs)"
    using assms(1,3) e take_selected_shown [of old new "[]"] by (simp add: consume_selected_system_event_entries_def)
  show "fst (consume_selected_system_event_entries s (map clone_system_event old) qs) = Inr (map clone_system_event old)"
    by (simp add: c)
  show "queue_of k (snd (consume_selected_system_event_entries s (map clone_system_event old) qs)) = new"
    by (simp add: c reset_queue_state_def queue_of_put queue_of_del)
qed

section \<open>Properties\<close>

text \<open>C40: the key of a route is exact. For any two inputs that name a route, the JSON text used as
  the key is the same if and only if channel, recipient, account and thread match exactly.\<close>
theorem route_keys_exact:
  assumes "normalize_channel_route_target a \<noteq> None" "normalize_channel_route_target b \<noteq> None"
  shows "(channel_route_dedupe_key a = channel_route_dedupe_key b) = channel_route_targets_match_exact a b"
proof -
  obtain l r where "normalize_channel_route_target a = Some l" "normalize_channel_route_target b = Some r"
    using assms by auto
  then show ?thesis by (rule dedupe_key_matches)
qed

lemma trim_short [simp]: "\<not> is_ws c \<Longrightarrow> trim [c] = [c]" "\<not> is_ws c \<Longrightarrow> \<not> is_ws e \<Longrightarrow> trim [c, d, e] = [c, d, e]"
  by (simp_all add: trim_id)

lemma piped_routes:
  "normalize_channel_route_target (Some piped_target) = Some \<lparr>cr_channel = Some [120], cr_account_id = Some [100],
     cr_target = Some \<lparr>tg_to = [97, 124, 98], tg_raw_to = None, tg_chat_type = None\<rparr>,
     cr_thread = Some \<lparr>th_id = ThreadText [99], th_kind = None, th_source = None\<rparr>\<rparr>"
  "normalize_channel_route_target (Some piped_thread) = Some \<lparr>cr_channel = Some [120], cr_account_id = Some [98],
     cr_target = Some \<lparr>tg_to = [97], tg_raw_to = None, tg_chat_type = None\<rparr>,
     cr_thread = Some \<lparr>th_id = ThreadText [100, 124, 99], th_kind = None, th_source = None\<rparr>\<rparr>"
  by (simp_all add: normalize_channel_route_target_def normalize_channel_route_ref_def piped_target_def piped_thread_def
      blank_input_def js_def is_ws_def normalize_lowercase_string_or_empty_def normalize_optional_lowercase_string_def
      normalize_optional_string_def normalize_nullable_string_def normalize_route_thread_id_def
      normalize_optional_thread_value_def normalize_optional_account_id_def trimmed_id_def
      normalize_canonical_account_id_def canonicalize_account_id_def valid_id_def id_char_def lower_unit_def
      is_blocked_object_key_def)

text \<open>The compact key is not exact: it joins the parts with a bar and does not escape them.\<close>

lemma compact_keys_collide:
  "channel_route_compact_key (Some (KeyInput piped_target)) = channel_route_compact_key (Some (KeyInput piped_thread))"
  by (simp add: channel_route_compact_key_def normalize_channel_route_key_input_def piped_routes route_parts_def
      channel_route_target_def channel_route_thread_id_def or_empty_def stringify_route_thread_id_def
      normalize_route_thread_id_def normalize_optional_thread_value_def normalize_optional_string_def
      normalize_nullable_string_def is_ws_def js_def)

theorem route_keys_exact_witness:
  "channel_route_dedupe_key (Some piped_target) \<noteq> channel_route_dedupe_key (Some piped_thread)"
  using route_keys_exact [of "Some piped_target" "Some piped_thread"]
  by (simp add: piped_routes channel_route_targets_match_exact_def channel_routes_match_exact_def channel_route_target_def)

text \<open>What a queue should hold and remember, told without it: the events accepted for a session since a
  run last consumed some, and what that run left. Consuming selected events counts even when none of
  them is found.\<close>

fun history_step :: "channel_registry \<Rightarrow> jstring \<Rightarrow> event_op \<Rightarrow> event_queues \<Rightarrow> queued_event list \<Rightarrow> queued_event list" where
  "history_step g k (EnqueueEvent t opts now) qs h =
     (if require_session_key (se_session_key opts) = Inr k \<and> fst (enqueue_system_event g t opts now qs) = Inr True
      then h @ [\<lparr>qv_text = trim t, qv_ts = now, qv_context_key = normalize_context_key (se_context_key opts),
              qv_delivery_context = normalize_delivery_context g (se_delivery_context opts),
              qv_force_sender = (case se_force_sender opts of Some b \<Rightarrow> b | None \<Rightarrow> se_trusted opts = Some False)\<rparr>]
      else h)"
| "history_step g k (DrainEvents s) qs h = (if require_session_key s = Inr k then [] else h)"
| "history_step g k (ConsumeEvents s es) qs h =
     (if require_session_key s = Inr k \<and> fst (consume_system_event_entries s es qs) \<noteq> Inr []
      then drop (length es) (queue_of k qs) else h)"
| "history_step g k (ConsumeSelected s es) qs h =
     (if require_session_key s = Inr k \<and> es \<noteq> [] then fst (fold take_selected es (queue_of k qs, [])) else h)"
| "history_step g k ResetEvents qs h = []"

definition events_after :: "channel_registry \<Rightarrow> event_op list \<Rightarrow> event_queues" where
  "events_after g ops = fold (event_exec g) ops []"

definition event_history :: "channel_registry \<Rightarrow> jstring \<Rightarrow> event_op list \<Rightarrow> queued_event list" where
  "event_history g k ops = snd (fold (\<lambda>e (qs, h). (event_exec g e qs, history_step g k e qs h)) ops ([], []))"

text \<open>The newest context key of a list of events, and the one a session remembers.\<close>

definition newest_key :: "queued_event list \<Rightarrow> jstring option" where
  "newest_key h = fold (\<lambda>e key. if qv_context_key e = None then key else qv_context_key e) h None"

definition remembered_key :: "jstring \<Rightarrow> event_queues \<Rightarrow> jstring option" where
  "remembered_key k qs = Option.bind (map_of qs k) sq_last_context_key"

definition follows_history :: "jstring \<Rightarrow> event_queues \<Rightarrow> queued_event list \<Rightarrow> bool" where
  "follows_history k qs h \<longleftrightarrow> queue_of k qs = drop (length h - max_events) h \<and> remembered_key k qs = newest_key h"

lemma newest_key_snoc: "newest_key (h @ [e]) = (case qv_context_key e of None \<Rightarrow> newest_key h | Some c \<Rightarrow> Some c)"
  by (simp add: newest_key_def split: option.split)

lemma newest_key_last_context: "last_context h = newest_key h"
proof (induction h rule: rev_induct)
  case Nil
  then show ?case by (simp add: last_context_def newest_key_def)
qed (simp add: last_context_snoc newest_key_snoc split: option.split)

lemma remembered_put: "remembered_key k (map_put key entry qs) = (if k = key then sq_last_context_key entry else remembered_key k qs)"
  by (simp add: remembered_key_def map_of_map_put)

lemma remembered_del: "remembered_key k (map_del key qs) = (if k = key then None else remembered_key k qs)"
  by (simp add: remembered_key_def map_of_map_del)

lemma get_or_create_remembered:
  "remembered_key k (snd (get_or_create_session_queue key qs)) = remembered_key k qs"
  "sq_last_context_key (fst (get_or_create_session_queue key qs)) = remembered_key key qs"
  by (auto simp: get_or_create_session_queue_def remembered_key_def map_of_map_put empty_session_queue_def split: option.split)

lemma follows_reset:
  assumes "length queue \<le> max_events"
  shows "follows_history key (reset_queue_state key queue qs) queue"
    and "k \<noteq> key \<Longrightarrow> follows_history k qs h \<Longrightarrow> follows_history k (reset_queue_state key queue qs) h"
  using assms
  by (auto simp: follows_history_def reset_queue_state_def queue_of_put queue_of_del remembered_put remembered_del
      newest_key_last_context newest_key_def)

lemma follows_short: "follows_history k qs h \<Longrightarrow> length (queue_of k qs) \<le> max_events"
  by (simp add: follows_history_def)

lemma follows_empty: "follows_history k qs h \<Longrightarrow> queue_of k qs = [] \<Longrightarrow> h = []"
  by (cases h) (auto simp: follows_history_def max_events_def)

lemma follows_push:
  assumes "follows_history k qs h" "sq_queue entry = queue_of k qs" "sq_last_context_key entry = remembered_key k qs"
  shows "sq_queue (push_event e entry) = drop (length (h @ [e]) - max_events) (h @ [e])"
    "sq_last_context_key (push_event e entry) = newest_key (h @ [e])"
proof -
  have q: "sq_queue entry = drop (length h - max_events) h" using assms(1,2) by (simp add: follows_history_def)
  show "sq_queue (push_event e entry) = drop (length (h @ [e]) - max_events) (h @ [e])"
  proof (cases "max_events \<le> length h")
    case True
    then have "max_events < length (sq_queue entry @ [e])" "sq_queue entry \<noteq> []" by (simp_all add: q max_events_def)
    then have "sq_queue (push_event e entry) = tl (sq_queue entry) @ [e]"
      unfolding push_event_def Let_def by (simp add: tl_append_if)
    moreover obtain n where "length h - max_events = n" "Suc n \<le> length h" "length (h @ [e]) - max_events = Suc n"
      using True by (simp add: Suc_diff_le max_events_def)
    ultimately show ?thesis by (simp add: q tl_drop drop_Suc tl_append_if)
  qed (simp add: push_event_def Let_def q)
qed (use assms in \<open>simp add: push_event_def Let_def newest_key_snoc follows_history_def split: option.split\<close>)

lemma enqueue_follows:
  assumes f: "follows_history k qs h"
  shows "follows_history k (event_exec g (EnqueueEvent t opts now) qs) (history_step g k (EnqueueEvent t opts now) qs h)"
proof (cases "require_session_key (se_session_key opts)")
  case (Inr key)
  let ?entry = "fst (get_or_create_session_queue key qs)" and ?qs1 = "snd (get_or_create_session_queue key qs)"
  let ?e = "\<lparr>qv_text = trim t, qv_ts = now, qv_context_key = normalize_context_key (se_context_key opts),
    qv_delivery_context = normalize_delivery_context g (se_delivery_context opts),
    qv_force_sender = (case se_force_sender opts of Some b \<Rightarrow> b | None \<Rightarrow> se_trusted opts = Some False)\<rparr>"
  let ?skip = "trim t = [] \<or> find_duplicate_in_queue (sq_queue ?entry) (qv_text ?e) (qv_context_key ?e)
    (qv_delivery_context ?e) (qv_force_sender ?e) \<noteq> None"
  have step: "enqueue_system_event g t opts now qs =
      (if ?skip then (Inr False, ?qs1) else (Inr True, map_put key (push_event ?e ?entry) ?qs1))"
    using Inr by (simp add: enqueue_system_event_def Let_def split_beta)
  show ?thesis
  proof (cases "\<not> ?skip \<and> key = k")
    case True
    have e: "sq_queue ?entry = queue_of k qs" "sq_last_context_key ?entry = remembered_key k qs"
      using True by (simp_all add: get_or_create_queue get_or_create_remembered)
    have "history_step g k (EnqueueEvent t opts now) qs h = h @ [?e]"
      unfolding history_step.simps step if_not_P [OF conjunct1 [OF True]] by (simp add: Inr conjunct2 [OF True])
    moreover have "event_exec g (EnqueueEvent t opts now) qs = map_put k (push_event ?e ?entry) ?qs1"
      unfolding event_exec.simps step if_not_P [OF conjunct1 [OF True]] by (simp add: conjunct2 [OF True])
    ultimately show ?thesis
      using follows_push [OF f e, of ?e] by (simp only: follows_history_def queue_of_put remembered_put simp_thms if_True)
  next
    case False
    then have "history_step g k (EnqueueEvent t opts now) qs h = h" by (auto simp: step Inr)
    moreover have "follows_history k (event_exec g (EnqueueEvent t opts now) qs) h"
      using f False by (auto simp: step follows_history_def queue_of_put remembered_put get_or_create_queue get_or_create_remembered)
    ultimately show ?thesis by simp
  qed
qed (use f in \<open>simp add: enqueue_system_event_def\<close>)

lemma drain_follows:
  assumes f: "follows_history k qs h"
  shows "follows_history k (event_exec g (DrainEvents s) qs) (history_step g k (DrainEvents s) qs h)"
proof (cases "require_session_key s")
  case (Inr key)
  show ?thesis
  proof (cases "queue_of key qs = []")
    case True
    then have "snd (drain_system_event_entries s qs) = qs"
      using Inr by (auto simp: drain_system_event_entries_def queue_of_def split: option.splits)
    with True f follows_empty [OF f] show ?thesis by (auto simp: Inr)
  next
    case False
    then have "snd (drain_system_event_entries s qs) = map_del key qs"
      using Inr by (auto simp: drain_system_event_entries_def queue_of_def split: option.splits)
    with f show ?thesis by (simp add: Inr follows_history_def queue_of_del remembered_del newest_key_def)
  qed
qed (use f in \<open>simp add: drain_system_event_entries_def\<close>)

lemma consume_follows:
  assumes f: "follows_history k qs h"
  shows "follows_history k (event_exec g (ConsumeEvents s es) qs) (history_step g k (ConsumeEvents s es) qs h)"
proof (cases "require_session_key s")
  case (Inr key)
  show ?thesis
  proof (cases "fst (consume_system_event_entries s es qs) = Inr []")
    case True
    then have "snd (consume_system_event_entries s es qs) = qs"
      using Inr by (auto simp: consume_system_event_entries_def Let_def split: option.splits if_splits)
    then show ?thesis using f True by simp
  next
    case False
    then obtain entry where e: "map_of qs key = Some entry"
      "snd (consume_system_event_entries s es qs) = reset_queue_state key (drop (length es) (sq_queue entry)) qs"
      using Inr by (auto simp: consume_system_event_entries_def Let_def split: option.splits if_splits)
    have q: "queue_of key qs = sq_queue entry" using e(1) by (simp add: queue_of_def)
    show ?thesis
    proof (cases "key = k")
      case True
      then have "length (drop (length es) (sq_queue entry)) \<le> max_events"
        using follows_short [OF f] q by (simp add: le_diff_conv trans_le_add1)
      from follows_reset(1) [OF this] False show ?thesis by (simp add: Inr e(2) q True flip: True)
    next
      case diff: False
      then show ?thesis using f
        by (auto simp: Inr e(2) follows_history_def reset_queue_state_def queue_of_put queue_of_del remembered_put remembered_del)
    qed
  qed
qed (use f in \<open>simp add: consume_system_event_entries_def\<close>)

lemma all_sorted: "sorted_wrt (\<lambda>_ _. True) xs"
  by (induction xs) simp_all

lemma consume_selected_follows:
  assumes f: "follows_history k qs h"
  shows "follows_history k (event_exec g (ConsumeSelected s es) qs) (history_step g k (ConsumeSelected s es) qs h)"
proof (cases "require_session_key s")
  case (Inr key)
  let ?left = "fst (fold take_selected es (queue_of key qs, []))"
  show ?thesis
  proof (cases "queue_of key qs = [] \<or> es = []")
    case True
    then have "snd (consume_selected_system_event_entries s es qs) = qs"
      using Inr by (auto simp: consume_selected_system_event_entries_def queue_of_def split: option.splits)
    moreover have "?left = h" if "key = k" "es \<noteq> []"
      using that True follows_empty [OF f] take_all_selected_shrinks [of "\<lambda>_ _. True" "([], [])" es] by simp
    ultimately show ?thesis using f by (auto simp: Inr)
  next
    case False
    then obtain entry where e: "map_of qs key = Some entry" "sq_queue entry = queue_of key qs"
      by (auto simp: queue_of_def split: option.splits)
    then have step: "snd (consume_selected_system_event_entries s es qs) = reset_queue_state key ?left qs"
      using False Inr by (simp add: consume_selected_system_event_entries_def split_beta)
    show ?thesis
    proof (cases "key = k")
      case True
      then have "length ?left \<le> max_events"
        using follows_short [OF f] take_all_selected_shrinks [of "\<lambda>_ _. True" "(queue_of key qs, [])" es]
        by (simp add: all_sorted)
      from follows_reset(1) [OF this, of key qs] False show ?thesis by (simp add: Inr step True)
    next
      case diff: False
      then show ?thesis using f
        by (auto simp: Inr step follows_history_def reset_queue_state_def queue_of_put queue_of_del remembered_put remembered_del)
    qed
  qed
qed (use f in \<open>simp add: consume_selected_system_event_entries_def\<close>)

lemma event_follows: "follows_history k qs h \<Longrightarrow> follows_history k (event_exec g e qs) (history_step g k e qs h)"
  by (cases e) (simp only: enqueue_follows drain_follows consume_follows consume_selected_follows,
    simp_all only: enqueue_follows drain_follows consume_follows consume_selected_follows,
    simp add: follows_history_def reset_system_events_def queue_of_def remembered_key_def newest_key_def)

lemma history_fold:
  "follows_history k qs h \<Longrightarrow>
   follows_history k (fold (event_exec g) ops qs) (snd (fold (\<lambda>e (qs, h). (event_exec g e qs, history_step g k e qs h)) ops (qs, h)))"
  by (induction ops arbitrary: qs h) (simp_all add: event_follows del: event_exec.simps history_step.simps)

lemma events_after_follow: "follows_history k (events_after g ops) (event_history g k ops)"
  unfolding events_after_def event_history_def
  by (rule history_fold) (simp add: follows_history_def queue_of_def remembered_key_def newest_key_def)

lemma events_after_ok: "event_queues_ok (events_after g ops)"
proof -
  have "events_reachable g (fold (event_exec g) ops qs)" if "events_reachable g qs" for qs
    using that by (induction ops arbitrary: qs) (auto intro: events_step)
  then show ?thesis unfolding events_after_def by (rule events_reachable_ok [OF _ ]) (rule events_start)
qed

text \<open>C39: the events of a session stay few and different, and the remembered context key is exact.
  After any sequence of additions, drains, consumptions and resets, the queue of a session holds at
  most twenty events, the last twenty of its history (the events accepted since a run last consumed
  some, after those that this run left); no event with a context key repeats an earlier one of the
  queue; and the test for a changed context compares with the newest context key of that history, or
  with no key when no event of it has one.\<close>
theorem event_queues_stay_clean:
  "let qs = events_after g ops; h = event_history g k ops
   in length (queue_of k qs) \<le> 20 \<and> queue_of k qs = drop (length h - 20) h \<and>
      sorted_wrt (\<lambda>a b. \<not> (qv_context_key b \<noteq> None \<and> same_event a b)) (queue_of k qs) \<and>
      (require_session_key s = Inr k \<longrightarrow>
         is_system_event_context_changed s c qs = Inr (normalize_context_key c \<noteq> newest_key h))"
proof -
  have f: "follows_history k (events_after g ops) (event_history g k ops)" by (rule events_after_follow)
  have "sorted_wrt (\<lambda>a b. \<not> (qv_context_key b \<noteq> None \<and> same_event a b)) (queue_of k (events_after g ops))"
  proof (cases "map_of (events_after g ops) k")
    case (Some entry)
    then have "session_queue_ok entry" using events_after_ok [of g ops] by (simp add: event_queues_ok_def)
    then show ?thesis using Some by (auto simp: queue_of_def session_queue_ok_def elim: sorted_wrt_mono_rel [rotated])
  qed (simp add: queue_of_def)
  then show ?thesis using f follows_short [OF f]
    by (simp add: Let_def follows_history_def max_events_def is_system_event_context_changed_def get_session_queue_def
        remembered_key_def)
qed

definition plain_registry :: channel_registry where
  "plain_registry = \<lparr>rg_aliases = (\<lambda>s. None), rg_chat_ids = (\<lambda>s. False), rg_plugin_id = (\<lambda>s. None)\<rparr>"

definition cron_options :: system_event_options where
  "cron_options = \<lparr>se_session_key = Some [115], se_context_key = Some [99], se_delivery_context = None,
     se_force_sender = None, se_trusted = Some False\<rparr>"

definition cron_event :: queued_event where
  "cron_event = \<lparr>qv_text = [104], qv_ts = 1, qv_context_key = Some [99], qv_delivery_context = None, qv_force_sender = True\<rparr>"

text \<open>The second addition repeats the first one.\<close>

definition cron_queues :: event_queues where
  "cron_queues = add_events plain_registry [([104], cron_options, 1), ([104], cron_options, 2)] []"

lemma add_events_reachable: "events_reachable g qs \<Longrightarrow> events_reachable g (add_events g ops qs)"
proof (induction ops arbitrary: qs)
  case (Cons x ops)
  obtain t opts now where x: "x = (t, opts, now)" by (cases x)
  have "events_reachable g (event_exec g (EnqueueEvent t opts now) qs)" using Cons.prems by (rule events_step)
  with Cons.IH show ?case by (simp add: add_events_def x)
qed (simp add: add_events_def)

lemma cron_queues_eq: "cron_queues = [([115], \<lparr>sq_queue = [cron_event], sq_last_context_key = Some [99]\<rparr>)]"
  by (simp add: cron_queues_def add_events_def enqueue_system_event_def cron_options_def require_session_key_def
      normalize_optional_string_def normalize_nullable_string_def is_ws_def get_or_create_session_queue_def
      empty_session_queue_def normalize_context_key_def normalize_optional_lowercase_string_def lower_unit_def
      normalize_delivery_context_def find_duplicate_in_queue_def push_event_def max_events_def map_put_def
      is_duplicate_system_event_def resolve_event_owner_downgrade_def cron_event_def split_beta Let_def)

text \<open>A run consumes the only event with a context key: the next event of that context counts as new.\<close>

definition cron_run :: "event_op list" where
  "cron_run = [EnqueueEvent [104] cron_options 1, EnqueueEvent [105] (cron_options\<lparr>se_context_key := None\<rparr>) 2,
     ConsumeEvents (Some [115]) [clone_system_event cron_event]]"

definition plain_event :: queued_event where
  "plain_event = \<lparr>qv_text = [105], qv_ts = 2, qv_context_key = None, qv_delivery_context = None, qv_force_sender = True\<rparr>"

lemma cron_run_steps:
  "enqueue_system_event plain_registry [104] cron_options 1 [] =
     (Inr True, [([115], \<lparr>sq_queue = [cron_event], sq_last_context_key = Some [99]\<rparr>)])"
  "enqueue_system_event plain_registry [105] (cron_options\<lparr>se_context_key := None\<rparr>) 2
     [([115], \<lparr>sq_queue = [cron_event], sq_last_context_key = Some [99]\<rparr>)] =
     (Inr True, [([115], \<lparr>sq_queue = [cron_event, plain_event], sq_last_context_key = Some [99]\<rparr>)])"
  "consume_system_event_entries (Some [115]) [clone_system_event cron_event]
     [([115], \<lparr>sq_queue = [cron_event, plain_event], sq_last_context_key = Some [99]\<rparr>)] =
     (Inr [clone_system_event cron_event], [([115], \<lparr>sq_queue = [plain_event], sq_last_context_key = None\<rparr>)])"
  by (simp_all add: enqueue_system_event_def cron_options_def require_session_key_def consume_system_event_entries_def
      normalize_optional_string_def normalize_nullable_string_def is_ws_def get_or_create_session_queue_def reset_queue_state_def
      empty_session_queue_def normalize_context_key_def normalize_optional_lowercase_string_def lower_unit_def last_context_def
      normalize_delivery_context_def find_duplicate_in_queue_def push_event_def max_events_def map_put_def
      is_duplicate_system_event_def resolve_event_owner_downgrade_def cron_event_def plain_event_def split_beta Let_def)

lemma cron_keys: "require_session_key (Some [115]) = Inr [115]" "normalize_context_key (Some [99]) = Some [99]"
  "require_session_key (se_session_key cron_options) = Inr [115]" "normalize_context_key (se_context_key cron_options) = Some [99]"
  "normalize_context_key None = None"
  by (simp_all add: require_session_key_def normalize_optional_string_def normalize_nullable_string_def is_ws_def cron_options_def
      normalize_context_key_def normalize_optional_lowercase_string_def lower_unit_def)

lemma plain_event_key: "qv_context_key plain_event = None"
  by (simp add: plain_event_def)

lemma cron_histories:
  "newest_key (event_history plain_registry [115] (take 2 cron_run)) = Some [99]"
  "newest_key (event_history plain_registry [115] cron_run) = None"
  by (simp_all add: event_history_def cron_run_def cron_run_steps cron_keys queue_of_def newest_key_def plain_event_key)

theorem event_queues_stay_clean_witness:
  "is_system_event_context_changed (Some [115]) (Some [99]) (events_after plain_registry (take 2 cron_run)) = Inr False \<and>
   is_system_event_context_changed (Some [115]) (Some [99]) (events_after plain_registry cron_run) = Inr True"
  using event_queues_stay_clean [of plain_registry "take 2 cron_run" "[115]" "Some [115]" "Some [99]"]
    event_queues_stay_clean [of plain_registry cron_run "[115]" "Some [115]" "Some [99]"]
  by (simp add: Let_def cron_keys cron_histories)

text \<open>C38: a run consumes what it has shown. When the events of a session are read, further events
  are added to any sessions, without more than twenty for this one, and the events that were read
  are consumed, all at once or one by one, then exactly these are removed and returned, and the
  ones added since remain.\<close>
theorem shown_events_are_consumed:
  assumes "peek_system_event_entries s qs = Inr es" "es \<noteq> []" "length es + length ops \<le> max_events"
    and "consume = consume_system_event_entries \<or> consume = consume_selected_system_event_entries"
  shows "\<exists>new. peek_system_event_entries s (add_events g ops qs) = Inr (es @ new) \<and>
     fst (consume s es (add_events g ops qs)) = Inr es \<and>
     peek_system_event_entries s (snd (consume s es (add_events g ops qs))) = Inr new"
proof -
  obtain k where k: "require_session_key s = Inr k" and es: "es = map clone_system_event (queue_of k qs)"
    using assms(1) by (auto simp: peek_queue split: sum.splits)
  obtain new where new: "queue_of k (add_events g ops qs) = queue_of k qs @ new"
    using add_events_grows [of k qs ops g] assms(3) es by auto
  have ne: "queue_of k qs \<noteq> []" using assms(2) es by auto
  have "fst (consume s es (add_events g ops qs)) = Inr es" "queue_of k (snd (consume s es (add_events g ops qs))) = new"
    using assms(4) consume_queue [OF k new ne] consume_selected_queue [OF k new ne] es by auto
  then show ?thesis using new es k by (intro exI [of _ "map clone_system_event new"]) (simp add: peek_queue)
qed

theorem shown_events_are_consumed_witness:
  "\<exists>new. peek_system_event_entries (Some [115]) (add_events plain_registry [([105], cron_options, 3)] cron_queues) =
       Inr ([clone_system_event cron_event] @ new) \<and>
     fst (consume_selected_system_event_entries (Some [115]) [clone_system_event cron_event]
       (add_events plain_registry [([105], cron_options, 3)] cron_queues)) = Inr [clone_system_event cron_event] \<and>
     peek_system_event_entries (Some [115]) (snd (consume_selected_system_event_entries (Some [115]) [clone_system_event cron_event]
       (add_events plain_registry [([105], cron_options, 3)] cron_queues))) = Inr new"
proof (rule shown_events_are_consumed)
  show "peek_system_event_entries (Some [115]) cron_queues = Inr [clone_system_event cron_event]"
    by (simp add: cron_queues_eq peek_system_event_entries_def get_session_queue_def require_session_key_def
        normalize_optional_string_def normalize_nullable_string_def is_ws_def)
qed (simp_all add: max_events_def)

end
