(* ===== verification/SessionKeys.thy ===== *)
theory SessionKeys
  imports ChannelRoute
begin

text \<open>
  Session keys (\<open>openclaw-main/src/routing/session-key.ts\<close>, \<open>sessions/session-key-utils.ts\<close>,
  \<open>channels/chat-type.ts\<close>): how the key of a conversation is built from agent, channel, account
  and peer, and what is read back from it. Arguments that may be missing are options.
\<close>

section \<open>Parsing\<close>

fun split_colon :: "jstring \<Rightarrow> jstring list" where
  "split_colon [] = [[]]"
| "split_colon (c # cs) =
     (if c = 58 then [] # split_colon cs
      else (case split_colon cs of [] \<Rightarrow> [[c]] | p # ps \<Rightarrow> (c # p) # ps))"

abbreviation colon_join :: "jstring list \<Rightarrow> jstring" where
  "colon_join parts \<equiv> join [58] parts"

record parsed_session_key =
  pk_agent_id :: jstring
  pk_rest :: jstring

definition parse_agent_session_key :: "jstring option \<Rightarrow> parsed_session_key option" where
  "parse_agent_session_key session_key =
     (case normalize_optional_lowercase_string (of_string session_key) of
        None \<Rightarrow> None
      | Some raw \<Rightarrow>
          (let parts = filter (\<lambda>p. p \<noteq> []) (split_colon raw) in
           if length parts < 3 then None
           else if hd parts \<noteq> js ''agent'' then None
           else (let agent = normalize_optional_string (Str (parts ! 1)); rest = colon_join (drop 2 parts)
                 in case agent of None \<Rightarrow> None
                    | Some a \<Rightarrow> if rest = [] then None else Some \<lparr>pk_agent_id = a, pk_rest = rest\<rparr>)))"

text \<open>\<open>/^cron:[^:]+:run:[^:]+(?::|$)/\<close> in terms of the parts between colons.\<close>

definition is_cron_run_rest :: "jstring \<Rightarrow> bool" where
  "is_cron_run_rest rest =
     (case split_colon rest of
        a # b # c # d # more_parts \<Rightarrow> a = js ''cron'' \<and> b \<noteq> [] \<and> c = js ''run'' \<and> d \<noteq> []
      | _ \<Rightarrow> False)"

definition is_cron_run_session_key :: "jstring option \<Rightarrow> bool" where
  "is_cron_run_session_key session_key =
     (case parse_agent_session_key session_key of None \<Rightarrow> False | Some p \<Rightarrow> is_cron_run_rest (pk_rest p))"

definition rest_starts_with :: "string \<Rightarrow> jstring option \<Rightarrow> bool" where
  "rest_starts_with prefix rest =
     (case normalize_optional_lowercase_string (of_string rest) of None \<Rightarrow> False | Some r \<Rightarrow> starts_with r (js prefix))"

definition is_cron_session_key :: "jstring option \<Rightarrow> bool" where
  "is_cron_session_key session_key =
     (case parse_agent_session_key session_key of None \<Rightarrow> False | Some p \<Rightarrow> rest_starts_with ''cron:'' (Some (pk_rest p)))"

definition is_subagent_session_key :: "jstring option \<Rightarrow> bool" where
  "is_subagent_session_key session_key =
     (case normalize_optional_string (of_string session_key) of None \<Rightarrow> False
      | Some raw \<Rightarrow> rest_starts_with ''subagent:'' (Some raw) \<or>
          rest_starts_with ''subagent:'' (map_option pk_rest (parse_agent_session_key (Some raw))))"

fun count_parts :: "jstring \<Rightarrow> jstring \<Rightarrow> nat" where
  "count_parts pat [] = 1"
| "count_parts pat (c # cs) =
     (if starts_with (c # cs) pat then Suc (count_parts pat (drop (length pat - 1) cs)) else count_parts pat cs)"

definition get_subagent_depth :: "jstring option \<Rightarrow> nat" where
  "get_subagent_depth session_key =
     (case normalize_optional_lowercase_string (of_string session_key) of None \<Rightarrow> 0
      | Some raw \<Rightarrow> count_parts (js '':subagent:'') raw - 1)"

definition is_acp_session_key :: "jstring option \<Rightarrow> bool" where
  "is_acp_session_key session_key =
     (case normalize_optional_string (of_string session_key) of None \<Rightarrow> False
      | Some raw \<Rightarrow> starts_with (normalize_lowercase_string_or_empty (Str raw)) (js ''acp:'') \<or>
          rest_starts_with ''acp:'' (map_option pk_rest (parse_agent_session_key (Some raw))))"

definition last_index_of :: "jstring \<Rightarrow> jstring \<Rightarrow> nat option" where
  "last_index_of s pat = List.find (\<lambda>i. starts_with (drop i s) pat) (rev [0..<Suc (length s)])"

definition parse_thread_session_suffix :: "jstring option \<Rightarrow> jstring option \<times> jstring option" where
  "parse_thread_session_suffix session_key =
     (case normalize_optional_string (of_string session_key) of None \<Rightarrow> (None, None)
      | Some raw \<Rightarrow>
          (let marker = js '':thread:'' in
           case last_index_of (normalize_lowercase_string_or_empty (Str raw)) marker of
             None \<Rightarrow> (Some raw, None)
           | Some i \<Rightarrow> (Some (take i raw), normalize_optional_string (Str (drop (i + length marker) raw)))))"

record conversation_ref =
  vr_channel :: jstring
  vr_kind :: chat_type
  vr_raw_id :: jstring
  vr_prefix :: jstring

definition parse_raw_session_conversation_ref :: "jstring option \<Rightarrow> conversation_ref option" where
  "parse_raw_session_conversation_ref session_key =
     (case normalize_optional_string (of_string session_key) of None \<Rightarrow> None
      | Some raw \<Rightarrow>
          (let raw_parts = filter (\<lambda>p. p \<noteq> []) (split_colon raw);
               start = (if 3 \<le> length raw_parts \<and> normalize_optional_lowercase_string (Str (hd raw_parts)) = Some (js ''agent'') then 2 else 0);
               parts = drop start raw_parts
           in if length parts < 3 then None
              else (let channel = normalize_optional_lowercase_string (Str (parts ! 0));
                        kind = normalize_optional_lowercase_string (Str (parts ! 1));
                        chat = (if kind = Some (js ''group'') then Some GroupChat
                                else if kind = Some (js ''channel'') then Some ChannelChat else None);
                        raw_id = normalize_optional_string (Str (colon_join (drop 2 parts)));
                        prefix = normalize_optional_string (Str (colon_join (take (start + 2) raw_parts)))
                    in case (channel, chat, raw_id, prefix) of
                         (Some c, Some k, Some i, Some p) \<Rightarrow> Some \<lparr>vr_channel = c, vr_kind = k, vr_raw_id = i, vr_prefix = p\<rparr>
                       | _ \<Rightarrow> None)))"

definition resolve_thread_parent_session_key :: "jstring option \<Rightarrow> jstring option" where
  "resolve_thread_parent_session_key session_key =
     (let (base, thread) = parse_thread_session_suffix session_key
      in if thread = None then None else normalize_optional_string (of_string base))"

section \<open>Identifiers of agents\<close>

definition default_agent_id :: jstring where "default_agent_id = js ''main''"
definition default_main_key :: jstring where "default_main_key = js ''main''"

definition or_default :: "jstring \<Rightarrow> jstring \<Rightarrow> jstring" where
  "or_default s d = (if s = [] then d else s)"

definition normalize_main_key :: "jstring option \<Rightarrow> jstring" where
  "normalize_main_key v = or_default (normalize_lowercase_string_or_empty (of_string v)) default_main_key"

definition normalize_agent_id :: "jstring option \<Rightarrow> jstring" where
  "normalize_agent_id v =
     (let trimmed = trimmed_id v in
      if trimmed = [] then default_agent_id
      else (let normalized = normalize_lowercase_string_or_empty (Str trimmed) in
            if valid_id trimmed then normalized
            else or_default (slice (strip_dashes (dash_invalid normalized)) 0 64) default_agent_id))"

definition is_valid_agent_id :: "jstring option \<Rightarrow> bool" where
  "is_valid_agent_id v \<longleftrightarrow> trimmed_id v \<noteq> [] \<and> valid_id (trimmed_id v)"

definition sanitize_agent_id :: "jstring option \<Rightarrow> jstring" where
  "sanitize_agent_id v = normalize_agent_id v"

definition build_agent_main_session_key :: "jstring \<Rightarrow> jstring option \<Rightarrow> jstring" where
  "build_agent_main_session_key agent_id main_key =
     js ''agent:'' @ normalize_agent_id (Some agent_id) @ [58] @ normalize_main_key main_key"

definition to_agent_request_session_key :: "jstring option \<Rightarrow> jstring option" where
  "to_agent_request_session_key store_key =
     (let raw = trimmed_id store_key in
      if raw = [] then None
      else Some (case parse_agent_session_key (Some raw) of None \<Rightarrow> raw | Some p \<Rightarrow> pk_rest p))"

definition to_agent_store_session_key :: "jstring \<Rightarrow> jstring option \<Rightarrow> jstring option \<Rightarrow> jstring" where
  "to_agent_store_session_key agent_id request_key main_key =
     (let raw = trimmed_id request_key; lowered = normalize_lowercase_string_or_empty (Str raw) in
      if raw = [] \<or> lowered = default_main_key then build_agent_main_session_key agent_id main_key
      else case parse_agent_session_key (Some raw) of
             Some p \<Rightarrow> js ''agent:'' @ pk_agent_id p @ [58] @ pk_rest p
           | None \<Rightarrow> if starts_with lowered (js ''agent:'') then lowered
                     else js ''agent:'' @ normalize_agent_id (Some agent_id) @ [58] @ lowered)"

definition resolve_agent_id_from_session_key :: "jstring option \<Rightarrow> jstring" where
  "resolve_agent_id_from_session_key session_key =
     normalize_agent_id (Some (case parse_agent_session_key session_key of None \<Rightarrow> default_agent_id | Some p \<Rightarrow> pk_agent_id p))"

datatype session_key_shape = MissingKey | AgentKey | LegacyOrAliasKey | MalformedAgentKey

definition classify_session_key_shape :: "jstring option \<Rightarrow> session_key_shape" where
  "classify_session_key_shape session_key =
     (let raw = trimmed_id session_key in
      if raw = [] then MissingKey
      else if parse_agent_session_key (Some raw) \<noteq> None then AgentKey
      else if starts_with (normalize_lowercase_string_or_empty (Str raw)) (js ''agent:'') then MalformedAgentKey
      else LegacyOrAliasKey)"

datatype session_scope = PerSender | GlobalScope

text \<open>What \<open>scopedHeartbeatWakeOptions\<close> adds to the options of a wake.\<close>

datatype wake_target = AnyTarget | SessionTarget jstring | AgentTarget jstring

definition scoped_heartbeat_wake_options :: "jstring \<Rightarrow> jstring option \<Rightarrow> session_scope option \<Rightarrow> wake_target" where
  "scoped_heartbeat_wake_options session_key main_key scope =
     (case parse_agent_session_key (Some session_key) of None \<Rightarrow> AnyTarget
      | Some p \<Rightarrow>
          if is_cron_run_session_key (Some session_key)
          then (if scope = Some GlobalScope then AgentTarget (pk_agent_id p)
                else SessionTarget (build_agent_main_session_key (pk_agent_id p) main_key))
          else SessionTarget session_key)"

definition resolve_event_session_key :: "jstring \<Rightarrow> jstring option \<Rightarrow> session_scope option \<Rightarrow> jstring" where
  "resolve_event_session_key session_key main_key scope =
     (case parse_agent_session_key (Some session_key) of None \<Rightarrow> session_key
      | Some p \<Rightarrow>
          if \<not> is_cron_run_session_key (Some session_key) then session_key
          else if scope = Some GlobalScope then js ''global''
          else build_agent_main_session_key (pk_agent_id p) main_key)"

section \<open>Keys of conversations\<close>

fun chat_name :: "chat_type \<Rightarrow> jstring" where
  "chat_name DirectChat = js ''direct''"
| "chat_name GroupChat = js ''group''"
| "chat_name ChannelChat = js ''channel''"

definition normalize_chat_type :: "jstring option \<Rightarrow> chat_type option" where
  "normalize_chat_type raw =
     (case normalize_optional_lowercase_string (of_string raw) of None \<Rightarrow> None
      | Some v \<Rightarrow> if v = js ''direct'' \<or> v = js ''dm'' then Some DirectChat
                  else if v = js ''group'' then Some GroupChat
                  else if v = js ''channel'' then Some ChannelChat else None)"

datatype dm_scope = MainScope | PerPeer | PerChannelPeer | PerAccountChannelPeer

type_synonym identity_links = "jstring list obj"

definition link_candidates :: "jstring \<Rightarrow> jstring \<Rightarrow> jstring list" where
  "link_candidates channel peer =
     (let raw = normalize_lowercase_string_or_empty (Str peer); ch = normalize_lowercase_string_or_empty (Str channel);
          scoped = (if ch = [] then [] else normalize_lowercase_string_or_empty (Str (ch @ [58] @ peer)))
      in filter (\<lambda>c. c \<noteq> []) [raw, scoped])"

definition resolve_linked_peer_id :: "identity_links option \<Rightarrow> jstring \<Rightarrow> jstring \<Rightarrow> jstring option" where
  "resolve_linked_peer_id links channel peer_id =
     (case links of None \<Rightarrow> None
      | Some ls \<Rightarrow>
          (let peer = trim peer_id; candidates = link_candidates channel peer in
           if peer = [] \<or> candidates = [] then None
           else map_option (\<lambda>(canonical, ids). trim canonical)
             (List.find (\<lambda>(canonical, ids). trim canonical \<noteq> [] \<and>
                list_ex (\<lambda>i. normalize_lowercase_string_or_empty (Str i) \<noteq> [] \<and>
                              normalize_lowercase_string_or_empty (Str i) \<in> set candidates) ids) ls)))"

record peer_key_params =
  pp_agent_id :: jstring
  pp_main_key :: "jstring option"
  pp_channel :: jstring
  pp_account_id :: "jstring option"
  pp_peer_kind :: "chat_type option"
  pp_peer_id :: "jstring option"
  pp_identity_links :: "identity_links option"
  pp_dm_scope :: "dm_scope option"

definition direct_peer_id :: "peer_key_params \<Rightarrow> dm_scope \<Rightarrow> jstring" where
  "direct_peer_id p scope =
     (let peer = trimmed_id (pp_peer_id p);
          linked = (if scope = MainScope then None else resolve_linked_peer_id (pp_identity_links p) (pp_channel p) peer)
      in normalize_lowercase_string_or_empty (Str (case linked of None \<Rightarrow> peer | Some l \<Rightarrow> if l = [] then peer else l)))"

definition build_agent_peer_session_key :: "peer_key_params \<Rightarrow> jstring" where
  "build_agent_peer_session_key p =
     (let kind = (case pp_peer_kind p of None \<Rightarrow> DirectChat | Some k \<Rightarrow> k);
          agent = js ''agent:'' @ normalize_agent_id (Some (pp_agent_id p)) @ [58];
          channel = or_default (normalize_lowercase_string_or_empty (Str (pp_channel p))) (js ''unknown'')
      in if kind = DirectChat then
           (let scope = (case pp_dm_scope p of None \<Rightarrow> MainScope | Some s \<Rightarrow> s); peer = direct_peer_id p scope
            in if scope = PerAccountChannelPeer \<and> peer \<noteq> [] then
                 agent @ channel @ [58] @ normalize_account_id (pp_account_id p) @ js '':direct:'' @ peer
               else if scope = PerChannelPeer \<and> peer \<noteq> [] then agent @ channel @ js '':direct:'' @ peer
               else if scope = PerPeer \<and> peer \<noteq> [] then agent @ js ''direct:'' @ peer
               else build_agent_main_session_key (pp_agent_id p) (pp_main_key p))
         else agent @ channel @ [58] @ chat_name kind @ [58] @
           or_default (normalize_lowercase_string_or_empty (of_string (pp_peer_id p))) (js ''unknown''))"

definition build_group_history_key :: "jstring \<Rightarrow> jstring option \<Rightarrow> chat_type \<Rightarrow> jstring \<Rightarrow> jstring" where
  "build_group_history_key channel account kind peer =
     or_default (normalize_lowercase_string_or_empty (Str channel)) (js ''unknown'') @ [58] @ normalize_account_id account @
       [58] @ chat_name kind @ [58] @ or_default (normalize_lowercase_string_or_empty (Str peer)) (js ''unknown'')"

definition resolve_thread_session_keys ::
  "jstring \<Rightarrow> jstring option \<Rightarrow> jstring option \<Rightarrow> bool option \<Rightarrow> (jstring \<Rightarrow> jstring) option \<Rightarrow> jstring \<times> jstring option" where
  "resolve_thread_session_keys base thread_id parent use_suffix thread_name =
     (let thread = trimmed_id thread_id in
      if thread = [] then (base, None)
      else (let normalized = (case thread_name of None \<Rightarrow> normalize_lowercase_string_or_empty (Str thread) | Some f \<Rightarrow> f thread)
            in (if use_suffix = Some False then base else base @ js '':thread:'' @ normalized, parent)))"

end
