(* ===== verification/AgentRouting.thy ===== *)
theory AgentRouting
  imports SessionKeys
begin

text \<open>
  Which agent and which session a message goes to
  (\<open>openclaw-main/src/routing/resolve-route.ts\<close>, \<open>binding-scope.ts\<close>, \<open>bindings.ts\<close>,
  \<open>peer-kind-match.ts\<close>, \<open>config/bindings.ts\<close>): the bindings of the configuration are evaluated,
  merged per account, indexed, and searched tier by tier; evaluated bindings, indexes and
  resolved routes are cached.

  The caches of a configuration object are state (\<open>route_caches\<close>). They remember the parts of the
  configuration they were made of and compare them by value, where the program compares
  references: the parts of a configuration are taken to be replaced and not changed in place.
\<close>

section \<open>Configuration\<close>

record binding_peer =
  bp_kind :: "jstring option"
  bp_id :: jsval

record binding_match =
  bm_channel :: "jstring option"
  bm_account_id :: "jstring option"
  bm_peer :: "binding_peer option"
  bm_guild_id :: jsval
  bm_team_id :: jsval
  bm_roles :: "jstring list option"

record agent_binding =
  ab_is_acp :: bool
  ab_agent_id :: jstring
  ab_match :: "binding_match option"
  ab_dm_scope :: "dm_scope option"

record agent_entry =
  ae_id :: "jstring option"
  ae_default :: bool

record routing_config =
  cf_agents :: "agent_entry list option"
  cf_bindings :: "agent_binding list option"
  cf_dm_scope :: "dm_scope option"
  cf_identity_links :: "identity_links option"

definition list_configured_bindings :: "routing_config \<Rightarrow> agent_binding list" where
  "list_configured_bindings cfg = (case cf_bindings cfg of None \<Rightarrow> [] | Some bs \<Rightarrow> bs)"

definition is_route_binding :: "agent_binding \<Rightarrow> bool" where
  "is_route_binding b \<longleftrightarrow> \<not> ab_is_acp b"

definition list_route_bindings :: "routing_config \<Rightarrow> agent_binding list" where
  "list_route_bindings cfg = filter is_route_binding (list_configured_bindings cfg)"

definition list_acp_bindings :: "routing_config \<Rightarrow> agent_binding list" where
  "list_acp_bindings cfg = filter (\<lambda>b. \<not> is_route_binding b) (list_configured_bindings cfg)"

definition list_bindings :: "routing_config \<Rightarrow> agent_binding list" where
  "list_bindings cfg = list_route_bindings cfg"

definition list_agents :: "routing_config \<Rightarrow> agent_entry list" where
  "list_agents cfg = (case cf_agents cfg of None \<Rightarrow> [] | Some as \<Rightarrow> as)"

definition resolve_default_agent_id :: "routing_config \<Rightarrow> jstring" where
  "resolve_default_agent_id cfg =
     (let agents = list_agents cfg in
      if agents = [] then default_agent_id
      else (let defaults = filter ae_default agents; first = (if defaults = [] then hd agents else hd defaults);
                chosen = trimmed_id (ae_id first)
            in normalize_agent_id (Some (or_default chosen default_agent_id))))"

section \<open>Scopes of bindings\<close>

definition normalize_route_binding_id :: "jsval \<Rightarrow> jstring" where
  "normalize_route_binding_id v = (case v of Str s \<Rightarrow> trim s | Num x \<Rightarrow> trim (num_to_string x) | _ \<Rightarrow> [])"

definition normalize_route_binding_roles :: "jstring list option \<Rightarrow> jstring list option" where
  "normalize_route_binding_roles v = (case v of None \<Rightarrow> None | Some rs \<Rightarrow> if rs = [] then None else Some rs)"

definition normalize_route_binding_channel_id :: "channel_registry \<Rightarrow> jstring option \<Rightarrow> jstring option" where
  "normalize_route_binding_channel_id g raw =
     (let fallback = normalize_lowercase_string_or_empty (of_string raw);
          fallback_id = (if fallback = [] then None else Some fallback)
      in case normalize_chat_channel_id g raw of None \<Rightarrow> fallback_id | Some c \<Rightarrow> if c = [] then fallback_id else Some c)"

record binding_target =
  bt_agent_id :: jstring
  bt_account_id :: jstring
  bt_channel_id :: jstring

definition resolve_normalized_route_binding_match :: "channel_registry \<Rightarrow> agent_binding \<Rightarrow> binding_target option" where
  "resolve_normalized_route_binding_match g b =
     (case ab_match b of None \<Rightarrow> None
      | Some m \<Rightarrow>
          (case normalize_route_binding_channel_id g (bm_channel m) of None \<Rightarrow> None
           | Some channel \<Rightarrow>
               (let account = trimmed_id (bm_account_id m)
                in if account = [] \<or> account = js ''*'' then None
                   else Some \<lparr>bt_agent_id = normalize_agent_id (Some (ab_agent_id b)),
                     bt_account_id = normalize_account_id (Some account), bt_channel_id = channel\<rparr>)))"

record binding_scope =
  bs_guild_id :: jstring
  bs_team_id :: jstring
  bs_group_space :: jstring
  bs_member_role_ids :: "jstring set"

definition scope_id_matches :: "jstring option \<Rightarrow> jstring \<Rightarrow> jstring \<Rightarrow> bool" where
  "scope_id_matches constraint exact group_space \<longleftrightarrow>
     or_empty constraint = [] \<or> constraint = Some exact \<or> constraint = Some group_space"

definition has_any_route_binding_role :: "jstring list \<Rightarrow> jstring set \<Rightarrow> bool" where
  "has_any_route_binding_role roles members \<longleftrightarrow> list_ex (\<lambda>r. r \<in> members) roles"

definition route_binding_scope_matches ::
  "jstring option \<Rightarrow> jstring option \<Rightarrow> jstring list option \<Rightarrow> binding_scope \<Rightarrow> bool" where
  "route_binding_scope_matches guild team roles scope =
     (let guild_id = trim (bs_guild_id scope); team_id = trim (bs_team_id scope); space = trim (bs_group_space scope) in
      if \<not> scope_id_matches guild guild_id space then False
      else if \<not> scope_id_matches team team_id space then False
      else case normalize_route_binding_roles roles of None \<Rightarrow> True
           | Some rs \<Rightarrow> has_any_route_binding_role rs (bs_member_role_ids scope))"

definition peer_kind_matches :: "chat_type \<Rightarrow> chat_type \<Rightarrow> bool" where
  "peer_kind_matches binding_kind scope_kind \<longleftrightarrow>
     binding_kind = scope_kind \<or> (binding_kind = GroupChat \<and> scope_kind = ChannelChat) \<or>
     (binding_kind = ChannelChat \<and> scope_kind = GroupChat)"

section \<open>Accounts bound to channels\<close>

definition list_bound_account_ids ::
  "channel_registry \<Rightarrow> (jstring \<Rightarrow> jstring \<Rightarrow> int) \<Rightarrow> routing_config \<Rightarrow> jstring \<Rightarrow> jstring list" where
  "list_bound_account_ids g collate cfg channel_id =
     (case normalize_route_binding_channel_id g (Some channel_id) of None \<Rightarrow> []
      | Some channel \<Rightarrow>
          sort_by collate (dedup (map bt_account_id (filter (\<lambda>t. bt_channel_id t = channel)
            (List.map_filter (resolve_normalized_route_binding_match g) (list_bindings cfg))))))"

definition resolve_default_agent_bound_account_id :: "channel_registry \<Rightarrow> routing_config \<Rightarrow> jstring \<Rightarrow> jstring option" where
  "resolve_default_agent_bound_account_id g cfg channel_id =
     (case normalize_route_binding_channel_id g (Some channel_id) of None \<Rightarrow> None
      | Some channel \<Rightarrow>
          (let agent = normalize_agent_id (Some (resolve_default_agent_id cfg))
           in map_option bt_account_id (List.find (\<lambda>t. bt_channel_id t = channel \<and> bt_agent_id t = agent)
                (List.map_filter (resolve_normalized_route_binding_match g) (list_bindings cfg)))))"

definition add_channel_account ::
  "binding_target \<Rightarrow> (jstring, (jstring, jstring list) jmap) jmap \<Rightarrow> (jstring, (jstring, jstring list) jmap) jmap" where
  "add_channel_account t m =
     (let by_agent = (case map_of m (bt_channel_id t) of None \<Rightarrow> [] | Some a \<Rightarrow> a);
          ids = (case map_of by_agent (bt_agent_id t) of None \<Rightarrow> [] | Some l \<Rightarrow> l)
      in map_put (bt_channel_id t) (map_put (bt_agent_id t) (set_add (bt_account_id t) ids) by_agent) m)"

definition build_channel_account_bindings ::
  "channel_registry \<Rightarrow> routing_config \<Rightarrow> (jstring, (jstring, jstring list) jmap) jmap" where
  "build_channel_account_bindings g cfg =
     fold add_channel_account (List.map_filter (resolve_normalized_route_binding_match g) (list_bindings cfg)) []"

definition resolve_preferred_account_id :: "jstring list \<Rightarrow> jstring \<Rightarrow> jstring list \<Rightarrow> jstring" where
  "resolve_preferred_account_id account_ids default_id bound =
     (case bound of [] \<Rightarrow> default_id | b # bs \<Rightarrow> b)"

section \<open>Evaluated bindings\<close>

datatype peer_constraint = NoPeer | InvalidPeer | WildcardPeer chat_type | ValidPeer chat_type jstring

record normalized_match =
  nm_account_pattern :: jstring
  nm_peer :: peer_constraint
  nm_guild_id :: "jstring option"
  nm_team_id :: "jstring option"
  nm_roles :: "jstring list option"

record evaluated_binding =
  eb_binding :: agent_binding
  eb_match :: normalized_match
  eb_order :: nat

definition normalize_peer_constraint :: "binding_peer option \<Rightarrow> peer_constraint" where
  "normalize_peer_constraint peer =
     (case peer of None \<Rightarrow> NoPeer
      | Some p \<Rightarrow>
          (let i = normalize_route_binding_id (bp_id p) in
           case normalize_chat_type (bp_kind p) of None \<Rightarrow> InvalidPeer
           | Some kind \<Rightarrow> if i = [] then InvalidPeer else if i = js ''*'' then WildcardPeer kind else ValidPeer kind i))"

definition nonempty :: "jstring \<Rightarrow> jstring option" where
  "nonempty s = (if s = [] then None else Some s)"

definition normalize_binding_match :: "binding_match \<Rightarrow> normalized_match" where
  "normalize_binding_match m =
     \<lparr>nm_account_pattern = trimmed_id (bm_account_id m), nm_peer = normalize_peer_constraint (bm_peer m),
      nm_guild_id = nonempty (normalize_route_binding_id (bm_guild_id m)),
      nm_team_id = nonempty (normalize_route_binding_id (bm_team_id m)),
      nm_roles = normalize_route_binding_roles (bm_roles m)\<rparr>"

definition resolve_account_pattern_key :: "jstring \<Rightarrow> jstring" where
  "resolve_account_pattern_key pattern_in =
     (if trim pattern_in = [] then default_account_id else normalize_account_id (Some pattern_in))"

record channel_bucket =
  cb_by_account :: "(jstring, evaluated_binding list) jmap"
  cb_by_any_account :: "evaluated_binding list"

definition append_to :: "'k \<Rightarrow> 'v \<Rightarrow> ('k, 'v list) jmap \<Rightarrow> ('k, 'v list) jmap" where
  "append_to k v m = map_put k ((case map_of m k of None \<Rightarrow> [] | Some vs \<Rightarrow> vs) @ [v]) m"

text \<open>One turn of the loop of \<open>buildEvaluatedBindingsByChannel\<close>; the number counts evaluated bindings.\<close>

definition evaluate_binding ::
  "agent_binding \<Rightarrow> (jstring, channel_bucket) jmap \<times> nat \<Rightarrow> (jstring, channel_bucket) jmap \<times> nat" where
  "evaluate_binding b acc =
     (let (by_channel, order) = acc in
      case ab_match b of None \<Rightarrow> acc
      | Some m \<Rightarrow>
          (let channel = normalize_lowercase_string_or_empty (of_string (bm_channel m)) in
           if channel = [] then acc
           else (let match = normalize_binding_match m;
                     e = \<lparr>eb_binding = b, eb_match = match, eb_order = order\<rparr>;
                     bucket = (case map_of by_channel channel of None \<Rightarrow> \<lparr>cb_by_account = [], cb_by_any_account = []\<rparr> | Some c \<Rightarrow> c);
                     bucket' = (if nm_account_pattern match = js ''*''
                                then bucket\<lparr>cb_by_any_account := cb_by_any_account bucket @ [e]\<rparr>
                                else bucket\<lparr>cb_by_account := append_to (resolve_account_pattern_key (nm_account_pattern match)) e (cb_by_account bucket)\<rparr>)
                 in (map_put channel bucket' by_channel, Suc order))))"

definition build_evaluated_bindings_by_channel :: "routing_config \<Rightarrow> (jstring, channel_bucket) jmap" where
  "build_evaluated_bindings_by_channel cfg = fst (fold evaluate_binding (list_bindings cfg) ([], 0))"

fun merge_in_source_order :: "evaluated_binding list \<Rightarrow> evaluated_binding list \<Rightarrow> evaluated_binding list" where
  "merge_in_source_order [] bs = bs"
| "merge_in_source_order as [] = as"
| "merge_in_source_order (a # as) (b # bs) =
     (if eb_order a \<le> eb_order b then a # merge_in_source_order as (b # bs)
      else b # merge_in_source_order (a # as) bs)"

section \<open>The index\<close>

record bindings_index =
  bx_by_peer :: "(jstring, evaluated_binding list) jmap"
  bx_by_peer_wildcard :: "evaluated_binding list"
  bx_by_guild_with_roles :: "(jstring, evaluated_binding list) jmap"
  bx_by_guild :: "(jstring, evaluated_binding list) jmap"
  bx_by_team :: "(jstring, evaluated_binding list) jmap"
  bx_by_account :: "evaluated_binding list"
  bx_by_channel :: "evaluated_binding list"

definition empty_bindings_index :: bindings_index where
  "empty_bindings_index = \<lparr>bx_by_peer = [], bx_by_peer_wildcard = [], bx_by_guild_with_roles = [], bx_by_guild = [],
     bx_by_team = [], bx_by_account = [], bx_by_channel = []\<rparr>"

definition push_to_index_map ::
  "jstring \<Rightarrow> evaluated_binding \<Rightarrow> (jstring, evaluated_binding list) jmap \<Rightarrow> (jstring, evaluated_binding list) jmap" where
  "push_to_index_map key b m = (if key = [] then m else append_to key b m)"

definition peer_lookup_keys :: "chat_type \<Rightarrow> jstring \<Rightarrow> jstring list" where
  "peer_lookup_keys kind i =
     (case kind of
        GroupChat \<Rightarrow> [js ''group:'' @ i, js ''channel:'' @ i]
      | ChannelChat \<Rightarrow> [js ''channel:'' @ i, js ''group:'' @ i]
      | DirectChat \<Rightarrow> [js ''direct:'' @ i])"

definition add_to_index :: "evaluated_binding \<Rightarrow> bindings_index \<Rightarrow> bindings_index" where
  "add_to_index e x =
     (let m = eb_match e in
      case nm_peer m of
        ValidPeer kind i \<Rightarrow> x\<lparr>bx_by_peer := fold (\<lambda>k. push_to_index_map k e) (peer_lookup_keys kind i) (bx_by_peer x)\<rparr>
      | WildcardPeer kind \<Rightarrow> x\<lparr>bx_by_peer_wildcard := bx_by_peer_wildcard x @ [e]\<rparr>
      | _ \<Rightarrow>
          (case (nm_guild_id m, nm_roles m) of
             (Some g, Some rs) \<Rightarrow> x\<lparr>bx_by_guild_with_roles := push_to_index_map g e (bx_by_guild_with_roles x)\<rparr>
           | (Some g, None) \<Rightarrow> x\<lparr>bx_by_guild := push_to_index_map g e (bx_by_guild x)\<rparr>
           | (None, _) \<Rightarrow>
               (case nm_team_id m of
                  Some t \<Rightarrow> x\<lparr>bx_by_team := push_to_index_map t e (bx_by_team x)\<rparr>
                | None \<Rightarrow> if nm_account_pattern m \<noteq> js ''*'' then x\<lparr>bx_by_account := bx_by_account x @ [e]\<rparr>
                          else x\<lparr>bx_by_channel := bx_by_channel x @ [e]\<rparr>)))"

definition build_evaluated_bindings_index :: "evaluated_binding list \<Rightarrow> bindings_index" where
  "build_evaluated_bindings_index bs = fold add_to_index bs empty_bindings_index"

record route_peer =
  rp_kind :: chat_type
  rp_id :: jstring

definition collect_peer_indexed_bindings :: "bindings_index \<Rightarrow> route_peer option \<Rightarrow> evaluated_binding list" where
  "collect_peer_indexed_bindings x peer =
     (case peer of None \<Rightarrow> []
      | Some p \<Rightarrow> dedup (concat (map (\<lambda>k. case map_of (bx_by_peer x) k of None \<Rightarrow> [] | Some ms \<Rightarrow> ms)
                     (peer_lookup_keys (rp_kind p) (rp_id p)))))"

section \<open>Requests and routes\<close>

record route_request =
  rq_channel :: jstring
  rq_account_id :: "jstring option"
  rq_peer :: "route_peer option"
  rq_parent_peer :: "route_peer option"
  rq_guild_id :: "jstring option"
  rq_team_id :: "jstring option"
  rq_member_role_ids :: "jstring list option"

datatype matched_by =
    ByPeer | ByParentPeer | ByPeerWildcard | ByGuildRoles | ByGuild | ByTeam | ByAccount | ByChannel | ByDefault

datatype last_route_policy = MainPolicy | SessionPolicy

record resolved_route =
  rs_agent_id :: jstring
  rs_channel :: jstring
  rs_account_id :: jstring
  rs_session_key :: jstring
  rs_main_session_key :: jstring
  rs_last_route_policy :: last_route_policy
  rs_matched_by :: matched_by

definition derive_last_route_policy :: "jstring \<Rightarrow> jstring \<Rightarrow> last_route_policy" where
  "derive_last_route_policy session_key main_key = (if session_key = main_key then MainPolicy else SessionPolicy)"

definition resolve_inbound_last_route_session_key :: "resolved_route \<Rightarrow> jstring \<Rightarrow> jstring" where
  "resolve_inbound_last_route_session_key route session_key =
     (if rs_last_route_policy route = MainPolicy then rs_main_session_key route else session_key)"

definition build_agent_session_key ::
  "jstring \<Rightarrow> jstring \<Rightarrow> jstring option \<Rightarrow> route_peer option \<Rightarrow> dm_scope option \<Rightarrow> identity_links option \<Rightarrow> jstring" where
  "build_agent_session_key agent channel account peer scope links =
     build_agent_peer_session_key \<lparr>pp_agent_id = agent, pp_main_key = Some default_main_key,
       pp_channel = or_default (normalize_lowercase_string_or_empty (Str channel)) (js ''unknown''),
       pp_account_id = account, pp_peer_kind = Some (case peer of None \<Rightarrow> DirectChat | Some p \<Rightarrow> rp_kind p),
       pp_peer_id = map_option (\<lambda>p. or_default (trim (rp_id p)) (js ''unknown'')) peer,
       pp_identity_links = links, pp_dm_scope = scope\<rparr>"

record agent_lookup =
  ag_agents_ref :: "agent_entry list option"
  ag_by_normalized_id :: "(jstring, jstring) jmap"
  ag_fallback_default :: jstring

definition build_agent_lookup :: "routing_config \<Rightarrow> agent_lookup" where
  "build_agent_lookup cfg =
     \<lparr>ag_agents_ref = cf_agents cfg,
      ag_by_normalized_id = fold (\<lambda>a m. let raw = trimmed_id (ae_id a) in
        if raw = [] then m else map_put (normalize_agent_id (Some raw)) (sanitize_agent_id (Some raw)) m) (list_agents cfg) [],
      ag_fallback_default = sanitize_agent_id (Some (resolve_default_agent_id cfg))\<rparr>"

definition pick_from_lookup :: "agent_lookup \<Rightarrow> jstring \<Rightarrow> jstring" where
  "pick_from_lookup l agent_id =
     (let trimmed = trim agent_id in
      if trimmed = [] then ag_fallback_default l
      else if ag_by_normalized_id l = [] then sanitize_agent_id (Some trimmed)
      else case map_of (ag_by_normalized_id l) (normalize_agent_id (Some trimmed)) of
             Some r \<Rightarrow> if r = [] then ag_fallback_default l else r
           | None \<Rightarrow> ag_fallback_default l)"

section \<open>Tiers\<close>

text \<open>The normalized request: what \<open>resolveAgentRoute\<close> computes before it looks at bindings.\<close>

record route_query =
  qy_channel :: jstring
  qy_account_id :: jstring
  qy_peer :: "route_peer option"
  qy_parent_peer :: "route_peer option"
  qy_guild_id :: jstring
  qy_team_id :: jstring
  qy_member_role_ids :: "jstring list"

definition normalize_peer :: "route_peer option \<Rightarrow> route_peer option" where
  "normalize_peer peer = map_option (\<lambda>p. p\<lparr>rp_id := trim (rp_id p)\<rparr>) peer"

definition route_query_of :: "route_request \<Rightarrow> route_query" where
  "route_query_of q = \<lparr>qy_channel = normalize_lowercase_string_or_empty (Str (rq_channel q)),
     qy_account_id = normalize_account_id (rq_account_id q), qy_peer = normalize_peer (rq_peer q),
     qy_parent_peer = normalize_peer (rq_parent_peer q), qy_guild_id = trimmed_id (rq_guild_id q),
     qy_team_id = trimmed_id (rq_team_id q),
     qy_member_role_ids = (case rq_member_role_ids q of None \<Rightarrow> [] | Some rs \<Rightarrow> rs)\<rparr>"

definition matches_binding_scope :: "normalized_match \<Rightarrow> route_peer option \<Rightarrow> binding_scope \<Rightarrow> bool" where
  "matches_binding_scope m peer scope =
     (case nm_peer m of
        InvalidPeer \<Rightarrow> False
      | ValidPeer kind i \<Rightarrow>
          (case peer of None \<Rightarrow> False
           | Some p \<Rightarrow> peer_kind_matches kind (rp_kind p) \<and> rp_id p = i \<and>
               route_binding_scope_matches (nm_guild_id m) (nm_team_id m) (nm_roles m) scope)
      | WildcardPeer kind \<Rightarrow>
          (case peer of None \<Rightarrow> False
           | Some p \<Rightarrow> peer_kind_matches kind (rp_kind p) \<and>
               route_binding_scope_matches (nm_guild_id m) (nm_team_id m) (nm_roles m) scope)
      | NoPeer \<Rightarrow> route_binding_scope_matches (nm_guild_id m) (nm_team_id m) (nm_roles m) scope)"

definition query_scope :: "route_query \<Rightarrow> binding_scope" where
  "query_scope y = \<lparr>bs_guild_id = qy_guild_id y, bs_team_id = qy_team_id y, bs_group_space = [],
     bs_member_role_ids = set (qy_member_role_ids y)\<rparr>"

record route_tier =
  tr_matched_by :: matched_by
  tr_enabled :: bool
  tr_scope_peer :: "route_peer option"
  tr_candidates :: "evaluated_binding list"
  tr_predicate :: "normalized_match \<Rightarrow> bool"

definition at_key :: "(jstring, evaluated_binding list) jmap \<Rightarrow> jstring \<Rightarrow> evaluated_binding list" where
  "at_key m k = (if k = [] then [] else case map_of m k of None \<Rightarrow> [] | Some bs \<Rightarrow> bs)"

fun is_valid_peer :: "peer_constraint \<Rightarrow> bool" where
  "is_valid_peer (ValidPeer kind i) = True"
| "is_valid_peer c = False"

fun is_wildcard_peer :: "peer_constraint \<Rightarrow> bool" where
  "is_wildcard_peer (WildcardPeer kind) = True"
| "is_wildcard_peer c = False"

definition named_peer :: "route_peer option \<Rightarrow> route_peer option" where
  "named_peer peer = (case peer of None \<Rightarrow> None | Some p \<Rightarrow> if rp_id p = [] then None else Some p)"

definition route_tiers :: "route_query \<Rightarrow> bindings_index \<Rightarrow> route_tier list" where
  "route_tiers y x =
     (let peer = qy_peer y; parent = qy_parent_peer y; guild = qy_guild_id y; team = qy_team_id y in
      [\<lparr>tr_matched_by = ByPeer, tr_enabled = (peer \<noteq> None), tr_scope_peer = peer,
         tr_candidates = collect_peer_indexed_bindings x peer, tr_predicate = (\<lambda>m. is_valid_peer (nm_peer m))\<rparr>,
       \<lparr>tr_matched_by = ByParentPeer, tr_enabled = (named_peer parent \<noteq> None), tr_scope_peer = named_peer parent,
         tr_candidates = collect_peer_indexed_bindings x parent, tr_predicate = (\<lambda>m. is_valid_peer (nm_peer m))\<rparr>,
       \<lparr>tr_matched_by = ByPeerWildcard, tr_enabled = (peer \<noteq> None), tr_scope_peer = peer,
         tr_candidates = bx_by_peer_wildcard x, tr_predicate = (\<lambda>m. is_wildcard_peer (nm_peer m))\<rparr>,
       \<lparr>tr_matched_by = ByGuildRoles, tr_enabled = (guild \<noteq> [] \<and> qy_member_role_ids y \<noteq> []), tr_scope_peer = peer,
         tr_candidates = at_key (bx_by_guild_with_roles x) guild, tr_predicate = (\<lambda>m. nm_guild_id m \<noteq> None \<and> nm_roles m \<noteq> None)\<rparr>,
       \<lparr>tr_matched_by = ByGuild, tr_enabled = (guild \<noteq> []), tr_scope_peer = peer,
         tr_candidates = at_key (bx_by_guild x) guild, tr_predicate = (\<lambda>m. nm_guild_id m \<noteq> None \<and> nm_roles m = None)\<rparr>,
       \<lparr>tr_matched_by = ByTeam, tr_enabled = (team \<noteq> []), tr_scope_peer = peer,
         tr_candidates = at_key (bx_by_team x) team, tr_predicate = (\<lambda>m. nm_team_id m \<noteq> None)\<rparr>,
       \<lparr>tr_matched_by = ByAccount, tr_enabled = True, tr_scope_peer = peer,
         tr_candidates = bx_by_account x, tr_predicate = (\<lambda>m. nm_account_pattern m \<noteq> js ''*'')\<rparr>,
       \<lparr>tr_matched_by = ByChannel, tr_enabled = True, tr_scope_peer = peer,
         tr_candidates = bx_by_channel x, tr_predicate = (\<lambda>m. nm_account_pattern m = js ''*'')\<rparr>])"

fun first_tier :: "binding_scope \<Rightarrow> route_tier list \<Rightarrow> (evaluated_binding \<times> matched_by) option" where
  "first_tier scope [] = None"
| "first_tier scope (t # ts) =
     (if \<not> tr_enabled t then first_tier scope ts
      else case List.find (\<lambda>e. tr_predicate t (eb_match e) \<and> matches_binding_scope (eb_match e) (tr_scope_peer t) scope) (tr_candidates t) of
             Some e \<Rightarrow> Some (e, tr_matched_by t)
           | None \<Rightarrow> first_tier scope ts)"

definition choose_route ::
  "routing_config \<Rightarrow> agent_lookup \<Rightarrow> route_query \<Rightarrow> jstring \<Rightarrow> matched_by \<Rightarrow> dm_scope option \<Rightarrow> resolved_route" where
  "choose_route cfg lookup y agent_id how override =
     (let agent = pick_from_lookup lookup agent_id;
          base_scope = (case cf_dm_scope cfg of None \<Rightarrow> MainScope | Some s \<Rightarrow> s);
          scope = (case override of None \<Rightarrow> base_scope | Some s \<Rightarrow> s);
          session_key = normalize_lowercase_string_or_empty (Str (build_agent_session_key agent (qy_channel y)
            (Some (qy_account_id y)) (qy_peer y) (Some scope) (cf_identity_links cfg)));
          main_key = normalize_lowercase_string_or_empty (Str (build_agent_main_session_key agent (Some default_main_key)))
      in \<lparr>rs_agent_id = agent, rs_channel = qy_channel y, rs_account_id = qy_account_id y, rs_session_key = session_key,
          rs_main_session_key = main_key, rs_last_route_policy = derive_last_route_policy session_key main_key,
          rs_matched_by = how\<rparr>)"

section \<open>Caches\<close>

record evaluated_cache =
  ec_bindings_ref :: "agent_binding list option"
  ec_by_channel :: "(jstring, channel_bucket) jmap"
  ec_by_channel_account :: "(jstring, evaluated_binding list) jmap"
  ec_by_channel_account_index :: "(jstring, bindings_index) jmap"

record route_cache =
  rx_bindings_ref :: "agent_binding list option"
  rx_agents_ref :: "agent_entry list option"
  rx_session_ref :: "dm_scope option \<times> identity_links option"
  rx_by_key :: "(jstring, resolved_route) jmap"

record route_caches =
  ca_lookup :: "agent_lookup option"
  ca_bindings :: "evaluated_cache option"
  ca_routes :: "route_cache option"

definition no_caches :: route_caches where
  "no_caches = \<lparr>ca_lookup = None, ca_bindings = None, ca_routes = None\<rparr>"

definition max_evaluated_cache_keys :: nat where "max_evaluated_cache_keys = 2000"
definition max_resolved_route_cache_keys :: nat where "max_resolved_route_cache_keys = 4000"

definition resolve_agent_lookup_cache :: "routing_config \<Rightarrow> route_caches \<Rightarrow> agent_lookup \<times> route_caches" where
  "resolve_agent_lookup_cache cfg c =
     (let fresh = build_agent_lookup cfg; store = (fresh, c\<lparr>ca_lookup := Some fresh\<rparr>) in
      case ca_lookup c of None \<Rightarrow> store
      | Some existing \<Rightarrow> if ag_agents_ref existing = cf_agents cfg then (existing, c) else store)"

definition channel_account_key :: "jstring \<Rightarrow> jstring \<Rightarrow> jstring" where
  "channel_account_key channel account = channel @ [9] @ account"

definition current_evaluated_cache :: "routing_config \<Rightarrow> route_caches \<Rightarrow> evaluated_cache" where
  "current_evaluated_cache cfg c =
     (let fresh = \<lparr>ec_bindings_ref = cf_bindings cfg, ec_by_channel = build_evaluated_bindings_by_channel cfg,
                   ec_by_channel_account = [], ec_by_channel_account_index = []\<rparr>
      in case ca_bindings c of None \<Rightarrow> fresh
         | Some existing \<Rightarrow> if ec_bindings_ref existing = cf_bindings cfg then existing else fresh)"

definition evaluated_for ::
  "(jstring, channel_bucket) jmap \<Rightarrow> jstring \<Rightarrow> jstring \<Rightarrow> evaluated_binding list" where
  "evaluated_for by_channel channel account =
     (case map_of by_channel channel of None \<Rightarrow> merge_in_source_order [] []
      | Some b \<Rightarrow> merge_in_source_order (case map_of (cb_by_account b) account of None \<Rightarrow> [] | Some l \<Rightarrow> l) (cb_by_any_account b))"

definition get_evaluated_bindings ::
  "routing_config \<Rightarrow> jstring \<Rightarrow> jstring \<Rightarrow> route_caches \<Rightarrow> evaluated_binding list \<times> route_caches" where
  "get_evaluated_bindings cfg channel account c =
     (let cache = current_evaluated_cache cfg c; key = channel_account_key channel account in
      case map_of (ec_by_channel_account cache) key of
        Some hit \<Rightarrow> (hit, c\<lparr>ca_bindings := Some cache\<rparr>)
      | None \<Rightarrow>
          (let evaluated = evaluated_for (ec_by_channel cache) channel account;
               index = build_evaluated_bindings_index evaluated;
               full = cache\<lparr>ec_by_channel_account := map_put key evaluated (ec_by_channel_account cache),
                            ec_by_channel_account_index := map_put key index (ec_by_channel_account_index cache)\<rparr>;
               kept = (if max_evaluated_cache_keys < length (ec_by_channel_account full)
                       then full\<lparr>ec_by_channel_account := [(key, evaluated)], ec_by_channel_account_index := [(key, index)]\<rparr>
                       else full)
           in (evaluated, c\<lparr>ca_bindings := Some kept\<rparr>)))"

definition get_evaluated_index ::
  "routing_config \<Rightarrow> jstring \<Rightarrow> jstring \<Rightarrow> route_caches \<Rightarrow> bindings_index \<times> route_caches" where
  "get_evaluated_index cfg channel account c =
     (let (bindings, c1) = get_evaluated_bindings cfg channel account c; key = channel_account_key channel account in
      case ca_bindings c1 of None \<Rightarrow> (build_evaluated_bindings_index bindings, c1)
      | Some cache \<Rightarrow>
          (case map_of (ec_by_channel_account_index cache) key of
             Some found \<Rightarrow> (found, c1)
           | None \<Rightarrow> (let built = build_evaluated_bindings_index bindings
                     in (built, c1\<lparr>ca_bindings := Some (cache\<lparr>ec_by_channel_account_index :=
                           map_put key built (ec_by_channel_account_index cache)\<rparr>)\<rparr>))))"

definition session_ref :: "routing_config \<Rightarrow> dm_scope option \<times> identity_links option" where
  "session_ref cfg = (cf_dm_scope cfg, cf_identity_links cfg)"

definition resolve_route_cache :: "routing_config \<Rightarrow> route_caches \<Rightarrow> route_cache" where
  "resolve_route_cache cfg c =
     (let fresh = \<lparr>rx_bindings_ref = cf_bindings cfg, rx_agents_ref = cf_agents cfg, rx_session_ref = session_ref cfg, rx_by_key = []\<rparr>
      in case ca_routes c of None \<Rightarrow> fresh
         | Some existing \<Rightarrow>
             if rx_bindings_ref existing = cf_bindings cfg \<and> rx_agents_ref existing = cf_agents cfg \<and>
                rx_session_ref existing = session_ref cfg then existing else fresh)"

definition format_route_cache_peer :: "route_peer option \<Rightarrow> jstring" where
  "format_route_cache_peer peer =
     (case named_peer peer of None \<Rightarrow> js ''-'' | Some p \<Rightarrow> chat_name (rp_kind p) @ [58] @ rp_id p)"

text \<open>\<open>toSorted\<close> compares strings by their UTF-16 code units.\<close>

fun unit_order :: "jstring \<Rightarrow> jstring \<Rightarrow> int" where
  "unit_order [] [] = 0"
| "unit_order [] (d # ds) = -1"
| "unit_order (c # cs) [] = 1"
| "unit_order (c # cs) (d # ds) = (if c < d then -1 else if d < c then 1 else unit_order cs ds)"

definition format_role_ids :: "jstring list \<Rightarrow> jstring" where
  "format_role_ids roles =
     (case roles of
        [] \<Rightarrow> js ''-''
      | [r] \<Rightarrow> r
      | [a, b] \<Rightarrow> if unit_order a b \<le> 0 then a @ js '','' @ b else b @ js '','' @ a
      | _ \<Rightarrow> join (js '','') (sort_by unit_order roles))"

fun scope_name :: "dm_scope \<Rightarrow> jstring" where
  "scope_name MainScope = js ''main''"
| "scope_name PerPeer = js ''per-peer''"
| "scope_name PerChannelPeer = js ''per-channel-peer''"
| "scope_name PerAccountChannelPeer = js ''per-account-channel-peer''"

definition route_cache_key :: "route_query \<Rightarrow> dm_scope \<Rightarrow> jstring" where
  "route_cache_key y scope =
     join [9] [qy_channel y, qy_account_id y, format_route_cache_peer (qy_peer y), format_route_cache_peer (qy_parent_peer y),
       or_default (qy_guild_id y) (js ''-''), or_default (qy_team_id y) (js ''-''), format_role_ids (qy_member_role_ids y),
       scope_name scope]"

definition remember_route :: "jstring \<Rightarrow> resolved_route \<Rightarrow> route_cache \<Rightarrow> route_cache" where
  "remember_route key route r =
     (let m = map_put key route (rx_by_key r)
      in r\<lparr>rx_by_key := (if max_resolved_route_cache_keys < length m then [(key, route)] else m)\<rparr>)"

definition resolve_agent_route :: "bool \<Rightarrow> routing_config \<Rightarrow> route_request \<Rightarrow> route_caches \<Rightarrow> resolved_route \<times> route_caches" where
  "resolve_agent_route verbose cfg q c =
     (let y = route_query_of q;
          dm = (case cf_dm_scope cfg of None \<Rightarrow> MainScope | Some s \<Rightarrow> s);
          cached = (\<not> verbose \<and> cf_identity_links cfg = None);
          routes = resolve_route_cache cfg c;
          c1 = (if cached then c\<lparr>ca_routes := Some routes\<rparr> else c);
          key = route_cache_key y dm
      in case (if cached then map_of (rx_by_key routes) key else None) of
           Some route \<Rightarrow> (route, c1)
         | None \<Rightarrow>
             (let (bindings, c2) = get_evaluated_bindings cfg (qy_channel y) (qy_account_id y) c1;
                  (index, c3) = get_evaluated_index cfg (qy_channel y) (qy_account_id y) c2;
                  (lookup, c4) = resolve_agent_lookup_cache cfg c3;
                  route = (case first_tier (query_scope y) (route_tiers y index) of
                      Some (e, how) \<Rightarrow> choose_route cfg lookup y (ab_agent_id (eb_binding e)) how (ab_dm_scope (eb_binding e))
                    | None \<Rightarrow> choose_route cfg lookup y (resolve_default_agent_id cfg) ByDefault None)
              in (route, if cached then c4\<lparr>ca_routes := Some (remember_route key route routes)\<rparr> else c4)))"

end
