(* ===== verification/RoutingOrder.thy ===== *)
theory RoutingOrder
  imports AgentRouting
begin

text \<open>
  What the bindings of a configuration mean, without evaluated bindings, indexes and tiers
  (\<open>openclaw-main/src/routing/resolve-route.ts\<close>): every binding that applies to the channel and the
  account and matches the request has a rank, and the first binding of the best rank decides.
  The lemmas show that merging, indexing and searching tier by tier find exactly that binding.
\<close>

section \<open>Ranks\<close>

fun tier_rank :: "matched_by \<Rightarrow> nat" where
  "tier_rank ByPeer = 0" | "tier_rank ByParentPeer = 1" | "tier_rank ByPeerWildcard = 2"
| "tier_rank ByGuildRoles = 3" | "tier_rank ByGuild = 4" | "tier_rank ByTeam = 5"
| "tier_rank ByAccount = 6" | "tier_rank ByChannel = 7" | "tier_rank ByDefault = 8"

lemma tier_rank_inject [simp]: "tier_rank s = tier_rank t \<longleftrightarrow> s = t"
  by (cases s; cases t) simp_all

instantiation matched_by :: linorder
begin

definition less_eq_matched_by :: "matched_by \<Rightarrow> matched_by \<Rightarrow> bool" where
  "less_eq_matched_by s t \<longleftrightarrow> tier_rank s \<le> tier_rank t"

definition less_matched_by :: "matched_by \<Rightarrow> matched_by \<Rightarrow> bool" where
  "less_matched_by s t \<longleftrightarrow> tier_rank s < tier_rank t"

instance
  by standard (auto simp: less_eq_matched_by_def less_matched_by_def)

end

fun best_binding :: "('b \<Rightarrow> 'r option) \<Rightarrow> 'b list \<Rightarrow> ('b \<times> 'r::linorder) option" where
  "best_binding rank [] = None"
| "best_binding rank (b # bs) =
     (case rank b of None \<Rightarrow> best_binding rank bs
      | Some r \<Rightarrow> (case best_binding rank bs of None \<Rightarrow> Some (b, r)
                   | Some (b', r') \<Rightarrow> if r \<le> r' then Some (b, r) else Some (b', r')))"

definition peer_is :: "chat_type \<Rightarrow> jstring \<Rightarrow> route_peer option \<Rightarrow> bool" where
  "peer_is kind i peer \<longleftrightarrow> (case peer of None \<Rightarrow> False | Some p \<Rightarrow> peer_kind_matches kind (rp_kind p) \<and> rp_id p = i)"

definition kind_is :: "chat_type \<Rightarrow> route_peer option \<Rightarrow> bool" where
  "kind_is kind peer \<longleftrightarrow> (case peer of None \<Rightarrow> False | Some p \<Rightarrow> peer_kind_matches kind (rp_kind p))"

definition scope_ok :: "route_query \<Rightarrow> normalized_match \<Rightarrow> bool" where
  "scope_ok y m \<longleftrightarrow> route_binding_scope_matches (nm_guild_id m) (nm_team_id m) (nm_roles m) (query_scope y)"

definition match_tier :: "route_query \<Rightarrow> normalized_match \<Rightarrow> matched_by option" where
  "match_tier y m =
     (if \<not> scope_ok y m then None
      else case nm_peer m of
        InvalidPeer \<Rightarrow> None
      | ValidPeer kind i \<Rightarrow> if peer_is kind i (qy_peer y) then Some ByPeer
                            else if peer_is kind i (named_peer (qy_parent_peer y)) then Some ByParentPeer else None
      | WildcardPeer kind \<Rightarrow> if kind_is kind (qy_peer y) then Some ByPeerWildcard else None
      | NoPeer \<Rightarrow> Some (if nm_guild_id m \<noteq> None then (if nm_roles m \<noteq> None then ByGuildRoles else ByGuild)
                        else if nm_team_id m \<noteq> None then ByTeam
                        else if nm_account_pattern m \<noteq> js ''*'' then ByAccount else ByChannel))"

definition binding_tier :: "route_query \<Rightarrow> agent_binding \<Rightarrow> matched_by option" where
  "binding_tier y b = (case ab_match b of None \<Rightarrow> None | Some m \<Rightarrow> match_tier y (normalize_binding_match m))"

definition binding_channel :: "agent_binding \<Rightarrow> jstring" where
  "binding_channel b = (case ab_match b of None \<Rightarrow> [] | Some m \<Rightarrow> normalize_lowercase_string_or_empty (of_string (bm_channel m)))"

definition binding_pattern :: "agent_binding \<Rightarrow> jstring" where
  "binding_pattern b = (case ab_match b of None \<Rightarrow> [] | Some m \<Rightarrow> trimmed_id (bm_account_id m))"

definition binding_applies :: "jstring \<Rightarrow> jstring \<Rightarrow> agent_binding \<Rightarrow> bool" where
  "binding_applies channel account b \<longleftrightarrow>
     channel \<noteq> [] \<and> binding_channel b = channel \<and>
     (binding_pattern b = js ''*'' \<or> resolve_account_pattern_key (binding_pattern b) = account)"

definition reference_route :: "routing_config \<Rightarrow> route_query \<Rightarrow> resolved_route" where
  "reference_route cfg y =
     (case best_binding (binding_tier y) (filter (binding_applies (qy_channel y) (qy_account_id y)) (list_bindings cfg)) of
        Some (b, how) \<Rightarrow> choose_route cfg (build_agent_lookup cfg) y (ab_agent_id b) how (ab_dm_scope b)
      | None \<Rightarrow> choose_route cfg (build_agent_lookup cfg) y (resolve_default_agent_id cfg) ByDefault None)"

section \<open>The best binding\<close>

lemma find_filter: "List.find P (filter Q xs) = List.find (\<lambda>x. Q x \<and> P x) xs"
  by (induction xs) auto

lemma find_none_iff: "List.find P xs = None \<longleftrightarrow> (\<forall>x\<in>set xs. \<not> P x)"
  by (induction xs) auto

lemma find_eqI: "(\<And>x. x \<in> set xs \<Longrightarrow> P x = Q x) \<Longrightarrow> List.find P xs = List.find Q xs"
  by (induction xs) auto

lemma best_binding_none: "best_binding rank bs = None \<longleftrightarrow> (\<forall>b\<in>set bs. rank b = None)"
  by (induction bs) (auto split: option.splits)

lemma best_binding_is_first:
  "best_binding rank bs = Some (b, r) \<Longrightarrow>
   List.find (\<lambda>c. rank c = Some r) bs = Some b \<and> (\<forall>c\<in>set bs. \<forall>s. rank c = Some s \<longrightarrow> r \<le> s)"
proof (induction bs arbitrary: b r)
  case (Cons c cs)
  show ?case
  proof (cases "rank c")
    case None
    then show ?thesis using Cons by simp
  next
    case (Some s)
    show ?thesis
    proof (cases "best_binding rank cs")
      case None
      then show ?thesis using Some Cons.prems best_binding_none [of rank cs] by auto
    next
      case (Some p)
      obtain d t where p: "p = (d, t)" by (cases p)
      have ih: "List.find (\<lambda>e. rank e = Some t) cs = Some d" "\<And>e u. e \<in> set cs \<Longrightarrow> rank e = Some u \<Longrightarrow> t \<le> u"
        using Cons.IH [of d t] Some p by simp_all
      have b: "(if s \<le> t then (c, s) else (d, t)) = (b, r)" using Cons.prems \<open>rank c = Some s\<close> Some p by (simp split: if_splits)
      show ?thesis
      proof (cases "s \<le> t")
        case True
        then have "s \<le> u" if "e \<in> set cs" "rank e = Some u" for e u using ih(2) [OF that] by simp
        then show ?thesis using True b \<open>rank c = Some s\<close> by auto
      next
        case False
        then show ?thesis using b \<open>rank c = Some s\<close> ih by auto
      qed
    qed
  qed
qed simp

lemma best_binding_some:
  assumes "List.find (\<lambda>c. rank c = Some r) bs = Some b" "\<And>c s. c \<in> set bs \<Longrightarrow> rank c = Some s \<Longrightarrow> r \<le> s"
  shows "best_binding rank bs = Some (b, r)"
proof -
  have b: "b \<in> set bs" "rank b = Some r" using list_find_mem [OF assms(1)] by simp_all
  then have "\<not> (\<forall>c\<in>set bs. rank c = None)" by auto
  then obtain p where "best_binding rank bs = Some p" using best_binding_none [of rank bs] by (cases "best_binding rank bs") simp_all
  then obtain c s where c: "best_binding rank bs = Some (c, s)" by (cases p) simp
  have first: "List.find (\<lambda>d. rank d = Some s) bs = Some c" and low: "s \<le> r"
    using best_binding_is_first [OF c] b by simp_all
  have "rank c = Some s" "c \<in> set bs" using list_find_mem [OF first] by simp_all
  then have "s = r" using assms(2) low by fastforce
  then show ?thesis using first assms(1) c by simp
qed

lemma best_binding_map:
  "best_binding rank (map f bs) = map_option (\<lambda>(b, r). (f b, r)) (best_binding (\<lambda>b. rank (f b)) bs)"
  by (induction bs) (auto split: option.splits)

lemma best_binding_cong:
  "(\<And>b. b \<in> set bs \<Longrightarrow> rank b = rank' b) \<Longrightarrow> best_binding rank bs = best_binding rank' bs"
  by (induction bs) (auto split: option.splits)

text \<open>A search tier by tier finds the best binding when the tiers come in the order of their ranks.\<close>

definition tier_hit :: "binding_scope \<Rightarrow> route_tier \<Rightarrow> evaluated_binding option" where
  "tier_hit scope t =
     (if tr_enabled t
      then List.find (\<lambda>e. tr_predicate t (eb_match e) \<and> matches_binding_scope (eb_match e) (tr_scope_peer t) scope) (tr_candidates t)
      else None)"

lemma first_tier_step:
  "first_tier scope (t # ts) =
   (case tier_hit scope t of None \<Rightarrow> first_tier scope ts | Some e \<Rightarrow> Some (e, tr_matched_by t))"
  by (auto simp: tier_hit_def)

lemma first_tier_best:
  assumes hits: "\<And>t. t \<in> set ts \<Longrightarrow> tier_hit scope t = List.find (\<lambda>e. Q (tr_matched_by t) e) es"
    and sorted: "sorted (map tr_matched_by ts)"
    and rank: "\<And>e. e \<in> set es \<Longrightarrow> rank e = List.find (\<lambda>w. Q w e) (map tr_matched_by ts)"
  shows "first_tier scope ts = best_binding rank es"
  using assms
proof (induction ts arbitrary: rank)
  case Nil
  then have "\<forall>e\<in>set es. rank e = None" by simp
  then show ?case using best_binding_none [of rank es] by simp
next
  case (Cons t ts)
  let ?w = "tr_matched_by t"
  have hit: "tier_hit scope t = List.find (Q ?w) es" using Cons.prems(1) [of t] by simp
  show ?case
  proof (cases "List.find (Q ?w) es")
    case None
    then have none: "\<not> Q ?w e" if "e \<in> set es" for e using that by (simp add: find_none_iff)
    have "first_tier scope ts = best_binding rank es"
    proof (rule Cons.IH)
      show "tier_hit scope t' = List.find (Q (tr_matched_by t')) es" if "t' \<in> set ts" for t'
        using Cons.prems(1) that by simp
      show "sorted (map tr_matched_by ts)" using Cons.prems(2) by simp
      show "rank e = List.find (\<lambda>w. Q w e) (map tr_matched_by ts)" if "e \<in> set es" for e
        using Cons.prems(3) [OF that] none [OF that] by simp
    qed
    then show ?thesis by (simp add: first_tier_step hit None del: first_tier.simps)
  next
    case (Some e)
    have first: "List.find (\<lambda>c. rank c = Some ?w) es = Some e"
    proof -
      have "rank c = Some ?w \<longleftrightarrow> Q ?w c" if "c \<in> set es" for c
        using Cons.prems(3) [OF that] by (auto dest: list_find_mem)
      then show ?thesis using Some by (subst find_eqI [where Q = "Q ?w"]) auto
    qed
    have "?w \<le> s" if "c \<in> set es" "rank c = Some s" for c s
    proof -
      have "s \<in> set (map tr_matched_by (t # ts))" using Cons.prems(3) [OF that(1)] that(2) list_find_mem by metis
      then show ?thesis using Cons.prems(2) by auto
    qed
    then have "best_binding rank es = Some (e, ?w)" using first by (simp add: best_binding_some)
    then show ?thesis by (simp add: first_tier_step hit Some del: first_tier.simps)
  qed
qed

end
