(* ===== verification/RoutingIndex.thy ===== *)
theory RoutingIndex
  imports RoutingOrder
begin

text \<open>
  Evaluating, merging and indexing the bindings of a configuration
  (\<open>openclaw-main/src/routing/resolve-route.ts\<close>) loses none and keeps their order: each list a
  lookup is answered from is a filter of the bindings in the order of the configuration.
\<close>

section \<open>Evaluated bindings\<close>

definition at_map :: "('k, 'v list) jmap \<Rightarrow> 'k \<Rightarrow> 'v list" where
  "at_map m k = (case map_of m k of None \<Rightarrow> [] | Some vs \<Rightarrow> vs)"

lemma at_map_append: "at_map (append_to k v m) l = at_map m l @ (if k = l then [v] else [])"
  by (simp add: at_map_def append_to_def js_simps split: option.split)

text \<open>The evaluated bindings in the order of the configuration, whatever their channel.\<close>

fun numbered :: "nat \<Rightarrow> agent_binding list \<Rightarrow> evaluated_binding list" where
  "numbered n [] = []"
| "numbered n (b # bs) =
     (case ab_match b of None \<Rightarrow> numbered n bs
      | Some m \<Rightarrow> if binding_channel b = [] then numbered n bs
                  else \<lparr>eb_binding = b, eb_match = normalize_binding_match m, eb_order = n\<rparr> # numbered (Suc n) bs)"

definition bucket_any :: "(jstring, channel_bucket) jmap \<Rightarrow> jstring \<Rightarrow> evaluated_binding list" where
  "bucket_any m c = (case map_of m c of None \<Rightarrow> [] | Some b \<Rightarrow> cb_by_any_account b)"

definition bucket_account :: "(jstring, channel_bucket) jmap \<Rightarrow> jstring \<Rightarrow> jstring \<Rightarrow> evaluated_binding list" where
  "bucket_account m c a = (case map_of m c of None \<Rightarrow> [] | Some b \<Rightarrow> at_map (cb_by_account b) a)"

definition in_channel :: "jstring \<Rightarrow> evaluated_binding \<Rightarrow> bool" where
  "in_channel c e \<longleftrightarrow> binding_channel (eb_binding e) = c"

definition any_account :: "evaluated_binding \<Rightarrow> bool" where
  "any_account e \<longleftrightarrow> nm_account_pattern (eb_match e) = js ''*''"

definition for_account :: "jstring \<Rightarrow> evaluated_binding \<Rightarrow> bool" where
  "for_account a e \<longleftrightarrow> \<not> any_account e \<and> resolve_account_pattern_key (nm_account_pattern (eb_match e)) = a"

lemma numbered_order: "e \<in> set (numbered n bs) \<Longrightarrow> n \<le> eb_order e"
proof (induction bs arbitrary: n)
  case (Cons b bs)
  then show ?case by (auto split: option.splits if_splits dest: Cons.IH Suc_leD)
qed simp

lemma numbered_sorted: "sorted_wrt (\<lambda>d e. eb_order d < eb_order e) (numbered n bs)"
  by (induction bs arbitrary: n) (auto split: option.split dest!: numbered_order)

lemma numbered_match: "e \<in> set (numbered n bs) \<Longrightarrow>
  \<exists>m. ab_match (eb_binding e) = Some m \<and> eb_match e = normalize_binding_match m \<and> binding_channel (eb_binding e) \<noteq> []"
  by (induction bs arbitrary: n) (auto split: option.splits if_splits)

lemma numbered_bindings:
  "map eb_binding (numbered n bs) = filter (\<lambda>b. ab_match b \<noteq> None \<and> binding_channel b \<noteq> []) bs"
  by (induction bs arbitrary: n) (auto split: option.split)

lemma evaluate_binding_step:
  fixes n :: nat
  assumes "ab_match b = Some m" "binding_channel b \<noteq> []"
  defines "e \<equiv> \<lparr>eb_binding = b, eb_match = normalize_binding_match m, eb_order = n\<rparr>"
  shows "snd (evaluate_binding b (t, n)) = Suc n"
    and "bucket_any (fst (evaluate_binding b (t, n))) c =
         bucket_any t c @ (if in_channel c e \<and> any_account e then [e] else [])"
    and "bucket_account (fst (evaluate_binding b (t, n))) c a =
         bucket_account t c a @ (if in_channel c e \<and> for_account a e then [e] else [])"
proof -
  have ch: "normalize_lowercase_string_or_empty (of_string (bm_channel m)) = binding_channel b"
    using assms(1) by (simp add: binding_channel_def)
  have eb: "eb_match e = normalize_binding_match m" "eb_binding e = b" by (simp_all add: e_def)
  have e: "\<lparr>eb_binding = b, eb_match = normalize_binding_match m, eb_order = n\<rparr> = e" by (simp add: e_def)
  note defs = evaluate_binding_def Let_def assms(1) ch e
  show "snd (evaluate_binding b (t, n)) = Suc n" using assms(2) by (simp add: defs)
  have c: "in_channel c e \<longleftrightarrow> c = binding_channel b" by (auto simp: in_channel_def eb)
  have nil: "at_map ([] :: (jstring, evaluated_binding list) jmap) a = []" by (simp add: at_map_def)
  show "bucket_any (fst (evaluate_binding b (t, n))) c =
        bucket_any t c @ (if in_channel c e \<and> any_account e then [e] else [])"
    using assms(2) unfolding c
    by (cases "map_of t (binding_channel b)") (auto simp: defs bucket_any_def any_account_def eb js_simps)
  show "bucket_account (fst (evaluate_binding b (t, n))) c a =
        bucket_account t c a @ (if in_channel c e \<and> for_account a e then [e] else [])"
    using assms(2) unfolding c
    by (cases "map_of t (binding_channel b)")
       (auto simp: defs bucket_account_def any_account_def for_account_def eb js_simps at_map_append nil)
qed

lemma evaluate_binding_skip:
  "ab_match b = None \<or> binding_channel b = [] \<Longrightarrow> evaluate_binding b acc = acc"
  by (auto simp: evaluate_binding_def binding_channel_def Let_def split: option.splits prod.splits)

lemma evaluated_buckets:
  "bucket_any (fst (fold evaluate_binding bs (t, n))) c =
     bucket_any t c @ filter (\<lambda>e. in_channel c e \<and> any_account e) (numbered n bs)"
  "bucket_account (fst (fold evaluate_binding bs (t, n))) c a =
     bucket_account t c a @ filter (\<lambda>e. in_channel c e \<and> for_account a e) (numbered n bs)"
proof (induction bs arbitrary: t n)
  case (Cons b bs)
  {
    case 1
    show ?case
    proof (cases "ab_match b = None \<or> binding_channel b = []")
      case True
      then show ?thesis using Cons.IH(1) [of t n] by (auto simp: evaluate_binding_skip split: option.split)
    next
      case False
      then obtain m where m: "ab_match b = Some m" "binding_channel b \<noteq> []" by auto
      note step = evaluate_binding_step [OF m, of t n]
      have "evaluate_binding b (t, n) = (fst (evaluate_binding b (t, n)), Suc n)" using step(1) by (metis prod.collapse)
      then show ?thesis using Cons.IH(1) [of "fst (evaluate_binding b (t, n))" "Suc n"] step(2) m by simp
    qed
  next
    case 2
    show ?case
    proof (cases "ab_match b = None \<or> binding_channel b = []")
      case True
      then show ?thesis using Cons.IH(2) [of t n] by (auto simp: evaluate_binding_skip split: option.split)
    next
      case False
      then obtain m where m: "ab_match b = Some m" "binding_channel b \<noteq> []" by auto
      note step = evaluate_binding_step [OF m, of t n]
      have "evaluate_binding b (t, n) = (fst (evaluate_binding b (t, n)), Suc n)" using step(1) by (metis prod.collapse)
      then show ?thesis using Cons.IH(2) [of "fst (evaluate_binding b (t, n))" "Suc n"] step(3) m by simp
    qed
  }
qed simp_all

text \<open>The merge keeps the order of the configuration.\<close>

lemma merge_Nil2 [simp]: "merge_in_source_order as [] = as"
  by (cases as) simp_all

lemma merge_filters:
  assumes "sorted_wrt (\<lambda>d e. eb_order d < eb_order e) es" "\<And>e. e \<in> set es \<Longrightarrow> \<not> (P e \<and> Q e)"
  shows "merge_in_source_order (filter P es) (filter Q es) = filter (\<lambda>e. P e \<or> Q e) es"
  using assms
proof (induction es)
  case (Cons e es)
  have ih: "merge_in_source_order (filter P es) (filter Q es) = filter (\<lambda>e. P e \<or> Q e) es" using Cons by simp
  have later: "eb_order e < eb_order d" if "d \<in> set es" for d using Cons.prems(1) that by simp
  have not_both: "\<not> (P e \<and> Q e)" using Cons.prems(2) [of e] by simp
  have head: "eb_order e < eb_order d" if "filter R es = d # ds" for R d ds
  proof -
    have "d \<in> set (filter R es)" using that by simp
    then show ?thesis using later by simp
  qed
  consider "P e" "\<not> Q e" | "Q e" "\<not> P e" | "\<not> P e" "\<not> Q e" using not_both by blast
  then show ?case
  proof cases
    case 1
    then show ?thesis using ih head [of Q] by (cases "filter Q es") (simp_all add: less_imp_le)
  next
    case 2
    then show ?thesis using ih head [of P] by (cases "filter P es") (simp_all add: not_le)
  qed (use ih in simp)
qed simp

definition evaluated_applies :: "jstring \<Rightarrow> jstring \<Rightarrow> evaluated_binding \<Rightarrow> bool" where
  "evaluated_applies c a e \<longleftrightarrow> in_channel c e \<and> (for_account a e \<or> any_account e)"

lemma evaluated_for_eq:
  "evaluated_for (build_evaluated_bindings_by_channel cfg) c a =
   filter (evaluated_applies c a) (numbered 0 (list_bindings cfg))"
proof -
  let ?m = "build_evaluated_bindings_by_channel cfg"
  have buckets: "bucket_any ?m c = filter (\<lambda>e. in_channel c e \<and> any_account e) (numbered 0 (list_bindings cfg))"
    "bucket_account ?m c a = filter (\<lambda>e. in_channel c e \<and> for_account a e) (numbered 0 (list_bindings cfg))"
    using evaluated_buckets(1) [of "list_bindings cfg" "[]" 0 c] evaluated_buckets(2) [of "list_bindings cfg" "[]" 0 c a]
    by (simp_all add: build_evaluated_bindings_by_channel_def bucket_any_def bucket_account_def)
  have "evaluated_for ?m c a = merge_in_source_order (bucket_account ?m c a) (bucket_any ?m c)"
    by (simp add: evaluated_for_def bucket_any_def bucket_account_def at_map_def split: option.split)
  also have "\<dots> = filter (\<lambda>e. (in_channel c e \<and> for_account a e) \<or> (in_channel c e \<and> any_account e)) (numbered 0 (list_bindings cfg))"
    unfolding buckets by (rule merge_filters) (auto simp: numbered_sorted for_account_def)
  also have "\<dots> = filter (evaluated_applies c a) (numbered 0 (list_bindings cfg))"
    by (rule filter_cong) (auto simp: evaluated_applies_def)
  finally show ?thesis .
qed

lemma evaluated_distinct: "distinct (evaluated_for (build_evaluated_bindings_by_channel cfg) c a)"
proof -
  have "distinct es" if "sorted_wrt (\<lambda>d e. eb_order d < eb_order e) es" for es using that by (induction es) auto
  from this [OF numbered_sorted] show ?thesis by (simp add: evaluated_for_eq)
qed

lemma evaluated_bindings:
  "map eb_binding (evaluated_for (build_evaluated_bindings_by_channel cfg) c a) =
   filter (binding_applies c a) (list_bindings cfg)"
proof -
  let ?es = "numbered 0 (list_bindings cfg)"
  have "evaluated_applies c a e = binding_applies c a (eb_binding e)" if e: "e \<in> set ?es" for e
  proof -
    obtain m where "ab_match (eb_binding e) = Some m" "eb_match e = normalize_binding_match m" "binding_channel (eb_binding e) \<noteq> []"
      using numbered_match [OF e] by auto
    then show ?thesis
      by (auto simp: evaluated_applies_def binding_applies_def in_channel_def for_account_def any_account_def
          binding_pattern_def normalize_binding_match_def)
  qed
  then have "map eb_binding (filter (evaluated_applies c a) ?es) = map eb_binding (filter (binding_applies c a \<circ> eb_binding) ?es)"
    by (metis (mono_tags, lifting) comp_apply filter_cong)
  also have "\<dots> = filter (binding_applies c a) (map eb_binding ?es)" by (simp add: filter_map)
  also have "\<dots> = filter (binding_applies c a) (list_bindings cfg)"
    unfolding numbered_bindings filter_filter
    by (rule filter_cong) (auto simp: binding_applies_def binding_channel_def split: option.splits)
  finally show ?thesis by (simp add: evaluated_for_eq)
qed

section \<open>The index\<close>

datatype index_slot = PeerSlot chat_type jstring | WildcardSlot | GuildRolesSlot jstring | GuildSlot jstring
  | TeamSlot jstring | AccountSlot | ChannelSlot

text \<open>The list of the index that takes a binding.\<close>

definition slot_of :: "normalized_match \<Rightarrow> index_slot" where
  "slot_of m =
     (case nm_peer m of
        ValidPeer kind i \<Rightarrow> PeerSlot kind i
      | WildcardPeer kind \<Rightarrow> WildcardSlot
      | _ \<Rightarrow> (case (nm_guild_id m, nm_roles m) of
               (Some g, Some rs) \<Rightarrow> GuildRolesSlot g
             | (Some g, None) \<Rightarrow> GuildSlot g
             | (None, _) \<Rightarrow> (case nm_team_id m of Some t \<Rightarrow> TeamSlot t
                            | None \<Rightarrow> if nm_account_pattern m \<noteq> js ''*'' then AccountSlot else ChannelSlot)))"

definition constraints_ok :: "normalized_match \<Rightarrow> bool" where
  "constraints_ok m \<longleftrightarrow> nm_guild_id m \<noteq> Some [] \<and> nm_team_id m \<noteq> Some []"

lemma normalized_constraints_ok [simp]: "constraints_ok (normalize_binding_match m)"
  by (simp add: constraints_ok_def normalize_binding_match_def nonempty_def)

lemma evaluated_constraints_ok:
  "e \<in> set (evaluated_for (build_evaluated_bindings_by_channel cfg) c a) \<Longrightarrow>
   constraints_ok (eb_match e) \<and> binding_tier y (eb_binding e) = match_tier y (eb_match e)"
  using numbered_match [of e 0 "list_bindings cfg"] by (auto simp: evaluated_for_eq binding_tier_def)

definition peer_slot_has :: "jstring \<Rightarrow> index_slot \<Rightarrow> bool" where
  "peer_slot_has k s \<longleftrightarrow> (case s of PeerSlot kind i \<Rightarrow> k \<in> set (peer_lookup_keys kind i) | _ \<Rightarrow> False)"

lemma peer_keys:
  "k \<in> set (peer_lookup_keys kind i) \<Longrightarrow> k \<noteq> []" "distinct (peer_lookup_keys kind i)"
  by (cases kind; auto simp: peer_lookup_keys_def js_def)+

lemma at_map_push_all:
  "distinct ks \<Longrightarrow> [] \<notin> set ks \<Longrightarrow>
   at_map (fold (\<lambda>k. push_to_index_map k e) ks m) l = at_map m l @ (if l \<in> set ks then [e] else [])"
  by (induction ks arbitrary: m) (auto simp: push_to_index_map_def at_map_append)

lemma at_map_push_peer:
  "at_map (fold (\<lambda>k. push_to_index_map k e) (peer_lookup_keys kind i) m) l =
   at_map m l @ (if l \<in> set (peer_lookup_keys kind i) then [e] else [])"
  by (rule at_map_push_all [OF peer_keys(2)]) (use peer_keys(1) in blast)

lemma add_to_index_slots:
  assumes "constraints_ok (eb_match e)"
  defines "s \<equiv> slot_of (eb_match e)"
  shows "at_map (bx_by_peer (add_to_index e x)) k = at_map (bx_by_peer x) k @ (if peer_slot_has k s then [e] else [])"
    and "bx_by_peer_wildcard (add_to_index e x) = bx_by_peer_wildcard x @ (if s = WildcardSlot then [e] else [])"
    and "at_map (bx_by_guild_with_roles (add_to_index e x)) g =
         at_map (bx_by_guild_with_roles x) g @ (if s = GuildRolesSlot g then [e] else [])"
    and "at_map (bx_by_guild (add_to_index e x)) g = at_map (bx_by_guild x) g @ (if s = GuildSlot g then [e] else [])"
    and "at_map (bx_by_team (add_to_index e x)) t = at_map (bx_by_team x) t @ (if s = TeamSlot t then [e] else [])"
    and "bx_by_account (add_to_index e x) = bx_by_account x @ (if s = AccountSlot then [e] else [])"
    and "bx_by_channel (add_to_index e x) = bx_by_channel x @ (if s = ChannelSlot then [e] else [])"
  using assms(1) unfolding s_def
  by (auto simp: add_to_index_def slot_of_def Let_def constraints_ok_def push_to_index_map_def at_map_append
      peer_slot_has_def at_map_push_peer split: peer_constraint.split option.split)

lemma index_slots:
  assumes "\<And>e. e \<in> set bs \<Longrightarrow> constraints_ok (eb_match e)"
  shows "at_map (bx_by_peer (fold add_to_index bs x)) k =
         at_map (bx_by_peer x) k @ filter (\<lambda>e. peer_slot_has k (slot_of (eb_match e))) bs"
    and "bx_by_peer_wildcard (fold add_to_index bs x) =
         bx_by_peer_wildcard x @ filter (\<lambda>e. slot_of (eb_match e) = WildcardSlot) bs"
    and "at_map (bx_by_guild_with_roles (fold add_to_index bs x)) g =
         at_map (bx_by_guild_with_roles x) g @ filter (\<lambda>e. slot_of (eb_match e) = GuildRolesSlot g) bs"
    and "at_map (bx_by_guild (fold add_to_index bs x)) g =
         at_map (bx_by_guild x) g @ filter (\<lambda>e. slot_of (eb_match e) = GuildSlot g) bs"
    and "at_map (bx_by_team (fold add_to_index bs x)) t =
         at_map (bx_by_team x) t @ filter (\<lambda>e. slot_of (eb_match e) = TeamSlot t) bs"
    and "bx_by_account (fold add_to_index bs x) = bx_by_account x @ filter (\<lambda>e. slot_of (eb_match e) = AccountSlot) bs"
    and "bx_by_channel (fold add_to_index bs x) = bx_by_channel x @ filter (\<lambda>e. slot_of (eb_match e) = ChannelSlot) bs"
  using assms by (induction bs arbitrary: x) (simp_all add: add_to_index_slots)

lemma index_empty:
  "at_map (bx_by_peer empty_bindings_index) k = []" "bx_by_peer_wildcard empty_bindings_index = []"
  "at_map (bx_by_guild_with_roles empty_bindings_index) g = []" "at_map (bx_by_guild empty_bindings_index) g = []"
  "at_map (bx_by_team empty_bindings_index) t = []" "bx_by_account empty_bindings_index = []"
  "bx_by_channel empty_bindings_index = []"
  by (simp_all add: empty_bindings_index_def at_map_def)

lemma collect_peer:
  assumes "\<And>e. e \<in> set bs \<Longrightarrow> constraints_ok (eb_match e)" "distinct bs"
  shows "collect_peer_indexed_bindings (build_evaluated_bindings_index bs) (Some p) =
         filter (\<lambda>e. case nm_peer (eb_match e) of ValidPeer kind i \<Rightarrow> peer_is kind i (Some p) | _ \<Rightarrow> False) bs"
proof -
  let ?x = "build_evaluated_bindings_index bs"
  let ?l = "filter (\<lambda>e. case nm_peer (eb_match e) of ValidPeer kind i \<Rightarrow> peer_is kind i (Some p) | _ \<Rightarrow> False) bs"
  have at: "(case map_of (bx_by_peer ?x) k of None \<Rightarrow> [] | Some ms \<Rightarrow> ms) = ?l"
    if k: "k \<in> set (peer_lookup_keys (rp_kind p) (rp_id p))" for k
  proof -
    have same: "peer_slot_has k (slot_of m) = (case nm_peer m of ValidPeer kind i \<Rightarrow> peer_is kind i (Some p) | _ \<Rightarrow> False)" for m
      using k by (cases "nm_peer m"; cases "rp_kind p")
        (auto simp: peer_slot_has_def slot_of_def peer_is_def peer_kind_matches_def peer_lookup_keys_def js_def
          split: option.split chat_type.splits)
    have "at_map (bx_by_peer ?x) k = filter (\<lambda>e. peer_slot_has k (slot_of (eb_match e))) bs"
      unfolding build_evaluated_bindings_index_def
      using index_slots(1) [where bs = bs and x = empty_bindings_index and k = k] assms(1) by (simp add: index_empty)
    then show ?thesis by (simp add: at_map_def same)
  qed
  have nub: "dedup_from s l = s @ l" if "distinct (s @ l)" for s l :: "evaluated_binding list"
    using that by (induction l arbitrary: s) auto
  have again: "dedup_from s l = s" if "set l \<subseteq> set s" for s l :: "evaluated_binding list"
    using that by (induction l arbitrary: s) auto
  have app: "dedup_from s (l @ l') = dedup_from (dedup_from s l) l'" for s l l' :: "evaluated_binding list"
    by (induction l arbitrary: s) simp_all
  have "dedup (?l @ ?l) = ?l" "dedup ?l = ?l" using nub [of "[]" ?l] assms(2) again by (simp_all add: app)
  moreover have "collect_peer_indexed_bindings ?x (Some p) =
      dedup (concat (map (\<lambda>k. ?l) (peer_lookup_keys (rp_kind p) (rp_id p))))"
    using at by (simp add: collect_peer_indexed_bindings_def cong: map_cong)
  ultimately show ?thesis by (cases "rp_kind p") (simp_all add: peer_lookup_keys_def)
qed

end
