(* ===== verification/RoutingSearch.thy ===== *)
theory RoutingSearch
  imports RoutingIndex
begin

text \<open>
  The search of \<open>resolveAgentRoute\<close> tier by tier (\<open>openclaw-main/src/routing/resolve-route.ts\<close>)
  finds the first binding of the best rank: each tier tries exactly the bindings that qualify for it.
\<close>

section \<open>The search finds the best binding\<close>

definition clean_query :: "route_query \<Rightarrow> bool" where
  "clean_query y \<longleftrightarrow> trim (qy_guild_id y) = qy_guild_id y \<and> trim (qy_team_id y) = qy_team_id y"

lemma route_query_clean [simp]: "clean_query (route_query_of q)"
  by (simp add: clean_query_def route_query_of_def trimmed_id_def)

definition qualifies :: "route_query \<Rightarrow> matched_by \<Rightarrow> normalized_match \<Rightarrow> bool" where
  "qualifies y w m \<longleftrightarrow> scope_ok y m \<and>
     (case w of
        ByPeer \<Rightarrow> (case nm_peer m of ValidPeer kind i \<Rightarrow> peer_is kind i (qy_peer y) | _ \<Rightarrow> False)
      | ByParentPeer \<Rightarrow> (case nm_peer m of ValidPeer kind i \<Rightarrow> peer_is kind i (named_peer (qy_parent_peer y)) | _ \<Rightarrow> False)
      | ByPeerWildcard \<Rightarrow> (case nm_peer m of WildcardPeer kind \<Rightarrow> kind_is kind (qy_peer y) | _ \<Rightarrow> False)
      | ByGuildRoles \<Rightarrow> nm_peer m = NoPeer \<and> nm_guild_id m \<noteq> None \<and> nm_roles m \<noteq> None
      | ByGuild \<Rightarrow> nm_peer m = NoPeer \<and> nm_guild_id m \<noteq> None \<and> nm_roles m = None
      | ByTeam \<Rightarrow> nm_peer m = NoPeer \<and> nm_guild_id m = None \<and> nm_team_id m \<noteq> None
      | ByAccount \<Rightarrow> nm_peer m = NoPeer \<and> slot_of m = AccountSlot
      | ByChannel \<Rightarrow> nm_peer m = NoPeer \<and> slot_of m = ChannelSlot
      | ByDefault \<Rightarrow> False)"

definition tier_order :: "matched_by list" where
  "tier_order = [ByPeer, ByParentPeer, ByPeerWildcard, ByGuildRoles, ByGuild, ByTeam, ByAccount, ByChannel]"

lemma match_tier_order: "match_tier y m = List.find (\<lambda>w. qualifies y w m) tier_order"
  by (cases "nm_peer m") (auto simp: match_tier_def qualifies_def tier_order_def slot_of_def split: option.split)

lemma tiers_in_order: "map tr_matched_by (route_tiers y x) = tier_order" "sorted tier_order"
  by (simp_all add: route_tiers_def tier_order_def Let_def less_eq_matched_by_def)

lemma scope_guild:
  assumes "clean_query y" "scope_ok y m" "constraints_ok m"
  shows "nm_guild_id m = Some g \<Longrightarrow> g = qy_guild_id y \<and> g \<noteq> []"
    and "nm_team_id m = Some t \<Longrightarrow> t = qy_team_id y \<and> t \<noteq> []"
    and "nm_roles m = Some rs \<Longrightarrow> rs = [] \<or> qy_member_role_ids y \<noteq> []"
proof -
  have blank: "trim [] = []" by (simp add: trim_def)
  show "nm_guild_id m = Some g \<Longrightarrow> g = qy_guild_id y \<and> g \<noteq> []"
    using assms by (auto simp: scope_ok_def route_binding_scope_matches_def query_scope_def scope_id_matches_def blank or_empty_def
        clean_query_def constraints_ok_def Let_def split: if_splits)
  show "nm_team_id m = Some t \<Longrightarrow> t = qy_team_id y \<and> t \<noteq> []"
    using assms by (auto simp: scope_ok_def route_binding_scope_matches_def query_scope_def scope_id_matches_def blank or_empty_def
        clean_query_def constraints_ok_def Let_def split: if_splits)
  show "nm_roles m = Some rs \<Longrightarrow> rs = [] \<or> qy_member_role_ids y \<noteq> []"
    using assms(2) by (auto simp: scope_ok_def route_binding_scope_matches_def query_scope_def normalize_route_binding_roles_def
        has_any_route_binding_role_def list_ex_iff Let_def split: if_splits)
qed

lemma scope_matches:
  "matches_binding_scope m peer (query_scope y) \<longleftrightarrow>
   scope_ok y m \<and> (case nm_peer m of InvalidPeer \<Rightarrow> False | NoPeer \<Rightarrow> True
                   | ValidPeer kind i \<Rightarrow> peer_is kind i peer | WildcardPeer kind \<Rightarrow> kind_is kind peer)"
  by (auto simp: matches_binding_scope_def scope_ok_def peer_is_def kind_is_def
      split: peer_constraint.split option.split)

definition roles_ok :: "normalized_match \<Rightarrow> bool" where
  "roles_ok m \<longleftrightarrow> constraints_ok m \<and> nm_roles m \<noteq> Some []"

lemma normalized_roles_ok [simp]: "roles_ok (normalize_binding_match m)"
  by (simp add: roles_ok_def) (simp add: normalize_binding_match_def normalize_route_binding_roles_def split: option.split)

lemma peer_none [simp]: "\<not> peer_is kind i None" "\<not> kind_is kind None"
  by (simp_all add: peer_is_def kind_is_def)

lemma tier_hit_filter:
  assumes "tr_candidates t = filter C bs"
    and "\<And>e. e \<in> set bs \<Longrightarrow> tr_enabled t \<Longrightarrow>
      C e \<and> tr_predicate t (eb_match e) \<and> matches_binding_scope (eb_match e) (tr_scope_peer t) scope \<longleftrightarrow> Q e"
    and "\<And>e. e \<in> set bs \<Longrightarrow> Q e \<Longrightarrow> tr_enabled t"
  shows "tier_hit scope t = List.find Q bs"
proof (cases "tr_enabled t")
  case True
  then show ?thesis using assms(1,2) by (auto simp: tier_hit_def find_filter intro: find_eqI)
next
  case False
  then have "List.find Q bs = None" using assms(3) by (auto simp: find_none_iff)
  then show ?thesis using False by (simp add: tier_hit_def)
qed

lemma peer_some: "peer_is kind i p \<Longrightarrow> \<exists>q. p = Some q" "kind_is kind p \<Longrightarrow> \<exists>q. p = Some q"
  by (cases p; simp)+

lemma tier_hits:
  assumes y: "clean_query y" and bs: "\<And>e. e \<in> set bs \<Longrightarrow> roles_ok (eb_match e)" and dist: "distinct bs"
    and t: "t \<in> set (route_tiers y (build_evaluated_bindings_index bs))"
  shows "tier_hit (query_scope y) t = List.find (\<lambda>e. qualifies y (tr_matched_by t) (eb_match e)) bs"
proof -
  let ?x = "build_evaluated_bindings_index bs"
  have ok: "\<And>e. e \<in> set bs \<Longrightarrow> constraints_ok (eb_match e)" using bs by (simp add: roles_ok_def)
  note slots = index_slots [where bs = bs and x = empty_bindings_index, OF ok, unfolded index_empty append_Nil,
      folded build_evaluated_bindings_index_def]
  have at: "at_key m k = (if k = [] then [] else at_map m k)" for m k by (simp add: at_key_def at_map_def)
  have guild: "nm_guild_id (eb_match e) = Some g \<Longrightarrow> qy_guild_id y = g \<and> g \<noteq> []"
    and team: "nm_team_id (eb_match e) = Some t \<Longrightarrow> qy_team_id y = t \<and> t \<noteq> []"
    and roles: "nm_roles (eb_match e) = Some rs \<Longrightarrow> qy_member_role_ids y \<noteq> []"
    if "e \<in> set bs" "scope_ok y (eb_match e)" for e g t rs
    using scope_guild [OF y that(2) ok [OF that(1)]] bs [OF that(1)] by (auto simp: roles_ok_def)
  have peer: "collect_peer_indexed_bindings ?x p =
      filter (\<lambda>e. case nm_peer (eb_match e) of ValidPeer kind i \<Rightarrow> peer_is kind i p | _ \<Rightarrow> False) bs" for p
  proof (cases p)
    case None
    have "filter (\<lambda>e. case nm_peer (eb_match e) of ValidPeer kind i \<Rightarrow> peer_is kind i None | _ \<Rightarrow> False) bs = []"
      by (auto simp: filter_empty_conv split: peer_constraint.split)
    then show ?thesis unfolding None by (simp add: collect_peer_indexed_bindings_def)
  next
    case (Some q)
    show ?thesis unfolding Some using ok dist by (rule collect_peer)
  qed
  have named: "peer_is kind i p" if "peer_is kind i (named_peer p)" for kind i p
    using that by (auto simp: named_peer_def split: option.splits if_splits)
  let ?cand = "\<lambda>w e. case w of
      ByPeer \<Rightarrow> (case nm_peer (eb_match e) of ValidPeer kind i \<Rightarrow> peer_is kind i (qy_peer y) | _ \<Rightarrow> False)
    | ByParentPeer \<Rightarrow> (case nm_peer (eb_match e) of ValidPeer kind i \<Rightarrow> peer_is kind i (qy_parent_peer y) | _ \<Rightarrow> False)
    | ByPeerWildcard \<Rightarrow> slot_of (eb_match e) = WildcardSlot
    | ByGuildRoles \<Rightarrow> qy_guild_id y \<noteq> [] \<and> slot_of (eb_match e) = GuildRolesSlot (qy_guild_id y)
    | ByGuild \<Rightarrow> qy_guild_id y \<noteq> [] \<and> slot_of (eb_match e) = GuildSlot (qy_guild_id y)
    | ByTeam \<Rightarrow> qy_team_id y \<noteq> [] \<and> slot_of (eb_match e) = TeamSlot (qy_team_id y)
    | ByAccount \<Rightarrow> slot_of (eb_match e) = AccountSlot
    | ByChannel \<Rightarrow> slot_of (eb_match e) = ChannelSlot
    | ByDefault \<Rightarrow> False"
  note t_def = t [unfolded route_tiers_def Let_def list.set insert_iff empty_iff]
  show ?thesis
  proof (rule tier_hit_filter [where C = "?cand (tr_matched_by t)"])
    show "tr_candidates t = filter (?cand (tr_matched_by t)) bs"
      using t_def by (elim disjE) (simp_all add: peer slots at)
  next
    fix e
    assume e: "e \<in> set bs"
    show "?cand (tr_matched_by t) e \<and> tr_predicate t (eb_match e) \<and> matches_binding_scope (eb_match e) (tr_scope_peer t) (query_scope y)
        \<longleftrightarrow> qualifies y (tr_matched_by t) (eb_match e)"
      if on: "tr_enabled t"
      using t_def on guild [OF e] team [OF e] named
      by (elim disjE) (simp_all add: scope_matches qualifies_def slot_of_def split: peer_constraint.split option.split; blast)+
    show "tr_enabled t" if "qualifies y (tr_matched_by t) (eb_match e)"
      using t_def that guild [OF e] team [OF e] roles [OF e]
      by (elim disjE) (auto simp: qualifies_def split: peer_constraint.splits dest: peer_some)
  qed
qed

lemma search_reference:
  assumes "clean_query y"
  shows "(case first_tier (query_scope y) (route_tiers y (build_evaluated_bindings_index
             (evaluated_for (build_evaluated_bindings_by_channel cfg) (qy_channel y) (qy_account_id y)))) of
            Some (e, how) \<Rightarrow> choose_route cfg (build_agent_lookup cfg) y (ab_agent_id (eb_binding e)) how (ab_dm_scope (eb_binding e))
          | None \<Rightarrow> choose_route cfg (build_agent_lookup cfg) y (resolve_default_agent_id cfg) ByDefault None)
         = reference_route cfg y"
proof -
  let ?bs = "evaluated_for (build_evaluated_bindings_by_channel cfg) (qy_channel y) (qy_account_id y)"
  have ok: "roles_ok (eb_match e)" if "e \<in> set ?bs" for e
    using that numbered_match [of e 0 "list_bindings cfg"] by (auto simp: evaluated_for_eq)
  have "first_tier (query_scope y) (route_tiers y (build_evaluated_bindings_index ?bs))
      = best_binding (\<lambda>e. match_tier y (eb_match e)) ?bs"
  proof (rule first_tier_best [where Q = "\<lambda>w e. qualifies y w (eb_match e)"])
    show "tier_hit (query_scope y) t = List.find (\<lambda>e. qualifies y (tr_matched_by t) (eb_match e)) ?bs"
      if "t \<in> set (route_tiers y (build_evaluated_bindings_index ?bs))" for t
      using assms ok evaluated_distinct that by (rule tier_hits)
  qed (simp_all add: tiers_in_order match_tier_order)
  also have "\<dots> = best_binding (\<lambda>e. binding_tier y (eb_binding e)) ?bs"
    by (rule best_binding_cong) (simp add: evaluated_constraints_ok)
  finally have search: "first_tier (query_scope y) (route_tiers y (build_evaluated_bindings_index ?bs))
      = best_binding (\<lambda>e. binding_tier y (eb_binding e)) ?bs" .
  have "best_binding (binding_tier y) (filter (binding_applies (qy_channel y) (qy_account_id y)) (list_bindings cfg))
      = map_option (\<lambda>(e, how). (eb_binding e, how)) (best_binding (\<lambda>e. binding_tier y (eb_binding e)) ?bs)"
    unfolding evaluated_bindings [symmetric] by (rule best_binding_map)
  then show ?thesis unfolding reference_route_def search
    by (cases "best_binding (\<lambda>e. binding_tier y (eb_binding e)) ?bs") auto
qed

end
