(* ===== verification/SessionKeyLaws.thy ===== *)
theory SessionKeyLaws
  imports SessionKeys
begin

text \<open>
  What the parts of session keys look like (\<open>openclaw-main/src/routing/session-key.ts\<close>), which
  conversations share a key, and what is read back from a key.
\<close>

section \<open>Separators\<close>

lemma append_char_inj:
  "c \<notin> set a \<Longrightarrow> c \<notin> set b \<Longrightarrow> a @ c # x = b @ c # z \<longleftrightarrow> a = b \<and> x = z"
proof (induction a arbitrary: b)
  case Nil then show ?case by (cases b) auto
next
  case (Cons d a) then show ?case by (cases b) auto
qed

lemma append_last_char_inj:
  "c \<notin> set a \<Longrightarrow> c \<notin> set b \<Longrightarrow> x @ c # a = z @ c # b \<longleftrightarrow> x = z \<and> a = b"
  using append_char_inj [of c "rev a" "rev b" "rev x" "rev z"]
  by (metis (no_types, lifting) append.assoc append_Cons append_Nil rev.simps(2) rev_append rev_is_rev_conv rev_rev_ident set_rev)

lemma join_inj:
  assumes "xs \<noteq> []" "ys \<noteq> []" "\<And>x. x \<in> set xs \<Longrightarrow> c \<notin> set x" "\<And>y. y \<in> set ys \<Longrightarrow> c \<notin> set y"
    and "join [c] xs = join [c] ys"
  shows "xs = ys"
  using assms
proof (induction xs arbitrary: ys)
  case (Cons x xs)
  obtain y ys' where ys: "ys = y # ys'" using Cons.prems(2) by (cases ys) auto
  have no: "c \<notin> set x" "c \<notin> set y" using Cons.prems(3,4) ys by simp_all
  have more: "c \<in> set (join [c] (a # as))" if "as \<noteq> []" for a as using that by (cases as) simp_all
  show ?case
  proof (cases "xs = []")
    case True
    then have "c \<notin> set (join [c] ys)" using Cons.prems(5) no by simp
    then have "ys' = []" using more [of ys' y] ys by auto
    then show ?thesis using True Cons.prems(5) ys by simp
  next
    case False
    then have "c \<in> set (join [c] ys)" using Cons.prems(5) more by metis
    then have ne: "ys' \<noteq> []" using ys no by auto
    have "x @ c # join [c] xs = y @ c # join [c] ys'"
      using Cons.prems(5) False ne ys by (cases xs; cases ys') simp_all
    then have "x = y" "join [c] xs = join [c] ys'" using append_char_inj [OF no] by simp_all
    then show ?thesis using Cons.IH [of ys'] Cons.prems(3,4) False ne ys by simp
  qed
qed simp

section \<open>Identifiers\<close>

lemma lower_or_empty: "normalize_lowercase_string_or_empty (Str s) = lower (trim s)"
  by (simp add: normalize_lowercase_string_or_empty_def normalize_optional_lowercase_string_def
      normalize_optional_string_def normalize_nullable_string_def)

lemma id_char_account: "set (normalize_account_id v) \<subseteq> {c. id_char c}"
proof -
  have dashes: "set (dash_invalid s) \<subseteq> {c. id_char c}" for s
    by (induction s rule: dash_invalid.induct) (auto simp: id_char_def)
  have strip: "set (strip_dashes s) \<subseteq> set s" for s
    by (auto simp: strip_dashes_def dest!: set_dropWhileD)
  have valid: "set (lower (trim s)) \<subseteq> {c. id_char c}" if "valid_id s" for s
    using that set_trim [of s] by (auto simp: valid_id_def list_all_iff)
  have canonical: "set (canonicalize_account_id s) \<subseteq> {c. id_char c}" for s
  proof (cases "valid_id s")
    case True
    then show ?thesis using valid by (simp add: canonicalize_account_id_def lower_or_empty)
  next
    case False
    have "set (slice (strip_dashes (dash_invalid t)) 0 64) \<subseteq> set (dash_invalid t)" for t
      using strip [of "dash_invalid t"] set_take_subset [of 64 "strip_dashes (dash_invalid t)"] by auto
    then show ?thesis using False dashes by (fastforce simp: canonicalize_account_id_def Let_def)
  qed
  have "set default_account_id \<subseteq> {c. id_char c}" by (auto simp: default_account_id_def js_def id_char_def)
  then show ?thesis using canonical
    by (auto simp: normalize_account_id_def normalize_canonical_account_id_def Let_def split: option.splits if_splits)
qed

lemma id_char_agent: "set (normalize_agent_id v) \<subseteq> {c. id_char c}" and agent_id_nonempty: "normalize_agent_id v \<noteq> []"
proof -
  have dashes: "set (dash_invalid s) \<subseteq> {c. id_char c}" for s
    by (induction s rule: dash_invalid.induct) (auto simp: id_char_def)
  have strip: "set (strip_dashes s) \<subseteq> set s" for s
    by (auto simp: strip_dashes_def dest!: set_dropWhileD)
  have cut: "set (slice (strip_dashes (dash_invalid t)) 0 64) \<subseteq> {c. id_char c}" for t
    using strip [of "dash_invalid t"] set_take_subset [of 64 "strip_dashes (dash_invalid t)"] dashes [of t] by fastforce
  have valid: "set (lower (trim s)) \<subseteq> {c. id_char c}" "lower (trim s) \<noteq> []" if "valid_id (trim s)" for s
    using that by (auto simp: valid_id_def list_all_iff)
  have main: "set default_agent_id \<subseteq> {c. id_char c}" "default_agent_id \<noteq> []" by (auto simp: default_agent_id_def js_def id_char_def)
  have default: "set (or_default t default_agent_id) \<subseteq> {c. id_char c}" if "set t \<subseteq> {c. id_char c}" for t
    using that main(1) by (simp add: or_default_def)
  have empty: "or_default t default_agent_id \<noteq> []" for t using main(2) by (simp add: or_default_def)
  show "set (normalize_agent_id v) \<subseteq> {c. id_char c}"
    using cut valid main(1) default by (simp add: normalize_agent_id_def Let_def lower_or_empty trimmed_id_def)
  show "normalize_agent_id v \<noteq> []"
    using valid main(2) empty by (simp add: normalize_agent_id_def Let_def lower_or_empty trimmed_id_def)
qed

lemma account_no_colon: "58 \<notin> set (normalize_account_id v)" and agent_no_colon: "58 \<notin> set (normalize_agent_id v)"
  using id_char_account [of v] id_char_agent [of v] by (auto simp: id_char_def subset_iff)

section \<open>Conversations\<close>

text \<open>The conversation a key is built for.\<close>

datatype conversation =
    MainConversation jstring jstring
  | DirectConversation jstring "jstring option" "jstring option" jstring
  | RoomConversation jstring jstring chat_type jstring

definition key_channel :: "peer_key_params \<Rightarrow> jstring" where
  "key_channel p = or_default (normalize_lowercase_string_or_empty (Str (pp_channel p))) (js ''unknown'')"

definition conversation_of :: "peer_key_params \<Rightarrow> conversation" where
  "conversation_of p =
     (let agent = normalize_agent_id (Some (pp_agent_id p));
          scope = (case pp_dm_scope p of None \<Rightarrow> MainScope | Some s \<Rightarrow> s);
          peer = direct_peer_id p scope
      in case pp_peer_kind p of
           Some GroupChat \<Rightarrow> RoomConversation agent (key_channel p) GroupChat
             (or_default (normalize_lowercase_string_or_empty (of_string (pp_peer_id p))) (js ''unknown''))
         | Some ChannelChat \<Rightarrow> RoomConversation agent (key_channel p) ChannelChat
             (or_default (normalize_lowercase_string_or_empty (of_string (pp_peer_id p))) (js ''unknown''))
         | _ \<Rightarrow> if scope = MainScope \<or> peer = [] then MainConversation agent (normalize_main_key (pp_main_key p))
                else DirectConversation agent (if scope = PerPeer then None else Some (key_channel p))
                  (if scope = PerAccountChannelPeer then Some (normalize_account_id (pp_account_id p)) else None) peer)"

text \<open>Names that cannot be taken for another part of a key.\<close>

definition plain_names :: "peer_key_params \<Rightarrow> bool" where
  "plain_names p \<longleftrightarrow>
     58 \<notin> set (key_channel p) \<and> key_channel p \<noteq> js ''direct'' \<and> 58 \<notin> set (normalize_main_key (pp_main_key p)) \<and>
     normalize_account_id (pp_account_id p) \<notin> set (map js [''direct'', ''group'', ''channel''])"

fun conversation_rest :: "conversation \<Rightarrow> jstring" where
  "conversation_rest (MainConversation agent key) = key"
| "conversation_rest (DirectConversation agent None account peer) = js ''direct'' @ 58 # peer"
| "conversation_rest (DirectConversation agent (Some ch) None peer) = ch @ 58 # js ''direct'' @ 58 # peer"
| "conversation_rest (DirectConversation agent (Some ch) (Some account) peer) = ch @ 58 # account @ 58 # js ''direct'' @ 58 # peer"
| "conversation_rest (RoomConversation agent ch kind peer) = ch @ 58 # chat_name kind @ 58 # peer"

fun conversation_agent :: "conversation \<Rightarrow> jstring" where
  "conversation_agent (MainConversation agent key) = agent"
| "conversation_agent (DirectConversation agent ch account peer) = agent"
| "conversation_agent (RoomConversation agent ch kind peer) = agent"

fun conversation_plain :: "conversation \<Rightarrow> bool" where
  "conversation_plain (MainConversation agent key) \<longleftrightarrow> 58 \<notin> set key"
| "conversation_plain (DirectConversation agent None account peer) \<longleftrightarrow> account = None"
| "conversation_plain (DirectConversation agent (Some ch) None peer) \<longleftrightarrow> 58 \<notin> set ch \<and> ch \<noteq> js ''direct''"
| "conversation_plain (DirectConversation agent (Some ch) (Some account) peer) \<longleftrightarrow>
     58 \<notin> set ch \<and> ch \<noteq> js ''direct'' \<and> 58 \<notin> set account \<and> account \<notin> set (map js [''direct'', ''group'', ''channel''])"
| "conversation_plain (RoomConversation agent ch kind peer) \<longleftrightarrow> 58 \<notin> set ch \<and> ch \<noteq> js ''direct'' \<and> kind \<noteq> DirectChat"

lemma colon: "js '':'' = [58]" "js '':direct:'' = 58 # js ''direct'' @ [58]" "js ''agent:'' = js ''agent'' @ [58]"
  "58 \<notin> set (js ''direct'')" "58 \<notin> set (chat_name k)" "58 \<notin> set (js ''agent'')"
  by (cases k; simp add: js_def)+

lemma key_of_conversation:
  "build_agent_peer_session_key p =
   js ''agent'' @ 58 # conversation_agent (conversation_of p) @ 58 # conversation_rest (conversation_of p)"
proof -
  have scopes: "s \<noteq> MainScope \<Longrightarrow> s = PerPeer \<or> s = PerChannelPeer \<or> s = PerAccountChannelPeer" for s by (cases s) simp_all
  show ?thesis
    by (cases "pp_peer_kind p"; cases "case pp_dm_scope p of None \<Rightarrow> MainScope | Some s \<Rightarrow> s"; cases "the (pp_peer_kind p)")
       (auto simp: build_agent_peer_session_key_def conversation_of_def build_agent_main_session_key_def Let_def colon
          key_channel_def split: chat_type.split)
qed

lemma plain_conversation: "plain_names p \<Longrightarrow> conversation_plain (conversation_of p)"
  using account_no_colon [of "pp_account_id p"]
  by (cases "pp_peer_kind p"; cases "the (pp_peer_kind p)")
     (auto simp: plain_names_def conversation_of_def Let_def split: option.split)

lemma rest_inj:
  assumes "conversation_plain c" "conversation_plain d" "conversation_agent c = conversation_agent d"
    and "conversation_rest c = conversation_rest d"
  shows "c = d"
proof -
  have kinds: "chat_name k = chat_name l \<longleftrightarrow> k = l" for k l by (cases k; cases l; simp)
  have direct: "chat_name k = js ''direct'' \<longleftrightarrow> k = DirectChat" "js ''direct'' = chat_name k \<longleftrightarrow> k = DirectChat" for k by (cases k; simp)+
  note cut = append_char_inj [of 58]
  have kind: "chat_name k \<noteq> js ''group'' \<Longrightarrow> chat_name k \<noteq> js ''channel'' \<Longrightarrow> k = DirectChat" for k by (cases k) simp_all
  show ?thesis
    using assms
    by (cases c rule: conversation_plain.cases; cases d rule: conversation_plain.cases)
       (auto simp: cut colon kinds direct dest: kind)
qed

section \<open>Reading a key back\<close>

lemma split_colon_cut: "58 \<notin> set a \<Longrightarrow> split_colon (a @ 58 # x) = a # split_colon x"
  by (induction a) simp_all

lemma split_colon_nonempty [simp]: "split_colon s \<noteq> []"
  by (cases s) (auto split: list.split)

lemma split_colon_word: "58 \<notin> set a \<Longrightarrow> split_colon a = [a]"
  by (induction a) simp_all

lemma join_split_colon: "colon_join (split_colon s) = s"
proof (induction s)
  case (Cons c cs)
  show ?case
  proof (cases "split_colon cs")
    case Nil
    then show ?thesis by simp
  next
    case (Cons p ps)
    then show ?thesis using \<open>colon_join (split_colon cs) = cs\<close> by (cases ps) auto
  qed
qed simp

lemma lower_fixed: "set s \<subseteq> {c. id_char c} \<Longrightarrow> lower s = s"
proof -
  assume s: "set s \<subseteq> {c. id_char c}"
  have "id_char c \<Longrightarrow> lower_unit c = c" for c by (auto simp: id_char_def lower_unit_def)
  then show ?thesis using s by (intro map_idI) auto
qed

lemma trim_fixed: "set s \<subseteq> {c. id_char c} \<Longrightarrow> trim s = s"
proof -
  assume s: "set s \<subseteq> {c. id_char c}"
  have "id_char c \<Longrightarrow> \<not> is_ws c" for c by (auto simp: id_char_def is_ws_def)
  then show ?thesis using s hd_in_set last_in_set by (intro trim_id) blast
qed

text \<open>A text as keys are made of: in lower case and without white space at its ends.\<close>

definition key_text :: "jstring \<Rightarrow> bool" where
  "key_text s \<longleftrightarrow> s \<noteq> [] \<and> lower s = s \<and> \<not> is_ws (hd s) \<and> \<not> is_ws (last s)"

lemma key_text_lower: "lower (trim s) \<noteq> [] \<Longrightarrow> key_text (lower (trim s))"
proof -
  assume ne: "lower (trim s) \<noteq> []"
  have ws: "is_ws (lower_unit c) = is_ws c" for c by (auto simp: lower_unit_def is_ws_def)
  have "\<not> is_ws (hd (trim s)) \<and> \<not> is_ws (last (trim s))" using hd_trim [of s] ne by simp
  then show ?thesis using ne by (simp add: key_text_def last_map hd_map ws)
qed

lemma key_text_default: "key_text (or_default (normalize_lowercase_string_or_empty v) d)" if "key_text d"
proof (cases v)
  case (Str s)
  then show ?thesis using that key_text_lower [of s] by (auto simp: or_default_def lower_or_empty)
qed (use that in \<open>simp_all add: or_default_def normalize_lowercase_string_or_empty_def normalize_optional_lowercase_string_def
    normalize_optional_string_def normalize_nullable_string_def\<close>)

lemma key_text_id: "s \<noteq> [] \<Longrightarrow> set s \<subseteq> {c. id_char c} \<Longrightarrow> key_text s"
proof -
  assume s: "s \<noteq> []" "set s \<subseteq> {c. id_char c}"
  have "id_char c \<Longrightarrow> \<not> is_ws c" for c by (auto simp: id_char_def is_ws_def)
  then have "\<not> is_ws c" if "c \<in> set s" for c using s(2) that by blast
  then show ?thesis using s lower_fixed by (simp add: key_text_def)
qed

lemma key_text_cons: "key_text a \<Longrightarrow> key_text x \<Longrightarrow> key_text (a @ 58 # x)"
  by (auto simp: key_text_def lower_unit_def)

lemma key_words: "key_text (js ''unknown'')" "key_text (js ''main'')" "key_text (js ''direct'')"
  "key_text (js ''agent'')" "key_text (chat_name k)"
  by (cases k; simp add: key_text_def js_def lower_unit_def is_ws_def)+

lemma account_id_nonempty: "normalize_account_id v \<noteq> []"
  by (auto simp: normalize_account_id_def normalize_canonical_account_id_def default_account_id_def Let_def split: option.split)

lemma rest_key_text: "key_text (conversation_rest (conversation_of p))"
proof -
  have channel: "key_text (key_channel p)"
    unfolding key_channel_def by (rule key_text_default [OF key_words(1)])
  have account: "key_text (normalize_account_id v)" for v
    using account_id_nonempty id_char_account by (rule key_text_id)
  have room: "key_text (or_default (normalize_lowercase_string_or_empty (of_string v)) (js ''unknown''))" for v
    by (rule key_text_default [OF key_words(1)])
  have main: "key_text (normalize_main_key v)" for v
    unfolding normalize_main_key_def default_main_key_def by (rule key_text_default [OF key_words(2)])
  have peer: "key_text (direct_peer_id p s)" if "direct_peer_id p s \<noteq> []" for s
    using that key_text_lower unfolding direct_peer_id_def Let_def lower_or_empty by blast
  show ?thesis
    by (cases "pp_peer_kind p"; cases "the (pp_peer_kind p)")
       (auto simp: conversation_of_def Let_def main room peer account channel key_words simp del: chat_name.simps
          intro!: key_text_cons)
qed

lemma session_key_fixed:
  defines "K \<equiv> build_agent_peer_session_key"
  shows "trim (K p) = K p" "lower (K p) = K p" "K p \<noteq> []"
proof -
  let ?a = "conversation_agent (conversation_of p)" and ?r = "conversation_rest (conversation_of p)"
  have agent: "?a = normalize_agent_id (Some (pp_agent_id p))"
    by (auto simp: conversation_of_def Let_def split: option.split chat_type.split)
  have "key_text ?a" unfolding agent using agent_id_nonempty id_char_agent by (rule key_text_id)
  then have "key_text (?a @ 58 # ?r)" using rest_key_text by (rule key_text_cons)
  then have tail: "key_text (K p)" unfolding K_def key_of_conversation by (rule key_text_cons [OF key_words(4)])
  then show "lower (K p) = K p" "K p \<noteq> []" by (simp_all add: key_text_def)
  show "trim (K p) = K p" using tail by (intro trim_id) (simp add: key_text_def)
qed

lemma conversation_agent_of: "conversation_agent (conversation_of p) = normalize_agent_id (Some (pp_agent_id p))"
  by (auto simp: conversation_of_def Let_def split: option.split chat_type.split)

lemma plain_agent_key:
  assumes "plain_names p"
  shows "parse_agent_session_key (Some (build_agent_peer_session_key p)) =
         Some \<lparr>pk_agent_id = normalize_agent_id (Some (pp_agent_id p)),
               pk_rest = colon_join (filter (\<lambda>s. s \<noteq> []) (split_colon (conversation_rest (conversation_of p))))\<rparr>"
proof -
  let ?K = "build_agent_peer_session_key p" and ?a = "normalize_agent_id (Some (pp_agent_id p))"
    and ?r = "conversation_rest (conversation_of p)"
  let ?f = "filter (\<lambda>s. s \<noteq> []) (split_colon ?r)"
  have parts: "filter (\<lambda>s. s \<noteq> []) (split_colon ?K) = js ''agent'' # ?a # ?f"
    using agent_no_colon agent_id_nonempty
    by (simp add: key_of_conversation conversation_agent_of split_colon_cut colon)
  have word: "?f \<noteq> []"
  proof -
    have words: "key_channel p \<noteq> []" "normalize_main_key (pp_main_key p) \<noteq> []"
      by (simp_all add: key_channel_def normalize_main_key_def or_default_def default_main_key_def)
    have main: "split_colon (normalize_main_key (pp_main_key p)) = [normalize_main_key (pp_main_key p)]"
      using assms split_colon_word by (simp add: plain_names_def)
    have ch: "split_colon (key_channel p @ 58 # x) = key_channel p # split_colon x" for x
      using assms split_colon_cut by (simp add: plain_names_def)
    have direct: "split_colon (js ''direct'' @ 58 # x) = js ''direct'' # split_colon x" for x
      by (rule split_colon_cut) (rule colon)
    show ?thesis using words
      by (cases "pp_peer_kind p"; cases "the (pp_peer_kind p)") (auto simp: conversation_of_def Let_def main ch direct)
  qed
  have rest: "colon_join ?f \<noteq> []"
  proof -
    obtain x xs where f: "?f = x # xs" using word by (cases ?f) auto
    then have "x \<in> set ?f" by simp
    then have "x \<noteq> []" by simp
    then show ?thesis unfolding f by (cases xs) simp_all
  qed
  have "normalize_optional_lowercase_string (of_string (Some ?K)) = Some ?K"
    using session_key_fixed [of p] by (simp add: normalize_optional_lowercase_string_def normalize_optional_string_def normalize_nullable_string_def)
  moreover have "normalize_optional_string (Str ?a) = Some ?a"
    using trim_fixed [OF id_char_agent] agent_id_nonempty by (simp add: normalize_optional_string_def normalize_nullable_string_def)
  moreover have "\<not> length (js ''agent'' # ?a # ?f) < 3" using word by (cases ?f) simp_all
  ultimately show ?thesis using rest by (simp add: parse_agent_session_key_def Let_def parts)
qed

lemma normalize_valid_agent:
  assumes "is_valid_agent_id (Some a)"
  shows "normalize_agent_id (Some (normalize_agent_id (Some a))) = normalize_agent_id (Some a)"
proof -
  let ?t = "trim a"
  have t: "?t \<noteq> []" "valid_id ?t" using assms by (simp_all add: is_valid_agent_id_def trimmed_id_def)
  then have n: "normalize_agent_id (Some a) = lower ?t" by (simp add: normalize_agent_id_def trimmed_id_def lower_or_empty Let_def)
  have same: "lower_unit c = 45 \<longleftrightarrow> c = 45" "lower_unit c = 95 \<longleftrightarrow> c = 95" for c by (auto simp: lower_unit_def)
  have valid: "valid_id (lower ?t)" using t by (auto simp: valid_id_def list_all_iff hd_map same)
  have "trim (lower ?t) = lower ?t" by (simp add: trim_lower)
  then show ?thesis using valid t by (simp add: n normalize_agent_id_def trimmed_id_def lower_or_empty Let_def)
qed

lemma starts_with_append: "starts_with s p \<longleftrightarrow> (\<exists>x. s = p @ x)"
  by (induction s p rule: starts_with.induct) auto

end
