(* ===== verification/RouteCaches.thy ===== *)
theory RouteCaches
  imports RoutingSearch SessionKeyLaws
begin

text \<open>
  The caches of routing (\<open>openclaw-main/src/routing/resolve-route.ts\<close>) answer with what would be
  computed: the keys of evaluated bindings always name channel and account, and the keys of
  resolved routes name the request when its parts are free of the separators.
\<close>

section \<open>The caches\<close>

text \<open>The text of a cache key names the request when its parts do not contain the separators.\<close>

definition tidy_text :: "jstring \<Rightarrow> bool" where
  "tidy_text s \<longleftrightarrow> 9 \<notin> set s \<and> s \<noteq> js ''-''"

definition tidy_peer :: "route_peer option \<Rightarrow> bool" where
  "tidy_peer p \<longleftrightarrow> (case p of None \<Rightarrow> True | Some r \<Rightarrow> rp_id r \<noteq> [] \<and> 9 \<notin> set (rp_id r))"

definition tidy_query :: "route_query \<Rightarrow> bool" where
  "tidy_query y \<longleftrightarrow>
     9 \<notin> set (qy_channel y) \<and> tidy_peer (qy_peer y) \<and> tidy_peer (qy_parent_peer y) \<and>
     tidy_text (qy_guild_id y) \<and> tidy_text (qy_team_id y) \<and>
     list_all (\<lambda>r. r \<noteq> [] \<and> tidy_text r \<and> 44 \<notin> set r) (qy_member_role_ids y)"

lemma set_join: "set (join c xs) \<subseteq> set c \<union> (\<Union>x\<in>set xs. set x)"
proof (induction xs)
  case (Cons x xs)
  then show ?case by (cases xs) auto
qed simp

lemma role_text:
  "\<exists>rs'. set rs' = set rs \<and> length rs' = length rs \<and> (rs \<noteq> [] \<longrightarrow> format_role_ids rs = join (js '','') rs')"
proof -
  consider "rs = []" | a where "rs = [a]" | a b where "rs = [a, b]" | a b d es where "rs = a # b # d # es"
    by (metis list.exhaust)
  then show ?thesis
  proof cases
    case 2
    then show ?thesis by (intro exI [of _ "[a]"]) (simp add: format_role_ids_def)
  next
    case 3
    then show ?thesis
      by (intro exI [of _ "if unit_order a b \<le> 0 then [a, b] else [b, a]"]) (auto simp: format_role_ids_def)
  next
    case 4
    then show ?thesis by (intro exI [of _ "sort_by unit_order rs"]) (simp add: format_role_ids_def del: sort_by.simps)
  qed (auto simp: format_role_ids_def)
qed

lemma comma: "js '','' = [44]" and dash: "js ''-'' = [45]"
  by (simp_all add: js_def)

lemma role_text_inj:
  assumes "list_all (\<lambda>r. r \<noteq> [] \<and> tidy_text r \<and> 44 \<notin> set r) rs" "list_all (\<lambda>r. r \<noteq> [] \<and> tidy_text r \<and> 44 \<notin> set r) ss"
    and "format_role_ids rs = format_role_ids ss"
  shows "set rs = set ss"
proof -
  have names_none: "rs = []"
    if "list_all (\<lambda>r. r \<noteq> [] \<and> tidy_text r \<and> 44 \<notin> set r) rs" "format_role_ids rs = js ''-''" for rs
  proof (rule ccontr)
    assume "rs \<noteq> []"
    then obtain rs' where rs': "set rs' = set rs" "length rs' = length rs" "format_role_ids rs = join (js '','') rs'"
      using role_text [of rs] by auto
    have "rs' \<noteq> []" using rs'(1) \<open>rs \<noteq> []\<close> by auto
    moreover have "join [44] rs' = join [44] [[45]]" using rs'(3) that(2) by (simp add: comma dash)
    moreover have "44 \<notin> set r" if "r \<in> set rs'" for r
      using that rs'(1) \<open>list_all _ rs\<close> by (simp add: list_all_iff)
    ultimately have "rs' = [[45]]" using join_inj [of rs' "[[45]]" 44] by simp
    then have "js ''-'' \<in> set rs" using rs'(1) by (simp add: dash flip: rs'(1))
    then show False using that(1) by (auto simp: list_all_iff tidy_text_def)
  qed
  have none: "format_role_ids [] = js ''-''" by (simp add: format_role_ids_def)
  show ?thesis
  proof (cases "rs = [] \<or> ss = []")
    case True
    then show ?thesis using names_none assms none by metis
  next
    case False
    obtain rs' where rs': "set rs' = set rs" "format_role_ids rs = join [44] rs'" using role_text [of rs] False by (auto simp: comma)
    obtain ss' where ss': "set ss' = set ss" "format_role_ids ss = join [44] ss'" using role_text [of ss] False by (auto simp: comma)
    have "rs' = ss'"
    proof (rule join_inj [where c = 44])
      show "rs' \<noteq> []" "ss' \<noteq> []" using rs'(1) ss'(1) False by auto
      show "44 \<notin> set r" if "r \<in> set rs'" for r using that rs'(1) assms(1) by (simp add: list_all_iff)
      show "44 \<notin> set r" if "r \<in> set ss'" for r using that ss'(1) assms(2) by (simp add: list_all_iff)
      show "join [44] rs' = join [44] ss'" using rs'(2) ss'(2) assms(3) by simp
    qed
    then show ?thesis using rs'(1) ss'(1) by simp
  qed
qed

lemma peer_text_inj:
  assumes "tidy_peer p" "tidy_peer q" "format_route_cache_peer p = format_route_cache_peer q"
  shows "p = q"
proof -
  have shown: "format_route_cache_peer (Some r) = chat_name (rp_kind r) @ [58] @ rp_id r" if "tidy_peer (Some r)" for r
    using that by (simp add: tidy_peer_def format_route_cache_peer_def named_peer_def)
  have colon: "58 \<notin> set (chat_name k)" "chat_name k @ 58 # i \<noteq> js ''-''" for k i
    by (cases k; simp add: js_def)+
  have kinds: "chat_name k = chat_name l \<Longrightarrow> k = l" for k l by (cases k; cases l; simp)
  have none: "format_route_cache_peer None = js ''-''" by (simp add: format_route_cache_peer_def named_peer_def)
  show ?thesis
  proof (cases p)
    case None
    then show ?thesis using assms shown none colon(2) by (cases q) auto
  next
    case (Some r)
    then obtain s where s: "q = Some s" using assms shown none colon(2) by (cases q) auto
    have "chat_name (rp_kind r) @ 58 # rp_id r = chat_name (rp_kind s) @ 58 # rp_id s"
      using assms Some s shown by simp
    then have "rp_kind r = rp_kind s" "rp_id r = rp_id s" using append_char_inj [OF colon(1) colon(1)] kinds by auto
    then show ?thesis using Some s by simp
  qed
qed

lemma account_no_tab: "9 \<notin> set (normalize_account_id v)" "9 \<notin> set (qy_account_id (route_query_of q))"
proof -
  have "9 \<notin> {c. id_char c}" by (simp add: id_char_def)
  then show "9 \<notin> set (normalize_account_id v)" for v using id_char_account [of v] by blast
  then show "9 \<notin> set (qy_account_id (route_query_of q))" by (simp add: route_query_of_def)
qed

section \<open>What the caches hold\<close>

lemma tidy_key:
  assumes "tidy_query y" "tidy_query z" "9 \<notin> set (qy_account_id y)" "9 \<notin> set (qy_account_id z)"
    and "route_cache_key y s = route_cache_key z s"
  shows "qy_channel y = qy_channel z" "qy_account_id y = qy_account_id z" "qy_peer y = qy_peer z"
    and "qy_parent_peer y = qy_parent_peer z" "qy_guild_id y = qy_guild_id z" "qy_team_id y = qy_team_id z"
    and "set (qy_member_role_ids y) = set (qy_member_role_ids z)"
proof -
  let ?parts = "\<lambda>y. [qy_channel y, qy_account_id y, format_route_cache_peer (qy_peer y), format_route_cache_peer (qy_parent_peer y),
       or_default (qy_guild_id y) (js ''-''), or_default (qy_team_id y) (js ''-''), format_role_ids (qy_member_role_ids y),
       scope_name s]"
  have peer: "9 \<notin> set (format_route_cache_peer p)" if "tidy_peer p" for p
  proof (cases p)
    case (Some r)
    have "9 \<notin> set (chat_name k)" for k by (cases k) (simp_all add: js_def)
    then show ?thesis using that Some by (simp add: format_route_cache_peer_def named_peer_def tidy_peer_def dash)
  qed (simp add: format_route_cache_peer_def named_peer_def dash)
  have roles: "9 \<notin> set (format_role_ids rs)" if "list_all (\<lambda>r. r \<noteq> [] \<and> tidy_text r \<and> 44 \<notin> set r) rs" for rs
  proof -
    obtain rs' where rs': "set rs' = set rs" "rs \<noteq> [] \<Longrightarrow> format_role_ids rs = join [44] rs'" using role_text [of rs] by (auto simp: comma)
    have "9 \<notin> set (join [44] xs)" if "\<And>r. r \<in> set xs \<Longrightarrow> 9 \<notin> set r" for xs
      using that set_join [of "[44]" xs] by auto
    then show ?thesis using that rs' by (cases "rs = []") (auto simp: format_role_ids_def dash list_all_iff tidy_text_def)
  qed
  have dashed: "9 \<notin> set (or_default t (js ''-''))" if "9 \<notin> set t" for t using that by (simp add: or_default_def dash)
  have scope: "9 \<notin> set (scope_name s)" by (cases s) (simp_all add: js_def)
  have free: "9 \<notin> set p" if "tidy_query y" "9 \<notin> set (qy_account_id y)" "p \<in> set (?parts y)" for p y
    using that peer roles dashed scope by (auto simp: tidy_query_def tidy_text_def)
  have "?parts y = ?parts z"
  proof (rule join_inj [where c = 9])
    show "9 \<notin> set p" if "p \<in> set (?parts y)" for p using free [OF assms(1,3) that] .
    show "9 \<notin> set p" if "p \<in> set (?parts z)" for p using free [OF assms(2,4) that] .
    show "join [9] (?parts y) = join [9] (?parts z)" using assms(5) by (simp only: route_cache_key_def)
  qed simp_all
  then have parts: "qy_channel y = qy_channel z" "qy_account_id y = qy_account_id z"
    "format_route_cache_peer (qy_peer y) = format_route_cache_peer (qy_peer z)"
    "format_route_cache_peer (qy_parent_peer y) = format_route_cache_peer (qy_parent_peer z)"
    "or_default (qy_guild_id y) (js ''-'') = or_default (qy_guild_id z) (js ''-'')"
    "or_default (qy_team_id y) (js ''-'') = or_default (qy_team_id z) (js ''-'')"
    "format_role_ids (qy_member_role_ids y) = format_role_ids (qy_member_role_ids z)"
    by simp_all
  show "qy_channel y = qy_channel z" "qy_account_id y = qy_account_id z" using parts by simp_all
  show "qy_peer y = qy_peer z" "qy_parent_peer y = qy_parent_peer z"
    using assms(1,2) peer_text_inj parts(3,4) by (auto simp: tidy_query_def)
  have named: "t = u" if "or_default t (js ''-'') = or_default u (js ''-'')" "tidy_text t" "tidy_text u" for t u
    using that by (auto simp: or_default_def tidy_text_def split: if_splits)
  show "qy_guild_id y = qy_guild_id z" "qy_team_id y = qy_team_id z"
    using assms(1,2) named parts(5,6) by (auto simp: tidy_query_def)
  show "set (qy_member_role_ids y) = set (qy_member_role_ids z)"
    using assms(1,2) role_text_inj parts(7) by (simp add: tidy_query_def)
qed

lemma reference_same:
  assumes "qy_channel y = qy_channel z" "qy_account_id y = qy_account_id z" "qy_peer y = qy_peer z"
    and "qy_parent_peer y = qy_parent_peer z" "qy_guild_id y = qy_guild_id z" "qy_team_id y = qy_team_id z"
    and "set (qy_member_role_ids y) = set (qy_member_role_ids z)"
  shows "reference_route cfg y = reference_route cfg z"
proof -
  have scope: "query_scope y = query_scope z" using assms by (simp add: query_scope_def)
  have tier: "match_tier y = match_tier z" by (rule ext) (simp only: match_tier_def scope_ok_def scope assms)
  have tiers: "binding_tier y = binding_tier z" by (rule ext) (simp only: binding_tier_def tier)
  have choose: "choose_route cfg l y a how s = choose_route cfg l z a how s" for l a how s
    using assms by (simp add: choose_route_def)
  show ?thesis by (simp only: reference_route_def tiers choose assms)
qed

definition bindings_exact :: "routing_config \<Rightarrow> evaluated_cache \<Rightarrow> bool" where
  "bindings_exact cfg ec \<longleftrightarrow>
     ec_bindings_ref ec = cf_bindings cfg \<and> ec_by_channel ec = build_evaluated_bindings_by_channel cfg \<and>
     (\<forall>ch a l. 9 \<notin> set a \<longrightarrow> map_of (ec_by_channel_account ec) (channel_account_key ch a) = Some l \<longrightarrow>
        l = evaluated_for (build_evaluated_bindings_by_channel cfg) ch a) \<and>
     (\<forall>ch a x. 9 \<notin> set a \<longrightarrow> map_of (ec_by_channel_account_index ec) (channel_account_key ch a) = Some x \<longrightarrow>
        x = build_evaluated_bindings_index (evaluated_for (build_evaluated_bindings_by_channel cfg) ch a))"

definition routes_exact :: "routing_config \<Rightarrow> route_cache \<Rightarrow> bool" where
  "routes_exact cfg r \<longleftrightarrow>
     rx_bindings_ref r = cf_bindings cfg \<and> rx_agents_ref r = cf_agents cfg \<and> rx_session_ref r = session_ref cfg \<and>
     (\<forall>y route. tidy_query y \<longrightarrow> 9 \<notin> set (qy_account_id y) \<longrightarrow>
        map_of (rx_by_key r) (route_cache_key y (case cf_dm_scope cfg of None \<Rightarrow> MainScope | Some s \<Rightarrow> s)) = Some route \<longrightarrow>
        route = reference_route cfg y)"

definition lookups_ok :: "route_caches \<Rightarrow> bool" where
  "lookups_ok c \<longleftrightarrow>
     (\<forall>l. ca_lookup c = Some l \<longrightarrow> (\<exists>cfg. l = build_agent_lookup cfg)) \<and>
     (\<forall>ec. ca_bindings c = Some ec \<longrightarrow> (\<exists>cfg. bindings_exact cfg ec))"

definition route_caches_ok :: "route_caches \<Rightarrow> bool" where
  "route_caches_ok c \<longleftrightarrow> lookups_ok c \<and> (\<forall>r. ca_routes c = Some r \<longrightarrow> (\<exists>cfg. routes_exact cfg r))"

lemma no_caches_ok [simp]: "route_caches_ok no_caches" "lookups_ok no_caches"
  by (simp_all add: route_caches_ok_def lookups_ok_def no_caches_def)

lemma channel_account_key_inj:
  "9 \<notin> set a \<Longrightarrow> 9 \<notin> set b \<Longrightarrow> channel_account_key ch a = channel_account_key dh b \<longleftrightarrow> ch = dh \<and> a = b"
  using append_last_char_inj [of 9 a b ch dh] by (simp add: channel_account_key_def)

text \<open>What is remembered depends on the parts of the configuration that are compared.\<close>

lemma same_bindings:
  "cf_bindings cfg = cf_bindings cfg' \<Longrightarrow> build_evaluated_bindings_by_channel cfg = build_evaluated_bindings_by_channel cfg'"
  by (simp add: build_evaluated_bindings_by_channel_def list_bindings_def list_route_bindings_def list_configured_bindings_def)

lemma same_agents: "cf_agents cfg = cf_agents cfg' \<Longrightarrow> build_agent_lookup cfg = build_agent_lookup cfg'"
  by (simp add: build_agent_lookup_def list_agents_def resolve_default_agent_id_def)

lemma same_config:
  "cf_bindings cfg = cf_bindings cfg' \<Longrightarrow> cf_agents cfg = cf_agents cfg' \<Longrightarrow> session_ref cfg = session_ref cfg' \<Longrightarrow> cfg = cfg'"
  by (cases cfg; cases cfg') (simp add: session_ref_def)

lemma bindings_exact_same:
  "bindings_exact cfg ec \<Longrightarrow> ec_bindings_ref ec = cf_bindings cfg' \<Longrightarrow> bindings_exact cfg' ec"
  using same_bindings [of cfg cfg'] by (simp add: bindings_exact_def)

lemma lookup_exact:
  assumes "lookups_ok c"
  shows "fst (resolve_agent_lookup_cache cfg c) = build_agent_lookup cfg"
    and "lookups_ok (snd (resolve_agent_lookup_cache cfg c))"
    and "ca_routes (snd (resolve_agent_lookup_cache cfg c)) = ca_routes c"
proof -
  have "l = build_agent_lookup cfg" if l: "ca_lookup c = Some l" "ag_agents_ref l = cf_agents cfg" for l
  proof -
    obtain cfg' where built: "l = build_agent_lookup cfg'" using assms l(1) by (auto simp: lookups_ok_def)
    then have "cf_agents cfg' = cf_agents cfg" using l(2) by (simp add: build_agent_lookup_def)
    then show ?thesis unfolding built by (rule same_agents)
  qed
  then show "fst (resolve_agent_lookup_cache cfg c) = build_agent_lookup cfg"
    by (simp add: resolve_agent_lookup_cache_def Let_def split: option.split)
  have "lookups_ok (c\<lparr>ca_lookup := Some (build_agent_lookup cfg)\<rparr>)" using assms by (auto simp: lookups_ok_def)
  then show "lookups_ok (snd (resolve_agent_lookup_cache cfg c))"
    using assms by (simp add: resolve_agent_lookup_cache_def Let_def split: option.split)
  show "ca_routes (snd (resolve_agent_lookup_cache cfg c)) = ca_routes c"
    by (simp add: resolve_agent_lookup_cache_def Let_def split: option.split)
qed

lemma current_exact:
  assumes "lookups_ok c"
  shows "bindings_exact cfg (current_evaluated_cache cfg c)"
proof -
  have fresh: "bindings_exact cfg \<lparr>ec_bindings_ref = cf_bindings cfg, ec_by_channel = build_evaluated_bindings_by_channel cfg,
      ec_by_channel_account = [], ec_by_channel_account_index = []\<rparr>" by (simp add: bindings_exact_def)
  have kept: "bindings_exact cfg ec" if "ca_bindings c = Some ec" "ec_bindings_ref ec = cf_bindings cfg" for ec
    using assms that bindings_exact_same by (auto simp: lookups_ok_def)
  show ?thesis
    using fresh kept by (cases "ca_bindings c") (simp_all add: current_evaluated_cache_def Let_def)
qed

lemma bindings_exact_put:
  fixes ch :: jstring
  assumes "bindings_exact cfg ec" "9 \<notin> set a"
  defines "l \<equiv> evaluated_for (build_evaluated_bindings_by_channel cfg) ch a"
  shows "bindings_exact cfg (ec\<lparr>ec_by_channel_account := map_put (channel_account_key ch a) l (ec_by_channel_account ec),
           ec_by_channel_account_index := map_put (channel_account_key ch a) (build_evaluated_bindings_index l) (ec_by_channel_account_index ec)\<rparr>)"
    and "bindings_exact cfg (ec\<lparr>ec_by_channel_account := [(channel_account_key ch a, l)],
           ec_by_channel_account_index := [(channel_account_key ch a, build_evaluated_bindings_index l)]\<rparr>)"
    and "bindings_exact cfg (ec\<lparr>ec_by_channel_account_index :=
           map_put (channel_account_key ch a) (build_evaluated_bindings_index l) (ec_by_channel_account_index ec)\<rparr>)"
  using assms(1,2) unfolding l_def
  by (auto simp: bindings_exact_def js_simps channel_account_key_inj split: if_splits)

lemma evaluated_exact:
  fixes ch :: jstring and cfg :: routing_config
  assumes "lookups_ok c" "9 \<notin> set a"
  defines "l \<equiv> evaluated_for (build_evaluated_bindings_by_channel cfg) ch a"
  shows "fst (get_evaluated_bindings cfg ch a c) = l"
    and "\<exists>ec. snd (get_evaluated_bindings cfg ch a c) = c\<lparr>ca_bindings := Some ec\<rparr> \<and> bindings_exact cfg ec"
proof -
  let ?ec = "current_evaluated_cache cfg c"
  have ec: "bindings_exact cfg ?ec" using assms(1) by (rule current_exact)
  then have by_channel: "ec_by_channel ?ec = build_evaluated_bindings_by_channel cfg" by (simp add: bindings_exact_def)
  have hit: "h = l" if "map_of (ec_by_channel_account ?ec) (channel_account_key ch a) = Some h" for h
    using ec assms(2) that by (simp add: bindings_exact_def l_def)
  show "fst (get_evaluated_bindings cfg ch a c) = l"
    using hit by (auto simp: get_evaluated_bindings_def Let_def by_channel l_def split: option.split)
  note put = bindings_exact_put [OF ec assms(2), where ch = ch, folded l_def]
  show "\<exists>ec. snd (get_evaluated_bindings cfg ch a c) = c\<lparr>ca_bindings := Some ec\<rparr> \<and> bindings_exact cfg ec"
  proof (cases "map_of (ec_by_channel_account ?ec) (channel_account_key ch a)")
    case None
    then show ?thesis using put(1,2) unfolding get_evaluated_bindings_def Let_def by_channel l_def [symmetric]
      by (auto simp: None)
  next
    case (Some h)
    then show ?thesis using ec by (auto simp: get_evaluated_bindings_def Let_def)
  qed
qed

lemma index_exact:
  fixes ch :: jstring and cfg :: routing_config
  assumes "lookups_ok c" "9 \<notin> set a"
  defines "l \<equiv> evaluated_for (build_evaluated_bindings_by_channel cfg) ch a"
  shows "fst (get_evaluated_index cfg ch a c) = build_evaluated_bindings_index l"
    and "\<exists>ec. snd (get_evaluated_index cfg ch a c) = c\<lparr>ca_bindings := Some ec\<rparr> \<and> bindings_exact cfg ec"
proof -
  obtain ec where ec: "get_evaluated_bindings cfg ch a c = (l, c\<lparr>ca_bindings := Some ec\<rparr>)" "bindings_exact cfg ec"
    using evaluated_exact [OF assms(1,2), of cfg ch] unfolding l_def by (metis prod.collapse)
  note put = bindings_exact_put(3) [OF ec(2) assms(2), where ch = ch, folded l_def]
  have hit: "x = build_evaluated_bindings_index l"
    if "map_of (ec_by_channel_account_index ec) (channel_account_key ch a) = Some x" for x
    using ec(2) assms(2) that by (simp add: bindings_exact_def l_def)
  show "fst (get_evaluated_index cfg ch a c) = build_evaluated_bindings_index l"
    using hit by (auto simp: get_evaluated_index_def Let_def ec(1) split: option.split)
  show "\<exists>ec. snd (get_evaluated_index cfg ch a c) = c\<lparr>ca_bindings := Some ec\<rparr> \<and> bindings_exact cfg ec"
    using ec(2) put by (auto simp: get_evaluated_index_def Let_def ec(1) split: option.split)
qed

section \<open>Answers\<close>

lemma routes_exact_put:
  assumes "routes_exact cfg r" "tidy_query z" "9 \<notin> set (qy_account_id z)"
  shows "routes_exact cfg (remember_route (route_cache_key z (case cf_dm_scope cfg of None \<Rightarrow> MainScope | Some s \<Rightarrow> s))
           (reference_route cfg z) r)"
proof -
  have same: "reference_route cfg z = reference_route cfg y"
    if "route_cache_key y s = route_cache_key z s" "tidy_query y" "9 \<notin> set (qy_account_id y)" for y s
    using tidy_key [OF assms(2) that(2) assms(3) that(3) that(1) [symmetric]] by (rule reference_same)
  then show ?thesis using assms(1) by (auto simp: routes_exact_def remember_route_def Let_def js_simps split: if_splits)
qed

lemma current_routes_exact:
  assumes "route_caches_ok c"
  shows "routes_exact cfg (resolve_route_cache cfg c)"
proof -
  have kept: "routes_exact cfg r"
    if r: "ca_routes c = Some r" "rx_bindings_ref r = cf_bindings cfg" "rx_agents_ref r = cf_agents cfg" "rx_session_ref r = session_ref cfg" for r
  proof -
    obtain cfg' where cfg': "routes_exact cfg' r" using assms r(1) by (auto simp: route_caches_ok_def)
    then have "cfg' = cfg" using r(2-4) by (auto simp: routes_exact_def intro!: same_config)
    then show ?thesis using cfg' by simp
  qed
  have "routes_exact cfg \<lparr>rx_bindings_ref = cf_bindings cfg, rx_agents_ref = cf_agents cfg, rx_session_ref = session_ref cfg, rx_by_key = []\<rparr>"
    by (simp add: routes_exact_def)
  then show ?thesis using kept by (cases "ca_routes c") (simp_all add: resolve_route_cache_def Let_def)
qed

text \<open>What is computed when no cached route answers.\<close>

definition compute_route :: "routing_config \<Rightarrow> route_query \<Rightarrow> route_caches \<Rightarrow> resolved_route \<times> route_caches" where
  "compute_route cfg y c =
     (let (bindings, c2) = get_evaluated_bindings cfg (qy_channel y) (qy_account_id y) c;
          (index, c3) = get_evaluated_index cfg (qy_channel y) (qy_account_id y) c2;
          (lookup, c4) = resolve_agent_lookup_cache cfg c3
      in ((case first_tier (query_scope y) (route_tiers y index) of
             Some (e, how) \<Rightarrow> choose_route cfg lookup y (ab_agent_id (eb_binding e)) how (ab_dm_scope (eb_binding e))
           | None \<Rightarrow> choose_route cfg lookup y (resolve_default_agent_id cfg) ByDefault None), c4))"

lemma resolve_agent_route_eq:
  "resolve_agent_route verbose cfg q c =
   (let y = route_query_of q;
        cached = (\<not> verbose \<and> cf_identity_links cfg = None);
        routes = resolve_route_cache cfg c;
        c1 = (if cached then c\<lparr>ca_routes := Some routes\<rparr> else c);
        key = route_cache_key y (case cf_dm_scope cfg of None \<Rightarrow> MainScope | Some s \<Rightarrow> s)
    in case (if cached then map_of (rx_by_key routes) key else None) of
         Some route \<Rightarrow> (route, c1)
       | None \<Rightarrow> (fst (compute_route cfg y c1),
                  if cached then (snd (compute_route cfg y c1))\<lparr>ca_routes := Some (remember_route key (fst (compute_route cfg y c1)) routes)\<rparr>
                  else snd (compute_route cfg y c1)))"
  unfolding resolve_agent_route_def compute_route_def Let_def split_beta fst_conv snd_conv ..

lemma computed_route:
  assumes c: "lookups_ok c" and y: "y = route_query_of q"
  obtains c' where "lookups_ok c'" "ca_routes c' = ca_routes c" "compute_route cfg y c = (reference_route cfg y, c')"
proof -
  let ?ch = "qy_channel y" and ?a = "qy_account_id y"
  let ?l = "evaluated_for (build_evaluated_bindings_by_channel cfg) ?ch ?a"
  have a: "9 \<notin> set ?a" using account_no_tab(2) y by simp
  have keep: "lookups_ok (d\<lparr>ca_bindings := Some ec\<rparr>)" if "lookups_ok d" "bindings_exact cfg ec" for d ec
    using that by (auto simp: lookups_ok_def)
  obtain ec where b: "get_evaluated_bindings cfg ?ch ?a c = (?l, c\<lparr>ca_bindings := Some ec\<rparr>)" "bindings_exact cfg ec"
    using evaluated_exact [OF c a, of cfg ?ch] by (metis prod.collapse)
  let ?c2 = "c\<lparr>ca_bindings := Some ec\<rparr>"
  have c2: "lookups_ok ?c2" using keep [OF c b(2)] .
  obtain ed where x: "get_evaluated_index cfg ?ch ?a ?c2 = (build_evaluated_bindings_index ?l, ?c2\<lparr>ca_bindings := Some ed\<rparr>)"
    "bindings_exact cfg ed"
    using index_exact [OF c2 a, of cfg ?ch] by (metis prod.collapse)
  let ?c3 = "?c2\<lparr>ca_bindings := Some ed\<rparr>"
  have c3: "lookups_ok ?c3" using keep [OF c2 x(2)] .
  obtain c4 where l: "resolve_agent_lookup_cache cfg ?c3 = (build_agent_lookup cfg, c4)" "lookups_ok c4" "ca_routes c4 = ca_routes c"
    using lookup_exact [OF c3, of cfg] by (cases "resolve_agent_lookup_cache cfg ?c3") simp
  have "clean_query y" using y by simp
  note search_reference [OF this, of cfg]
  then show thesis using that [OF l(2,3)] by (simp only: compute_route_def b(1) x(1) l(1) Let_def prod.case)
qed

text \<open>Without cached routes every answer is the reference answer.\<close>

lemma resolve_exact:
  assumes "lookups_ok c" "ca_routes c = None"
  shows "fst (resolve_agent_route verbose cfg q c) = reference_route cfg (route_query_of q)"
proof -
  have no_hit: "rx_by_key (resolve_route_cache cfg c) = []" using assms(2) by (simp add: resolve_route_cache_def Let_def)
  have "lookups_ok (c\<lparr>ca_routes := Some r\<rparr>)" for r using assms(1) by (simp add: lookups_ok_def)
  then have "fst (compute_route cfg (route_query_of q) d) = reference_route cfg (route_query_of q)"
    if "d = c \<or> d = c\<lparr>ca_routes := Some (resolve_route_cache cfg c)\<rparr>" for d
    using computed_route [of d _ q cfg, OF _ refl] assms(1) that by (metis fst_conv)
  then show ?thesis by (simp add: resolve_agent_route_eq Let_def no_hit)
qed

text \<open>With cached routes it is the reference answer for tidy requests.\<close>

lemma resolve_step:
  assumes c: "route_caches_ok c" and tidy: "tidy_query (route_query_of q)"
  shows "fst (resolve_agent_route verbose cfg q c) = reference_route cfg (route_query_of q)"
    and "route_caches_ok (snd (resolve_agent_route verbose cfg q c))"
proof -
  let ?y = "route_query_of q" and ?r = "resolve_route_cache cfg c"
  let ?key = "route_cache_key ?y (case cf_dm_scope cfg of None \<Rightarrow> MainScope | Some s \<Rightarrow> s)"
  have r: "routes_exact cfg ?r" using c by (rule current_routes_exact)
  have a: "9 \<notin> set (qy_account_id ?y)" by (rule account_no_tab(2))
  have hit: "route = reference_route cfg ?y" if "map_of (rx_by_key ?r) ?key = Some route" for route
    using r that tidy a by (simp add: routes_exact_def)
  have look: "lookups_ok c" "lookups_ok (c\<lparr>ca_routes := Some s\<rparr>)" for s
    using c by (simp_all add: route_caches_ok_def lookups_ok_def)
  note put = routes_exact_put [OF r tidy a]
  obtain d where d: "lookups_ok d" "ca_routes d = ca_routes c" "compute_route cfg ?y c = (reference_route cfg ?y, d)"
    using look(1) refl by (rule computed_route)
  obtain e where e: "lookups_ok e" "compute_route cfg ?y (c\<lparr>ca_routes := Some ?r\<rparr>) = (reference_route cfg ?y, e)"
    using computed_route [OF look(2) refl] by metis
  have off: "route_caches_ok d" using c d by (simp add: route_caches_ok_def)
  have on: "route_caches_ok (c\<lparr>ca_routes := Some ?r\<rparr>)"
    "route_caches_ok (e\<lparr>ca_routes := Some (remember_route ?key (reference_route cfg ?y) ?r)\<rparr>)"
    using look r put e(1) by (auto simp: route_caches_ok_def lookups_ok_def)
  show "fst (resolve_agent_route verbose cfg q c) = reference_route cfg ?y"
    using hit by (auto simp: resolve_agent_route_eq Let_def d(3) e(2) split: option.split)
  show "route_caches_ok (snd (resolve_agent_route verbose cfg q c))"
  proof (cases "\<not> verbose \<and> cf_identity_links cfg = None")
    case True
    then show ?thesis using on by (simp add: resolve_agent_route_eq Let_def e(2) split: option.split)
  next
    case False
    then show ?thesis using off by (simp only: resolve_agent_route_eq Let_def d(3) if_False option.case snd_conv)
  qed
qed

interpretation lookups: memoized resolve_agent_lookup_cache lookups_ok "\<lambda>cfg. True" build_agent_lookup
  by unfold_locales (simp_all add: lookup_exact)

interpretation routes: memoized "\<lambda>(verbose, cfg, q). resolve_agent_route verbose cfg q" route_caches_ok
    "\<lambda>(verbose, cfg, q). tidy_query (route_query_of q)" "\<lambda>(verbose, cfg, q). reference_route cfg (route_query_of q)"
  by unfold_locales (auto simp: resolve_step)

end
