(* ===== verification/RoutingProps.thy ===== *)
theory RoutingProps
  imports RouteCaches
begin

text \<open>
  What routing promises: a message goes to the first binding of the best rank, the caches never
  change that answer, and session keys name conversations, exactly up to those that are spelled alike,
  and can be read back.
\<close>

section \<open>Routes\<close>

text \<open>C23: The merged, indexed search tier by tier sends a request to the first binding, in the order
  of the configuration, among those of the best rank (peer, parent peer, kind of peer, guild with
  roles, guild, team, account, channel), or to the default agent when no binding matches: the
  route is the one read off the list of bindings.
\<close>

theorem route_is_first_best:
  "fst (resolve_agent_route verbose cfg q no_caches) = reference_route cfg (route_query_of q)"
  by (rule resolve_exact, simp, simp add: no_caches_def)

text \<open>A sequence of requests: each may come with another configuration and verbosity.\<close>

definition run_routes :: "(bool \<times> routing_config \<times> route_request) list \<Rightarrow> route_caches \<Rightarrow> resolved_route list" where
  "run_routes = ask_all (\<lambda>(verbose, cfg, q). resolve_agent_route verbose cfg q)"

definition tidy_history :: "(bool \<times> routing_config \<times> route_request) list \<Rightarrow> bool" where
  "tidy_history history \<longleftrightarrow> list_all (\<lambda>(verbose, cfg, q). tidy_query (route_query_of q)) history"

text \<open>C24: Over any sequence of requests, with changing configurations, every answer is the one that
  the bindings of its own configuration give, whatever the caches of lookups, evaluated bindings,
  indexes and resolved routes hold by then, provided the texts of the requests do not contain the
  separators of the cache keys.
\<close>

theorem cached_routes_are_exact:
  assumes "tidy_history history"
  shows "run_routes history no_caches =
         map (\<lambda>(verbose, cfg, q). reference_route cfg (route_query_of q)) history"
  using assms no_caches_ok(1) unfolding run_routes_def tidy_history_def by (rule routes.cache_is_invisible)

definition sample_request :: "jstring list \<Rightarrow> route_request" where
  "sample_request roles = \<lparr>rq_channel = js ''x'', rq_account_id = None,
     rq_peer = Some \<lparr>rp_kind = GroupChat, rp_id = js ''7''\<rparr>, rq_parent_peer = None,
     rq_guild_id = None, rq_team_id = None, rq_member_role_ids = Some roles\<rparr>"

definition sample_config :: "agent_binding list \<Rightarrow> routing_config" where
  "sample_config bs = \<lparr>cf_agents = None, cf_bindings = Some bs, cf_dm_scope = None, cf_identity_links = None\<rparr>"

definition sample_binding :: "string \<Rightarrow> binding_peer option \<Rightarrow> agent_binding" where
  "sample_binding agent peer = \<lparr>ab_is_acp = False, ab_agent_id = js agent,
     ab_match = Some \<lparr>bm_channel = Some (js ''x''), bm_account_id = Some (js ''*''), bm_peer = peer,
       bm_guild_id = Undef, bm_team_id = Undef, bm_roles = None\<rparr>, ab_dm_scope = None\<rparr>"

definition sample_history :: "(bool \<times> routing_config \<times> route_request) list" where
  "sample_history =
     [(False, sample_config [sample_binding ''a'' None, sample_binding ''b'' (Some \<lparr>bp_kind = Some (js ''group''), bp_id = Str (js ''7'')\<rparr>)],
       sample_request [js ''r'', js ''s'']),
      (False, sample_config [sample_binding ''a'' None], sample_request [js ''r'', js ''s'']),
      (False, sample_config [sample_binding ''a'' None], sample_request [js ''s'', js ''r''])]"

lemmas sample_defs = sample_history_def sample_request_def sample_config_def sample_binding_def

lemma blank: "trim [] = []"
  by (simp add: trim_def)

lemma sample_tidy: "tidy_history sample_history"
  by (simp add: sample_defs tidy_history_def route_query_of_def tidy_query_def lower_or_empty trim_id normalize_peer_def
      trimmed_id_def tidy_peer_def tidy_text_def js_def is_ws_def lower_unit_def blank)

theorem cached_routes_are_exact_witness:
  "run_routes sample_history no_caches =
     map (\<lambda>(verbose, cfg, q). reference_route cfg (route_query_of q)) sample_history \<and>
   map (\<lambda>(verbose, cfg, q). rs_matched_by (reference_route cfg (route_query_of q))) sample_history
     = [ByPeer, ByChannel, ByChannel]"
proof
  show "run_routes sample_history no_caches = map (\<lambda>(verbose, cfg, q). reference_route cfg (route_query_of q)) sample_history"
    using sample_tidy by (rule cached_routes_are_exact)
  have x: "normalize_lowercase_string_or_empty (Str (js ''x'')) = js ''x''"
    by (simp add: lower_or_empty trim_id js_def is_ws_def lower_unit_def)
  have t: "trim (js ''7'') = js ''7''" "trim (js ''*'') = js ''*''" by (simp_all add: trim_id js_def is_ws_def)
  have g: "normalize_chat_type (Some (js ''group'')) = Some GroupChat"
    by (simp add: normalize_chat_type_def normalize_optional_lowercase_string_def normalize_optional_string_def
        normalize_nullable_string_def trim_id js_def is_ws_def lower_unit_def)
  show "map (\<lambda>(verbose, cfg, q). rs_matched_by (reference_route cfg (route_query_of q))) sample_history
     = [ByPeer, ByChannel, ByChannel]"
    by (simp add: sample_defs reference_route_def list_bindings_def list_route_bindings_def list_configured_bindings_def
        is_route_binding_def binding_applies_def binding_channel_def binding_pattern_def route_query_of_def x t
        trimmed_id_def blank binding_tier_def match_tier_def normalize_binding_match_def scope_ok_def
        route_binding_scope_matches_def scope_id_matches_def nonempty_def normalize_route_binding_id_def
        normalize_route_binding_roles_def query_scope_def normalize_peer_constraint_def g peer_is_def peer_kind_matches_def
        normalize_peer_def choose_route_def Let_def less_eq_matched_by_def or_empty_def)
qed

text \<open>
  Why the texts have to be free of separators: a peer without an identifier has the cache key of no
  peer, so a group message takes over the main session of the request before it.
\<close>

definition nameless_request :: "route_peer option \<Rightarrow> route_request" where
  "nameless_request peer = \<lparr>rq_channel = js ''x'', rq_account_id = None, rq_peer = peer, rq_parent_peer = None,
     rq_guild_id = None, rq_team_id = None, rq_member_role_ids = None\<rparr>"

lemma nameless_group_takes_main_session:
  fixes cfg :: routing_config
  assumes "cf_identity_links cfg = None"
  defines "alone \<equiv> nameless_request None" and "grouped \<equiv> nameless_request (Some \<lparr>rp_kind = GroupChat, rp_id = []\<rparr>)"
  shows "snd (resolve_agent_route False cfg alone no_caches) = c \<Longrightarrow>
         fst (resolve_agent_route False cfg grouped c) = reference_route cfg (route_query_of alone)"
proof -
  let ?y = "route_query_of alone" and ?r = "resolve_route_cache cfg no_caches"
  have key: "route_cache_key (route_query_of grouped) s = route_cache_key ?y s" for s
    by (simp add: alone_def grouped_def nameless_request_def route_query_of_def route_cache_key_def normalize_peer_def
        format_route_cache_peer_def named_peer_def blank)
  let ?key = "route_cache_key ?y (case cf_dm_scope cfg of None \<Rightarrow> MainScope | Some s \<Rightarrow> s)"
  have fresh: "rx_by_key ?r = []" "resolve_route_cache cfg (d\<lparr>ca_routes := Some (remember_route k route ?r)\<rparr>) = remember_route k route ?r" for d k route
    by (simp_all add: resolve_route_cache_def no_caches_def Let_def remember_route_def)
  have look: "lookups_ok (no_caches\<lparr>ca_routes := Some ?r\<rparr>)" by (simp add: lookups_ok_def no_caches_def)
  obtain d where d: "compute_route cfg ?y (no_caches\<lparr>ca_routes := Some ?r\<rparr>) = (reference_route cfg ?y, d)"
    using computed_route [OF look refl] by metis
  have cached: "map_of (rx_by_key (remember_route ?key (reference_route cfg ?y) ?r)) ?key = Some (reference_route cfg ?y)"
    by (simp add: remember_route_def Let_def js_simps)
  assume "snd (resolve_agent_route False cfg alone no_caches) = c"
  then have c: "c = d\<lparr>ca_routes := Some (remember_route ?key (reference_route cfg ?y) ?r)\<rparr>"
    using assms(1) by (simp add: resolve_agent_route_eq Let_def fresh(1) d)
  show ?thesis unfolding c using assms(1) cached by (simp add: resolve_agent_route_eq Let_def key fresh(2))
qed

section \<open>Session keys\<close>

text \<open>The spellings that two different conversations of one agent can share: an account that is called like
  a kind of chat, a channel that is called like the kind of direct chats, and a main key that is written
  like the key of another conversation.\<close>

fun spelled_alike :: "conversation \<Rightarrow> conversation \<Rightarrow> bool" where
  "spelled_alike (MainConversation a key) (MainConversation b key') \<longleftrightarrow> False"
| "spelled_alike (MainConversation a key) c \<longleftrightarrow> a = conversation_agent c \<and> key = conversation_rest c"
| "spelled_alike (DirectConversation a (Some ch) (Some account) peer) (DirectConversation b (Some ch') None peer') \<longleftrightarrow>
     a = b \<and> ch = ch' \<and> account = js ''direct'' \<and> peer' = js ''direct'' @ 58 # peer"
| "spelled_alike (DirectConversation a (Some ch) (Some account) peer) (RoomConversation b ch' kind room) \<longleftrightarrow>
     a = b \<and> ch = ch' \<and> account = chat_name kind \<and> room = js ''direct'' @ 58 # peer"
| "spelled_alike (DirectConversation a None account peer) (DirectConversation b (Some ch) None peer') \<longleftrightarrow>
     a = b \<and> ch = js ''direct'' \<and> peer = js ''direct'' @ 58 # peer'"
| "spelled_alike (DirectConversation a None account peer) (DirectConversation b (Some ch) (Some account') peer') \<longleftrightarrow>
     a = b \<and> ch = js ''direct'' \<and> peer = account' @ 58 # js ''direct'' @ 58 # peer'"
| "spelled_alike (DirectConversation a None account peer) (RoomConversation b ch kind room) \<longleftrightarrow>
     a = b \<and> ch = js ''direct'' \<and> peer = chat_name kind @ 58 # room"
| "spelled_alike c c' \<longleftrightarrow> False"

text \<open>Channels and accounts contain no colon; only rooms have the kind of a group or channel.\<close>

fun conversation_parted :: "conversation \<Rightarrow> bool" where
  "conversation_parted (MainConversation agent key) \<longleftrightarrow> True"
| "conversation_parted (DirectConversation agent None account peer) \<longleftrightarrow> account = None"
| "conversation_parted (DirectConversation agent (Some ch) None peer) \<longleftrightarrow> 58 \<notin> set ch"
| "conversation_parted (DirectConversation agent (Some ch) (Some account) peer) \<longleftrightarrow> 58 \<notin> set ch \<and> 58 \<notin> set account"
| "conversation_parted (RoomConversation agent ch kind peer) \<longleftrightarrow> 58 \<notin> set ch \<and> kind \<noteq> DirectChat"

lemma parted_conversation: "58 \<notin> set (key_channel p) \<Longrightarrow> conversation_parted (conversation_of p)"
  using account_no_colon [of "pp_account_id p"]
  by (cases "pp_peer_kind p"; cases "the (pp_peer_kind p)") (auto simp: conversation_of_def Let_def split: option.split)

lemma rest_alike:
  assumes "conversation_parted c" "conversation_parted d" "conversation_agent c = conversation_agent d"
  shows "conversation_rest c = conversation_rest d \<longleftrightarrow> c = d \<or> spelled_alike c d \<or> spelled_alike d c"
proof -
  have kinds: "chat_name k = chat_name l \<longleftrightarrow> k = l" for k l by (cases k; cases l; simp)
  have direct: "chat_name k = js ''direct'' \<longleftrightarrow> k = DirectChat" "js ''direct'' = chat_name k \<longleftrightarrow> k = DirectChat" for k by (cases k; simp)+
  note cut = append_char_inj [of 58]
  show ?thesis
    using assms
    by (cases c rule: conversation_parted.cases; cases d rule: conversation_parted.cases)
       (auto simp: cut colon kinds direct)
qed

text \<open>C25: Two session keys are equal exactly when they are built for the same conversation (the same agent
  and main session, the same direct chat as far as the scope of direct messages tells its channel and
  account apart, or the same room of a channel), or for two that are spelled alike: a direct chat of
  an account that is called \<open>group\<close>, \<open>channel\<close> or \<open>direct\<close> and a room or chat whose identifier starts with
  \<open>direct:\<close>, a chat of a channel called \<open>direct\<close>, or a main key with the text of another conversation's
  key. The channels are assumed to contain no colon.\<close>

theorem session_keys_name_conversations:
  assumes "58 \<notin> set (key_channel p)" "58 \<notin> set (key_channel q)"
  shows "build_agent_peer_session_key p = build_agent_peer_session_key q \<longleftrightarrow>
    conversation_of p = conversation_of q \<or> spelled_alike (conversation_of p) (conversation_of q) \<or>
    spelled_alike (conversation_of q) (conversation_of p)"
    (is "_ \<longleftrightarrow> ?same")
proof -
  let ?c = "conversation_of p" and ?d = "conversation_of q"
  have agents: "conversation_agent ?c = conversation_agent ?d" if "?same"
    using that by (cases "(?c, ?d)" rule: spelled_alike.cases; cases "(?d, ?c)" rule: spelled_alike.cases) auto
  have "build_agent_peer_session_key p = build_agent_peer_session_key q \<longleftrightarrow>
      conversation_agent ?c = conversation_agent ?d \<and> conversation_rest ?c = conversation_rest ?d"
    using append_char_inj [OF agent_no_colon agent_no_colon] by (simp add: key_of_conversation conversation_agent_of)
  with agents rest_alike [OF parted_conversation parted_conversation, OF assms] show ?thesis by blast
qed

text \<open>With plain names there is nothing that is spelled alike.\<close>

lemma plain_session_keys:
  assumes "plain_names p" "plain_names q"
  shows "build_agent_peer_session_key p = build_agent_peer_session_key q \<longleftrightarrow> conversation_of p = conversation_of q"
proof
  assume "build_agent_peer_session_key p = build_agent_peer_session_key q"
  then have "conversation_agent (conversation_of p) @ 58 # conversation_rest (conversation_of p) =
      conversation_agent (conversation_of q) @ 58 # conversation_rest (conversation_of q)"
    by (simp add: key_of_conversation)
  then have "conversation_agent (conversation_of p) = conversation_agent (conversation_of q)"
    "conversation_rest (conversation_of p) = conversation_rest (conversation_of q)"
    using append_char_inj [OF agent_no_colon agent_no_colon] by (auto simp: conversation_agent_of)
  then show "conversation_of p = conversation_of q"
    using rest_inj [OF plain_conversation plain_conversation] assms by blast
qed (simp add: key_of_conversation)

definition sample_params :: "string \<Rightarrow> string \<Rightarrow> peer_key_params" where
  "sample_params account peer =
     \<lparr>pp_agent_id = js ''main'', pp_main_key = None, pp_channel = js ''x'', pp_account_id = Some (js account),
      pp_peer_kind = Some DirectChat, pp_peer_id = Some (js peer), pp_identity_links = None,
      pp_dm_scope = Some PerAccountChannelPeer\<rparr>"

lemma sample_fields [simp]:
  "pp_main_key (sample_params a u) = None" "pp_channel (sample_params a u) = js ''x''"
  "pp_account_id (sample_params a u) = Some (js a)" "pp_peer_kind (sample_params a u) = Some DirectChat"
  "pp_peer_id (sample_params a u) = Some (js u)" "pp_identity_links (sample_params a u) = None"
  "pp_dm_scope (sample_params a u) = Some PerAccountChannelPeer" "pp_agent_id (sample_params a u) = js ''main''"
  by (simp_all add: sample_params_def)

lemma sample_peer: "direct_peer_id (sample_params a ''u'') s = js ''u''"
  by (simp add: direct_peer_id_def trimmed_id_def resolve_linked_peer_id_def lower_or_empty trim_id js_def
      is_ws_def lower_unit_def Let_def)

lemma plain_word:
  "normalize_lowercase_string_or_empty (Str (js ''x'')) = js ''x''" "normalize_lowercase_string_or_empty Undef = []"
  "normalize_account_id (Some (js ''a'')) = js ''a''" "normalize_account_id (Some (js ''b'')) = js ''b''"
  by (simp_all add: lower_or_empty trim_id js_def is_ws_def lower_unit_def normalize_account_id_def trimmed_id_def
      normalize_canonical_account_id_def canonicalize_account_id_def valid_id_def id_char_def is_blocked_object_key_def Let_def
      normalize_lowercase_string_or_empty_def normalize_optional_lowercase_string_def normalize_optional_string_def
      normalize_nullable_string_def)

lemma sample_plain: "plain_names (sample_params ''a'' ''u'')" "plain_names (sample_params ''b'' ''u'')"
  by (simp_all add: plain_names_def key_channel_def plain_word or_default_def normalize_main_key_def default_main_key_def)
     (simp_all add: js_def)

text \<open>An account called like a kind of chat makes a direct chat share the key of a room.\<close>

lemma account_named_group:
  "conversation_of (sample_params ''group'' ''u'') =
     DirectConversation (normalize_agent_id (Some (js ''main''))) (Some (js ''x'')) (Some (js ''group'')) (js ''u'')"
  "conversation_of ((sample_params ''main'' ''direct:u'')\<lparr>pp_peer_kind := Some GroupChat\<rparr>) =
     RoomConversation (normalize_agent_id (Some (js ''main''))) (js ''x'') GroupChat (js ''direct:u'')"
proof -
  have peer: "normalize_lowercase_string_or_empty (Str (js ''direct:u'')) = js ''direct:u''"
    by (simp add: lower_or_empty trim_id js_def is_ws_def lower_unit_def)
  have account: "normalize_account_id (Some (js ''group'')) = js ''group''"
    by (simp add: lower_or_empty trim_id js_def is_ws_def lower_unit_def normalize_account_id_def trimmed_id_def
      normalize_canonical_account_id_def canonicalize_account_id_def valid_id_def id_char_def is_blocked_object_key_def Let_def)
  have agent: "pp_agent_id (sample_params a u) = js ''main''" for a u by (simp add: sample_params_def)
  show "conversation_of (sample_params ''group'' ''u'') =
      DirectConversation (normalize_agent_id (Some (js ''main''))) (Some (js ''x'')) (Some (js ''group'')) (js ''u'')"
    by (simp add: conversation_of_def sample_peer key_channel_def plain_word or_default_def account agent)
  show "conversation_of ((sample_params ''main'' ''direct:u'')\<lparr>pp_peer_kind := Some GroupChat\<rparr>) =
      RoomConversation (normalize_agent_id (Some (js ''main''))) (js ''x'') GroupChat (js ''direct:u'')"
    by (simp add: conversation_of_def key_channel_def plain_word or_default_def peer agent)
qed

theorem session_keys_name_conversations_witness:
  "build_agent_peer_session_key (sample_params ''a'' ''u'') \<noteq> build_agent_peer_session_key (sample_params ''b'' ''u'') \<and>
   build_agent_peer_session_key (sample_params ''group'' ''u'') =
     build_agent_peer_session_key ((sample_params ''main'' ''direct:u'')\<lparr>pp_peer_kind := Some GroupChat\<rparr>)"
proof -
  have no: "58 \<notin> set (key_channel (sample_params a u))" "58 \<notin> set (key_channel ((sample_params a u)\<lparr>pp_peer_kind := k\<rparr>))" for a u k
    by (simp_all add: key_channel_def plain_word or_default_def) (simp_all add: js_def)
  have "conversation_of (sample_params ''a'' ''u'') =
      DirectConversation (normalize_agent_id (Some (js ''main''))) (Some (js ''x'')) (Some (js ''a'')) (js ''u'')"
    "conversation_of (sample_params ''b'' ''u'') =
      DirectConversation (normalize_agent_id (Some (js ''main''))) (Some (js ''x'')) (Some (js ''b'')) (js ''u'')"
    by (simp_all add: conversation_of_def sample_peer key_channel_def plain_word or_default_def)
  then have "build_agent_peer_session_key (sample_params ''a'' ''u'') \<noteq> build_agent_peer_session_key (sample_params ''b'' ''u'')"
    using session_keys_name_conversations [OF no(1) [of "''a''" "''u''"] no(1) [of "''b''" "''u''"]] by simp
  moreover have "spelled_alike (conversation_of (sample_params ''group'' ''u''))
      (conversation_of ((sample_params ''main'' ''direct:u'')\<lparr>pp_peer_kind := Some GroupChat\<rparr>))"
    by (simp add: account_named_group) (simp add: js_def)
  ultimately show ?thesis using session_keys_name_conversations [OF no] by blast
qed

definition whole_parts :: "peer_key_params \<Rightarrow> bool" where
  "whole_parts p \<longleftrightarrow>
     (let parts = split_colon (conversation_rest (conversation_of p)) in [] \<notin> set parts \<and> hd parts \<noteq> js ''agent'')"

lemma rest_main:
  assumes "conversation_rest (conversation_of p) = js ''main''"
  shows "normalize_main_key (pp_main_key p) = js ''main''"
proof -
  have "58 \<notin> set (conversation_rest (conversation_of p))" using assms by (simp add: js_def)
  then have "\<exists>a. conversation_of p = MainConversation a (normalize_main_key (pp_main_key p))"
    by (auto simp: conversation_of_def Let_def split: option.splits chat_type.splits if_splits)
  then show ?thesis using assms by auto
qed

text \<open>
  The agent a key was built for is the agent read from it, and a key whose parts are not empty
  survives the way through requests: what the agent is asked for and stored under again is the key.
\<close>

lemma session_key_roundtrip:
  assumes plain: "plain_names p" and agent: "is_valid_agent_id (Some (pp_agent_id p))" and whole: "whole_parts p"
  shows "resolve_agent_id_from_session_key (Some (build_agent_peer_session_key p)) = normalize_agent_id (Some (pp_agent_id p)) \<and>
    to_agent_store_session_key (pp_agent_id p) (to_agent_request_session_key (Some (build_agent_peer_session_key p))) (pp_main_key p)
      = build_agent_peer_session_key p"
proof
  let ?K = "build_agent_peer_session_key p" and ?r = "conversation_rest (conversation_of p)"
  let ?a = "normalize_agent_id (Some (pp_agent_id p))"
  have parts: "[] \<notin> set (split_colon ?r)" "hd (split_colon ?r) \<noteq> js ''agent''" using whole by (simp_all add: whole_parts_def Let_def)
  then have all: "filter (\<lambda>s. s \<noteq> []) (split_colon ?r) = split_colon ?r" by (auto simp: filter_id_conv)
  have parsed: "parse_agent_session_key (Some ?K) = Some \<lparr>pk_agent_id = ?a, pk_rest = ?r\<rparr>"
    using plain_agent_key [OF plain] by (simp only: all join_split_colon)
  show "resolve_agent_id_from_session_key (Some ?K) = ?a"
    by (simp add: resolve_agent_id_from_session_key_def parsed normalize_valid_agent [OF agent])
  have rest: "?r \<noteq> []" "trim ?r = ?r" "lower ?r = ?r"
    using rest_key_text [of p] by (simp_all add: key_text_def trim_id)
  have "parse_agent_session_key (Some ?r) = None"
    using parts(2) by (simp add: parse_agent_session_key_def normalize_optional_lowercase_string_def
        normalize_optional_string_def normalize_nullable_string_def rest all Let_def)
  moreover have "\<not> starts_with ?r (js ''agent:'')"
    using parts(2) by (auto simp: starts_with_append colon split_colon_cut)
  moreover have "to_agent_request_session_key (Some ?K) = Some ?r"
    using session_key_fixed [of p] by (simp add: to_agent_request_session_key_def trimmed_id_def parsed)
  moreover have "build_agent_main_session_key (pp_agent_id p) (pp_main_key p) = ?K" if "?r = js ''main''"
    using rest_main [OF that] that
    by (simp add: build_agent_main_session_key_def key_of_conversation conversation_agent_of colon)
  ultimately show "to_agent_store_session_key (pp_agent_id p) (to_agent_request_session_key (Some ?K)) (pp_main_key p) = ?K"
    using rest by (auto simp: to_agent_store_session_key_def trimmed_id_def lower_or_empty default_main_key_def Let_def
        key_of_conversation conversation_agent_of colon)
qed

lemma session_key_roundtrip_example:
  "resolve_agent_id_from_session_key (Some (build_agent_peer_session_key (sample_params ''a'' ''u''))) = js ''main'' \<and>
   to_agent_store_session_key (js ''main'') (to_agent_request_session_key (Some (build_agent_peer_session_key (sample_params ''a'' ''u'')))) None
     = build_agent_peer_session_key (sample_params ''a'' ''u'')"
proof -
  have id: "pp_agent_id (sample_params ''a'' ''u'') = js ''main''" by (simp add: sample_params_def)
  have valid: "is_valid_agent_id (Some (js ''main''))" "normalize_agent_id (Some (js ''main'')) = js ''main''"
    by (simp_all add: is_valid_agent_id_def normalize_agent_id_def lower_or_empty trimmed_id_def trim_id js_def is_ws_def
        valid_id_def id_char_def lower_unit_def Let_def)
  have "conversation_rest (conversation_of (sample_params ''a'' ''u'')) = js ''x'' @ 58 # js ''a'' @ 58 # js ''direct'' @ 58 # js ''u''"
    by (simp add: conversation_of_def sample_peer key_channel_def plain_word or_default_def)
  then have "whole_parts (sample_params ''a'' ''u'')" by (simp add: whole_parts_def) (simp add: js_def)
  then show ?thesis using session_key_roundtrip [OF sample_plain(1)] valid by (simp add: id)
qed

text \<open>
  An identifier that is not valid is cut at 64 characters after its dashes were stripped, so the
  agent read back from a key may be another one.
\<close>

lemma normalize_underscore:
  assumes "set s \<subseteq> {c. id_char c}" "s \<noteq> []" "hd s = 95"
  shows "normalize_agent_id (Some s) = or_default (take 64 (strip_dashes s)) default_agent_id"
proof -
  have "dash_invalid s = s" using assms(1) by (induction s rule: dash_invalid.induct) auto
  then show ?thesis using assms lower_fixed trim_fixed
    by (simp add: normalize_agent_id_def trimmed_id_def lower_or_empty valid_id_def Let_def)
qed

lemma long_agent_id_is_not_read_back:
  defines "name \<equiv> 95 # replicate 62 97 @ [45, 98]"
  shows "normalize_agent_id (Some (normalize_agent_id (Some name))) \<noteq> normalize_agent_id (Some name)"
proof -
  let ?cut = "95 # replicate 62 97 @ [45]"
  have "id_char 95" "id_char 97" "id_char 45" "id_char 98" by (simp_all add: id_char_def)
  then have ids: "set name \<subseteq> {c. id_char c}" "set ?cut \<subseteq> {c. id_char c}" by (auto simp: name_def)
  have "strip_dashes name = name" "strip_dashes ?cut = 95 # replicate 62 97"
    by (simp_all add: strip_dashes_def name_def flip: replicate_append_same)
  then have "normalize_agent_id (Some name) = ?cut" "normalize_agent_id (Some ?cut) = 95 # replicate 62 97"
    using normalize_underscore [OF ids(1)] normalize_underscore [OF ids(2)] by (simp_all add: name_def or_default_def)
  then show ?thesis by simp
qed

end
