(* ===== verification/FollowupTypes.thy ===== *)
theory FollowupTypes
  imports ChannelRoute
begin

text \<open>
  The messages that wait while an agent is busy and how they are put into prompts
  (\<open>openclaw-main/src/auto-reply/reply/queue/types.ts\<close>, \<open>normalize.ts\<close>, \<open>settings.ts\<close>,
  \<open>queue-policy.ts\<close>, \<open>utils/queue-helpers.ts\<close> and the pure functions of \<open>drain.ts\<close>).

  A message refers to the options of its run by a number, because the run objects are shared and
  rewritten in place; fields that the queue never looks at are left out. Abort signals, life
  cycles, images and correlations are named by numbers. A combined abort signal is the list of its
  sources. Delays, caps and times are whole numbers.
\<close>

section \<open>Settings\<close>

datatype queue_mode = SteerMode | FollowupMode | CollectMode | InterruptMode

datatype drop_policy = DropOld | DropNew | Summarize

record queue_settings =
  qs_mode :: queue_mode
  qs_debounce :: "int option"
  qs_cap :: "int option"
  qs_drop :: "drop_policy option"

definition normalize_queue_mode :: "jstring option \<Rightarrow> queue_mode option" where
  "normalize_queue_mode raw =
     (case normalize_optional_lowercase_string (of_string raw) of None \<Rightarrow> None
      | Some c \<Rightarrow>
          if c \<in> set (map js [''interrupt'', ''interrupts'', ''abort'']) then Some InterruptMode
          else if c \<in> set (map js [''steer'', ''steering'']) then Some SteerMode
          else if c \<in> set (map js [''followup'', ''follow-ups'', ''followups'']) then Some FollowupMode
          else if c \<in> set (map js [''collect'', ''coalesce'']) then Some CollectMode else None)"

definition normalize_persisted_queue_mode :: "jstring option \<Rightarrow> queue_mode option" where
  "normalize_persisted_queue_mode raw =
     (case normalize_queue_mode raw of Some m \<Rightarrow> Some m
      | None \<Rightarrow>
          (case normalize_optional_lowercase_string (of_string raw) of None \<Rightarrow> None
           | Some c \<Rightarrow>
               if c \<in> set (map js [''queue'', ''queued'']) then Some SteerMode
               else if c \<in> set (map js [''steer+backlog'', ''steer-backlog'', ''steer_backlog'']) then Some FollowupMode
               else None))"

definition normalize_queue_drop_policy :: "jstring option \<Rightarrow> drop_policy option" where
  "normalize_queue_drop_policy raw =
     (case normalize_optional_lowercase_string (of_string raw) of None \<Rightarrow> None
      | Some c \<Rightarrow>
          if c \<in> set (map js [''old'', ''oldest'']) then Some DropOld
          else if c \<in> set (map js [''new'', ''newest'']) then Some DropNew
          else if c \<in> set (map js [''summarize'', ''summary'']) then Some Summarize else None)"

definition default_queue_debounce_ms :: int where "default_queue_debounce_ms = 500"
definition default_queue_cap :: int where "default_queue_cap = 20"
definition default_queue_drop :: drop_policy where "default_queue_drop = Summarize"

definition default_queue_mode_for_channel :: "jstring option \<Rightarrow> queue_mode" where
  "default_queue_mode_for_channel channel = SteerMode"

definition first_given :: "'a option \<Rightarrow> 'a option \<Rightarrow> 'a option" where
  "first_given a b = (case a of None \<Rightarrow> b | Some x \<Rightarrow> Some x)"

definition resolve_channel_debounce :: "int obj option \<Rightarrow> jstring option \<Rightarrow> int option" where
  "resolve_channel_debounce by_channel channel_key =
     (case (by_channel, channel_key) of
        (Some m, Some k) \<Rightarrow> if k = [] then None else map_option (max 0) (obj_get m k)
      | _ \<Rightarrow> None)"

record queue_config =
  qc_by_channel :: "jstring obj option"
  qc_mode :: "jstring option"
  qc_debounce_by_channel :: "int obj option"
  qc_debounce :: "int option"
  qc_cap :: "int option"
  qc_drop :: "jstring option"

record queue_choices =
  qh_channel :: "jstring option"
  qh_session_mode :: "jstring option"
  qh_session_debounce :: "int option"
  qh_session_cap :: "int option"
  qh_session_drop :: "drop_policy option"
  qh_inline_mode :: "queue_mode option"
  qh_inline_debounce :: "int option"
  qh_inline_cap :: "int option"
  qh_inline_drop :: "drop_policy option"
  qh_plugin_debounce :: "int option"

definition resolve_queue_settings :: "queue_config option \<Rightarrow> queue_choices \<Rightarrow> queue_settings" where
  "resolve_queue_settings cfg h =
     (let key = normalize_optional_lowercase_string (of_string (qh_channel h));
          provider_mode = (case (key, Option.bind cfg qc_by_channel) of (Some k, Some m) \<Rightarrow> obj_get m k | _ \<Rightarrow> None);
          mode = first_given (qh_inline_mode h) (first_given (normalize_persisted_queue_mode (qh_session_mode h))
            (first_given (normalize_queue_mode provider_mode) (normalize_queue_mode (Option.bind cfg qc_mode))));
          debounce = first_given (qh_inline_debounce h) (first_given (qh_session_debounce h)
            (first_given (resolve_channel_debounce (Option.bind cfg qc_debounce_by_channel) key)
              (first_given (qh_plugin_debounce h) (first_given (Option.bind cfg qc_debounce) (Some default_queue_debounce_ms)))));
          cap = first_given (qh_inline_cap h) (first_given (qh_session_cap h) (first_given (Option.bind cfg qc_cap) (Some default_queue_cap)));
          drop_rule = first_given (qh_inline_drop h) (first_given (qh_session_drop h)
            (first_given (normalize_queue_drop_policy (Option.bind cfg qc_drop)) (Some default_queue_drop)))
      in \<lparr>qs_mode = (case mode of None \<Rightarrow> default_queue_mode_for_channel key | Some m \<Rightarrow> m),
          qs_debounce = map_option (max 0) debounce, qs_cap = map_option (max 1) cap, qs_drop = drop_rule\<rparr>)"

text \<open>What \<open>settings-runtime.ts\<close> adds: the default of the plugin of the channel, an outside table.\<close>

definition resolve_queue_settings_with_plugin ::
  "(jstring \<Rightarrow> int option) \<Rightarrow> queue_config option \<Rightarrow> queue_choices \<Rightarrow> queue_settings" where
  "resolve_queue_settings_with_plugin plugin_debounce cfg h =
     (let key = normalize_optional_lowercase_string (of_string (qh_channel h));
          default = (case key of None \<Rightarrow> None | Some k \<Rightarrow> map_option (max 0) (plugin_debounce k))
      in resolve_queue_settings cfg (h\<lparr>qh_plugin_debounce := first_given (qh_plugin_debounce h) default\<rparr>))"

datatype active_run_action = RunNow | EnqueueFollowup | DropMessage

definition resolve_active_run_queue_action :: "bool \<Rightarrow> bool \<Rightarrow> bool \<Rightarrow> queue_mode \<Rightarrow> bool \<Rightarrow> active_run_action" where
  "resolve_active_run_queue_action active heartbeat should_followup mode reset =
     (if \<not> active then RunNow else if heartbeat then DropMessage else if reset then RunNow
      else if should_followup then EnqueueFollowup else RunNow)"

section \<open>Messages\<close>

record exec_overrides =
  ex_host :: "jstring option"
  ex_security :: "jstring option"
  ex_ask :: "jstring option"
  ex_node :: "jstring option"

record bash_elevated =
  be_enabled :: bool
  be_allowed :: bool
  be_default_level :: jstring

datatype choice_source = AutoChoice | UserChoice

record run_options =
  ro_session_id :: jstring
  ro_session_file :: jstring
  ro_sender_id :: "jstring option"
  ro_sender_name :: "jstring option"
  ro_sender_username :: "jstring option"
  ro_sender_e164 :: "jstring option"
  ro_sender_is_owner :: "bool option"
  ro_exec :: "exec_overrides option"
  ro_bash :: "bash_elevated option"
  ro_provider :: jstring
  ro_model :: jstring
  ro_has_model_override :: "bool option"
  ro_model_source :: "choice_source option"
  ro_auth_profile :: "jstring option"
  ro_auth_source :: "choice_source option"

datatype turn_kind = UserRequest | RoomEvent

record followup_run =
  fu_id :: nat
  fu_prompt :: jstring
  fu_turn_kind :: "turn_kind option"
  fu_turn_context :: "nat option"
  fu_signal :: "nat list"
  fu_correlations :: "nat list"
  fu_lifecycle :: "nat option"
  fu_message_id :: "jstring option"
  fu_summary_line :: "jstring option"
  fu_enqueued_at :: int
  fu_images :: "nat list"
  fu_image_order :: "nat list"
  fu_channel :: "jstring option"
  fu_to :: "jstring option"
  fu_account_id :: "jstring option"
  fu_thread_id :: jsval
  fu_run :: nat

type_synonym run_heap = "nat \<Rightarrow> run_options"

definition is_followup_run_aborted :: "nat list \<Rightarrow> followup_run \<Rightarrow> bool" where
  "is_followup_run_aborted aborted r \<longleftrightarrow> list_ex (\<lambda>s. s \<in> set aborted) (fu_signal r)"

definition route_input_of :: "followup_run \<Rightarrow> route_input" where
  "route_input_of r = blank_input\<lparr>ri_channel := of_string (fu_channel r), ri_to := of_string (fu_to r),
     ri_account_id := of_string (fu_account_id r), ri_thread_id := fu_thread_id r\<rparr>"

definition followup_route_identity_key :: "followup_run \<Rightarrow> jstring" where
  "followup_route_identity_key r = channel_route_dedupe_key (Some (route_input_of r))"

definition build_recent_message_id_key :: "followup_run \<Rightarrow> jstring \<Rightarrow> jstring option" where
  "build_recent_message_id_key r queue_key =
     (case normalize_optional_string (of_string (fu_message_id r)) of None \<Rightarrow> None
      | Some i \<Rightarrow> Some (stringify_str (Arr [Str (js ''queue''), Str queue_key, Str (followup_route_identity_key r), Str i])))"

definition is_run_already_queued :: "followup_run \<Rightarrow> followup_run list \<Rightarrow> bool \<Rightarrow> bool" where
  "is_run_already_queued r items prompt_fallback =
     (let same = (\<lambda>i. followup_route_identity_key i = followup_route_identity_key r) in
      case normalize_optional_string (of_string (fu_message_id r)) of
        Some m \<Rightarrow> list_ex (\<lambda>i. normalize_optional_string (of_string (fu_message_id i)) = Some m \<and> same i) items
      | None \<Rightarrow> prompt_fallback \<and> list_ex (\<lambda>i. fu_prompt i = fu_prompt r \<and> same i) items)"

section \<open>Authorization and collection\<close>

definition authorization_fields :: "run_options \<Rightarrow> jsval list" where
  "authorization_fields r =
     (let exec_field = (\<lambda>f. Str (or_empty (Option.bind (ro_exec r) f))) in
      [Str (or_empty (ro_sender_id r)), Str (or_empty (ro_sender_e164 r)), Bool (ro_sender_is_owner r = Some True),
       exec_field ex_host, exec_field ex_security, exec_field ex_ask, exec_field ex_node,
       Bool (case ro_bash r of None \<Rightarrow> False | Some b \<Rightarrow> be_enabled b),
       Bool (case ro_bash r of None \<Rightarrow> False | Some b \<Rightarrow> be_allowed b),
       Str (case ro_bash r of None \<Rightarrow> [] | Some b \<Rightarrow> be_default_level b)])"

definition resolve_followup_authorization_key :: "run_options \<Rightarrow> jstring" where
  "resolve_followup_authorization_key r = stringify_str (Arr (authorization_fields r))"

fun split_groups :: "run_heap \<Rightarrow> followup_run list \<Rightarrow> jstring \<Rightarrow> followup_run list \<Rightarrow> followup_run list list" where
  "split_groups h current key [] = (if current = [] then [] else [current])"
| "split_groups h current key (i # is) =
     (let k = resolve_followup_authorization_key (h (fu_run i)) in
      if current = [] \<or> k = key then split_groups h (current @ [i]) k is
      else current # split_groups h [i] k is)"

definition split_collect_items_by_authorization :: "run_heap \<Rightarrow> followup_run list \<Rightarrow> followup_run list list" where
  "split_collect_items_by_authorization h items =
     (if length items \<le> 1 then (if items = [] then [] else [items]) else split_groups h [] [] items)"

definition sender_label :: "run_options \<Rightarrow> jstring option" where
  "sender_label r = first_given (ro_sender_name r) (first_given (ro_sender_username r) (first_given (ro_sender_id r) (ro_sender_e164 r)))"

definition render_collect_item :: "run_heap \<Rightarrow> followup_run \<Rightarrow> nat \<Rightarrow> jstring" where
  "render_collect_item h item i =
     (let label = or_empty (sender_label (h (fu_run item)));
          suffix = (if label = [] then [] else js '' (from '' @ label @ js '')'')
      in trim (js ''---'' @ nl @ js ''Queued #'' @ show_nat (i + 1) @ suffix @ nl @ fu_prompt item))"

definition build_collect_prompt :: "jstring \<Rightarrow> followup_run list \<Rightarrow> jstring option \<Rightarrow> (followup_run \<Rightarrow> nat \<Rightarrow> jstring) \<Rightarrow> jstring" where
  "build_collect_prompt title items summary render =
     join (nl @ nl) ([title] @ (if or_empty summary = [] then [] else [or_empty summary]) @
       map (\<lambda>(i, item). render item i) (indexed items))"

record origin_routing =
  og_channel :: "jstring option"
  og_to :: "jstring option"
  og_account_id :: "jstring option"
  og_thread_id :: jsval

definition truthy_text :: "jstring option \<Rightarrow> bool" where
  "truthy_text t \<longleftrightarrow> or_empty t \<noteq> []"

definition thread_given :: "jsval \<Rightarrow> bool" where
  "thread_given t \<longleftrightarrow> t \<notin> {Undef, Null, Str []}"

definition first_text :: "jstring option \<Rightarrow> jstring option \<Rightarrow> jstring option" where
  "first_text known next_text = (if \<not> truthy_text known \<and> truthy_text next_text then next_text else known)"

fun merge_routing :: "followup_run list \<Rightarrow> origin_routing \<Rightarrow> origin_routing" where
  "merge_routing [] m = m"
| "merge_routing (i # is) m =
     (let m' = \<lparr>og_channel = first_text (og_channel m) (fu_channel i), og_to = first_text (og_to m) (fu_to i),
          og_account_id = first_text (og_account_id m) (fu_account_id i),
          og_thread_id = (if og_thread_id m \<in> {Undef, Null} \<and> thread_given (fu_thread_id i) then fu_thread_id i else og_thread_id m)\<rparr>
      in if truthy_text (og_channel m') \<and> truthy_text (og_to m') \<and> truthy_text (og_account_id m') \<and> og_thread_id m' \<notin> {Undef, Null}
         then m' else merge_routing is m')"

definition resolve_origin_routing_metadata :: "followup_run list \<Rightarrow> origin_routing" where
  "resolve_origin_routing_metadata items =
     merge_routing items \<lparr>og_channel = None, og_to = None, og_account_id = None, og_thread_id = Undef\<rparr>"

definition has_current_turn_metadata :: "followup_run \<Rightarrow> bool" where
  "has_current_turn_metadata i \<longleftrightarrow> fu_turn_kind i = Some RoomEvent \<or> fu_turn_context i \<noteq> None"

definition has_runtime_only_metadata :: "followup_run \<Rightarrow> bool" where
  "has_runtime_only_metadata i \<longleftrightarrow>
     has_current_turn_metadata i \<or> fu_signal i \<noteq> [] \<or> fu_correlations i \<noteq> [] \<or> fu_lifecycle i \<noteq> None"

record runtime_metadata =
  rm_turn_kind :: "turn_kind option"
  rm_turn_context :: "nat option"
  rm_signal :: "nat list"
  rm_correlations :: "nat list"
  rm_lifecycle :: "nat option"

definition combine_abort_signals :: "followup_run list \<Rightarrow> nat list" where
  "combine_abort_signals items = concat (map fu_signal items)"

definition collect_runtime_metadata :: "followup_run list \<Rightarrow> followup_run option \<Rightarrow> runtime_metadata" where
  "collect_runtime_metadata items owner =
     (let candidates = (case owner of None \<Rightarrow> items | Some o' \<Rightarrow> o' # items);
          current = (case owner of Some o' \<Rightarrow> if has_current_turn_metadata o' then Some o' else List.find has_current_turn_metadata items
                     | None \<Rightarrow> List.find has_current_turn_metadata items);
          own_signal = (case owner of None \<Rightarrow> [] | Some o' \<Rightarrow> fu_signal o');
          source = (case owner of Some o' \<Rightarrow> Some o' | None \<Rightarrow> List.find (\<lambda>i. fu_lifecycle i \<noteq> None) items)
      in \<lparr>rm_turn_kind = Option.bind current fu_turn_kind, rm_turn_context = Option.bind current fu_turn_context,
          rm_signal = (if own_signal \<noteq> [] then own_signal else combine_abort_signals candidates),
          rm_correlations = concat (map fu_correlations items),
          rm_lifecycle = first_given (Option.bind owner fu_lifecycle)
            (if length items = 1 then Option.bind source fu_lifecycle else None)\<rparr>)"

definition collect_summary_runtime_metadata :: "followup_run list \<Rightarrow> runtime_metadata" where
  "collect_summary_runtime_metadata items = collect_runtime_metadata items (case items of [i] \<Rightarrow> Some i | _ \<Rightarrow> None)"

definition collect_queued_images :: "followup_run list \<Rightarrow> nat list \<times> nat list" where
  "collect_queued_images items = (concat (map fu_images items), concat (map fu_image_order items))"

section \<open>Routes of mixed queues\<close>

definition is_routable_channel :: "channel_registry \<Rightarrow> jstring option \<Rightarrow> bool" where
  "is_routable_channel registry channel \<longleftrightarrow>
     truthy_text channel \<and> channel \<noteq> Some internal_message_channel \<and>
     (normalize_chat_channel_id registry channel \<noteq> None \<or> normalize_any_channel_id registry channel \<noteq> None)"

datatype cross_key = NoRoute | CrossRoute | KeyedRoute jstring

definition resolve_cross_channel_key :: "channel_registry \<Rightarrow> followup_run \<Rightarrow> cross_key" where
  "resolve_cross_channel_key registry i =
     (if \<not> truthy_text (fu_channel i) \<and> \<not> truthy_text (fu_to i) \<and> \<not> truthy_text (fu_account_id i) \<and> \<not> thread_given (fu_thread_id i)
      then NoRoute
      else if \<not> is_routable_channel registry (fu_channel i) \<or> \<not> truthy_text (fu_to i) then CrossRoute
      else case channel_route_compact_key (Some (KeyInput (route_input_of i))) of
             Some k \<Rightarrow> if k = [] then CrossRoute else KeyedRoute k
           | None \<Rightarrow> CrossRoute)"

fun scan_routes :: "cross_key list \<Rightarrow> jstring set \<Rightarrow> bool \<Rightarrow> bool" where
  "scan_routes [] keys unkeyed = (if keys = {} then False else if unkeyed then True else 1 < card keys)"
| "scan_routes (CrossRoute # rs) keys unkeyed = True"
| "scan_routes (NoRoute # rs) keys unkeyed = scan_routes rs keys True"
| "scan_routes (KeyedRoute k # rs) keys unkeyed = scan_routes rs (insert k keys) unkeyed"

definition has_cross_channel_items :: "channel_registry \<Rightarrow> followup_run list \<Rightarrow> bool" where
  "has_cross_channel_items registry items = scan_routes (map (resolve_cross_channel_key registry) items) {} False"

section \<open>Summaries of dropped messages\<close>

definition trim_end :: "jstring \<Rightarrow> jstring" where
  "trim_end s = rev (dropWhile is_ws (rev s))"

definition elide_queue_text :: "jstring \<Rightarrow> int \<Rightarrow> jstring" where
  "elide_queue_text text limit =
     (if int (length text) \<le> limit then text else trim_end (slice text 0 (max 0 (limit - 1))) @ [8230])"

definition build_queue_summary_line :: "jstring \<Rightarrow> jstring" where
  "build_queue_summary_line text = elide_queue_text (trim (collapse_ws text)) 160"

definition summary_text :: "followup_run \<Rightarrow> jstring" where
  "summary_text i = (case normalize_optional_string (of_string (fu_summary_line i)) of
     None \<Rightarrow> trim (fu_prompt i) | Some s \<Rightarrow> s)"

definition build_queue_summary_prompt :: "drop_policy \<Rightarrow> nat \<Rightarrow> jstring list \<Rightarrow> jstring option" where
  "build_queue_summary_prompt policy dropped lines =
     (if policy \<noteq> Summarize \<or> dropped = 0 then None
      else Some (join nl ((js ''[Queue overflow] Dropped '' @ show_nat dropped @ js '' message'' @ (if dropped = 1 then [] else js ''s'') @
             js '' due to cap.'') # (if lines = [] then [] else js ''Summary:'' # map (\<lambda>l. js ''- '' @ l) lines))))"

end
