(* ===== verification/FollowupQueue.thy ===== *)
theory FollowupQueue
  imports FollowupTypes DedupeCache
begin

text \<open>
  The queues of messages that wait while an agent is busy
  (\<open>openclaw-main/src/auto-reply/reply/queue/state.ts\<close>, \<open>enqueue.ts\<close>, \<open>drain.ts\<close> and
  the queue operations of \<open>utils/queue-helpers.ts\<close>): a queue object per key, and an asynchronous loop that hands its messages to the
  callback of the key.

  The runtime is explicit state. A queue object is named by a number, because a loop keeps its
  object when the map forgets it. \<open>fs_drains\<close> holds the loops; \<open>dr_pc\<close> says at which \<open>await\<close> a loop
  stands, and a step runs it to the next one. \<open>fs_log\<close> records what the outside observes: callbacks
  started and settled with the key of their loop, life cycles. Callbacks are named by numbers and are taken not to call the
  queue back before they return their promise; an \<open>await\<close> of an asynchronous helper is one point
  where other code can run, and the unwinding of a failure up to the end of the loop is one step. The test switch for fast delays and log messages are left out.
\<close>

section \<open>State\<close>

record followup_queue =
  fq_items :: "followup_run list"
  fq_draining :: bool
  fq_last_enqueued_at :: int
  fq_mode :: queue_mode
  fq_debounce :: int
  fq_cap :: int
  fq_drop :: drop_policy
  fq_dropped :: nat
  fq_lines :: "jstring list"
  fq_sources :: "followup_run list"
  fq_last_run :: "nat option"

text \<open>What a callback is called with. \<open>fr_covers\<close> names the queued messages the call stands for; it
  is not part of the program.\<close>

record followup_request =
  fr_prompt :: jstring
  fr_run :: nat
  fr_enqueued_at :: int
  fr_routing :: origin_routing
  fr_runtime :: runtime_metadata
  fr_images :: "nat list \<times> nat list"
  fr_covers :: "nat list"

datatype debounce_phase = BeforeDebounce | AfterDebounce

text \<open>Why an item is handed over: alone in a collecting queue, in place of a summary, or plainly.\<close>

datatype item_use = CollectItem | SummaryItem | PlainItem

datatype drain_pc =
    AbortedRun debounce_phase nat nat followup_run
  | AbortedDone debounce_phase nat
  | DebounceReady
  | DebounceTimer int int
  | CollectReady
  | ItemRun item_use followup_run
  | ItemCleaned item_use followup_run
  | ItemDone item_use bool
  | SummaryRun
  | SummaryDone
  | GroupRun "followup_run list" "followup_run list list" "jstring option"
  | GroupDone "followup_run list" "followup_run list list" "jstring option"

record drain =
  dr_key :: jstring
  dr_callback :: nat
  dr_force :: bool
  dr_pc :: drain_pc

datatype followup_event =
    CallbackStarted jstring nat followup_request
  | CallbackSettled jstring nat "nat list" bool
  | LifecycleEnqueued nat
  | LifecycleCompleted nat

record followup_state =
  fs_map :: "(jstring, nat) jmap"
  fs_objects :: "nat \<Rightarrow> followup_queue"
  fs_next :: nat
  fs_callbacks :: "(jstring, nat) jmap"
  fs_drains :: "nat \<Rightarrow> drain option"
  fs_recent :: dedupe_cache
  fs_enqueued :: "nat list"
  fs_completed :: "nat list"
  fs_aborted :: "nat list"
  fs_runs :: run_heap
  fs_log :: "followup_event list"

definition observe_followup :: "followup_event \<Rightarrow> followup_state \<Rightarrow> followup_state" where
  "observe_followup e s = s\<lparr>fs_log := fs_log s @ [e]\<rparr>"

definition put_object :: "nat \<Rightarrow> followup_queue \<Rightarrow> followup_state \<Rightarrow> followup_state" where
  "put_object i q s = s\<lparr>fs_objects := (fs_objects s)(i := q)\<rparr>"

definition put_drain :: "nat \<Rightarrow> drain \<Rightarrow> drain_pc \<Rightarrow> followup_state \<Rightarrow> followup_state" where
  "put_drain i d pc s = s\<lparr>fs_drains := (fs_drains s)(i := Some (d\<lparr>dr_pc := pc\<rparr>))\<rparr>"

section \<open>Life cycles and settings\<close>

definition mark_followup_run_enqueued :: "followup_run \<Rightarrow> followup_state \<Rightarrow> followup_state" where
  "mark_followup_run_enqueued r s =
     (case fu_lifecycle r of None \<Rightarrow> s
      | Some l \<Rightarrow> if l \<in> set (fs_enqueued s) then s else observe_followup (LifecycleEnqueued l) (s\<lparr>fs_enqueued := l # fs_enqueued s\<rparr>))"

definition complete_followup_run_lifecycle :: "followup_run \<Rightarrow> followup_state \<Rightarrow> followup_state" where
  "complete_followup_run_lifecycle r s =
     (case fu_lifecycle r of None \<Rightarrow> s
      | Some l \<Rightarrow> if l \<in> set (fs_completed s) then s else observe_followup (LifecycleCompleted l) (s\<lparr>fs_completed := l # fs_completed s\<rparr>))"

definition complete_all :: "followup_run list \<Rightarrow> followup_state \<Rightarrow> followup_state" where
  "complete_all rs s = fold complete_followup_run_lifecycle rs s"

definition apply_queue_runtime_settings :: "queue_settings \<Rightarrow> followup_queue \<Rightarrow> followup_queue" where
  "apply_queue_runtime_settings st q =
     q\<lparr>fq_mode := qs_mode st,
       fq_debounce := (case qs_debounce st of Some d \<Rightarrow> max 0 d | None \<Rightarrow> fq_debounce q),
       fq_cap := (case qs_cap st of Some c \<Rightarrow> if 0 < c then c else fq_cap q | None \<Rightarrow> fq_cap q),
       fq_drop := (case qs_drop st of Some p \<Rightarrow> p | None \<Rightarrow> fq_drop q)\<rparr>"

definition new_followup_queue :: "queue_settings \<Rightarrow> followup_queue" where
  "new_followup_queue st =
     \<lparr>fq_items = [], fq_draining = False, fq_last_enqueued_at = 0, fq_mode = qs_mode st,
      fq_debounce = (case qs_debounce st of Some d \<Rightarrow> max 0 d | None \<Rightarrow> default_queue_debounce_ms),
      fq_cap = (case qs_cap st of Some c \<Rightarrow> if 0 < c then c else default_queue_cap | None \<Rightarrow> default_queue_cap),
      fq_drop = (case qs_drop st of Some p \<Rightarrow> p | None \<Rightarrow> default_queue_drop),
      fq_dropped = 0, fq_lines = [], fq_sources = [], fq_last_run = None\<rparr>"

definition get_existing_followup_queue :: "jstring \<Rightarrow> followup_state \<Rightarrow> nat option" where
  "get_existing_followup_queue key s = (if trim key = [] then None else map_of (fs_map s) (trim key))"

definition get_followup_queue :: "jstring \<Rightarrow> queue_settings \<Rightarrow> followup_state \<Rightarrow> nat \<times> followup_state" where
  "get_followup_queue key st s =
     (case map_of (fs_map s) key of
        Some i \<Rightarrow> (i, put_object i (apply_queue_runtime_settings st (fs_objects s i)) s)
      | None \<Rightarrow>
          (let i = fs_next s
           in (i, put_object i (apply_queue_runtime_settings st (new_followup_queue st))
                  (s\<lparr>fs_next := i + 1, fs_map := map_put key i (fs_map s)\<rparr>))))"

definition get_followup_queue_depth :: "jstring \<Rightarrow> followup_state \<Rightarrow> nat" where
  "get_followup_queue_depth key s =
     (case get_existing_followup_queue key s of None \<Rightarrow> 0 | Some i \<Rightarrow> length (fq_items (fs_objects s i)))"

section \<open>Dropping\<close>

text \<open>\<open>applyQueueDropPolicy\<close>: whether the new message may be added, what was dropped, and the queue.\<close>

definition apply_queue_drop_policy :: "followup_queue \<Rightarrow> bool \<times> followup_run list \<times> followup_queue" where
  "apply_queue_drop_policy q =
     (let cap = fq_cap q; items = fq_items q in
      if cap \<le> 0 \<or> int (length items) < cap then (True, [], q)
      else if fq_drop q = DropNew then (False, [], q)
      else (let n = nat (int (length items) - cap + 1); dropped = take n items; q1 = q\<lparr>fq_items := drop n items\<rparr> in
            if fq_drop q = Summarize then
              (let lines = fq_lines q @ map (\<lambda>i. build_queue_summary_line (summary_text i)) dropped
               in (True, dropped, q1\<lparr>fq_dropped := fq_dropped q + length dropped,
                     fq_lines := drop (length lines - nat (max 0 cap)) lines\<rparr>))
            else (True, dropped, q1)))"

definition clear_followup_queue_summary_state :: "nat \<Rightarrow> followup_state \<Rightarrow> followup_state" where
  "clear_followup_queue_summary_state i s =
     (let q = fs_objects s i; s1 = complete_all (fq_sources q) s
      in put_object i (q\<lparr>fq_sources := [], fq_dropped := 0, fq_lines := []\<rparr>) s1)"

definition complete_summary_sources :: "nat \<Rightarrow> followup_state \<Rightarrow> followup_state" where
  "complete_summary_sources i s =
     (let q = fs_objects s i; s1 = complete_all (fq_sources q) s in put_object i (q\<lparr>fq_sources := []\<rparr>) s1)"

definition preview_summary :: "followup_queue \<Rightarrow> jstring option" where
  "preview_summary q = build_queue_summary_prompt (fq_drop q) (fq_dropped q) (fq_lines q)"

section \<open>The loop\<close>

datatype scan_result = ScanCrash | ScanRuns nat followup_run | ScanEnded

text \<open>The loop of \<open>dropAbortedFollowups\<close> down from an index; an index past the end reads no item and
  throws.\<close>

fun scan_aborted :: "nat list \<Rightarrow> followup_run list \<Rightarrow> nat \<Rightarrow> scan_result" where
  "scan_aborted aborted items 0 = ScanEnded"
| "scan_aborted aborted items (Suc i) =
     (if length items \<le> i then ScanCrash
      else if is_followup_run_aborted aborted (items ! i) then ScanRuns i (items ! i)
      else scan_aborted aborted items i)"

definition request_of_run :: "followup_run \<Rightarrow> followup_request" where
  "request_of_run r = \<lparr>fr_prompt = fu_prompt r, fr_run = fu_run r, fr_enqueued_at = fu_enqueued_at r,
     fr_routing = \<lparr>og_channel = fu_channel r, og_to = fu_to r, og_account_id = fu_account_id r, og_thread_id = fu_thread_id r\<rparr>,
     fr_runtime = \<lparr>rm_turn_kind = fu_turn_kind r, rm_turn_context = fu_turn_context r, rm_signal = fu_signal r,
       rm_correlations = fu_correlations r, rm_lifecycle = fu_lifecycle r\<rparr>,
     fr_images = (fu_images r, fu_image_order r), fr_covers = [fu_id r]\<rparr>"

definition no_routing :: origin_routing where
  "no_routing = \<lparr>og_channel = None, og_to = None, og_account_id = None, og_thread_id = Undef\<rparr>"

definition summary_only_request :: "jstring \<Rightarrow> nat \<Rightarrow> int \<Rightarrow> followup_run list \<Rightarrow> followup_request" where
  "summary_only_request prompt run now images =
     \<lparr>fr_prompt = prompt, fr_run = run, fr_enqueued_at = now, fr_routing = no_routing,
      fr_runtime = collect_summary_runtime_metadata [], fr_images = collect_queued_images images, fr_covers = []\<rparr>"

definition summary_item_request :: "jstring \<Rightarrow> nat \<Rightarrow> int \<Rightarrow> followup_run \<Rightarrow> followup_request" where
  "summary_item_request prompt run now item =
     \<lparr>fr_prompt = prompt, fr_run = run, fr_enqueued_at = now,
      fr_routing = \<lparr>og_channel = fu_channel item, og_to = fu_to item, og_account_id = fu_account_id item, og_thread_id = fu_thread_id item\<rparr>,
      fr_runtime = collect_summary_runtime_metadata [item], fr_images = collect_queued_images [item], fr_covers = []\<rparr>"

definition group_request :: "run_heap \<Rightarrow> followup_run list \<Rightarrow> jstring option \<Rightarrow> int \<Rightarrow> followup_request" where
  "group_request h items summary now =
     \<lparr>fr_prompt = build_collect_prompt (js ''[Queued messages while agent was busy]'') items summary (render_collect_item h),
      fr_run = fu_run (last items), fr_enqueued_at = now, fr_routing = resolve_origin_routing_metadata items,
      fr_runtime = collect_runtime_metadata items None, fr_images = collect_queued_images items, fr_covers = map fu_id items\<rparr>"

definition begin_queue_drain :: "jstring \<Rightarrow> followup_state \<Rightarrow> nat option \<times> followup_state" where
  "begin_queue_drain key s =
     (case map_of (fs_map s) key of None \<Rightarrow> (None, s)
      | Some i \<Rightarrow> if fq_draining (fs_objects s i) then (None, s)
                  else (Some i, put_object i ((fs_objects s i)\<lparr>fq_draining := True\<rparr>) s))"

text \<open>The loop ends with nothing left: the queue is forgotten if the map still knows this object.\<close>

definition end_empty :: "nat \<Rightarrow> jstring \<Rightarrow> followup_state \<Rightarrow> followup_state" where
  "end_empty i key s =
     (let s1 = (put_object i ((fs_objects s i)\<lparr>fq_draining := False\<rparr>) s)\<lparr>fs_drains := (fs_drains s)(i := None)\<rparr>
      in if map_of (fs_map s1) key = Some i
         then s1\<lparr>fs_map := map_del key (fs_map s1), fs_callbacks := map_del key (fs_callbacks s1)\<rparr> else s1)"

definition has_work :: "followup_queue \<Rightarrow> bool" where
  "has_work q \<longleftrightarrow> fq_items q \<noteq> [] \<or> 0 < fq_dropped q"

text \<open>The head of the \<open>while\<close> loop, up to the first \<open>await\<close>. The scan starts at the last item, so it
  cannot throw here (\<open>scan_from_end\<close>).\<close>

definition loop_head :: "nat \<Rightarrow> drain \<Rightarrow> followup_state \<Rightarrow> followup_state" where
  "loop_head i d s =
     (let q = fs_objects s i in
      if \<not> has_work q then end_empty i (dr_key d) s
      else case scan_aborted (fs_aborted s) (fq_items q) (length (fq_items q)) of
             ScanCrash \<Rightarrow> s
           | ScanRuns k item \<Rightarrow> put_drain i d (AbortedRun BeforeDebounce k 0 item) (observe_followup (CallbackStarted (dr_key d) (dr_callback d) (request_of_run item)) s)
           | ScanEnded \<Rightarrow> put_drain i d (AbortedDone BeforeDebounce 0) s)"

definition schedule_followup_drain :: "jstring \<Rightarrow> nat \<Rightarrow> followup_state \<Rightarrow> followup_state" where
  "schedule_followup_drain key callback s =
     (case begin_queue_drain key s of
        (None, s1) \<Rightarrow> s1
      | (Some i, s1) \<Rightarrow>
          (let effective = (case map_of (fs_callbacks s1) key of None \<Rightarrow> callback | Some c \<Rightarrow> c)
           in loop_head i \<lparr>dr_key = key, dr_callback = effective, dr_force = False, dr_pc = CollectReady\<rparr>
                (s1\<lparr>fs_callbacks := map_put key effective (fs_callbacks s1)\<rparr>)))"

text \<open>The \<open>finally\<close> block.\<close>

definition end_drain :: "nat \<Rightarrow> drain \<Rightarrow> followup_state \<Rightarrow> followup_state" where
  "end_drain i d s =
     (if \<not> has_work (fs_objects s i) then end_empty i (dr_key d) s
      else schedule_followup_drain (dr_key d) (dr_callback d)
             ((put_object i ((fs_objects s i)\<lparr>fq_draining := False\<rparr>) s)\<lparr>fs_drains := (fs_drains s)(i := None)\<rparr>))"

text \<open>The \<open>catch\<close> block, then the \<open>finally\<close> block.\<close>

definition fail_drain :: "nat \<Rightarrow> drain \<Rightarrow> int \<Rightarrow> followup_state \<Rightarrow> followup_state" where
  "fail_drain i d now s = end_drain i d (put_object i ((fs_objects s i)\<lparr>fq_last_enqueued_at := now\<rparr>) s)"

definition continue_scan :: "nat \<Rightarrow> drain \<Rightarrow> debounce_phase \<Rightarrow> nat \<Rightarrow> nat \<Rightarrow> int \<Rightarrow> followup_state \<Rightarrow> followup_state" where
  "continue_scan i d ph k n now s =
     (case scan_aborted (fs_aborted s) (fq_items (fs_objects s i)) k of
        ScanCrash \<Rightarrow> fail_drain i d now s
      | ScanRuns j item \<Rightarrow> put_drain i d (AbortedRun ph j n item) (observe_followup (CallbackStarted (dr_key d) (dr_callback d) (request_of_run item)) s)
      | ScanEnded \<Rightarrow> put_drain i d (AbortedDone ph n) s)"

text \<open>\<open>waitForQueueDebounce\<close>: its promise is settled at once, or after a timer has found the queue
  quiet. The delay is the one of the first check.\<close>

definition check_quiet :: "nat \<Rightarrow> drain \<Rightarrow> int \<Rightarrow> int \<Rightarrow> followup_state \<Rightarrow> followup_state" where
  "check_quiet i d wait now s =
     (let since = now - fq_last_enqueued_at (fs_objects s i)
      in put_drain i d (if wait \<le> since then DebounceReady else DebounceTimer (now + (wait - since)) wait) s)"

definition check_debounce :: "nat \<Rightarrow> drain \<Rightarrow> int \<Rightarrow> followup_state \<Rightarrow> followup_state" where
  "check_debounce i d now s =
     (let wait = max 0 (fq_debounce (fs_objects s i))
      in if wait \<le> 0 then put_drain i d DebounceReady s else check_quiet i d wait now s)"

text \<open>\<open>drainNextQueueItem\<close> up to its \<open>await\<close>.\<close>

definition drain_next_queue_item :: "nat \<Rightarrow> drain \<Rightarrow> item_use \<Rightarrow> (followup_run \<Rightarrow> followup_request) \<Rightarrow> followup_state \<Rightarrow> followup_state" where
  "drain_next_queue_item i d use req s =
     (case fq_items (fs_objects s i) of
        [] \<Rightarrow> put_drain i d (ItemDone use False) s
      | item # rest \<Rightarrow> put_drain i d (ItemRun use item) (observe_followup (CallbackStarted (dr_key d) (dr_callback d) (req item)) s))"

text \<open>The body of the loop after the debounce.\<close>

definition dispatch :: "channel_registry \<Rightarrow> nat \<Rightarrow> drain \<Rightarrow> int \<Rightarrow> followup_state \<Rightarrow> followup_state" where
  "dispatch registry i d now s =
     (let q = fs_objects s i in
      if fq_mode q = CollectMode then
        (let cross = (has_cross_channel_items registry (fq_items q) \<or> list_ex has_runtime_only_metadata (fq_items q)) in
         if \<not> dr_force d \<and> \<not> cross then put_drain i d CollectReady s
         else drain_next_queue_item i (if cross then d\<lparr>dr_force := True\<rparr> else d) CollectItem request_of_run s)
      else case preview_summary q of
             Some prompt \<Rightarrow>
               (case fq_last_run q of None \<Rightarrow> end_drain i d s
                | Some run \<Rightarrow> drain_next_queue_item i d SummaryItem (summary_item_request prompt run now) s)
           | None \<Rightarrow> drain_next_queue_item i d PlainItem request_of_run s)"

definition start_summary_only :: "nat \<Rightarrow> drain \<Rightarrow> jstring option \<Rightarrow> int \<Rightarrow> followup_run list \<Rightarrow> followup_state \<Rightarrow> followup_state" where
  "start_summary_only i d summary now images s =
     (case (summary, fq_last_run (fs_objects s i)) of
        (Some prompt, Some run) \<Rightarrow>
          put_drain i d SummaryRun (observe_followup (CallbackStarted (dr_key d) (dr_callback d) (summary_only_request prompt run now images)) s)
      | _ \<Rightarrow> end_drain i d s)"

definition start_groups :: "nat \<Rightarrow> drain \<Rightarrow> followup_run list list \<Rightarrow> jstring option \<Rightarrow> int \<Rightarrow> followup_state \<Rightarrow> followup_state" where
  "start_groups i d groups summary now s =
     (case groups of
        [] \<Rightarrow> loop_head i d s
      | g # gs \<Rightarrow> put_drain i d (GroupRun g gs summary) (observe_followup (CallbackStarted (dr_key d) (dr_callback d) (group_request (fs_runs s) g summary now)) s))"

text \<open>After a scan for aborted messages: leave the loop when nothing is left, otherwise go on.\<close>

definition after_scan :: "channel_registry \<Rightarrow> nat \<Rightarrow> drain \<Rightarrow> debounce_phase \<Rightarrow> nat \<Rightarrow> int \<Rightarrow> followup_state \<Rightarrow> followup_state" where
  "after_scan registry i d ph n now s =
     (let s1 = (if 0 < n \<and> fq_items (fs_objects s i) = [] then clear_followup_queue_summary_state i s else s) in
      if \<not> has_work (fs_objects s1 i) then end_drain i d s1
      else case ph of BeforeDebounce \<Rightarrow> check_debounce i d now s1 | AfterDebounce \<Rightarrow> dispatch registry i d now s1)"

definition shift_items :: "nat \<Rightarrow> nat \<Rightarrow> followup_state \<Rightarrow> followup_state" where
  "shift_items i n s = put_object i ((fs_objects s i)\<lparr>fq_items := drop n (fq_items (fs_objects s i))\<rparr>) s"

text \<open>The loop goes on after an \<open>await\<close> that does not wait for a callback or a timer.\<close>

definition resume_drain :: "channel_registry \<Rightarrow> nat \<Rightarrow> int \<Rightarrow> followup_state \<Rightarrow> followup_state" where
  "resume_drain registry i now s =
     (case fs_drains s i of None \<Rightarrow> s
      | Some d \<Rightarrow>
          (case dr_pc d of
             AbortedDone ph n \<Rightarrow> after_scan registry i d ph n now s
           | DebounceReady \<Rightarrow> continue_scan i d AfterDebounce (length (fq_items (fs_objects s i))) 0 now s
           | CollectReady \<Rightarrow>
               (let q = fs_objects s i; summary = preview_summary q;
                    groups = split_collect_items_by_authorization (fs_runs s) (fq_items q)
                in if groups = [] then start_summary_only i d summary now [] s else start_groups i d groups summary now s)
           | ItemCleaned use item \<Rightarrow> put_drain i d (ItemDone use True) (shift_items i 1 s)
           | ItemDone CollectItem drained \<Rightarrow>
               if drained then loop_head i d s
               else start_summary_only i d (preview_summary (fs_objects s i)) now (fq_items (fs_objects s i)) s
           | ItemDone SummaryItem drained \<Rightarrow>
               if drained then loop_head i d (clear_followup_queue_summary_state i s) else end_drain i d s
           | ItemDone PlainItem drained \<Rightarrow> if drained then loop_head i d s else end_drain i d s
           | SummaryDone \<Rightarrow> loop_head i d (clear_followup_queue_summary_state i s)
           | GroupDone g gs summary \<Rightarrow>
               (let s1 = shift_items i (length g) s;
                    s2 = (if truthy_text summary then clear_followup_queue_summary_state i s1 else s1)
                in start_groups i d gs (if truthy_text summary then None else summary) now s2)
           | _ \<Rightarrow> s))"

definition debounce_timer_fires :: "nat \<Rightarrow> int \<Rightarrow> followup_state \<Rightarrow> followup_state" where
  "debounce_timer_fires i now s =
     (case fs_drains s i of None \<Rightarrow> s
      | Some d \<Rightarrow>
          (case dr_pc d of
             DebounceTimer due wait \<Rightarrow> if now < due then s else check_quiet i d wait now s
           | _ \<Rightarrow> s))"

definition remove_item :: "nat \<Rightarrow> nat \<Rightarrow> followup_state \<Rightarrow> followup_state" where
  "remove_item i k s =
     (let q = fs_objects s i in put_object i (q\<lparr>fq_items := take k (fq_items q) @ drop (Suc k) (fq_items q)\<rparr>) s)"

text \<open>The promise of a callback is settled, and the loop goes on to its next \<open>await\<close>.\<close>

definition settle_callback :: "nat \<Rightarrow> bool \<Rightarrow> int \<Rightarrow> followup_state \<Rightarrow> followup_state" where
  "settle_callback i ok now s =
     (case fs_drains s i of None \<Rightarrow> s
      | Some d \<Rightarrow>
          (case dr_pc d of
             AbortedRun ph k n item \<Rightarrow>
               (let s1 = observe_followup (CallbackSettled (dr_key d) (dr_callback d) [fu_id item] ok) s in
                if ok then continue_scan i d ph k (n + 1) now (remove_item i k (complete_followup_run_lifecycle item s1))
                else fail_drain i d now s1)
           | ItemRun use item \<Rightarrow>
               (let s1 = observe_followup (CallbackSettled (dr_key d) (dr_callback d) (if use = SummaryItem then [] else [fu_id item]) ok) s;
                    s2 = (if use = SummaryItem then complete_summary_sources i s1 else s1)
                in if \<not> ok then fail_drain i d now s2
                   else if use = SummaryItem then put_drain i d (ItemCleaned use item) s2
                   else put_drain i d (ItemDone use True) (shift_items i 1 s2))
           | SummaryRun \<Rightarrow>
               (let s1 = complete_summary_sources i (observe_followup (CallbackSettled (dr_key d) (dr_callback d) [] ok) s)
                in if ok then put_drain i d SummaryDone s1 else fail_drain i d now s1)
           | GroupRun g gs summary \<Rightarrow>
               (let s1 = observe_followup (CallbackSettled (dr_key d) (dr_callback d) (map fu_id g) ok) s;
                    s2 = (if truthy_text summary then complete_summary_sources i s1 else s1)
                in if ok then put_drain i d (GroupDone g gs summary) s2 else fail_drain i d now s2)
           | _ \<Rightarrow> s))"

section \<open>Enqueueing\<close>

datatype dedupe_mode = ByMessageId | ByPrompt | NoDedupe

definition kick_followup_drain_if_idle :: "jstring \<Rightarrow> followup_state \<Rightarrow> followup_state" where
  "kick_followup_drain_if_idle key s =
     (case map_of (fs_callbacks s) key of None \<Rightarrow> s | Some c \<Rightarrow> schedule_followup_drain key c s)"

definition remember_followup_drain_callback :: "jstring \<Rightarrow> nat \<Rightarrow> followup_state \<Rightarrow> followup_state" where
  "remember_followup_drain_callback key c s = s\<lparr>fs_callbacks := map_put key c (fs_callbacks s)\<rparr>"

definition clear_followup_drain_callback :: "jstring \<Rightarrow> followup_state \<Rightarrow> followup_state" where
  "clear_followup_drain_callback key s = s\<lparr>fs_callbacks := map_del key (fs_callbacks s)\<rparr>"

text \<open>What \<open>enqueueFollowupRun\<close> does with the messages that the drop policy removed.\<close>

definition settle_dropped :: "nat \<Rightarrow> followup_run list \<Rightarrow> followup_state \<Rightarrow> followup_state" where
  "settle_dropped i dropped s =
     (let q = fs_objects s i in
      if fq_drop q = Summarize then
        (let sources = fq_sources q @ dropped; n = length sources - length (fq_lines q)
         in complete_all (take n sources) (put_object i (q\<lparr>fq_sources := drop n sources\<rparr>) s))
      else complete_all dropped s)"

text \<open>The last steps of \<open>enqueueFollowupRun\<close>, for a message that may be added.\<close>

definition add_followup_run ::
  "nat \<Rightarrow> jstring \<Rightarrow> followup_run \<Rightarrow> jstring option \<Rightarrow> nat option \<Rightarrow> bool \<Rightarrow> int \<Rightarrow> followup_state \<Rightarrow> followup_state" where
  "add_followup_run i key r recent callback restart now s =
     (let q = fs_objects s i;
          s1 = mark_followup_run_enqueued r (put_object i (q\<lparr>fq_items := fq_items q @ [r]\<rparr>) s);
          s2 = s1\<lparr>fs_recent := snd (check_key recent now (fs_recent s1))\<rparr>;
          s3 = (case callback of None \<Rightarrow> s2 | Some c \<Rightarrow> remember_followup_drain_callback key c s2)
      in if restart \<and> \<not> fq_draining (fs_objects s3 i) then kick_followup_drain_if_idle key s3 else s3)"

text \<open>Its steps for a message that is new.\<close>

definition offer_followup_run ::
  "nat \<Rightarrow> jstring \<Rightarrow> followup_run \<Rightarrow> jstring option \<Rightarrow> nat option \<Rightarrow> bool \<Rightarrow> int \<Rightarrow> followup_state \<Rightarrow> bool \<times> followup_state" where
  "offer_followup_run i key r recent callback restart now s =
     (let (room, dropped, q) = apply_queue_drop_policy ((fs_objects s i)\<lparr>fq_last_enqueued_at := now, fq_last_run := Some (fu_run r)\<rparr>);
          s1 = settle_dropped i dropped (put_object i q s)
      in if room then (True, add_followup_run i key r recent callback restart now s1) else (False, s1))"

definition enqueue_followup_run ::
  "jstring \<Rightarrow> followup_run \<Rightarrow> queue_settings \<Rightarrow> dedupe_mode \<Rightarrow> nat option \<Rightarrow> bool \<Rightarrow> int \<Rightarrow> followup_state \<Rightarrow> bool \<times> followup_state" where
  "enqueue_followup_run key r settings mode callback restart now s =
     (if is_followup_run_aborted (fs_aborted s) r then (False, s)
      else (let (i, s1) = get_followup_queue key settings s;
                recent = (if mode = NoDedupe then None else build_recent_message_id_key r key);
                (seen, cache) = peek_key recent now (fs_recent s1);
                s2 = s1\<lparr>fs_recent := cache\<rparr>
            in if seen \<or> (mode \<noteq> NoDedupe \<and> is_run_already_queued r (fq_items (fs_objects s2 i)) (mode = ByPrompt))
               then (False, s2)
               else offer_followup_run i key r recent callback restart now s2))"

definition reset_recent_queued_message_id_dedupe :: "followup_state \<Rightarrow> followup_state" where
  "reset_recent_queued_message_id_dedupe s = s\<lparr>fs_recent := clear_cache (fs_recent s)\<rparr>"

section \<open>Clearing and rewriting\<close>

definition clear_followup_queue :: "jstring \<Rightarrow> followup_state \<Rightarrow> nat \<times> followup_state" where
  "clear_followup_queue key s =
     (case get_existing_followup_queue (trim key) s of None \<Rightarrow> (0, s)
      | Some i \<Rightarrow>
          (let q = fs_objects s i; s1 = complete_all (fq_sources q) (complete_all (fq_items q) s)
           in (length (fq_items q) + fq_dropped q,
               (put_object i (q\<lparr>fq_items := [], fq_dropped := 0, fq_lines := [], fq_sources := [], fq_last_run := None,
                  fq_last_enqueued_at := 0\<rparr>) s1)\<lparr>fs_map := map_del (trim key) (fs_map s1)\<rparr>)))"

record session_refresh =
  sr_previous_session_id :: "jstring option"
  sr_next_session_id :: "jstring option"
  sr_next_session_file :: "jstring option"
  sr_next_provider :: "jstring option"
  sr_next_model :: "jstring option"
  sr_next_model_source :: "choice_source option option"
  sr_next_auth_profile :: "jstring option option"
  sr_next_auth_source :: "choice_source option option"

definition rewrites_session :: "session_refresh \<Rightarrow> bool" where
  "rewrites_session p \<longleftrightarrow> truthy_text (sr_previous_session_id p) \<and> truthy_text (sr_next_session_id p) \<and>
     sr_previous_session_id p \<noteq> sr_next_session_id p"

definition rewrites_selection :: "session_refresh \<Rightarrow> bool" where
  "rewrites_selection p \<longleftrightarrow> sr_next_provider p \<noteq> None \<or> sr_next_model p \<noteq> None \<or> sr_next_model_source p \<noteq> None \<or>
     sr_next_auth_profile p \<noteq> None \<or> sr_next_auth_source p \<noteq> None"

definition rewrite_session :: "session_refresh \<Rightarrow> run_options \<Rightarrow> run_options" where
  "rewrite_session p r =
     (if rewrites_session p \<and> Some (ro_session_id r) = sr_previous_session_id p then
        (let r1 = r\<lparr>ro_session_id := or_empty (sr_next_session_id p)\<rparr>
         in case normalize_optional_string (of_string (sr_next_session_file p)) of None \<Rightarrow> r1 | Some f \<Rightarrow> r1\<lparr>ro_session_file := f\<rparr>)
      else r)"

definition rewrite_selection :: "session_refresh \<Rightarrow> run_options \<Rightarrow> run_options" where
  "rewrite_selection p r =
     (let r1 = (case sr_next_provider p of None \<Rightarrow> r | Some v \<Rightarrow> r\<lparr>ro_provider := v\<rparr>);
          r2 = (case sr_next_model p of None \<Rightarrow> r1 | Some v \<Rightarrow> r1\<lparr>ro_model := v\<rparr>);
          r3 = (case sr_next_model_source p of None \<Rightarrow> r2
                | Some v \<Rightarrow> r2\<lparr>ro_has_model_override := Some (ro_provider r2 \<noteq> [] \<or> ro_model r2 \<noteq> []), ro_model_source := v\<rparr>);
          r4 = (case sr_next_auth_profile p of None \<Rightarrow> r3
                | Some v \<Rightarrow> r3\<lparr>ro_auth_profile := normalize_optional_string (of_string v)\<rparr>)
      in case sr_next_auth_source p of None \<Rightarrow> r4
         | Some v \<Rightarrow> r4\<lparr>ro_auth_source := (if truthy_text (ro_auth_profile r4) then v else None)\<rparr>)"

definition rewrite_run :: "session_refresh \<Rightarrow> run_options \<Rightarrow> run_options" where
  "rewrite_run p r = (let r1 = rewrite_session p r in if rewrites_selection p then rewrite_selection p r1 else r1)"

definition refresh_queued_followup_session :: "jstring \<Rightarrow> session_refresh \<Rightarrow> followup_state \<Rightarrow> followup_state" where
  "refresh_queued_followup_session key p s =
     (case get_existing_followup_queue key s of None \<Rightarrow> s
      | Some i \<Rightarrow>
          if \<not> rewrites_session p \<and> \<not> rewrites_selection p then s
          else (let q = fs_objects s i;
                    refs = (case fq_last_run q of None \<Rightarrow> [] | Some r \<Rightarrow> [r]) @ map fu_run (fq_items q)
                in s\<lparr>fs_runs := fold (\<lambda>r h. h(r := rewrite_run p (h r))) refs (fs_runs s)\<rparr>))"

definition abort_signal :: "nat \<Rightarrow> followup_state \<Rightarrow> followup_state" where
  "abort_signal n s = s\<lparr>fs_aborted := n # fs_aborted s\<rparr>"

section \<open>Events\<close>

datatype followup_call =
    Enqueue_followup jstring followup_run queue_settings dedupe_mode "nat option" bool int
  | Schedule_drain jstring nat
  | Clear_queue jstring
  | Clear_callback jstring
  | Refresh_session jstring session_refresh
  | Reset_dedupe
  | Signal_aborts nat
  | Drain_resumes nat int
  | Debounce_fires nat int
  | Callback_settles nat bool int

fun followup_exec :: "channel_registry \<Rightarrow> followup_call \<Rightarrow> followup_state \<Rightarrow> followup_state" where
  "followup_exec registry (Enqueue_followup key r settings mode callback restart now) s =
     snd (enqueue_followup_run key r settings mode callback restart now s)"
| "followup_exec registry (Schedule_drain key c) s = schedule_followup_drain key c s"
| "followup_exec registry (Clear_queue key) s = snd (clear_followup_queue key s)"
| "followup_exec registry (Clear_callback key) s = clear_followup_drain_callback key s"
| "followup_exec registry (Refresh_session key p) s = refresh_queued_followup_session key p s"
| "followup_exec registry Reset_dedupe s = reset_recent_queued_message_id_dedupe s"
| "followup_exec registry (Signal_aborts n) s = abort_signal n s"
| "followup_exec registry (Drain_resumes i now) s = resume_drain registry i now s"
| "followup_exec registry (Debounce_fires i now) s = debounce_timer_fires i now s"
| "followup_exec registry (Callback_settles i ok now) s = settle_callback i ok now s"

definition initial_followup_state :: "run_heap \<Rightarrow> followup_state" where
  "initial_followup_state runs =
     \<lparr>fs_map = [], fs_objects = (\<lambda>i. new_followup_queue \<lparr>qs_mode = SteerMode, qs_debounce = None, qs_cap = None, qs_drop = None\<rparr>),
      fs_next = 0, fs_callbacks = [], fs_drains = (\<lambda>i. None), fs_recent = create_dedupe_cache (5 * 60 * 1000) 10000,
      fs_enqueued = [], fs_completed = [], fs_aborted = [], fs_runs = runs, fs_log = []\<rparr>"

end
