(* ===== verification/FollowupInvariants.thy ===== *)
theory FollowupInvariants
  imports FollowupQueue
begin

text \<open>
  The invariant of the followup queues. \<open>followup_sound\<close> ties the loops to the queue objects and the
  map: an object is marked as draining exactly while a loop works on it, the map names an object
  under one key, a loop works for the key of its object, and an object that the map has forgotten
  holds no work. A key is \<open>unserved\<close> when its queue has work and a callback, but no loop.

  A step of a loop rewrites its own program counter, so the lemmas on its parts speak of the loop as
  being \<open>in_transit\<close>: its entry in the table is out of date.
\<close>

section \<open>What the helpers leave alone\<close>

lemma observe_keeps [simp]:
  "fs_map (observe_followup e s) = fs_map s" "fs_objects (observe_followup e s) = fs_objects s"
  "fs_next (observe_followup e s) = fs_next s" "fs_callbacks (observe_followup e s) = fs_callbacks s"
  "fs_drains (observe_followup e s) = fs_drains s" "fs_recent (observe_followup e s) = fs_recent s"
  "fs_aborted (observe_followup e s) = fs_aborted s" "fs_runs (observe_followup e s) = fs_runs s"
  "fs_log (observe_followup e s) = fs_log s @ [e]"
  by (simp_all add: observe_followup_def)

lemma put_object_keeps [simp]:
  "fs_map (put_object i q s) = fs_map s" "fs_objects (put_object i q s) = (fs_objects s)(i := q)"
  "fs_next (put_object i q s) = fs_next s" "fs_callbacks (put_object i q s) = fs_callbacks s"
  "fs_drains (put_object i q s) = fs_drains s" "fs_recent (put_object i q s) = fs_recent s"
  "fs_aborted (put_object i q s) = fs_aborted s" "fs_runs (put_object i q s) = fs_runs s"
  "fs_log (put_object i q s) = fs_log s"
  by (simp_all add: put_object_def)

lemma put_drain_keeps [simp]:
  "fs_map (put_drain i d pc s) = fs_map s" "fs_objects (put_drain i d pc s) = fs_objects s"
  "fs_next (put_drain i d pc s) = fs_next s" "fs_callbacks (put_drain i d pc s) = fs_callbacks s"
  "fs_drains (put_drain i d pc s) = (fs_drains s)(i := Some (d\<lparr>dr_pc := pc\<rparr>))" "fs_recent (put_drain i d pc s) = fs_recent s"
  "fs_aborted (put_drain i d pc s) = fs_aborted s" "fs_runs (put_drain i d pc s) = fs_runs s"
  "fs_log (put_drain i d pc s) = fs_log s"
  by (simp_all add: put_drain_def)

text \<open>The identifiers that the successful callbacks of a key stand for, in order.\<close>

definition settled_ids :: "jstring \<Rightarrow> followup_event \<Rightarrow> nat list" where
  "settled_ids key e = (case e of CallbackSettled k c ids ok \<Rightarrow> if k = key \<and> ok then ids else [] | _ \<Rightarrow> [])"

definition delivered_ids :: "jstring \<Rightarrow> followup_event list \<Rightarrow> nat list" where
  "delivered_ids key l = concat (map (settled_ids key) l)"

lemma delivered_simps [simp]:
  "delivered_ids key [] = []" "delivered_ids key (l @ m) = delivered_ids key l @ delivered_ids key m"
  "delivered_ids key (e # l) = settled_ids key e @ delivered_ids key l"
  by (simp_all add: delivered_ids_def)

lemma settled_ids_simps [simp]:
  "settled_ids key (CallbackStarted k c r) = []" "settled_ids key (LifecycleEnqueued n) = []"
  "settled_ids key (LifecycleCompleted n) = []"
  "settled_ids key (CallbackSettled k c ids ok) = (if k = key \<and> ok then ids else [])"
  by (simp_all add: settled_ids_def)

lemma complete_run_keeps:
  "fs_map (complete_followup_run_lifecycle r s) = fs_map s \<and> fs_objects (complete_followup_run_lifecycle r s) = fs_objects s \<and>
   fs_next (complete_followup_run_lifecycle r s) = fs_next s \<and> fs_callbacks (complete_followup_run_lifecycle r s) = fs_callbacks s \<and>
   fs_drains (complete_followup_run_lifecycle r s) = fs_drains s \<and> fs_recent (complete_followup_run_lifecycle r s) = fs_recent s \<and>
   fs_aborted (complete_followup_run_lifecycle r s) = fs_aborted s \<and> fs_runs (complete_followup_run_lifecycle r s) = fs_runs s \<and>
   delivered_ids key (fs_log (complete_followup_run_lifecycle r s)) = delivered_ids key (fs_log s)"
  by (simp add: complete_followup_run_lifecycle_def split: option.split)

lemma complete_one: "complete_followup_run_lifecycle r s = complete_all [r] s"
  by (simp add: complete_all_def)

lemma mark_enqueued_keeps [simp]:
  "fs_map (mark_followup_run_enqueued r s) = fs_map s" "fs_objects (mark_followup_run_enqueued r s) = fs_objects s"
  "fs_next (mark_followup_run_enqueued r s) = fs_next s" "fs_callbacks (mark_followup_run_enqueued r s) = fs_callbacks s"
  "fs_drains (mark_followup_run_enqueued r s) = fs_drains s" "fs_recent (mark_followup_run_enqueued r s) = fs_recent s"
  "fs_aborted (mark_followup_run_enqueued r s) = fs_aborted s" "fs_runs (mark_followup_run_enqueued r s) = fs_runs s"
  "delivered_ids key (fs_log (mark_followup_run_enqueued r s)) = delivered_ids key (fs_log s)"
  by (simp_all add: mark_followup_run_enqueued_def split: option.split)

lemma complete_all_keeps [simp]:
  "fs_map (complete_all rs s) = fs_map s" "fs_objects (complete_all rs s) = fs_objects s"
  "fs_next (complete_all rs s) = fs_next s" "fs_callbacks (complete_all rs s) = fs_callbacks s"
  "fs_drains (complete_all rs s) = fs_drains s" "fs_recent (complete_all rs s) = fs_recent s"
  "fs_aborted (complete_all rs s) = fs_aborted s" "fs_runs (complete_all rs s) = fs_runs s"
  "delivered_ids key (fs_log (complete_all rs s)) = delivered_ids key (fs_log s)"
  by (induction rs arbitrary: s) (simp_all add: complete_all_def complete_run_keeps)

lemma clear_summary_keeps [simp]:
  "fs_map (clear_followup_queue_summary_state i s) = fs_map s"
  "fs_objects (clear_followup_queue_summary_state i s) =
     (fs_objects s)(i := (fs_objects s i)\<lparr>fq_sources := [], fq_dropped := 0, fq_lines := []\<rparr>)"
  "fs_next (clear_followup_queue_summary_state i s) = fs_next s"
  "fs_callbacks (clear_followup_queue_summary_state i s) = fs_callbacks s"
  "fs_drains (clear_followup_queue_summary_state i s) = fs_drains s"
  "fs_aborted (clear_followup_queue_summary_state i s) = fs_aborted s"
  "fs_runs (clear_followup_queue_summary_state i s) = fs_runs s"
  "delivered_ids key (fs_log (clear_followup_queue_summary_state i s)) = delivered_ids key (fs_log s)"
  by (simp_all add: clear_followup_queue_summary_state_def Let_def)

lemma complete_sources_keeps [simp]:
  "fs_map (complete_summary_sources i s) = fs_map s"
  "fs_objects (complete_summary_sources i s) = (fs_objects s)(i := (fs_objects s i)\<lparr>fq_sources := []\<rparr>)"
  "fs_next (complete_summary_sources i s) = fs_next s" "fs_callbacks (complete_summary_sources i s) = fs_callbacks s"
  "fs_drains (complete_summary_sources i s) = fs_drains s" "fs_aborted (complete_summary_sources i s) = fs_aborted s"
  "fs_runs (complete_summary_sources i s) = fs_runs s"
  "delivered_ids key (fs_log (complete_summary_sources i s)) = delivered_ids key (fs_log s)"
  by (simp_all add: complete_summary_sources_def Let_def)

section \<open>The invariant\<close>

text \<open>The tables in plain terms: the key of the loop of an object, whether the object has work, the map.\<close>

definition table_ok :: "(nat \<Rightarrow> jstring option) \<Rightarrow> (nat \<Rightarrow> bool) \<Rightarrow> (jstring \<Rightarrow> nat option) \<Rightarrow> nat \<Rightarrow> bool" where
  "table_ok K W M n \<longleftrightarrow>
     (\<forall>i. K i \<noteq> None \<longrightarrow> i < n) \<and> (\<forall>k i. M k = Some i \<longrightarrow> i < n) \<and>
     (\<forall>k k' i. M k = Some i \<longrightarrow> M k' = Some i \<longrightarrow> k' = k) \<and>
     (\<forall>k k' i. M k = Some i \<longrightarrow> K i = Some k' \<longrightarrow> k' = k) \<and>
     (\<forall>i. W i \<longrightarrow> (\<exists>k. M k = Some i))"

lemma table_less_work: "table_ok K W M n \<Longrightarrow> (\<And>j. W' j \<Longrightarrow> W j) \<Longrightarrow> table_ok K W' M n"
  unfolding table_ok_def by blast

lemma table_more_work: "table_ok K W M n \<Longrightarrow> M k = Some i \<Longrightarrow> table_ok K (W(i := b)) M n"
  unfolding table_ok_def by simp blast

lemma table_loop_ends: "table_ok K W M n \<Longrightarrow> table_ok (K(i := None)) W M n"
  unfolding table_ok_def by simp

lemma table_loop_starts: "table_ok K W M n \<Longrightarrow> M k = Some i \<Longrightarrow> table_ok (K(i := Some k)) W M n"
  unfolding table_ok_def by auto

lemma table_forgets:
  assumes t: "table_ok K W M n" and m: "M k = Some i" "\<not> W i"
  shows "table_ok K W (M(k := None)) n"
proof -
  have "\<exists>k'. (M(k := None)) k' = Some j" if work: "W j" for j
  proof -
    obtain k' where "M k' = Some j" using t work unfolding table_ok_def by blast
    with m work have "(M(k := None)) k' = Some j" by auto
    then show ?thesis by blast
  qed
  with t show ?thesis unfolding table_ok_def by simp
qed

lemma table_new:
  assumes t: "table_ok K W M n" and m: "M k = None"
  shows "table_ok K W (M(k := Some n)) (Suc n)" "\<not> W n" "K n = None"
proof -
  have free: "M k' \<noteq> Some n" for k' using t unfolding table_ok_def by blast
  show w: "\<not> W n" using t free unfolding table_ok_def by blast
  show K: "K n = None" using t unfolding table_ok_def by blast
  have "\<exists>k'. (M(k := Some n)) k' = Some j" if work: "W j" for j
  proof -
    obtain k' where "M k' = Some j" using t work unfolding table_ok_def by blast
    with m show ?thesis by (intro exI [of _ k']) auto
  qed
  moreover have "k'' = k'" if "(M(k := Some n)) k' = Some j" "(M(k := Some n)) k'' = Some j" for k' k'' j
    using that free t unfolding table_ok_def by (auto split: if_splits)
  moreover have "j < Suc n" if "(M(k := Some n)) k' = Some j" for k' j
    using that t unfolding table_ok_def by (auto split: if_splits intro: less_SucI)
  moreover have "j < Suc n" if "K j \<noteq> None" for j
    using that t unfolding table_ok_def by (auto intro: less_SucI)
  moreover have "k'' = k'" if "(M(k := Some n)) k' = Some j" "K j = Some k''" for k' k'' j
    using that t K unfolding table_ok_def by (auto split: if_splits)
  ultimately show "table_ok K W (M(k := Some n)) (Suc n)" unfolding table_ok_def by blast
qed

definition queue_at :: "followup_state \<Rightarrow> jstring \<Rightarrow> nat option" where
  "queue_at s k = map_of (fs_map s) k"

definition works :: "followup_state \<Rightarrow> nat \<Rightarrow> bool" where
  "works s i = has_work (fs_objects s i)"

definition loop_keys :: "followup_state \<Rightarrow> nat \<Rightarrow> jstring option" where
  "loop_keys s i = map_option dr_key (fs_drains s i)"

definition draining_at :: "followup_state \<Rightarrow> nat \<Rightarrow> bool" where
  "draining_at s i = fq_draining (fs_objects s i)"

definition sound_with :: "(nat \<Rightarrow> jstring option) \<Rightarrow> followup_state \<Rightarrow> bool" where
  "sound_with K s \<longleftrightarrow> table_ok K (works s) (queue_at s) (fs_next s) \<and> draining_at s = (\<lambda>i. K i \<noteq> None)"

definition followup_sound :: "followup_state \<Rightarrow> bool" where
  "followup_sound s \<longleftrightarrow> sound_with (loop_keys s) s"

definition in_transit :: "nat \<Rightarrow> drain \<Rightarrow> followup_state \<Rightarrow> bool" where
  "in_transit i d s \<longleftrightarrow> sound_with ((loop_keys s)(i := Some (dr_key d))) s"

definition unserved :: "followup_state \<Rightarrow> jstring \<Rightarrow> bool" where
  "unserved s k \<longleftrightarrow> (\<exists>i. queue_at s k = Some i \<and> works s i \<and> \<not> draining_at s i) \<and> map_of (fs_callbacks s) k \<noteq> None"

definition serves :: "followup_state \<Rightarrow> followup_state \<Rightarrow> bool" where
  "serves s s' \<longleftrightarrow> followup_sound s' \<and> (\<forall>k. unserved s' k \<longrightarrow> unserved s k)"

lemma serves_trans: "serves s t \<Longrightarrow> serves t u \<Longrightarrow> serves s u"
  by (auto simp: serves_def)

lemma servesD: "serves s t \<Longrightarrow> followup_sound t"
  by (simp add: serves_def)

lemma view_keeps [simp]:
  "queue_at (observe_followup e s) = queue_at s" "queue_at (put_object i q s) = queue_at s"
  "queue_at (put_drain i d pc s) = queue_at s" "queue_at (complete_all rs s) = queue_at s"
  "queue_at (mark_followup_run_enqueued r s) = queue_at s"
  "queue_at (clear_followup_queue_summary_state i s) = queue_at s" "queue_at (complete_summary_sources i s) = queue_at s"
  "works (observe_followup e s) = works s" "works (put_drain i d pc s) = works s" "works (complete_all rs s) = works s"
  "works (mark_followup_run_enqueued r s) = works s" "works (put_object i q s) = (works s)(i := has_work q)"
  "draining_at (observe_followup e s) = draining_at s" "draining_at (put_drain i d pc s) = draining_at s"
  "draining_at (complete_all rs s) = draining_at s" "draining_at (mark_followup_run_enqueued r s) = draining_at s"
  "draining_at (put_object i q s) = (draining_at s)(i := fq_draining q)"
  "loop_keys (observe_followup e s) = loop_keys s" "loop_keys (complete_all rs s) = loop_keys s"
  "loop_keys (mark_followup_run_enqueued r s) = loop_keys s" "loop_keys (put_object i q s) = loop_keys s"
  "loop_keys (put_drain i d pc s) = (loop_keys s)(i := Some (dr_key d))"
  by (simp_all add: queue_at_def works_def draining_at_def loop_keys_def fun_eq_iff)

lemma sound_in_transit: "followup_sound s \<Longrightarrow> fs_drains s i = Some d \<Longrightarrow> in_transit i d s"
  by (simp add: followup_sound_def in_transit_def fun_upd_idem loop_keys_def)

lemma in_transit_same_key: "in_transit i d s \<Longrightarrow> dr_key d' = dr_key d \<Longrightarrow> in_transit i d' s"
  by (simp add: in_transit_def)

lemma in_transit_draining: "in_transit i d s \<Longrightarrow> fq_draining (fs_objects s i)"
  by (simp add: in_transit_def sound_with_def draining_at_def fun_eq_iff)

lemma in_transit_keeps [simp]:
  "in_transit i d (observe_followup e s) = in_transit i d s" "in_transit i d (complete_all rs s) = in_transit i d s"
  by (simp_all add: in_transit_def sound_with_def)

lemma unserved_keeps [simp]:
  "unserved (observe_followup e s) = unserved s" "unserved (complete_all rs s) = unserved s"
  "unserved (put_drain i d pc s) = unserved s"
  by (simp_all add: unserved_def fun_eq_iff)

text \<open>A loop may rewrite its object as long as it adds no work.\<close>

lemma in_transit_object:
  assumes "in_transit i d s" "fq_draining q" "has_work q \<Longrightarrow> has_work (fs_objects s i)"
  shows "in_transit i d (put_object i q s)" "unserved (put_object i q s) k \<Longrightarrow> unserved s k"
proof -
  have w: "((works s)(i := has_work q)) j \<Longrightarrow> works s j" for j
    using assms(3) by (auto simp: works_def split: if_splits)
  have d: "(draining_at s)(i := True) = draining_at s"
    using in_transit_draining [OF assms(1)] by (simp add: draining_at_def fun_upd_idem)
  have "table_ok ((loop_keys s)(i := Some (dr_key d))) ((works s)(i := has_work q)) (queue_at s) (fs_next s)"
    using assms(1) w unfolding in_transit_def sound_with_def by (blast intro: table_less_work)
  then show "in_transit i d (put_object i q s)"
    using assms(1,2) d unfolding in_transit_def sound_with_def by simp
  show "unserved (put_object i q s) k \<Longrightarrow> unserved s k"
    using assms(2) w by (simp add: unserved_def d) blast
qed

lemma put_drain_serves: "in_transit i d s \<Longrightarrow> serves s (put_drain i d pc s)"
  by (simp add: serves_def followup_sound_def in_transit_def sound_with_def)

section \<open>The end of a loop and its start\<close>

lemma scan_from_end: "k \<le> length items \<Longrightarrow> scan_aborted aborted items k \<noteq> ScanCrash"
  by (induction k) (auto split: if_splits)

lemma end_empty_serves:
  assumes "in_transit i d s" "\<not> has_work (fs_objects s i)"
  shows "serves s (end_empty i (dr_key d) s)"
proof -
  let ?t = "end_empty i (dr_key d) s" and ?f = "queue_at s (dr_key d) = Some i"
  have w: "works ?t = works s"
    using assms(2) by (simp add: end_empty_def Let_def works_def has_work_def fun_eq_iff)
  have v: "queue_at ?t = (if ?f then (queue_at s)(dr_key d := None) else queue_at s)"
    "loop_keys ?t = (loop_keys s)(i := None)" "draining_at ?t = (draining_at s)(i := False)" "fs_next ?t = fs_next s"
    "\<And>k. map_of (fs_callbacks ?t) k \<noteq> None \<Longrightarrow> map_of (fs_callbacks s) k \<noteq> None"
    by (auto simp: end_empty_def Let_def queue_at_def loop_keys_def draining_at_def map_of_map_del fun_eq_iff split: if_splits)
  have t: "table_ok ((loop_keys s)(i := Some (dr_key d))) (works s) (queue_at s) (fs_next s)"
    and d: "draining_at s = (\<lambda>j. ((loop_keys s)(i := Some (dr_key d))) j \<noteq> None)"
    using assms(1) by (simp_all add: in_transit_def sound_with_def)
  have nw: "\<not> works s i" using assms(2) by (simp add: works_def)
  have t': "table_ok ((loop_keys s)(i := None)) (works s) (queue_at s) (fs_next s)"
    using table_loop_ends [OF t, of i] by simp
  have "followup_sound ?t"
    unfolding followup_sound_def sound_with_def v w d
    using t' table_forgets [OF t' _ nw] by (auto simp: fun_eq_iff)
  moreover have "unserved s k" if "unserved ?t k" for k
    using that v(5) [of k] nw unfolding unserved_def w v(1,3) by (auto split: if_splits)
  ultimately show ?thesis by (simp add: serves_def)
qed

lemma loop_head_serves: "serves s (loop_head i d s)" if "in_transit i d s"
proof (cases "has_work (fs_objects s i)")
  case False
  then show ?thesis using end_empty_serves [OF that] by (simp add: loop_head_def Let_def)
next
  case True
  let ?items = "fq_items (fs_objects s i)"
  show ?thesis
  proof (cases "scan_aborted (fs_aborted s) ?items (length ?items)")
    case ScanCrash
    then show ?thesis using scan_from_end [of "length ?items" ?items] by simp
  next
    case (ScanRuns k item)
    have "serves (observe_followup e s) (put_drain i d pc (observe_followup e s))" for e pc
      by (rule put_drain_serves) (simp add: that)
    with True ScanRuns show ?thesis by (simp add: loop_head_def Let_def serves_def)
  next
    case ScanEnded
    with True put_drain_serves [OF that] show ?thesis by (simp add: loop_head_def Let_def)
  qed
qed

lemma view_updates [simp]:
  "queue_at (s\<lparr>fs_callbacks := c\<rparr>) = queue_at s" "works (s\<lparr>fs_callbacks := c\<rparr>) = works s"
  "draining_at (s\<lparr>fs_callbacks := c\<rparr>) = draining_at s" "loop_keys (s\<lparr>fs_callbacks := c\<rparr>) = loop_keys s"
  "queue_at (s\<lparr>fs_drains := D\<rparr>) = queue_at s" "works (s\<lparr>fs_drains := D\<rparr>) = works s"
  "draining_at (s\<lparr>fs_drains := D\<rparr>) = draining_at s" "loop_keys (s\<lparr>fs_drains := (fs_drains s)(i := None)\<rparr>) = (loop_keys s)(i := None)"
  "queue_at (s\<lparr>fs_recent := r\<rparr>) = queue_at s" "works (s\<lparr>fs_recent := r\<rparr>) = works s"
  "draining_at (s\<lparr>fs_recent := r\<rparr>) = draining_at s" "loop_keys (s\<lparr>fs_recent := r\<rparr>) = loop_keys s"
  "queue_at (s\<lparr>fs_runs := h\<rparr>) = queue_at s" "works (s\<lparr>fs_runs := h\<rparr>) = works s"
  "draining_at (s\<lparr>fs_runs := h\<rparr>) = draining_at s" "loop_keys (s\<lparr>fs_runs := h\<rparr>) = loop_keys s"
  "queue_at (s\<lparr>fs_aborted := a\<rparr>) = queue_at s" "works (s\<lparr>fs_aborted := a\<rparr>) = works s"
  "draining_at (s\<lparr>fs_aborted := a\<rparr>) = draining_at s" "loop_keys (s\<lparr>fs_aborted := a\<rparr>) = loop_keys s"
  by (simp_all add: queue_at_def works_def draining_at_def loop_keys_def fun_eq_iff)

lemma sound_updates [simp]:
  "followup_sound (s\<lparr>fs_recent := r\<rparr>) = followup_sound s" "followup_sound (mark_followup_run_enqueued m s) = followup_sound s"
  "followup_sound (complete_all rs s) = followup_sound s" "followup_sound (s\<lparr>fs_callbacks := c\<rparr>) = followup_sound s"
  "unserved (s\<lparr>fs_recent := r\<rparr>) = unserved s" "unserved (mark_followup_run_enqueued m s) = unserved s"
  by (simp_all add: followup_sound_def sound_with_def unserved_def fun_eq_iff)

lemma sound_idle: "followup_sound s \<Longrightarrow> \<not> draining_at s i \<Longrightarrow> loop_keys s i = None"
  by (simp add: followup_sound_def sound_with_def)

text \<open>A loop takes up a queue; a loop puts its queue down.\<close>

definition taken_up :: "nat \<Rightarrow> (jstring, nat) jmap \<Rightarrow> followup_state \<Rightarrow> followup_state" where
  "taken_up i cs s = (put_object i ((fs_objects s i)\<lparr>fq_draining := True\<rparr>) s)\<lparr>fs_callbacks := cs\<rparr>"

definition put_down :: "nat \<Rightarrow> followup_state \<Rightarrow> followup_state" where
  "put_down i s = (put_object i ((fs_objects s i)\<lparr>fq_draining := False\<rparr>) s)\<lparr>fs_drains := (fs_drains s)(i := None)\<rparr>"

lemma taken_up_view:
  "queue_at (taken_up i cs s) = queue_at s" "works (taken_up i cs s) = works s" "loop_keys (taken_up i cs s) = loop_keys s"
  "draining_at (taken_up i cs s) = (draining_at s)(i := True)" "fs_next (taken_up i cs s) = fs_next s"
  "fs_callbacks (taken_up i cs s) = cs"
  by (simp_all add: taken_up_def queue_at_def works_def loop_keys_def draining_at_def has_work_def fun_eq_iff)

lemma put_down_view:
  "queue_at (put_down i s) = queue_at s" "works (put_down i s) = works s" "loop_keys (put_down i s) = (loop_keys s)(i := None)"
  "draining_at (put_down i s) = (draining_at s)(i := False)" "fs_next (put_down i s) = fs_next s"
  "fs_callbacks (put_down i s) = fs_callbacks s"
  by (simp_all add: put_down_def queue_at_def works_def loop_keys_def draining_at_def has_work_def fun_eq_iff)

lemma taken_up_transit:
  assumes "followup_sound s" "queue_at s (dr_key d) = Some i"
  shows "in_transit i d (taken_up i cs s)"
  using assms table_loop_starts [of "loop_keys s" "works s" "queue_at s" "fs_next s" "dr_key d" i]
  unfolding in_transit_def followup_sound_def sound_with_def taken_up_view by (auto simp: fun_eq_iff)

lemma put_down_sound:
  assumes "in_transit i d s"
  shows "followup_sound (put_down i s)"
  using assms table_loop_ends [of "(loop_keys s)(i := Some (dr_key d))" "works s" "queue_at s" "fs_next s" i]
  unfolding in_transit_def followup_sound_def sound_with_def put_down_view by (simp add: fun_eq_iff)

lemma schedule_taken_up:
  assumes "queue_at s k = Some i" "\<not> draining_at s i"
  shows "schedule_followup_drain k c s =
     (let c' = (case map_of (fs_callbacks s) k of None \<Rightarrow> c | Some c' \<Rightarrow> c')
      in loop_head i \<lparr>dr_key = k, dr_callback = c', dr_force = False, dr_pc = CollectReady\<rparr> (taken_up i (map_put k c' (fs_callbacks s)) s))"
  using assms
  by (simp add: schedule_followup_drain_def begin_queue_drain_def queue_at_def draining_at_def taken_up_def Let_def)

lemma schedule_busy:
  "\<nexists>i. queue_at s k = Some i \<and> \<not> draining_at s i \<Longrightarrow> schedule_followup_drain k c s = s"
  by (auto simp: schedule_followup_drain_def begin_queue_drain_def queue_at_def draining_at_def split: option.splits)

lemma schedule_serves:
  assumes "followup_sound s"
  shows "serves s (schedule_followup_drain k c s)" "\<not> unserved (schedule_followup_drain k c s) k"
proof -
  have "serves s (schedule_followup_drain k c s) \<and> \<not> unserved (schedule_followup_drain k c s) k"
  proof (cases "\<exists>i. queue_at s k = Some i \<and> \<not> draining_at s i")
    case False
    then have "\<not> unserved s k" by (auto simp: unserved_def)
    with assms show ?thesis by (simp add: schedule_busy [OF False] serves_def)
  next
    case True
    then obtain i where i: "queue_at s k = Some i" "\<not> draining_at s i" by blast
    let ?e = "case map_of (fs_callbacks s) k of None \<Rightarrow> c | Some c' \<Rightarrow> c'"
    let ?d = "\<lparr>dr_key = k, dr_callback = ?e, dr_force = False, dr_pc = CollectReady\<rparr>"
    let ?s = "taken_up i (map_put k ?e (fs_callbacks s)) s"
    have "serves ?s (loop_head i ?d ?s)" using assms i by (intro loop_head_serves taken_up_transit) simp_all
    moreover have "k' \<noteq> k \<and> unserved s k'" if "unserved ?s k'" for k'
      using that i unfolding unserved_def taken_up_view by (auto simp: map_of_map_put split: if_splits)
    ultimately show ?thesis unfolding schedule_taken_up [OF i] Let_def serves_def by blast
  qed
  then show "serves s (schedule_followup_drain k c s)" "\<not> unserved (schedule_followup_drain k c s) k" by auto
qed

lemma end_drain_put_down:
  "has_work (fs_objects s i) \<Longrightarrow> end_drain i d s = schedule_followup_drain (dr_key d) (dr_callback d) (put_down i s)"
  by (simp add: end_drain_def put_down_def)

text \<open>The end of a loop: the queue is forgotten, or the loop starts again at once.\<close>

lemma end_drain_serves: "serves s (end_drain i d s)" if t: "in_transit i d s"
proof (cases "has_work (fs_objects s i)")
  case False
  with end_empty_serves [OF t] show ?thesis by (simp add: end_drain_def)
next
  case True
  have at_i: "queue_at s k = Some i \<Longrightarrow> k = dr_key d" for k
    using t fun_upd_same [of "loop_keys s" i "Some (dr_key d)"] unfolding in_transit_def sound_with_def table_ok_def by blast
  have "k = dr_key d \<or> unserved s k" if "unserved (put_down i s) k" for k
    using that at_i [of k] unfolding unserved_def put_down_view by (auto split: if_splits)
  with schedule_serves [OF put_down_sound [OF t], of "dr_key d" "dr_callback d"]
  show ?thesis unfolding serves_def end_drain_put_down [OF True] by blast
qed

text \<open>How the parts of a step may rewrite the object of a loop.\<close>

lemma in_transit_rewrite:
  assumes "in_transit i d s" "fq_draining q = fq_draining (fs_objects s i)" "has_work q \<Longrightarrow> has_work (fs_objects s i)"
    and "serves (put_object i q s) u"
  shows "serves s u"
  using in_transit_object(2) [of i d s q] in_transit_draining [OF assms(1)] assms by (simp add: serves_def)

lemma fail_drain_serves: "serves s (fail_drain i d now s)" if "in_transit i d s"
proof -
  let ?q = "(fs_objects s i)\<lparr>fq_last_enqueued_at := now\<rparr>"
  have w: "has_work ?q = has_work (fs_objects s i)" by (simp add: has_work_def)
  have "in_transit i d (put_object i ?q s)" using that w in_transit_draining by (intro in_transit_object(1)) simp_all
  then have "serves (put_object i ?q s) (fail_drain i d now s)"
    unfolding fail_drain_def by (rule end_drain_serves)
  with that w show ?thesis by (intro in_transit_rewrite [of i d s ?q]) simp_all
qed

lemma started_serves:
  "in_transit i d s \<Longrightarrow> dr_key d' = dr_key d \<Longrightarrow> serves s (put_drain i d' pc (observe_followup e s))"
  using put_drain_serves [of i d' "observe_followup e s" pc] in_transit_same_key [of i d s d']
  by (simp add: serves_def)

lemma continue_scan_serves: "in_transit i d s \<Longrightarrow> serves s (continue_scan i d ph k n now s)"
  by (auto simp: continue_scan_def fail_drain_serves started_serves put_drain_serves split: scan_result.split)

lemma check_debounce_serves: "in_transit i d s \<Longrightarrow> serves s (check_debounce i d now s)"
  by (simp add: check_debounce_def check_quiet_def Let_def put_drain_serves)

lemma drain_next_serves: "in_transit i d s \<Longrightarrow> dr_key d' = dr_key d \<Longrightarrow> serves s (drain_next_queue_item i d' use req s)"
  by (auto simp: drain_next_queue_item_def started_serves put_drain_serves in_transit_same_key split: list.split)

lemma start_summary_serves: "in_transit i d s \<Longrightarrow> serves s (start_summary_only i d sm now imgs s)"
  by (auto simp: start_summary_only_def started_serves end_drain_serves split: option.split)

lemma start_groups_serves: "in_transit i d s \<Longrightarrow> serves s (start_groups i d gs sm now s)"
  by (auto simp: start_groups_def started_serves loop_head_serves split: list.split)

lemma dispatch_serves: "in_transit i d s \<Longrightarrow> serves s (dispatch registry i d now s)"
  by (auto simp: dispatch_def Let_def put_drain_serves drain_next_serves end_drain_serves split: option.split)

section \<open>Steps of a loop\<close>

lemma clear_summary_rewrite:
  assumes "in_transit i d s"
  shows "in_transit i d (clear_followup_queue_summary_state i s)"
    "serves (clear_followup_queue_summary_state i s) u \<Longrightarrow> serves s u"
proof -
  let ?q = "(fs_objects s i)\<lparr>fq_sources := [], fq_dropped := 0, fq_lines := []\<rparr>"
  have w: "has_work ?q \<Longrightarrow> has_work (fs_objects s i)" by (simp add: has_work_def)
  have eq: "clear_followup_queue_summary_state i s = put_object i ?q (complete_all (fq_sources (fs_objects s i)) s)"
    by (simp add: clear_followup_queue_summary_state_def Let_def)
  let ?s = "complete_all (fq_sources (fs_objects s i)) s"
  have t: "in_transit i d ?s" using assms by simp
  show "in_transit i d (clear_followup_queue_summary_state i s)"
    unfolding eq using t w in_transit_draining [OF t] by (intro in_transit_object(1)) simp_all
  show "serves s u" if "serves (clear_followup_queue_summary_state i s) u"
    using that in_transit_rewrite [OF t, of ?q u] w unfolding eq by (simp add: serves_def)
qed

lemma complete_sources_rewrite:
  assumes "in_transit i d s"
  shows "in_transit i d (complete_summary_sources i s)" "serves (complete_summary_sources i s) u \<Longrightarrow> serves s u"
proof -
  let ?q = "(fs_objects s i)\<lparr>fq_sources := []\<rparr>"
  have w: "has_work ?q = has_work (fs_objects s i)" by (simp add: has_work_def)
  have eq: "complete_summary_sources i s = put_object i ?q (complete_all (fq_sources (fs_objects s i)) s)"
    by (simp add: complete_summary_sources_def Let_def)
  let ?s = "complete_all (fq_sources (fs_objects s i)) s"
  have t: "in_transit i d ?s" using assms by simp
  show "in_transit i d (complete_summary_sources i s)"
    unfolding eq using t w in_transit_draining [OF t] by (intro in_transit_object(1)) simp_all
  show "serves s u" if "serves (complete_summary_sources i s) u"
    using that in_transit_rewrite [OF t, of ?q u] w unfolding eq by (simp add: serves_def)
qed

lemma items_rewrite:
  assumes t: "in_transit i d s" and w: "items \<noteq> [] \<Longrightarrow> fq_items (fs_objects s i) \<noteq> []"
  shows "in_transit i d (put_object i ((fs_objects s i)\<lparr>fq_items := items\<rparr>) s)"
    "serves (put_object i ((fs_objects s i)\<lparr>fq_items := items\<rparr>) s) u \<Longrightarrow> serves s u"
proof -
  let ?q = "(fs_objects s i)\<lparr>fq_items := items\<rparr>"
  have w: "has_work ?q \<Longrightarrow> has_work (fs_objects s i)" using w by (auto simp: has_work_def)
  have d: "fq_draining ?q = fq_draining (fs_objects s i)" by simp
  show "in_transit i d (put_object i ?q s)"
    using in_transit_draining [OF t] w by (intro in_transit_object(1) [OF t]) simp_all
  show "serves (put_object i ?q s) u \<Longrightarrow> serves s u" by (rule in_transit_rewrite [OF t d w])
qed

lemma shift_rewrite:
  assumes "in_transit i d s"
  shows "in_transit i d (shift_items i n s)" "serves (shift_items i n s) u \<Longrightarrow> serves s u"
proof -
  have w: "drop n (fq_items (fs_objects s i)) \<noteq> [] \<Longrightarrow> fq_items (fs_objects s i) \<noteq> []" by auto
  show "in_transit i d (shift_items i n s)" "serves (shift_items i n s) u \<Longrightarrow> serves s u"
    unfolding shift_items_def using items_rewrite [OF assms w] by blast+
qed

lemma remove_rewrite:
  assumes "in_transit i d s"
  shows "in_transit i d (remove_item i k s)" "serves (remove_item i k s) u \<Longrightarrow> serves s u"
proof -
  have w: "take k (fq_items (fs_objects s i)) @ drop (Suc k) (fq_items (fs_objects s i)) \<noteq> [] \<Longrightarrow> fq_items (fs_objects s i) \<noteq> []"
    by auto
  show "in_transit i d (remove_item i k s)" "serves (remove_item i k s) u \<Longrightarrow> serves s u"
    unfolding remove_item_def Let_def using items_rewrite [OF assms w] by blast+
qed

lemma after_scan_serves: "serves s (after_scan registry i d ph n now s)" if "in_transit i d s"
proof -
  have go: "serves t (if \<not> has_work (fs_objects t i) then end_drain i d t
      else case ph of BeforeDebounce \<Rightarrow> check_debounce i d now t | AfterDebounce \<Rightarrow> dispatch registry i d now t)"
    if "in_transit i d t" for t
    using that by (simp add: end_drain_serves check_debounce_serves dispatch_serves split: debounce_phase.split)
  show ?thesis
  proof (cases "0 < n \<and> fq_items (fs_objects s i) = []")
    case True
    then show ?thesis
      using clear_summary_rewrite(2) [OF that go [OF clear_summary_rewrite(1) [OF that]]]
      unfolding after_scan_def Let_def by (simp only: if_True simp_thms)
  next
    case False
    then show ?thesis using go [OF that] unfolding after_scan_def Let_def by (simp only: if_False)
  qed
qed

lemma resume_drain_serves: "serves s (resume_drain registry i now s)" if "followup_sound s"
proof (cases "fs_drains s i")
  case None
  with that show ?thesis by (simp add: resume_drain_def serves_def)
next
  case (Some d)
  note t = sound_in_transit [OF that Some]
  note parts = after_scan_serves continue_scan_serves start_summary_serves start_groups_serves put_drain_serves
    loop_head_serves end_drain_serves
  show ?thesis
  proof (cases "dr_pc d")
    case (ItemDone use drained)
    with Some t show ?thesis
      by (cases use) (simp_all add: resume_drain_def parts clear_summary_rewrite [OF t])
  next
    case (ItemCleaned use item)
    with Some shift_rewrite(2) [OF t put_drain_serves [OF shift_rewrite(1) [OF t, of 1]]] show ?thesis
      by (simp add: resume_drain_def)
  next
    case (GroupDone g gs sm)
    have "serves s (let s1 = shift_items i (length g) s;
              s2 = (if truthy_text sm then clear_followup_queue_summary_state i s1 else s1)
          in start_groups i d gs (if truthy_text sm then None else sm) now s2)"
      using shift_rewrite [OF t, of "length g"] clear_summary_rewrite [OF shift_rewrite(1) [OF t, of "length g"]]
      by (simp add: Let_def start_groups_serves)
    with Some GroupDone show ?thesis by (simp add: resume_drain_def)
  qed (use Some t that in \<open>simp_all add: resume_drain_def parts clear_summary_rewrite [OF t] shift_rewrite [OF t] Let_def serves_def [of s s]\<close>)
qed

lemma debounce_fires_serves: "followup_sound s \<Longrightarrow> serves s (debounce_timer_fires i now s)"
  by (auto simp: debounce_timer_fires_def check_quiet_def Let_def put_drain_serves sound_in_transit serves_def [of s s]
      split: option.split drain_pc.split)

lemma settle_callback_serves: "serves s (settle_callback i ok now s)" if "followup_sound s"
proof (cases "fs_drains s i")
  case None
  with that show ?thesis by (simp add: settle_callback_def serves_def)
next
  case (Some d)
  have seen: "in_transit i d (observe_followup e s)" "serves (observe_followup e s) u \<Longrightarrow> serves s u" for e u
    using sound_in_transit [OF that Some] by (simp_all add: serves_def)
  show ?thesis
  proof (cases "dr_pc d")
    case (AbortedRun ph k n item)
    let ?s = "observe_followup (CallbackSettled (dr_key d) (dr_callback d) [fu_id item] ok) s"
    let ?t = "complete_followup_run_lifecycle item ?s"
    have t: "in_transit i d ?t" "serves ?t u \<Longrightarrow> serves ?s u" for u
      using seen(1) unfolding complete_one by (simp_all add: serves_def)
    have "serves ?t (continue_scan i d ph k (n + 1) now (remove_item i k ?t))"
      by (rule remove_rewrite(2) [OF t(1) continue_scan_serves [OF remove_rewrite(1) [OF t(1)]]])
    then have "serves s (continue_scan i d ph k (n + 1) now (remove_item i k ?t))" using t(2) seen(2) by blast
    moreover have "serves s (fail_drain i d now ?s)" by (rule seen(2) [OF fail_drain_serves [OF seen(1)]])
    ultimately show ?thesis using Some AbortedRun by (cases ok) (simp_all add: settle_callback_def Let_def)
  next
    case (ItemRun use item)
    let ?s = "observe_followup (CallbackSettled (dr_key d) (dr_callback d) (if use = SummaryItem then [] else [fu_id item]) ok) s"
    let ?t = "if use = SummaryItem then complete_summary_sources i ?s else ?s"
    have t: "in_transit i d ?t" "serves ?t u \<Longrightarrow> serves s u" for u
      using seen(1) complete_sources_rewrite(1) [OF seen(1)]
        seen(2) [OF complete_sources_rewrite(2) [OF seen(1)]] seen(2) by (simp_all split: if_splits)
    have "serves s (fail_drain i d now ?t)" by (intro t(2) fail_drain_serves t(1))
    moreover have "serves s (put_drain i d (ItemCleaned use item) ?t)" by (intro t(2) put_drain_serves t(1))
    moreover have "serves s (put_drain i d (ItemDone use True) (shift_items i 1 ?t))"
      by (rule t(2) [OF shift_rewrite(2) [OF t(1) put_drain_serves [OF shift_rewrite(1) [OF t(1)]]]])
    ultimately show ?thesis using Some ItemRun
      by (cases ok; cases "use = SummaryItem") (simp_all add: settle_callback_def Let_def)
  next
    case SummaryRun
    let ?t = "complete_summary_sources i (observe_followup (CallbackSettled (dr_key d) (dr_callback d) [] ok) s)"
    have t: "in_transit i d ?t" "serves ?t u \<Longrightarrow> serves s u" for u
      using seen(1) complete_sources_rewrite(1) [OF seen(1)]
        seen(2) [OF complete_sources_rewrite(2) [OF seen(1)]] seen(2) by (simp_all split: if_splits)
    have "serves s (fail_drain i d now ?t)" by (intro t(2) fail_drain_serves t(1))
    moreover have "serves s (put_drain i d SummaryDone ?t)" by (intro t(2) put_drain_serves t(1))
    ultimately show ?thesis using Some SummaryRun by (cases ok) (simp_all add: settle_callback_def Let_def)
  next
    case (GroupRun g gs sm)
    let ?s = "observe_followup (CallbackSettled (dr_key d) (dr_callback d) (map fu_id g) ok) s"
    let ?t = "if truthy_text sm then complete_summary_sources i ?s else ?s"
    have t: "in_transit i d ?t" "serves ?t u \<Longrightarrow> serves s u" for u
      using seen(1) complete_sources_rewrite(1) [OF seen(1)]
        seen(2) [OF complete_sources_rewrite(2) [OF seen(1)]] seen(2) by (simp_all split: if_splits)
    have "serves s (fail_drain i d now ?t)" by (intro t(2) fail_drain_serves t(1))
    moreover have "serves s (put_drain i d (GroupDone g gs sm) ?t)" by (intro t(2) put_drain_serves t(1))
    ultimately show ?thesis using Some GroupRun
      by (cases ok; cases "truthy_text sm") (simp_all add: settle_callback_def Let_def)
  qed (use Some that in \<open>simp_all add: settle_callback_def serves_def\<close>)
qed

section \<open>Calls from outside\<close>

text \<open>Writing a mapped object can leave only the key of that object without a loop.\<close>

lemma put_mapped:
  assumes s: "followup_sound s" and i: "queue_at s k = Some i" and d: "fq_draining q = fq_draining (fs_objects s i)"
  shows "followup_sound (put_object i q s)" "unserved (put_object i q s) k' \<Longrightarrow> k' = k \<or> unserved s k'"
proof -
  have dr: "(draining_at s)(i := fq_draining q) = draining_at s" using d by (simp add: draining_at_def fun_upd_idem)
  have "table_ok (loop_keys s) ((works s)(i := has_work q)) (queue_at s) (fs_next s)"
    using s i unfolding followup_sound_def sound_with_def by (blast intro: table_more_work)
  then show "followup_sound (put_object i q s)"
    using s dr unfolding followup_sound_def sound_with_def by simp
  have "k' = k" if "queue_at s k' = Some i"
    using s i that unfolding followup_sound_def sound_with_def table_ok_def by blast
  then show "unserved (put_object i q s) k' \<Longrightarrow> k' = k \<or> unserved s k'"
    using d unfolding unserved_def by (auto simp: draining_at_def split: if_splits)
qed

lemma unserved_same_work:
  assumes "has_work q = has_work (fs_objects s i)" "fq_draining q = fq_draining (fs_objects s i)"
  shows "unserved (put_object i q s) = unserved s"
proof -
  have "(works s)(i := has_work q) = works s" "(draining_at s)(i := fq_draining q) = draining_at s"
    using assms by (simp_all add: works_def draining_at_def fun_upd_idem)
  then show ?thesis by (simp add: unserved_def fun_eq_iff del: fun_upd_apply)
qed

lemma get_queue_sound:
  assumes s: "followup_sound s" and g: "get_followup_queue k st s = (i, t)"
  shows "followup_sound t" "queue_at t k = Some i" "\<And>k'. unserved t k' \<Longrightarrow> unserved s k'"
    "fs_callbacks t = fs_callbacks s"
proof -
  have settings: "has_work (apply_queue_runtime_settings st q) = has_work q"
    "fq_draining (apply_queue_runtime_settings st q) = fq_draining q" for q
    by (simp_all add: apply_queue_runtime_settings_def has_work_def)
  have "followup_sound t \<and> queue_at t k = Some i \<and> (\<forall>k'. unserved t k' \<longrightarrow> unserved s k') \<and> fs_callbacks t = fs_callbacks s"
  proof (cases "queue_at s k")
    case (Some j)
    let ?q = "apply_queue_runtime_settings st (fs_objects s j)"
    have t: "i = j" "t = put_object j ?q s" using Some g by (auto simp: get_followup_queue_def queue_at_def)
    have "followup_sound (put_object j ?q s)" "unserved (put_object j ?q s) = unserved s"
      using put_mapped(1) [OF s Some, of ?q] unserved_same_work [of ?q s j] settings by simp_all
    with Some show ?thesis unfolding t by simp
  next
    case None
    let ?q = "apply_queue_runtime_settings st (new_followup_queue st)"
    have t: "i = fs_next s" "t = put_object i ?q (s\<lparr>fs_next := i + 1, fs_map := map_put k i (fs_map s)\<rparr>)"
      using None g by (auto simp: get_followup_queue_def queue_at_def Let_def)
    have tab: "table_ok (loop_keys s) (works s) (queue_at s) (fs_next s)" and dr: "draining_at s = (\<lambda>j. loop_keys s j \<noteq> None)"
      using s by (simp_all add: followup_sound_def sound_with_def)
    note new = table_new [OF tab None]
    have q: "\<not> has_work ?q" "\<not> fq_draining ?q" unfolding settings by (simp_all add: new_followup_queue_def has_work_def)
    have v: "queue_at t = (queue_at s)(k := Some i)" "works t = (works s)(i := False)" "loop_keys t = loop_keys s"
      "draining_at t = (draining_at s)(i := False)" "fs_next t = Suc i" "fs_callbacks t = fs_callbacks s"
      using q unfolding t(2)
      by (simp_all add: queue_at_def works_def loop_keys_def draining_at_def fun_eq_iff map_of_map_put)
    have w: "works t = works s" "draining_at t = draining_at s"
      using new(2,3) dr unfolding v(2,4) t(1) by (simp_all add: fun_eq_iff)
    have "followup_sound t" using new(1) dr unfolding followup_sound_def sound_with_def w v(1,3,5) t(1) by simp
    moreover have "unserved s k'" if "unserved t k'" for k'
      using that new(2) unfolding unserved_def w v(1,6) t(1) by (auto split: if_splits)
    ultimately show ?thesis using v(1,6) by simp
  qed
  then show "followup_sound t" "queue_at t k = Some i" "\<And>k'. unserved t k' \<Longrightarrow> unserved s k'" "fs_callbacks t = fs_callbacks s"
    by auto
qed

lemma drop_policy_draining: "apply_queue_drop_policy q = (room, dropped, q') \<Longrightarrow> fq_draining q' = fq_draining q"
  by (auto simp: apply_queue_drop_policy_def Let_def split: if_splits)

lemma settle_dropped_object:
  "\<exists>q'. settle_dropped i dropped s = complete_all (if fq_drop (fs_objects s i) = Summarize
      then take (length (fq_sources (fs_objects s i) @ dropped) - length (fq_lines (fs_objects s i))) (fq_sources (fs_objects s i) @ dropped)
      else dropped) (put_object i q' s) \<and> has_work q' = has_work (fs_objects s i) \<and> fq_draining q' = fq_draining (fs_objects s i) \<and>
      fq_items q' = fq_items (fs_objects s i) \<and> fq_dropped q' = fq_dropped (fs_objects s i) \<and> fq_drop q' = fq_drop (fs_objects s i) \<and>
      fq_mode q' = fq_mode (fs_objects s i) \<and> fq_last_run q' = fq_last_run (fs_objects s i)"
proof (cases "fq_drop (fs_objects s i) = Summarize")
  case True
  then show ?thesis by (auto simp: settle_dropped_def Let_def has_work_def)
next
  case False
  have "put_object i (fs_objects s i) s = s" by (simp add: put_object_def)
  with False show ?thesis by (intro exI [of _ "fs_objects s i"]) (simp add: settle_dropped_def Let_def)
qed

lemma drop_policy_no_room: "apply_queue_drop_policy q = (False, dropped, q') \<Longrightarrow> q' = q"
  by (auto simp: apply_queue_drop_policy_def Let_def split: if_splits)

lemma kick_serves:
  assumes "followup_sound t" "queue_at t k = Some i" "\<And>k'. k' \<noteq> k \<Longrightarrow> unserved t k' \<Longrightarrow> unserved s k'"
  shows "serves s (if \<not> fq_draining (fs_objects t i) then kick_followup_drain_if_idle k t else t) \<and>
    \<not> unserved (if \<not> fq_draining (fs_objects t i) then kick_followup_drain_if_idle k t else t) k"
proof (cases "fq_draining (fs_objects t i)")
  case True
  then have "\<not> unserved t k" using assms(2) by (simp add: unserved_def draining_at_def)
  moreover from this have "unserved s k'" if "unserved t k'" for k' using that assms(3) by (cases "k' = k") auto
  ultimately show ?thesis using True assms(1) by (simp add: serves_def)
next
  case False
  show ?thesis
  proof (cases "map_of (fs_callbacks t) k")
    case None
    then have "\<not> unserved t k" by (simp add: unserved_def)
    moreover from this have "unserved s k'" if "unserved t k'" for k' using that assms(3) by (cases "k' = k") auto
    ultimately show ?thesis using False None assms(1) by (simp add: serves_def kick_followup_drain_if_idle_def)
  next
    case (Some c)
    let ?u = "schedule_followup_drain k c t"
    have "unserved s k'" if "unserved ?u k'" for k'
    proof -
      have "k' \<noteq> k" using that schedule_serves(2) [OF assms(1), of k c] by blast
      moreover have "unserved t k'" using that schedule_serves(1) [OF assms(1), of k c] by (simp add: serves_def)
      ultimately show ?thesis by (rule assms(3))
    qed
    moreover have "followup_sound ?u" by (rule servesD [OF schedule_serves(1) [OF assms(1)]])
    moreover have "\<not> unserved ?u k" by (rule schedule_serves(2) [OF assms(1)])
    ultimately show ?thesis using False Some by (simp add: kick_followup_drain_if_idle_def serves_def)
  qed
qed

text \<open>An enqueued message that may not restart the loop can leave the queue of its key without one.\<close>

definition serves_but :: "jstring set \<Rightarrow> followup_state \<Rightarrow> followup_state \<Rightarrow> bool" where
  "serves_but E s s' \<longleftrightarrow> followup_sound s' \<and> (\<forall>k. unserved s' k \<longrightarrow> k \<in> E \<or> unserved s k)"

lemma serves_butI: "serves s t \<Longrightarrow> serves_but E s t"
  by (simp add: serves_def serves_but_def)

lemma serves_but_trans: "serves s t \<Longrightarrow> serves_but E t u \<Longrightarrow> serves_but E s u"
  by (auto simp: serves_def serves_but_def)

lemma add_serves:
  assumes s3: "followup_sound s3" "queue_at s3 k = Some i" "\<And>k'. k' \<noteq> k \<Longrightarrow> unserved s3 k' \<Longrightarrow> unserved s k'"
  shows "serves_but (if restart then {} else {k}) s (add_followup_run i k r recent callback restart now s3) \<and>
    (restart \<longrightarrow> \<not> unserved (add_followup_run i k r recent callback restart now s3) k)"
proof -
  let ?q = "fs_objects s3 i"
  let ?p4 = "put_object i (?q\<lparr>fq_items := fq_items ?q @ [r]\<rparr>) s3"
  let ?s4 = "mark_followup_run_enqueued r ?p4"
  let ?s5 = "?s4\<lparr>fs_recent := snd (check_key recent now (fs_recent ?s4))\<rparr>"
  let ?s6 = "case callback of None \<Rightarrow> ?s5 | Some c \<Rightarrow> remember_followup_drain_callback k c ?s5"
  have s5: "followup_sound ?s5" "queue_at ?s5 k = Some i" "\<And>k'. k' \<noteq> k \<Longrightarrow> unserved ?s5 k' \<Longrightarrow> unserved s k'"
    using put_mapped [OF s3(1,2), of "?q\<lparr>fq_items := fq_items ?q @ [r]\<rparr>"] s3(2,3) by auto
  have "unserved ?s6 k' = unserved ?s5 k'" if "k' \<noteq> k" for k'
    using that by (simp add: remember_followup_drain_callback_def unserved_def map_of_map_put split: option.split)
  then have others: "\<And>k'. k' \<noteq> k \<Longrightarrow> unserved ?s6 k' \<Longrightarrow> unserved s k'" using s5(3) by blast
  have s6: "followup_sound ?s6" "queue_at ?s6 k = Some i"
    using s5(1,2) by (simp_all add: remember_followup_drain_callback_def split: option.split)
  show ?thesis
  proof (cases restart)
    case True
    note kick = kick_serves [OF s6 others]
    show ?thesis using serves_butI [OF conjunct1 [OF kick], of "{}"] conjunct2 [OF kick] True
      unfolding add_followup_run_def Let_def by (simp only: simp_thms if_True)
  next
    case False
    have "serves_but {k} s ?s6" using s6(1) others unfolding serves_but_def by blast
    with False show ?thesis unfolding add_followup_run_def Let_def by (simp only: simp_thms if_False)
  qed
qed

lemma offer_serves:
  assumes s: "followup_sound s" "queue_at s k = Some i"
  shows "serves_but (if restart \<or> \<not> fst (offer_followup_run i k r recent callback restart now s) then {} else {k}) s
      (snd (offer_followup_run i k r recent callback restart now s)) \<and>
    (restart \<longrightarrow> fst (offer_followup_run i k r recent callback restart now s) \<longrightarrow>
      \<not> unserved (snd (offer_followup_run i k r recent callback restart now s)) k)"
proof -
  let ?q = "fs_objects s i"
  let ?q0 = "?q\<lparr>fq_last_enqueued_at := now, fq_last_run := Some (fu_run r)\<rparr>"
  obtain room dropped q1 where p: "apply_queue_drop_policy ?q0 = (room, dropped, q1)" by (metis surj_pair)
  obtain rs q' where d: "settle_dropped i dropped (put_object i q1 s) = complete_all rs (put_object i q' (put_object i q1 s))"
    "fq_draining q' = fq_draining q1" "has_work q' = has_work q1"
    using settle_dropped_object [of i dropped "put_object i q1 s"] by auto
  have q': "fq_draining q' = fq_draining (fs_objects s i)" using d(2) drop_policy_draining [OF p] by simp
  have d': "settle_dropped i dropped (put_object i q1 s) = complete_all rs (put_object i q' s)" (is "_ = ?s3")
    using d(1) by (simp add: put_object_def)
  have s3: "followup_sound ?s3" "queue_at ?s3 k = Some i" "\<And>k'. k' \<noteq> k \<Longrightarrow> unserved ?s3 k' \<Longrightarrow> unserved s k'"
    using put_mapped [OF s, of q'] q' s(2) by auto
  have "serves s ?s3" if "\<not> room"
  proof -
    have "q1 = ?q0" using that p drop_policy_no_room [of ?q0 dropped q1] by simp
    then have w: "has_work q' = has_work (fs_objects s i)" using d(3) by (simp add: has_work_def)
    show ?thesis using s3(1) unserved_same_work [of q' s i, OF w q'] by (simp add: serves_def)
  qed
  moreover have "serves_but (if restart then {} else {k}) s (add_followup_run i k r recent callback restart now ?s3) \<and>
      (restart \<longrightarrow> \<not> unserved (add_followup_run i k r recent callback restart now ?s3) k)"
    by (rule add_serves [OF s3])
  ultimately show ?thesis using serves_butI [of s ?s3]
    by (cases restart; cases room) (simp_all add: offer_followup_run_def p d' Let_def)
qed

lemma enqueue_serves:
  assumes s: "followup_sound s" and e: "enqueue_followup_run k r st mode callback restart now s = (accepted, t)"
  shows "serves_but (if restart \<or> \<not> accepted then {} else {k}) s t \<and> (restart \<longrightarrow> accepted \<longrightarrow> \<not> unserved t k)"
proof (cases "is_followup_run_aborted (fs_aborted s) r")
  case True
  with s e show ?thesis by (auto simp: enqueue_followup_run_def serves_but_def)
next
  case False
  obtain i s1 where g: "get_followup_queue k st s = (i, s1)" by (metis surj_pair)
  note get = get_queue_sound [OF s g]
  let ?recent = "if mode = NoDedupe then None else build_recent_message_id_key r k"
  obtain seen cache where c: "peek_key ?recent now (fs_recent s1) = (seen, cache)" by (metis surj_pair)
  let ?s2 = "s1\<lparr>fs_recent := cache\<rparr>"
  let ?offer = "offer_followup_run i k r ?recent callback restart now ?s2"
  have sound: "followup_sound ?s2" "queue_at ?s2 k = Some i" using get(1,2) by simp_all
  have s2: "serves s ?s2" using get(1,3) by (simp add: serves_def)
  let ?refused = "seen \<or> mode \<noteq> NoDedupe \<and> is_run_already_queued r (fq_items (fs_objects ?s2 i)) (mode = ByPrompt)"
  have step: "(accepted, t) = (if ?refused then (False, ?s2) else ?offer)"
    using e False unfolding enqueue_followup_run_def g Let_def prod.case c by (simp only: if_False)
  show ?thesis
  proof (cases ?refused)
    case True
    with step have "\<not> accepted" "t = ?s2" by (simp_all only: if_True prod.inject simp_thms)
    with serves_butI [OF s2] show ?thesis by simp
  next
    case no: False
    have offer: "?offer = (accepted, t)" using step by (simp only: no if_False)
    note o = offer_serves [OF sound, of restart r ?recent callback now, unfolded offer fst_conv snd_conv]
    from serves_but_trans [OF s2 conjunct1 [OF o]] conjunct2 [OF o] show ?thesis by blast
  qed
qed

lemma clear_queue_serves:
  assumes s: "followup_sound s"
  shows "serves s (snd (clear_followup_queue k s))"
proof (cases "get_existing_followup_queue (trim k) s")
  case None
  with s show ?thesis by (simp add: clear_followup_queue_def serves_def)
next
  case (Some i)
  let ?k = "trim k" and ?q = "fs_objects s i"
  have i: "queue_at s ?k = Some i"
    using Some by (simp add: get_existing_followup_queue_def queue_at_def split: if_splits)
  let ?q' = "?q\<lparr>fq_items := [], fq_dropped := 0, fq_lines := [], fq_sources := [], fq_last_run := None, fq_last_enqueued_at := 0\<rparr>"
  let ?s1 = "complete_all (fq_sources ?q) (complete_all (fq_items ?q) s)"
  let ?t = "(put_object i ?q' ?s1)\<lparr>fs_map := map_del ?k (fs_map ?s1)\<rparr>"
  have w: "\<not> has_work ?q'" by (simp add: has_work_def)
  have eq: "snd (clear_followup_queue k s) = ?t" using Some by (simp add: clear_followup_queue_def Let_def)
  have v: "queue_at ?t = (queue_at s)(?k := None)" "works ?t = (works s)(i := False)" "loop_keys ?t = loop_keys s"
    "draining_at ?t = draining_at s" "fs_next ?t = fs_next s" "fs_callbacks ?t = fs_callbacks s"
    using w by (auto simp: queue_at_def works_def loop_keys_def draining_at_def map_of_map_del fun_eq_iff)
  have tab: "table_ok (loop_keys s) (works s) (queue_at s) (fs_next s)" and dr: "draining_at s = (\<lambda>j. loop_keys s j \<noteq> None)"
    using s by (simp_all add: followup_sound_def sound_with_def)
  have "table_ok (loop_keys s) ((works s)(i := False)) ((queue_at s)(?k := None)) (fs_next s)"
    by (rule table_forgets [OF table_more_work [OF tab i] i]) simp
  then have "followup_sound ?t" unfolding followup_sound_def sound_with_def v using dr by simp
  moreover have "unserved s k'" if "unserved ?t k'" for k'
    using that unfolding unserved_def v by (auto split: if_splits)
  ultimately show ?thesis unfolding eq by (simp add: serves_def)
qed

lemma clear_callback_serves: "followup_sound s \<Longrightarrow> serves s (clear_followup_drain_callback k s)"
  by (auto simp: serves_def clear_followup_drain_callback_def unserved_def map_of_map_del split: if_splits)

lemma runtime_serves:
  assumes "followup_sound s"
  shows "serves s (s\<lparr>fs_runs := h\<rparr>)" "serves s (s\<lparr>fs_aborted := a\<rparr>)" "serves s (s\<lparr>fs_recent := r\<rparr>)"
  using assms by (auto simp: serves_def followup_sound_def sound_with_def unserved_def)

section \<open>Every sequence of events\<close>

text \<open>The keys whose last accepted message came without a restart and that were not scheduled since: the
  loop of such a key may be missing. A later message that may restart the loop takes the key out.\<close>

fun parked_step :: "followup_call \<Rightarrow> followup_state \<Rightarrow> jstring set \<Rightarrow> jstring set" where
  "parked_step (Enqueue_followup key r settings mode callback restart now) s P =
     (if \<not> fst (enqueue_followup_run key r settings mode callback restart now s) then P
      else if restart then P - {key} else insert key P)"
| "parked_step (Schedule_drain key c) s P = P - {key}"
| "parked_step _ s P = P"

lemma serves_within: "serves s t \<Longrightarrow> \<forall>k. unserved s k \<longrightarrow> k \<in> P \<Longrightarrow> followup_sound t \<and> (\<forall>k. unserved t k \<longrightarrow> k \<in> P)"
  by (auto simp: serves_def)

lemma followup_exec_parks:
  assumes s: "followup_sound s" and P: "\<forall>k. unserved s k \<longrightarrow> k \<in> P"
  shows "followup_sound (followup_exec registry c s) \<and> (\<forall>k. unserved (followup_exec registry c s) k \<longrightarrow> k \<in> parked_step c s P)"
proof (cases c)
  case (Enqueue_followup key r st mode callback restart now)
  obtain accepted t where e: "enqueue_followup_run key r st mode callback restart now s = (accepted, t)" by (metis surj_pair)
  from enqueue_serves [OF s e] P show ?thesis
    by (auto simp: Enqueue_followup e serves_but_def split: if_splits)
next
  case (Schedule_drain k cb)
  from serves_within [OF schedule_serves(1) [OF s] P] schedule_serves(2) [OF s] show ?thesis
    by (auto simp: Schedule_drain)
next
  case (Refresh_session k p)
  have "serves s (refresh_queued_followup_session k p s)"
    unfolding refresh_queued_followup_session_def Let_def using runtime_serves(1) [OF s] s
    by (simp add: serves_def [of s s] split: option.split)
  from serves_within [OF this P] show ?thesis by (simp add: Refresh_session)
next
  case (Clear_queue k)
  from serves_within [OF clear_queue_serves [OF s] P] show ?thesis by (simp add: Clear_queue)
next
  case (Clear_callback k)
  from serves_within [OF clear_callback_serves [OF s] P] show ?thesis by (simp add: Clear_callback)
next
  case Reset_dedupe
  from serves_within [OF runtime_serves(3) [OF s] P] show ?thesis
    by (simp add: Reset_dedupe reset_recent_queued_message_id_dedupe_def)
next
  case (Signal_aborts n)
  from serves_within [OF runtime_serves(2) [OF s] P] show ?thesis by (simp add: Signal_aborts abort_signal_def)
next
  case (Drain_resumes i now)
  from serves_within [OF resume_drain_serves [OF s] P] show ?thesis by (simp add: Drain_resumes)
next
  case (Debounce_fires i now)
  from serves_within [OF debounce_fires_serves [OF s] P] show ?thesis by (simp add: Debounce_fires)
next
  case (Callback_settles i ok now)
  from serves_within [OF settle_callback_serves [OF s] P] show ?thesis by (simp add: Callback_settles)
qed

lemma followup_exec_sound: "followup_sound s \<Longrightarrow> followup_sound (followup_exec registry c s)"
  using followup_exec_parks [of s UNIV registry c] by simp

lemma initial_sound: "followup_sound (initial_followup_state runs)" "\<not> unserved (initial_followup_state runs) k"
  by (simp_all add: initial_followup_state_def followup_sound_def sound_with_def table_ok_def unserved_def queue_at_def works_def
      draining_at_def loop_keys_def has_work_def new_followup_queue_def fun_eq_iff)

end
