(* ===== verification/FollowupDelivery.thy ===== *)
theory FollowupDelivery
  imports FollowupInvariants "HOL-Library.Sublist"
begin

text \<open>
  What happens to accepted messages as long as nothing is cleared, aborted or dropped
  (\<open>calm\<close>): the messages that the successful callbacks of a key stand for, followed by those
  that still wait, are the accepted ones in their order (\<open>account\<close>). A message whose group has
  been handed over is removed from the queue one step after its callback has been settled.
\<close>

section \<open>Messages in flight\<close>

definition pc_fits :: "drain_pc \<Rightarrow> followup_run list \<Rightarrow> bool" where
  "pc_fits pc items =
     (case pc of
        AbortedRun ph k n item \<Rightarrow> False
      | ItemRun use item \<Rightarrow> use \<noteq> SummaryItem \<and> items \<noteq> [] \<and> hd items = item
      | ItemCleaned use item \<Rightarrow> False
      | ItemDone use drained \<Rightarrow> use \<noteq> SummaryItem
      | SummaryRun \<Rightarrow> False
      | SummaryDone \<Rightarrow> False
      | GroupRun g gs sm \<Rightarrow> g \<noteq> [] \<and> [] \<notin> set gs \<and> sm = None \<and> prefix (g @ concat gs) items
      | GroupDone g gs sm \<Rightarrow> g \<noteq> [] \<and> [] \<notin> set gs \<and> sm = None \<and> prefix (g @ concat gs) items
      | _ \<Rightarrow> True)"

definition handed_over :: "drain option \<Rightarrow> nat" where
  "handed_over D = (case D of None \<Rightarrow> 0 | Some d \<Rightarrow> (case dr_pc d of GroupDone g gs sm \<Rightarrow> length g | _ \<Rightarrow> 0))"

definition waiting_with :: "(nat \<Rightarrow> drain option) \<Rightarrow> followup_state \<Rightarrow> jstring \<Rightarrow> nat list" where
  "waiting_with D s key =
     (case queue_at s key of None \<Rightarrow> [] | Some i \<Rightarrow> map fu_id (drop (handed_over (D i)) (fq_items (fs_objects s i))))"

definition account_with :: "(nat \<Rightarrow> drain option) \<Rightarrow> followup_state \<Rightarrow> jstring \<Rightarrow> nat list" where
  "account_with D s key = delivered_ids key (fs_log s) @ waiting_with D s key"

text \<open>The messages of a key that have not been delivered, and all that were accepted.\<close>

definition waiting_ids :: "jstring \<Rightarrow> followup_state \<Rightarrow> nat list" where
  "waiting_ids key s = waiting_with (fs_drains s) s key"

definition account :: "followup_state \<Rightarrow> jstring \<Rightarrow> nat list" where
  "account s key = account_with (fs_drains s) s key"

definition calm_with :: "(nat \<Rightarrow> drain option) \<Rightarrow> followup_state \<Rightarrow> bool" where
  "calm_with D s \<longleftrightarrow> fs_aborted s = [] \<and> (\<forall>i. fq_dropped (fs_objects s i) = 0) \<and>
     (\<forall>k i. queue_at s k = Some i \<longrightarrow> fq_drop (fs_objects s i) = DropNew) \<and>
     (\<forall>i d. D i = Some d \<longrightarrow> queue_at s (dr_key d) = Some i \<and> pc_fits (dr_pc d) (fq_items (fs_objects s i)))"

definition calm :: "followup_state \<Rightarrow> bool" where
  "calm s \<longleftrightarrow> followup_sound s \<and> calm_with (fs_drains s) s"

text \<open>A loop in transit is one that has just taken up its work.\<close>

definition calm_transit :: "nat \<Rightarrow> drain \<Rightarrow> followup_state \<Rightarrow> bool" where
  "calm_transit i d s \<longleftrightarrow> in_transit i d s \<and> calm_with ((fs_drains s)(i := None)) s \<and> queue_at s (dr_key d) = Some i"

definition transit_account :: "nat \<Rightarrow> followup_state \<Rightarrow> jstring \<Rightarrow> nat list" where
  "transit_account i s = account_with ((fs_drains s)(i := None)) s"

definition moves :: "(jstring \<Rightarrow> nat list) \<Rightarrow> followup_state \<Rightarrow> bool" where
  "moves A s \<longleftrightarrow> calm_with (fs_drains s) s \<and> account s = A"

lemma waiting_keeps [simp]:
  "waiting_with D (observe_followup e s) = waiting_with D s" "waiting_with D (complete_all rs s) = waiting_with D s"
  "waiting_with D (put_drain i d pc s) = waiting_with D s" "waiting_with D (mark_followup_run_enqueued r s) = waiting_with D s"
  by (simp_all add: waiting_with_def fun_eq_iff split: option.split)

lemma calm_start:
  assumes "calm s" "fs_drains s i = Some d"
  shows "calm_transit i d s" "pc_fits (dr_pc d) (fq_items (fs_objects s i))"
    "handed_over (fs_drains s i) = 0 \<Longrightarrow> transit_account i s = account s"
  using assms sound_in_transit [of s i d]
  by (auto simp: calm_def calm_transit_def calm_with_def transit_account_def account_def account_with_def waiting_with_def
      handed_over_def fun_eq_iff split: option.split)

lemma calm_transit_observe:
  assumes "calm_transit i d s"
  shows "calm_transit i d (observe_followup e s)"
    "transit_account i (observe_followup e s) k =
       delivered_ids k (fs_log s) @ settled_ids k e @ waiting_with ((fs_drains s)(i := None)) s k"
  using assms by (simp_all add: calm_transit_def calm_with_def transit_account_def account_with_def)

lemma moves_put_drain:
  assumes "calm_transit i d s" "dr_key d' = dr_key d" "pc_fits pc (fq_items (fs_objects s i))"
    and "handed_over (Some (d'\<lparr>dr_pc := pc\<rparr>)) = 0"
  shows "moves (transit_account i s) (put_drain i d' pc s)"
  using assms
  by (auto simp: moves_def calm_transit_def calm_with_def transit_account_def account_def account_with_def waiting_with_def
      handed_over_def fun_eq_iff split: option.split)

lemma moves_started:
  assumes "calm_transit i d s" "dr_key d' = dr_key d" "pc_fits pc (fq_items (fs_objects s i))"
    and "handed_over (Some (d'\<lparr>dr_pc := pc\<rparr>)) = 0"
  shows "moves (transit_account i s) (put_drain i d' pc (observe_followup (CallbackStarted k c r) s))"
proof -
  have "transit_account i (observe_followup (CallbackStarted k c r) s) = transit_account i s"
    by (simp add: transit_account_def account_with_def fun_eq_iff)
  with moves_put_drain [OF calm_transit_observe(1) [OF assms(1), of "CallbackStarted k c r"] assms(2), of pc] assms(3,4)
  show ?thesis by simp
qed

text \<open>Rewriting the object of a loop in transit.\<close>

lemma calm_transit_object:
  assumes t: "calm_transit i d s" and q: "fq_draining q" "fq_dropped q = 0" "fq_drop q = fq_drop (fs_objects s i)"
    and w: "has_work q \<Longrightarrow> has_work (fs_objects s i)"
  shows "calm_transit i d (put_object i q s)"
    "transit_account i (put_object i q s) k =
       delivered_ids k (fs_log s) @ (if k = dr_key d then map fu_id (fq_items q) else waiting_with ((fs_drains s)(i := None)) s k)"
proof -
  have at_i: "queue_at s k = Some i \<longleftrightarrow> k = dr_key d" for k
    using t unfolding calm_transit_def in_transit_def sound_with_def table_ok_def by (metis fun_upd_same)
  show "calm_transit i d (put_object i q s)"
    using t q in_transit_object(1) [OF _ q(1), of i d s] w at_i unfolding calm_transit_def calm_with_def by auto
  show "transit_account i (put_object i q s) k =
       delivered_ids k (fs_log s) @ (if k = dr_key d then map fu_id (fq_items q) else waiting_with ((fs_drains s)(i := None)) s k)"
    using at_i [of k] by (auto simp: transit_account_def account_with_def waiting_with_def handed_over_def split: option.split)
qed

lemma calm_transit_complete:
  assumes "calm_transit i d s"
  shows "calm_transit i d (complete_all rs s)" "transit_account i (complete_all rs s) = transit_account i s"
  using assms by (simp_all add: calm_transit_def calm_with_def transit_account_def account_with_def fun_eq_iff)

lemma transit_waiting:
  assumes "calm_transit i d s"
  shows "transit_account i s k = delivered_ids k (fs_log s) @
    (if k = dr_key d then map fu_id (fq_items (fs_objects s i)) else waiting_with ((fs_drains s)(i := None)) s k)"
  using assms by (simp add: transit_account_def account_with_def waiting_with_def handed_over_def calm_transit_def)

text \<open>Rewriting that keeps the items keeps the account.\<close>

lemma calm_transit_same_items:
  assumes "calm_transit i d s" "fq_draining q" "fq_dropped q = 0" "fq_drop q = fq_drop (fs_objects s i)"
    and "fq_items q = fq_items (fs_objects s i)"
  shows "calm_transit i d (put_object i q s)" "transit_account i (put_object i q s) = transit_account i s"
proof -
  have w: "has_work q \<Longrightarrow> has_work (fs_objects s i)" using assms(3,5) by (simp add: has_work_def)
  note o' = calm_transit_object [OF assms(1-4) w]
  show "calm_transit i d (put_object i q s)" by (rule o')
  show "transit_account i (put_object i q s) = transit_account i s"
    using o'(2) transit_waiting [OF assms(1)] assms(5) by (simp add: fun_eq_iff)
qed

section \<open>The parts of a step\<close>

lemma calm_items: "calm_transit i d s \<Longrightarrow> has_work (fs_objects s i) \<longleftrightarrow> fq_items (fs_objects s i) \<noteq> []"
  by (simp add: calm_transit_def calm_with_def has_work_def)

lemma calm_no_summary: "calm_transit i d s \<Longrightarrow> preview_summary (fs_objects s i) = None"
  by (simp add: calm_transit_def calm_with_def preview_summary_def build_queue_summary_prompt_def)

lemma scan_none: "k \<le> length items \<Longrightarrow> scan_aborted [] items k = ScanEnded"
  by (induction k) (simp_all add: is_followup_run_aborted_def list_ex_iff)

lemma calm_not_aborted: "calm_transit i d s \<Longrightarrow> fs_aborted s = []"
  by (simp add: calm_transit_def calm_with_def)

lemma moves_end_empty:
  assumes t: "calm_transit i d s" and e: "fq_items (fs_objects s i) = []"
  shows "moves (transit_account i s) (end_empty i (dr_key d) s)"
proof -
  have at_i: "queue_at s k = Some i \<longleftrightarrow> k = dr_key d" for k
    using t unfolding calm_transit_def in_transit_def sound_with_def table_ok_def by (metis fun_upd_same)
  let ?t = "end_empty i (dr_key d) s"
  have v: "queue_at ?t = (queue_at s)(dr_key d := None)" "fs_drains ?t = (fs_drains s)(i := None)"
    "fs_objects ?t = (fs_objects s)(i := (fs_objects s i)\<lparr>fq_draining := False\<rparr>)" "fs_aborted ?t = fs_aborted s" "fs_log ?t = fs_log s"
    using at_i [of "dr_key d"] by (auto simp: end_empty_def Let_def queue_at_def map_of_map_del fun_eq_iff)
  have "calm_with (fs_drains ?t) ?t"
    using t at_i unfolding calm_transit_def calm_with_def v by auto (metis option.inject)
  moreover have "account ?t k = transit_account i s k" for k
    using e at_i [of k] unfolding account_def account_with_def waiting_with_def transit_account_def v
    by (auto split: option.split)
  ultimately show ?thesis by (simp add: moves_def fun_eq_iff)
qed

lemma moves_loop_head:
  assumes t: "calm_transit i d s"
  shows "moves (transit_account i s) (loop_head i d s)"
proof (cases "fq_items (fs_objects s i) = []")
  case True
  with moves_end_empty [OF t] calm_items [OF t] show ?thesis by (simp add: loop_head_def)
next
  case False
  with moves_put_drain [OF t, of d "AbortedDone BeforeDebounce 0"] calm_items [OF t] show ?thesis
    by (simp add: loop_head_def Let_def calm_not_aborted [OF t] scan_none pc_fits_def handed_over_def)
qed

lemma calm_taken_up:
  assumes c: "calm s" and i: "queue_at s (dr_key d) = Some i" "\<not> draining_at s i"
  shows "calm_transit i d (taken_up i cs s)" "transit_account i (taken_up i cs s) = account s"
proof -
  let ?s = "taken_up i cs s"
  have none: "fs_drains s i = None"
    using c i(2) sound_idle [of s i] by (simp add: calm_def loop_keys_def)
  have "in_transit i d ?s" using c i by (intro taken_up_transit) (simp_all add: calm_def)
  moreover have "calm_with ((fs_drains ?s)(i := None)) ?s"
    using c i(1) none unfolding calm_def calm_with_def by (auto simp: taken_up_def split: if_splits)
  ultimately show "calm_transit i d ?s" using i(1) by (simp add: calm_transit_def taken_up_view)
  show "transit_account i ?s = account s"
    using none
    by (simp add: transit_account_def account_def account_with_def waiting_with_def taken_up_view fun_eq_iff)
      (simp add: taken_up_def fun_upd_idem split: option.split)
qed

lemma calm_schedule:
  assumes "calm s"
  shows "moves (account s) (schedule_followup_drain k c s)"
proof (cases "\<exists>i. queue_at s k = Some i \<and> \<not> draining_at s i")
  case False
  with assms show ?thesis by (simp add: schedule_busy [OF False] moves_def calm_def)
next
  case True
  then obtain i where i: "queue_at s k = Some i" "\<not> draining_at s i" by blast
  let ?e = "case map_of (fs_callbacks s) k of None \<Rightarrow> c | Some c' \<Rightarrow> c'"
  let ?d = "\<lparr>dr_key = k, dr_callback = ?e, dr_force = False, dr_pc = CollectReady\<rparr>"
  have k: "queue_at s (dr_key ?d) = Some i" using i(1) by simp
  note t = calm_taken_up [OF assms k i(2), of "map_put k ?e (fs_callbacks s)"]
  show ?thesis using moves_loop_head [OF t(1)] t(2) unfolding schedule_taken_up [OF i] Let_def by simp
qed

lemma calm_put_down:
  assumes t: "calm_transit i d s"
  shows "calm (put_down i s)"
proof -
  have "calm_with (fs_drains (put_down i s)) (put_down i s)"
    using t unfolding calm_transit_def calm_with_def put_down_view by (auto simp: put_down_def split: if_splits)
  then show ?thesis using t put_down_sound [of i d s] by (simp add: calm_def calm_transit_def)
qed

lemma moves_end_drain:
  assumes t: "calm_transit i d s"
  shows "moves (transit_account i s) (end_drain i d s)"
proof (cases "fq_items (fs_objects s i) = []")
  case True
  with moves_end_empty [OF t] calm_items [OF t] show ?thesis by (simp add: end_drain_def)
next
  case False
  let ?s = "put_down i s"
  from calm_schedule [OF calm_put_down [OF t], of "dr_key d" "dr_callback d"]
  have "moves (account ?s) (end_drain i d s)" using False calm_items [OF t] by (simp add: end_drain_put_down)
  moreover have "account ?s = transit_account i s"
    by (simp add: transit_account_def account_def account_with_def waiting_with_def put_down_view fun_eq_iff)
      (simp add: put_down_def split: option.split)
  ultimately show ?thesis by simp
qed

lemma moves_fail_drain:
  assumes t: "calm_transit i d s"
  shows "moves (transit_account i s) (fail_drain i d now s)"
proof -
  let ?q = "(fs_objects s i)\<lparr>fq_last_enqueued_at := now\<rparr>"
  have q: "fq_draining ?q" "fq_dropped ?q = 0"
    using t in_transit_draining [of i d s] by (simp_all add: calm_transit_def calm_with_def)
  note p = calm_transit_same_items [OF t q]
  show ?thesis using moves_end_drain [OF p(1)] p(2) unfolding fail_drain_def by simp
qed

lemma moves_check_debounce: "calm_transit i d s \<Longrightarrow> moves (transit_account i s) (check_debounce i d now s)"
  by (simp add: check_debounce_def check_quiet_def Let_def moves_put_drain pc_fits_def handed_over_def)

lemma moves_drain_next:
  assumes "calm_transit i d s" "dr_key d' = dr_key d" "use \<noteq> SummaryItem"
  shows "moves (transit_account i s) (drain_next_queue_item i d' use req s)"
  using assms
  by (auto simp: drain_next_queue_item_def pc_fits_def handed_over_def intro!: moves_put_drain moves_started split: list.split)

lemma moves_dispatch:
  assumes "calm_transit i d s"
  shows "moves (transit_account i s) (dispatch registry i d now s)"
  using moves_drain_next [OF assms] moves_put_drain [OF assms, of d CollectReady]
  by (simp add: dispatch_def Let_def calm_no_summary [OF assms] pc_fits_def handed_over_def)

lemma moves_summary_only: "calm_transit i d s \<Longrightarrow> moves (transit_account i s) (start_summary_only i d None now imgs s)"
  by (simp add: start_summary_only_def moves_end_drain)

lemma moves_start_groups:
  assumes "calm_transit i d s" "[] \<notin> set gs" "prefix (concat gs) (fq_items (fs_objects s i))"
  shows "moves (transit_account i s) (start_groups i d gs None now s)"
proof (cases gs)
  case Nil
  with moves_loop_head [OF assms(1)] show ?thesis by (simp add: start_groups_def)
next
  case (Cons g gs')
  have "moves (transit_account i s) (put_drain i d (GroupRun g gs' None)
      (observe_followup (CallbackStarted (dr_key d) (dr_callback d) (group_request (fs_runs s) g None now)) s))"
    using assms Cons by (intro moves_started) (auto simp: pc_fits_def handed_over_def)
  with Cons show ?thesis by (simp add: start_groups_def)
qed

lemma moves_after_scan:
  assumes t: "calm_transit i d s"
  shows "moves (transit_account i s) (after_scan registry i d ph n now s)"
proof -
  have go: "moves (transit_account i u) (if \<not> has_work (fs_objects u i) then end_drain i d u
      else case ph of BeforeDebounce \<Rightarrow> check_debounce i d now u | AfterDebounce \<Rightarrow> dispatch registry i d now u)"
    if "calm_transit i d u" for u
    using that by (simp add: moves_end_drain moves_check_debounce moves_dispatch split: debounce_phase.split)
  show ?thesis
  proof (cases "0 < n \<and> fq_items (fs_objects s i) = []")
    case True
    let ?s = "complete_all (fq_sources (fs_objects s i)) s"
    let ?q = "(fs_objects s i)\<lparr>fq_sources := [], fq_dropped := 0, fq_lines := []\<rparr>"
    note c = calm_transit_complete [OF t, of "fq_sources (fs_objects s i)"]
    have q: "fq_draining ?q" "fq_dropped ?q = 0" "fq_drop ?q = fq_drop (fs_objects ?s i)" "fq_items ?q = fq_items (fs_objects ?s i)"
      using t in_transit_draining [of i d s] by (simp_all add: calm_transit_def)
    note p = calm_transit_same_items [OF c(1) q]
    have "clear_followup_queue_summary_state i s = put_object i ?q ?s"
      by (simp add: clear_followup_queue_summary_state_def Let_def)
    then show ?thesis using True go [OF p(1)] p(2) c(2) unfolding after_scan_def Let_def by (simp only: if_True simp_thms)
  next
    case False
    then show ?thesis using go [OF t] unfolding after_scan_def Let_def by (simp only: if_False)
  qed
qed

section \<open>Collected groups\<close>

lemma split_groups_concat: "concat (split_groups h cur key items) = cur @ items"
  by (induction h cur key items rule: split_groups.induct) (auto simp: Let_def)

lemma split_groups_nonempty: "[] \<notin> set (split_groups h cur key items)"
  by (induction h cur key items rule: split_groups.induct) (auto simp: Let_def)

lemma collect_groups:
  "concat (split_collect_items_by_authorization h items) = items" "[] \<notin> set (split_collect_items_by_authorization h items)"
  by (auto simp: split_collect_items_by_authorization_def split_groups_concat split_groups_nonempty)

section \<open>Steps\<close>

lemma moves_refl: "calm s \<Longrightarrow> moves (account s) s"
  by (simp add: moves_def calm_def)

lemma shift_transit:
  assumes t: "calm_transit i d s"
  shows "calm_transit i d (shift_items i n s)"
    "transit_account i (shift_items i n s) k = delivered_ids k (fs_log s) @
      (if k = dr_key d then map fu_id (drop n (fq_items (fs_objects s i))) else waiting_with ((fs_drains s)(i := None)) s k)"
proof -
  let ?q = "(fs_objects s i)\<lparr>fq_items := drop n (fq_items (fs_objects s i))\<rparr>"
  have q: "fq_draining ?q" "fq_dropped ?q = 0" "fq_drop ?q = fq_drop (fs_objects s i)"
    using t in_transit_draining [of i d s] by (simp_all add: calm_transit_def calm_with_def)
  have w: "has_work ?q \<Longrightarrow> has_work (fs_objects s i)" by (auto simp: has_work_def)
  from calm_transit_object [OF t q w]
  show "calm_transit i d (shift_items i n s)"
    "transit_account i (shift_items i n s) k = delivered_ids k (fs_log s) @
      (if k = dr_key d then map fu_id (drop n (fq_items (fs_objects s i))) else waiting_with ((fs_drains s)(i := None)) s k)"
    by (simp_all add: shift_items_def)
qed

lemma calm_resume:
  assumes c: "calm s"
  shows "moves (account s) (resume_drain registry i now s)"
proof (cases "fs_drains s i")
  case None
  with moves_refl [OF c] show ?thesis by (simp add: resume_drain_def)
next
  case (Some d)
  note t = calm_start(1) [OF c Some] and fits = calm_start(2) [OF c Some]
  have same: "(\<And>g gs sm. dr_pc d \<noteq> GroupDone g gs sm) \<Longrightarrow> account s = transit_account i s"
    using calm_start(3) [OF c Some] Some by (simp add: handed_over_def split: drain_pc.splits)
  show ?thesis
  proof (cases "dr_pc d")
    case (AbortedDone ph n)
    with Some same moves_after_scan [OF t] show ?thesis by (simp add: resume_drain_def)
  next
    case DebounceReady
    have "continue_scan i d AfterDebounce (length (fq_items (fs_objects s i))) 0 now s = put_drain i d (AbortedDone AfterDebounce 0) s"
      by (simp add: continue_scan_def calm_not_aborted [OF t] scan_none)
    with Some DebounceReady same moves_put_drain [OF t, of d "AbortedDone AfterDebounce 0"] show ?thesis
      by (simp add: resume_drain_def pc_fits_def handed_over_def)
  next
    case CollectReady
    let ?gs = "split_collect_items_by_authorization (fs_runs s) (fq_items (fs_objects s i))"
    have "moves (transit_account i s) (start_groups i d ?gs None now s)"
      using collect_groups [of "fs_runs s" "fq_items (fs_objects s i)"] by (intro moves_start_groups [OF t]) simp_all
    with Some CollectReady same moves_summary_only [OF t] show ?thesis
      by (simp add: resume_drain_def Let_def calm_no_summary [OF t])
  next
    case (ItemDone use drained)
    with fits have "use \<noteq> SummaryItem" by (simp add: pc_fits_def)
    with Some ItemDone same moves_loop_head [OF t] moves_end_drain [OF t] moves_summary_only [OF t] show ?thesis
      by (cases use) (simp_all add: resume_drain_def calm_no_summary [OF t])
  next
    case (GroupDone g gs sm)
    let ?items = "fq_items (fs_objects s i)"
    have g: "g \<noteq> []" "[] \<notin> set gs" "sm = None" "prefix (g @ concat gs) ?items"
      using fits GroupDone by (simp_all add: pc_fits_def)
    note sh = shift_transit [OF t, of "length g"]
    have "prefix (concat gs) (drop (length g) ?items)" using g(4) by (auto simp: prefix_def)
    then have "moves (transit_account i (shift_items i (length g) s)) (start_groups i d gs None now (shift_items i (length g) s))"
      using g(2) by (intro moves_start_groups [OF sh(1)]) (simp_all add: shift_items_def)
    moreover have "transit_account i (shift_items i (length g) s) = account s"
    proof
      fix k
      show "transit_account i (shift_items i (length g) s) k = account s k"
    proof (cases "k = dr_key d")
      case True
      then show ?thesis using sh(2) [of k] t Some GroupDone
        by (simp add: account_def account_with_def waiting_with_def calm_transit_def handed_over_def)
    next
      case False
      then have "queue_at s k \<noteq> Some i"
        using t unfolding calm_transit_def in_transit_def sound_with_def table_ok_def by blast
      with False sh(2) [of k] show ?thesis
        by (auto simp: account_def account_with_def waiting_with_def split: option.split)
    qed
    qed
    ultimately show ?thesis using Some GroupDone g(3)
      by (simp add: resume_drain_def Let_def truthy_text_def or_empty_def)
  qed (use Some fits moves_refl [OF c] in \<open>simp_all add: resume_drain_def pc_fits_def\<close>)
qed

lemma calm_timer:
  assumes c: "calm s"
  shows "moves (account s) (debounce_timer_fires i now s)"
proof (cases "fs_drains s i")
  case None
  with moves_refl [OF c] show ?thesis by (simp add: debounce_timer_fires_def)
next
  case (Some d)
  have "moves (account s) (check_quiet i d wait now s)" if "dr_pc d = DebounceTimer due wait" for due wait
    using moves_put_drain [OF calm_start(1) [OF c Some], of d] calm_start(3) [OF c Some] Some that
    by (simp add: check_quiet_def Let_def pc_fits_def handed_over_def)
  with Some moves_refl [OF c] show ?thesis by (simp add: debounce_timer_fires_def split: drain_pc.split)
qed

lemma calm_settle:
  assumes c: "calm s"
  shows "moves (account s) (settle_callback i ok now s)"
proof (cases "fs_drains s i")
  case None
  with moves_refl [OF c] show ?thesis by (simp add: settle_callback_def)
next
  case (Some d)
  note t = calm_start(1) [OF c Some] and fits = calm_start(2) [OF c Some]
  let ?items = "fq_items (fs_objects s i)"
  let ?seen = "\<lambda>ids. observe_followup (CallbackSettled (dr_key d) (dr_callback d) ids ok) s"
  have failed: "moves (account s) (fail_drain i d now (?seen ids))" if "\<not> ok" "handed_over (fs_drains s i) = 0" for ids
  proof -
    have "transit_account i (?seen ids) = transit_account i s"
      using that calm_transit_observe(2) [OF t] by (simp add: fun_eq_iff transit_account_def account_with_def)
    with moves_fail_drain [OF calm_transit_observe(1) [OF t]] calm_start(3) [OF c Some that(2)] show ?thesis by metis
  qed
  show ?thesis
  proof (cases "dr_pc d")
    case (ItemRun use item)
    with fits obtain rest where it: "use \<noteq> SummaryItem" "?items = item # rest"
      by (cases ?items) (auto simp: pc_fits_def)
    have zero: "handed_over (fs_drains s i) = 0" using Some ItemRun by (simp add: handed_over_def)
    have "moves (account s) (put_drain i d (ItemDone use True) (shift_items i 1 (?seen [fu_id item])))" if "ok"
    proof -
      let ?s = "?seen [fu_id item]"
      note sh = shift_transit [OF calm_transit_observe(1) [OF t, of "CallbackSettled (dr_key d) (dr_callback d) [fu_id item] ok"], of 1]
      have "transit_account i (shift_items i 1 ?s) k = account s k" for k
        using sh(2) [of k] it(2) that transit_waiting [OF t, of k] calm_start(3) [OF c Some zero] by simp
      then have "transit_account i (shift_items i 1 ?s) = account s" by (simp add: fun_eq_iff)
      with moves_put_drain [OF sh(1), of d "ItemDone use True"] it(1) show ?thesis
        by (simp add: pc_fits_def handed_over_def)
    qed
    with Some ItemRun it(1) failed [OF _ zero] show ?thesis by (simp add: settle_callback_def Let_def)
  next
    case (GroupRun g gs sm)
    have g: "g \<noteq> []" "[] \<notin> set gs" "sm = None" "prefix (g @ concat gs) ?items"
      using fits GroupRun by (simp_all add: pc_fits_def)
    have zero: "handed_over (fs_drains s i) = 0" using Some GroupRun by (simp add: handed_over_def)
    have "moves (account s) (put_drain i d (GroupDone g gs None) (?seen (map fu_id g)))" (is "moves _ ?u") if "ok"
    proof -
      have "calm_with (fs_drains ?u) ?u"
        using c Some g by (auto simp: calm_def calm_with_def pc_fits_def)
      moreover have "account ?u k = account s k" for k
      proof (cases "queue_at s k = Some i")
        case True
        then have "k = dr_key d"
          using t fun_upd_same [of "loop_keys s" i "Some (dr_key d)"]
          unfolding calm_transit_def in_transit_def sound_with_def table_ok_def by blast
        moreover obtain rest where "?items = g @ rest" using g(4) by (auto simp: prefix_def)
        ultimately show ?thesis using True Some GroupRun that
          by (simp add: account_def account_with_def waiting_with_def handed_over_def)
      next
        case False
        then have "k \<noteq> dr_key d" using t by (auto simp: calm_transit_def)
        with False show ?thesis by (auto simp: account_def account_with_def waiting_with_def split: option.split)
      qed
      ultimately show ?thesis by (simp add: moves_def fun_eq_iff)
    qed
    with Some GroupRun g(3) failed [OF _ zero] show ?thesis
      by (simp add: settle_callback_def Let_def truthy_text_def or_empty_def)
  qed (use Some fits moves_refl [OF c] in \<open>simp_all add: settle_callback_def pc_fits_def\<close>)
qed

section \<open>Calls from outside\<close>

lemma waiting_updates [simp]:
  "waiting_with D (s\<lparr>fs_recent := r\<rparr>) = waiting_with D s" "waiting_with D (s\<lparr>fs_callbacks := c\<rparr>) = waiting_with D s"
  "waiting_with D (s\<lparr>fs_runs := h\<rparr>) = waiting_with D s"
  by (simp_all add: waiting_with_def fun_eq_iff split: option.split)

lemma calm_updates [simp]:
  "calm_with D (s\<lparr>fs_recent := r\<rparr>) = calm_with D s" "calm_with D (s\<lparr>fs_callbacks := c\<rparr>) = calm_with D s"
  "calm_with D (s\<lparr>fs_runs := h\<rparr>) = calm_with D s" "calm_with D (mark_followup_run_enqueued m s) = calm_with D s"
  by (simp_all add: calm_with_def)

lemma account_updates [simp]:
  "account (s\<lparr>fs_recent := r\<rparr>) = account s" "account (s\<lparr>fs_callbacks := c\<rparr>) = account s"
  "account (s\<lparr>fs_runs := h\<rparr>) = account s" "account (mark_followup_run_enqueued m s) = account s"
  by (simp_all add: account_def account_with_def fun_eq_iff)

text \<open>Writing the object of a key from outside its loop.\<close>

lemma calm_object:
  assumes c: "calm s" and i: "queue_at s k = Some i"
    and q: "fq_draining q = fq_draining (fs_objects s i)" "fq_dropped q = 0" "fq_drop q = DropNew"
    and fits: "\<And>d. fs_drains s i = Some d \<Longrightarrow> pc_fits (dr_pc d) (fq_items q)"
  shows "calm (put_object i q s)"
    "account (put_object i q s) k' =
      (if k' = k then delivered_ids k (fs_log s) @ map fu_id (drop (handed_over (fs_drains s i)) (fq_items q)) else account s k')"
proof -
  have s: "followup_sound s" using c by (simp add: calm_def)
  have at_i: "queue_at s k' = Some i \<longleftrightarrow> k' = k" for k'
    using s i unfolding followup_sound_def sound_with_def table_ok_def by blast
  show "calm (put_object i q s)"
    using c q fits put_mapped(1) [OF s i q(1)] unfolding calm_def calm_with_def by auto
  show "account (put_object i q s) k' =
      (if k' = k then delivered_ids k (fs_log s) @ map fu_id (drop (handed_over (fs_drains s i)) (fq_items q)) else account s k')"
    using at_i [of k'] i by (auto simp: account_def account_with_def waiting_with_def split: option.split)
qed

lemma account_at:
  "queue_at s k = Some i \<Longrightarrow>
   account s k = delivered_ids k (fs_log s) @ map fu_id (drop (handed_over (fs_drains s i)) (fq_items (fs_objects s i)))"
  by (simp add: account_def account_with_def waiting_with_def)

lemma pc_fits_append: "pc_fits pc items \<Longrightarrow> pc_fits pc (items @ more_items)"
  by (auto simp: pc_fits_def split: drain_pc.splits)

lemma handed_over_le:
  assumes "calm s" "fs_drains s i = D"
  shows "handed_over D \<le> length (fq_items (fs_objects s i))"
proof (cases D)
  case (Some d)
  with assms have "pc_fits (dr_pc d) (fq_items (fs_objects s i))" by (auto simp: calm_def calm_with_def)
  then show ?thesis using Some by (auto simp: handed_over_def pc_fits_def prefix_def split: drain_pc.split)
qed (simp add: handed_over_def)

lemma calm_get_queue:
  assumes c: "calm s" and g: "get_followup_queue k st s = (i, t)" and st: "qs_drop st = Some DropNew"
  shows "calm t" "queue_at t k = Some i" "account t = account s" "fs_aborted t = []"
proof -
  have s: "followup_sound s" using c by (simp add: calm_def)
  note get = get_queue_sound [OF s g]
  have "calm t \<and> account t = account s"
  proof (cases "queue_at s k")
    case (Some j)
    let ?q = "apply_queue_runtime_settings st (fs_objects s j)"
    have t: "t = put_object j ?q s" using Some g by (auto simp: get_followup_queue_def queue_at_def)
    have q: "fq_draining ?q = fq_draining (fs_objects s j)" "fq_dropped ?q = 0" "fq_drop ?q = DropNew"
      "fq_items ?q = fq_items (fs_objects s j)"
      using c st by (simp_all add: apply_queue_runtime_settings_def calm_def calm_with_def)
    have fits: "fs_drains s j = Some d \<Longrightarrow> pc_fits (dr_pc d) (fq_items ?q)" for d
      using c q(4) by (simp add: calm_def calm_with_def)
    note o' = calm_object [OF c Some q(1-3) fits]
    have "account t k' = account s k'" for k' unfolding t using o'(2) [of k'] account_at [OF Some] q(4) by simp
    then show ?thesis using o'(1) unfolding t by (simp add: fun_eq_iff)
  next
    case None
    let ?q = "apply_queue_runtime_settings st (new_followup_queue st)"
    have t: "t = put_object (fs_next s) ?q (s\<lparr>fs_next := fs_next s + 1, fs_map := map_put k (fs_next s) (fs_map s)\<rparr>)"
      using None g by (auto simp: get_followup_queue_def queue_at_def Let_def)
    have q: "fq_items ?q = []" "fq_dropped ?q = 0" "fq_drop ?q = DropNew"
      using st by (simp_all add: apply_queue_runtime_settings_def new_followup_queue_def)
    have v: "queue_at t = (queue_at s)(k := Some (fs_next s))" "fs_objects t = (fs_objects s)(fs_next s := ?q)"
      "fs_drains t = fs_drains s" "fs_aborted t = fs_aborted s" "fs_log t = fs_log s"
      by (simp_all add: t queue_at_def map_of_map_put fun_eq_iff)
    have tab: "table_ok (loop_keys s) (works s) (queue_at s) (fs_next s)" using s by (simp add: followup_sound_def sound_with_def)
    have free: "fs_drains s (fs_next s) = None" "queue_at s k' \<noteq> Some (fs_next s)" for k'
      using tab table_new(3) [OF tab None] unfolding table_ok_def by (auto simp: loop_keys_def)
    have "calm_with (fs_drains t) t"
      using c q free None unfolding calm_def calm_with_def v by auto
    moreover have "account t k' = account s k'" for k'
      using None q free free(2) [of k'] unfolding account_def account_with_def waiting_with_def v by (auto split: option.split)
    ultimately show ?thesis using get(1) by (simp add: calm_def fun_eq_iff)
  qed
  then show "calm t" "queue_at t k = Some i" "account t = account s" "fs_aborted t = []"
    using get(2) by (simp_all add: calm_def calm_with_def)
qed

lemma calm_kick:
  assumes "calm t"
  shows "moves (account t) (if b then kick_followup_drain_if_idle k t else t)"
  using calm_schedule [OF assms] moves_refl [OF assms] by (simp add: kick_followup_drain_if_idle_def split: option.split)

lemma calm_add:
  assumes c: "calm s" and i: "queue_at s k = Some i"
  shows "moves (\<lambda>k'. account s k' @ (if k' = k then [fu_id r] else [])) (add_followup_run i k r recent callback restart now s)"
proof -
  let ?q = "fs_objects s i"
  let ?q' = "?q\<lparr>fq_items := fq_items ?q @ [r]\<rparr>"
  let ?p = "put_object i ?q' s"
  have q: "fq_draining ?q' = fq_draining (fs_objects s i)" "fq_dropped ?q' = 0" "fq_drop ?q' = DropNew"
    using c i by (simp_all add: calm_def calm_with_def)
  have fits: "fs_drains s i = Some d \<Longrightarrow> pc_fits (dr_pc d) (fq_items ?q')" for d
    using c pc_fits_append [of "dr_pc d" "fq_items ?q" "[r]"] by (simp add: calm_def calm_with_def)
  note o' = calm_object [OF c i q fits]
  have acc: "account ?p = (\<lambda>k'. account s k' @ (if k' = k then [fu_id r] else []))"
    using o'(2) account_at [OF i] handed_over_le [OF c, of i] by (simp add: fun_eq_iff)
  let ?s1 = "mark_followup_run_enqueued r ?p"
  let ?s2 = "?s1\<lparr>fs_recent := snd (check_key recent now (fs_recent ?s1))\<rparr>"
  let ?s3 = "case callback of None \<Rightarrow> ?s2 | Some c \<Rightarrow> remember_followup_drain_callback k c ?s2"
  have s3: "calm ?s3" "account ?s3 = account ?p"
    using o'(1) by (simp_all add: calm_def remember_followup_drain_callback_def split: option.split)
  have "moves (account ?p) (if restart \<and> \<not> fq_draining (fs_objects ?s3 i) then kick_followup_drain_if_idle k ?s3 else ?s3)"
    using calm_kick [OF s3(1)] unfolding s3(2) .
  then show ?thesis unfolding add_followup_run_def Let_def acc .
qed

lemma drop_policy_new:
  "fq_drop q = DropNew \<Longrightarrow> \<exists>room. apply_queue_drop_policy q = (room, [], q)"
  by (auto simp: apply_queue_drop_policy_def Let_def)

lemma calm_offer:
  assumes c: "calm s" and i: "queue_at s k = Some i"
  shows "moves (\<lambda>k'. account s k' @ (if k' = k \<and> fst (offer_followup_run i k r recent callback restart now s) then [fu_id r] else []))
     (snd (offer_followup_run i k r recent callback restart now s))"
proof -
  let ?q = "(fs_objects s i)\<lparr>fq_last_enqueued_at := now, fq_last_run := Some (fu_run r)\<rparr>"
  have q: "fq_draining ?q = fq_draining (fs_objects s i)" "fq_dropped ?q = 0" "fq_drop ?q = DropNew"
    "fq_items ?q = fq_items (fs_objects s i)"
    using c i by (simp_all add: calm_def calm_with_def)
  have fits: "fs_drains s i = Some d \<Longrightarrow> pc_fits (dr_pc d) (fq_items ?q)" for d
    using c q(4) by (simp add: calm_def calm_with_def)
  note o' = calm_object [OF c i q(1-3) fits]
  let ?p = "put_object i ?q s"
  have acc: "account ?p = account s"
    using o'(2) account_at [OF i] q(4) by (simp add: fun_eq_iff)
  have p: "calm ?p" "queue_at ?p k = Some i" using o'(1) i by simp_all
  obtain room where room: "apply_queue_drop_policy ?q = (room, [], ?q)" using drop_policy_new [OF q(3)] by blast
  have settled: "settle_dropped i [] ?p = ?p" using q(3) by (simp add: settle_dropped_def complete_all_def Let_def)
  have "offer_followup_run i k r recent callback restart now s =
      (if room then (True, add_followup_run i k r recent callback restart now ?p) else (False, ?p))"
    unfolding offer_followup_run_def room Let_def prod.case settled ..
  with calm_add [OF p] moves_refl [OF p(1)] acc show ?thesis by (cases room) simp_all
qed

text \<open>What a call accepts, in order.\<close>

definition accepts :: "followup_call \<Rightarrow> followup_state \<Rightarrow> jstring \<Rightarrow> nat list" where
  "accepts c s key =
     (case c of Enqueue_followup k r st mode callback restart now \<Rightarrow>
        if k = key \<and> fst (enqueue_followup_run k r st mode callback restart now s) then [fu_id r] else []
      | _ \<Rightarrow> [])"

lemma calm_enqueue:
  assumes c: "calm s" and st: "qs_drop st = Some DropNew"
  shows "moves (\<lambda>k'. account s k' @ accepts (Enqueue_followup k r st mode callback restart now) s k')
     (snd (enqueue_followup_run k r st mode callback restart now s))"
proof -
  obtain i s1 where g: "get_followup_queue k st s = (i, s1)" by (metis surj_pair)
  note get = calm_get_queue [OF c g st]
  let ?recent = "if mode = NoDedupe then None else build_recent_message_id_key r k"
  obtain seen cache where k: "peek_key ?recent now (fs_recent s1) = (seen, cache)" by (metis surj_pair)
  let ?s2 = "s1\<lparr>fs_recent := cache\<rparr>"
  have s2: "calm ?s2" "queue_at ?s2 k = Some i" "account ?s2 = account s" using get by (simp_all add: calm_def)
  have fresh: "\<not> is_followup_run_aborted (fs_aborted s) r"
    using c by (simp add: calm_def calm_with_def is_followup_run_aborted_def list_ex_iff)
  have "enqueue_followup_run k r st mode callback restart now s =
     (if seen \<or> (mode \<noteq> NoDedupe \<and> is_run_already_queued r (fq_items (fs_objects ?s2 i)) (mode = ByPrompt)) then (False, ?s2)
      else offer_followup_run i k r ?recent callback restart now ?s2)"
    using fresh unfolding enqueue_followup_run_def g Let_def prod.case k by (simp only: if_False)
  moreover have "moves (\<lambda>k'. account s k' @ []) ?s2" using moves_refl [OF s2(1)] s2(3) by simp
  moreover note calm_offer [OF s2(1,2), of r ?recent callback restart now]
  ultimately show ?thesis
    unfolding accepts_def s2(3) by (simp only: followup_call.case if_cancel fst_conv snd_conv simp_thms if_False eq_commute [of _ k] split: if_split)
qed

text \<open>Calls that lose nothing: no clearing, no aborting, and a policy that refuses new messages.\<close>

fun lossless :: "followup_call \<Rightarrow> bool" where
  "lossless (Enqueue_followup k r st mode callback restart now) \<longleftrightarrow> qs_drop st = Some DropNew"
| "lossless (Clear_queue k) \<longleftrightarrow> False"
| "lossless (Signal_aborts n) \<longleftrightarrow> False"
| "lossless _ \<longleftrightarrow> True"

lemma calm_exec:
  assumes c: "calm s" and l: "lossless call"
  shows "calm (followup_exec registry call s)"
    "account (followup_exec registry call s) key = account s key @ accepts call s key"
proof -
  have "moves (\<lambda>k'. account s k' @ accepts call s k') (followup_exec registry call s)"
  proof (cases call)
    case (Enqueue_followup k r st mode callback restart now)
    with l calm_enqueue [OF c] show ?thesis by simp
  next
    case (Refresh_session k p)
    have "moves (account s) (s\<lparr>fs_runs := h\<rparr>)" for h
      using c by (simp add: moves_def calm_def)
    then have "moves (account s) (refresh_queued_followup_session k p s)"
      unfolding refresh_queued_followup_session_def Let_def using moves_refl [OF c] by (simp split: option.split)
    with Refresh_session show ?thesis by (simp add: accepts_def)
  next
    case (Clear_callback k)
    with c show ?thesis by (simp add: moves_def calm_def accepts_def clear_followup_drain_callback_def)
  next
    case Reset_dedupe
    with c show ?thesis by (simp add: moves_def calm_def accepts_def reset_recent_queued_message_id_dedupe_def)
  qed (use c l in \<open>simp_all add: accepts_def calm_schedule calm_resume calm_timer calm_settle\<close>)
  moreover have "followup_sound (followup_exec registry call s)"
    using c by (simp add: calm_def followup_exec_sound)
  ultimately show "calm (followup_exec registry call s)"
    "account (followup_exec registry call s) key = account s key @ accepts call s key"
    by (simp_all add: moves_def calm_def)
qed

lemma initial_calm: "calm (initial_followup_state runs)" "account (initial_followup_state runs) key = []"
  using initial_sound
  by (simp_all add: calm_def calm_with_def account_def account_with_def waiting_with_def initial_followup_state_def
      queue_at_def new_followup_queue_def)

end
