(* ===== verification/FollowupProgress.thy ===== *)
theory FollowupProgress
  imports FollowupDelivery
begin

text \<open>
  A loop comes to its end. Each event that a loop waits for (an \<open>await\<close> goes on, a timer fires, a
  callback succeeds) lowers a rank, so a bounded number of them, at whatever times, delivers every
  message that waits and ends the loop.
\<close>

section \<open>Machines with a rank\<close>

text \<open>\<open>ranked\<close> is a machine that takes an input per step and lowers its rank until it has finished.\<close>

locale ranked =
  fixes advance :: "'t \<Rightarrow> 's \<Rightarrow> 's"
    and ok :: "'s \<Rightarrow> bool"
    and finished :: "'s \<Rightarrow> bool"
    and rank :: "'s \<Rightarrow> nat"
  assumes advance_ok: "ok s \<Longrightarrow> ok (advance t s)"
    and finished_stable: "ok s \<Longrightarrow> finished s \<Longrightarrow> finished (advance t s)"
    and advance_rank: "ok s \<Longrightarrow> \<not> finished s \<Longrightarrow> finished (advance t s) \<or> rank (advance t s) < rank s"
begin

lemma stays_finished: "ok s \<Longrightarrow> finished s \<Longrightarrow> ok (fold advance ts s) \<and> finished (fold advance ts s)"
  by (induction ts arbitrary: s) (simp_all add: advance_ok finished_stable)

lemma finishes: "ok s \<Longrightarrow> rank s < length ts \<Longrightarrow> ok (fold advance ts s) \<and> finished (fold advance ts s)"
proof (induction ts arbitrary: s)
  case (Cons t ts)
  show ?case
  proof (cases "finished s \<or> finished (advance t s)")
    case True
    then have "finished (advance t s)" using Cons.prems(1) finished_stable by blast
    with Cons.prems(1) stays_finished [of "advance t s" ts] show ?thesis by (simp add: advance_ok)
  next
    case False
    then have "rank (advance t s) < rank s" using advance_rank [OF Cons.prems(1), of t] by blast
    with Cons.prems(2) have "rank (advance t s) < length ts" by simp
    with Cons.IH [OF advance_ok [OF Cons.prems(1)]] show ?thesis by simp
  qed
qed simp

end

section \<open>The rank of a loop\<close>

definition pc_rank :: "drain_pc \<Rightarrow> followup_queue \<Rightarrow> nat" where
  "pc_rank pc q = 9 * length (fq_items q) +
     (case pc of
        ItemDone use drained \<Rightarrow> 8
      | AbortedDone BeforeDebounce n \<Rightarrow> 7
      | DebounceTimer due wait \<Rightarrow> if fq_last_enqueued_at q + wait \<le> due then 5 else 6
      | DebounceReady \<Rightarrow> 4
      | AbortedDone AfterDebounce n \<Rightarrow> 3
      | CollectReady \<Rightarrow> 2
      | ItemRun use item \<Rightarrow> 2
      | GroupRun g gs sm \<Rightarrow> 1
      | _ \<Rightarrow> 0)"

lemma pc_rank_bound: "pc_rank pc q < 9 * (length (fq_items q) + 1)"
  by (auto simp: pc_rank_def split: drain_pc.split debounce_phase.split)

definition drain_event :: "nat \<Rightarrow> drain \<Rightarrow> int \<Rightarrow> followup_call" where
  "drain_event i d t =
     (case dr_pc d of
        AbortedRun ph k n item \<Rightarrow> Callback_settles i True t
      | ItemRun use item \<Rightarrow> Callback_settles i True t
      | SummaryRun \<Rightarrow> Callback_settles i True t
      | GroupRun g gs sm \<Rightarrow> Callback_settles i True t
      | DebounceTimer due wait \<Rightarrow> Debounce_fires i (max due t)
      | _ \<Rightarrow> Drain_resumes i t)"

text \<open>The next event of the loop of an object, at a time: callbacks succeed, timers are not early.\<close>

definition advance_drain :: "channel_registry \<Rightarrow> nat \<Rightarrow> int \<Rightarrow> followup_state \<Rightarrow> followup_state" where
  "advance_drain registry i t s =
     (case fs_drains s i of None \<Rightarrow> s | Some d \<Rightarrow> followup_exec registry (drain_event i d t) s)"

definition lower :: "nat \<Rightarrow> jstring \<Rightarrow> nat \<Rightarrow> followup_state \<Rightarrow> bool" where
  "lower i key n s \<longleftrightarrow> fs_drains s i = None \<and> queue_at s key = None \<or>
     (\<exists>d. fs_drains s i = Some d \<and> dr_key d = key \<and> pc_rank (dr_pc d) (fs_objects s i) < n)"

lemma lower_mono: "lower i key m s \<Longrightarrow> m \<le> n \<Longrightarrow> lower i key n s"
  by (auto simp: lower_def)

lemma lower_put_drain:
  "dr_key d = key \<Longrightarrow> pc_rank pc (fs_objects s i) < n \<Longrightarrow> lower i key n (put_drain i d pc s)"
  by (simp add: lower_def)

lemma lower_end_empty:
  assumes "calm_transit i d s"
  shows "lower i (dr_key d) n (end_empty i (dr_key d) s)"
  using assms by (auto simp: lower_def end_empty_def Let_def queue_at_def map_of_map_del calm_transit_def)

lemma lower_loop_head:
  assumes t: "calm_transit i d s"
  shows "lower i (dr_key d) (9 * length (fq_items (fs_objects s i)) + 8) (loop_head i d s)"
proof (cases "fq_items (fs_objects s i) = []")
  case True
  with lower_end_empty [OF t] calm_items [OF t] show ?thesis by (simp add: loop_head_def)
next
  case False
  with calm_items [OF t] show ?thesis
    by (simp add: loop_head_def Let_def calm_not_aborted [OF t] scan_none lower_put_drain pc_rank_def)
qed

lemma lower_end_drain:
  assumes t: "calm_transit i d s"
  shows "lower i (dr_key d) (9 * length (fq_items (fs_objects s i)) + 8) (end_drain i d s)"
proof (cases "fq_items (fs_objects s i) = []")
  case True
  with lower_end_empty [OF t] calm_items [OF t] show ?thesis by (simp add: end_drain_def)
next
  case False
  let ?s = "put_down i s" and ?k = "dr_key d"
  have i: "queue_at ?s ?k = Some i" "\<not> draining_at ?s i"
    using t by (simp_all add: put_down_view calm_transit_def)
  let ?e = "case map_of (fs_callbacks ?s) ?k of None \<Rightarrow> dr_callback d | Some c' \<Rightarrow> c'"
  let ?d = "\<lparr>dr_key = ?k, dr_callback = ?e, dr_force = False, dr_pc = CollectReady\<rparr>"
  let ?t = "taken_up i (map_put ?k ?e (fs_callbacks ?s)) ?s"
  have k: "queue_at ?s (dr_key ?d) = Some i" using i(1) by simp
  have items: "fq_items (fs_objects ?t i) = fq_items (fs_objects s i)" by (simp add: taken_up_def put_down_def)
  have "end_drain i d s = loop_head i ?d ?t"
    using False calm_items [OF t] schedule_taken_up [OF i, of "dr_callback d"] by (simp add: end_drain_put_down Let_def)
  with lower_loop_head [OF calm_taken_up(1) [OF calm_put_down [OF t] k i(2)], of "map_put ?k ?e (fs_callbacks ?s)"] items
  show ?thesis by simp
qed

lemma lower_check_debounce:
  assumes t: "calm_transit i d s"
  shows "lower i (dr_key d) (9 * length (fq_items (fs_objects s i)) + 6) (check_debounce i d now s)"
  by (auto simp: check_debounce_def check_quiet_def Let_def pc_rank_def intro!: lower_put_drain)

lemma lower_dispatch:
  assumes t: "calm_transit i d s" and n: "fq_items (fs_objects s i) \<noteq> []"
  shows "lower i (dr_key d) (9 * length (fq_items (fs_objects s i)) + 3) (dispatch registry i d now s)"
proof -
  have "lower i (dr_key d) (9 * length (fq_items (fs_objects s i)) + 3) (drain_next_queue_item i d' use req s)"
    if "dr_key d' = dr_key d" for d' use req
    using n that by (auto simp: drain_next_queue_item_def pc_rank_def intro!: lower_put_drain split: list.split)
  then show ?thesis
    by (auto simp: dispatch_def Let_def calm_no_summary [OF t] pc_rank_def intro!: lower_put_drain)
qed

lemma lower_after_scan:
  assumes t: "calm_transit i d s"
  shows "lower i (dr_key d) (9 * length (fq_items (fs_objects s i)) + (case ph of BeforeDebounce \<Rightarrow> 7 | AfterDebounce \<Rightarrow> 3))
    (after_scan registry i d ph n now s)"
proof (cases "fq_items (fs_objects s i) = []")
  case False
  with calm_items [OF t] have "after_scan registry i d ph n now s =
      (case ph of BeforeDebounce \<Rightarrow> check_debounce i d now s | AfterDebounce \<Rightarrow> dispatch registry i d now s)"
    by (simp add: after_scan_def Let_def)
  with False lower_dispatch [OF t] lower_mono [OF lower_check_debounce [OF t]] show ?thesis
    by (cases ph) simp_all
next
  case True
  let ?s = "complete_all (fq_sources (fs_objects s i)) s"
  let ?q = "(fs_objects s i)\<lparr>fq_sources := [], fq_dropped := 0, fq_lines := []\<rparr>"
  note c = calm_transit_complete [OF t, of "fq_sources (fs_objects s i)"]
  have q: "fq_draining ?q" "fq_dropped ?q = 0" "fq_drop ?q = fq_drop (fs_objects ?s i)" "fq_items ?q = fq_items (fs_objects ?s i)"
    using t in_transit_draining [of i d s] by (simp_all add: calm_transit_def)
  note p = calm_transit_same_items [OF c(1) q]
  have eq: "clear_followup_queue_summary_state i s = put_object i ?q ?s"
    by (simp add: clear_followup_queue_summary_state_def Let_def)
  have "after_scan registry i d ph n now s = end_empty i (dr_key d) (if 0 < n then put_object i ?q ?s else s)"
    using True calm_items [OF t] calm_items [OF p(1)] unfolding after_scan_def Let_def eq by (simp add: end_drain_def)
  with lower_end_empty [OF t] lower_end_empty [OF p(1)] show ?thesis by simp
qed

lemma lower_start_groups:
  assumes "calm_transit i d s"
  shows "lower i (dr_key d) (9 * length (fq_items (fs_objects s i)) + 8) (start_groups i d gs sm now s)"
  using lower_loop_head [OF assms]
  by (auto simp: start_groups_def pc_rank_def intro!: lower_put_drain split: list.split)

section \<open>Every event lowers the rank\<close>

lemma resume_lowers:
  assumes c: "calm s" and d: "fs_drains s i = Some d"
    and pc: "\<And>ph k n item. dr_pc d \<noteq> AbortedRun ph k n item" "\<And>use item. dr_pc d \<noteq> ItemRun use item" "dr_pc d \<noteq> SummaryRun"
      "\<And>g gs sm. dr_pc d \<noteq> GroupRun g gs sm" "\<And>due wait. dr_pc d \<noteq> DebounceTimer due wait"
  shows "lower i (dr_key d) (pc_rank (dr_pc d) (fs_objects s i)) (resume_drain registry i now s)"
proof -
  note t = calm_start(1) [OF c d] and fits = calm_start(2) [OF c d]
  let ?items = "fq_items (fs_objects s i)"
  show ?thesis
  proof (cases "dr_pc d")
    case (AbortedDone ph n)
    with d lower_after_scan [OF t, of ph registry n now] show ?thesis
      by (cases ph) (simp_all add: resume_drain_def pc_rank_def)
  next
    case DebounceReady
    have "continue_scan i d AfterDebounce (length ?items) 0 now s = put_drain i d (AbortedDone AfterDebounce 0) s"
      by (simp add: continue_scan_def calm_not_aborted [OF t] scan_none)
    with d DebounceReady show ?thesis by (simp add: resume_drain_def lower_put_drain pc_rank_def)
  next
    case CollectReady
    let ?gs = "split_collect_items_by_authorization (fs_runs s) ?items"
    show ?thesis
    proof (cases ?gs)
      case Nil
      then have "?items = []" using collect_groups(1) [of "fs_runs s" ?items] by simp
      with Nil d CollectReady lower_end_empty [OF t] calm_items [OF t] show ?thesis
        by (simp add: resume_drain_def Let_def calm_no_summary [OF t] start_summary_only_def end_drain_def)
    next
      case (Cons g gs)
      then have "resume_drain registry i now s = put_drain i d (GroupRun g gs None)
          (observe_followup (CallbackStarted (dr_key d) (dr_callback d) (group_request (fs_runs s) g None now)) s)"
        using d CollectReady by (simp add: resume_drain_def Let_def start_groups_def calm_no_summary [OF t])
      then show ?thesis using CollectReady by (simp add: lower_put_drain pc_rank_def)
    qed
  next
    case (ItemDone use drained)
    with fits have "use \<noteq> SummaryItem" by (simp add: pc_fits_def)
    with d ItemDone lower_loop_head [OF t] lower_end_drain [OF t] show ?thesis
      by (cases use) (simp_all add: resume_drain_def calm_no_summary [OF t] start_summary_only_def pc_rank_def)
  next
    case (GroupDone g gs sm)
    have g: "g \<noteq> []" "sm = None" "prefix (g @ concat gs) ?items" using fits GroupDone by (simp_all add: pc_fits_def)
    let ?s = "shift_items i (length g) s"
    have "length (fq_items (fs_objects ?s i)) < length ?items"
      using g(1,3) by (auto simp: shift_items_def prefix_def)
    then have "9 * length (fq_items (fs_objects ?s i)) + 8 \<le> 9 * length ?items" by simp
    with lower_mono [OF lower_start_groups [OF shift_transit(1) [OF t]]]
    have "lower i (dr_key d) (9 * length ?items) (start_groups i d gs None now ?s)" by blast
    with d GroupDone g(2) show ?thesis
      by (simp add: resume_drain_def Let_def truthy_text_def or_empty_def pc_rank_def)
  qed (use fits pc in \<open>simp_all add: pc_fits_def\<close>)
qed

lemma timer_lowers:
  assumes d: "fs_drains s i = Some d" and pc: "dr_pc d = DebounceTimer due wait" and t: "due \<le> t"
  shows "lower i (dr_key d) (pc_rank (dr_pc d) (fs_objects s i)) (debounce_timer_fires i t s)"
  using assms by (auto simp: debounce_timer_fires_def check_quiet_def Let_def pc_rank_def intro!: lower_put_drain)

lemma settle_lowers:
  assumes c: "calm s" and d: "fs_drains s i = Some d"
    and pc: "(\<exists>use item. dr_pc d = ItemRun use item) \<or> (\<exists>g gs sm. dr_pc d = GroupRun g gs sm)"
  shows "lower i (dr_key d) (pc_rank (dr_pc d) (fs_objects s i)) (settle_callback i True now s)"
proof -
  note fits = calm_start(2) [OF c d]
  from pc show ?thesis
  proof (elim disjE exE)
    fix use item
    assume run: "dr_pc d = ItemRun use item"
    with fits have "use \<noteq> SummaryItem" "fq_items (fs_objects s i) \<noteq> []" by (simp_all add: pc_fits_def)
    then show ?thesis using run d
      by (cases "fq_items (fs_objects s i)")
        (auto simp: settle_callback_def Let_def pc_rank_def shift_items_def intro!: lower_put_drain)
  next
    fix g gs sm
    assume run: "dr_pc d = GroupRun g gs sm"
    with fits have "sm = None" by (simp add: pc_fits_def)
    then show ?thesis using run d
      by (auto simp: settle_callback_def Let_def truthy_text_def or_empty_def pc_rank_def intro!: lower_put_drain)
  qed
qed

lemma advance_lowers:
  assumes c: "calm s" and d: "fs_drains s i = Some d"
  shows "lower i (dr_key d) (pc_rank (dr_pc d) (fs_objects s i)) (advance_drain registry i t s)"
proof (cases "dr_pc d")
  case (AbortedRun ph k n item)
  with calm_start(2) [OF c d] show ?thesis by (simp add: pc_fits_def)
next
  case SummaryRun
  with calm_start(2) [OF c d] show ?thesis by (simp add: pc_fits_def)
next
  case (ItemRun use item)
  with settle_lowers [OF c d, of t] d show ?thesis by (simp add: advance_drain_def drain_event_def)
next
  case (GroupRun g gs sm)
  with settle_lowers [OF c d, of t] d show ?thesis by (simp add: advance_drain_def drain_event_def)
next
  case (DebounceTimer due wait)
  with timer_lowers [OF d DebounceTimer, of "max due t"] d show ?thesis by (simp add: advance_drain_def drain_event_def)
qed (use resume_lowers [OF c d, of registry t] d in \<open>simp_all add: advance_drain_def drain_event_def\<close>)

lemma advance_lossless: "lossless (drain_event i d t)" "accepts (drain_event i d t) s k = []"
  by (simp_all add: drain_event_def accepts_def split: drain_pc.split)

definition drain_ok :: "jstring \<Rightarrow> nat \<Rightarrow> (jstring \<Rightarrow> nat list) \<Rightarrow> followup_state \<Rightarrow> bool" where
  "drain_ok key i A s \<longleftrightarrow> calm s \<and> account s = A \<and>
     (case fs_drains s i of None \<Rightarrow> queue_at s key = None | Some d \<Rightarrow> dr_key d = key)"

definition drain_rank :: "nat \<Rightarrow> followup_state \<Rightarrow> nat" where
  "drain_rank i s = (case fs_drains s i of None \<Rightarrow> 0 | Some d \<Rightarrow> pc_rank (dr_pc d) (fs_objects s i))"

lemma advance_drain_ok:
  assumes "drain_ok key i A s"
  shows "drain_ok key i A (advance_drain registry i t s)"
    "fs_drains s i \<noteq> None \<Longrightarrow>
      fs_drains (advance_drain registry i t s) i = None \<or> drain_rank i (advance_drain registry i t s) < drain_rank i s"
proof -
  have "drain_ok key i A (advance_drain registry i t s) \<and> (fs_drains s i \<noteq> None \<longrightarrow>
      fs_drains (advance_drain registry i t s) i = None \<or> drain_rank i (advance_drain registry i t s) < drain_rank i s)"
  proof (cases "fs_drains s i")
    case None
    with assms show ?thesis by (simp add: advance_drain_def)
  next
    case (Some d)
    have c: "calm s" "dr_key d = key" "account s = A" using assms Some by (simp_all add: drain_ok_def)
    let ?t = "advance_drain registry i t s"
    have "calm ?t" "account ?t = A"
      using calm_exec [OF c(1) advance_lossless(1), of registry i d t] advance_lossless(2) [of i d t s] c(3) Some
      by (simp_all add: advance_drain_def fun_eq_iff)
    with advance_lowers [OF c(1) Some, of registry t] c(2) Some show ?thesis
      by (auto simp: drain_ok_def drain_rank_def lower_def)
  qed
  then show "drain_ok key i A (advance_drain registry i t s)"
    "fs_drains s i \<noteq> None \<Longrightarrow>
      fs_drains (advance_drain registry i t s) i = None \<or> drain_rank i (advance_drain registry i t s) < drain_rank i s"
    by auto
qed

interpretation draining: ranked "advance_drain registry i" "drain_ok key i A" "\<lambda>s. fs_drains s i = None" "drain_rank i"
  for registry i key A
  using advance_drain_ok by unfold_locales (auto simp: advance_drain_def)

text \<open>A loop that gets that many events has delivered everything that its key had accepted.\<close>

lemma drain_delivers:
  fixes registry :: channel_registry
  assumes c: "calm s" and d: "fs_drains s i = Some d"
    and n: "9 * (length (fq_items (fs_objects s i)) + 1) \<le> length ts"
  defines "t \<equiv> fold (advance_drain registry i) ts s"
  shows "fs_drains t i = None" "queue_at t (dr_key d) = None" "delivered_ids (dr_key d) (fs_log t) = account s (dr_key d)"
proof -
  have "drain_ok (dr_key d) i (account s) s" using c d by (simp add: drain_ok_def)
  moreover have "drain_rank i s < length ts"
    using d n pc_rank_bound [of "dr_pc d" "fs_objects s i"] by (simp add: drain_rank_def)
  ultimately have "drain_ok (dr_key d) i (account s) t \<and> fs_drains t i = None"
    unfolding t_def by (rule draining.finishes)
  then have f: "fs_drains t i = None" "queue_at t (dr_key d) = None" "account t = account s" by (auto simp: drain_ok_def split: option.splits)
  have "account t (dr_key d) = delivered_ids (dr_key d) (fs_log t)"
    using f(2) by (simp only: account_def account_with_def waiting_with_def option.case append_Nil2)
  with f show "fs_drains t i = None" "queue_at t (dr_key d) = None"
    "delivered_ids (dr_key d) (fs_log t) = account s (dr_key d)" by simp_all
qed

end
