(* ===== verification/FollowupAuthorization.thy ===== *)
theory FollowupAuthorization
  imports FollowupInvariants
begin

text \<open>
  Messages that are collected into one run have one authorization: the key that splits them
  determines the fields it is made of, the groups are split where it changes, and rewriting a
  queued session touches none of these fields.
\<close>

section \<open>The authorization key\<close>

lemma bool_string_cancel: "bool_string a @ x = bool_string b @ y \<Longrightarrow> a = b \<and> x = y"
  by (cases a; cases b) (simp_all add: bool_string_def js_def)

text \<open>The text of an array of strings and booleans determines its members.\<close>

definition same_kind :: "jsval \<Rightarrow> jsval \<Rightarrow> bool" where
  "same_kind v w \<longleftrightarrow> (\<exists>s t. v = Str s \<and> w = Str t) \<or> (\<exists>a b. v = Bool a \<and> w = Bool b)"

definition member_text :: "jsval \<Rightarrow> jstring" where
  "member_text v = (case stringify v of None \<Rightarrow> js ''null'' | Some t \<Rightarrow> t)"

lemma member_cancel:
  assumes "same_kind v w" "member_text v @ x = member_text w @ y"
  shows "v = w \<and> x = y"
  using assms(1) unfolding same_kind_def
proof (elim disjE exE conjE)
  fix s t
  assume v: "v = Str s" "w = Str t"
  with assms(2) have "quote s @ x = quote t @ y" by (simp add: member_text_def)
  from quote_cancel [OF this] v show ?thesis by simp
next
  fix a b
  assume v: "v = Bool a" "w = Bool b"
  with assms(2) have "bool_string a @ x = bool_string b @ y" by (simp add: member_text_def)
  from bool_string_cancel [OF this] v show ?thesis by simp
qed

lemma members_inject:
  assumes "list_all2 same_kind vs ws" "join (js '','') (map member_text vs) @ js '']'' = join (js '','') (map member_text ws) @ js '']''"
  shows "vs = ws"
  using assms
proof (induction rule: list_all2_induct)
  case (Cons v vs w ws)
  show ?case
  proof (cases vs)
    case Nil
    with Cons.hyps(2) have "ws = []" by simp
    with Nil Cons.prems member_cancel [OF Cons.hyps(1), of "js '']''" "js '']''"] show ?thesis by simp
  next
    case (Cons v' vs')
    then obtain w' ws' where ws: "ws = w' # ws'" using Cons.hyps(2) by (cases ws) auto
    let ?x = "js '','' @ join (js '','') (map member_text vs) @ js '']''"
    let ?y = "js '','' @ join (js '','') (map member_text ws) @ js '']''"
    have "member_text v @ ?x = member_text w @ ?y" using \<open>vs = v' # vs'\<close> ws Cons.prems by simp
    from member_cancel [OF Cons.hyps(1) this] Cons.IH show ?thesis by simp
  qed
qed simp

lemma authorization_key_inject:
  "resolve_followup_authorization_key r = resolve_followup_authorization_key r' \<longleftrightarrow> authorization_fields r = authorization_fields r'"
proof
  assume e: "resolve_followup_authorization_key r = resolve_followup_authorization_key r'"
  have kinds: "list_all2 same_kind (authorization_fields r) (authorization_fields r')"
    by (simp add: authorization_fields_def Let_def same_kind_def)
  have "stringify_str (Arr vs) = js ''['' @ join (js '','') (map member_text vs) @ js '']''" for vs
    by (simp add: stringify_str_def member_text_def [abs_def])
  with e have "join (js '','') (map member_text (authorization_fields r)) @ js '']'' =
      join (js '','') (map member_text (authorization_fields r')) @ js '']''"
    by (simp add: resolve_followup_authorization_key_def)
  with kinds show "authorization_fields r = authorization_fields r'" by (rule members_inject)
qed (simp add: resolve_followup_authorization_key_def)

section \<open>Groups\<close>

definition one_authorization :: "run_heap \<Rightarrow> followup_run list \<Rightarrow> bool" where
  "one_authorization h g \<longleftrightarrow>
     (\<forall>m\<in>set g. \<forall>m'\<in>set g. authorization_fields (h (fu_run m)) = authorization_fields (h (fu_run m')))"

lemma split_groups_authorization:
  assumes "\<forall>m\<in>set cur. resolve_followup_authorization_key (h (fu_run m)) = key" "g \<in> set (split_groups h cur key items)"
  shows "one_authorization h g"
  using assms
proof (induction h cur key items rule: split_groups.induct)
  case (1 h cur key)
  then show ?case by (auto simp: one_authorization_def authorization_key_inject [symmetric] split: if_splits)
next
  case (2 h cur key i rest)
  let ?k = "resolve_followup_authorization_key (h (fu_run i))"
  show ?case
  proof (cases "cur = [] \<or> ?k = key")
    case True
    then show ?thesis using "2.IH"(1) [OF refl True] "2.prems" by (auto simp: Let_def)
  next
    case False
    then have "g = cur \<or> g \<in> set (split_groups h [i] ?k rest)" using "2.prems"(2) by (simp add: Let_def)
    then show ?thesis
      using "2.IH"(2) [OF refl False] "2.prems"(1) by (auto simp: one_authorization_def authorization_key_inject [symmetric])
  qed
qed

lemma collect_one_authorization:
  assumes "g \<in> set (split_collect_items_by_authorization h items)"
  shows "one_authorization h g"
proof (cases "length items \<le> 1")
  case True
  with assms have "length g \<le> 1" by (auto simp: split_collect_items_by_authorization_def split: if_splits)
  then show ?thesis by (cases g) (auto simp: one_authorization_def)
next
  case False
  with assms split_groups_authorization [of "[]" h "[]" g items] show ?thesis
    by (simp add: split_collect_items_by_authorization_def)
qed

section \<open>Rewriting sessions\<close>

lemma rewrite_session_authorization: "authorization_fields (rewrite_session p r) = authorization_fields r"
  by (simp add: rewrite_session_def authorization_fields_def Let_def split: option.split)

lemma rewrite_selection_authorization: "authorization_fields (rewrite_selection p r) = authorization_fields r"
  by (simp add: rewrite_selection_def authorization_fields_def Let_def split: option.split)

lemma rewrite_authorization: "authorization_fields (rewrite_run p r) = authorization_fields r"
  by (simp add: rewrite_run_def rewrite_session_authorization rewrite_selection_authorization Let_def)

lemma rewrite_heap_authorization:
  "authorization_fields (fold (\<lambda>r h. h(r := rewrite_run p (h r))) refs h n) = authorization_fields (h n)"
  by (induction refs arbitrary: h) (simp_all add: rewrite_authorization)

lemma refresh_authorization:
  "authorization_fields (fs_runs (refresh_queued_followup_session k p s) n) = authorization_fields (fs_runs s n)"
  by (simp add: refresh_queued_followup_session_def Let_def rewrite_heap_authorization split: option.split)

section \<open>Every group that a loop hands over\<close>

definition pc_groups :: "drain_pc \<Rightarrow> followup_run list list" where
  "pc_groups pc = (case pc of GroupRun g gs sm \<Rightarrow> g # gs | GroupDone g gs sm \<Rightarrow> g # gs | _ \<Rightarrow> [])"

definition groups_ok :: "followup_state \<Rightarrow> bool" where
  "groups_ok s \<longleftrightarrow> (\<forall>i d g. fs_drains s i = Some d \<longrightarrow> g \<in> set (pc_groups (dr_pc d)) \<longrightarrow> one_authorization (fs_runs s) g)"

lemma groups_ok_keeps [simp]:
  "groups_ok (observe_followup e s) = groups_ok s" "groups_ok (put_object i q s) = groups_ok s"
  "groups_ok (complete_all rs s) = groups_ok s" "groups_ok (mark_followup_run_enqueued run s) = groups_ok s"
  "groups_ok (clear_followup_queue_summary_state i s) = groups_ok s" "groups_ok (complete_summary_sources i s) = groups_ok s"
  "groups_ok (shift_items i n s) = groups_ok s" "groups_ok (remove_item i n s) = groups_ok s"
  "groups_ok (taken_up i cs s) = groups_ok s" "groups_ok (s\<lparr>fs_recent := cache\<rparr>) = groups_ok s"
  "groups_ok (s\<lparr>fs_callbacks := c\<rparr>) = groups_ok s" "groups_ok (s\<lparr>fs_map := m\<rparr>) = groups_ok s"
  "groups_ok (s\<lparr>fs_next := n\<rparr>) = groups_ok s" "groups_ok (s\<lparr>fs_aborted := a\<rparr>) = groups_ok s"
  by (simp_all add: groups_ok_def shift_items_def remove_item_def taken_up_def Let_def)

lemma groups_ok_put_drain:
  "groups_ok s \<Longrightarrow> (\<And>g. g \<in> set (pc_groups pc) \<Longrightarrow> one_authorization (fs_runs s) g) \<Longrightarrow> groups_ok (put_drain i d pc s)"
  by (auto simp: groups_ok_def)

lemma groups_ok_ended: "groups_ok s \<Longrightarrow> groups_ok (s\<lparr>fs_drains := (fs_drains s)(i := None)\<rparr>)"
  by (auto simp: groups_ok_def)

lemma groups_ok_end_empty: "groups_ok s \<Longrightarrow> groups_ok (end_empty i key s)"
  by (auto simp: end_empty_def Let_def groups_ok_def)

lemma groups_ok_loop_head: "groups_ok s \<Longrightarrow> groups_ok (loop_head i d s)"
  by (auto simp: loop_head_def Let_def pc_groups_def groups_ok_end_empty intro!: groups_ok_put_drain split: scan_result.split)

lemma groups_ok_schedule: "groups_ok s \<Longrightarrow> groups_ok (schedule_followup_drain k c s)"
  by (auto simp: schedule_followup_drain_def begin_queue_drain_def Let_def intro!: groups_ok_loop_head split: option.split)

lemma groups_ok_end_drain: "groups_ok s \<Longrightarrow> groups_ok (end_drain i d s)"
proof -
  assume s: "groups_ok s"
  then have "groups_ok (put_down i s)" by (auto simp: groups_ok_def put_down_def)
  with s show ?thesis
    by (cases "has_work (fs_objects s i)") (simp_all add: end_drain_put_down groups_ok_schedule, simp add: end_drain_def groups_ok_end_empty)
qed

lemma groups_ok_fail: "groups_ok s \<Longrightarrow> groups_ok (fail_drain i d now s)"
  by (simp add: fail_drain_def groups_ok_end_drain)

lemma groups_ok_continue_scan: "groups_ok s \<Longrightarrow> groups_ok (continue_scan i d ph k n now s)"
  by (auto simp: continue_scan_def pc_groups_def groups_ok_fail intro!: groups_ok_put_drain split: scan_result.split)

lemma groups_ok_drain_next: "groups_ok s \<Longrightarrow> groups_ok (drain_next_queue_item i d use req s)"
  by (auto simp: drain_next_queue_item_def pc_groups_def intro!: groups_ok_put_drain split: list.split)

lemma groups_ok_dispatch: "groups_ok s \<Longrightarrow> groups_ok (dispatch registry i d now s)"
  by (auto simp: dispatch_def Let_def pc_groups_def groups_ok_drain_next groups_ok_end_drain intro!: groups_ok_put_drain
      split: option.split)

lemma groups_ok_check_quiet: "groups_ok s \<Longrightarrow> groups_ok (check_quiet i d wait now s)"
  by (auto simp: check_quiet_def Let_def pc_groups_def intro!: groups_ok_put_drain)

lemma groups_ok_check_debounce: "groups_ok s \<Longrightarrow> groups_ok (check_debounce i d now s)"
  by (auto simp: check_debounce_def Let_def pc_groups_def groups_ok_check_quiet intro!: groups_ok_put_drain)

lemma groups_ok_summary_only: "groups_ok s \<Longrightarrow> groups_ok (start_summary_only i d sm now imgs s)"
  by (auto simp: start_summary_only_def pc_groups_def groups_ok_end_drain intro!: groups_ok_put_drain split: option.split)

lemma groups_ok_start_groups:
  "groups_ok s \<Longrightarrow> (\<And>g. g \<in> set gs \<Longrightarrow> one_authorization (fs_runs s) g) \<Longrightarrow> groups_ok (start_groups i d gs sm now s)"
  by (auto simp: start_groups_def pc_groups_def groups_ok_loop_head intro!: groups_ok_put_drain split: list.split)

lemma groups_ok_after_scan: "groups_ok s \<Longrightarrow> groups_ok (after_scan registry i d ph n now s)"
  by (auto simp: after_scan_def Let_def groups_ok_end_drain groups_ok_check_debounce groups_ok_dispatch split: debounce_phase.split)

lemma groups_ok_resume: "groups_ok (resume_drain registry i now s)" if s: "groups_ok s"
proof (cases "fs_drains s i")
  case None
  with s show ?thesis by (simp add: resume_drain_def)
next
  case (Some d)
  note parts = groups_ok_after_scan groups_ok_continue_scan groups_ok_summary_only groups_ok_put_drain groups_ok_loop_head
    groups_ok_end_drain
  have old: "one_authorization (fs_runs s) g" if "g \<in> set (pc_groups (dr_pc d))" for g
    using s Some that by (auto simp: groups_ok_def)
  show ?thesis
  proof (cases "dr_pc d")
    case (ItemDone use drained)
    with Some s show ?thesis by (cases use) (simp_all add: resume_drain_def parts)
  next
    case (ItemCleaned use item)
    have "groups_ok (put_drain i d (ItemDone use True) (shift_items i 1 s))"
      by (rule groups_ok_put_drain) (simp_all add: s pc_groups_def)
    with Some ItemCleaned show ?thesis by (simp add: resume_drain_def)
  next
    case (GroupDone g gs sm)
    have "groups_ok (start_groups i d gs sm' now t)" if "groups_ok t" "fs_runs t = fs_runs s" for sm' t
      using that GroupDone old by (intro groups_ok_start_groups) (auto simp: pc_groups_def)
    then show ?thesis using Some GroupDone s by (simp add: resume_drain_def Let_def shift_items_def)
  qed (use Some s in \<open>auto simp: resume_drain_def parts Let_def pc_groups_def
         intro!: groups_ok_start_groups collect_one_authorization\<close>)
qed

lemma groups_ok_settle: "groups_ok (settle_callback i ok now s)" if s: "groups_ok s"
proof (cases "fs_drains s i")
  case None
  with s show ?thesis by (simp add: settle_callback_def)
next
  case (Some d)
  have old: "one_authorization (fs_runs s) g" if "g \<in> set (pc_groups (dr_pc d))" for g
    using s Some that by (auto simp: groups_ok_def)
  show ?thesis
    using Some s old
    by (auto simp: settle_callback_def Let_def complete_one pc_groups_def shift_items_def
        intro!: groups_ok_fail groups_ok_continue_scan groups_ok_put_drain split: drain_pc.split)
qed

lemma groups_ok_get_queue: "get_followup_queue k st s = (i, t) \<Longrightarrow> groups_ok s \<Longrightarrow> groups_ok t"
  by (auto simp: get_followup_queue_def Let_def split: option.splits)

lemma groups_ok_settle_dropped: "groups_ok s \<Longrightarrow> groups_ok (settle_dropped i dropped s)"
  by (simp add: settle_dropped_def Let_def)

lemma groups_ok_kick: "groups_ok s \<Longrightarrow> groups_ok (if b then kick_followup_drain_if_idle k s else s)"
  by (simp add: kick_followup_drain_if_idle_def groups_ok_schedule split: option.split)

lemma groups_ok_add: "groups_ok s \<Longrightarrow> groups_ok (add_followup_run i k r recent callback restart now s)"
  unfolding add_followup_run_def Let_def
  by (rule groups_ok_kick) (simp add: remember_followup_drain_callback_def split: option.split)

lemma groups_ok_offer: "groups_ok s \<Longrightarrow> groups_ok (snd (offer_followup_run i k r recent callback restart now s))"
  by (simp add: offer_followup_run_def Let_def groups_ok_add groups_ok_settle_dropped split: prod.split)

lemma groups_ok_enqueue: "groups_ok s \<Longrightarrow> groups_ok (snd (enqueue_followup_run k r st mode callback restart now s))"
  by (auto simp: enqueue_followup_run_def Let_def groups_ok_offer dest: groups_ok_get_queue split: prod.split)

lemma refresh_drains: "fs_drains (refresh_queued_followup_session k p s) = fs_drains s"
  by (simp add: refresh_queued_followup_session_def Let_def split: option.split)

lemma groups_ok_refresh: "groups_ok s \<Longrightarrow> groups_ok (refresh_queued_followup_session k p s)"
  unfolding groups_ok_def one_authorization_def refresh_drains refresh_authorization .

lemma groups_ok_clear: "groups_ok s \<Longrightarrow> groups_ok (snd (clear_followup_queue k s))"
  by (simp add: clear_followup_queue_def Let_def split: option.split)

lemma groups_ok_timer: "groups_ok s \<Longrightarrow> groups_ok (debounce_timer_fires i now s)"
  by (simp add: debounce_timer_fires_def groups_ok_check_quiet split: option.split drain_pc.split)

lemma groups_ok_simple_calls:
  assumes "groups_ok s"
  shows "groups_ok (clear_followup_drain_callback k s)" "groups_ok (reset_recent_queued_message_id_dedupe s)"
    "groups_ok (abort_signal n s)"
  using assms by (simp_all add: clear_followup_drain_callback_def reset_recent_queued_message_id_dedupe_def abort_signal_def)

lemma groups_ok_exec:
  assumes "groups_ok s"
  shows "groups_ok (followup_exec registry c s)"
  using groups_ok_enqueue [OF assms] groups_ok_schedule [OF assms] groups_ok_refresh [OF assms] groups_ok_resume [OF assms]
    groups_ok_settle [OF assms] groups_ok_clear [OF assms] groups_ok_timer [OF assms] groups_ok_simple_calls [OF assms]
  by (cases c) (simp_all only: followup_exec.simps)

lemma groups_ok_run: "groups_ok (fold (followup_exec registry) cs s)" if "groups_ok s"
  using that by (induction cs arbitrary: s) (simp_all add: groups_ok_exec)

lemma groups_ok_initial: "groups_ok (initial_followup_state runs)"
  by (simp add: groups_ok_def initial_followup_state_def)

end
