(* ===== verification/FollowupProps.thy ===== *)
theory FollowupProps
  imports FollowupProgress FollowupAuthorization
begin

text \<open>
  The properties of the followup queues, over every sequence of calls and events from the start.
\<close>

section \<open>Runs\<close>

definition followup_after :: "channel_registry \<Rightarrow> followup_call list \<Rightarrow> run_heap \<Rightarrow> followup_state" where
  "followup_after registry cs runs = fold (followup_exec registry) cs (initial_followup_state runs)"

text \<open>The identifiers of the messages that a sequence of calls gets accepted for a key.\<close>

fun accepted_from :: "channel_registry \<Rightarrow> jstring \<Rightarrow> followup_call list \<Rightarrow> followup_state \<Rightarrow> nat list" where
  "accepted_from registry key [] s = []"
| "accepted_from registry key (c # cs) s = accepts c s key @ accepted_from registry key cs (followup_exec registry c s)"

definition accepted_ids :: "channel_registry \<Rightarrow> jstring \<Rightarrow> followup_call list \<Rightarrow> run_heap \<Rightarrow> nat list" where
  "accepted_ids registry key cs runs = accepted_from registry key cs (initial_followup_state runs)"

text \<open>The keys whose last accepted messages came without a restart and have not been scheduled since.\<close>

fun parked_from :: "channel_registry \<Rightarrow> followup_call list \<Rightarrow> followup_state \<Rightarrow> jstring set \<Rightarrow> jstring set" where
  "parked_from registry [] s P = P"
| "parked_from registry (c # cs) s P = parked_from registry cs (followup_exec registry c s) (parked_step c s P)"

definition parked :: "channel_registry \<Rightarrow> followup_call list \<Rightarrow> run_heap \<Rightarrow> jstring set" where
  "parked registry cs runs = parked_from registry cs (initial_followup_state runs) {}"

lemma calm_run:
  assumes "calm s" "list_all lossless cs"
  shows "calm (fold (followup_exec registry) cs s)"
    "account (fold (followup_exec registry) cs s) key = account s key @ accepted_from registry key cs s"
proof -
  have "calm (fold (followup_exec registry) cs s) \<and>
      account (fold (followup_exec registry) cs s) key = account s key @ accepted_from registry key cs s"
    using assms by (induction cs arbitrary: s) (simp_all add: calm_exec)
  then show "calm (fold (followup_exec registry) cs s)"
    "account (fold (followup_exec registry) cs s) key = account s key @ accepted_from registry key cs s" by auto
qed

lemma calm_after:
  assumes "list_all lossless cs"
  shows "calm (followup_after registry cs runs)"
    "account (followup_after registry cs runs) key = accepted_ids registry key cs runs"
  using calm_run [OF initial_calm(1) assms] by (simp_all add: followup_after_def accepted_ids_def initial_calm(2))

lemma parked_run:
  assumes "followup_sound s" "\<forall>k. unserved s k \<longrightarrow> k \<in> P"
  shows "followup_sound (fold (followup_exec registry) cs s) \<and>
    (\<forall>k. unserved (fold (followup_exec registry) cs s) k \<longrightarrow> k \<in> parked_from registry cs s P)"
  using assms
proof (induction cs arbitrary: s P)
  case (Cons c cs)
  from Cons.IH [of "followup_exec registry c s" "parked_step c s P"] followup_exec_parks [OF Cons.prems, of registry c]
  show ?case by simp
qed simp

lemma followups_sound_after: "followup_sound (followup_after registry cs runs)"
  "unserved (followup_after registry cs runs) k \<Longrightarrow> k \<in> parked registry cs runs"
  using parked_run [OF initial_sound(1), of runs "{}" registry cs] initial_sound(2) [of runs]
  by (auto simp: followup_after_def parked_def)

text \<open>A queue with work and a callback has a loop of its own, unless its key is parked.\<close>

lemma served_after:
  assumes s: "s = followup_after registry cs runs" and i: "queue_at s key = Some i"
    and work: "has_work (fs_objects s i)" "map_of (fs_callbacks s) key \<noteq> None" "key \<notin> parked registry cs runs"
  shows "\<exists>d. fs_drains s i = Some d \<and> dr_key d = key"
proof -
  have sound: "followup_sound s" and "\<not> unserved s key" using followups_sound_after work(3) unfolding s by blast+
  then have "draining_at s i" using i work by (auto simp: unserved_def works_def)
  with sound obtain k where k: "loop_keys s i = Some k" unfolding followup_sound_def sound_with_def by auto
  with i sound have "k = key" unfolding followup_sound_def sound_with_def table_ok_def by blast
  with k show ?thesis by (auto simp: loop_keys_def)
qed

section \<open>Overflow\<close>

text \<open>A loop that finds no message but a count of dropped ones: it has nobody to hand the summary to.\<close>

definition spins :: "nat \<Rightarrow> followup_state \<Rightarrow> bool" where
  "spins i s \<longleftrightarrow> (\<exists>d. fs_drains s i = Some d \<and> map_of (fs_map s) (dr_key d) = Some i \<and>
     (case dr_pc d of AbortedDone ph n \<Rightarrow> n = 0 | DebounceReady \<Rightarrow> True | DebounceTimer due wait \<Rightarrow> True
      | ItemDone use drained \<Rightarrow> use = SummaryItem \<and> \<not> drained | _ \<Rightarrow> False)) \<and>
     fq_items (fs_objects s i) = [] \<and> 0 < fq_dropped (fs_objects s i) \<and> fq_drop (fs_objects s i) = Summarize \<and>
     fq_mode (fs_objects s i) \<noteq> CollectMode \<and> fq_last_run (fs_objects s i) \<noteq> None"

lemma spins_put_drain:
  assumes "spins i s" "fs_drains s i = Some d0" "dr_key d = dr_key d0"
    and "(\<exists>ph. pc = AbortedDone ph 0) \<or> pc = DebounceReady \<or> (\<exists>due wait. pc = DebounceTimer due wait) \<or> pc = ItemDone SummaryItem False"
  shows "spins i (put_drain i d pc s) \<and> fs_log (put_drain i d pc s) = fs_log s"
  using assms by (auto simp: spins_def)

lemma spins_schedule:
  assumes "spins i s" "fs_drains s i = Some d" "c = dr_callback d"
  shows "spins i (schedule_followup_drain (dr_key d) c (put_down i s)) \<and>
    fs_log (schedule_followup_drain (dr_key d) c (put_down i s)) = fs_log s"
  using assms
  by (auto simp: spins_def put_down_def schedule_followup_drain_def begin_queue_drain_def Let_def loop_head_def has_work_def)

lemma spins_advance:
  assumes s: "spins i s"
  shows "spins i (advance_drain registry i t s) \<and> fs_log (advance_drain registry i t s) = fs_log s"
proof -
  obtain d where d: "fs_drains s i = Some d" using s by (auto simp: spins_def)
  have q: "fq_items (fs_objects s i) = []" "has_work (fs_objects s i)" "fq_mode (fs_objects s i) \<noteq> CollectMode"
    "\<exists>p. preview_summary (fs_objects s i) = Some p" "\<exists>r. fq_last_run (fs_objects s i) = Some r"
    using s by (auto simp: spins_def has_work_def preview_summary_def build_queue_summary_prompt_def)
  note put = spins_put_drain [OF s d refl]
  from s d consider ph where "dr_pc d = AbortedDone ph 0" | "dr_pc d = DebounceReady" | due wait where "dr_pc d = DebounceTimer due wait"
    | "dr_pc d = ItemDone SummaryItem False"
    by (auto simp: spins_def split: drain_pc.splits)
  then show ?thesis
  proof cases
    case (1 ph)
    show ?thesis
    proof (cases ph)
      case BeforeDebounce
      with 1 d q put show ?thesis
        by (simp add: advance_drain_def drain_event_def resume_drain_def after_scan_def check_debounce_def check_quiet_def Let_def)
    next
      case AfterDebounce
      with 1 d q put show ?thesis
        by (auto simp: advance_drain_def drain_event_def resume_drain_def after_scan_def dispatch_def drain_next_queue_item_def Let_def)
    qed
  next
    case 2
    with d q put show ?thesis by (simp add: advance_drain_def drain_event_def resume_drain_def continue_scan_def)
  next
    case (3 due wait)
    with d put show ?thesis by (simp add: advance_drain_def drain_event_def debounce_timer_fires_def check_quiet_def Let_def)
  next
    case 4
    with d q spins_schedule [OF s d refl] show ?thesis
      by (simp add: advance_drain_def drain_event_def resume_drain_def end_drain_put_down)
  qed
qed

lemma spins_forever:
  assumes "spins i s"
  shows "spins i (fold (advance_drain registry i) ts s) \<and> fs_log (fold (advance_drain registry i) ts s) = fs_log s"
  using assms by (induction ts arbitrary: s) (auto simp: spins_advance)

text \<open>A loop that has delivered the last message of its queue while dropped messages are counted.\<close>

definition settled_empty :: "channel_registry \<Rightarrow> nat \<Rightarrow> followup_state \<Rightarrow> bool" where
  "settled_empty registry i s \<longleftrightarrow> (\<exists>d. fs_drains s i = Some d \<and> map_of (fs_map s) (dr_key d) = Some i \<and> dr_pc d = ItemDone PlainItem True) \<and>
     fq_items (fs_objects s i) = [] \<and> 0 < fq_dropped (fs_objects s i) \<and> fq_drop (fs_objects s i) = Summarize \<and>
     fq_mode (fs_objects s i) \<noteq> CollectMode \<and> fq_last_run (fs_objects s i) \<noteq> None"

lemma settled_empty_spins:
  assumes "settled_empty registry i s"
  shows "spins i (advance_drain registry i t s) \<and> fs_log (advance_drain registry i t s) = fs_log s"
  using assms
  by (auto simp: settled_empty_def advance_drain_def drain_event_def resume_drain_def loop_head_def has_work_def spins_def)

lemma settled_spins:
  assumes "settled_empty registry i s"
  shows "fs_log (fold (advance_drain registry i) ts s) = fs_log s \<and> fq_items (fs_objects (fold (advance_drain registry i) ts s) i) = [] \<and>
    fs_drains (fold (advance_drain registry i) ts s) i \<noteq> None"
proof (cases ts)
  case Nil
  with assms show ?thesis by (auto simp: settled_empty_def)
next
  case (Cons t ts')
  from settled_empty_spins [OF assms, of t] spins_forever [of i "advance_drain registry i t s" registry ts'] Cons
  show ?thesis by (auto simp: spins_def)
qed

lemma loop_drains: "followup_sound s \<Longrightarrow> fs_drains s i = Some d \<Longrightarrow> fq_draining (fs_objects s i)"
  by (auto simp: followup_sound_def sound_with_def draining_at_def loop_keys_def fun_eq_iff)

lemma loop_key_of_queue: "followup_sound s \<Longrightarrow> queue_at s key = Some i \<Longrightarrow> fs_drains s i = Some d \<Longrightarrow> dr_key d = key"
  unfolding followup_sound_def sound_with_def table_ok_def loop_keys_def by force

text \<open>A message that is accepted by a full queue with a loop: the oldest messages leave, the new one is last.\<close>

lemma overflow_enqueued:
  assumes "queue_at s key = Some i" "fq_draining (fs_objects s i)"
    and "q = apply_queue_runtime_settings settings (fs_objects s i)" "0 < fq_cap q" "fq_cap q \<le> int (length (fq_items (fs_objects s i)))"
    and "enqueue_followup_run key x settings mode callback restart now s = (True, t)"
  shows "fq_items (fs_objects t i) = drop (nat (int (length (fq_items (fs_objects s i))) - fq_cap q + 1)) (fq_items (fs_objects s i)) @ [x]"
    and "fs_drains t = fs_drains s" "fs_map t = fs_map s" "delivered_ids k (fs_log t) = delivered_ids k (fs_log s)"
    and "fq_mode (fs_objects t i) = fq_mode q" "fq_drop (fs_objects t i) = fq_drop q" "fq_last_run (fs_objects t i) = Some (fu_run x)"
    and "fq_draining (fs_objects t i)" "fq_drop q = Summarize \<Longrightarrow> 0 < fq_dropped (fs_objects t i)"
proof -
  have g: "get_followup_queue key settings s = (i, put_object i q s)"
    using assms(1,3) by (simp add: get_followup_queue_def queue_at_def)
  have qs: "fq_items q = fq_items (fs_objects s i)" "fq_draining q"
    using assms(2,3) by (simp_all add: apply_queue_runtime_settings_def)
  let ?q0 = "q\<lparr>fq_last_enqueued_at := now, fq_last_run := Some (fu_run x)\<rparr>"
  obtain recent c where o: "offer_followup_run i key x recent callback restart now ((put_object i q s)\<lparr>fs_recent := c\<rparr>) = (True, t)"
    using assms(6) unfolding enqueue_followup_run_def g by (auto simp: Let_def split: if_splits prod.splits)
  obtain room dropped q1 where p: "apply_queue_drop_policy ?q0 = (room, dropped, q1)" by (metis surj_pair)
  have full: "\<not> (fq_cap ?q0 \<le> 0 \<or> int (length (fq_items ?q0)) < fq_cap ?q0)" using assms(4,5) qs(1) by simp
  have room: "room" using o p by (auto simp: offer_followup_run_def Let_def split: if_splits)
  with p full have new: "fq_drop q \<noteq> DropNew" by (auto simp: apply_queue_drop_policy_def Let_def split: if_splits)
  let ?n = "nat (int (length (fq_items (fs_objects s i))) - fq_cap q + 1)"
  have q1: "fq_items q1 = drop ?n (fq_items (fs_objects s i))" "fq_mode q1 = fq_mode q" "fq_drop q1 = fq_drop q"
    "fq_last_run q1 = Some (fu_run x)" "fq_draining q1" "fq_drop q = Summarize \<Longrightarrow> 0 < fq_dropped q1"
    using p full new qs assms(4,5) by (auto simp: apply_queue_drop_policy_def Let_def split: if_splits)
  let ?s1 = "put_object i q1 ((put_object i q s)\<lparr>fs_recent := c\<rparr>)"
  obtain rs q' where d: "settle_dropped i dropped ?s1 = complete_all rs (put_object i q' ?s1)"
    "fq_items q' = fq_items q1" "fq_drop q' = fq_drop q1" "fq_dropped q' = fq_dropped q1" "fq_draining q' = fq_draining q1"
    "fq_mode q' = fq_mode q1" "fq_last_run q' = fq_last_run q1"
    using settle_dropped_object [of i dropped ?s1] by auto
  have t: "t = add_followup_run i key x recent callback restart now (complete_all rs (put_object i q' ?s1))"
    using o p room d(1) by (simp add: offer_followup_run_def qs)
  have o: "fs_objects t i = q'\<lparr>fq_items := fq_items q' @ [x]\<rparr>" and rest: "fs_drains t = fs_drains s" "fs_map t = fs_map s"
    "delivered_ids k (fs_log t) = delivered_ids k (fs_log s)"
    using q1(5) d(5) by (auto simp: t add_followup_run_def Let_def remember_followup_drain_callback_def split: option.split)
  show "fs_drains t = fs_drains s" "fs_map t = fs_map s" "delivered_ids k (fs_log t) = delivered_ids k (fs_log s)"
    by (rule rest)+
  show "fq_items (fs_objects t i) = drop ?n (fq_items (fs_objects s i)) @ [x]"
    "fq_mode (fs_objects t i) = fq_mode q" "fq_drop (fs_objects t i) = fq_drop q" "fq_last_run (fs_objects t i) = Some (fu_run x)"
    "fq_draining (fs_objects t i)" "fq_drop q = Summarize \<Longrightarrow> 0 < fq_dropped (fs_objects t i)"
    using q1 d by (simp_all add: o)
qed

section \<open>A queue in use\<close>

definition sample_settings :: "queue_mode \<Rightarrow> drop_policy \<Rightarrow> int \<Rightarrow> queue_settings" where
  "sample_settings md p cap = \<lparr>qs_mode = md, qs_debounce = Some 0, qs_cap = Some cap, qs_drop = Some p\<rparr>"

definition sample_message :: "nat \<Rightarrow> followup_run" where
  "sample_message n = \<lparr>fu_id = n, fu_prompt = [104, 105], fu_turn_kind = None, fu_turn_context = None, fu_signal = [], fu_correlations = [],
     fu_lifecycle = None, fu_message_id = None, fu_summary_line = None, fu_enqueued_at = 0, fu_images = [], fu_image_order = [],
     fu_channel = None, fu_to = None, fu_account_id = None, fu_thread_id = Undef, fu_run = n\<rparr>"

definition sample_registry :: channel_registry where
  "sample_registry = \<lparr>rg_aliases = (\<lambda>s. None), rg_chat_ids = (\<lambda>s. False), rg_plugin_id = (\<lambda>s. None)\<rparr>"

definition sample_options :: run_options where
  "sample_options = \<lparr>ro_session_id = [115], ro_session_file = [102], ro_sender_id = Some [49], ro_sender_name = None,
     ro_sender_username = None, ro_sender_e164 = None, ro_sender_is_owner = Some True, ro_exec = None, ro_bash = None,
     ro_provider = [112], ro_model = [109], ro_has_model_override = None, ro_model_source = None, ro_auth_profile = None,
     ro_auth_source = None\<rparr>"

text \<open>Two messages, the second one while the first is being handed over.\<close>

definition sample_calls :: "drop_policy \<Rightarrow> int \<Rightarrow> followup_call list" where
  "sample_calls p cap =
     [Enqueue_followup [107] (sample_message 1) (sample_settings FollowupMode p cap) ByMessageId (Some 7) False 0,
      Schedule_drain [107] 7, Drain_resumes 0 0, Drain_resumes 0 0, Drain_resumes 0 0,
      Enqueue_followup [107] (sample_message 2) (sample_settings FollowupMode p cap) ByMessageId (Some 7) False 1,
      Schedule_drain [107] 7, Callback_settles 0 True 2]"

definition sample_queue :: "queue_mode \<Rightarrow> drop_policy \<Rightarrow> int \<Rightarrow> followup_run list \<Rightarrow> bool \<Rightarrow> int \<Rightarrow> nat \<Rightarrow> jstring list \<Rightarrow> followup_run list \<Rightarrow> nat \<Rightarrow> followup_queue" where
  "sample_queue md p cap items draining at dropped lines sources run =
     \<lparr>fq_items = items, fq_draining = draining, fq_last_enqueued_at = at, fq_mode = md, fq_debounce = 0, fq_cap = cap,
      fq_drop = p, fq_dropped = dropped, fq_lines = lines, fq_sources = sources, fq_last_run = Some run\<rparr>"

definition sample_state :: "run_heap \<Rightarrow> followup_queue \<Rightarrow> drain_pc option \<Rightarrow> followup_event list \<Rightarrow> followup_state" where
  "sample_state runs q pc l =
     (initial_followup_state runs)\<lparr>fs_map := [([107], 0)], fs_objects := (fs_objects (initial_followup_state runs))(0 := q), fs_next := 1,
        fs_callbacks := [([107], 7)],
        fs_drains := (\<lambda>i. None)(0 := map_option (\<lambda>pc. \<lparr>dr_key = [107], dr_callback = 7, dr_force = False, dr_pc = pc\<rparr>) pc), fs_log := l\<rparr>"

lemmas sample_defs = sample_state_def sample_queue_def sample_settings_def initial_followup_state_def

lemma sample_message_simps [simp]:
  "fu_id (sample_message n) = n" "fu_signal (sample_message n) = []" "fu_lifecycle (sample_message n) = None"
  "fu_message_id (sample_message n) = None" "fu_run (sample_message n) = n"
  by (simp_all add: sample_message_def)

lemma sample_keyless [simp]:
  "build_recent_message_id_key (sample_message n) k = None" "\<not> is_run_already_queued (sample_message n) items False"
  "mark_followup_run_enqueued (sample_message n) s = s" "\<not> is_followup_run_aborted [] (sample_message n)"
  by (simp_all add: build_recent_message_id_key_def is_run_already_queued_def normalize_optional_string_def
      normalize_nullable_string_def mark_followup_run_enqueued_def is_followup_run_aborted_def)

lemma keyless_cache [simp]: "peek_key None now c = (False, c)" "check_key None now c = (False, c)"
  by (simp_all add: peek_key_def check_key_def)

lemma sample_state_simps [simp]:
  "fs_map (sample_state runs q pc l) = [([107], 0)]" "fs_objects (sample_state runs q pc l) 0 = q"
  "fs_callbacks (sample_state runs q pc l) = [([107], 7)]" "fs_aborted (sample_state runs q pc l) = []"
  "fs_drains (sample_state runs q pc l) 0 = map_option (\<lambda>pc. \<lparr>dr_key = [107], dr_callback = 7, dr_force = False, dr_pc = pc\<rparr>) pc"
  "fs_log (sample_state runs q pc l) = l" "fs_runs (sample_state runs q pc l) = runs"
  "put_object 0 q' (sample_state runs q pc l) = sample_state runs q' pc l"
  "observe_followup e (sample_state runs q pc l) = sample_state runs q pc (l @ [e])"
  "put_drain 0 \<lparr>dr_key = [107], dr_callback = 7, dr_force = False, dr_pc = pc0\<rparr> pc' (sample_state runs q pc l) =
     sample_state runs q (Some pc') l"
  "(sample_state runs q pc l)\<lparr>fs_callbacks := [([107], 7)]\<rparr> = sample_state runs q pc l"
  "(sample_state runs q pc l)\<lparr>fs_recent := fs_recent (sample_state runs q pc l)\<rparr> = sample_state runs q pc l"
  by (simp_all add: sample_state_def put_object_def observe_followup_def put_drain_def initial_followup_state_def)

lemma sample_queue_simps [simp]:
  "fq_items (sample_queue md p cap items b at n ls ss r) = items" "fq_draining (sample_queue md p cap items b at n ls ss r) = b"
  "fq_mode (sample_queue md p cap items b at n ls ss r) = md" "fq_debounce (sample_queue md p cap items b at n ls ss r) = 0"
  "fq_dropped (sample_queue md p cap items b at n ls ss r) = n" "fq_drop (sample_queue md p cap items b at n ls ss r) = p"
  "fq_cap (sample_queue md p cap items b at n ls ss r) = cap" "fq_sources (sample_queue md p cap items b at n ls ss r) = ss"
  "fq_lines (sample_queue md p cap items b at n ls ss r) = ls"
  "(sample_queue md p cap items b at n ls ss r)\<lparr>fq_dropped := n'\<rparr> = sample_queue md p cap items b at n' ls ss r"
  "(sample_queue md p cap items b at n ls ss r)\<lparr>fq_lines := ls'\<rparr> = sample_queue md p cap items b at n ls' ss r"
  "(sample_queue md p cap items b at n ls ss r)\<lparr>fq_sources := ss'\<rparr> = sample_queue md p cap items b at n ls ss' r"
  "(sample_queue md p cap items b at n ls ss r)\<lparr>fq_draining := b'\<rparr> = sample_queue md p cap items b' at n ls ss r"
  "(sample_queue md p cap items b at n ls ss r)\<lparr>fq_items := items'\<rparr> = sample_queue md p cap items' b at n ls ss r"
  "(sample_queue md p cap items b at n ls ss r)\<lparr>fq_last_enqueued_at := t, fq_last_run := Some r'\<rparr> = sample_queue md p cap items b t n ls ss r'"
  "0 < cap \<Longrightarrow> apply_queue_runtime_settings (sample_settings md p cap) (sample_queue md p cap items b at n ls ss r) =
     sample_queue md p cap items b at n ls ss r"
  by (simp_all add: sample_queue_def apply_queue_runtime_settings_def sample_settings_def)

lemma sample_first:
  assumes "0 < cap"
  shows "enqueue_followup_run [107] (sample_message 1) (sample_settings md p cap) ByMessageId (Some 7) False 0 (initial_followup_state runs) =
    (True, sample_state runs (sample_queue md p cap [sample_message 1] False 0 0 [] [] 1) None [])"
proof -
  have g: "get_followup_queue [107] (sample_settings md p cap) (initial_followup_state runs) =
      (0, (sample_state runs ((sample_queue md p cap [] False 0 0 [] [] 1)\<lparr>fq_last_run := None\<rparr>) None [])\<lparr>fs_callbacks := []\<rparr>)"
    using assms
    by (simp add: get_followup_queue_def sample_defs put_object_def apply_queue_runtime_settings_def new_followup_queue_def
        map_put_def Let_def)
  show ?thesis
    using assms unfolding enqueue_followup_run_def g
    by (simp add: initial_followup_state_def Let_def)
       (simp add: offer_followup_run_def sample_defs apply_queue_drop_policy_def settle_dropped_def complete_all_def put_object_def
        add_followup_run_def remember_followup_drain_callback_def map_put_def Let_def)
qed

lemma sample_scheduled:
  "schedule_followup_drain [107] 7 (sample_state runs (sample_queue md p cap [sample_message 1] False 0 0 [] [] 1) None []) =
   sample_state runs (sample_queue md p cap [sample_message 1] True 0 0 [] [] 1) (Some (AbortedDone BeforeDebounce 0)) []"
  by (simp add: schedule_followup_drain_def begin_queue_drain_def Let_def map_put_def loop_head_def has_work_def)

abbreviation sample_one :: "run_heap \<Rightarrow> drop_policy \<Rightarrow> int \<Rightarrow> drain_pc option \<Rightarrow> followup_event list \<Rightarrow> followup_state" where
  "sample_one runs p cap \<equiv> sample_state runs (sample_queue FollowupMode p cap [sample_message 1] True 0 0 [] [] 1)"

lemma sample_runs:
  "resume_drain registry 0 0 (sample_one runs p cap (Some (AbortedDone BeforeDebounce 0)) []) = sample_one runs p cap (Some DebounceReady) []"
  "resume_drain registry 0 0 (sample_one runs p cap (Some DebounceReady) []) = sample_one runs p cap (Some (AbortedDone AfterDebounce 0)) []"
  "resume_drain registry 0 0 (sample_one runs p cap (Some (AbortedDone AfterDebounce 0)) []) =
     sample_one runs p cap (Some (ItemRun PlainItem (sample_message 1))) [CallbackStarted [107] 7 (request_of_run (sample_message 1))]"
  by (simp_all add: resume_drain_def after_scan_def has_work_def check_debounce_def continue_scan_def dispatch_def
      drain_next_queue_item_def preview_summary_def build_queue_summary_prompt_def Let_def)

lemma sample_second_room:
  assumes "2 \<le> cap"
  shows "enqueue_followup_run [107] (sample_message 2) (sample_settings FollowupMode p cap) ByMessageId (Some 7) False 1
      (sample_state runs (sample_queue FollowupMode p cap [sample_message 1] True 0 0 [] [] 1) (Some pc) l) =
    (True, sample_state runs (sample_queue FollowupMode p cap [sample_message 1, sample_message 2] True 1 0 [] [] 2) (Some pc) l)"
  using assms
  by (simp add: enqueue_followup_run_def get_followup_queue_def Let_def offer_followup_run_def apply_queue_drop_policy_def
      settle_dropped_def complete_all_def add_followup_run_def remember_followup_drain_callback_def map_put_def)

abbreviation sample_lines :: "jstring list" where
  "sample_lines \<equiv> [build_queue_summary_line (summary_text (sample_message 1))]"

lemma sample_second_full:
  "enqueue_followup_run [107] (sample_message 2) (sample_settings FollowupMode Summarize 1) ByMessageId (Some 7) False 1
      (sample_state runs (sample_queue FollowupMode Summarize 1 [sample_message 1] True 0 0 [] [] 1) (Some pc) l) =
    (True, sample_state runs (sample_queue FollowupMode Summarize 1 [sample_message 2] True 1 1 sample_lines [sample_message 1] 2) (Some pc) l)"
  by (simp add: enqueue_followup_run_def get_followup_queue_def Let_def offer_followup_run_def apply_queue_drop_policy_def
      settle_dropped_def complete_all_def add_followup_run_def remember_followup_drain_callback_def map_put_def)

lemma sample_busy:
  "schedule_followup_drain [107] 7 (sample_state runs (sample_queue FollowupMode p cap items True at n ls ss r) pc l) =
   sample_state runs (sample_queue FollowupMode p cap items True at n ls ss r) pc l"
  by (simp add: schedule_followup_drain_def begin_queue_drain_def)

lemma sample_settled:
  "settle_callback 0 True now (sample_state runs (sample_queue FollowupMode p cap items True at n ls ss r) (Some (ItemRun PlainItem (sample_message 1))) l) =
   sample_state runs (sample_queue FollowupMode p cap (drop 1 items) True at n ls ss r) (Some (ItemDone PlainItem True)) (l @ [CallbackSettled [107] 7 [1] True])"
  by (simp add: settle_callback_def Let_def shift_items_def)

text \<open>Where the calls lead: with room both messages are kept, without room the first is dropped while
  it is handed over.\<close>

lemma sample_after_new:
  "followup_after registry (sample_calls DropNew 2) runs =
     sample_state runs (sample_queue FollowupMode DropNew 2 [sample_message 2] True 1 0 [] [] 2) (Some (ItemDone PlainItem True))
       [CallbackStarted [107] 7 (request_of_run (sample_message 1)), CallbackSettled [107] 7 [1] True]"
  "accepted_ids registry [107] (sample_calls DropNew 2) runs = [1, 2]"
  by (simp_all add: followup_after_def accepted_ids_def sample_calls_def accepts_def sample_first [of 2, simplified]
      sample_scheduled [simplified] sample_runs [simplified] sample_second_room [of 2, simplified] sample_busy
      sample_settled [simplified])

lemma sample_after_full:
  "followup_after registry (sample_calls Summarize 1) runs =
     sample_state runs (sample_queue FollowupMode Summarize 1 [] True 1 1 sample_lines [sample_message 1] 2) (Some (ItemDone PlainItem True))
       [CallbackStarted [107] 7 (request_of_run (sample_message 1)), CallbackSettled [107] 7 [1] True]"
  "accepted_ids registry [107] (sample_calls Summarize 1) runs = [1, 2]"
  by (simp_all add: followup_after_def accepted_ids_def sample_calls_def accepts_def sample_first [of 1, simplified]
      sample_scheduled [simplified] sample_runs [simplified] sample_second_full [simplified] sample_busy
      sample_settled [simplified])

lemma sample_spins:
  "advance_drain registry 0 t (sample_state runs (sample_queue FollowupMode Summarize 1 [] True 1 1 ls ss 2) (Some (ItemDone PlainItem True)) l) =
     sample_state runs (sample_queue FollowupMode Summarize 1 [] True 1 1 ls ss 2) (Some (AbortedDone BeforeDebounce 0)) l"
  "spins 0 (sample_state runs (sample_queue FollowupMode Summarize 1 [] True 1 1 ls ss 2) (Some (AbortedDone BeforeDebounce 0)) l)"
  by (simp_all add: advance_drain_def drain_event_def resume_drain_def loop_head_def has_work_def spins_def sample_queue_def)

text \<open>Two messages that were waiting when the loop started, collected into one run.\<close>

definition sample_collect_calls :: "followup_call list" where
  "sample_collect_calls =
     [Enqueue_followup [107] (sample_message 1) (sample_settings CollectMode DropOld 9) ByMessageId (Some 7) False 0,
      Enqueue_followup [107] (sample_message 2) (sample_settings CollectMode DropOld 9) ByMessageId (Some 7) False 1,
      Schedule_drain [107] 7, Drain_resumes 0 2, Drain_resumes 0 2, Drain_resumes 0 2, Drain_resumes 0 2]"

abbreviation sample_two :: "run_heap \<Rightarrow> drain_pc option \<Rightarrow> followup_event list \<Rightarrow> followup_state" where
  "sample_two runs \<equiv> sample_state runs (sample_queue CollectMode DropOld 9 [sample_message 1, sample_message 2] True 1 0 [] [] 2)"

lemma sample_collect_second:
  "enqueue_followup_run [107] (sample_message 2) (sample_settings CollectMode DropOld 9) ByMessageId (Some 7) False 1
      (sample_state runs (sample_queue CollectMode DropOld 9 [sample_message 1] False 0 0 [] [] 1) None []) =
    (True, sample_state runs (sample_queue CollectMode DropOld 9 [sample_message 1, sample_message 2] False 1 0 [] [] 2) None [])"
  by (simp add: enqueue_followup_run_def get_followup_queue_def Let_def offer_followup_run_def apply_queue_drop_policy_def
      settle_dropped_def complete_all_def add_followup_run_def remember_followup_drain_callback_def map_put_def)

lemma sample_collect_steps:
  "schedule_followup_drain [107] 7 (sample_state runs (sample_queue CollectMode DropOld 9 [sample_message 1, sample_message 2] False 1 0 [] [] 2) None []) =
     sample_two runs (Some (AbortedDone BeforeDebounce 0)) []"
  "resume_drain registry 0 t (sample_two runs (Some (AbortedDone BeforeDebounce 0)) []) = sample_two runs (Some DebounceReady) []"
  "resume_drain registry 0 t (sample_two runs (Some DebounceReady) []) = sample_two runs (Some (AbortedDone AfterDebounce 0)) []"
  by (simp_all add: resume_drain_def after_scan_def has_work_def check_debounce_def continue_scan_def
      schedule_followup_drain_def begin_queue_drain_def Let_def map_put_def loop_head_def)

lemma sample_collect_ready:
  "resume_drain registry 0 t (sample_two runs (Some (AbortedDone AfterDebounce 0)) []) = sample_two runs (Some CollectReady) []"
  by (simp add: resume_drain_def after_scan_def has_work_def dispatch_def has_cross_channel_items_def resolve_cross_channel_key_def
      has_runtime_only_metadata_def has_current_turn_metadata_def truthy_text_def or_empty_def thread_given_def sample_message_def)

lemma sample_collect_started:
  "resume_drain registry 0 t (sample_two (\<lambda>i. r) (Some CollectReady) []) =
     sample_two (\<lambda>i. r) (Some (GroupRun [sample_message 1, sample_message 2] [] None))
       [CallbackStarted [107] 7 (group_request (\<lambda>i. r) [sample_message 1, sample_message 2] None t)]"
  by (simp add: resume_drain_def Let_def preview_summary_def build_queue_summary_prompt_def split_collect_items_by_authorization_def
      start_groups_def)

lemma sample_collected:
  "followup_after registry sample_collect_calls (\<lambda>i. r) =
     sample_two (\<lambda>i. r) (Some (GroupRun [sample_message 1, sample_message 2] [] None))
       [CallbackStarted [107] 7 (group_request (\<lambda>i. r) [sample_message 1, sample_message 2] None 2)]"
  by (simp add: followup_after_def sample_collect_calls_def sample_first [of 9, simplified] sample_collect_second [simplified]
      sample_collect_steps [simplified] sample_collect_ready [simplified] sample_collect_started [simplified])

lemma sample_not_parked: "[107] \<notin> parked registry (sample_calls DropNew 2) runs"
  by (simp add: parked_def sample_calls_def sample_first [of 2, simplified] sample_scheduled [simplified] sample_runs [simplified]
      sample_second_room [of 2, simplified] sample_busy)

section \<open>The drop policy\<close>

text \<open>A full queue gives up its oldest messages and keeps the newest ones below the cap; summaries count
  every message given up and keep at most as many lines as the cap.\<close>

lemma overflow_keeps_newest:
  assumes "apply_queue_drop_policy q = (True, dropped, q')" "0 < fq_cap q"
  shows "dropped @ fq_items q' = fq_items q" "int (length (fq_items q')) < fq_cap q"
    "fq_dropped q' = fq_dropped q + (if fq_drop q = Summarize then length dropped else 0)"
    "dropped \<noteq> [] \<Longrightarrow> fq_drop q = Summarize \<Longrightarrow> int (length (fq_lines q')) \<le> fq_cap q"
  using assms by (auto simp: apply_queue_drop_policy_def Let_def split: if_splits)

text \<open>A full queue under the policy \<open>DropNew\<close> refuses the message and stays as it is.\<close>

lemma overflow_refuses_newest:
  "apply_queue_drop_policy q = (False, dropped, q') \<longleftrightarrow>
     0 < fq_cap q \<and> fq_cap q \<le> int (length (fq_items q)) \<and> fq_drop q = DropNew \<and> dropped = [] \<and> q' = q"
  by (auto simp: apply_queue_drop_policy_def Let_def)

section \<open>Properties\<close>

text \<open>C26: While nothing is cleared, aborted or dropped (the policy refuses new messages), the messages of a
  key are delivered in the order in which they were accepted, each exactly once: over every sequence of
  calls, events and failing callbacks, what the successful callbacks of the key stand for, followed by
  what still waits, is exactly what was accepted.\<close>

theorem messages_delivered_in_order:
  assumes "list_all lossless cs"
  shows "delivered_ids key (fs_log (followup_after registry cs runs)) @ waiting_ids key (followup_after registry cs runs) =
    accepted_ids registry key cs runs"
  using calm_after(2) [OF assms, of registry runs key] by (simp add: account_def account_with_def waiting_ids_def)

lemma sample_lossless: "list_all lossless (sample_calls DropNew 2)"
  by (simp add: sample_calls_def sample_settings_def)

theorem messages_delivered_in_order_witness:
  "delivered_ids [107] (fs_log (followup_after sample_registry (sample_calls DropNew 2) (\<lambda>i. sample_options))) @
     waiting_ids [107] (followup_after sample_registry (sample_calls DropNew 2) (\<lambda>i. sample_options)) = [1, 2]"
  using messages_delivered_in_order [OF sample_lossless, of "[107]" sample_registry "\<lambda>i. sample_options"]
  by (simp only: sample_after_new(2))

text \<open>C27: Waiting messages are delivered: after any such run, if the queue of a key has messages and a known
  callback and its last message was scheduled, then at most nine events per message, whatever their
  times, deliver everything that was ever accepted for the key, provided its callbacks succeed.\<close>

theorem waiting_messages_get_delivered:
  assumes "list_all lossless cs" "s = followup_after registry cs runs" "queue_at s key = Some i"
    and "fq_items (fs_objects s i) \<noteq> []" "map_of (fs_callbacks s) key \<noteq> None" "key \<notin> parked registry cs runs"
    and "9 * (length (fq_items (fs_objects s i)) + 1) \<le> length ts"
  shows "delivered_ids key (fs_log (fold (advance_drain registry i) ts s)) = accepted_ids registry key cs runs"
    (is "?delivered = _")
proof -
  have "has_work (fs_objects s i)" using assms(4) by (simp add: has_work_def)
  with served_after [OF assms(2,3) _ assms(5,6)] obtain d where d: "fs_drains s i = Some d" "dr_key d = key" by blast
  have "calm s" using calm_after(1) [OF assms(1)] assms(2) by simp
  from drain_delivers(3) [OF this d(1) assms(7)] d(2) have "?delivered = account s key" by simp
  then show ?thesis using calm_after(2) [OF assms(1)] assms(2) by simp
qed

theorem waiting_messages_get_delivered_witness:
  "delivered_ids [107] (fs_log (fold (advance_drain sample_registry 0) (replicate 18 0)
     (followup_after sample_registry (sample_calls DropNew 2) (\<lambda>i. sample_options)))) = [1, 2]"
proof -
  let ?s = "followup_after sample_registry (sample_calls DropNew 2) (\<lambda>i. sample_options)"
  have s: "queue_at ?s [107] = Some 0" "fq_items (fs_objects ?s 0) = [sample_message 2]" "map_of (fs_callbacks ?s) [107] \<noteq> None"
    by (simp_all add: sample_after_new(1) queue_at_def)
  have "[107] \<notin> parked sample_registry (sample_calls DropNew 2) (\<lambda>i. sample_options)" by (rule sample_not_parked)
  with waiting_messages_get_delivered [OF sample_lossless refl s(1) _ s(3), of "replicate 18 0"] s(2) show ?thesis
    by (simp add: sample_after_new(2))
qed

text \<open>C28: Over every sequence of calls and events, also with clearing, aborts and overflow: a queue of the map
  that has work and a known callback has a loop of its own, unless the last message that was accepted
  for its key came without a restart and the key has not been scheduled since; and an object that the
  map has forgotten holds no work.\<close>

theorem busy_queue_has_loop:
  assumes "s = followup_after registry cs runs" "has_work (fs_objects s i)"
  shows "\<exists>key. queue_at s key = Some i \<and>
    (map_of (fs_callbacks s) key \<noteq> None \<longrightarrow> key \<notin> parked registry cs runs \<longrightarrow> (\<exists>d. fs_drains s i = Some d \<and> dr_key d = key))"
proof -
  have "works s i" using assms(2) by (simp add: works_def)
  then obtain key where "queue_at s key = Some i"
    using followups_sound_after(1) [of registry cs runs] assms(1) unfolding followup_sound_def sound_with_def table_ok_def by blast
  with served_after [OF assms(1) this assms(2)] show ?thesis by blast
qed

text \<open>The first message comes without a restart and is left without a loop, the second one starts it.\<close>

definition restart_calls :: "followup_call list" where
  "restart_calls =
     [Enqueue_followup [107] (sample_message 1) (sample_settings CollectMode DropOld 9) ByMessageId (Some 7) False 0,
      Enqueue_followup [107] (sample_message 2) (sample_settings CollectMode DropOld 9) ByMessageId None True 1]"

lemma restart_second:
  "enqueue_followup_run [107] (sample_message 2) (sample_settings CollectMode DropOld 9) ByMessageId None True 1
      (sample_state runs (sample_queue CollectMode DropOld 9 [sample_message 1] False 0 0 [] [] 1) None []) =
    (True, sample_two runs (Some (AbortedDone BeforeDebounce 0)) [])"
  by (simp add: enqueue_followup_run_def get_followup_queue_def Let_def offer_followup_run_def apply_queue_drop_policy_def
      settle_dropped_def complete_all_def add_followup_run_def map_put_def kick_followup_drain_if_idle_def
      sample_collect_steps(1) [simplified])

lemma restart_parked:
  "parked registry (take 1 restart_calls) runs = {[107]}" "parked registry restart_calls runs = {}"
  "followup_after registry (take 1 restart_calls) runs =
     sample_state runs (sample_queue CollectMode DropOld 9 [sample_message 1] False 0 0 [] [] 1) None []"
  "followup_after registry restart_calls runs = sample_two runs (Some (AbortedDone BeforeDebounce 0)) []"
  by (simp_all add: parked_def restart_calls_def followup_after_def sample_first [of 9, simplified] restart_second [simplified])

theorem busy_queue_has_loop_witness:
  "\<exists>d. fs_drains (followup_after sample_registry restart_calls (\<lambda>i. sample_options)) 0 = Some d \<and> dr_key d = [107]"
proof -
  let ?s = "followup_after sample_registry restart_calls (\<lambda>i. sample_options)"
  have "has_work (fs_objects ?s 0)" by (simp add: restart_parked has_work_def)
  from busy_queue_has_loop [OF refl this] obtain key where key: "queue_at ?s key = Some 0"
    "map_of (fs_callbacks ?s) key \<noteq> None \<longrightarrow> key \<notin> parked sample_registry restart_calls (\<lambda>i. sample_options) \<longrightarrow>
      (\<exists>d. fs_drains ?s 0 = Some d \<and> dr_key d = key)"
    by blast
  have k: "key = [107]" using key(1) by (simp add: restart_parked queue_at_def split: if_splits)
  with key(2) show ?thesis unfolding k by (simp add: restart_parked)
qed

text \<open>C29: A run that collects messages never executes one under the authorization of another sender: in every
  reachable state, also after queued sessions were rewritten, all messages of a group that a loop
  hands over or will hand over have the sender, owner flag, execution overrides and shell rights of
  the run that executes the group.\<close>

theorem collected_run_keeps_authorization:
  assumes "s = followup_after registry cs runs" "fs_drains s i = Some d" "g \<in> set (pc_groups (dr_pc d))" "m \<in> set g"
  shows "authorization_fields (fs_runs s (fu_run m)) =
    authorization_fields (fs_runs s (fr_run (group_request (fs_runs s) g summary now)))"
proof -
  have "groups_ok s" using groups_ok_run [OF groups_ok_initial] assms(1) by (simp add: followup_after_def)
  with assms(2,3) have "one_authorization (fs_runs s) g" unfolding groups_ok_def by blast
  moreover have "last g \<in> set g" using assms(4) by (cases g) simp_all
  ultimately have "authorization_fields (fs_runs s (fu_run m)) = authorization_fields (fs_runs s (fu_run (last g)))"
    using assms(4) unfolding one_authorization_def by blast
  moreover have "fr_run (group_request (fs_runs s) g summary now) = fu_run (last g)" by (simp add: group_request_def)
  ultimately show ?thesis by (simp only:)
qed

theorem collected_run_keeps_authorization_witness:
  "authorization_fields sample_options = authorization_fields (fs_runs (followup_after sample_registry sample_collect_calls (\<lambda>i. sample_options))
     (fr_run (group_request (\<lambda>i. sample_options) [sample_message 1, sample_message 2] None 2)))"
proof -
  let ?s = "followup_after sample_registry sample_collect_calls (\<lambda>i. sample_options)"
  let ?g = "[sample_message 1, sample_message 2]"
  obtain d where d: "fs_drains ?s 0 = Some d" "?g \<in> set (pc_groups (dr_pc d))"
    by (simp add: sample_collected pc_groups_def)
  have "sample_message 1 \<in> set ?g" by simp
  from collected_run_keeps_authorization [OF refl d this, of None 2] show ?thesis by (simp only: sample_collected sample_state_simps)
qed

text \<open>C30: A message that overflows a full queue with a message in flight costs the next message. In every
  reachable state in which a loop hands over the message at the head of its queue and the queue is full
  under the settings of the call (whatever the cap and the policy, as long as the new message is
  accepted), the message in flight is removed to make room, and its success then removes the next
  message from the queue: that one was accepted, is not handed over, and waits no longer. With a cap of
  one, summaries and another mode than collecting, the lost message is the new one, and the loop goes
  on forever without calling anyone, as long as nothing but its own events happens.\<close>

theorem overflow_in_flight_loses_and_spins:
  assumes "s = followup_after registry cs runs" "queue_at s key = Some i"
    and "fs_drains s i = Some d" "dr_pc d = ItemRun PlainItem m" "fq_items (fs_objects s i) = m # rest"
    and "q = apply_queue_runtime_settings settings (fs_objects s i)" "0 < fq_cap q" "fq_cap q \<le> int (length (m # rest))"
    and "enqueue_followup_run key x settings mode callback restart now s = (True, t)" "u = settle_callback i True later t"
  shows "\<exists>lost. lost \<in> set (rest @ [x]) \<and> fq_items (fs_objects t i) = lost # fq_items (fs_objects u i) \<and>
    delivered_ids key (fs_log u) = delivered_ids key (fs_log s) @ [fu_id m] \<and>
    (fq_cap q = 1 \<and> fq_drop q = Summarize \<and> fq_mode q \<noteq> CollectMode \<longrightarrow> lost = x \<and>
      (\<forall>ts. fs_log (fold (advance_drain registry i) ts u) = fs_log u \<and>
        fq_items (fs_objects (fold (advance_drain registry i) ts u) i) = [] \<and> fs_drains (fold (advance_drain registry i) ts u) i \<noteq> None))"
proof -
  have sound: "followup_sound s" unfolding assms(1) by (rule followups_sound_after(1))
  have key: "dr_key d = key" by (rule loop_key_of_queue [OF sound assms(2,3)])
  have draining: "fq_draining (fs_objects s i)" by (rule loop_drains [OF sound assms(3)])
  note t = overflow_enqueued [OF assms(2) draining assms(6,7) _ assms(9), unfolded assms(5), OF assms(8)]
  let ?n = "nat (int (length (m # rest)) - fq_cap q)"
  have items: "fq_items (fs_objects t i) = drop ?n rest @ [x]" 
  proof -
    have "nat (int (length (m # rest)) - fq_cap q + 1) = Suc ?n" using assms(8) by (simp add: Suc_nat_eq_nat_zadd1)
    with t(1) show ?thesis by simp
  qed
  have u: "fq_items (fs_objects u i) = tl (drop ?n rest @ [x])" "fs_drains u i = Some (d\<lparr>dr_pc := ItemDone PlainItem True\<rparr>)"
    "delivered_ids key (fs_log u) = delivered_ids key (fs_log s) @ [fu_id m]" "fs_map u = fs_map s"
    "fq_mode (fs_objects u i) = fq_mode q" "fq_drop (fs_objects u i) = fq_drop q" "fq_last_run (fs_objects u i) = Some (fu_run x)"
    "fq_dropped (fs_objects u i) = fq_dropped (fs_objects t i)"
    using items t(2-8) assms(3,4) key by (simp_all add: assms(10) settle_callback_def shift_items_def drop_Suc)
  let ?lost = "hd (drop ?n rest @ [x])"
  have "?lost \<in> set (drop ?n rest @ [x])" by (rule hd_in_set) simp
  then have lost: "?lost \<in> set (rest @ [x])" "fq_items (fs_objects t i) = ?lost # fq_items (fs_objects u i)"
    using items u(1) by (auto dest: in_set_dropD)
  have spin: "?lost = x \<and> fs_log (fold (advance_drain registry i) ts u) = fs_log u \<and>
      fq_items (fs_objects (fold (advance_drain registry i) ts u) i) = [] \<and> fs_drains (fold (advance_drain registry i) ts u) i \<noteq> None"
    if c: "fq_cap q = 1" "fq_drop q = Summarize" "fq_mode q \<noteq> CollectMode" for ts
  proof -
    have nothing: "drop ?n rest = []" using c(1) by simp
    have settled: "settled_empty registry i u"
      using u nothing c t(9) assms(2) key unfolding settled_empty_def by (simp add: queue_at_def)
    have "?lost = x" using c(1) by simp
    with settled_spins [OF settled, of ts] show ?thesis by blast
  qed
  show ?thesis using lost u(3) spin by (intro exI [of _ ?lost]) auto
qed

text \<open>The message in flight of the sample is the only one of a queue with a cap of one.\<close>

lemma sample_in_flight:
  "sample_calls Summarize 1 = take 5 (sample_calls Summarize 1) @
     [Enqueue_followup [107] (sample_message 2) (sample_settings FollowupMode Summarize 1) ByMessageId (Some 7) False 1,
      Schedule_drain [107] 7, Callback_settles 0 True 2]"
  "followup_after registry (take 5 (sample_calls Summarize 1)) runs =
     sample_one runs Summarize 1 (Some (ItemRun PlainItem (sample_message 1))) [CallbackStarted [107] 7 (request_of_run (sample_message 1))]"
  by (simp_all add: followup_after_def sample_calls_def sample_first [of 1, simplified] sample_scheduled [simplified] sample_runs [simplified])

theorem overflow_in_flight_loses_and_spins_witness:
  "let u = followup_after sample_registry (sample_calls Summarize 1) (\<lambda>i. sample_options);
     v = fold (advance_drain sample_registry 0) [5, 6, 7] u
   in accepted_ids sample_registry [107] (sample_calls Summarize 1) (\<lambda>i. sample_options) = [1, 2] \<and>
     delivered_ids [107] (fs_log v) = [1] \<and> fq_items (fs_objects v 0) = [] \<and> fs_drains v 0 \<noteq> None"
proof -
  let ?runs = "\<lambda>i::nat. sample_options"
  let ?s = "followup_after sample_registry (take 5 (sample_calls Summarize 1)) ?runs"
  let ?t = "sample_state ?runs (sample_queue FollowupMode Summarize 1 [sample_message 2] True 1 1 sample_lines [sample_message 1] 2)
    (Some (ItemRun PlainItem (sample_message 1))) [CallbackStarted [107] 7 (request_of_run (sample_message 1))]"
  let ?q = "apply_queue_runtime_settings (sample_settings FollowupMode Summarize 1) (fs_objects ?s 0)"
  have u: "settle_callback 0 True 2 ?t = followup_after sample_registry (sample_calls Summarize 1) ?runs"
    by (simp add: sample_settled [simplified] sample_after_full(1))
  have s: "queue_at ?s [107] = Some 0"
    "fs_drains ?s 0 = Some \<lparr>dr_key = [107], dr_callback = 7, dr_force = False, dr_pc = ItemRun PlainItem (sample_message 1)\<rparr>"
    "dr_pc \<lparr>dr_key = [107], dr_callback = 7, dr_force = False, dr_pc = ItemRun PlainItem (sample_message 1)\<rparr> = ItemRun PlainItem (sample_message 1)"
    "fq_items (fs_objects ?s 0) = sample_message 1 # []"
    by (simp_all add: sample_in_flight(2) queue_at_def)
  have q: "0 < fq_cap ?q" "fq_cap ?q \<le> int (length (sample_message 1 # []))" "fq_cap ?q = 1 \<and> fq_drop ?q = Summarize \<and> fq_mode ?q \<noteq> CollectMode"
    by (simp_all add: sample_in_flight(2))
  have e: "enqueue_followup_run [107] (sample_message 2) (sample_settings FollowupMode Summarize 1) ByMessageId (Some 7) False 1 ?s = (True, ?t)"
    by (simp only: sample_in_flight(2) sample_second_full)
  from overflow_in_flight_loses_and_spins [OF refl s refl q(1,2) e u [symmetric]] q(3)
  have "fs_log (fold (advance_drain sample_registry 0) [5, 6, 7] (followup_after sample_registry (sample_calls Summarize 1) ?runs)) =
      fs_log (followup_after sample_registry (sample_calls Summarize 1) ?runs) \<and>
    fq_items (fs_objects (fold (advance_drain sample_registry 0) [5, 6, 7] (followup_after sample_registry (sample_calls Summarize 1) ?runs)) 0) = [] \<and>
    fs_drains (fold (advance_drain sample_registry 0) [5, 6, 7] (followup_after sample_registry (sample_calls Summarize 1) ?runs)) 0 \<noteq> None"
    by blast
  then show ?thesis unfolding Let_def by (simp only: sample_after_full simp_thms) simp
qed

end
