(* ===== verification/SessionCleanup.thy ===== *)
theory SessionCleanup
  imports FollowupProps CommandQueue
begin

text \<open>
  Clearing what waits for a list of sessions (\<open>openclaw-main/src/auto-reply/reply/queue/cleanup.ts\<close>,
  \<open>agents/pi-embedded-runner/lanes.ts\<close>): the followup queue and the callback of every key, and the
  lane of the command queue that runs the turns of the session. \<open>seen\<close> and \<open>clearedKeys\<close> of the code
  hold the same keys; one list stands for both. The test hooks that replace the two functions are left out.
\<close>

definition resolve_session_lane :: "jstring \<Rightarrow> jstring" where
  "resolve_session_lane key =
     (let cleaned = (if trim key = [] then lane_name MainLane else trim key)
      in if starts_with cleaned (js ''session:'') then cleaned else js ''session:'' @ cleaned)"

definition resolve_global_lane :: "jstring option \<Rightarrow> jstring" where
  "resolve_global_lane lane =
     (let cleaned = map_option trim lane
      in if cleaned = Some (lane_name CronLane) then lane_name CronNestedLane
         else if or_empty cleaned = [] then lane_name MainLane else or_empty cleaned)"

fun clear_session_loop ::
  "jstring option list \<Rightarrow> nat \<times> nat \<times> jstring list \<Rightarrow> followup_state \<Rightarrow> 'v command_queue \<Rightarrow>
   (nat \<times> nat \<times> jstring list) \<times> followup_state \<times> 'v command_queue" where
  "clear_session_loop [] r s q = (r, s, q)"
| "clear_session_loop (key # keys) (f, l, cleared) s q =
     (case normalize_optional_string (of_string key) of
        None \<Rightarrow> clear_session_loop keys (f, l, cleared) s q
      | Some k \<Rightarrow>
          if k \<in> set cleared then clear_session_loop keys (f, l, cleared) s q
          else (let (n, s1) = clear_followup_queue k s; s2 = clear_followup_drain_callback k s1;
                    (m, q1) = clear_lane (resolve_session_lane k) q
                in clear_session_loop keys (f + n, l + m, cleared @ [k]) s2 q1))"

definition clear_session_queues ::
  "jstring option list \<Rightarrow> followup_state \<Rightarrow> 'v command_queue \<Rightarrow> (nat \<times> nat \<times> jstring list) \<times> followup_state \<times> 'v command_queue" where
  "clear_session_queues keys s q = clear_session_loop keys (0, 0, []) s q"

section \<open>One key\<close>

definition followup_queue_of :: "jstring \<Rightarrow> followup_state \<Rightarrow> followup_queue option" where
  "followup_queue_of k s = map_option (fs_objects s) (queue_at s k)"

definition waiting_count :: "jstring \<Rightarrow> followup_state \<Rightarrow> nat" where
  "waiting_count k s = (case followup_queue_of k s of None \<Rightarrow> 0 | Some q \<Rightarrow> length (fq_items q) + fq_dropped q)"

definition session_lane_queue :: "jstring \<Rightarrow> 'v command_queue \<Rightarrow> queue_entry list" where
  "session_lane_queue k q = ln_queue (lane_at (normalize_lane (resolve_session_lane k)) q)"

lemma clear_one_key:
  assumes s: "followup_sound s" and k: "trim k = k" "k \<noteq> []" and c: "clear_followup_queue k s = (n, s1)"
  defines "t \<equiv> clear_followup_drain_callback k s1"
  shows "followup_sound t" "n = waiting_count k s" "queue_at t k = None" "map_of (fs_callbacks t) k = None"
    "\<And>k'. k' \<noteq> k \<Longrightarrow> followup_queue_of k' t = followup_queue_of k' s"
    "\<And>k'. k' \<noteq> k \<Longrightarrow> map_of (fs_callbacks t) k' = map_of (fs_callbacks s) k'"
proof -
  have e: "get_existing_followup_queue (trim k) s = queue_at s k"
    using k by (simp add: get_existing_followup_queue_def queue_at_def)
  have "followup_sound s1" using clear_queue_serves [OF s, of k] c by (simp add: serves_def)
  then show "followup_sound t" unfolding t_def using clear_callback_serves by (blast dest: servesD)
  show "map_of (fs_callbacks t) k = None" by (simp add: t_def clear_followup_drain_callback_def map_of_map_del)
  show "n = waiting_count k s" "queue_at t k = None"
    using c e k by (auto simp: clear_followup_queue_def waiting_count_def followup_queue_of_def t_def Let_def queue_at_def
        clear_followup_drain_callback_def map_of_map_del split: option.splits)
  show "map_of (fs_callbacks t) k' = map_of (fs_callbacks s) k'" if "k' \<noteq> k" for k'
    using c e that by (auto simp: clear_followup_queue_def t_def Let_def clear_followup_drain_callback_def map_of_map_del
        split: option.splits)
  show "followup_queue_of k' t = followup_queue_of k' s" if other: "k' \<noteq> k" for k'
  proof (cases "queue_at s k")
    case None
    then have "s1 = s" using c e by (simp add: clear_followup_queue_def)
    then show ?thesis by (simp add: followup_queue_of_def t_def clear_followup_drain_callback_def)
  next
    case (Some i)
    have "queue_at s k' \<noteq> Some i"
      using s Some other unfolding followup_sound_def sound_with_def table_ok_def by blast
    moreover have "queue_at t k' = queue_at s k'" "\<And>j. j \<noteq> i \<Longrightarrow> fs_objects t j = fs_objects s j"
      using c e Some other k by (auto simp: clear_followup_queue_def t_def Let_def queue_at_def
          clear_followup_drain_callback_def map_of_map_del)
    ultimately show ?thesis by (cases "queue_at s k'") (auto simp: followup_queue_of_def)
  qed
qed

lemma observe_all_lanes: "cq_lanes (fold (\<lambda>e. observe (g e)) es q) = cq_lanes q"
  by (induction es arbitrary: q) (simp_all add: observe_def)

lemma clear_one_lane:
  assumes "clear_lane lane q = (m, q1)"
  shows "m = length (ln_queue (lane_at (normalize_lane lane) q))" "ln_queue (lane_at (normalize_lane lane) q1) = []"
    "\<And>lane'. lane' \<noteq> normalize_lane lane \<Longrightarrow> lane_at lane' q1 = lane_at lane' q"
  using assms
  by (auto simp: clear_lane_def lane_at_def put_lane_def observe_all_lanes map_of_map_put new_lane_def Let_def split: option.splits if_splits)

section \<open>All keys\<close>

text \<open>What the clearing of some keys does to both components: nothing waits for them, the rest is as it was.\<close>

definition sessions_cleared :: "jstring list \<Rightarrow> followup_state \<Rightarrow> 'v command_queue \<Rightarrow> followup_state \<Rightarrow> 'v command_queue \<Rightarrow> bool" where
  "sessions_cleared ks s q s' q' \<longleftrightarrow>
     (\<forall>k\<in>set ks. followup_queue_of k s' = None \<and> map_of (fs_callbacks s') k = None \<and> session_lane_queue k q' = []) \<and>
     (\<forall>k. k \<notin> set ks \<longrightarrow> followup_queue_of k s' = followup_queue_of k s \<and> map_of (fs_callbacks s') k = map_of (fs_callbacks s) k) \<and>
     (\<forall>lane. lane \<notin> (\<lambda>k. normalize_lane (resolve_session_lane k)) ` set ks \<longrightarrow> lane_at lane q' = lane_at lane q)"

lemma sessions_cleared_none: "sessions_cleared [] s q s q"
  by (simp add: sessions_cleared_def)

lemma sessions_cleared_more:
  assumes "sessions_cleared [k] s q t r" "sessions_cleared ks t r s' q'" "k \<notin> set ks"
  shows "sessions_cleared (k # ks) s q s' q'"
proof -
  let ?lane = "\<lambda>k. normalize_lane (resolve_session_lane k)"
  have "session_lane_queue k q' = []"
  proof (cases "?lane k \<in> ?lane ` set ks")
    case True
    then show ?thesis using assms(2) by (auto simp: sessions_cleared_def session_lane_queue_def)
  next
    case False
    then have "lane_at (?lane k) q' = lane_at (?lane k) r" using assms(2) by (simp add: sessions_cleared_def)
    then show ?thesis using assms(1) by (simp add: sessions_cleared_def session_lane_queue_def)
  qed
  with assms show ?thesis by (simp add: sessions_cleared_def)
qed

lemma clear_one_session:
  assumes "followup_sound s" "trim k = k" "k \<noteq> []" "clear_followup_queue k s = (n, s1)" "clear_lane (resolve_session_lane k) q = (m, q1)"
  shows "sessions_cleared [k] s q (clear_followup_drain_callback k s1) q1"
  using clear_one_key(3-6) [OF assms(1-4)] clear_one_lane(2,3) [OF assms(5)]
  by (simp add: sessions_cleared_def session_lane_queue_def) (simp add: followup_queue_of_def)

lemma waiting_count_cong: "followup_queue_of k s = followup_queue_of k t \<Longrightarrow> waiting_count k s = waiting_count k t"
  by (simp add: waiting_count_def)

lemma session_key_trimmed:
  "normalize_optional_string (of_string key) = Some k \<Longrightarrow> trim k = k \<and> k \<noteq> []"
  by (cases key) (auto simp: normalize_optional_string_def normalize_nullable_string_def split: if_splits)

definition session_keys_of :: "jstring option list \<Rightarrow> jstring set" where
  "session_keys_of keys = {k. \<exists>key\<in>set keys. normalize_optional_string (of_string key) = Some k}"

lemma session_keys_of_simps [simp]:
  "session_keys_of [] = {}"
  "session_keys_of (key # keys) = (case normalize_optional_string (of_string key) of None \<Rightarrow> {} | Some k \<Rightarrow> {k}) \<union> session_keys_of keys"
  by (auto simp: session_keys_of_def split: option.split)

lemma clear_loop:
  assumes "followup_sound s" "clear_session_loop keys (f, l, old) s q = ((f', l', ks), s', q')"
  shows "\<exists>added. ks = old @ added \<and> distinct added \<and> set added = session_keys_of keys - set old \<and>
    f' = f + sum_list (map (\<lambda>k. waiting_count k s) added) \<and> sessions_cleared added s q s' q'"
  using assms
proof (induction keys arbitrary: f l old s q)
  case Nil
  then show ?case by (auto simp: sessions_cleared_none)
next
  case (Cons key keys)
  show ?case
  proof (cases "normalize_optional_string (of_string key)")
    case None
    with Cons.IH [OF Cons.prems(1)] Cons.prems(2) show ?thesis by simp
  next
    case (Some k)
    show ?thesis
    proof (cases "k \<in> set old")
      case True
      with Some Cons.IH [OF Cons.prems(1), of f l old q] Cons.prems(2) show ?thesis by (simp add: insert_Diff_if)
    next
      case False
      obtain n s1 where c: "clear_followup_queue k s = (n, s1)" by (metis surj_pair)
      obtain m q1 where m: "clear_lane (resolve_session_lane k) q = (m, q1)" by (metis surj_pair)
      let ?t = "clear_followup_drain_callback k s1"
      have k: "trim k = k" "k \<noteq> []" using session_key_trimmed [OF Some] by simp_all
      note one = clear_one_key [OF Cons.prems(1) k c]
      have "clear_session_loop keys (f + n, l + m, old @ [k]) ?t q1 = ((f', l', ks), s', q')"
        using Cons.prems(2) Some False c m by simp
      from Cons.IH [OF one(1) this] obtain added where a: "ks = (old @ [k]) @ added" "distinct added"
        "set added = session_keys_of keys - set (old @ [k])" "f' = f + n + sum_list (map (\<lambda>k. waiting_count k ?t) added)"
        "sessions_cleared added ?t q1 s' q'" by blast
      have fresh: "k \<notin> set added" using a(3) by simp
      have "waiting_count k' ?t = waiting_count k' s" if "k' \<in> set added" for k'
        using that fresh by (intro waiting_count_cong one(5)) blast
      then have "map (\<lambda>k. waiting_count k ?t) added = map (\<lambda>k. waiting_count k s) added" by simp
      then have "f' = f + sum_list (map (\<lambda>k. waiting_count k s) (k # added))" using a(4) one(2) by (simp only:) simp
      moreover have "sessions_cleared (k # added) s q s' q'"
        by (rule sessions_cleared_more [OF clear_one_session [OF Cons.prems(1) k c m] a(5) fresh])
      moreover have "set (k # added) = session_keys_of (key # keys) - set old" using a(3) False Some by auto
      ultimately show ?thesis using a(1,2) fresh by (intro exI [of _ "k # added"]) simp
    qed
  qed
qed

text \<open>C31: Clearing sessions clears both components for exactly the named keys: every distinct non-empty key,
  trimmed, is cleared once; afterwards no message and no callback waits for it and its lane holds no
  command, the reported number is the number of messages that waited or had been dropped, and the
  queues, callbacks and lanes of all other sessions are untouched.\<close>

theorem sessions_are_cleared:
  assumes "s = followup_after registry cs runs" "clear_session_queues keys s q = ((f, l, ks), s', q')"
  shows "distinct ks \<and> set ks = session_keys_of keys \<and> f = sum_list (map (\<lambda>k. waiting_count k s) ks) \<and>
    sessions_cleared ks s q s' q'"
  using clear_loop [of s keys 0 0 "[]" q f l ks s' q'] assms followups_sound_after(1)
  by (auto simp: clear_session_queues_def)

theorem sessions_are_cleared_witness:
  "\<exists>f l ks s' q'. clear_session_queues [Some [107], None, Some [107]]
       (followup_after sample_registry (sample_calls DropNew 2) (\<lambda>i. sample_options)) (empty_queue :: nat command_queue) = ((f, l, ks), s', q') \<and>
     set ks = {[107]} \<and> followup_queue_of [107] s' = None"
proof -
  let ?s = "followup_after sample_registry (sample_calls DropNew 2) (\<lambda>i. sample_options)"
  obtain f l ks s' q' where c: "clear_session_queues [Some [107], None, Some [107]] ?s (empty_queue :: nat command_queue) = ((f, l, ks), s', q')"
    by (metis prod_cases3)
  have "session_keys_of [Some [107], None, Some [107]] = {[107]}"
    by (simp add: normalize_optional_string_def normalize_nullable_string_def trim_id is_ws_def)
  with sessions_are_cleared [OF refl c] have "set ks = {[107]}" "followup_queue_of [107] s' = None"
    by (simp_all add: sessions_cleared_def)
  with c show ?thesis by blast
qed

end
