(* ===== verification/Spec2Isabelle.thy ===== *)
theory Spec2Isabelle
  imports ManifestProps StoreProps IdentityProps RecallProps ContextProps QueueProps GatewayProps WakeProps EventProps
    RoutingProps SessionCleanup
begin

text \<open>
  A verification library for the TypeScript of this repository: the manifest engine
  (\<open>src/openclaw_2_claw_harder/src\<close>), which gives an assistant a memory of facts that is
  arbitrated, versioned and stored, and the self-contained state machines of the gateway that
  hosts it (\<open>src/openclaw-main/src\<close>).

  \<^bold>\<open>The manifest engine.\<close> A manifest is a document of facts, references, summaries and an operation
  log. The manager is its only writer: it derives an identity key for an observation, arbitrates
  it against the fact that holds the key, moves facts through their states, marks summaries that
  became stale, and commits through the persistence layer, which guards every write by a revision
  and an integrity hash. The context engine keeps the recent turns in a sliding window, moves
  large tool results into artifacts, and compiles the beliefs into the text that the model reads;
  the recall tool reads artifacts back. The adapter puts one engine per session into the
  context-engine slot of OpenClaw.

  \<^item> \<open>ManifestTypes\<close>: \<open>types/manifest.ts\<close>, the records and enumerations of the document and its
    JSON form.
  \<^item> \<open>Serialization\<close>: \<open>manifest/serialization.ts\<close>. \<open>Identity\<close>: \<open>manifest/identity.ts\<close>.
    \<open>Arbitration\<close>: \<open>manifest/arbitration.ts\<close>. \<open>Indexing\<close>: \<open>manifest/indexing.ts\<close>.
  \<^item> \<open>Environment\<close>: clock, random identifiers and file system as explicit state (\<open>world\<close>), and the
    oracles of the engine. \<open>Persistence\<close>: \<open>manifest/persistence.ts\<close>, with the interleaving of two
    committing processes as a step relation.
  \<^item> \<open>ManifestManager\<close>: \<open>manifest/manifest-manager.ts\<close>, every method on the record \<open>manager\<close>;
    \<open>exec\<close> is one call of it.
  \<^item> \<open>RecallTool\<close>: \<open>tools/recall-tool.ts\<close>. \<open>SlidingWindow\<close>, \<open>Injection\<close>, \<open>ContextEngine\<close>: the
    files of \<open>context/\<close>. \<open>Adapter\<close>: \<open>adapters/openclaw-context-adapter.ts\<close> and
    \<open>plugin-entry.ts\<close>; \<open>adapter_exec\<close> is one call of the adapter.

  \<^bold>\<open>The gateway.\<close> Commands run in lanes of an in-process queue; heartbeats of agents pass a gate;
  nodes that are away find their work in a pending table; dangerous commands wait for an approval;
  rate limiters and caches guard the entrances.

  \<^item> \<open>CommandQueue\<close>: \<open>process/command-queue.ts\<close>, \<open>lanes.ts\<close>, \<open>command-queue.types.ts\<close>. The
    closures that wait for a task are part of the state, \<open>queue_exec\<close> is one call or one event of
    the runtime, and \<open>queue_reachable\<close> are the states of all their sequences.
  \<^item> \<open>RateLimits\<close>: \<open>infra/fixed-window-rate-limit.ts\<close>, \<open>gateway/auth-rate-limit.ts\<close>.
    \<open>DedupeCache\<close>: \<open>infra/dedupe.ts\<close>, \<open>map-size.ts\<close>. \<open>HeartbeatCooldown\<close>:
    \<open>infra/heartbeat-cooldown.ts\<close> and its callers in \<open>heartbeat-runner.ts\<close>. \<open>NodePendingWork\<close>:
    \<open>gateway/node-pending-work.ts\<close>. \<open>ExecApprovals\<close>: \<open>gateway/exec-approval-manager.ts\<close>.
  \<^item> \<open>HeartbeatWake\<close>: \<open>infra/heartbeat-wake.ts\<close>, the queue of wakes with its timer and the batches in
    flight as state; \<open>wake_exec\<close> is one call or one event of the runtime.
  \<^item> \<open>StringCoerce\<close>: \<open>shared/string-coerce.ts\<close>. \<open>AccountId\<close>: \<open>routing/account-id.ts\<close> with its caches.
    \<open>ChannelRoute\<close>: \<open>plugin-sdk/channel-route.ts\<close> and the delivery contexts of
    \<open>utils/delivery-context.shared.ts\<close>. \<open>SystemEvents\<close>: \<open>infra/system-events.ts\<close>, the lines that are
    put before the next prompt of a session.
  \<^item> \<open>SessionKeys\<close>: \<open>routing/session-key.ts\<close>, \<open>sessions/session-key-utils.ts\<close>. \<open>AgentRouting\<close>:
    \<open>routing/resolve-route.ts\<close> and the files it rests on; its caches are the state
    \<open>route_caches\<close>. \<open>RoutingOrder\<close> gives the meaning of a list of bindings (\<open>reference_route\<close>),
    \<open>RoutingIndex\<close> and \<open>RoutingSearch\<close> show that the merged, indexed search finds it,
    \<open>RouteCaches\<close> and \<open>SessionKeyLaws\<close> hold the invariants of the caches and the shape of keys.
  \<^item> \<open>FollowupTypes\<close>: the messages that wait while an agent is busy, their settings and prompts
    (\<open>auto-reply/reply/queue/types.ts\<close>, \<open>normalize.ts\<close>, \<open>settings.ts\<close>, \<open>settings-runtime.ts\<close>,
    \<open>queue-policy.ts\<close>, \<open>utils/queue-helpers.ts\<close>). \<open>FollowupQueue\<close>: \<open>state.ts\<close>, \<open>enqueue.ts\<close>, \<open>drain.ts\<close>;
    the asynchronous loops are part of the state with the \<open>await\<close> at which they stand, and
    \<open>followup_exec\<close> is one call or one event of the runtime. \<open>SessionCleanup\<close>: \<open>cleanup.ts\<close>, which
    clears the followup queue and the command lane of a session together.

  \<^bold>\<open>Shared theories.\<close> \<open>JsPrelude\<close> holds strings (lists of UTF-16 code units), \<open>Map\<close> and \<open>Set\<close> in
  insertion order, stable sorting and the string functions of the library, with the collection
  \<open>js_simps\<close>; \<open>JsNumber\<close> holds binary64 numbers as integer multiples of the least positive double
  with the rounding written out; \<open>JsValue\<close> holds data values and \<open>JSON.stringify\<close>. \<open>Contracts\<close>
  holds the locales that components share: \<open>methods\<close> (an object with an invariant and a relation
  that every call respects; interpreted on the manager as \<open>hist\<close> and \<open>live\<close>), \<open>evicting_queue\<close> (a
  buffer that keeps a suffix of what was pushed; the sliding window, the recent runs of an agent
  and the system events of a session), \<open>limiter\<close> (what an admission control promises about the times it admits; both rate
  limiters and the heartbeat gate), \<open>memoized\<close> (a function behind a cache; account identifiers, the
  lookup of agents and whole routes). \<open>FollowupProgress\<close> states \<open>ranked\<close>, a machine that lowers a
  rank at every step until it has finished, and interprets it on the loops of the followup queues. \<open>Persistence\<close> interprets \<open>revision_store\<close>, \<open>Indexing\<close>
  interprets \<open>set_index\<close>.

  \<^bold>\<open>What is proved.\<close> \<open>ManagerProps\<close> and \<open>QueueInvariants\<close> hold the invariants and their
  preservation by every operation. The properties are in the theories named \<open>Props\<close>, each with a
  witness on a concrete state: \<open>ManifestProps\<close> (refinement of \<open>addFact\<close> by a belief update, exact
  indexes, kept history up to reloads, one active fact per key, queries, staleness, refinement proposals),
  \<open>StoreProps\<close> (round trip of commit and load, atomic writes, serial and overlapping writers),
  \<open>IdentityProps\<close> (canonical JSON, index building), \<open>RecallProps\<close> (fidelity and search of the recall
  tool), \<open>ContextProps\<close> (bounded prompts, kept conversations, offloaded results, secrets),
  \<open>QueueProps\<close> (no command lost, order, work conservation, waiters), \<open>GatewayProps\<close> (bounds of the
  limiters, exactness of the cache, complete drains, approvals used once), \<open>WakeProps\<close> (a pending
  wake has a timer and reaches the handler, the pause after a busy handler, coalescing), \<open>EventProps\<close> (exact route keys,
  queues of events as the end of their history, what was shown is what is consumed), \<open>RoutingProps\<close> (the first binding of the
  best rank, invisible caches, session keys that name conversations, up to those spelled alike, and can be read back),
  \<open>FollowupProps\<close> (messages delivered once and in order, loops that come to their end, no queue
  without a loop except after a message that asked for no restart, one authorization per collected run, what an overflow can do) and
  \<open>SessionCleanup\<close> (nothing left for a cleared session). \<open>FollowupInvariants\<close>,
  \<open>FollowupDelivery\<close>, \<open>FollowupProgress\<close> and \<open>FollowupAuthorization\<close> hold the invariants of the
  followup queues and their preservation by every event. \<open>HeartbeatWake\<close> and \<open>SystemEvents\<close> hold the
  invariants of their states, \<open>ChannelRoute\<close> the decoder that shows JSON strings can be read back.

  \<^bold>\<open>Loops.\<close> Recursion is structural or proved to end by a measure (the pump of a lane shortens its
  queue). The one loop that may not end, in \<open>recordRunStart\<close>, is a \<open>partial_function\<close>, and
  \<open>run_start_returns\<close> says exactly when it does. No function takes fuel.

  \<^bold>\<open>Parameters.\<close> SHA-256, random identifiers, the clock, the file system with its failures,
  \<open>localeCompare\<close>, the runtime compaction of OpenClaw, the parser of network addresses, the catalog
  of channels and the registry of plugins are arguments of the definitions that use them. Hypotheses on them are named where they occur: the
  hash returns 64 hexadecimal digits, identifiers are fresh. The parts of a configuration object are
  taken to be replaced and not changed in place, as the caches of routing compare references.

  \<^bold>\<open>Not modelled.\<close> Case mapping and case folding are those of ASCII. \<open>path.join\<close> does not normalize.
  Members inherited from \<open>Object.prototype\<close> are not visible through record lookups. Asynchronous
  methods run to their end one after the other, except for the steps of two committing processes
  and the events of the command queue, the wakes and the followup queues. Log output is left out. Waiting callbacks of the queue do
  not call it back, callbacks of the followup queues do not call the queue before they return
  their promise, and the test-only hard reset of the queue is left out because closures of
  discarded lanes would outlive it. Delays are whole milliseconds. Manifests are typed: a
  document on disk whose members have other types than the interface declares is refused when it is
  read, where the source takes it as it is, and revisions are whole numbers. The rest of \<open>openclaw-main\<close> (model loops, network servers,
  channels, extensions, command line, user interfaces) orchestrates outside services, and the
  Python prototype in \<open>src/runtime_core\<close> is not part of the TypeScript program.
\<close>

end
